(* ===== verification/Prelude.thy ===== *)
theory Prelude
  imports Complex_Main "HOL-Library.Word" "HOL-Library.Multiset"
begin

text \<open>
  Shared vocabulary of the development: Python's exceptions as values of a sum type with its
  sequencing operators, UUIDs as 128-bit words with their canonical text, Python's notion of
  blank text, the loop that numbers list positions, the stable descending sort that
  \<^verbatim>\<open>sorted(..., reverse=True)\<close> is, and the dictionary that a comprehension over a list builds.
  The collection \<open>result_simps\<close> holds the rewrite rules by which proofs run through a chain of
  operations that may raise.
\<close>

named_theorems result_simps

subsection \<open>Exceptions as values\<close>

text \<open>
  The exceptions the modelled code raises or lets escape from the standard library.
  Messages are kept where a caller or an API client reads them. \<open>IntegrityError\<close> is the database's
  refusal of a row, with the name of the constraint, and \<open>DataError\<close> its refusal of a value outside the
  type of its column; \<open>DomainError\<close> carries the class name of an
  exception class of the application that has no constructor of its own here.
\<close>

datatype py_error =
    ConsensusError string
  | ValueError string
  | TypeError string
  | InvalidOperation
  | DivisionByZero
  | IndexError
  | KeyError
  | AttributeError
  | InvalidSessionTransition string
  | LedgerIntegrityError string
  | NonFiniteDecimal
  | IntegrityError string
  | DataError string
  | DomainError string string

type_synonym 'a result = "py_error + 'a"

fun ebind :: "'e + 'a \<Rightarrow> ('a \<Rightarrow> 'e + 'b) \<Rightarrow> 'e + 'b" where
  "ebind (Inl e) f = Inl e"
| "ebind (Inr x) f = f x"

definition eguard :: "bool \<Rightarrow> 'e \<Rightarrow> 'e + unit" where
  "eguard ok e = (if ok then Inr () else Inl e)"

text \<open>A comprehension whose element expression may raise: elements left to right.\<close>

fun emap :: "('a \<Rightarrow> 'e + 'b) \<Rightarrow> 'a list \<Rightarrow> 'e + 'b list" where
  "emap f [] = Inr []"
| "emap f (x # xs) = ebind (f x) (\<lambda>y. ebind (emap f xs) (\<lambda>ys. Inr (y # ys)))"

text \<open>A loop over a list whose body may raise: the state is threaded left to right.\<close>

fun efold :: "('s \<Rightarrow> 'a \<Rightarrow> 'e + 's) \<Rightarrow> 's \<Rightarrow> 'a list \<Rightarrow> 'e + 's" where
  "efold f s [] = Inr s"
| "efold f s (x # xs) = ebind (f s x) (\<lambda>s'. efold f s' xs)"

lemma ebind_case [code_unfold]: "ebind m f = (case m of Inl e \<Rightarrow> Inl e | Inr x \<Rightarrow> f x)"
  by (cases m) auto

lemma ebind_eq_Inr_iff [result_simps]: "ebind m f = Inr y \<longleftrightarrow> (\<exists>x. m = Inr x \<and> f x = Inr y)"
  by (cases m) auto

lemma ebind_eq_Inl_iff:
  "ebind m f = Inl e \<longleftrightarrow> m = Inl e \<or> (\<exists>x. m = Inr x \<and> f x = Inl e)"
  by (cases m) auto

lemma ebind_assoc: "ebind (ebind m f) g = ebind m (\<lambda>x. ebind (f x) g)"
  by (cases m) auto

lemma eguard_Inr_iff [result_simps]: "eguard ok e = Inr u \<longleftrightarrow> ok"
  by (simp add: eguard_def)

lemma eguard_True [simp]: "eguard True e = Inr ()"
  by (simp add: eguard_def)

lemma eguard_False [simp]: "eguard False e = Inl e"
  by (simp add: eguard_def)

lemma emap_Inr_list_all2: "emap f xs = Inr ys \<longleftrightarrow> list_all2 (\<lambda>x y. f x = Inr y) xs ys"
  by (induction xs arbitrary: ys) (auto simp: result_simps list_all2_Cons1)

lemma emap_total:
  assumes "\<And>x. x \<in> set xs \<Longrightarrow> \<exists>y. f x = Inr y"
  shows "\<exists>ys. emap f xs = Inr ys"
  using assms by (induction xs) (force simp: result_simps)+

lemma emap_Inr: "emap (\<lambda>x. Inr (g x)) xs = Inr (map g xs)"
  by (induction xs) auto

lemma efold_invariant:
  assumes "efold f s xs = Inr s'" and "P s"
    and "\<And>s x t. x \<in> set xs \<Longrightarrow> P s \<Longrightarrow> f s x = Inr t \<Longrightarrow> P t"
  shows "P s'"
  using assms by (induction xs arbitrary: s) (auto simp: result_simps)

lemma efold_total:
  assumes "P s" and "\<And>s x. x \<in> set xs \<Longrightarrow> P s \<Longrightarrow> \<exists>t. f s x = Inr t \<and> P t"
  shows "\<exists>s'. efold f s xs = Inr s' \<and> P s'"
  using assms
proof (induction xs arbitrary: s)
  case (Cons x xs)
  from Cons.prems obtain t where "f s x = Inr t" "P t" by force
  with Cons.IH [of t] Cons.prems(2) show ?case by force
qed simp

lemma efold_total':
  assumes "\<And>s x. \<exists>t. f s x = Inr t"
  shows "\<exists>s'. efold f s xs = Inr s'"
proof (induction xs arbitrary: s)
  case (Cons x xs)
  from assms obtain t where "f s x = Inr t" by blast
  with Cons.IH [of t] show ?case by simp
qed simp

subsection \<open>UUIDs and text\<close>

type_synonym uuid = "128 word"

definition hex_digit :: "int \<Rightarrow> char" where
  "hex_digit n = ''0123456789abcdef'' ! nat n"

text \<open>\<^verbatim>\<open>str(uuid)\<close>: thirty-two lower-case hexadecimal digits in groups of 8-4-4-4-12.\<close>

definition uuid_hex :: "uuid \<Rightarrow> string" where
  "uuid_hex u = map (\<lambda>i. hex_digit (uint u div 16 ^ (31 - i) mod 16)) [0..<32]"

definition uuid_str :: "uuid \<Rightarrow> string" where
  "uuid_str u = (let h = uuid_hex u in
     take 8 h @ ''-'' @ take 4 (drop 8 h) @ ''-'' @ take 4 (drop 12 h) @ ''-'' @
     take 4 (drop 16 h) @ ''-'' @ drop 20 h)"

text \<open>\<^verbatim>\<open>^sha256:[0-9a-f]{64}$\<close> (the trailing newline \<^verbatim>\<open>$\<close> would admit is never produced).\<close>

definition is_sha256 :: "string \<Rightarrow> bool" where
  "is_sha256 h = (take 7 h = ''sha256:'' \<and> length h = 71 \<and>
     list_all (\<lambda>c. c \<in> set ''0123456789abcdef'') (drop 7 h))"

text \<open>
  \<^verbatim>\<open>str.isspace\<close> on the code points below 256; \<open>blank s\<close> is \<^verbatim>\<open>not s.strip()\<close>.
  A character of the model stands for one code point below 256.
\<close>

definition py_isspace :: "char \<Rightarrow> bool" where
  "py_isspace c = (let n = of_char c :: nat in
     (9 \<le> n \<and> n \<le> 13) \<or> (28 \<le> n \<and> n \<le> 32) \<or> n = 133 \<or> n = 160)"

definition blank :: "string \<Rightarrow> bool" where
  "blank s = list_all py_isspace s"

definition lstrip :: "string \<Rightarrow> string" where
  "lstrip s = dropWhile py_isspace s"

definition strip :: "string \<Rightarrow> string" where
  "strip s = rev (lstrip (rev (lstrip s)))"

lemma lstrip_eq_Nil [simp]: "lstrip s = [] \<longleftrightarrow> blank s"
  by (simp add: lstrip_def blank_def list_all_iff)

lemma strip_eq_Nil [simp]: "strip s = [] \<longleftrightarrow> blank s"
proof -
  have "blank (rev (lstrip s)) \<longleftrightarrow> blank s"
    by (auto simp: blank_def lstrip_def list_all_iff dest: set_dropWhileD)
       (metis dropWhile_eq_Nil_conv hd_dropWhile hd_in_set)
  then show ?thesis by (simp add: strip_def)
qed

lemma blank_Nil [simp]: "blank []"
  by (simp add: blank_def)

subsection \<open>Numbered loops, stable descending sort, dictionaries of a list\<close>

text \<open>\<^verbatim>\<open>[f(i, x) for i, x in enumerate(xs)]\<close>, counting from \<open>n\<close>.\<close>

fun map_index :: "nat \<Rightarrow> (nat \<Rightarrow> 'a \<Rightarrow> 'b) \<Rightarrow> 'a list \<Rightarrow> 'b list" where
  "map_index n f [] = []"
| "map_index n f (x # xs) = f n x # map_index (Suc n) f xs"

lemma length_map_index [simp]: "length (map_index n f xs) = length xs"
  by (induction xs arbitrary: n) auto

lemma nth_map_index [simp]: "i < length xs \<Longrightarrow> map_index n f xs ! i = f (n + i) (xs ! i)"
  by (induction xs arbitrary: n i) (auto simp: nth_Cons split: nat.splits)

lemma map_index_eq_Nil [simp]: "map_index n f xs = [] \<longleftrightarrow> xs = []"
  by (cases xs) auto

lemma map_map_index: "map g (map_index n f xs) = map_index n (\<lambda>i x. g (f i x)) xs"
  by (induction xs arbitrary: n) auto

lemma map_index_const [simp]: "map_index n (\<lambda>i. f) xs = map f xs"
  by (induction xs arbitrary: n) auto

lemma set_map_indexE:
  assumes "y \<in> set (map_index n f xs)"
  obtains i x where "x \<in> set xs" "y = f i x"
  using assms by (induction xs arbitrary: n) auto

text \<open>
  \<^verbatim>\<open>sorted(xs, key=f, reverse=True)\<close>: Python's reverse sort keeps equal keys in their original
  order, so it is the stable sort by the negated key.
\<close>

definition sorted_desc :: "('a \<Rightarrow> rat) \<Rightarrow> 'a list \<Rightarrow> 'a list" where
  "sorted_desc f xs = sort_key (\<lambda>x. - f x) xs"

lemma mset_sorted_desc [simp]: "mset (sorted_desc f xs) = mset xs"
  by (simp add: sorted_desc_def)

lemma set_sorted_desc [simp]: "set (sorted_desc f xs) = set xs"
  by (simp add: sorted_desc_def)

lemma sorted_desc_eq_Nil [simp]: "sorted_desc f xs = [] \<longleftrightarrow> xs = []"
  by (metis set_sorted_desc set_empty)

lemma length_sorted_desc [simp]: "length (sorted_desc f xs) = length xs"
  by (simp add: sorted_desc_def)

lemma sorted_desc_wrt: "sorted_wrt (\<lambda>x y. f y \<le> f x) (sorted_desc f xs)"
proof -
  have "sorted (map (\<lambda>x. - f x) (sorted_desc f xs))"
    by (simp add: sorted_desc_def)
  then show ?thesis by (simp add: sorted_wrt_map)
qed

lemma sorted_desc_hd_max:
  assumes "x \<in> set xs"
  shows "f x \<le> f (hd (sorted_desc f xs))"
proof -
  from assms have "x \<in> set (sorted_desc f xs)" by simp
  with sorted_desc_wrt [of f xs] show ?thesis
    by (cases "sorted_desc f xs") auto
qed

lemma sorted_desc_stable:
  "filter (\<lambda>x. f x = k) (sorted_desc f xs) = filter (\<lambda>x. f x = k) xs"
proof -
  have "filter (\<lambda>x. - f x = - k) (sorted_desc f xs) = filter (\<lambda>x. - f x = - k) xs"
    unfolding sorted_desc_def by (rule sort_key_stable)
  then show ?thesis by simp
qed

text \<open>\<^verbatim>\<open>{key(x): val(x) for x in xs}\<close>: a later element overwrites an earlier one.\<close>

definition dict_of :: "('a \<Rightarrow> 'k) \<Rightarrow> ('a \<Rightarrow> 'v) \<Rightarrow> 'a list \<Rightarrow> 'k \<rightharpoonup> 'v" where
  "dict_of key val xs = map_of (rev (map (\<lambda>x. (key x, val x)) xs))"

lemma dom_dict_of: "dom (dict_of key val xs) = key ` set xs"
  by (simp add: dict_of_def dom_map_of_conv_image_fst image_image)

lemma dict_of_distinct:
  assumes "distinct (map key xs)" and "x \<in> set xs"
  shows "dict_of key val xs (key x) = Some (val x)"
proof -
  have "distinct (map fst (rev (map (\<lambda>x. (key x, val x)) xs)))"
    using assms(1) by (simp add: rev_map comp_def flip: rev_map)
  moreover have "(key x, val x) \<in> set (rev (map (\<lambda>x. (key x, val x)) xs))"
    using assms(2) by auto
  ultimately show ?thesis unfolding dict_of_def by (rule map_of_is_SomeI)
qed

lemma dict_of_SomeD:
  assumes "dict_of key val xs k = Some v"
  obtains x where "x \<in> set xs" "key x = k" "val x = v"
  using map_of_SomeD [OF assms [unfolded dict_of_def]] by auto

lemma set_map_filter_Some: "y \<in> set (List.map_filter f xs) \<longleftrightarrow> (\<exists>x \<in> set xs. f x = Some y)"
  by (induction xs) (auto simp: List.map_filter_simps split: option.splits)

lemma dict_of_id: "dict_of key (\<lambda>v. v) xs k = Some v \<Longrightarrow> v \<in> set xs \<and> key v = k"
  by (auto elim: dict_of_SomeD)

end
