(* ===== verification/Py_Decimal.thy ===== *)
theory Py_Decimal
  imports Prelude
begin

text \<open>
  Python's \<^verbatim>\<open>decimal.Decimal\<close> as the consensus code uses it. A finite decimal is the rational
  number it denotes. Construction from text and comparison are exact; every arithmetic operation
  rounds its exact result to the default context: 28 significant digits, ties to even
  (\<open>dec_round\<close>). The exponent limits of the context (about a million digits) are not modelled, and
  neither are NaN and the infinities: reading one is the error \<open>NonFiniteDecimal\<close>.

  The interface \<open>decimal_context\<close> states what the clients rely on: rounding is monotone and keeps
  the integers of up to 28 digits. Its facts about sums, means and products are proved once there
  and interpreted on \<open>dec_round\<close>.
\<close>

type_synonym decimal = rat

subsection \<open>Rounding to the context's precision\<close>

definition half_even :: "rat \<Rightarrow> int" where
  "half_even x = (let f = \<lfloor>x\<rfloor>; d = x - of_int f in
     if d < 1 / 2 then f else if 1 / 2 < d then f + 1 else if even f then f else f + 1)"

definition pow10 :: "int \<Rightarrow> rat" where
  "pow10 e = (if 0 \<le> e then 10 ^ nat e else 1 / 10 ^ nat (- e))"

function digits10 :: "int \<Rightarrow> int" where
  "digits10 n = (if n < 10 then 1 else 1 + digits10 (n div 10))"
  by pat_completeness auto
termination
  by (relation "measure nat") auto

declare digits10.simps [simp del]

text \<open>
  The exponent of the leading digit of a positive number: the difference of the digit counts of
  numerator and denominator, or one less.
\<close>

definition adjusted :: "rat \<Rightarrow> int" where
  "adjusted x = (let (a, b) = quotient_of x;
     e = digits10 a - digits10 b
   in if pow10 e \<le> x then e else e - 1)"

definition dec_prec :: int where
  "dec_prec = 28"

definition round_pos :: "rat \<Rightarrow> rat" where
  "round_pos x = (let s = adjusted x - (dec_prec - 1) in of_int (half_even (x / pow10 s)) * pow10 s)"

definition dec_round :: "rat \<Rightarrow> rat" where
  "dec_round x = (if x = 0 then 0 else if 0 < x then round_pos x else - round_pos (- x))"

subsection \<open>Arithmetic\<close>

definition d_add :: "decimal \<Rightarrow> decimal \<Rightarrow> decimal" where
  "d_add x y = dec_round (x + y)"

definition d_sub :: "decimal \<Rightarrow> decimal \<Rightarrow> decimal" where
  "d_sub x y = dec_round (x - y)"

definition d_mul :: "decimal \<Rightarrow> decimal \<Rightarrow> decimal" where
  "d_mul x y = dec_round (x * y)"

text \<open>
  Division by zero raises: \<^verbatim>\<open>InvalidOperation\<close> for zero over zero, \<^verbatim>\<open>DivisionByZero\<close> otherwise.
\<close>

definition d_div :: "decimal \<Rightarrow> decimal \<Rightarrow> decimal result" where
  "d_div x y = (if y = 0 then Inl (if x = 0 then InvalidOperation else DivisionByZero)
                else Inr (dec_round (x / y)))"

definition d_abs :: "decimal \<Rightarrow> decimal" where
  "d_abs x = dec_round \<bar>x\<bar>"

text \<open>\<^verbatim>\<open>sum(xs, start=Decimal("0"))\<close>: one rounded addition per term.\<close>

definition d_sum :: "decimal list \<Rightarrow> decimal" where
  "d_sum xs = foldl d_add 0 xs"

subsection \<open>Reading a decimal literal\<close>

text \<open>
  \<^verbatim>\<open>Decimal(text)\<close>: surrounding white space is dropped and underscores are ignored; an optional
  sign, digits with at most one point and at least one digit, an optional exponent.
\<close>

definition is_digit :: "char \<Rightarrow> bool" where
  "is_digit c = (of_char c \<ge> (48 :: nat) \<and> of_char c \<le> (57 :: nat))"

definition digit_val :: "char \<Rightarrow> int" where
  "digit_val c = of_char c - 48"

definition digits_val :: "string \<Rightarrow> int" where
  "digits_val s = foldl (\<lambda>n c. 10 * n + digit_val c) 0 s"

fun take_sign :: "string \<Rightarrow> bool \<times> string" where
  "take_sign [] = (False, [])"
| "take_sign (c # cs) = (if c = CHR ''-'' then (True, cs) else if c = CHR ''+'' then (False, cs)
                         else (False, c # cs))"

definition ascii_lower :: "char \<Rightarrow> char" where
  "ascii_lower c = (let n = of_char c :: nat in
     if 65 \<le> n \<and> n \<le> 90 then char_of (n + 32) else c)"

definition parse_exponent :: "string \<Rightarrow> int option" where
  "parse_exponent s = (case s of [] \<Rightarrow> Some 0
     | c # cs \<Rightarrow> if ascii_lower c \<noteq> CHR ''e'' then None
       else (case take_sign cs of (neg, ds) \<Rightarrow>
         if ds = [] \<or> \<not> list_all is_digit ds then None
         else Some (if neg then - digits_val ds else digits_val ds)))"

definition non_finite_word :: "string \<Rightarrow> bool" where
  "non_finite_word s = (let t = map ascii_lower s in
     t \<in> {''inf'', ''infinity''} \<or>
     (take 3 t = ''nan'' \<and> list_all is_digit (drop 3 t)) \<or>
     (take 4 t = ''snan'' \<and> list_all is_digit (drop 4 t)))"

definition decimal_of_string :: "string \<Rightarrow> decimal result" where
  "decimal_of_string text =
     (case take_sign (filter (\<lambda>c. c \<noteq> CHR ''_'') (strip text)) of (neg, s) \<Rightarrow>
       if non_finite_word s then Inl NonFiniteDecimal
       else let ip = takeWhile is_digit s;
                r = dropWhile is_digit s;
                (fp, r') = (case r of [] \<Rightarrow> ([], [])
                  | c # cs \<Rightarrow> if c = CHR ''.'' then (takeWhile is_digit cs, dropWhile is_digit cs)
                              else ([], r))
            in if ip @ fp = [] then Inl InvalidOperation
               else (case parse_exponent r' of None \<Rightarrow> Inl InvalidOperation
                 | Some e \<Rightarrow> Inr ((if neg then -1 else 1) * of_int (digits_val (ip @ fp))
                                  * pow10 (e - int (length fp)))))"

subsection \<open>Correctness of the rounding\<close>

lemma half_even_floor: "\<lfloor>x\<rfloor> \<le> half_even x" "half_even x \<le> \<lfloor>x\<rfloor> + 1"
  by (simp_all add: half_even_def Let_def)

lemma half_even_of_int [simp]: "half_even (of_int n) = n"
  by (simp add: half_even_def)

lemma half_even_error: "\<bar>of_int (half_even x) - x\<bar> \<le> 1 / 2"
  using floor_correct [of x] by (simp add: half_even_def Let_def abs_le_iff)

lemma half_even_mono:
  assumes "x \<le> y"
  shows "half_even x \<le> half_even y"
proof (cases "\<lfloor>x\<rfloor> = \<lfloor>y\<rfloor>")
  case True
  then show ?thesis using assms by (auto simp: half_even_def Let_def)
next
  case False
  with floor_mono [OF assms] have "\<lfloor>x\<rfloor> + 1 \<le> \<lfloor>y\<rfloor>" by linarith
  then show ?thesis using half_even_floor(2) [of x] half_even_floor(1) [of y] by linarith
qed

lemma pow10_powi: "pow10 e = 10 powi e"
  by (simp add: pow10_def power_int_def inverse_eq_divide power_one_over)

lemma pow10_pos [simp]: "0 < pow10 e"
  by (simp add: pow10_def)

lemma pow10_add: "pow10 (a + b) = pow10 a * pow10 b"
  by (simp add: pow10_powi power_int_add)

lemma pow10_0 [simp]: "pow10 0 = 1"
  by (simp add: pow10_def)

lemma pow10_1 [simp]: "pow10 1 = 10"
  by (simp add: pow10_def)

lemma pow10_mono: "a \<le> b \<Longrightarrow> pow10 a \<le> pow10 b"
  by (simp add: pow10_powi power_int_increasing)

lemma pow10_less_iff: "pow10 a < pow10 b \<longleftrightarrow> a < b"
proof
  show "pow10 a < pow10 b \<Longrightarrow> a < b" using pow10_mono [of b a] by linarith
  show "a < b \<Longrightarrow> pow10 a < pow10 b" by (simp add: pow10_powi power_int_strict_increasing)
qed

lemma pow10_Suc: "pow10 (e + 1) = 10 * pow10 e"
  by (simp add: pow10_powi power_int_add)

lemma pow10_not_neg [simp]: "\<not> pow10 e < 0"
  using pow10_pos [of e] by linarith

lemma pow10_nonzero [simp]: "pow10 e \<noteq> 0"
  using pow10_pos [of e] by linarith

lemma pow10_diff: "pow10 (a - b) = pow10 a / pow10 b"
  by (simp add: pow10_powi power_int_diff)

lemma pow10_int: "0 \<le> e \<Longrightarrow> pow10 e = of_int (10 ^ nat e)"
  by (simp add: pow10_def)

lemma digits10_ge_1: "1 \<le> digits10 n"
proof (induction n rule: digits10.induct)
  case (1 n)
  then show ?case by (subst digits10.simps) auto
qed

lemma digits10_small: "n < 10 \<Longrightarrow> digits10 n = 1"
  by (subst digits10.simps) simp

lemma digits10_step: "10 \<le> n \<Longrightarrow> digits10 n = digits10 (n div 10) + 1"
  by (subst digits10.simps) simp

lemma pow10_step:
  assumes "10 * m \<le> n" "n < 10 * (m + 1)" "1 \<le> d"
    and "pow10 (d - 1) \<le> of_int m" "of_int m < pow10 d"
  shows "pow10 d \<le> of_int n" "of_int n < pow10 (d + 1)"
proof -
  have "rat_of_int (10 * m) \<le> of_int n" using assms(1) by (simp only: of_int_le_iff)
  moreover have "pow10 d = 10 * pow10 (d - 1)" using pow10_Suc [of "d - 1"] by simp
  ultimately show "pow10 d \<le> of_int n" using assms(4) by simp
  have "m < 10 ^ nat d" using assms(3,5) by (simp add: pow10_int del: of_int_power)
  then have "10 * (m + 1) \<le> 10 * 10 ^ nat d" by simp
  with assms(2) have "n < 10 * 10 ^ nat d" by (rule less_le_trans)
  then have "rat_of_int n < of_int (10 * 10 ^ nat d)" by (simp only: of_int_less_iff)
  then show "of_int n < pow10 (d + 1)" using assms(3) by (simp add: pow10_Suc pow10_int)
qed

lemma digits10_bounds:
  "0 < n \<Longrightarrow> pow10 (digits10 n - 1) \<le> of_int n \<and> of_int n < pow10 (digits10 n)"
proof (induction n rule: digits10.induct)
  case (1 n)
  show ?case
  proof (cases "n < 10")
    case True
    have "rat_of_int 1 \<le> of_int n" "rat_of_int n < of_int 10"
      using True "1.prems" by (simp_all only: of_int_le_iff of_int_less_iff)
    then show ?thesis unfolding digits10_small [OF True] by (simp add: pow10_def)
  next
    case False
    define m where "m = n div 10"
    have m: "0 < m" "10 * m \<le> n" "n < 10 * (m + 1)" using False unfolding m_def by presburger+
    have d: "digits10 n = digits10 m + 1" using False by (simp add: digits10_step m_def)
    have "pow10 (digits10 m - 1) \<le> of_int m \<and> of_int m < pow10 (digits10 m)"
      using "1.IH" [OF False] m(1) unfolding m_def by blast
    then show ?thesis using pow10_step [OF m(2,3) digits10_ge_1] by (simp add: d)
  qed
qed

lemma adjusted_bounds:
  assumes "0 < x"
  shows "pow10 (adjusted x) \<le> x" "x < pow10 (adjusted x + 1)"
proof -
  obtain a b where ab: "quotient_of x = (a, b)" by (cases "quotient_of x")
  have b: "0 < b" and x: "x = of_int a / of_int b"
    using quotient_of_denom_pos [OF ab] quotient_of_div [OF ab] by auto
  with assms have a: "0 < a" by (simp add: zero_less_divide_iff)
  let ?e = "digits10 a - digits10 b"
  have A: "pow10 (digits10 a - 1) \<le> of_int a" "of_int a < pow10 (digits10 a)"
    and B: "pow10 (digits10 b - 1) \<le> of_int b" "of_int b < pow10 (digits10 b)"
    using digits10_bounds [OF a] digits10_bounds [OF b] by auto
  have bp: "0 < rat_of_int b" using b by simp
  have "x < pow10 (digits10 a) / pow10 (digits10 b - 1)"
    unfolding x using A(2) B(1) bp pow10_pos by (intro frac_less) (simp_all add: a less_imp_le)
  then have hi: "x < pow10 (?e + 1)" by (simp add: pow10_diff pow10_add field_simps)
  have "pow10 (digits10 a - 1) / pow10 (digits10 b) \<le> x"
    unfolding x using A(1) B(2) bp by (intro frac_le) (simp_all add: less_imp_le a)
  then have lo: "pow10 (?e - 1) \<le> x" by (simp add: pow10_diff pow10_add field_simps)
  show "pow10 (adjusted x) \<le> x" "x < pow10 (adjusted x + 1)"
    using hi lo by (auto simp: adjusted_def ab Let_def)
qed

lemma adjusted_mono:
  assumes "0 < x" "x \<le> y"
  shows "adjusted x \<le> adjusted y"
proof -
  have "pow10 (adjusted x) < pow10 (adjusted y + 1)"
    using adjusted_bounds(1) [of x] adjusted_bounds(2) [of y] assms by linarith
  then show ?thesis by (simp add: pow10_less_iff)
qed

lemma round_pos_bounds:
  assumes "0 < x"
  shows "pow10 (adjusted x) \<le> round_pos x" "round_pos x \<le> pow10 (adjusted x + 1)"
proof -
  let ?s = "adjusted x - (dec_prec - 1)"
  have lo: "of_int (10 ^ 27) \<le> x / pow10 ?s" and hi: "x / pow10 ?s \<le> of_int (10 ^ 28)"
    using adjusted_bounds [OF assms]
    by (simp_all add: dec_prec_def pow10_diff pow10_add pow10_def [of 27] field_simps)
  have "10 ^ 27 \<le> half_even (x / pow10 ?s)" "half_even (x / pow10 ?s) \<le> 10 ^ 28"
    using half_even_mono [OF lo] half_even_mono [OF hi] by (simp_all only: half_even_of_int)
  then have "rat_of_int (10 ^ 27) \<le> of_int (half_even (x / pow10 ?s))"
    "of_int (half_even (x / pow10 ?s)) \<le> rat_of_int (10 ^ 28)"
    by (simp_all only: of_int_le_iff)
  then have "rat_of_int (10 ^ 27) * pow10 ?s \<le> round_pos x"
    "round_pos x \<le> rat_of_int (10 ^ 28) * pow10 ?s"
    unfolding round_pos_def Let_def by (simp_all add: mult_right_mono less_imp_le)
  then show "pow10 (adjusted x) \<le> round_pos x" "round_pos x \<le> pow10 (adjusted x + 1)"
    by (simp_all add: dec_prec_def pow10_diff pow10_Suc pow10_def [of 27])
qed

lemma round_pos_mono:
  assumes "0 < x" "x \<le> y"
  shows "round_pos x \<le> round_pos y"
proof (cases "adjusted x = adjusted y")
  case True
  let ?s = "adjusted y - (dec_prec - 1)"
  have "x / pow10 ?s \<le> y / pow10 ?s" using assms(2) by (simp add: divide_right_mono less_imp_le)
  from half_even_mono [OF this] True show ?thesis
    by (simp add: round_pos_def Let_def mult_right_mono less_imp_le)
next
  case False
  with adjusted_mono [OF assms] have "adjusted x + 1 \<le> adjusted y" by linarith
  then have "pow10 (adjusted x + 1) \<le> pow10 (adjusted y)" by (rule pow10_mono)
  then show ?thesis
    using round_pos_bounds(2) [of x] round_pos_bounds(1) [of y] assms by linarith
qed

lemma round_pos_pos: "0 < x \<Longrightarrow> 0 < round_pos x"
  using round_pos_bounds(1) [of x] pow10_pos [of "adjusted x"] by linarith

lemma dec_round_mono:
  assumes "x \<le> y"
  shows "dec_round x \<le> dec_round y"
  using assms round_pos_pos [of y] round_pos_pos [of "- x"] round_pos_mono [of x y]
    round_pos_mono [of "- y" "- x"]
  by (auto simp: dec_round_def)

lemma dec_round_0 [simp]: "dec_round 0 = 0"
  by (simp add: dec_round_def)

lemma dec_round_minus: "dec_round (- x) = - dec_round x"
  by (simp add: dec_round_def)

lemma dec_round_1 [simp]: "dec_round 1 = 1"
  by code_simp

text \<open>Numbers with at most 28 significant digits are kept.\<close>

lemma round_pos_eqI:
  assumes "x / pow10 (adjusted x - (dec_prec - 1)) = of_int n"
  shows "round_pos x = x"
proof -
  have "x = of_int n * pow10 (adjusted x - (dec_prec - 1))" using assms by (simp add: field_simps)
  then show ?thesis by (simp only: round_pos_def Let_def assms half_even_of_int)
qed

lemma round_pos_exact:
  assumes "0 < m" "m \<le> 10 ^ 28"
  shows "round_pos (of_int m * pow10 k) = of_int m * pow10 k"
proof -
  let ?x = "of_int m * pow10 k"
  let ?s = "adjusted ?x - (dec_prec - 1)"
  have x: "0 < ?x" using assms(1) by simp
  have "rat_of_int m \<le> of_int (10 ^ 28)" using assms(2) by (simp only: of_int_le_iff)
  then have "?x \<le> pow10 (k + 28)"
    using mult_right_mono [of "rat_of_int m" "of_int (10 ^ 28)" "pow10 k"]
    by (simp add: pow10_add pow10_def [of 28] less_imp_le mult.commute)
  then have "pow10 (adjusted ?x) \<le> pow10 (k + 28)"
    using adjusted_bounds(1) [OF x] by linarith
  then have "adjusted ?x \<le> k + 28" using pow10_less_iff [of "k + 28" "adjusted ?x"] by linarith
  then consider "?s \<le> k" | "adjusted ?x = k + 28" by (force simp: dec_prec_def)
  then show ?thesis
  proof cases
    case 1
    then have "pow10 k / pow10 ?s = of_int (10 ^ nat (k - ?s))"
      by (simp add: pow10_int flip: pow10_diff)
    then have "?x / pow10 ?s = of_int (m * 10 ^ nat (k - ?s))" by (simp add: field_simps)
    then show ?thesis by (rule round_pos_eqI)
  next
    case 2
    then have "?x = pow10 (k + 28)"
      using \<open>?x \<le> pow10 (k + 28)\<close> adjusted_bounds(1) [OF x] by simp
    moreover have "pow10 (k + 28) / pow10 (k + 28 - 27) = of_int (10 ^ 27)"
      by (simp add: pow10_diff pow10_add pow10_def [of 27] pow10_def [of 28])
    ultimately have "?x / pow10 ?s = of_int (10 ^ 27)" using 2 by (simp add: dec_prec_def)
    then show ?thesis by (rule round_pos_eqI)
  qed
qed

lemma dec_round_exact:
  assumes "\<bar>m\<bar> \<le> 10 ^ 28"
  shows "dec_round (of_int m * pow10 k) = of_int m * pow10 k"
proof -
  consider "m = 0" | "0 < m" "m \<le> 10 ^ 28" | "0 < - m" "- m \<le> 10 ^ 28"
    using assms by linarith
  then show ?thesis
  proof cases
    case 2
    then show ?thesis by (simp add: dec_round_def round_pos_exact)
  next
    case 3
    from round_pos_exact [OF 3, of k] 3 show ?thesis
      by (simp add: dec_round_def zero_less_mult_iff)
  qed simp
qed

lemma dec_round_of_nat: "n \<le> 10 ^ 28 \<Longrightarrow> dec_round (of_nat n) = of_nat n"
proof -
  assume "n \<le> 10 ^ 28"
  then have "int n \<le> int (10 ^ 28)" by (simp only: of_nat_le_iff)
  then show ?thesis using dec_round_exact [of "int n" 0] by simp
qed

lemma round_pos_error:
  assumes "0 < x"
  shows "\<bar>round_pos x - x\<bar> \<le> x * (5 / 10 ^ 28)"
proof -
  let ?s = "adjusted x - (dec_prec - 1)"
  let ?y = "x / pow10 ?s"
  have "round_pos x - x = (of_int (half_even ?y) - ?y) * pow10 ?s"
    by (simp add: round_pos_def Let_def algebra_simps)
  then have "\<bar>round_pos x - x\<bar> = \<bar>of_int (half_even ?y) - ?y\<bar> * pow10 ?s"
    by (simp add: abs_mult abs_of_pos)
  also have "\<dots> \<le> 1 / 2 * pow10 ?s"
    using half_even_error [of ?y] by (intro mult_right_mono) (simp_all add: less_imp_le)
  also have "pow10 ?s = pow10 (adjusted x) / 10 ^ 27"
    by (simp add: dec_prec_def pow10_diff pow10_def [of 27])
  finally show ?thesis using adjusted_bounds(1) [OF assms] by simp
qed

lemma dec_round_error: "\<bar>dec_round x - x\<bar> \<le> \<bar>x\<bar> * (5 / 10 ^ 28)"
  using round_pos_error [of x] round_pos_error [of "- x"]
  by (cases "x = 0"; cases "0 < x") (simp_all add: dec_round_def abs_minus_commute)

subsection \<open>The interface its clients use\<close>

locale decimal_context =
  fixes rnd :: "rat \<Rightarrow> rat"
  assumes rnd_mono: "x \<le> y \<Longrightarrow> rnd x \<le> rnd y"
    and rnd_of_nat: "n \<le> 10 ^ 28 \<Longrightarrow> rnd (of_nat n) = of_nat n"
begin

lemma rnd_0 [simp]: "rnd 0 = 0"
  using rnd_of_nat [of 0] by simp

lemma rnd_1 [simp]: "rnd 1 = 1"
  using rnd_of_nat [of 1] by simp

lemma rnd_nonneg: "0 \<le> x \<Longrightarrow> 0 \<le> rnd x"
  using rnd_mono [of 0 x] by simp

lemma rnd_le_of_nat: "x \<le> of_nat n \<Longrightarrow> n \<le> 10 ^ 28 \<Longrightarrow> rnd x \<le> of_nat n"
  using rnd_mono [of x "of_nat n"] by (simp add: rnd_of_nat)

lemma rnd_unit: "0 \<le> x \<Longrightarrow> x \<le> 1 \<Longrightarrow> 0 \<le> rnd x \<and> rnd x \<le> 1"
  using rnd_mono [of x 1] by (simp add: rnd_nonneg)

lemma rnd_product_unit:
  "0 \<le> x \<Longrightarrow> x \<le> 1 \<Longrightarrow> 0 \<le> y \<Longrightarrow> y \<le> 1 \<Longrightarrow> 0 \<le> rnd (x * y) \<and> rnd (x * y) \<le> 1"
  by (intro rnd_unit) (simp_all add: mult_le_one)

lemma rnd_ratio_unit: "a \<le> b \<Longrightarrow> 0 \<le> rnd (of_nat a / of_nat b) \<and> rnd (of_nat a / of_nat b) \<le> 1"
  by (intro rnd_unit) (auto simp: divide_le_eq_1)

text \<open>A running sum of values between 0 and 1 stays between 0 and the number of terms.\<close>

lemma running_sum_bounds:
  assumes "\<forall>x \<in> set xs. 0 \<le> x \<and> x \<le> 1" and "0 \<le> a" "a \<le> of_nat n"
    and "n + length xs \<le> 10 ^ 28"
  shows "0 \<le> foldl (\<lambda>s x. rnd (s + x)) a xs \<and>
    foldl (\<lambda>s x. rnd (s + x)) a xs \<le> of_nat (n + length xs)"
  using assms
proof (induction xs arbitrary: a n)
  case (Cons x xs)
  have "0 \<le> rnd (a + x)" using Cons.prems by (intro rnd_nonneg) auto
  moreover have "rnd (a + x) \<le> of_nat (Suc n)"
    using Cons.prems by (intro rnd_le_of_nat) auto
  ultimately show ?case using Cons.IH [of "rnd (a + x)" "Suc n"] Cons.prems by auto
qed simp

lemma mean_unit:
  assumes "\<forall>x \<in> set xs. 0 \<le> x \<and> x \<le> 1" "length xs \<le> 10 ^ 28"
  shows "0 \<le> rnd (foldl (\<lambda>s x. rnd (s + x)) 0 xs / of_nat (length xs)) \<and>
    rnd (foldl (\<lambda>s x. rnd (s + x)) 0 xs / of_nat (length xs)) \<le> 1"
  using running_sum_bounds [OF assms(1), of 0 0] assms(2)
  by (intro rnd_unit) (auto simp: divide_le_eq_1)

end

interpretation dec: decimal_context dec_round
  by unfold_locales (auto simp: dec_round_mono dec_round_of_nat)

end
