(* ===== verification/Symbolic_Policy.thy ===== *)
theory Symbolic_Policy
  imports Py_Decimal
begin

text \<open>
  The policy that turns a symbolic solver's verdict into an action
  (\<^verbatim>\<open>app/domain/symbolic_unknown_policy.py\<close>). Solver reasons are ASCII text here: case mapping and
  \<^verbatim>\<open>str.isalnum\<close> are those of the ASCII range.
\<close>

datatype SymbolicStatus = Sym_SAT | Sym_UNSAT | Sym_UNKNOWN

datatype SymbolicAssuranceAction = PROCEED | BLOCK | DEFER

datatype SymbolicUnknownKind = TIMEOUT | INCOMPLETE | OTHER

record SymbolicUnknownPolicyDecision =
  dec_symbolic_status :: SymbolicStatus
  dec_action :: SymbolicAssuranceAction
  dec_reason_code :: string
  dec_explanation :: string
  dec_unknown_kind :: "SymbolicUnknownKind option"
  dec_solver_reason_code :: "string option"

definition provides_affirmative_assurance :: "SymbolicUnknownPolicyDecision \<Rightarrow> bool" where
  "provides_affirmative_assurance d = (dec_action d = PROCEED)"

definition timeout_reasons :: "string list" where
  "timeout_reasons = [''timeout'', ''canceled'', ''cancelled'', ''resource limit'']"

definition incomplete_reasons :: "string list" where
  "incomplete_reasons = [''incomplete'', ''unknown'', ''solver returned no reason'']"

definition ascii_upper :: "char \<Rightarrow> char" where
  "ascii_upper c = (let n = of_char c :: nat in
     if 97 \<le> n \<and> n \<le> 122 then char_of (n - 32) else c)"

definition ascii_alnum :: "char \<Rightarrow> bool" where
  "ascii_alnum c = (let n = of_char c :: nat in
     (48 \<le> n \<and> n \<le> 57) \<or> (65 \<le> n \<and> n \<le> 90) \<or> (97 \<le> n \<and> n \<le> 122))"

text \<open>
  \<open>fields sep s\<close> are the non-empty parts of \<open>s\<close> between characters satisfying \<open>sep\<close>:
  \<^verbatim>\<open>str.split()\<close> for white space, and the filtered \<^verbatim>\<open>split("_")\<close> of the reason code.
\<close>

fun fields_acc :: "(char \<Rightarrow> bool) \<Rightarrow> string \<Rightarrow> string \<Rightarrow> string list" where
  "fields_acc sep cur [] = (if cur = [] then [] else [rev cur])"
| "fields_acc sep cur (c # cs) =
     (if sep c then (if cur = [] then fields_acc sep [] cs else rev cur # fields_acc sep [] cs)
      else fields_acc sep (c # cur) cs)"

definition fields :: "(char \<Rightarrow> bool) \<Rightarrow> string \<Rightarrow> string list" where
  "fields sep s = fields_acc sep [] s"

fun join :: "string \<Rightarrow> string list \<Rightarrow> string" where
  "join sep [] = []"
| "join sep [x] = x"
| "join sep (x # y # xs) = x @ sep @ join sep (y # xs)"

definition solver_reason_code :: "string \<Rightarrow> string" where
  "solver_reason_code reason =
     (let normalized = map ascii_upper (strip reason);
          cleaned = map (\<lambda>c. if ascii_alnum c then c else CHR ''_'') normalized;
          collapsed = join ''_'' (fields (\<lambda>c. c = CHR ''_'') cleaned)
      in if take 64 collapsed = [] then ''UNSPECIFIED'' else take 64 collapsed)"

definition classify_unknown_reason :: "string \<Rightarrow> SymbolicUnknownKind" where
  "classify_unknown_reason reason =
     (let normalized = join '' '' (fields py_isspace (map ascii_lower reason))
      in if normalized \<in> set timeout_reasons then TIMEOUT
         else if normalized \<in> set incomplete_reasons then INCOMPLETE
         else OTHER)"

fun decide_status :: "SymbolicStatus \<Rightarrow> string option \<Rightarrow> SymbolicUnknownPolicyDecision result" where
  "decide_status Sym_SAT r = Inr
     \<lparr>dec_symbolic_status = Sym_SAT, dec_action = PROCEED,
      dec_reason_code = ''SYMBOLIC_ASSURANCE_ESTABLISHED'',
      dec_explanation = ''The symbolic constraints are satisfiable under the encoded premises.'',
      dec_unknown_kind = None, dec_solver_reason_code = None\<rparr>"
| "decide_status Sym_UNSAT r = Inr
     \<lparr>dec_symbolic_status = Sym_UNSAT, dec_action = BLOCK,
      dec_reason_code = ''SYMBOLIC_CONTRADICTION_ESTABLISHED'',
      dec_explanation = ''A contradiction was established under the encoded premises.'',
      dec_unknown_kind = None, dec_solver_reason_code = None\<rparr>"
| "decide_status Sym_UNKNOWN r =
     (case r of None \<Rightarrow> Inl (ValueError ''UNKNOWN symbolic status requires a solver reason'')
      | Some reason \<Rightarrow>
          if blank reason then Inl (ValueError ''UNKNOWN symbolic status requires a solver reason'')
          else Inr
            \<lparr>dec_symbolic_status = Sym_UNKNOWN, dec_action = DEFER,
             dec_reason_code = ''SYMBOLIC_ASSURANCE_UNAVAILABLE'',
             dec_explanation = ''Symbolic certainty is unavailable; actions requiring positive symbolic assurance must be deferred.'',
             dec_unknown_kind = Some (classify_unknown_reason reason),
             dec_solver_reason_code = Some (solver_reason_code reason)\<rparr>)"

subsection \<open>Properties\<close>

fun_cases decide_status_InrE: "decide_status st r = Inr d"

text \<open>Only a SAT verdict gives affirmative assurance, whatever text the solver attached.\<close>

lemma affirmative_iff_SAT:
  "decide_status st r = Inr d \<Longrightarrow> provides_affirmative_assurance d \<longleftrightarrow> st = Sym_SAT"
  by (cases st) (auto simp: provides_affirmative_assurance_def split: option.splits if_splits)

lemma fields_acc_no_sep:
  "\<forall>c \<in> set cur. \<not> sep c \<Longrightarrow> p \<in> set (fields_acc sep cur s) \<Longrightarrow> c \<in> set p \<Longrightarrow> \<not> sep c"
  by (induction sep cur s rule: fields_acc.induct) (auto split: if_splits)

lemma fields_acc_from:
  "p \<in> set (fields_acc sep cur s) \<Longrightarrow> set p \<subseteq> set cur \<union> set s"
  by (induction sep cur s rule: fields_acc.induct) (auto split: if_splits)

lemma set_join: "set (join sep xs) \<subseteq> set sep \<union> (\<Union>x \<in> set xs. set x)"
  by (induction sep xs rule: join.induct) auto

lemma set_solver_reason_code:
  "c \<in> set (solver_reason_code r) \<Longrightarrow> ascii_alnum c \<or> c = CHR ''_''"
proof -
  define cl where "cl = map (\<lambda>c. if ascii_alnum c then c else CHR ''_'') (map ascii_upper (strip r))"
  define co where "co = join ''_'' (fields (\<lambda>c. c = CHR ''_'') cl)"
  assume c: "c \<in> set (solver_reason_code r)"
  have "set co \<subseteq> insert (CHR ''_'') (set cl)"
    using set_join [of "''_''" "fields (\<lambda>c. c = CHR ''_'') cl"]
      fields_acc_from [of _ "\<lambda>c. c = CHR ''_''" "[]" cl]
    by (fastforce simp: co_def fields_def)
  moreover have "set cl \<subseteq> {c. ascii_alnum c \<or> c = CHR ''_''}" by (auto simp: cl_def)
  moreover have "c \<in> set co \<or> c \<in> set ''UNSPECIFIED''"
    using c unfolding solver_reason_code_def cl_def co_def Let_def
    by (auto split: if_splits dest: in_set_takeD)
  ultimately show ?thesis by (auto simp: ascii_alnum_def)
qed

lemma solver_reason_code_bounds:
  "solver_reason_code r \<noteq> []" "length (solver_reason_code r) \<le> 64"
  by (simp_all add: solver_reason_code_def Let_def)

end
