(* ===== verification/Consensus_Ports.thy ===== *)
theory Consensus_Ports
  imports Symbolic_Policy
begin

text \<open>
  The value objects of the consensus port (\<^verbatim>\<open>app/ports/consensus.py\<close>) with the validators their
  constructors run. A model class is a record; \<open>X_valid\<close> is the conjunction of its field
  constraints and validators, so a constructor call succeeds exactly when it holds. Free-form
  parameter values are the datatype \<open>pval\<close>; a float is given by the text \<^verbatim>\<open>repr\<close> prints for it.
\<close>

datatype ConsensusOutcome =
    FULL_CONSENSUS | PARTIAL_CONSENSUS | CONDITIONAL_CONSENSUS | PARETO_SET
  | NO_CONSENSUS | DEADLOCK | INSUFFICIENT_EVIDENCE | INFEASIBLE

datatype FeasibilityStatus = SAT | UNSAT | UNKNOWN

datatype AbstainPolicy = EXCLUDE | HALF

datatype pval =
    PNone | PBool bool | PInt int | PFloat string | PDecimal decimal | PStr string
  | PList "pval list" | PMap "(string \<times> pval) list"

type_synonym params = "(string \<times> pval) list"

subsection \<open>Inputs of a consensus evaluation\<close>

record FeasibilityVerdict =
  fv_alternative_id :: uuid
  fv_status :: FeasibilityStatus
  fv_unsat_core :: "string list"
  fv_witness :: "(string \<times> pval) list option"
  fv_reason_unknown :: "string option"

definition evidence_matches_status :: "FeasibilityVerdict \<Rightarrow> bool" where
  "evidence_matches_status v = (case fv_status v of
     SAT \<Rightarrow> fv_unsat_core v = [] \<and> fv_reason_unknown v = None
   | UNSAT \<Rightarrow> fv_unsat_core v \<noteq> [] \<and> fv_witness v = None \<and> fv_reason_unknown v = None
   | UNKNOWN \<Rightarrow> (case fv_reason_unknown v of None \<Rightarrow> False | Some r \<Rightarrow> \<not> blank r)
       \<and> fv_unsat_core v = [] \<and> fv_witness v = None)"

record StrategyConfig =
  sc_strategy_name :: string
  sc_strategy_version :: string
  sc_parameters :: params

record StrategyParameterSpec =
  ps_name :: string
  ps_type :: string
  ps_default :: pval
  ps_description :: string

record AgentPosition =
  ap_agent_id :: uuid
  ap_agent_definition_version :: string
  ap_alternative_id :: uuid
  ap_stance :: string
  ap_confidence :: decimal
  ap_rationale :: string
  ap_evidence_ids :: "uuid list"

definition AgentPosition_valid :: "AgentPosition \<Rightarrow> bool" where
  "AgentPosition_valid p = (ap_agent_definition_version p \<noteq> [] \<and> ap_stance p \<noteq> [] \<and>
     0 \<le> ap_confidence p \<and> ap_confidence p \<le> 1)"

record EvidenceCitationInput =
  ec_evidence_id :: uuid
  ec_verification :: string
  ec_trust_level :: string
  ec_polarity :: string
  ec_publisher :: string

record ObjectiveInput =
  ob_objective_id :: uuid
  ob_name :: string
  ob_weight :: decimal
  ob_direction :: string
  ob_conflicts_with :: "uuid list"

definition ObjectiveInput_valid :: "ObjectiveInput \<Rightarrow> bool" where
  "ObjectiveInput_valid b = (ob_name b \<noteq> [] \<and> 0 \<le> ob_weight b \<and> ob_weight b \<le> 1 \<and>
     ob_direction b \<noteq> [])"

definition EvidenceCitationInput_valid :: "EvidenceCitationInput \<Rightarrow> bool" where
  "EvidenceCitationInput_valid e =
     (ec_verification e \<noteq> [] \<and> ec_trust_level e \<noteq> [] \<and> ec_polarity e \<noteq> [])"

record ConstraintInput =
  ci_constraint_id :: uuid
  ci_name :: string
  ci_constraint_type :: string
  ci_formal_status :: string

definition ConstraintInput_valid :: "ConstraintInput \<Rightarrow> bool" where
  "ConstraintInput_valid c =
     (ci_name c \<noteq> [] \<and> ci_constraint_type c \<noteq> [] \<and> ci_formal_status c \<noteq> [])"

record AlternativeInput =
  al_alternative_id :: uuid
  al_name :: string

record PropositionInput =
  pi_proposition_id :: uuid
  pi_normalized_text :: string

record CritiqueInput =
  cr_critique_id :: uuid
  cr_target_id :: uuid
  cr_critique_type :: string
  cr_severity :: string
  cr_resolution :: string

definition CritiqueInput_valid :: "CritiqueInput \<Rightarrow> bool" where
  "CritiqueInput_valid c =
     (cr_critique_type c \<noteq> [] \<and> cr_severity c \<noteq> [] \<and> cr_resolution c \<noteq> [])"

record AssumptionInput =
  as_assumption_id :: uuid
  as_statement :: string
  as_materiality :: string

record ConsensusContext =
  cx_session_id :: uuid
  cx_round :: int
  cx_alternatives :: "AlternativeInput list"
  cx_propositions :: "PropositionInput list"
  cx_agent_positions :: "AgentPosition list"
  cx_evidence :: "EvidenceCitationInput list"
  cx_assumptions :: "AssumptionInput list"
  cx_critiques :: "CritiqueInput list"
  cx_objectives :: "ObjectiveInput list"
  cx_constraints :: "ConstraintInput list"
  cx_feasibility :: "FeasibilityVerdict list"
  cx_strategy_config :: StrategyConfig
  cx_objective_values :: "(string \<times> (string \<times> string) list) list"

definition unique_alternatives :: "AlternativeInput list \<Rightarrow> bool" where
  "unique_alternatives v = distinct (map al_alternative_id v)"

definition feasibility_matches_alternatives :: "ConsensusContext \<Rightarrow> bool" where
  "feasibility_matches_alternatives cx =
     (distinct (map fv_alternative_id (cx_feasibility cx)) \<and>
      set (map fv_alternative_id (cx_feasibility cx))
        \<subseteq> set (map al_alternative_id (cx_alternatives cx)))"

definition ConsensusContext_valid :: "ConsensusContext \<Rightarrow> bool" where
  "ConsensusContext_valid cx = (1 \<le> cx_round cx \<and> cx_alternatives cx \<noteq> [] \<and>
     list_all (\<lambda>a. al_name a \<noteq> []) (cx_alternatives cx) \<and>
     unique_alternatives (cx_alternatives cx) \<and>
     feasibility_matches_alternatives cx \<and>
     list_all evidence_matches_status (cx_feasibility cx) \<and>
     list_all AgentPosition_valid (cx_agent_positions cx) \<and>
     list_all ObjectiveInput_valid (cx_objectives cx) \<and>
     list_all (\<lambda>p. pi_normalized_text p \<noteq> []) (cx_propositions cx) \<and>
     list_all EvidenceCitationInput_valid (cx_evidence cx) \<and>
     list_all (\<lambda>a. as_statement a \<noteq> []) (cx_assumptions cx) \<and>
     list_all CritiqueInput_valid (cx_critiques cx) \<and>
     list_all ConstraintInput_valid (cx_constraints cx) \<and>
     sc_strategy_name (cx_strategy_config cx) \<noteq> [] \<and>
     sc_strategy_version (cx_strategy_config cx) \<noteq> [])"

subsection \<open>Results of a consensus evaluation\<close>

record AlternativeScore =
  as_alternative_id :: uuid
  as_alternative_name :: string
  as_rank :: int
  as_support :: decimal
  as_value_score :: "decimal option"
  as_rank_score :: "decimal option"
  as_feasibility :: FeasibilityStatus
  as_evidence_strength :: "decimal option"

definition AlternativeScore_valid :: "AlternativeScore \<Rightarrow> bool" where
  "AlternativeScore_valid s = (as_alternative_name s \<noteq> [] \<and> 1 \<le> as_rank s \<and>
     0 \<le> as_support s \<and> as_support s \<le> 1)"

record AgentContribution =
  ac_agent_id :: uuid
  ac_alternative_id :: uuid
  ac_stance :: string
  ac_position_score :: decimal
  ac_confidence :: decimal
  ac_evidence_score :: decimal

definition AgentContribution_valid :: "AgentContribution \<Rightarrow> bool" where
  "AgentContribution_valid c = (ac_stance c \<noteq> [] \<and> 0 \<le> ac_position_score c \<and>
     0 \<le> ac_confidence c \<and> ac_confidence c \<le> 1 \<and> 0 \<le> ac_evidence_score c)"

record DissentEntry =
  de_agent_id :: uuid
  de_stance :: string
  de_warrant_artifact_ids :: "uuid list"
  de_disputed_proposition_ids :: "uuid list"
  de_unresolved_critique_ids :: "uuid list"
  de_what_would_change :: string

text \<open>
  \<^verbatim>\<open>unresolved_critiques\<close> is a tuple made from a Python set, so its order is not determined by the
  source; it is a set here.
\<close>

record MinorityEntry =
  me_agent_id :: uuid
  me_position :: string
  me_warrant_artifact_ids :: "uuid list"
  me_disputed_propositions :: "uuid list"
  me_unresolved_critiques :: "uuid set"
  me_what_would_change :: string

text \<open>
  The recorded inputs and outputs of a derivation step. \<^verbatim>\<open>DDec x\<close> and \<^verbatim>\<open>DUuid u\<close> stand for the
  strings \<^verbatim>\<open>str(x)\<close> and \<^verbatim>\<open>str(u)\<close> of the source.
\<close>

datatype dval =
    DInt int | DBool bool | DStr string | DDec decimal | DNone | DUuid uuid
  | DList "dval list" | DMap "(dval \<times> dval) list"

record DerivationStep =
  ds_step :: int
  ds_stage :: string
  ds_description :: string
  ds_inputs :: "(dval \<times> dval) list"
  ds_outputs :: "(dval \<times> dval) list"

record CounterfactualEntry =
  ce_change :: string
  ce_effect :: string
  ce_details :: "(dval \<times> dval) list"

record ConsensusResult =
  rs_result_id :: uuid
  rs_session_id :: uuid
  rs_round :: int
  rs_strategy :: string
  rs_strategy_version :: string
  rs_outcome :: ConsensusOutcome
  rs_scores :: "AlternativeScore list"
  rs_selected_alternative_id :: "uuid option"
  rs_pareto_set :: "uuid list"
  rs_support :: "decimal option"
  rs_dissent_ratio :: "decimal option"
  rs_abstention_ratio :: "decimal option"
  rs_blocking_constraints :: "string list"
  rs_blocking_critiques :: "uuid list"
  rs_conditions :: "string list"
  rs_degenerate_input :: bool
  rs_input_hash :: string
  rs_contributions :: "AgentContribution list"
  rs_dissent :: "DissentEntry list"
  rs_minority_report :: "MinorityEntry list"
  rs_derivation :: "DerivationStep list"
  rs_schema_version :: int

definition selectable :: "ConsensusOutcome \<Rightarrow> bool" where
  "selectable o' = (o' \<in> {FULL_CONSENSUS, PARTIAL_CONSENSUS, CONDITIONAL_CONSENSUS})"

definition result_invariants :: "ConsensusResult \<Rightarrow> bool" where
  "result_invariants r = (rs_schema_version r = 1 \<and>
     (rs_selected_alternative_id r \<noteq> None \<longrightarrow> selectable (rs_outcome r)))"

fun opt_unit :: "decimal option \<Rightarrow> bool" where
  "opt_unit None = True"
| "opt_unit (Some x) = (0 \<le> x \<and> x \<le> 1)"

definition ConsensusResult_valid :: "ConsensusResult \<Rightarrow> bool" where
  "ConsensusResult_valid r = (1 \<le> rs_round r \<and> rs_strategy r \<noteq> [] \<and> rs_strategy_version r \<noteq> [] \<and>
     list_all AlternativeScore_valid (rs_scores r) \<and>
     opt_unit (rs_support r) \<and> opt_unit (rs_dissent_ratio r) \<and> opt_unit (rs_abstention_ratio r) \<and>
     is_sha256 (rs_input_hash r) \<and>
     list_all AgentContribution_valid (rs_contributions r) \<and>
     list_all (\<lambda>d. de_stance d \<noteq> []) (rs_dissent r) \<and>
     list_all (\<lambda>m. me_position m \<noteq> []) (rs_minority_report r) \<and>
     list_all (\<lambda>d. 1 \<le> ds_step d \<and> ds_stage d \<noteq> [] \<and> ds_description d \<noteq> []) (rs_derivation r) \<and>
     result_invariants r)"

text \<open>Running the constructor: the value, or the validation error.\<close>

definition mk_result :: "ConsensusResult \<Rightarrow> ConsensusResult result" where
  "mk_result r = (if ConsensusResult_valid r then Inr r else Inl (ValueError ''ConsensusResult''))"

record ConsensusExplanation =
  ex_consensus_id :: uuid
  ex_outcome :: ConsensusOutcome
  ex_strategy :: string
  ex_strategy_version :: string
  ex_formula :: string
  ex_weights :: "(string \<times> (string \<times> decimal) list) list"
  ex_thresholds :: "(string \<times> decimal) list"
  ex_contributions :: "AgentContribution list"
  ex_derivation :: "DerivationStep list"
  ex_caveats :: "string list"
  ex_minority_report :: "MinorityEntry list"
  ex_counterfactuals :: "CounterfactualEntry list"
  ex_flip_distance :: "decimal option"
  ex_degenerate_input :: bool
  ex_input_hash :: string

subsection \<open>Reading parameter values\<close>

text \<open>\<^verbatim>\<open>bool(value)\<close>. A float is false when its text denotes zero.\<close>

fun py_truthy :: "pval \<Rightarrow> bool" where
  "py_truthy PNone = False"
| "py_truthy (PBool b) = b"
| "py_truthy (PInt i) = (i \<noteq> 0)"
| "py_truthy (PFloat r) = (decimal_of_string r \<noteq> Inr 0)"
| "py_truthy (PDecimal d) = (d \<noteq> 0)"
| "py_truthy (PStr s) = (s \<noteq> [])"
| "py_truthy (PList xs) = (xs \<noteq> [])"
| "py_truthy (PMap m) = (m \<noteq> [])"

text \<open>\<^verbatim>\<open>Decimal(str(value))\<close>.\<close>

fun decimal_of_pval :: "pval \<Rightarrow> decimal result" where
  "decimal_of_pval (PInt i) = Inr (of_int i)"
| "decimal_of_pval (PFloat r) = decimal_of_string r"
| "decimal_of_pval (PDecimal d) = Inr d"
| "decimal_of_pval (PStr s) = decimal_of_string s"
| "decimal_of_pval _ = Inl InvalidOperation"

text \<open>\<^verbatim>\<open>int(text)\<close>: single underscores may stand between digits.\<close>

fun int_digits_ok :: "bool \<Rightarrow> string \<Rightarrow> bool" where
  "int_digits_ok after_digit [] = after_digit"
| "int_digits_ok after_digit (c # cs) =
     (if is_digit c then int_digits_ok True cs
      else c = CHR ''_'' \<and> after_digit \<and> int_digits_ok False cs)"

definition int_of_string :: "string \<Rightarrow> int result" where
  "int_of_string s = (case take_sign (strip s) of (neg, ds) \<Rightarrow>
     if int_digits_ok False ds
     then (let n = digits_val (filter is_digit ds) in Inr (if neg then - n else n))
     else Inl (ValueError ''invalid literal for int()''))"

definition truncate_rat :: "rat \<Rightarrow> int" where
  "truncate_rat x = (if 0 \<le> x then \<lfloor>x\<rfloor> else \<lceil>x\<rceil>)"

fun int_of_pval :: "pval \<Rightarrow> int result" where
  "int_of_pval (PInt i) = Inr i"
| "int_of_pval (PBool b) = Inr (if b then 1 else 0)"
| "int_of_pval (PFloat r) = ebind (decimal_of_string r) (\<lambda>x. Inr (truncate_rat x))"
| "int_of_pval (PDecimal d) = Inr (truncate_rat d)"
| "int_of_pval (PStr s) = int_of_string s"
| "int_of_pval _ = Inl (TypeError ''int() argument'')"

definition get_param :: "params \<Rightarrow> string \<Rightarrow> pval \<Rightarrow> pval" where
  "get_param ps k d = (case map_of ps k of None \<Rightarrow> d | Some v \<Rightarrow> v)"

definition abstain_policy_of :: "pval \<Rightarrow> AbstainPolicy result" where
  "abstain_policy_of v = (if v = PStr ''EXCLUDE'' then Inr EXCLUDE
     else if v = PStr ''HALF'' then Inr HALF
     else Inl (ValueError ''AbstainPolicy''))"

text \<open>
  \<^verbatim>\<open>{k: Decimal(str(v)) for k, v in raw.items()} if raw else default\<close>; a true value that is not a
  mapping has no \<^verbatim>\<open>items\<close>.
\<close>

definition weights_param :: "pval \<Rightarrow> (string \<times> decimal) list \<Rightarrow> (string \<times> decimal) list result" where
  "weights_param raw dflt = (if \<not> py_truthy raw then Inr dflt
     else (case raw of
       PMap m \<Rightarrow> emap (\<lambda>(k, v). ebind (decimal_of_pval v) (\<lambda>d. Inr (k, d))) m
     | _ \<Rightarrow> Inl AttributeError))"

lemma opt_unit_iff: "opt_unit o' \<longleftrightarrow> (\<forall>x. o' = Some x \<longrightarrow> 0 \<le> x \<and> x \<le> 1)"
  by (cases o') auto

lemma mk_result_Inr [result_simps]: "mk_result r = Inr r' \<longleftrightarrow> r' = r \<and> ConsensusResult_valid r"
  by (auto simp: mk_result_def)

lemma context_validD:
  assumes "ConsensusContext_valid cx"
  shows "cx_alternatives cx \<noteq> []" "distinct (map al_alternative_id (cx_alternatives cx))"
    "distinct (map fv_alternative_id (cx_feasibility cx))"
    "\<And>v. v \<in> set (cx_feasibility cx) \<Longrightarrow> evidence_matches_status v"
    "\<And>p. p \<in> set (cx_agent_positions cx) \<Longrightarrow> AgentPosition_valid p"
    "\<And>a. a \<in> set (cx_alternatives cx) \<Longrightarrow> al_name a \<noteq> []"
    "\<And>b. b \<in> set (cx_objectives cx) \<Longrightarrow> ObjectiveInput_valid b"
    "1 \<le> cx_round cx"
  using assms
  by (auto simp: ConsensusContext_valid_def unique_alternatives_def
      feasibility_matches_alternatives_def list_all_iff)

end
