(* ===== verification/Consensus_Helpers.thy ===== *)
theory Consensus_Helpers
  imports Consensus_Ports
begin

text \<open>
  The shared feasibility gate (\<^verbatim>\<open>app/domain/consensus.py\<close>) and the helper functions of the consensus
  strategies (\<^verbatim>\<open>app/application/consensus.py\<close>): position scores, support, critiques, dissent and
  minority reports, evidence strength, objective values and dominance.
\<close>

subsection \<open>The shared feasibility gate\<close>

record FeasibilityGateResult =
  gt_rankable :: "AlternativeInput list"
  gt_infeasible :: "FeasibilityVerdict list"
  gt_unknown :: "FeasibilityVerdict list"
  gt_all_infeasible :: bool
  gt_has_unknown :: bool

fun symbolic_of :: "FeasibilityStatus \<Rightarrow> SymbolicStatus" where
  "symbolic_of SAT = Sym_SAT"
| "symbolic_of UNSAT = Sym_UNSAT"
| "symbolic_of UNKNOWN = Sym_UNKNOWN"

type_synonym gate_acc = "AlternativeInput list \<times> FeasibilityVerdict list \<times> FeasibilityVerdict list"

fun gate_step :: "(uuid \<rightharpoonup> FeasibilityVerdict) \<Rightarrow> gate_acc \<Rightarrow> AlternativeInput \<Rightarrow> gate_acc result" where
  "gate_step verdicts (rankable, infeasible, unknown) alt =
     (case verdicts (al_alternative_id alt) of
        None \<Rightarrow> Inr (rankable @ [alt], infeasible, unknown)
      | Some verdict \<Rightarrow>
          ebind (decide_status (symbolic_of (fv_status verdict)) (fv_reason_unknown verdict)) (\<lambda>d.
          case dec_action d of
            PROCEED \<Rightarrow> Inr (rankable @ [alt], infeasible, unknown)
          | BLOCK \<Rightarrow> Inr (rankable, infeasible @ [verdict], unknown)
          | DEFER \<Rightarrow> Inr (rankable @ [alt], infeasible, unknown @ [verdict])))"

definition feasibility_gate ::
  "AlternativeInput list \<Rightarrow> FeasibilityVerdict list \<Rightarrow> FeasibilityGateResult result" where
  "feasibility_gate alternatives feasibility =
     (let verdicts = dict_of fv_alternative_id (\<lambda>v. v) feasibility in
      ebind (efold (gate_step verdicts) ([], [], []) alternatives) (\<lambda>(rankable, infeasible, unknown).
      Inr \<lparr>gt_rankable = rankable, gt_infeasible = infeasible, gt_unknown = unknown,
           gt_all_infeasible = (length rankable = 0), gt_has_unknown = (0 < length unknown)\<rparr>))"

subsection \<open>Positions, support and reports\<close>

definition position_weights_default :: "(string \<times> decimal) list" where
  "position_weights_default =
     [(''SUPPORT'', 1), (''CONDITIONALLY_SUPPORT'', 75 / 100), (''INSUFFICIENT_EVIDENCE'', 25 / 100),
      (''OPPOSE'', 0), (''ABSTAIN'', 5 / 10)]"

text \<open>\<^verbatim>\<open>d.get(key, default)\<close> on a dictionary given by its items.\<close>

definition dget :: "('k \<times> 'v) list \<Rightarrow> 'k \<Rightarrow> 'v \<Rightarrow> 'v" where
  "dget d k x = (case map_of d k of None \<Rightarrow> x | Some v \<Rightarrow> v)"

text \<open>\<^verbatim>\<open>weights or _POSITION_WEIGHTS\<close>: both \<^verbatim>\<open>None\<close> and an empty dictionary are false.\<close>

definition weights_or_default :: "(string \<times> decimal) list option \<Rightarrow> (string \<times> decimal) list" where
  "weights_or_default ws = (case ws of None \<Rightarrow> position_weights_default
     | Some m \<Rightarrow> if m = [] then position_weights_default else m)"

definition position_score ::
  "string \<Rightarrow> decimal \<Rightarrow> bool \<Rightarrow> (string \<times> decimal) list option \<Rightarrow> decimal" where
  "position_score stance confidence use_confidence weights =
     (let w = dget (weights_or_default weights) stance (5 / 10)
      in if use_confidence then d_mul w confidence else w)"

definition for_alternative :: "uuid \<Rightarrow> AgentPosition list \<Rightarrow> AgentPosition list" where
  "for_alternative a ps = filter (\<lambda>p. ap_alternative_id p = a) ps"

definition relevant_positions :: "uuid \<Rightarrow> AgentPosition list \<Rightarrow> AbstainPolicy \<Rightarrow> AgentPosition list" where
  "relevant_positions a ps policy =
     (let relevant = for_alternative a ps
      in if policy = EXCLUDE then filter (\<lambda>p. ap_stance p \<noteq> ''ABSTAIN'') relevant else relevant)"

text \<open>\<^verbatim>\<open>x / len(xs)\<close>; every use guards against the empty list.\<close>

definition d_div_len :: "decimal \<Rightarrow> nat \<Rightarrow> decimal" where
  "d_div_len x n = dec_round (x / of_nat n)"

definition compute_support ::
  "uuid \<Rightarrow> AgentPosition list \<Rightarrow> bool \<Rightarrow> AbstainPolicy \<Rightarrow> (string \<times> decimal) list option
   \<Rightarrow> decimal \<times> nat" where
  "compute_support a ps use_confidence policy weights =
     (let relevant = relevant_positions a ps policy
      in if relevant = [] then (0, 0)
         else (let total = d_sum (map (\<lambda>p. position_score (ap_stance p) (ap_confidence p)
                                             use_confidence weights) relevant)
               in (d_div_len total (length relevant), length relevant)))"

definition unresolved_resolution :: "string \<Rightarrow> bool" where
  "unresolved_resolution r = (r \<in> {''OPEN'', ''UNRESOLVED'', ''DISPUTED''})"

definition blocking_critiques :: "CritiqueInput list \<Rightarrow> uuid list" where
  "blocking_critiques cs = map cr_critique_id
     (filter (\<lambda>c. cr_severity c = ''BLOCKING'' \<and> unresolved_resolution (cr_resolution c)) cs)"

definition build_dissent :: "uuid \<Rightarrow> AgentPosition list \<Rightarrow> DissentEntry list" where
  "build_dissent a ps =
     map (\<lambda>p. \<lparr>de_agent_id = ap_agent_id p, de_stance = ap_stance p,
               de_warrant_artifact_ids = ap_evidence_ids p, de_disputed_proposition_ids = [],
               de_unresolved_critique_ids = [], de_what_would_change = []\<rparr>)
         (filter (\<lambda>p. ap_alternative_id p = a \<and>
            ap_stance p \<in> {''OPPOSE'', ''ABSTAIN'', ''INSUFFICIENT_EVIDENCE''}) ps)"

definition build_minority ::
  "uuid \<Rightarrow> AgentPosition list \<Rightarrow> CritiqueInput list \<Rightarrow> MinorityEntry list" where
  "build_minority a ps cs =
     (let unresolved = set (map cr_critique_id
            (filter (\<lambda>c. unresolved_resolution (cr_resolution c)) cs))
      in map (\<lambda>p. \<lparr>me_agent_id = ap_agent_id p, me_position = ap_stance p,
                   me_warrant_artifact_ids = ap_evidence_ids p, me_disputed_propositions = [],
                   me_unresolved_critiques = unresolved, me_what_would_change = []\<rparr>)
             (filter (\<lambda>p. ap_alternative_id p = a \<and>
                ap_stance p \<in> {''OPPOSE'', ''INSUFFICIENT_EVIDENCE''}) ps))"

definition contributions :: "AgentPosition list \<Rightarrow> bool \<Rightarrow> AgentContribution list" where
  "contributions ps use_confidence =
     map (\<lambda>p. \<lparr>ac_agent_id = ap_agent_id p, ac_alternative_id = ap_alternative_id p,
               ac_stance = ap_stance p,
               ac_position_score = position_score (ap_stance p) (ap_confidence p) use_confidence None,
               ac_confidence = ap_confidence p, ac_evidence_score = 0\<rparr>) ps"

definition blocking_gate_outcome :: "uuid list \<Rightarrow> ConsensusOutcome \<Rightarrow> ConsensusOutcome" where
  "blocking_gate_outcome blocking candidate =
     (if blocking \<noteq> [] \<and> candidate = FULL_CONSENSUS then PARTIAL_CONSENSUS else candidate)"

definition degenerate :: "ConsensusContext \<Rightarrow> bool" where
  "degenerate cx = (length (cx_alternatives cx) \<le> 1 \<or>
     card (set (map ap_agent_id (cx_agent_positions cx))) \<le> 1)"

subsection \<open>Objective values\<close>

definition objective_raw ::
  "(string \<times> (string \<times> string) list) list \<Rightarrow> uuid \<Rightarrow> uuid \<Rightarrow> string option" where
  "objective_raw values objective alt = map_of (dget values (uuid_str objective) []) (uuid_str alt)"

fun objective_value_step ::
  "uuid \<Rightarrow> (string \<times> (string \<times> string) list) list \<Rightarrow> decimal \<times> bool \<Rightarrow> ObjectiveInput
   \<Rightarrow> (decimal \<times> bool) result" where
  "objective_value_step a values (tot, any_value) obj =
     (case objective_raw values (ob_objective_id obj) a of
        None \<Rightarrow> Inr (tot, any_value)
      | Some raw \<Rightarrow> ebind (decimal_of_string raw) (\<lambda>v.
          Inr (d_add tot (d_mul (ob_weight obj) v), True)))"

definition weighted_objective_value ::
  "uuid \<Rightarrow> ObjectiveInput list \<Rightarrow> (string \<times> (string \<times> string) list) list \<Rightarrow> decimal option result" where
  "weighted_objective_value a objectives values =
     ebind (efold (objective_value_step a values) (0, False) objectives) (\<lambda>(total, any_value).
       Inr (if any_value then Some total else None))"

subsection \<open>Evidence strength\<close>

definition verification_weights_default :: "(string \<times> decimal) list" where
  "verification_weights_default =
     [(''UNVERIFIED'', 3 / 10), (''SOURCE_VERIFIED'', 8 / 10), (''CROSS_CHECKED'', 1),
      (''DISPUTED'', 1 / 10), (''REJECTED'', 0)]"

definition trust_multiplier_default :: "(string \<times> decimal) list" where
  "trust_multiplier_default =
     [(''PRIMARY'', 1), (''AUTHORITATIVE'', 9 / 10), (''SECONDARY'', 6 / 10),
      (''COMMERCIAL'', 4 / 10), (''UNATTRIBUTED'', 0), (''SYNTHETIC'', 0)]"

definition citation_weight ::
  "EvidenceCitationInput \<Rightarrow> (string \<times> decimal) list \<Rightarrow> (string \<times> decimal) list \<Rightarrow> decimal" where
  "citation_weight c vw tm = d_mul (dget vw (ec_verification c) 0) (dget tm (ec_trust_level c) 0)"

definition clamp :: "decimal \<Rightarrow> decimal \<Rightarrow> decimal \<Rightarrow> decimal" where
  "clamp x lo hi = max lo (min hi x)"

definition evidence_for_position ::
  "AgentPosition \<Rightarrow> EvidenceCitationInput list \<Rightarrow> EvidenceCitationInput list" where
  "evidence_for_position p evidence =
     (let lookup = dict_of ec_evidence_id (\<lambda>e. e) evidence
      in List.map_filter lookup (ap_evidence_ids p))"

text \<open>The loop counts each publisher's citations and keeps those up to the cap.\<close>

definition bump :: "(string \<Rightarrow> int) \<Rightarrow> string \<Rightarrow> (string \<Rightarrow> int)" where
  "bump counts key = counts(key := counts key + 1)"

fun capped_loop ::
  "int \<Rightarrow> (string \<Rightarrow> int) \<Rightarrow> EvidenceCitationInput list \<Rightarrow> EvidenceCitationInput list" where
  "capped_loop cap counts [] = []"
| "capped_loop cap counts (c # cs) =
     (let counts' = bump counts (ec_publisher c)
      in if counts' (ec_publisher c) \<le> cap then c # capped_loop cap counts' cs
         else capped_loop cap counts' cs)"

definition capped_by_publisher :: "EvidenceCitationInput list \<Rightarrow> int \<Rightarrow> EvidenceCitationInput list" where
  "capped_by_publisher citations cap = capped_loop cap (\<lambda>_. 0) citations"

fun strength_step ::
  "(string \<times> decimal) list \<Rightarrow> (string \<times> decimal) list \<Rightarrow> decimal \<times> decimal
   \<Rightarrow> EvidenceCitationInput \<Rightarrow> decimal \<times> decimal" where
  "strength_step vw tm (e_total, d_total) c =
     (if ec_verification c = ''REJECTED'' then (e_total, d_total)
      else (let w = citation_weight c vw tm in
        if ec_polarity c = ''SUPPORT'' then (d_add e_total w, d_total)
        else if ec_polarity c = ''OPPOSE'' then (e_total, d_add d_total w)
        else (e_total, d_total)))"

definition evidence_strength ::
  "AgentPosition \<Rightarrow> EvidenceCitationInput list \<Rightarrow> (string \<times> decimal) list
   \<Rightarrow> (string \<times> decimal) list \<Rightarrow> int \<Rightarrow> decimal \<times> decimal" where
  "evidence_strength p evidence vw tm cap =
     foldl (strength_step vw tm) (0, 0) (capped_by_publisher (evidence_for_position p evidence) cap)"

text \<open>
  The body of the loop over the relevant positions, as both evidence-based strategies have it:
  it accumulates the evidence total of the alternative and the weighted terms of its support.
\<close>

fun support_term ::
  "EvidenceCitationInput list \<Rightarrow> (string \<times> decimal) list \<Rightarrow> (string \<times> decimal) list \<Rightarrow> int
   \<Rightarrow> bool \<Rightarrow> (string \<times> decimal) list option \<Rightarrow> decimal \<Rightarrow> decimal \<times> decimal \<Rightarrow> AgentPosition
   \<Rightarrow> (decimal \<times> decimal) result" where
  "support_term evidence vw tm cap use_confidence pos_weights lam (e_alt, weighted_terms) p =
     (case evidence_strength p evidence vw tm cap of (e_i, d_i) \<Rightarrow>
        ebind (d_div (d_sub e_i d_i) (d_add (d_add e_i d_i) 1)) (\<lambda>q.
          let evid = clamp q (-1) 1;
              base = position_score (ap_stance p) (ap_confidence p) use_confidence pos_weights
          in Inr (d_add e_alt e_i,
                  d_add weighted_terms (d_mul base (d_add 1 (d_mul lam (max 0 evid)))))))"

definition support_ev ::
  "AgentPosition list \<Rightarrow> EvidenceCitationInput list \<Rightarrow> (string \<times> decimal) list
   \<Rightarrow> (string \<times> decimal) list \<Rightarrow> int \<Rightarrow> bool \<Rightarrow> (string \<times> decimal) list option \<Rightarrow> decimal
   \<Rightarrow> (decimal \<times> decimal) result" where
  "support_ev relevant evidence vw tm cap use_confidence pos_weights lam =
     (if relevant = [] then Inr (0, 0)
      else ebind (efold (support_term evidence vw tm cap use_confidence pos_weights lam) (0, 0) relevant)
        (\<lambda>(e_alt, weighted_terms). Inr (e_alt, min 1 (d_div_len weighted_terms (length relevant)))))"

subsection \<open>Dominance\<close>

definition objective_value_lookup ::
  "uuid \<Rightarrow> ObjectiveInput list \<Rightarrow> (string \<times> (string \<times> string) list) list
   \<Rightarrow> (uuid \<rightharpoonup> decimal) result" where
  "objective_value_lookup a objectives values =
     efold (\<lambda>m obj. case objective_raw values (ob_objective_id obj) a of
              None \<Rightarrow> Inr m
            | Some raw \<Rightarrow> ebind (decimal_of_string raw) (\<lambda>v. Inr (m(ob_objective_id obj \<mapsto> v))))
       Map.empty objectives"

fun dominates_loop ::
  "(uuid \<rightharpoonup> decimal) \<Rightarrow> (uuid \<rightharpoonup> decimal) \<Rightarrow> uuid list \<Rightarrow> decimal \<Rightarrow> bool \<Rightarrow> bool" where
  "dominates_loop av bv [] epsilon better = better"
| "dominates_loop av bv (k # ks) epsilon better =
     (case av k of None \<Rightarrow> False
      | Some x \<Rightarrow> (case bv k of None \<Rightarrow> False
        | Some y \<Rightarrow> if x < y then False
                    else dominates_loop av bv ks epsilon (d_add y epsilon < x \<or> better)))"

definition dominates ::
  "(uuid \<rightharpoonup> decimal) \<Rightarrow> (uuid \<rightharpoonup> decimal) \<Rightarrow> uuid list \<Rightarrow> decimal \<Rightarrow> bool" where
  "dominates av bv objective_ids epsilon =
     (objective_ids \<noteq> [] \<and> dominates_loop av bv objective_ids epsilon False)"

definition undominated ::
  "uuid list \<Rightarrow> (uuid \<Rightarrow> (uuid \<rightharpoonup> decimal)) \<Rightarrow> uuid list \<Rightarrow> decimal \<Rightarrow> uuid list" where
  "undominated alt_ids values_by_alt objective_ids epsilon =
     filter (\<lambda>a. \<not> list_ex (\<lambda>b. b \<noteq> a \<and>
       dominates (values_by_alt b) (values_by_alt a) objective_ids epsilon) alt_ids) alt_ids"

subsection \<open>Derivation steps and explanations\<close>

definition derivation ::
  "string \<Rightarrow> string \<Rightarrow> int \<Rightarrow> (dval \<times> dval) list \<Rightarrow> (dval \<times> dval) list \<Rightarrow> DerivationStep" where
  "derivation stage description step inputs outputs =
     \<lparr>ds_step = step, ds_stage = stage, ds_description = description, ds_inputs = inputs,
      ds_outputs = outputs\<rparr>"

definition empty_explanation ::
  "ConsensusResult \<Rightarrow> string \<Rightarrow> (string \<times> (string \<times> decimal) list) list \<Rightarrow> (string \<times> decimal) list
   \<Rightarrow> string list \<Rightarrow> ConsensusExplanation" where
  "empty_explanation r formula weights thresholds caveats =
     \<lparr>ex_consensus_id = rs_result_id r, ex_outcome = rs_outcome r, ex_strategy = rs_strategy r,
      ex_strategy_version = rs_strategy_version r, ex_formula = formula, ex_weights = weights,
      ex_thresholds = thresholds, ex_contributions = rs_contributions r,
      ex_derivation = rs_derivation r, ex_caveats = caveats,
      ex_minority_report = rs_minority_report r, ex_counterfactuals = [], ex_flip_distance = None,
      ex_degenerate_input = rs_degenerate_input r, ex_input_hash = rs_input_hash r\<rparr>"

subsection \<open>Specification of the gate and of well-behaved inputs\<close>

text \<open>What the gate is meant to do, stated without its loop.\<close>

definition alt_status :: "FeasibilityVerdict list \<Rightarrow> uuid \<Rightarrow> FeasibilityStatus option" where
  "alt_status feasibility a =
     map_option fv_status (dict_of fv_alternative_id (\<lambda>v. v) feasibility a)"

definition verdicts_with ::
  "FeasibilityStatus \<Rightarrow> AlternativeInput list \<Rightarrow> FeasibilityVerdict list \<Rightarrow> FeasibilityVerdict list" where
  "verdicts_with st alternatives feasibility =
     filter (\<lambda>v. fv_status v = st)
       (List.map_filter (\<lambda>a. dict_of fv_alternative_id (\<lambda>v. v) feasibility (al_alternative_id a))
          alternatives)"

definition gate_spec ::
  "AlternativeInput list \<Rightarrow> FeasibilityVerdict list \<Rightarrow> FeasibilityGateResult" where
  "gate_spec alternatives feasibility =
     (let rankable = filter (\<lambda>a. alt_status feasibility (al_alternative_id a) \<noteq> Some UNSAT) alternatives
      in \<lparr>gt_rankable = rankable,
          gt_infeasible = verdicts_with UNSAT alternatives feasibility,
          gt_unknown = verdicts_with UNKNOWN alternatives feasibility,
          gt_all_infeasible = (rankable = []),
          gt_has_unknown = (verdicts_with UNKNOWN alternatives feasibility \<noteq> [])\<rparr>)"

definition publisher_count :: "string \<Rightarrow> EvidenceCitationInput list \<Rightarrow> nat" where
  "publisher_count p cs = length (filter (\<lambda>c. ec_publisher c = p) cs)"

definition nonneg_weights :: "(string \<times> decimal) list \<Rightarrow> bool" where
  "nonneg_weights m = list_all (\<lambda>(k, v). 0 \<le> v) m"

text \<open>
  A value grows under the addition of the margin: the margin is not negative and the value has at
  most 28 significant digits.
\<close>

definition margin_safe :: "(uuid \<rightharpoonup> decimal) \<Rightarrow> uuid list \<Rightarrow> decimal \<Rightarrow> bool" where
  "margin_safe v ks eps = (\<forall>k \<in> set ks. \<forall>x. v k = Some x \<longrightarrow> x \<le> d_add x eps)"

subsection \<open>The gate computes its specification\<close>

lemma symbolic_action:
  "decide_status (symbolic_of st) r = Inr d \<Longrightarrow>
   dec_action d = (case st of SAT \<Rightarrow> PROCEED | UNSAT \<Rightarrow> BLOCK | UNKNOWN \<Rightarrow> DEFER)"
  by (cases st) (auto split: option.splits if_splits)

lemma gate_fold:
  assumes "efold (gate_step (dict_of fv_alternative_id (\<lambda>v. v) fs)) (r, i, u) alts = Inr (r', i', u')"
  shows "r' = r @ filter (\<lambda>a. alt_status fs (al_alternative_id a) \<noteq> Some UNSAT) alts \<and>
    i' = i @ verdicts_with UNSAT alts fs \<and> u' = u @ verdicts_with UNKNOWN alts fs"
  using assms
proof (induction alts arbitrary: r i u)
  case Nil
  then show ?case by (simp add: verdicts_with_def List.map_filter_simps)
next
  case (Cons a alts)
  show ?case
  proof (cases "dict_of fv_alternative_id (\<lambda>v. v) fs (al_alternative_id a)")
    case None
    with Cons show ?thesis
      by (fastforce simp: alt_status_def verdicts_with_def List.map_filter_simps)
  next
    case (Some v)
    with Cons.prems obtain d where
      d: "decide_status (symbolic_of (fv_status v)) (fv_reason_unknown v) = Inr d"
      by (auto simp: result_simps)
    from symbolic_action [OF d] Cons.prems Cons.IH Some d show ?thesis
      by (cases "fv_status v")
         (fastforce simp: alt_status_def verdicts_with_def List.map_filter_simps)+
  qed
qed

lemma feasibility_gate_spec:
  "feasibility_gate alts fs = Inr g \<Longrightarrow> g = gate_spec alts fs"
  by (auto simp: feasibility_gate_def gate_spec_def Let_def result_simps dest!: gate_fold)

lemma decide_status_total:
  "evidence_matches_status v \<Longrightarrow>
   \<exists>d. decide_status (symbolic_of (fv_status v)) (fv_reason_unknown v) = Inr d"
  by (cases "fv_status v") (auto simp: evidence_matches_status_def split: option.splits)

lemma feasibility_gate_total:
  assumes "\<And>v. v \<in> set fs \<Longrightarrow> evidence_matches_status v"
  shows "feasibility_gate alts fs = Inr (gate_spec alts fs)"
proof -
  have "\<exists>t. gate_step (dict_of fv_alternative_id (\<lambda>v. v) fs) s a = Inr t" for s a
  proof (cases "dict_of fv_alternative_id (\<lambda>v. v) fs (al_alternative_id a)")
    case None
    then show ?thesis by (cases s) simp
  next
    case (Some v)
    then have "v \<in> set fs" by (auto elim: dict_of_SomeD)
    then obtain d where "decide_status (symbolic_of (fv_status v)) (fv_reason_unknown v) = Inr d"
      using decide_status_total assms by blast
    with Some show ?thesis by (cases s) (cases "dec_action d"; simp)
  qed
  from efold_total' [of "gate_step (dict_of fv_alternative_id (\<lambda>v. v) fs)", OF this]
  obtain t where
    "efold (gate_step (dict_of fv_alternative_id (\<lambda>v. v) fs)) ([], [], []) alts = Inr t" by blast
  then have "\<exists>g. feasibility_gate alts fs = Inr g"
    by (cases t) (auto simp: feasibility_gate_def Let_def result_simps)
  then show ?thesis using feasibility_gate_spec by blast
qed

lemma mem_verdicts_with:
  "v \<in> set (verdicts_with st alts fs) \<longleftrightarrow> fv_status v = st \<and>
   (\<exists>a \<in> set alts. dict_of fv_alternative_id (\<lambda>v. v) fs (al_alternative_id a) = Some v)"
  by (auto simp: verdicts_with_def set_map_filter_Some)

lemma gate_unknown_iff:
  "list_ex (\<lambda>v. fv_alternative_id v = a) (gt_unknown (gate_spec alts fs)) \<longleftrightarrow>
    a \<in> al_alternative_id ` set alts \<and> alt_status fs a = Some UNKNOWN"
proof -
  have "list_ex (\<lambda>v. fv_alternative_id v = a) (gt_unknown (gate_spec alts fs)) \<longleftrightarrow>
    (\<exists>v. v \<in> set (verdicts_with UNKNOWN alts fs) \<and> fv_alternative_id v = a)"
    by (auto simp: gate_spec_def Let_def list_ex_iff)
  also have "\<dots> \<longleftrightarrow> a \<in> al_alternative_id ` set alts \<and> alt_status fs a = Some UNKNOWN"
  proof
    assume "\<exists>v. v \<in> set (verdicts_with UNKNOWN alts fs) \<and> fv_alternative_id v = a"
    then obtain v b where v: "fv_status v = UNKNOWN" "fv_alternative_id v = a" "b \<in> set alts"
      "dict_of fv_alternative_id (\<lambda>v. v) fs (al_alternative_id b) = Some v"
      by (auto simp: mem_verdicts_with)
    with dict_of_id [OF v(4)] show "a \<in> al_alternative_id ` set alts \<and> alt_status fs a = Some UNKNOWN"
      by (auto simp: alt_status_def)
  next
    assume "a \<in> al_alternative_id ` set alts \<and> alt_status fs a = Some UNKNOWN"
    then show "\<exists>v. v \<in> set (verdicts_with UNKNOWN alts fs) \<and> fv_alternative_id v = a"
      by (auto simp: mem_verdicts_with alt_status_def dest: dict_of_id)
  qed
  finally show ?thesis .
qed

subsection \<open>Scores and support\<close>

lemma default_weight_unit: "0 \<le> dget position_weights_default st (5 / 10) \<and>
  dget position_weights_default st (5 / 10) \<le> 1"
  by (simp add: dget_def position_weights_default_def)

lemma position_score_unit:
  assumes "0 \<le> c" "c \<le> 1"
  shows "0 \<le> position_score st c uc None \<and> position_score st c uc None \<le> 1"
  using dec.rnd_product_unit [of "dget position_weights_default st (5 / 10)" c]
    default_weight_unit [of st] assms
  unfolding position_score_def weights_or_default_def d_mul_def Let_def by (cases uc) simp_all

lemma d_sum_foldl: "d_sum xs = foldl (\<lambda>s x. dec_round (s + x)) 0 xs"
  unfolding d_sum_def d_add_def by simp

lemma compute_support_unit:
  assumes "\<And>p. p \<in> set ps \<Longrightarrow> AgentPosition_valid p" and "length ps \<le> 10 ^ 28"
  shows "0 \<le> fst (compute_support a ps uc pol None) \<and> fst (compute_support a ps uc pol None) \<le> 1"
proof -
  let ?rel = "relevant_positions a ps pol"
  let ?xs = "map (\<lambda>p. position_score (ap_stance p) (ap_confidence p) uc None) ?rel"
  have sub: "set ?rel \<subseteq> set ps" and "length ?rel \<le> length ps"
    unfolding relevant_positions_def for_alternative_def Let_def
    by (auto intro: order_trans [OF length_filter_le])
  then have len: "length ?xs \<le> 10 ^ 28" using assms(2) by simp
  have "\<forall>x \<in> set ?xs. 0 \<le> x \<and> x \<le> 1"
    using sub assms(1) by (auto simp: AgentPosition_valid_def subset_iff intro!: position_score_unit)
  from dec.mean_unit [OF this len] show ?thesis
    by (simp add: compute_support_def Let_def d_div_len_def d_sum_foldl)
qed

lemma contributions_valid:
  assumes "\<And>p. p \<in> set ps \<Longrightarrow> AgentPosition_valid p"
  shows "list_all AgentContribution_valid (contributions ps uc)"
  using assms position_score_unit
  by (auto simp: contributions_def list_all_iff AgentContribution_valid_def AgentPosition_valid_def)

lemma unit_ratio: "n \<le> m \<Longrightarrow> 0 \<le> d_div_len (of_nat n) m \<and> d_div_len (of_nat n) m \<le> 1"
  unfolding d_div_len_def by (rule dec.rnd_ratio_unit)

subsection \<open>Evidence\<close>

lemma bump_same: "bump counts k k = counts k + 1"
  by (simp add: bump_def)

lemma bump_other: "p \<noteq> k \<Longrightarrow> bump counts k p = counts p"
  by (simp add: bump_def)

lemma publisher_count_Cons:
  "publisher_count p (c # cs) = (if ec_publisher c = p then 1 else 0) + publisher_count p cs"
  by (simp add: publisher_count_def)

lemma capped_loop_Cons:
  "capped_loop cap counts (c # cs) =
     (if counts (ec_publisher c) + 1 \<le> cap then [c] else []) @
     capped_loop cap (bump counts (ec_publisher c)) cs"
  by (simp add: Let_def bump_same)

lemma publisher_count_append [simp]:
  "publisher_count p (xs @ ys) = publisher_count p xs + publisher_count p ys"
  by (simp add: publisher_count_def)

lemma capped_loop_count:
  "int (publisher_count p (capped_loop cap counts cs)) \<le> max 0 (cap - counts p)"
proof (induction cs arbitrary: counts)
  case (Cons c cs)
  let ?b = "bump counts (ec_publisher c)"
  have IH: "int (publisher_count p (capped_loop cap ?b cs)) \<le> max 0 (cap - ?b p)"
    by (rule Cons.IH)
  have b: "?b p = (if ec_publisher c = p then counts p + 1 else counts p)"
    by (simp add: bump_def)
  show ?case using IH unfolding b capped_loop_Cons by (auto simp: publisher_count_def)
qed (simp add: publisher_count_def)

lemma capped_loop_all:
  "(\<And>p. counts p + int (publisher_count p cs) \<le> cap) \<Longrightarrow> capped_loop cap counts cs = cs"
proof (induction cs arbitrary: counts)
  case (Cons c cs)
  let ?b = "bump counts (ec_publisher c)"
  have "?b p + int (publisher_count p cs) \<le> cap" for p
    using Cons.prems [of p] by (cases "p = ec_publisher c") (simp_all add: publisher_count_Cons bump_same bump_other)
  then have "capped_loop cap ?b cs = cs" by (rule Cons.IH)
  moreover have "counts (ec_publisher c) + 1 \<le> cap"
    using Cons.prems [of "ec_publisher c"] by (simp add: publisher_count_Cons)
  ultimately show ?case unfolding capped_loop_Cons by simp
qed simp

lemma capped_loop_subset: "set (capped_loop cap counts cs) \<subseteq> set cs"
  by (induction cs arbitrary: counts) (fastforce simp: Let_def split: if_splits)+

lemma dget_nonneg: "nonneg_weights m \<Longrightarrow> 0 \<le> x \<Longrightarrow> 0 \<le> dget m k x"
  by (auto simp: nonneg_weights_def dget_def list_all_iff split: option.splits dest: map_of_SomeD)

lemma citation_weight_nonneg:
  "nonneg_weights vw \<Longrightarrow> nonneg_weights tm \<Longrightarrow> 0 \<le> citation_weight c vw tm"
  by (simp add: citation_weight_def d_mul_def dec.rnd_nonneg dget_nonneg)

lemma strength_fold_nonneg:
  assumes "nonneg_weights vw" "nonneg_weights tm" "0 \<le> e" "0 \<le> d"
  shows "0 \<le> fst (foldl (strength_step vw tm) (e, d) cs) \<and> 0 \<le> snd (foldl (strength_step vw tm) (e, d) cs)"
  using assms(3,4)
proof (induction cs arbitrary: e d)
  case (Cons c cs)
  have "0 \<le> d_add x (citation_weight c vw tm)" if "0 \<le> x" for x
    using that citation_weight_nonneg [OF assms(1,2)] by (simp add: d_add_def dec.rnd_nonneg)
  with Cons show ?case by (simp add: Let_def)
qed simp

lemma evidence_strength_nonneg:
  "nonneg_weights vw \<Longrightarrow> nonneg_weights tm \<Longrightarrow>
   0 \<le> fst (evidence_strength p ev vw tm cap) \<and> 0 \<le> snd (evidence_strength p ev vw tm cap)"
  by (simp add: evidence_strength_def strength_fold_nonneg)

lemma support_term_total:
  assumes "nonneg_weights vw" "nonneg_weights tm"
  shows "\<exists>t. support_term ev vw tm cap uc pw lam s p = Inr t"
proof -
  obtain e d where s: "evidence_strength p ev vw tm cap = (e, d)"
    by (cases "evidence_strength p ev vw tm cap")
  with evidence_strength_nonneg [OF assms, of p ev cap] have "0 \<le> e" "0 \<le> d" by auto
  then have "0 \<le> d_add e d" by (simp add: d_add_def dec.rnd_nonneg)
  then have "1 \<le> d_add (d_add e d) 1"
    unfolding d_add_def using dec_round_mono [of 1 "dec_round (e + d) + 1"] by simp
  then show ?thesis using s by (cases s) (auto simp: d_div_def Let_def split: prod.splits)
qed

subsection \<open>Dominance\<close>

lemma dominates_loop_iff:
  "dominates_loop av bv ks eps b \<longleftrightarrow>
     (\<forall>k \<in> set ks. \<exists>x y. av k = Some x \<and> bv k = Some y \<and> y \<le> x) \<and>
     (b \<or> (\<exists>k \<in> set ks. \<exists>x y. av k = Some x \<and> bv k = Some y \<and> d_add y eps < x))"
  by (induction ks arbitrary: b) (auto split: option.splits)

lemma dominates_iff:
  "dominates av bv ks eps \<longleftrightarrow>
     (\<forall>k \<in> set ks. \<exists>x y. av k = Some x \<and> bv k = Some y \<and> y \<le> x) \<and>
     (\<exists>k \<in> set ks. \<exists>x y. av k = Some x \<and> bv k = Some y \<and> d_add y eps < x)"
  by (auto simp: dominates_def dominates_loop_iff)

lemma dominatesE:
  assumes "dominates av bv ks eps"
  obtains k x y where "k \<in> set ks" "av k = Some x" "bv k = Some y" "d_add y eps < x"
  using assms unfolding dominates_iff by blast

lemma dominates_geD:
  assumes "dominates av bv ks eps" "k \<in> set ks"
  obtains x y where "av k = Some x" "bv k = Some y" "y \<le> x"
  using assms unfolding dominates_iff by blast

lemma dominates_trans:
  assumes ab: "dominates av bv ks eps" and bc: "dominates bv cv ks eps"
  shows "dominates av cv ks eps"
proof -
  have "\<exists>x z. av k = Some x \<and> cv k = Some z \<and> z \<le> x" if "k \<in> set ks" for k
    using dominates_geD [OF ab that] dominates_geD [OF bc that] by (metis option.inject order_trans)
  moreover obtain k x y where k: "k \<in> set ks" "av k = Some x" "bv k = Some y" "d_add y eps < x"
    using ab by (rule dominatesE)
  obtain y' z where z: "bv k = Some y'" "cv k = Some z" "z \<le> y'"
    using bc k(1) by (rule dominates_geD)
  have "d_add z eps \<le> d_add y eps" unfolding d_add_def using k(3) z by (intro dec_round_mono) simp
  with k z(2) have "\<exists>k \<in> set ks. \<exists>x z. av k = Some x \<and> cv k = Some z \<and> d_add z eps < x"
    by (meson order_le_less_trans)
  ultimately show ?thesis unfolding dominates_iff by blast
qed

lemma dominated_by_maximal:
  assumes "finite A" "a \<in> A"
    and trans: "\<And>x y z. R x y \<Longrightarrow> R y z \<Longrightarrow> R x z" and irrefl: "\<And>x. x \<in> A \<Longrightarrow> \<not> R x x"
  shows "\<exists>m \<in> A. (m = a \<or> R m a) \<and> (\<forall>b \<in> A. \<not> R b m)"
  using assms(2)
proof (induction "card {b \<in> A. R b a}" arbitrary: a rule: less_induct)
  case less
  show ?case
  proof (cases "\<exists>b \<in> A. R b a")
    case True
    then obtain b where b: "b \<in> A" "R b a" by blast
    have "{c \<in> A. R c b} \<subset> {c \<in> A. R c a}" using b trans irrefl by blast
    then have "card {c \<in> A. R c b} < card {c \<in> A. R c a}"
      using assms(1) by (simp add: psubset_card_mono)
    from less.hyps [OF this b(1)] show ?thesis using b trans by blast
  next
    case False
    with less.prems show ?thesis by blast
  qed
qed

lemma margin_safeI:
  assumes "0 \<le> eps" and "\<And>k x. k \<in> set ks \<Longrightarrow> v k = Some x \<Longrightarrow> dec_round x = x"
  shows "margin_safe v ks eps"
  unfolding margin_safe_def d_add_def using assms dec_round_mono [of x "x + eps" for x]
  by (metis add_increasing2 order_refl)

lemma not_self_dominates: "margin_safe v ks eps \<Longrightarrow> \<not> dominates v v ks eps"
  unfolding dominates_iff margin_safe_def by (metis not_less option.inject)

lemma undominated_iff:
  "a \<in> set (undominated ids vals ks eps) \<longleftrightarrow>
     a \<in> set ids \<and> \<not> (\<exists>b \<in> set ids. b \<noteq> a \<and> dominates (vals b) (vals a) ks eps)"
  by (auto simp: undominated_def list_ex_iff)

lemma undominated_cover:
  assumes "\<And>a. a \<in> set ids \<Longrightarrow> margin_safe (vals a) ks eps" and "a \<in> set ids"
  shows "\<exists>m \<in> set (undominated ids vals ks eps). m = a \<or> dominates (vals m) (vals a) ks eps"
proof -
  let ?R = "\<lambda>x y. dominates (vals x) (vals y) ks eps"
  have "\<exists>m \<in> set ids. (m = a \<or> ?R m a) \<and> (\<forall>b \<in> set ids. \<not> ?R b m)"
    by (rule dominated_by_maximal [of "set ids" a ?R])
       (auto simp: assms not_self_dominates intro: dominates_trans)
  then show ?thesis by (auto simp: undominated_iff)
qed

lemma undominated_nonempty:
  assumes "\<And>a. a \<in> set ids \<Longrightarrow> margin_safe (vals a) ks eps" and "ids \<noteq> []"
  shows "undominated ids vals ks eps \<noteq> []"
proof -
  have "hd ids \<in> set ids" using assms(2) by simp
  then have "\<exists>m \<in> set (undominated ids vals ks eps). m = hd ids \<or>
      dominates (vals m) (vals (hd ids)) ks eps"
    using undominated_cover assms(1) by blast
  then show ?thesis by auto
qed

end
