(* ===== verification/Consensus_Strategies.thy ===== *)
theory Consensus_Strategies
  imports Consensus_Helpers
begin

text \<open>
  The three consensus strategies of \<^verbatim>\<open>app/application/consensus.py\<close>: \<^verbatim>\<open>WeightedStrategy\<close>,
  \<^verbatim>\<open>EvidenceWeightedStrategy\<close> and \<^verbatim>\<open>ConstraintAwareStrategy\<close>. An evaluation takes the context, the
  identifier \<^verbatim>\<open>uuid4()\<close> returns (\<open>fresh\<close>) and the input hash of the context (\<open>hash\<close>, whose text comes
  from a third-party serializer), and gives a result or the exception raised. The per-alternative
  loop of an evaluation is a function from one alternative to everything the loop body appends.
\<close>

subsection \<open>Results, classification and the shared stages\<close>

definition base_result ::
  "string \<Rightarrow> string \<Rightarrow> uuid \<Rightarrow> string \<Rightarrow> ConsensusContext \<Rightarrow> ConsensusOutcome \<Rightarrow> DerivationStep list
   \<Rightarrow> ConsensusResult" where
  "base_result name version fresh hash cx outcome der =
     \<lparr>rs_result_id = fresh, rs_session_id = cx_session_id cx, rs_round = cx_round cx,
      rs_strategy = name, rs_strategy_version = version, rs_outcome = outcome, rs_scores = [],
      rs_selected_alternative_id = None, rs_pareto_set = [], rs_support = None,
      rs_dissent_ratio = None, rs_abstention_ratio = None, rs_blocking_constraints = [],
      rs_blocking_critiques = [], rs_conditions = [], rs_degenerate_input = degenerate cx,
      rs_input_hash = hash, rs_contributions = [], rs_dissent = [], rs_minority_report = [],
      rs_derivation = der, rs_schema_version = 1\<rparr>"

definition gate_derivation ::
  "string \<Rightarrow> string \<Rightarrow> ConsensusContext \<Rightarrow> FeasibilityGateResult \<Rightarrow> DerivationStep" where
  "gate_derivation stage description cx gate =
     derivation stage description 1
       [(DStr ''alternative_count'', DInt (int (length (cx_alternatives cx))))]
       [(DStr ''rankable'', DInt (int (length (gt_rankable gate)))),
        (DStr ''infeasible'', DInt (int (length (gt_infeasible gate)))),
        (DStr ''unknown'', DInt (int (length (gt_unknown gate))))]"

definition infeasible_result ::
  "string \<Rightarrow> string \<Rightarrow> uuid \<Rightarrow> string \<Rightarrow> ConsensusContext \<Rightarrow> FeasibilityGateResult
   \<Rightarrow> DerivationStep list \<Rightarrow> ConsensusResult" where
  "infeasible_result name version fresh hash cx gate der =
     (base_result name version fresh hash cx INFEASIBLE der)
       \<lparr>rs_blocking_constraints := concat (map fv_unsat_core (gt_infeasible gate))\<rparr>"

definition is_unknown :: "FeasibilityGateResult \<Rightarrow> uuid \<Rightarrow> bool" where
  "is_unknown gate a = list_ex (\<lambda>v. fv_alternative_id v = a) (gt_unknown gate)"

definition unit_clamp :: "decimal \<Rightarrow> decimal" where
  "unit_clamp x = max 0 (min 1 x)"

definition all_active_supportive :: "ConsensusContext \<Rightarrow> uuid \<Rightarrow> bool" where
  "all_active_supportive cx a = list_all (\<lambda>p. ap_stance p \<in> {''SUPPORT'', ''ABSTAIN''})
     (for_alternative a (cx_agent_positions cx))"

text \<open>Thresholds, then the UNKNOWN cap, then the blocking-critique cap, in the source's order.\<close>

definition classify ::
  "decimal \<Rightarrow> decimal \<Rightarrow> decimal \<Rightarrow> bool \<Rightarrow> bool \<Rightarrow> uuid list \<Rightarrow> ConsensusOutcome" where
  "classify leader_support agreement partial supportive leader_unknown blocking =
     (let o1 = (if agreement \<le> leader_support \<and> supportive then FULL_CONSENSUS
                else if partial \<le> leader_support then PARTIAL_CONSENSUS
                else NO_CONSENSUS);
          o2 = (if leader_unknown then CONDITIONAL_CONSENSUS else o1)
      in blocking_gate_outcome blocking o2)"

definition select_leader :: "ConsensusOutcome \<Rightarrow> uuid \<Rightarrow> uuid option" where
  "select_leader outcome a = (if selectable outcome then Some a else None)"

definition total_positions :: "ConsensusContext \<Rightarrow> nat" where
  "total_positions cx = (if length (cx_agent_positions cx) = 0 then 1
     else length (cx_agent_positions cx))"

definition stance_ratio :: "ConsensusContext \<Rightarrow> string \<Rightarrow> decimal" where
  "stance_ratio cx stance = d_div_len
     (of_nat (length (filter (\<lambda>p. ap_stance p = stance) (cx_agent_positions cx))))
     (total_positions cx)"

fun outcome_value :: "ConsensusOutcome \<Rightarrow> string" where
  "outcome_value FULL_CONSENSUS = ''FULL_CONSENSUS''"
| "outcome_value PARTIAL_CONSENSUS = ''PARTIAL_CONSENSUS''"
| "outcome_value CONDITIONAL_CONSENSUS = ''CONDITIONAL_CONSENSUS''"
| "outcome_value PARETO_SET = ''PARETO_SET''"
| "outcome_value NO_CONSENSUS = ''NO_CONSENSUS''"
| "outcome_value DEADLOCK = ''DEADLOCK''"
| "outcome_value INSUFFICIENT_EVIDENCE = ''INSUFFICIENT_EVIDENCE''"
| "outcome_value INFEASIBLE = ''INFEASIBLE''"

definition classify_derivation ::
  "string \<Rightarrow> int \<Rightarrow> decimal \<Rightarrow> decimal \<Rightarrow> ConsensusOutcome \<Rightarrow> decimal \<Rightarrow> DerivationStep" where
  "classify_derivation stage step agreement partial outcome leader_support =
     derivation stage ''outcome classified from thresholds and blocking critiques'' step
       [(DStr ''agreement_threshold'', DDec agreement), (DStr ''partial_threshold'', DDec partial)]
       [(DStr ''outcome'', DStr (outcome_value outcome)), (DStr ''leader_support'', DDec leader_support)]"

text \<open>What one turn of the loop over the rankable alternatives contributes.\<close>

record alt_eval =
  ae_score :: AlternativeScore
  ae_rank_score :: decimal
  ae_evidence :: decimal
  ae_contributions :: "AgentContribution list"
  ae_dissent :: "DissentEntry list"
  ae_minority :: "MinorityEntry list"

text \<open>Sorting by the recorded rank score and numbering the ranks from 1.\<close>

definition rank_key :: "alt_eval list \<Rightarrow> AlternativeScore \<Rightarrow> decimal" where
  "rank_key evals s = (case dict_of (\<lambda>e. as_alternative_id (ae_score e)) ae_rank_score evals
       (as_alternative_id s) of None \<Rightarrow> 0 | Some x \<Rightarrow> x)"

definition rank_scores :: "alt_eval list \<Rightarrow> AlternativeScore list" where
  "rank_scores evals = map_index 0 (\<lambda>i s. s\<lparr>as_rank := int i + 1\<rparr>)
     (sorted_desc (rank_key evals) (map ae_score evals))"

subsection \<open>WeightedStrategy\<close>

record weighted_params =
  wp_use_confidence :: bool
  wp_abstain_policy :: AbstainPolicy
  wp_agreement_threshold :: decimal
  wp_partial_threshold :: decimal
  wp_alpha :: decimal
  wp_weights :: "(string \<times> decimal) list option"

definition position_weights_param :: "params \<Rightarrow> (string \<times> decimal) list option result" where
  "position_weights_param ps =
     (let raw = get_param ps ''position_weights'' PNone
      in if py_truthy raw then ebind (weights_param raw []) (\<lambda>m. Inr (Some m)) else Inr None)"

definition weighted_read_params :: "params \<Rightarrow> weighted_params result" where
  "weighted_read_params ps =
     ebind (abstain_policy_of (get_param ps ''abstain_policy'' (PStr ''EXCLUDE''))) (\<lambda>abstain_policy.
     ebind (decimal_of_pval (get_param ps ''agreement_threshold'' (PStr ''0.66''))) (\<lambda>agreement.
     ebind (decimal_of_pval (get_param ps ''partial_threshold'' (PStr ''0.5''))) (\<lambda>partial.
     ebind (decimal_of_pval (get_param ps ''alpha'' (PStr ''0.5''))) (\<lambda>alpha.
     ebind (position_weights_param ps) (\<lambda>weights.
     Inr \<lparr>wp_use_confidence = py_truthy (get_param ps ''use_confidence'' (PBool False)),
          wp_abstain_policy = abstain_policy, wp_agreement_threshold = agreement,
          wp_partial_threshold = partial, wp_alpha = alpha, wp_weights = weights\<rparr>)))))"

definition blend :: "decimal \<Rightarrow> decimal \<Rightarrow> decimal option \<Rightarrow> decimal" where
  "blend alpha support value' = (case value' of None \<Rightarrow> support
     | Some v \<Rightarrow> d_add (d_mul alpha support) (d_mul (d_sub 1 alpha) v))"

definition weighted_alternative ::
  "weighted_params \<Rightarrow> ConsensusContext \<Rightarrow> FeasibilityGateResult \<Rightarrow> AlternativeInput
   \<Rightarrow> alt_eval result" where
  "weighted_alternative wp cx gate alt =
     (let a = al_alternative_id alt;
          support = fst (compute_support a (cx_agent_positions cx) (wp_use_confidence wp)
                           (wp_abstain_policy wp) (wp_weights wp))
      in ebind (weighted_objective_value a (cx_objectives cx) (cx_objective_values cx)) (\<lambda>value'.
         let rank_score = blend (wp_alpha wp) support value'
         in Inr \<lparr>ae_score = \<lparr>as_alternative_id = a, as_alternative_name = al_name alt, as_rank = 1,
                   as_support = unit_clamp support, as_value_score = value',
                   as_rank_score = Some rank_score,
                   as_feasibility = (if is_unknown gate a then UNKNOWN else SAT),
                   as_evidence_strength = None\<rparr>,
                 ae_rank_score = rank_score, ae_evidence = 0,
                 ae_contributions = contributions (for_alternative a (cx_agent_positions cx))
                   (wp_use_confidence wp),
                 ae_dissent = build_dissent a (cx_agent_positions cx),
                 ae_minority = build_minority a (cx_agent_positions cx) (cx_critiques cx)\<rparr>))"

definition weighted_name :: string where "weighted_name = ''weighted''"
definition weighted_version :: string where "weighted_version = ''1.0.0''"

definition weighted_ranking_derivation ::
  "decimal \<Rightarrow> AlternativeScore list \<Rightarrow> DerivationStep" where
  "weighted_ranking_derivation alpha scores =
     derivation ''ranking'' ''support and rank_score computed per feasible alternative'' 2
       [(DStr ''alpha'', DDec alpha)]
       (map (\<lambda>s. (DUuid (as_alternative_id s),
          DMap [(DStr ''support'', DDec (as_support s)),
                (DStr ''rank_score'', case as_rank_score s of None \<Rightarrow> DNone | Some x \<Rightarrow> DDec x)]))
        scores)"

text \<open>The final stage: the leader is classified and the result assembled.\<close>

definition finish_result ::
  "ConsensusResult \<Rightarrow> ConsensusContext \<Rightarrow> FeasibilityGateResult \<Rightarrow> decimal \<Rightarrow> decimal \<Rightarrow> string \<Rightarrow> int
   \<Rightarrow> AlternativeScore list \<Rightarrow> AlternativeScore \<Rightarrow> alt_eval list \<Rightarrow> ConsensusResult" where
  "finish_result base cx gate agreement partial stage step scores leader evals =
     (let blocking = blocking_critiques (cx_critiques cx);
          a = as_alternative_id leader;
          outcome = classify (as_support leader) agreement partial (all_active_supportive cx a)
                      (is_unknown gate a) blocking
      in base\<lparr>rs_outcome := outcome, rs_scores := scores,
              rs_selected_alternative_id := select_leader outcome a,
              rs_support := Some (as_support leader),
              rs_dissent_ratio := Some (stance_ratio cx ''OPPOSE''),
              rs_abstention_ratio := Some (stance_ratio cx ''ABSTAIN''),
              rs_blocking_critiques := blocking,
              rs_contributions := concat (map ae_contributions evals),
              rs_dissent := concat (map ae_dissent evals),
              rs_minority_report := concat (map ae_minority evals),
              rs_derivation := rs_derivation base @
                [classify_derivation stage step agreement partial outcome (as_support leader)]\<rparr>)"

definition weighted_evaluate :: "string \<Rightarrow> uuid \<Rightarrow> ConsensusContext \<Rightarrow> ConsensusResult result" where
  "weighted_evaluate hash fresh cx =
     ebind (weighted_read_params (sc_parameters (cx_strategy_config cx))) (\<lambda>wp.
     ebind (feasibility_gate (cx_alternatives cx) (cx_feasibility cx)) (\<lambda>gate.
     let der = [gate_derivation ''feasibility''
                  ''shared feasibility gate applied before ranking (C-1)'' cx gate];
         base = base_result weighted_name weighted_version fresh hash cx NO_CONSENSUS
     in if gt_all_infeasible gate
        then mk_result (infeasible_result weighted_name weighted_version fresh hash cx gate der)
        else ebind (emap (weighted_alternative wp cx gate) (gt_rankable gate)) (\<lambda>evals.
          let scores = rank_scores evals;
              der' = der @ [weighted_ranking_derivation (wp_alpha wp) scores]
          in case scores of
               [] \<Rightarrow> mk_result (base der')
             | leader # _ \<Rightarrow> mk_result (finish_result (base der') cx gate (wp_agreement_threshold wp)
                 (wp_partial_threshold wp) ''classify'' 3 scores leader evals))))"

definition weighted_explain :: "ConsensusResult \<Rightarrow> ConsensusExplanation" where
  "weighted_explain r = empty_explanation r
     (''score(a,i)=s(p(a,i)) * (use_confidence?c(a,i):1); '' @
      ''support(a)=sum(score)/|N_a|; '' @
      ''rank_score(a)=alpha*support(a)+(1-alpha)*value(a)'')
     [(''position_weights'', position_weights_default)] [] []"

subsection \<open>EvidenceWeightedStrategy\<close>

record evidence_params =
  ep_use_confidence :: bool
  ep_abstain_policy :: AbstainPolicy
  ep_agreement_threshold :: decimal
  ep_partial_threshold :: decimal
  ep_alpha :: decimal
  ep_beta :: decimal
  ep_lam :: decimal
  ep_independence_cap :: int
  ep_verification_weights :: "(string \<times> decimal) list"
  ep_trust_multiplier :: "(string \<times> decimal) list"
  ep_pos_weights :: "(string \<times> decimal) list option"

definition evidence_read_params :: "params \<Rightarrow> evidence_params result" where
  "evidence_read_params ps =
     ebind (abstain_policy_of (get_param ps ''abstain_policy'' (PStr ''EXCLUDE''))) (\<lambda>abstain_policy.
     ebind (decimal_of_pval (get_param ps ''agreement_threshold'' (PStr ''0.66''))) (\<lambda>agreement.
     ebind (decimal_of_pval (get_param ps ''partial_threshold'' (PStr ''0.5''))) (\<lambda>partial.
     ebind (decimal_of_pval (get_param ps ''alpha'' (PStr ''0.5''))) (\<lambda>alpha.
     ebind (decimal_of_pval (get_param ps ''evidence_weight'' (PStr ''0.4''))) (\<lambda>beta.
     ebind (decimal_of_pval (get_param ps ''lambda'' (PStr ''0.5''))) (\<lambda>lam.
     ebind (int_of_pval (get_param ps ''independence_cap'' (PInt 2))) (\<lambda>cap.
     ebind (weights_param (get_param ps ''verification_weights'' PNone) verification_weights_default) (\<lambda>vw.
     ebind (weights_param (get_param ps ''trust_multiplier'' PNone) trust_multiplier_default) (\<lambda>tm.
     ebind (position_weights_param ps) (\<lambda>weights.
     Inr \<lparr>ep_use_confidence = py_truthy (get_param ps ''use_confidence'' (PBool False)),
          ep_abstain_policy = abstain_policy, ep_agreement_threshold = agreement,
          ep_partial_threshold = partial, ep_alpha = alpha, ep_beta = beta, ep_lam = lam,
          ep_independence_cap = cap, ep_verification_weights = vw, ep_trust_multiplier = tm,
          ep_pos_weights = weights\<rparr>))))))))))"

definition evidence_alternative ::
  "evidence_params \<Rightarrow> ConsensusContext \<Rightarrow> FeasibilityGateResult \<Rightarrow> AlternativeInput
   \<Rightarrow> alt_eval result" where
  "evidence_alternative ep cx gate alt =
     (let a = al_alternative_id alt;
          relevant = relevant_positions a (cx_agent_positions cx) (ep_abstain_policy ep)
      in ebind (support_ev relevant (cx_evidence cx) (ep_verification_weights ep)
                 (ep_trust_multiplier ep) (ep_independence_cap ep) (ep_use_confidence ep)
                 (ep_pos_weights ep) (ep_lam ep)) (\<lambda>(e_alt, sup_ev).
         let support_weighted = fst (compute_support a (cx_agent_positions cx) (ep_use_confidence ep)
               (ep_abstain_policy ep) (ep_pos_weights ep));
             support = d_add (d_mul (d_sub 1 (ep_beta ep)) support_weighted) (d_mul (ep_beta ep) sup_ev)
         in ebind (weighted_objective_value a (cx_objectives cx) (cx_objective_values cx)) (\<lambda>value'.
            let rank_score = blend (ep_alpha ep) support value'
            in Inr \<lparr>ae_score = \<lparr>as_alternative_id = a, as_alternative_name = al_name alt, as_rank = 1,
                      as_support = unit_clamp support, as_value_score = value',
                      as_rank_score = Some rank_score,
                      as_feasibility = (if is_unknown gate a then UNKNOWN else SAT),
                      as_evidence_strength = Some e_alt\<rparr>,
                    ae_rank_score = rank_score, ae_evidence = e_alt,
                    ae_contributions = contributions relevant (ep_use_confidence ep),
                    ae_dissent = build_dissent a (cx_agent_positions cx),
                    ae_minority = build_minority a (cx_agent_positions cx) (cx_critiques cx)\<rparr>)))"

definition evidence_name :: string where "evidence_name = ''evidence_weighted''"
definition evidence_version :: string where "evidence_version = ''1.0.0''"

definition evidence_total :: "alt_eval list \<Rightarrow> uuid \<Rightarrow> decimal" where
  "evidence_total evals a =
     (case dict_of (\<lambda>e. as_alternative_id (ae_score e)) ae_evidence evals a of
        None \<Rightarrow> 0 | Some x \<Rightarrow> x)"

definition evidence_ranking_derivation ::
  "evidence_params \<Rightarrow> AlternativeScore list \<Rightarrow> DerivationStep" where
  "evidence_ranking_derivation ep scores =
     derivation ''ranking'' ''support blended with evidence-weighted support_ev per alternative'' 2
       [(DStr ''alpha'', DDec (ep_alpha ep)), (DStr ''beta'', DDec (ep_beta ep)),
        (DStr ''lambda'', DDec (ep_lam ep))]
       (map (\<lambda>s. (DUuid (as_alternative_id s),
          DMap [(DStr ''support'', DDec (as_support s)),
                (DStr ''evidence_strength'',
                  case as_evidence_strength s of None \<Rightarrow> DNone | Some x \<Rightarrow> DDec x),
                (DStr ''rank_score'', case as_rank_score s of None \<Rightarrow> DNone | Some x \<Rightarrow> DDec x)]))
        scores)"

definition insufficient_result ::
  "ConsensusResult \<Rightarrow> ConsensusContext \<Rightarrow> AlternativeScore list \<Rightarrow> alt_eval list \<Rightarrow> DerivationStep list
   \<Rightarrow> ConsensusResult" where
  "insufficient_result base cx scores evals extra =
     base\<lparr>rs_outcome := INSUFFICIENT_EVIDENCE, rs_scores := scores,
          rs_blocking_critiques := blocking_critiques (cx_critiques cx),
          rs_contributions := concat (map ae_contributions evals),
          rs_dissent := concat (map ae_dissent evals),
          rs_minority_report := concat (map ae_minority evals),
          rs_derivation := rs_derivation base @ extra\<rparr>"

definition evidence_evaluate :: "string \<Rightarrow> uuid \<Rightarrow> ConsensusContext \<Rightarrow> ConsensusResult result" where
  "evidence_evaluate hash fresh cx =
     ebind (evidence_read_params (sc_parameters (cx_strategy_config cx))) (\<lambda>ep.
     ebind (feasibility_gate (cx_alternatives cx) (cx_feasibility cx)) (\<lambda>gate.
     let der = [gate_derivation ''feasibility''
                  ''shared feasibility gate applied before ranking (C-1)'' cx gate];
         base = base_result evidence_name evidence_version fresh hash cx NO_CONSENSUS
     in if gt_all_infeasible gate
        then mk_result (infeasible_result evidence_name evidence_version fresh hash cx gate der)
        else ebind (emap (evidence_alternative ep cx gate) (gt_rankable gate)) (\<lambda>evals.
          let scores = rank_scores evals;
              der' = der @ [evidence_ranking_derivation ep scores]
          in case scores of
               [] \<Rightarrow> mk_result (base der')
             | leader # _ \<Rightarrow>
                 if evidence_total evals (as_alternative_id leader) = 0
                 then mk_result (insufficient_result (base der') cx scores evals
                   [derivation ''evidence_gate''
                      ''leading alternative has no verified backing (evidence_weighted.md)'' 3
                      [(DStr ''alternative_id'', DUuid (as_alternative_id leader))]
                      [(DStr ''outcome'', DStr ''INSUFFICIENT_EVIDENCE'')]])
                 else mk_result (finish_result (base der') cx gate (ep_agreement_threshold ep)
                   (ep_partial_threshold ep) ''classify'' 3 scores leader evals))))"

definition evidence_explain :: "ConsensusResult \<Rightarrow> ConsensusExplanation" where
  "evidence_explain r = empty_explanation r
     (''w(e)=verif_w[verif(e)]*trust_m[trust(e)]; '' @
      ''evid(i,a)=clamp((E-D)/(E+D+1),-1,1); '' @
      ''support_ev(a)=sum(s(p)*(1+lambda*max(0,evid)))/|N_a|; '' @
      ''support(a)=(1-beta)*support_weighted(a)+beta*support_ev(a)'')
     [(''verification_weights'', verification_weights_default),
      (''trust_multiplier'', trust_multiplier_default)] [] []"

subsection \<open>ConstraintAwareStrategy\<close>

record constraint_params =
  cp_use_confidence :: bool
  cp_abstain_policy :: AbstainPolicy
  cp_agreement_threshold :: decimal
  cp_partial_threshold :: decimal
  cp_beta :: decimal
  cp_lam :: decimal
  cp_independence_cap :: int
  cp_epsilon :: decimal
  cp_min_flip_distance :: decimal
  cp_allow_unevidenced :: bool
  cp_verification_weights :: "(string \<times> decimal) list"
  cp_trust_multiplier :: "(string \<times> decimal) list"
  cp_pos_weights :: "(string \<times> decimal) list option"

definition constraint_read_params :: "params \<Rightarrow> constraint_params result" where
  "constraint_read_params ps =
     ebind (abstain_policy_of (get_param ps ''abstain_policy'' (PStr ''EXCLUDE''))) (\<lambda>abstain_policy.
     ebind (decimal_of_pval (get_param ps ''agreement_threshold'' (PStr ''0.66''))) (\<lambda>agreement.
     ebind (decimal_of_pval (get_param ps ''partial_threshold'' (PStr ''0.5''))) (\<lambda>partial.
     ebind (decimal_of_pval (get_param ps ''evidence_weight'' (PStr ''0.4''))) (\<lambda>beta.
     ebind (decimal_of_pval (get_param ps ''lambda'' (PStr ''0.5''))) (\<lambda>lam.
     ebind (int_of_pval (get_param ps ''independence_cap'' (PInt 2))) (\<lambda>cap.
     ebind (decimal_of_pval (get_param ps ''epsilon'' (PStr ''0.01''))) (\<lambda>epsilon.
     ebind (decimal_of_pval (get_param ps ''min_flip_distance'' (PStr ''0.05''))) (\<lambda>min_flip.
     ebind (weights_param (get_param ps ''verification_weights'' PNone) verification_weights_default) (\<lambda>vw.
     ebind (weights_param (get_param ps ''trust_multiplier'' PNone) trust_multiplier_default) (\<lambda>tm.
     ebind (position_weights_param ps) (\<lambda>weights.
     Inr \<lparr>cp_use_confidence = py_truthy (get_param ps ''use_confidence'' (PBool False)),
          cp_abstain_policy = abstain_policy, cp_agreement_threshold = agreement,
          cp_partial_threshold = partial, cp_beta = beta, cp_lam = lam, cp_independence_cap = cap,
          cp_epsilon = epsilon, cp_min_flip_distance = min_flip,
          cp_allow_unevidenced = py_truthy (get_param ps ''allow_unevidenced'' (PBool False)),
          cp_verification_weights = vw, cp_trust_multiplier = tm, cp_pos_weights = weights\<rparr>)))))))))))"

definition constraint_name :: string where "constraint_name = ''constraint_aware''"
definition constraint_version :: string where "constraint_version = ''1.0.0''"

text \<open>
  The precomputation per alternative. The score record here only carries what the later stages
  look up by alternative: the blended support is \<open>ae_rank_score\<close>.
\<close>

definition constraint_alternative ::
  "constraint_params \<Rightarrow> ConsensusContext \<Rightarrow> FeasibilityGateResult \<Rightarrow> AlternativeInput
   \<Rightarrow> alt_eval result" where
  "constraint_alternative cp cx gate alt =
     (let a = al_alternative_id alt;
          relevant = relevant_positions a (cx_agent_positions cx) (cp_abstain_policy cp)
      in ebind (support_ev relevant (cx_evidence cx) (cp_verification_weights cp)
                 (cp_trust_multiplier cp) (cp_independence_cap cp) (cp_use_confidence cp)
                 (cp_pos_weights cp) (cp_lam cp)) (\<lambda>(e_alt, sup_ev).
         let support_weighted = fst (compute_support a (cx_agent_positions cx) (cp_use_confidence cp)
               (cp_abstain_policy cp) (cp_pos_weights cp));
             support = d_add (d_mul (d_sub 1 (cp_beta cp)) support_weighted) (d_mul (cp_beta cp) sup_ev)
         in Inr \<lparr>ae_score = \<lparr>as_alternative_id = a, as_alternative_name = al_name alt, as_rank = 1,
                   as_support = unit_clamp support, as_value_score = None, as_rank_score = Some support,
                   as_feasibility = (if is_unknown gate a then UNKNOWN else SAT),
                   as_evidence_strength = Some e_alt\<rparr>,
                 ae_rank_score = support, ae_evidence = e_alt,
                 ae_contributions = contributions relevant (cp_use_confidence cp),
                 ae_dissent = build_dissent a (cx_agent_positions cx),
                 ae_minority = build_minority a (cx_agent_positions cx) (cx_critiques cx)\<rparr>))"

text \<open>Looking an alternative up in the precomputed dictionaries.\<close>

definition eval_of :: "alt_eval list \<Rightarrow> uuid \<rightharpoonup> alt_eval" where
  "eval_of evals = dict_of (\<lambda>e. as_alternative_id (ae_score e)) (\<lambda>e. e) evals"

definition support_of :: "alt_eval list \<Rightarrow> uuid \<Rightarrow> decimal" where
  "support_of evals a = (case eval_of evals a of None \<Rightarrow> 0 | Some e \<Rightarrow> ae_rank_score e)"

definition name_of :: "FeasibilityGateResult \<Rightarrow> uuid \<Rightarrow> string result" where
  "name_of gate a = (case dict_of al_alternative_id al_name (gt_rankable gate) a of
     None \<Rightarrow> Inl KeyError | Some n \<Rightarrow> Inr n)"

text \<open>Stage 2.\<close>

definition evidence_floor :: "constraint_params \<Rightarrow> FeasibilityGateResult \<Rightarrow> alt_eval list \<Rightarrow> uuid list" where
  "evidence_floor cp gate evals =
     (let stage1 = map al_alternative_id (gt_rankable gate)
      in if cp_allow_unevidenced cp then stage1
         else filter (\<lambda>a. 0 < evidence_total evals a) stage1)"

text \<open>Stage 3: the objective values of the remaining alternatives, then the undominated set.\<close>

definition values_table ::
  "ConsensusContext \<Rightarrow> uuid list \<Rightarrow> (uuid \<times> (uuid \<rightharpoonup> decimal)) list result" where
  "values_table cx ids =
     emap (\<lambda>a. ebind (objective_value_lookup a (cx_objectives cx) (cx_objective_values cx)) (\<lambda>m.
       Inr (a, m))) ids"

definition values_of :: "(uuid \<times> (uuid \<rightharpoonup> decimal)) list \<Rightarrow> uuid \<Rightarrow> (uuid \<rightharpoonup> decimal)" where
  "values_of tab a = dget tab a Map.empty"

text \<open>Stage 4: the first best alternative per objective over the undominated set.\<close>

fun best_loop ::
  "(uuid \<Rightarrow> decimal option) \<Rightarrow> uuid list \<Rightarrow> (uuid \<times> decimal) option \<Rightarrow> (uuid \<times> decimal) option" where
  "best_loop val [] best = best"
| "best_loop val (a # as) best =
     (case val a of None \<Rightarrow> best_loop val as best
      | Some v \<Rightarrow> (case best of
          None \<Rightarrow> best_loop val as (Some (a, v))
        | Some (b, w) \<Rightarrow> if w < v then best_loop val as (Some (a, v)) else best_loop val as best))"

definition argmaxes ::
  "ObjectiveInput list \<Rightarrow> (uuid \<times> (uuid \<rightharpoonup> decimal)) list \<Rightarrow> uuid list \<Rightarrow> uuid set" where
  "argmaxes objectives tab pareto =
     set (List.map_filter (\<lambda>obj. map_option fst
       (best_loop (\<lambda>a. values_of tab a (ob_objective_id obj)) pareto None)) objectives)"

definition declared_conflicting :: "ObjectiveInput list \<Rightarrow> bool" where
  "declared_conflicting objectives = list_ex (\<lambda>b. ob_conflicts_with b \<noteq> []) objectives"

text \<open>Stages 4 and 5: the score rows of the frontier and of the ranked set.\<close>

definition constraint_score ::
  "FeasibilityGateResult \<Rightarrow> alt_eval list \<Rightarrow> decimal option \<Rightarrow> FeasibilityStatus \<Rightarrow> nat \<Rightarrow> uuid
   \<Rightarrow> AlternativeScore result" where
  "constraint_score gate evals rank_score status i a =
     ebind (name_of gate a) (\<lambda>n.
       Inr \<lparr>as_alternative_id = a, as_alternative_name = n, as_rank = int i + 1,
            as_support = unit_clamp (support_of evals a), as_value_score = None,
            as_rank_score = rank_score, as_feasibility = status,
            as_evidence_strength = map_option ae_evidence (eval_of evals a)\<rparr>)"

definition frontier_scores ::
  "FeasibilityGateResult \<Rightarrow> alt_eval list \<Rightarrow> uuid list \<Rightarrow> AlternativeScore list result" where
  "frontier_scores gate evals pareto =
     emap (\<lambda>(i, a). constraint_score gate evals None SAT i a) (map_index 0 Pair pareto)"

definition ordered_scores ::
  "FeasibilityGateResult \<Rightarrow> alt_eval list \<Rightarrow> uuid list \<Rightarrow> AlternativeScore list result" where
  "ordered_scores gate evals pareto =
     emap (\<lambda>(i, a). constraint_score gate evals (map_option ae_rank_score (eval_of evals a))
              (if is_unknown gate a then UNKNOWN else SAT) i a)
          (map_index 0 Pair (sorted_desc (support_of evals) pareto))"

text \<open>Stage 6.\<close>

definition threshold_bound :: "constraint_params \<Rightarrow> AlternativeScore list \<Rightarrow> bool" where
  "threshold_bound cp scores = (case scores of
     s0 # s1 # _ \<Rightarrow> d_abs (d_sub (as_support s0) (as_support s1)) < cp_min_flip_distance cp
   | _ \<Rightarrow> False)"

definition stage2_derivation :: "constraint_params \<Rightarrow> uuid list \<Rightarrow> DerivationStep" where
  "stage2_derivation cp ids = derivation ''stage2_evidence_floor''
     ''alternatives with zero verified evidence excluded'' 2
     [(DStr ''allow_unevidenced'', DBool (cp_allow_unevidenced cp))]
     [(DStr ''remaining'', DInt (int (length ids)))]"

definition stage3_derivation :: "ConsensusContext \<Rightarrow> uuid list \<Rightarrow> DerivationStep" where
  "stage3_derivation cx pareto = derivation ''stage3_dominance''
     ''undominated set computed over declared objectives'' 3
     [(DStr ''objective_count'', DInt (int (length (cx_objectives cx))))]
     [(DStr ''undominated'', DList (map DUuid pareto))]"

definition stage4_derivation :: "uuid set \<Rightarrow> uuid list \<Rightarrow> DerivationStep" where
  "stage4_derivation best pareto = derivation ''stage4_conflict_test''
     ''objectives declared conflicting; frontier returned'' 4
     [(DStr ''argmax_count'', DInt (int (card best)))]
     [(DStr ''frontier'', DList (map DUuid pareto))]"

definition stage5_derivation :: "AlternativeScore list \<Rightarrow> DerivationStep" where
  "stage5_derivation scores = derivation ''stage5_support_order''
     ''undominated set ranked by support_ev(a)'' 5 []
     (map (\<lambda>s. (DUuid (as_alternative_id s), DDec (as_support s))) scores)"

definition stage6_derivation :: "constraint_params \<Rightarrow> bool \<Rightarrow> DerivationStep" where
  "stage6_derivation cp bound = derivation ''stage6_robustness''
     ''flip distance compared against min_flip_distance'' 6
     [(DStr ''min_flip_distance'', DDec (cp_min_flip_distance cp))]
     [(DStr ''threshold_bound'', DBool bound)]"

definition pareto_result ::
  "ConsensusResult \<Rightarrow> ConsensusContext \<Rightarrow> AlternativeScore list \<Rightarrow> uuid list \<Rightarrow> alt_eval list
   \<Rightarrow> ConsensusResult" where
  "pareto_result base cx scores pareto evals =
     (let blocking = blocking_critiques (cx_critiques cx)
      in base\<lparr>rs_outcome := blocking_gate_outcome blocking PARETO_SET, rs_scores := scores,
              rs_pareto_set := pareto, rs_blocking_critiques := blocking,
              rs_contributions := concat (map ae_contributions evals),
              rs_dissent := concat (map ae_dissent evals),
              rs_minority_report := concat (map ae_minority evals)\<rparr>)"

text \<open>Stages 5 to 7; taking the leader of an empty ranking raises \<^verbatim>\<open>IndexError\<close>.\<close>

definition constraint_finish ::
  "ConsensusResult \<Rightarrow> constraint_params \<Rightarrow> ConsensusContext \<Rightarrow> FeasibilityGateResult \<Rightarrow> alt_eval list
   \<Rightarrow> uuid list \<Rightarrow> ConsensusResult result" where
  "constraint_finish base cp cx gate evals pareto =
     ebind (ordered_scores gate evals pareto) (\<lambda>scores.
       let bound = threshold_bound cp scores;
           base' = base\<lparr>rs_derivation := rs_derivation base @
                          [stage5_derivation scores, stage6_derivation cp bound]\<rparr>
       in case scores of
            [] \<Rightarrow> Inl IndexError
          | leader # _ \<Rightarrow> mk_result
              ((finish_result base' cx gate (cp_agreement_threshold cp) (cp_partial_threshold cp)
                  ''stage7_classify'' 7 scores leader evals)
               \<lparr>rs_conditions := if bound
                 then [''ranking is threshold-bound: flip distance below min_flip_distance'']
                 else []\<rparr>))"

text \<open>Stages 3 and 4.\<close>

definition constraint_frontier ::
  "(DerivationStep list \<Rightarrow> ConsensusResult) \<Rightarrow> DerivationStep list \<Rightarrow> constraint_params
   \<Rightarrow> ConsensusContext \<Rightarrow> FeasibilityGateResult \<Rightarrow> alt_eval list \<Rightarrow> uuid list
   \<Rightarrow> ConsensusResult result" where
  "constraint_frontier base der cp cx gate evals ids =
     ebind (values_table cx ids) (\<lambda>tab.
       let pareto = undominated ids (values_of tab) (map ob_objective_id (cx_objectives cx))
                      (cp_epsilon cp);
           der' = der @ [stage3_derivation cx pareto];
           best = argmaxes (cx_objectives cx) tab pareto
       in if declared_conflicting (cx_objectives cx) \<and> 2 \<le> card best \<and> 1 < length pareto
          then ebind (frontier_scores gate evals pareto) (\<lambda>scores.
            mk_result (pareto_result (base (der' @ [stage4_derivation best pareto])) cx scores pareto
              evals))
          else constraint_finish (base der') cp cx gate evals pareto)"

definition constraint_evaluate :: "string \<Rightarrow> uuid \<Rightarrow> ConsensusContext \<Rightarrow> ConsensusResult result" where
  "constraint_evaluate hash fresh cx =
     ebind (constraint_read_params (sc_parameters (cx_strategy_config cx))) (\<lambda>cp.
     ebind (feasibility_gate (cx_alternatives cx) (cx_feasibility cx)) (\<lambda>gate.
     let der = [gate_derivation ''stage1_feasibility''
                  ''UNSAT removed, unsat cores recorded; all UNSAT -> INFEASIBLE'' cx gate];
         base = base_result constraint_name constraint_version fresh hash cx NO_CONSENSUS
     in if gt_all_infeasible gate
        then mk_result (infeasible_result constraint_name constraint_version fresh hash cx gate der)
        else ebind (emap (constraint_alternative cp cx gate) (gt_rankable gate)) (\<lambda>evals.
          let ids = evidence_floor cp gate evals;
              der' = der @ [stage2_derivation cp ids]
          in if ids = [] then mk_result (insufficient_result (base der') cx [] evals [])
             else constraint_frontier base der' cp cx gate evals ids)))"

definition constraint_explain :: "ConsensusResult \<Rightarrow> ConsensusExplanation" where
  "constraint_explain r = empty_explanation r
     (''Stage1 feasibility; Stage2 evidence floor; '' @
      ''Stage3 dominance a<b iff (all k: v_k(b)>=v_k(a)) and '' @
      ''(exists k: v_k(b)>v_k(a)+eps); Stage4 conflict test -> '' @
      ''PARETO_SET; Stage5 rank by support_ev; Stage6 flip distance; '' @
      ''Stage7 classify as evidence_weighted'') [] [] []"

end
