(* ===== verification/Consensus_Laws.thy ===== *)
theory Consensus_Laws
  imports Consensus_Strategies
begin

text \<open>
  The laws every consensus strategy obeys. The three strategies of
  \<^verbatim>\<open>app/application/consensus.py\<close> are gathered into one family (\<open>evaluate\<close>, \<open>explain\<close>, the
  name and version attributes), an evaluation that returns is decomposed by an elimination rule per
  strategy (one case per way it can end), and the outcome, report and identity laws are proved for
  each case.
\<close>

subsection \<open>The three strategies as one family\<close>

datatype strategy = Weighted | EvidenceWeighted | ConstraintAware

fun strategy_name :: "strategy \<Rightarrow> string" where
  "strategy_name Weighted = weighted_name"
| "strategy_name EvidenceWeighted = evidence_name"
| "strategy_name ConstraintAware = constraint_name"

fun strategy_version :: "strategy \<Rightarrow> string" where
  "strategy_version Weighted = weighted_version"
| "strategy_version EvidenceWeighted = evidence_version"
| "strategy_version ConstraintAware = constraint_version"

fun evaluate :: "strategy \<Rightarrow> string \<Rightarrow> uuid \<Rightarrow> ConsensusContext \<Rightarrow> ConsensusResult result" where
  "evaluate Weighted = weighted_evaluate"
| "evaluate EvidenceWeighted = evidence_evaluate"
| "evaluate ConstraintAware = constraint_evaluate"

fun explain :: "strategy \<Rightarrow> ConsensusResult \<Rightarrow> ConsensusExplanation" where
  "explain Weighted = weighted_explain"
| "explain EvidenceWeighted = evidence_explain"
| "explain ConstraintAware = constraint_explain"

subsection \<open>What every strategy promises\<close>

definition feasible :: "ConsensusContext \<Rightarrow> uuid \<Rightarrow> bool" where
  "feasible cx a = (a \<in> al_alternative_id ` set (cx_alternatives cx) \<and>
     alt_status (cx_feasibility cx) a \<noteq> Some UNSAT)"

definition feasible_alternatives :: "ConsensusContext \<Rightarrow> AlternativeInput list" where
  "feasible_alternatives cx =
     filter (\<lambda>a. alt_status (cx_feasibility cx) (al_alternative_id a) \<noteq> Some UNSAT)
       (cx_alternatives cx)"

definition full_dissent :: "ConsensusContext \<Rightarrow> DissentEntry list" where
  "full_dissent cx = concat (map (\<lambda>a. build_dissent (al_alternative_id a) (cx_agent_positions cx))
     (feasible_alternatives cx))"

definition full_minority :: "ConsensusContext \<Rightarrow> MinorityEntry list" where
  "full_minority cx = concat (map (\<lambda>a. build_minority (al_alternative_id a) (cx_agent_positions cx)
     (cx_critiques cx)) (feasible_alternatives cx))"

definition unknown_alt :: "ConsensusContext \<Rightarrow> uuid \<Rightarrow> bool" where
  "unknown_alt cx a = (alt_status (cx_feasibility cx) a = Some UNKNOWN)"

definition outcome_lawful :: "ConsensusContext \<Rightarrow> ConsensusResult \<Rightarrow> bool" where
  "outcome_lawful cx r =
     ((rs_outcome r = INFEASIBLE \<longleftrightarrow> feasible_alternatives cx = []) \<and>
      (\<forall>a. rs_selected_alternative_id r = Some a \<longrightarrow> feasible cx a \<and>
         (if unknown_alt cx a then rs_outcome r = CONDITIONAL_CONSENSUS
          else rs_outcome r \<in> {FULL_CONSENSUS, PARTIAL_CONSENSUS})) \<and>
      (rs_outcome r = FULL_CONSENSUS \<longrightarrow> blocking_critiques (cx_critiques cx) = [] \<and>
         (\<exists>a. rs_selected_alternative_id r = Some a \<and> all_active_supportive cx a)))"

definition report_lawful :: "ConsensusContext \<Rightarrow> ConsensusResult \<Rightarrow> bool" where
  "report_lawful cx r =
     ((\<forall>s \<in> set (rs_scores r). feasible cx (as_alternative_id s)) \<and>
      (\<forall>a \<in> set (rs_pareto_set r). feasible cx a) \<and>
      (rs_outcome r \<noteq> INFEASIBLE \<longrightarrow> rs_dissent r = full_dissent cx \<and>
         rs_minority_report r = full_minority cx \<and>
         rs_blocking_critiques r = blocking_critiques (cx_critiques cx)))"

definition identity_lawful ::
  "string \<Rightarrow> string \<Rightarrow> string \<Rightarrow> uuid \<Rightarrow> ConsensusContext \<Rightarrow> ConsensusResult \<Rightarrow> bool" where
  "identity_lawful name version hash fresh cx r =
     (rs_result_id r = fresh \<and> rs_session_id r = cx_session_id cx \<and> rs_round r = cx_round cx \<and>
      rs_strategy r = name \<and> rs_strategy_version r = version \<and> rs_input_hash r = hash \<and>
      rs_degenerate_input r = degenerate cx)"

definition from_positions :: "ConsensusContext \<Rightarrow> AgentContribution list \<Rightarrow> bool" where
  "from_positions cx cs =
     (\<exists>ps uc. set ps \<subseteq> set (cx_agent_positions cx) \<and> cs = contributions ps uc)"

abbreviation the_gate :: "ConsensusContext \<Rightarrow> FeasibilityGateResult" where
  "the_gate cx \<equiv> gate_spec (cx_alternatives cx) (cx_feasibility cx)"

text \<open>What the loop body leaves behind for an alternative, the same in the three strategies.\<close>

definition eval_ok :: "ConsensusContext \<Rightarrow> AlternativeInput \<Rightarrow> alt_eval \<Rightarrow> bool" where
  "eval_ok cx alt e =
     (as_alternative_id (ae_score e) = al_alternative_id alt \<and>
      as_alternative_name (ae_score e) = al_name alt \<and>
      0 \<le> as_support (ae_score e) \<and> as_support (ae_score e) \<le> 1 \<and>
      as_rank_score (ae_score e) = Some (ae_rank_score e) \<and>
      ae_dissent e = build_dissent (al_alternative_id alt) (cx_agent_positions cx) \<and>
      ae_minority e = build_minority (al_alternative_id alt) (cx_agent_positions cx) (cx_critiques cx) \<and>
      from_positions cx (ae_contributions e))"

definition rank_value :: "AlternativeScore \<Rightarrow> decimal" where
  "rank_value s = (case as_rank_score s of None \<Rightarrow> 0 | Some x \<Rightarrow> x)"

definition ranking_lawful :: "ConsensusResult \<Rightarrow> bool" where
  "ranking_lawful r =
     (distinct (map as_alternative_id (rs_scores r)) \<and>
      map as_rank (rs_scores r) = map int [1..<Suc (length (rs_scores r))] \<and>
      (rs_pareto_set r = [] \<longrightarrow> sorted_wrt (\<lambda>s t. rank_value t \<le> rank_value s) (rs_scores r)) \<and>
      (\<forall>a. rs_selected_alternative_id r = Some a \<longrightarrow> rs_scores r \<noteq> [] \<and>
         as_alternative_id (hd (rs_scores r)) = a \<and> rs_support r = Some (as_support (hd (rs_scores r)))))"

definition value_parses :: "bool \<Rightarrow> ConsensusContext \<Rightarrow> ObjectiveInput \<Rightarrow> AlternativeInput \<Rightarrow> bool" where
  "value_parses exact cx obj alt =
     (case objective_raw (cx_objective_values cx) (ob_objective_id obj) (al_alternative_id alt) of
        None \<Rightarrow> True
      | Some raw \<Rightarrow> (case decimal_of_string raw of Inl _ \<Rightarrow> False
          | Inr v \<Rightarrow> exact \<longrightarrow> dec_round v = v))"

definition values_parse :: "bool \<Rightarrow> ConsensusContext \<Rightarrow> bool" where
  "values_parse exact cx =
     list_all (\<lambda>obj. list_all (value_parses exact cx obj) (cx_alternatives cx)) (cx_objectives cx)"

definition params_ok :: "strategy \<Rightarrow> params \<Rightarrow> bool" where
  "params_ok s ps = (case s of
     Weighted \<Rightarrow> (case weighted_read_params ps of Inl _ \<Rightarrow> False | Inr _ \<Rightarrow> True)
   | EvidenceWeighted \<Rightarrow> (case evidence_read_params ps of Inl _ \<Rightarrow> False
       | Inr ep \<Rightarrow> nonneg_weights (ep_verification_weights ep) \<and> nonneg_weights (ep_trust_multiplier ep))
   | ConstraintAware \<Rightarrow> (case constraint_read_params ps of Inl _ \<Rightarrow> False
       | Inr cp \<Rightarrow> nonneg_weights (cp_verification_weights cp) \<and> nonneg_weights (cp_trust_multiplier cp) \<and>
           0 \<le> cp_epsilon cp))"

definition evaluable :: "strategy \<Rightarrow> ConsensusContext \<Rightarrow> bool" where
  "evaluable s cx = (ConsensusContext_valid cx \<and> params_ok s (sc_parameters (cx_strategy_config cx)) \<and>
     values_parse (s = ConstraintAware) cx)"

definition steps_valid :: "DerivationStep list \<Rightarrow> bool" where
  "steps_valid ds = list_all (\<lambda>d. 1 \<le> ds_step d \<and> ds_stage d \<noteq> [] \<and> ds_description d \<noteq> []) ds"

definition labels_valid :: "string \<Rightarrow> string \<Rightarrow> string \<Rightarrow> ConsensusContext \<Rightarrow> DerivationStep list \<Rightarrow> bool" where
  "labels_valid n v h cx der = (n \<noteq> [] \<and> v \<noteq> [] \<and> is_sha256 h \<and> ConsensusContext_valid cx \<and> steps_valid der)"

lemma unit_clamp_unit: "0 \<le> unit_clamp x" "unit_clamp x \<le> 1"
  by (simp_all add: unit_clamp_def)

lemma for_alternative_subset: "set (for_alternative a ps) \<subseteq> set ps"
  by (auto simp: for_alternative_def)

lemma relevant_positions_subset: "set (relevant_positions a ps pol) \<subseteq> set ps"
  by (auto simp: relevant_positions_def for_alternative_def Let_def)

lemma from_positionsI:
  "from_positions cx (contributions (for_alternative a (cx_agent_positions cx)) uc)"
  "from_positions cx (contributions (relevant_positions a (cx_agent_positions cx) pol) uc)"
  unfolding from_positions_def using for_alternative_subset relevant_positions_subset by blast+

lemma weighted_alternative_ok: "weighted_alternative wp cx g alt = Inr e \<Longrightarrow> eval_ok cx alt e"
  by (auto simp: weighted_alternative_def eval_ok_def result_simps Let_def unit_clamp_unit
      from_positionsI)

lemma evidence_alternative_ok: "evidence_alternative ep cx g alt = Inr e \<Longrightarrow> eval_ok cx alt e"
  by (auto simp: evidence_alternative_def eval_ok_def result_simps Let_def unit_clamp_unit
      from_positionsI)

lemma constraint_alternative_ok: "constraint_alternative cp cx g alt = Inr e \<Longrightarrow> eval_ok cx alt e"
  by (auto simp: constraint_alternative_def eval_ok_def result_simps Let_def unit_clamp_unit
      from_positionsI)

lemma emap_evals_ok:
  assumes "emap f alts = Inr evals" and "\<And>alt e. f alt = Inr e \<Longrightarrow> eval_ok cx alt e"
  shows "list_all2 (eval_ok cx) alts evals"
  using assms by (auto simp: emap_Inr_list_all2 elim!: list_all2_mono)

lemma evals_ids:
  "list_all2 (eval_ok cx) alts evals \<Longrightarrow>
   map (\<lambda>e. as_alternative_id (ae_score e)) evals = map al_alternative_id alts"
  by (induction rule: list_all2_induct) (auto simp: eval_ok_def)

lemma evals_reports:
  "list_all2 (eval_ok cx) alts evals \<Longrightarrow>
   concat (map ae_dissent evals) =
     concat (map (\<lambda>a. build_dissent (al_alternative_id a) (cx_agent_positions cx)) alts) \<and>
   concat (map ae_minority evals) =
     concat (map (\<lambda>a. build_minority (al_alternative_id a) (cx_agent_positions cx) (cx_critiques cx)) alts)"
  by (induction rule: list_all2_induct) (auto simp: eval_ok_def)

lemma rankable_gate_spec [simp]:
  "gt_rankable (gate_spec (cx_alternatives cx) (cx_feasibility cx)) = feasible_alternatives cx"
  "gt_all_infeasible (gate_spec (cx_alternatives cx) (cx_feasibility cx)) \<longleftrightarrow> feasible_alternatives cx = []"
  by (simp_all add: gate_spec_def feasible_alternatives_def Let_def)

lemma feasible_iff: "feasible cx a \<longleftrightarrow> a \<in> set (map al_alternative_id (feasible_alternatives cx))"
  by (auto simp: feasible_def feasible_alternatives_def)

lemma is_unknown_feasible:
  "feasible cx a \<Longrightarrow>
   is_unknown (gate_spec (cx_alternatives cx) (cx_feasibility cx)) a \<longleftrightarrow> unknown_alt cx a"
  by (simp add: is_unknown_def gate_unknown_iff feasible_def unknown_alt_def)

subsection \<open>Ranking\<close>

lemma set_rank_scores:
  assumes "s \<in> set (rank_scores evals)"
  obtains e where "e \<in> set evals" "as_alternative_id s = as_alternative_id (ae_score e)"
    "as_alternative_name s = as_alternative_name (ae_score e)" "as_support s = as_support (ae_score e)"
    "1 \<le> as_rank s"
proof -
  from assms obtain i t where t: "t \<in> set (map ae_score evals)" "s = t\<lparr>as_rank := int i + 1\<rparr>"
    unfolding rank_scores_def by (elim set_map_indexE) auto
  then obtain e where "e \<in> set evals" "t = ae_score e" by auto
  with t(2) that show ?thesis by simp
qed

lemma rank_scores_Nil [simp]: "rank_scores evals = [] \<longleftrightarrow> evals = []"
  by (simp add: rank_scores_def)

lemma classify_cases:
  "classify ls ag pa spt unk bl =
     (if unk then CONDITIONAL_CONSENSUS
      else if ag \<le> ls \<and> spt then (if bl = [] then FULL_CONSENSUS else PARTIAL_CONSENSUS)
      else if pa \<le> ls then PARTIAL_CONSENSUS else NO_CONSENSUS)"
  by (auto simp: classify_def blocking_gate_outcome_def Let_def)

lemma finish_lawful:
  assumes "feasible cx (as_alternative_id leader)"
    and "list_all2 (eval_ok cx) (feasible_alternatives cx) evals"
    and "\<forall>s \<in> set scores. feasible cx (as_alternative_id s)"
    and "g = gate_spec (cx_alternatives cx) (cx_feasibility cx)"
    and "rs_pareto_set base = []"
    and "r = finish_result base cx g ag pa st n scores leader evals"
  shows "outcome_lawful cx r \<and> report_lawful cx r"
proof -
  have ne: "feasible_alternatives cx \<noteq> []" using assms(1) by (auto simp: feasible_iff)
  have u: "is_unknown g (as_alternative_id leader) \<longleftrightarrow> unknown_alt cx (as_alternative_id leader)"
    using is_unknown_feasible [OF assms(1)] assms(4) by simp
  show ?thesis unfolding assms(6)
    using assms(1,3,5) ne evals_reports [OF assms(2)]
    by (auto simp: outcome_lawful_def report_lawful_def finish_result_def Let_def classify_cases u
        select_leader_def selectable_def full_dissent_def full_minority_def)
qed

lemma list_all2_set2: "list_all2 P xs ys \<Longrightarrow> y \<in> set ys \<Longrightarrow> \<exists>x \<in> set xs. P x y"
  by (induction rule: list_all2_induct) auto

lemma eval_feasible:
  "list_all2 (eval_ok cx) (feasible_alternatives cx) evals \<Longrightarrow> e \<in> set evals \<Longrightarrow>
   feasible cx (as_alternative_id (ae_score e))"
  by (auto simp: eval_ok_def feasible_iff dest!: list_all2_set2)

lemma rank_scores_feasible:
  assumes "list_all2 (eval_ok cx) (feasible_alternatives cx) evals" "s \<in> set (rank_scores evals)"
  shows "feasible cx (as_alternative_id s)"
  using assms(2) eval_feasible [OF assms(1)] by (elim set_rank_scores) simp

lemma infeasible_lawful:
  assumes "feasible_alternatives cx = []" "r = infeasible_result n v f h cx g der"
  shows "outcome_lawful cx r \<and> report_lawful cx r"
  using assms
  by (auto simp: outcome_lawful_def report_lawful_def infeasible_result_def base_result_def)

lemma insufficient_lawful:
  assumes "feasible_alternatives cx \<noteq> []" "list_all2 (eval_ok cx) (feasible_alternatives cx) evals"
    and "\<forall>s \<in> set scores. feasible cx (as_alternative_id s)"
    and "rs_pareto_set base = []" "rs_selected_alternative_id base = None"
    and "r = insufficient_result base cx scores evals extra"
  shows "outcome_lawful cx r \<and> report_lawful cx r"
  using assms(1,3-) evals_reports [OF assms(2)]
  by (auto simp: outcome_lawful_def report_lawful_def insufficient_result_def full_dissent_def
      full_minority_def)

lemma pareto_lawful:
  assumes "feasible_alternatives cx \<noteq> []" "list_all2 (eval_ok cx) (feasible_alternatives cx) evals"
    and "\<forall>s \<in> set scores. feasible cx (as_alternative_id s)" "\<forall>a \<in> set pareto. feasible cx a"
    and "rs_selected_alternative_id base = None"
    and "r = pareto_result base cx scores pareto evals"
  shows "outcome_lawful cx r \<and> report_lawful cx r"
  using assms(1,3-) evals_reports [OF assms(2)]
  by (auto simp: outcome_lawful_def report_lawful_def pareto_result_def Let_def full_dissent_def
      full_minority_def blocking_gate_outcome_def)

lemma base_result_simps [simp]:
  "rs_pareto_set (base_result n v f h cx oc der) = []"
  "rs_selected_alternative_id (base_result n v f h cx oc der) = None"
  "rs_derivation (base_result n v f h cx oc der) = der"
  by (simp_all add: base_result_def)

lemma weighted_evaluateE:
  assumes "weighted_evaluate h f cx = Inr r"
  obtains (Infeasible) der where "feasible_alternatives cx = []" "ConsensusResult_valid r"
      "r = infeasible_result weighted_name weighted_version f h cx (the_gate cx) der"
  | (Ranked) wp evals leader rest der where "feasible_alternatives cx \<noteq> []" "ConsensusResult_valid r"
      "weighted_read_params (sc_parameters (cx_strategy_config cx)) = Inr wp"
      "emap (weighted_alternative wp cx (the_gate cx)) (feasible_alternatives cx) = Inr evals"
      "rank_scores evals = leader # rest"
      "r = finish_result (base_result weighted_name weighted_version f h cx NO_CONSENSUS der) cx
         (the_gate cx) (wp_agreement_threshold wp) (wp_partial_threshold wp) ''classify'' 3
         (leader # rest) leader evals"
proof -
  from assms obtain wp g where wp: "weighted_read_params (sc_parameters (cx_strategy_config cx)) = Inr wp"
    and g: "feasibility_gate (cx_alternatives cx) (cx_feasibility cx) = Inr g"
    by (auto simp: weighted_evaluate_def result_simps)
  note [simp] = feasibility_gate_spec [OF g]
  show ?thesis
  proof (cases "feasible_alternatives cx = []")
    case True
    with assms show ?thesis
      by (intro Infeasible) (auto simp: weighted_evaluate_def wp g Let_def result_simps)
  next
    case False
    with assms obtain evals where evals:
      "emap (weighted_alternative wp cx (the_gate cx)) (feasible_alternatives cx) = Inr evals"
      by (auto simp: weighted_evaluate_def wp g Let_def result_simps)
    with False have "evals \<noteq> []" by (auto simp: emap_Inr_list_all2)
    then obtain leader rest where "rank_scores evals = leader # rest"
      by (cases "rank_scores evals") auto
    with assms False show ?thesis
      by (intro Ranked [OF False _ wp evals]) (auto simp: weighted_evaluate_def wp g evals Let_def result_simps)
  qed
qed

lemma weighted_lawful:
  assumes "weighted_evaluate h f cx = Inr r"
  shows "outcome_lawful cx r \<and> report_lawful cx r"
  using assms
proof (cases rule: weighted_evaluateE)
  case (Infeasible der)
  then show ?thesis by (simp add: infeasible_lawful)
next
  case (Ranked wp evals leader rest der)
  have ok: "list_all2 (eval_ok cx) (feasible_alternatives cx) evals"
    using Ranked(4) weighted_alternative_ok by (rule emap_evals_ok)
  have "\<forall>s \<in> set (leader # rest). feasible cx (as_alternative_id s)"
    using rank_scores_feasible [OF ok] Ranked(5) by auto
  then show ?thesis by (intro finish_lawful [OF _ ok _ refl _ Ranked(6)]) auto
qed

lemma evidence_evaluateE:
  assumes "evidence_evaluate h f cx = Inr r"
  obtains (Infeasible) der where "feasible_alternatives cx = []" "ConsensusResult_valid r"
      "r = infeasible_result evidence_name evidence_version f h cx (the_gate cx) der"
  | (Insufficient) ep evals leader rest der extra where
      "feasible_alternatives cx \<noteq> []" "ConsensusResult_valid r"
      "evidence_read_params (sc_parameters (cx_strategy_config cx)) = Inr ep"
      "emap (evidence_alternative ep cx (the_gate cx)) (feasible_alternatives cx) = Inr evals"
      "rank_scores evals = leader # rest"
      "evidence_total evals (as_alternative_id leader) = 0"
      "r = insufficient_result (base_result evidence_name evidence_version f h cx NO_CONSENSUS der) cx
         (leader # rest) evals extra"
  | (Ranked) ep evals leader rest der where "feasible_alternatives cx \<noteq> []" "ConsensusResult_valid r"
      "evidence_read_params (sc_parameters (cx_strategy_config cx)) = Inr ep"
      "emap (evidence_alternative ep cx (the_gate cx)) (feasible_alternatives cx) = Inr evals"
      "rank_scores evals = leader # rest"
      "evidence_total evals (as_alternative_id leader) \<noteq> 0"
      "r = finish_result (base_result evidence_name evidence_version f h cx NO_CONSENSUS der) cx
         (the_gate cx) (ep_agreement_threshold ep) (ep_partial_threshold ep) ''classify'' 3
         (leader # rest) leader evals"
proof -
  from assms obtain ep g where ep: "evidence_read_params (sc_parameters (cx_strategy_config cx)) = Inr ep"
    and g: "feasibility_gate (cx_alternatives cx) (cx_feasibility cx) = Inr g"
    by (auto simp: evidence_evaluate_def result_simps)
  note [simp] = feasibility_gate_spec [OF g]
  note run = assms [unfolded evidence_evaluate_def Let_def ep g ebind.simps]
  show ?thesis
  proof (cases "feasible_alternatives cx = []")
    case True
    with run show ?thesis by (intro Infeasible) (auto simp: result_simps)
  next
    case False
    with run obtain evals where evals:
      "emap (evidence_alternative ep cx (the_gate cx)) (feasible_alternatives cx) = Inr evals"
      by (auto simp: result_simps)
    with False have "evals \<noteq> []" by (auto simp: emap_Inr_list_all2)
    then obtain leader rest where lead: "rank_scores evals = leader # rest"
      by (cases "rank_scores evals") auto
    show ?thesis
    proof (cases "evidence_total evals (as_alternative_id leader) = 0")
      case True
      with run False lead evals show ?thesis
        by (intro Insufficient [OF False _ ep evals lead True]) (auto simp: result_simps)
    next
      case False': False
      with run False lead evals show ?thesis
        by (intro Ranked [OF False _ ep evals lead False']) (auto simp: result_simps)
    qed
  qed
qed

lemma evidence_lawful:
  assumes "evidence_evaluate h f cx = Inr r"
  shows "outcome_lawful cx r \<and> report_lawful cx r"
  using assms
proof (cases rule: evidence_evaluateE)
  case (Infeasible der)
  then show ?thesis by (simp add: infeasible_lawful)
next
  case (Insufficient ep evals leader rest der extra)
  have ok: "list_all2 (eval_ok cx) (feasible_alternatives cx) evals"
    using Insufficient(4) evidence_alternative_ok by (rule emap_evals_ok)
  have "\<forall>s \<in> set (leader # rest). feasible cx (as_alternative_id s)"
    using rank_scores_feasible [OF ok] Insufficient(5) by auto
  then show ?thesis by (intro insufficient_lawful [OF Insufficient(1) ok _ _ _ Insufficient(7)]) auto
next
  case (Ranked ep evals leader rest der)
  have ok: "list_all2 (eval_ok cx) (feasible_alternatives cx) evals"
    using Ranked(4) evidence_alternative_ok by (rule emap_evals_ok)
  have "\<forall>s \<in> set (leader # rest). feasible cx (as_alternative_id s)"
    using rank_scores_feasible [OF ok] Ranked(5) by auto
  then show ?thesis by (intro finish_lawful [OF _ ok _ refl _ Ranked(7)]) auto
qed

lemma constraint_evaluateE:
  assumes "constraint_evaluate h f cx = Inr r"
  obtains (Infeasible) der where "feasible_alternatives cx = []" "ConsensusResult_valid r"
      "r = infeasible_result constraint_name constraint_version f h cx (the_gate cx) der"
  | (Insufficient) cp evals der where "feasible_alternatives cx \<noteq> []" "ConsensusResult_valid r"
      "constraint_read_params (sc_parameters (cx_strategy_config cx)) = Inr cp"
      "emap (constraint_alternative cp cx (the_gate cx)) (feasible_alternatives cx) = Inr evals"
      "evidence_floor cp (the_gate cx) evals = []"
      "r = insufficient_result (base_result constraint_name constraint_version f h cx NO_CONSENSUS der) cx
         [] evals []"
  | (Frontier) cp evals tab pareto scores der where
      "feasible_alternatives cx \<noteq> []" "ConsensusResult_valid r"
      "constraint_read_params (sc_parameters (cx_strategy_config cx)) = Inr cp"
      "emap (constraint_alternative cp cx (the_gate cx)) (feasible_alternatives cx) = Inr evals"
      "values_table cx (evidence_floor cp (the_gate cx) evals) = Inr tab"
      "pareto = undominated (evidence_floor cp (the_gate cx) evals) (values_of tab)
         (map ob_objective_id (cx_objectives cx)) (cp_epsilon cp)"
      "declared_conflicting (cx_objectives cx)" "2 \<le> card (argmaxes (cx_objectives cx) tab pareto)"
      "frontier_scores (the_gate cx) evals pareto = Inr scores"
      "r = pareto_result (base_result constraint_name constraint_version f h cx NO_CONSENSUS der) cx
         scores pareto evals"
  | (Ranked) cp evals tab pareto leader rest der where
      "feasible_alternatives cx \<noteq> []" "ConsensusResult_valid r"
      "constraint_read_params (sc_parameters (cx_strategy_config cx)) = Inr cp"
      "emap (constraint_alternative cp cx (the_gate cx)) (feasible_alternatives cx) = Inr evals"
      "values_table cx (evidence_floor cp (the_gate cx) evals) = Inr tab"
      "pareto = undominated (evidence_floor cp (the_gate cx) evals) (values_of tab)
         (map ob_objective_id (cx_objectives cx)) (cp_epsilon cp)"
      "ordered_scores (the_gate cx) evals pareto = Inr (leader # rest)"
      "r = (finish_result (base_result constraint_name constraint_version f h cx NO_CONSENSUS der) cx
         (the_gate cx) (cp_agreement_threshold cp) (cp_partial_threshold cp) ''stage7_classify'' 7
         (leader # rest) leader evals)
         \<lparr>rs_conditions := if threshold_bound cp (leader # rest)
            then [''ranking is threshold-bound: flip distance below min_flip_distance''] else []\<rparr>"
proof -
  from assms obtain cp g where cp: "constraint_read_params (sc_parameters (cx_strategy_config cx)) = Inr cp"
    and g: "feasibility_gate (cx_alternatives cx) (cx_feasibility cx) = Inr g"
    by (auto simp: constraint_evaluate_def result_simps)
  note [simp] = feasibility_gate_spec [OF g]
  note run = assms [unfolded constraint_evaluate_def Let_def cp g ebind.simps]
  show ?thesis
  proof (cases "feasible_alternatives cx = []")
    case True
    with run show ?thesis by (intro Infeasible) (auto simp: result_simps)
  next
    case False
    with run obtain evals where evals:
      "emap (constraint_alternative cp cx (the_gate cx)) (feasible_alternatives cx) = Inr evals"
      by (auto simp: result_simps)
    note run' = run [unfolded evals ebind.simps]
    show ?thesis
    proof (cases "evidence_floor cp (the_gate cx) evals = []")
      case True
      with run' False evals show ?thesis
        by (intro Insufficient [OF False _ cp evals True]) (auto simp: result_simps)
    next
      case ids: False
      let ?base = "base_result constraint_name constraint_version f h cx NO_CONSENSUS"
      from run' False evals ids obtain der where
        fr: "constraint_frontier ?base der cp cx (the_gate cx) evals
          (evidence_floor cp (the_gate cx) evals) = Inr r"
        by (auto simp: result_simps)
      then obtain tab where tab: "values_table cx (evidence_floor cp (the_gate cx) evals) = Inr tab"
        by (auto simp: constraint_frontier_def result_simps)
      define pareto where p: "pareto = undominated (evidence_floor cp (the_gate cx) evals)
        (values_of tab) (map ob_objective_id (cx_objectives cx)) (cp_epsilon cp)"
      note fr' = fr [unfolded constraint_frontier_def tab ebind.simps Let_def, folded p]
      show ?thesis
      proof (cases "declared_conflicting (cx_objectives cx) \<and>
          2 \<le> card (argmaxes (cx_objectives cx) tab pareto) \<and> 1 < length pareto")
        case True
        with fr' show ?thesis
          by (auto simp: result_simps intro!: Frontier [OF False _ cp evals tab p])
      next
        case nc: False
        with fr' obtain der' where
          fin: "constraint_finish (?base der') cp cx (the_gate cx) evals pareto = Inr r" by auto
        then obtain scores where sc: "ordered_scores (the_gate cx) evals pareto = Inr scores"
          by (auto simp: constraint_finish_def result_simps)
        note fin' = fin [unfolded constraint_finish_def sc ebind.simps Let_def]
        then obtain leader rest where "scores = leader # rest" by (cases scores) auto
        with fin' sc show ?thesis
          by (intro Ranked [OF False _ cp evals tab p])
             (auto simp: result_simps base_result_def)
      qed
    qed
  qed
qed

subsection \<open>ConstraintAware\<close>

lemma constraint_score_ids:
  assumes "emap (\<lambda>(i, a). constraint_score g evals (rk a) (st a) i a) (map_index k Pair xs) = Inr ys"
  shows "map as_alternative_id ys = xs \<and> map as_rank ys = map_index k (\<lambda>i _. int i + 1) xs \<and>
    map as_rank_score ys = map rk xs \<and>
    list_all (\<lambda>s. as_support s = unit_clamp (support_of evals (as_alternative_id s))) ys"
  using assms
  by (induction xs arbitrary: k ys) (auto simp: constraint_score_def result_simps)

lemma frontier_scores_facts:
  assumes "frontier_scores g evals pareto = Inr ys"
  shows "map as_alternative_id ys = pareto" "map as_rank ys = map_index 0 (\<lambda>i _. int i + 1) pareto"
    "list_all (\<lambda>s. as_support s = unit_clamp (support_of evals (as_alternative_id s))) ys"
  using constraint_score_ids [of g evals "\<lambda>_. None" "\<lambda>_. SAT" 0 pareto ys] assms
  unfolding frontier_scores_def by auto

lemma ordered_scores_facts:
  assumes "ordered_scores g evals pareto = Inr ys"
  shows "map as_alternative_id ys = sorted_desc (support_of evals) pareto"
    "map as_rank ys = map_index 0 (\<lambda>i _. int i + 1) (sorted_desc (support_of evals) pareto)"
    "map as_rank_score ys =
       map (\<lambda>a. map_option ae_rank_score (eval_of evals a)) (sorted_desc (support_of evals) pareto)"
    "list_all (\<lambda>s. as_support s = unit_clamp (support_of evals (as_alternative_id s))) ys"
  using constraint_score_ids [of g evals "\<lambda>a. map_option ae_rank_score (eval_of evals a)"
      "\<lambda>a. if is_unknown g a then UNKNOWN else SAT" 0 "sorted_desc (support_of evals) pareto" ys] assms
  unfolding ordered_scores_def by auto

lemma floor_feasible: "a \<in> set (evidence_floor cp (the_gate cx) evals) \<Longrightarrow> feasible cx a"
  by (auto simp: evidence_floor_def feasible_iff Let_def split: if_splits)

lemma undominated_floor_feasible:
  "a \<in> set (undominated (evidence_floor cp (the_gate cx) evals) vals ks eps) \<Longrightarrow> feasible cx a"
  by (auto simp: undominated_iff floor_feasible)

lemma lawful_conditions:
  "outcome_lawful cx r \<and> report_lawful cx r \<Longrightarrow>
   outcome_lawful cx (r\<lparr>rs_conditions := c\<rparr>) \<and> report_lawful cx (r\<lparr>rs_conditions := c\<rparr>)"
  unfolding outcome_lawful_def report_lawful_def by auto

lemma constraint_lawful:
  assumes "constraint_evaluate h f cx = Inr r"
  shows "outcome_lawful cx r \<and> report_lawful cx r"
  using assms
proof (cases rule: constraint_evaluateE)
  case (Infeasible der)
  then show ?thesis by (simp add: infeasible_lawful)
next
  case (Insufficient cp evals der)
  have ok: "list_all2 (eval_ok cx) (feasible_alternatives cx) evals"
    using Insufficient(4) constraint_alternative_ok by (rule emap_evals_ok)
  show ?thesis by (rule insufficient_lawful [OF Insufficient(1) ok _ _ _ Insufficient(6)]) auto
next
  case (Frontier cp evals tab pareto scores der)
  have ok: "list_all2 (eval_ok cx) (feasible_alternatives cx) evals"
    using Frontier(4) constraint_alternative_ok by (rule emap_evals_ok)
  have p: "\<forall>a \<in> set pareto. feasible cx a" using Frontier(6) undominated_floor_feasible by blast
  then have "\<forall>s \<in> set scores. feasible cx (as_alternative_id s)"
    using frontier_scores_facts(1) [OF Frontier(9)] by auto
  with p show ?thesis by (intro pareto_lawful [OF Frontier(1) ok _ _ _ Frontier(10)]) auto
next
  case (Ranked cp evals tab pareto leader rest der)
  have ok: "list_all2 (eval_ok cx) (feasible_alternatives cx) evals"
    using Ranked(4) constraint_alternative_ok by (rule emap_evals_ok)
  have p: "\<forall>a \<in> set pareto. feasible cx a" using Ranked(6) undominated_floor_feasible by blast
  have "as_alternative_id ` set (leader # rest) = set pareto"
    using ordered_scores_facts(1) [OF Ranked(7)] by (metis set_map set_sorted_desc)
  with p have "\<forall>s \<in> set (leader # rest). feasible cx (as_alternative_id s)" by blast
  then show ?thesis unfolding Ranked(8)
    by (intro lawful_conditions finish_lawful [OF _ ok _ refl _ refl]) auto
qed

lemma evaluate_lawful: "evaluate s h f cx = Inr r \<Longrightarrow> outcome_lawful cx r \<and> report_lawful cx r"
  by (cases s) (auto dest: weighted_lawful evidence_lawful constraint_lawful)

subsection \<open>Identity\<close>

lemma identity_base:
  "identity_lawful n v h f cx (base_result n v f h cx oc der)"
  "identity_lawful n v h f cx (infeasible_result n v f h cx g der)"
  by (simp_all add: identity_lawful_def base_result_def infeasible_result_def)

lemma identity_finish:
  "identity_lawful n v h f cx base \<Longrightarrow>
   identity_lawful n v h f cx (finish_result base cx g ag pa st k scores leader evals)"
  "identity_lawful n v h f cx base \<Longrightarrow>
   identity_lawful n v h f cx (insufficient_result base cx scores evals extra)"
  "identity_lawful n v h f cx base \<Longrightarrow>
   identity_lawful n v h f cx (pareto_result base cx scores pareto evals)"
  "identity_lawful n v h f cx base \<Longrightarrow> identity_lawful n v h f cx (base\<lparr>rs_conditions := c\<rparr>)"
  by (simp_all add: identity_lawful_def finish_result_def insufficient_result_def pareto_result_def Let_def)

lemmas identity_intros = identity_base identity_finish

lemma evaluate_identity:
  assumes "evaluate s h f cx = Inr r"
  shows "identity_lawful (strategy_name s) (strategy_version s) h f cx r \<and> ConsensusResult_valid r"
proof (cases s)
  case Weighted
  with assms have "weighted_evaluate h f cx = Inr r" by simp
  then show ?thesis unfolding Weighted by (cases rule: weighted_evaluateE) (auto intro: identity_intros)
next
  case EvidenceWeighted
  with assms have "evidence_evaluate h f cx = Inr r" by simp
  then show ?thesis unfolding EvidenceWeighted by (cases rule: evidence_evaluateE) (auto intro: identity_intros)
next
  case ConstraintAware
  with assms have "constraint_evaluate h f cx = Inr r" by simp
  then show ?thesis unfolding ConstraintAware
    by (cases rule: constraint_evaluateE) (auto intro: identity_intros simp del: base_result_simps)
qed

lemma map_index_ranks: "map_index k (\<lambda>i _. int i + 1) xs = map int [Suc k..<Suc (k + length xs)]"
  by (induction xs arbitrary: k) (auto simp: upt_conv_Cons)

lemma feasible_distinct:
  "ConsensusContext_valid cx \<Longrightarrow> distinct (map al_alternative_id (feasible_alternatives cx))"
  by (auto simp: ConsensusContext_valid_def unique_alternatives_def feasible_alternatives_def
      intro: distinct_map_filter)

lemma evals_distinct:
  assumes "list_all2 (eval_ok cx) (feasible_alternatives cx) evals" "ConsensusContext_valid cx"
  shows "distinct (map (\<lambda>e. as_alternative_id (ae_score e)) evals)"
  using evals_ids [OF assms(1)] feasible_distinct [OF assms(2)] by simp

lemma evals_rank_score:
  "list_all2 (eval_ok cx) alts evals \<Longrightarrow> e \<in> set evals \<Longrightarrow>
   as_rank_score (ae_score e) = Some (ae_rank_score e)"
  by (auto simp: eval_ok_def dest!: list_all2_set2)

lemma rank_key_value:
  assumes "list_all2 (eval_ok cx) (feasible_alternatives cx) evals" "ConsensusContext_valid cx"
    and "s \<in> set (map ae_score evals)"
  shows "rank_key evals s = rank_value s"
proof -
  from assms(3) obtain e where e: "e \<in> set evals" "s = ae_score e" by auto
  then show ?thesis
    using dict_of_distinct [OF evals_distinct [OF assms(1,2)] e(1), of ae_rank_score]
      evals_rank_score [OF assms(1) e(1)]
    by (simp add: rank_key_def rank_value_def)
qed

lemma rank_scores_ranks: "map as_rank (rank_scores evals) = map int [1..<Suc (length (rank_scores evals))]"
  using map_index_ranks [of 0 "sorted_desc (rank_key evals) (map ae_score evals)"]
  by (simp add: rank_scores_def map_map_index)

lemma rank_scores_map:
  assumes "\<And>s i. g (s\<lparr>as_rank := i\<rparr>) = g s"
  shows "map g (rank_scores evals) = map g (sorted_desc (rank_key evals) (map ae_score evals))"
  by (simp add: rank_scores_def map_map_index assms)

lemma rank_scores_ids: "mset (map as_alternative_id (rank_scores evals)) =
    mset (map (\<lambda>e. as_alternative_id (ae_score e)) evals)"
  by (simp add: rank_scores_map del: mset_map) (simp add: image_mset.compositionality comp_def)

lemma rank_scores_sorted:
  assumes "list_all2 (eval_ok cx) (feasible_alternatives cx) evals" "ConsensusContext_valid cx"
  shows "sorted_wrt (\<lambda>s t. rank_value t \<le> rank_value s) (rank_scores evals)"
proof -
  let ?xs = "sorted_desc (rank_key evals) (map ae_score evals)"
  have "map rank_value (rank_scores evals) = map rank_value ?xs"
    by (rule rank_scores_map) (simp add: rank_value_def)
  also have "\<dots> = map (rank_key evals) ?xs"
    using rank_key_value [OF assms] by simp
  finally have "map rank_value (rank_scores evals) = map (rank_key evals) ?xs" .
  moreover have "sorted_wrt (\<lambda>x y. y \<le> x) (map (rank_key evals) ?xs)"
    by (simp add: sorted_wrt_map sorted_desc_wrt)
  ultimately have "sorted_wrt (\<lambda>x y. y \<le> x) (map rank_value (rank_scores evals))" by (simp only:)
  then show ?thesis by (simp add: sorted_wrt_map)
qed

lemma rank_scores_distinct:
  assumes "list_all2 (eval_ok cx) (feasible_alternatives cx) evals" "ConsensusContext_valid cx"
  shows "distinct (map as_alternative_id (rank_scores evals))"
  using evals_distinct [OF assms] rank_scores_ids [of evals] by (metis mset_eq_imp_distinct_iff)

lemma ranking_finish:
  assumes "r = finish_result base cx g ag pa st n (leader # rest) leader evals"
    and "distinct (map as_alternative_id (leader # rest))"
    and "map as_rank (leader # rest) = map int [1..<Suc (length (leader # rest))]"
    and "sorted_wrt (\<lambda>s t. rank_value t \<le> rank_value s) (leader # rest)"
  shows "ranking_lawful (r\<lparr>rs_conditions := c\<rparr>)"
  using assms(2-) unfolding assms(1) ranking_lawful_def
  by (simp add: finish_result_def Let_def select_leader_def split: if_splits)

lemma ranking_plain:
  assumes "rs_selected_alternative_id r = None" "distinct (map as_alternative_id (rs_scores r))"
    and "map as_rank (rs_scores r) = map int [1..<Suc (length (rs_scores r))]"
    and "rs_pareto_set r = [] \<Longrightarrow> sorted_wrt (\<lambda>s t. rank_value t \<le> rank_value s) (rs_scores r)"
  shows "ranking_lawful r"
  using assms by (simp add: ranking_lawful_def)

lemma ranking_infeasible: "ranking_lawful (infeasible_result n v f h cx g der)"
  by (rule ranking_plain) (simp_all add: infeasible_result_def base_result_def)

lemma weighted_ranking:
  assumes "weighted_evaluate h f cx = Inr r" "ConsensusContext_valid cx"
  shows "ranking_lawful r"
  using assms(1)
proof (cases rule: weighted_evaluateE)
  case (Infeasible der)
  then show ?thesis by (simp add: ranking_infeasible)
next
  case (Ranked wp evals leader rest der)
  have ok: "list_all2 (eval_ok cx) (feasible_alternatives cx) evals"
    using Ranked(4) weighted_alternative_ok by (rule emap_evals_ok)
  show ?thesis
    using ranking_finish [OF Ranked(6), of "rs_conditions r"] Ranked(5) rank_scores_ranks [of evals]
      rank_scores_distinct [OF ok assms(2)] rank_scores_sorted [OF ok assms(2)] by simp
qed

lemma evidence_ranking:
  assumes "evidence_evaluate h f cx = Inr r" "ConsensusContext_valid cx"
  shows "ranking_lawful r"
  using assms(1)
proof (cases rule: evidence_evaluateE)
  case (Infeasible der)
  then show ?thesis by (simp add: ranking_infeasible)
next
  case (Insufficient ep evals leader rest der extra)
  have ok: "list_all2 (eval_ok cx) (feasible_alternatives cx) evals"
    using Insufficient(4) evidence_alternative_ok by (rule emap_evals_ok)
  have "rs_scores r = rank_scores evals" "rs_selected_alternative_id r = None"
    using Insufficient(5,7) by (simp_all add: insufficient_result_def)
  then show ?thesis
    using rank_scores_ranks [of evals] rank_scores_distinct [OF ok assms(2)]
      rank_scores_sorted [OF ok assms(2)] by (intro ranking_plain) simp_all
next
  case (Ranked ep evals leader rest der)
  have ok: "list_all2 (eval_ok cx) (feasible_alternatives cx) evals"
    using Ranked(4) evidence_alternative_ok by (rule emap_evals_ok)
  show ?thesis
    using ranking_finish [OF Ranked(7), of "rs_conditions r"] Ranked(5) rank_scores_ranks [of evals]
      rank_scores_distinct [OF ok assms(2)] rank_scores_sorted [OF ok assms(2)] by simp
qed

lemma eval_of_SomeI:
  assumes ok: "list_all2 (eval_ok cx) (feasible_alternatives cx) evals" and "feasible cx a"
  obtains e where "eval_of evals a = Some e" "support_of evals a = ae_rank_score e"
proof -
  have "a \<in> (\<lambda>e. as_alternative_id (ae_score e)) ` set evals"
    using assms(2) evals_ids [OF ok] unfolding feasible_iff by (metis set_map)
  then have "a \<in> dom (eval_of evals)" unfolding eval_of_def by (simp add: dom_dict_of)
  with that show ?thesis by (auto simp: support_of_def)
qed

lemma ordered_scores_sorted:
  assumes ok: "list_all2 (eval_ok cx) (feasible_alternatives cx) evals"
    and p: "\<forall>a \<in> set pareto. feasible cx a" and sc: "ordered_scores g evals pareto = Inr scores"
  shows "sorted_wrt (\<lambda>s t. rank_value t \<le> rank_value s) scores"
proof -
  let ?xs = "sorted_desc (support_of evals) pareto"
  have "map rank_value scores =
      map (\<lambda>o'. case o' of None \<Rightarrow> 0 | Some x \<Rightarrow> x) (map as_rank_score scores)"
    by (simp add: rank_value_def)
  also have "\<dots> = map (support_of evals) ?xs"
    unfolding ordered_scores_facts(3) [OF sc] using p by (auto elim!: eval_of_SomeI [OF ok])
  finally have "map rank_value scores = map (support_of evals) ?xs" .
  moreover have "sorted_wrt (\<lambda>x y. y \<le> x) (map (support_of evals) ?xs)"
    by (simp add: sorted_wrt_map sorted_desc_wrt)
  ultimately have "sorted_wrt (\<lambda>x y. y \<le> x) (map rank_value scores)" by (simp only:)
  then show ?thesis by (simp add: sorted_wrt_map)
qed

lemma pareto_distinct:
  "ConsensusContext_valid cx \<Longrightarrow>
   distinct (undominated (evidence_floor cp (the_gate cx) evals) vals ks eps)"
  by (auto simp: undominated_def evidence_floor_def Let_def feasible_distinct)

lemma constraint_ranking:
  assumes "constraint_evaluate h f cx = Inr r" and v: "ConsensusContext_valid cx"
  shows "ranking_lawful r"
  using assms(1)
proof (cases rule: constraint_evaluateE)
  case (Infeasible der)
  then show ?thesis by (simp add: ranking_infeasible)
next
  case (Insufficient cp evals der)
  then show ?thesis by (intro ranking_plain) (simp_all add: insufficient_result_def)
next
  case (Frontier cp evals tab pareto scores der)
  have p: "pareto \<noteq> []" using Frontier(8) unfolding argmaxes_def
    by (auto simp: List.map_filter_def)
  have r: "rs_scores r = scores" "rs_pareto_set r = pareto" "rs_selected_alternative_id r = None"
    using Frontier(10) by (simp_all add: pareto_result_def Let_def)
  note sc = frontier_scores_facts [OF Frontier(9)]
  have "length scores = length pareto" using sc(1) by (metis length_map)
  then show ?thesis
    using pareto_distinct [OF v] Frontier(6) p sc map_index_ranks [of 0 pareto]
    by (intro ranking_plain) (simp_all add: r)
next
  case (Ranked cp evals tab pareto leader rest der)
  have ok: "list_all2 (eval_ok cx) (feasible_alternatives cx) evals"
    using Ranked(4) constraint_alternative_ok by (rule emap_evals_ok)
  have p: "\<forall>a \<in> set pareto. feasible cx a" using Ranked(6) undominated_floor_feasible by blast
  note sc = ordered_scores_facts [OF Ranked(7)]
  have len: "length (leader # rest) = length pareto" using sc(1) by (metis length_map length_sorted_desc)
  have "distinct (map as_alternative_id (leader # rest))"
    unfolding sc(1) using pareto_distinct [OF v] Ranked(6) by (metis mset_eq_imp_distinct_iff mset_sorted_desc)
  moreover have "map as_rank (leader # rest) = map int [1..<Suc (length (leader # rest))]"
    unfolding sc(2) map_index_ranks len by simp
  ultimately show ?thesis unfolding Ranked(8)
    using ordered_scores_sorted [OF ok p Ranked(7)] by (intro ranking_finish [OF refl])
qed

lemma evaluate_ranking: "evaluate s h f cx = Inr r \<Longrightarrow> ConsensusContext_valid cx \<Longrightarrow> ranking_lawful r"
  by (cases s) (auto dest: weighted_ranking evidence_ranking constraint_ranking)

subsection \<open>Every strategy returns\<close>

lemma values_parseD:
  assumes "values_parse ex cx" "obj \<in> set (cx_objectives cx)" "alt \<in> set (cx_alternatives cx)"
    "objective_raw (cx_objective_values cx) (ob_objective_id obj) (al_alternative_id alt) = Some raw"
  shows "\<exists>v. decimal_of_string raw = Inr v \<and> (ex \<longrightarrow> dec_round v = v)"
proof -
  have "value_parses ex cx obj alt" using assms(1-3) by (simp add: values_parse_def list_all_iff)
  with assms(4) show ?thesis by (auto simp: value_parses_def split: sum.splits)
qed

lemma feasible_alternatives_subset: "set (feasible_alternatives cx) \<subseteq> set (cx_alternatives cx)"
  by (auto simp: feasible_alternatives_def)

lemma weighted_objective_value_total:
  assumes "values_parse ex cx" "alt \<in> set (cx_alternatives cx)"
  shows "\<exists>v. weighted_objective_value (al_alternative_id alt) (cx_objectives cx) (cx_objective_values cx) = Inr v"
proof -
  have "\<exists>s'. efold (objective_value_step (al_alternative_id alt) (cx_objective_values cx)) (0, False)
      (cx_objectives cx) = Inr s' \<and> True"
  proof (rule efold_total)
    fix s obj assume "obj \<in> set (cx_objectives cx)"
    from values_parseD [OF assms(1) this assms(2)]
    show "\<exists>t. objective_value_step (al_alternative_id alt) (cx_objective_values cx) s obj = Inr t \<and> True"
      by (cases s) (fastforce split: option.splits)
  qed simp
  then show ?thesis by (auto simp: weighted_objective_value_def)
qed

lemma objective_value_lookup_total:
  assumes "values_parse True cx" "alt \<in> set (cx_alternatives cx)"
  shows "\<exists>m. objective_value_lookup (al_alternative_id alt) (cx_objectives cx) (cx_objective_values cx) = Inr m \<and>
    (\<forall>k x. m k = Some x \<longrightarrow> dec_round x = x)"
  unfolding objective_value_lookup_def
proof (rule efold_total)
  fix m :: "uuid \<rightharpoonup> decimal" and obj
  assume "obj \<in> set (cx_objectives cx)" "\<forall>k x. m k = Some x \<longrightarrow> dec_round x = x"
  with values_parseD [OF assms(1) _ assms(2), of obj]
  show "\<exists>t. (case objective_raw (cx_objective_values cx) (ob_objective_id obj) (al_alternative_id alt) of
      None \<Rightarrow> Inr m | Some raw \<Rightarrow> ebind (decimal_of_string raw) (\<lambda>v. Inr (m(ob_objective_id obj \<mapsto> v)))) = Inr t \<and>
      (\<forall>k x. t k = Some x \<longrightarrow> dec_round x = x)"
    by (fastforce split: option.splits)
qed simp

lemma support_ev_total:
  assumes "nonneg_weights vw" "nonneg_weights tm"
  shows "\<exists>t. support_ev rel ev vw tm cap uc pw lam = Inr t"
proof -
  obtain s where "efold (support_term ev vw tm cap uc pw lam) (0, 0) rel = Inr s"
    using efold_total' [of "support_term ev vw tm cap uc pw lam"] support_term_total [OF assms] by blast
  then show ?thesis by (cases s) (simp add: support_ev_def)
qed

lemma weighted_alternative_total:
  assumes "values_parse ex cx" "alt \<in> set (cx_alternatives cx)"
  shows "\<exists>e. weighted_alternative wp cx g alt = Inr e"
  using weighted_objective_value_total [OF assms] by (auto simp: weighted_alternative_def Let_def)

lemma evidence_alternative_total:
  assumes "values_parse ex cx" "alt \<in> set (cx_alternatives cx)"
    and "nonneg_weights (ep_verification_weights ep)" "nonneg_weights (ep_trust_multiplier ep)"
  shows "\<exists>e. evidence_alternative ep cx g alt = Inr e"
proof -
  obtain v where "weighted_objective_value (al_alternative_id alt) (cx_objectives cx) (cx_objective_values cx) = Inr v"
    using weighted_objective_value_total [OF assms(1,2)] by blast
  moreover obtain t where "support_ev (relevant_positions (al_alternative_id alt) (cx_agent_positions cx)
      (ep_abstain_policy ep)) (cx_evidence cx) (ep_verification_weights ep) (ep_trust_multiplier ep)
      (ep_independence_cap ep) (ep_use_confidence ep) (ep_pos_weights ep) (ep_lam ep) = Inr t"
    using support_ev_total [OF assms(3,4)] by blast
  ultimately show ?thesis by (cases t) (simp add: evidence_alternative_def Let_def)
qed

lemma constraint_alternative_total:
  assumes "nonneg_weights (cp_verification_weights cp)" "nonneg_weights (cp_trust_multiplier cp)"
  shows "\<exists>e. constraint_alternative cp cx g alt = Inr e"
proof -
  obtain t where "support_ev (relevant_positions (al_alternative_id alt) (cx_agent_positions cx)
      (cp_abstain_policy cp)) (cx_evidence cx) (cp_verification_weights cp) (cp_trust_multiplier cp)
      (cp_independence_cap cp) (cp_use_confidence cp) (cp_pos_weights cp) (cp_lam cp) = Inr t"
    using support_ev_total [OF assms] by blast
  then show ?thesis by (cases t) (simp add: constraint_alternative_def Let_def)
qed

text \<open>The reports and ratios of an assembled result pass the constructor's validation.\<close>

lemma reports_valid:
  assumes "list_all2 (eval_ok cx) (feasible_alternatives cx) evals" "ConsensusContext_valid cx"
  shows "list_all AgentContribution_valid (concat (map ae_contributions evals))"
    "list_all (\<lambda>d. de_stance d \<noteq> []) (concat (map ae_dissent evals))"
    "list_all (\<lambda>m. me_position m \<noteq> []) (concat (map ae_minority evals))"
proof -
  have pos: "AgentPosition_valid p" if "p \<in> set (cx_agent_positions cx)" for p
    using assms(2) that by (simp add: ConsensusContext_valid_def list_all_iff)
  have "list_all AgentContribution_valid (ae_contributions e)" if e: "e \<in> set evals" for e
  proof -
    obtain ps uc where "set ps \<subseteq> set (cx_agent_positions cx)" "ae_contributions e = contributions ps uc"
      using list_all2_set2 [OF assms(1) e] unfolding eval_ok_def from_positions_def by blast
    with pos show ?thesis by (simp add: contributions_valid subset_iff)
  qed
  then show "list_all AgentContribution_valid (concat (map ae_contributions evals))"
    by (auto simp: list_all_iff)
qed (use evals_reports [OF assms(1)] in
     \<open>auto simp: list_all_iff build_dissent_def build_minority_def Let_def\<close>)

lemma stance_ratio_unit: "0 \<le> stance_ratio cx st \<and> stance_ratio cx st \<le> 1"
  unfolding stance_ratio_def
  by (rule unit_ratio) (auto simp: total_positions_def intro: order_trans [OF length_filter_le])

lemma rank_scores_valid:
  assumes ok: "list_all2 (eval_ok cx) (feasible_alternatives cx) evals" and v: "ConsensusContext_valid cx"
  shows "list_all AlternativeScore_valid (rank_scores evals)"
  unfolding list_all_iff
proof
  fix s assume "s \<in> set (rank_scores evals)"
  then obtain e where e: "e \<in> set evals" "as_alternative_name s = as_alternative_name (ae_score e)"
    "as_support s = as_support (ae_score e)" "1 \<le> as_rank s" by (rule set_rank_scores)
  obtain alt where "alt \<in> set (feasible_alternatives cx)" "eval_ok cx alt e"
    using list_all2_set2 [OF ok e(1)] by blast
  with e v feasible_alternatives_subset [of cx] show "AlternativeScore_valid s"
    by (auto simp: AlternativeScore_valid_def eval_ok_def ConsensusContext_valid_def list_all_iff)
qed

lemma steps_valid_simps [simp]:
  "steps_valid []" "steps_valid (d # ds) \<longleftrightarrow> 1 \<le> ds_step d \<and> ds_stage d \<noteq> [] \<and> ds_description d \<noteq> [] \<and> steps_valid ds"
  "steps_valid (ds @ es) \<longleftrightarrow> steps_valid ds \<and> steps_valid es"
  by (auto simp: steps_valid_def)

lemma valid_round: "ConsensusContext_valid cx \<Longrightarrow> 1 \<le> cx_round cx"
  by (simp add: ConsensusContext_valid_def)

lemma infeasible_result_valid:
  "labels_valid n v h cx der \<Longrightarrow> ConsensusResult_valid (infeasible_result n v f h cx g der)"
  by (simp add: ConsensusResult_valid_def infeasible_result_def base_result_def labels_valid_def
      result_invariants_def steps_valid_def valid_round)

lemma finish_result_valid:
  assumes "labels_valid n v h cx der" "list_all2 (eval_ok cx) (feasible_alternatives cx) evals"
    and "list_all AlternativeScore_valid scores" "leader \<in> set scores" "1 \<le> k" "st \<noteq> []"
  shows "ConsensusResult_valid (finish_result (base_result n v f h cx oc der) cx g ag pa st k scores leader evals)"
proof -
  have "AlternativeScore_valid leader" using assms(3,4) by (simp add: list_all_iff)
  with assms show ?thesis
    using reports_valid [OF assms(2)] stance_ratio_unit
    by (simp add: ConsensusResult_valid_def finish_result_def base_result_def labels_valid_def Let_def
        result_invariants_def AlternativeScore_valid_def valid_round select_leader_def
        classify_derivation_def derivation_def flip: steps_valid_def)
qed

lemma valid_conditions [simp]: "ConsensusResult_valid (r\<lparr>rs_conditions := c\<rparr>) \<longleftrightarrow> ConsensusResult_valid r"
  by (simp add: ConsensusResult_valid_def result_invariants_def)

lemma insufficient_result_valid:
  assumes "labels_valid n v h cx der" "list_all2 (eval_ok cx) (feasible_alternatives cx) evals"
    and "list_all AlternativeScore_valid scores" "steps_valid extra"
  shows "ConsensusResult_valid (insufficient_result (base_result n v f h cx oc der) cx scores evals extra)"
  using assms reports_valid [OF assms(2)]
  by (simp add: ConsensusResult_valid_def insufficient_result_def base_result_def labels_valid_def
      result_invariants_def valid_round flip: steps_valid_def)

lemma pareto_result_valid:
  assumes "labels_valid n v h cx der" "list_all2 (eval_ok cx) (feasible_alternatives cx) evals"
    and "list_all AlternativeScore_valid scores"
  shows "ConsensusResult_valid (pareto_result (base_result n v f h cx oc der) cx scores pareto evals)"
  using assms reports_valid [OF assms(2)]
  by (simp add: ConsensusResult_valid_def pareto_result_def base_result_def labels_valid_def Let_def
      result_invariants_def valid_round flip: steps_valid_def)

lemma the_gate_total:
  "ConsensusContext_valid cx \<Longrightarrow> feasibility_gate (cx_alternatives cx) (cx_feasibility cx) = Inr (the_gate cx)"
  using feasibility_gate_total feasibility_gate_spec by (metis context_validD)

lemma feasible_evals:
  assumes "\<And>alt. alt \<in> set (cx_alternatives cx) \<Longrightarrow> \<exists>e. f alt = Inr e"
    and "\<And>alt e. f alt = Inr e \<Longrightarrow> eval_ok cx alt e"
  obtains evals where "emap f (feasible_alternatives cx) = Inr evals"
    "list_all2 (eval_ok cx) (feasible_alternatives cx) evals"
proof -
  obtain evals where e: "emap f (feasible_alternatives cx) = Inr evals"
    using emap_total [of "feasible_alternatives cx" f] assms(1) feasible_alternatives_subset [of cx]
    by blast
  with emap_evals_ok [OF e assms(2)] that show ?thesis by blast
qed

lemma mk_result_total: "ConsensusResult_valid r \<Longrightarrow> \<exists>r'. mk_result r = Inr r'"
  by (simp add: mk_result_def)

lemma labels_validI:
  assumes "ConsensusContext_valid cx" "is_sha256 h" "steps_valid der"
  shows "labels_valid weighted_name weighted_version h cx der"
    "labels_valid evidence_name evidence_version h cx der"
    "labels_valid constraint_name constraint_version h cx der"
  using assms
  by (simp_all add: labels_valid_def weighted_name_def weighted_version_def evidence_name_def
      evidence_version_def constraint_name_def constraint_version_def)

lemmas derivation_defs = derivation_def gate_derivation_def weighted_ranking_derivation_def
  evidence_ranking_derivation_def stage2_derivation_def stage3_derivation_def stage4_derivation_def
  stage5_derivation_def stage6_derivation_def

lemma weighted_evaluate_total:
  assumes "evaluable Weighted cx" "is_sha256 h"
  shows "\<exists>r. weighted_evaluate h f cx = Inr r"
proof -
  from assms(1) obtain wp where v: "ConsensusContext_valid cx" and val: "values_parse False cx"
    and wp: "weighted_read_params (sc_parameters (cx_strategy_config cx)) = Inr wp"
    by (auto simp: evaluable_def params_ok_def split: sum.splits)
  obtain evals where e: "emap (weighted_alternative wp cx (the_gate cx)) (feasible_alternatives cx) = Inr evals"
    and ok: "list_all2 (eval_ok cx) (feasible_alternatives cx) evals"
    using weighted_alternative_total [OF val] weighted_alternative_ok by (rule feasible_evals)
  show ?thesis
  proof (cases "feasible_alternatives cx = []")
    case True
    then show ?thesis
      by (simp add: weighted_evaluate_def wp the_gate_total [OF v] Let_def mk_result_total
          infeasible_result_valid labels_validI v assms(2) derivation_defs)
  next
    case False
    with e have "evals \<noteq> []" by (auto simp: emap_Inr_list_all2)
    then obtain leader rest where lead: "rank_scores evals = leader # rest" by (cases "rank_scores evals") auto
    show ?thesis
      using False rank_scores_valid [OF ok v] unfolding weighted_evaluate_def
      by (auto simp: wp the_gate_total [OF v] Let_def e lead derivation_defs
          intro!: mk_result_total finish_result_valid labels_validI v assms(2) ok)
  qed
qed

lemma evidence_evaluate_total:
  assumes "evaluable EvidenceWeighted cx" "is_sha256 h"
  shows "\<exists>r. evidence_evaluate h f cx = Inr r"
proof -
  from assms(1) obtain ep where v: "ConsensusContext_valid cx" and val: "values_parse False cx"
    and ep: "evidence_read_params (sc_parameters (cx_strategy_config cx)) = Inr ep"
    and w: "nonneg_weights (ep_verification_weights ep)" "nonneg_weights (ep_trust_multiplier ep)"
    by (auto simp: evaluable_def params_ok_def split: sum.splits)
  obtain evals where e: "emap (evidence_alternative ep cx (the_gate cx)) (feasible_alternatives cx) = Inr evals"
    and ok: "list_all2 (eval_ok cx) (feasible_alternatives cx) evals"
    using evidence_alternative_total [OF val _ w] evidence_alternative_ok by (rule feasible_evals)
  show ?thesis
  proof (cases "feasible_alternatives cx = []")
    case True
    then show ?thesis
      by (simp add: evidence_evaluate_def ep the_gate_total [OF v] Let_def mk_result_total
          infeasible_result_valid labels_validI v assms(2) derivation_defs)
  next
    case False
    with e have "evals \<noteq> []" by (auto simp: emap_Inr_list_all2)
    then obtain leader rest where lead: "rank_scores evals = leader # rest" by (cases "rank_scores evals") auto
    show ?thesis
      using False rank_scores_valid [OF ok v] unfolding evidence_evaluate_def
      by (auto simp: ep the_gate_total [OF v] Let_def e lead derivation_defs
          intro!: mk_result_total finish_result_valid insufficient_result_valid labels_validI v assms(2) ok)
  qed
qed

lemma values_table_total:
  assumes "values_parse True cx" "\<And>a. a \<in> set ids \<Longrightarrow> feasible cx a"
  shows "\<exists>tab. values_table cx ids = Inr tab \<and> (\<forall>a k x. values_of tab a k = Some x \<longrightarrow> dec_round x = x)"
  using assms(2)
proof (induction ids)
  case Nil
  then show ?case by (simp add: values_table_def values_of_def dget_def)
next
  case (Cons a ids)
  then obtain tab where tab: "values_table cx ids = Inr tab"
      "\<forall>a k x. values_of tab a k = Some x \<longrightarrow> dec_round x = x" by force
  obtain alt where "alt \<in> set (cx_alternatives cx)" "a = al_alternative_id alt"
    using Cons.prems [of a] by (auto simp: feasible_def)
  with objective_value_lookup_total [OF assms(1)] obtain m where
    "objective_value_lookup a (cx_objectives cx) (cx_objective_values cx) = Inr m"
    "\<forall>k x. m k = Some x \<longrightarrow> dec_round x = x" by blast
  with tab show ?case by (auto simp: values_table_def values_of_def dget_def)
qed

lemma constraint_scores_total:
  assumes v: "ConsensusContext_valid cx" and p: "\<And>a. a \<in> set xs \<Longrightarrow> feasible cx a"
  shows "\<exists>ys. emap (\<lambda>(i, a). constraint_score (the_gate cx) evals (rk a) (st a) i a) (map_index k Pair xs) = Inr ys \<and>
    list_all AlternativeScore_valid ys \<and> (ys = [] \<longleftrightarrow> xs = [])"
  using p
proof (induction xs arbitrary: k)
  case (Cons a xs)
  then obtain alt where alt: "alt \<in> set (feasible_alternatives cx)" "a = al_alternative_id alt"
    by (force simp: feasible_iff)
  have "name_of (the_gate cx) a = Inr (al_name alt)" "al_name alt \<noteq> []"
    using dict_of_distinct [OF feasible_distinct [OF v] alt(1), of al_name] alt
      feasible_alternatives_subset [of cx] context_validD(6) [OF v]
    by (auto simp: name_of_def)
  then obtain y where "constraint_score (the_gate cx) evals (rk a) (st a) k a = Inr y" "AlternativeScore_valid y"
    by (auto simp: constraint_score_def AlternativeScore_valid_def unit_clamp_unit)
  moreover obtain ys where "emap (\<lambda>(i, a). constraint_score (the_gate cx) evals (rk a) (st a) i a)
      (map_index (Suc k) Pair xs) = Inr ys" "list_all AlternativeScore_valid ys"
    using Cons.IH [of "Suc k"] Cons.prems by auto
  ultimately show ?case by simp
qed simp

lemma constraint_finish_total:
  assumes v: "ConsensusContext_valid cx" and h: "is_sha256 h"
    and ok: "list_all2 (eval_ok cx) (feasible_alternatives cx) evals"
    and p: "\<And>a. a \<in> set pareto \<Longrightarrow> feasible cx a" and ne: "pareto \<noteq> []" and der: "steps_valid der"
  shows "\<exists>r. constraint_finish (base_result constraint_name constraint_version f h cx NO_CONSENSUS der)
    cp cx (the_gate cx) evals pareto = Inr r"
proof -
  obtain ys where ys: "ordered_scores (the_gate cx) evals pareto = Inr ys"
    "list_all AlternativeScore_valid ys" "ys = [] \<longleftrightarrow> sorted_desc (support_of evals) pareto = []"
    using constraint_scores_total [OF v, of "sorted_desc (support_of evals) pareto" evals
        "\<lambda>a. map_option ae_rank_score (eval_of evals a)" "\<lambda>a. if is_unknown (the_gate cx) a then UNKNOWN else SAT" 0] p
    unfolding ordered_scores_def by auto
  with ne obtain leader rest where sc: "ordered_scores (the_gate cx) evals pareto = Inr (leader # rest)"
    and val: "list_all AlternativeScore_valid (leader # rest)" by (cases ys) auto
  have b: "(base_result constraint_name constraint_version f h cx NO_CONSENSUS der)\<lparr>rs_derivation := d\<rparr> =
      base_result constraint_name constraint_version f h cx NO_CONSENSUS d" for d
    by (simp add: base_result_def)
  show ?thesis
    unfolding constraint_finish_def sc ebind.simps Let_def list.case b using val der
    by (intro mk_result_total, unfold valid_conditions)
       (auto simp: derivation_defs intro!: finish_result_valid labels_validI v h ok)
qed

lemma constraint_frontier_total:
  assumes v: "ConsensusContext_valid cx" and h: "is_sha256 h" and val: "values_parse True cx"
    and ok: "list_all2 (eval_ok cx) (feasible_alternatives cx) evals"
    and eps: "0 \<le> cp_epsilon cp" and ids: "\<And>a. a \<in> set ids \<Longrightarrow> feasible cx a" "ids \<noteq> []"
    and der: "steps_valid der"
  shows "\<exists>r. constraint_frontier (base_result constraint_name constraint_version f h cx NO_CONSENSUS) der
    cp cx (the_gate cx) evals ids = Inr r"
proof -
  obtain tab where tab: "values_table cx ids = Inr tab"
    "\<forall>a k x. values_of tab a k = Some x \<longrightarrow> dec_round x = x"
    using values_table_total [OF val ids(1)] by blast
  define pareto where "pareto = undominated ids (values_of tab) (map ob_objective_id (cx_objectives cx)) (cp_epsilon cp)"
  have ne: "pareto \<noteq> []" unfolding pareto_def
    using margin_safeI [OF eps] tab(2) ids(2) by (intro undominated_nonempty) blast+
  have p: "feasible cx a" if "a \<in> set pareto" for a
    using that ids(1) by (simp add: pareto_def undominated_iff)
  obtain scores where sc: "frontier_scores (the_gate cx) evals pareto = Inr scores"
    "list_all AlternativeScore_valid scores"
    using constraint_scores_total [OF v p, where rk = "\<lambda>_. None" and st = "\<lambda>_. SAT"]
    unfolding frontier_scores_def by blast
  have fin: "\<exists>r. constraint_finish (base_result constraint_name constraint_version f h cx NO_CONSENSUS
      (der @ [stage3_derivation cx pareto])) cp cx (the_gate cx) evals pareto = Inr r"
    using der by (intro constraint_finish_total v h ok p ne) (auto simp: derivation_defs)
  show ?thesis
    unfolding constraint_frontier_def tab(1) ebind.simps Let_def pareto_def [symmetric] sc(1)
    using fin der sc(2)
    by (auto simp: derivation_defs intro!: mk_result_total pareto_result_valid labels_validI v h ok)
qed

lemma constraint_evaluate_total:
  assumes "evaluable ConstraintAware cx" and h: "is_sha256 h"
  shows "\<exists>r. constraint_evaluate h f cx = Inr r"
proof -
  from assms(1) obtain cp where v: "ConsensusContext_valid cx" and val: "values_parse True cx"
    and cp: "constraint_read_params (sc_parameters (cx_strategy_config cx)) = Inr cp"
    and w: "nonneg_weights (cp_verification_weights cp)" "nonneg_weights (cp_trust_multiplier cp)"
    and eps: "0 \<le> cp_epsilon cp"
    by (auto simp: evaluable_def params_ok_def split: sum.splits)
  obtain evals where e: "emap (constraint_alternative cp cx (the_gate cx)) (feasible_alternatives cx) = Inr evals"
    and ok: "list_all2 (eval_ok cx) (feasible_alternatives cx) evals"
    using constraint_alternative_total [OF w] constraint_alternative_ok by (rule feasible_evals)
  let ?ids = "evidence_floor cp (the_gate cx) evals"
  have fr: "\<exists>r. constraint_frontier (base_result constraint_name constraint_version f h cx NO_CONSENSUS) der
    cp cx (the_gate cx) evals ?ids = Inr r" if "?ids \<noteq> []" "steps_valid der" for der
    using that by (intro constraint_frontier_total v h val ok eps) (auto intro: floor_feasible)
  show ?thesis
  proof (cases "feasible_alternatives cx = []")
    case True
    then show ?thesis
      by (simp add: constraint_evaluate_def cp the_gate_total [OF v] Let_def mk_result_total
          infeasible_result_valid labels_validI v h derivation_defs)
  next
    case False
    then show ?thesis
      unfolding constraint_evaluate_def
      by (auto simp: cp the_gate_total [OF v] Let_def e derivation_defs
          intro!: mk_result_total insufficient_result_valid labels_validI v h ok fr)
  qed
qed

lemma evaluate_total: "evaluable s cx \<Longrightarrow> is_sha256 h \<Longrightarrow> \<exists>r. evaluate s h f cx = Inr r"
  by (cases s) (simp_all add: weighted_evaluate_total evidence_evaluate_total constraint_evaluate_total)

end
