(* ===== verification/Consensus_Engine.thy ===== *)
theory Consensus_Engine
  imports Consensus_Laws
begin

text \<open>
  The consensus engine around the strategies: \<^verbatim>\<open>StrategyRegistry\<close> and
  \<^verbatim>\<open>ConsensusOrchestrator\<close> of \<^verbatim>\<open>app/application/consensus.py\<close>, the durable
  \<^verbatim>\<open>ConsensusRunRecord\<close> of \<^verbatim>\<open>app/domain/consensus.py\<close> and the SQL result store of
  \<^verbatim>\<open>app/db/consensus.py\<close> over the two tables of \<^verbatim>\<open>app/db/models/source_impact.py\<close> with their
  keys and check constraints.
\<close>

subsection \<open>Strategies as registered objects\<close>

record strategy_obj =
  so_name :: string
  so_version :: string
  so_evaluate :: "string \<Rightarrow> uuid \<Rightarrow> ConsensusContext \<Rightarrow> ConsensusResult result"
  so_explain :: "ConsensusResult \<Rightarrow> ConsensusExplanation"

definition strategy_object :: "strategy \<Rightarrow> strategy_obj" where
  "strategy_object s = \<lparr>so_name = strategy_name s, so_version = strategy_version s,
     so_evaluate = evaluate s, so_explain = explain s\<rparr>"

type_synonym registry = "((string \<times> string) \<times> strategy_obj) list"

definition required :: "string \<Rightarrow> string \<Rightarrow> string result" where
  "required value' label = (if value' = [] then Inl (ConsensusError (label @ '' must be non-empty''))
     else Inr value')"

definition register_step :: "string set option \<Rightarrow> registry \<Rightarrow> strategy_obj \<Rightarrow> registry result" where
  "register_step documented registered s =
     ebind (required (so_name s) ''strategy name'') (\<lambda>name.
     ebind (required (so_version s) ''version'') (\<lambda>version.
       if (case documented of None \<Rightarrow> False | Some names \<Rightarrow> name \<notin> names)
       then Inl (ConsensusError (''strategy '' @ [CHR 0x27] @ name @ [CHR 0x27] @ '' has no formal document (S-1, FR-608)''))
       else if map_of registered (name, version) \<noteq> None
       then Inl (ConsensusError (''duplicate consensus strategy '' @ name @ ''@'' @ version))
       else Inr (registered @ [((name, version), s)])))"

definition StrategyRegistry :: "strategy_obj list \<Rightarrow> string set option \<Rightarrow> registry result" where
  "StrategyRegistry strategies documented = efold (register_step documented) [] strategies"

definition resolve :: "registry \<Rightarrow> string \<Rightarrow> string \<Rightarrow> strategy_obj result" where
  "resolve reg name version = (case map_of reg (name, version) of
     None \<Rightarrow> Inl (ConsensusError (''unknown consensus strategy '' @ name @ ''@'' @ version))
   | Some s \<Rightarrow> Inr s)"

definition names :: "registry \<Rightarrow> string set" where
  "names reg = (fst \<circ> fst) ` set reg"

subsection \<open>The durable record\<close>

text \<open>The ratios stand for their decimal text, as in the derivation steps.\<close>

record ConsensusRunRecord =
  rr_id :: uuid
  rr_workspace_id :: uuid
  rr_session_id :: uuid
  rr_round :: int
  rr_strategy :: string
  rr_strategy_version :: string
  rr_outcome :: ConsensusOutcome
  rr_selected_alternative_id :: "uuid option"
  rr_pareto_set :: "uuid list"
  rr_support :: "decimal option"
  rr_dissent :: "decimal option"
  rr_abstention :: "decimal option"
  rr_coverage :: "decimal option"
  rr_blocking_constraints :: "string list"
  rr_blocking_critiques :: "uuid list"
  rr_conditions :: "string list"
  rr_input_hash :: string
  rr_created_at :: int

definition selection_feasibility :: "ConsensusRunRecord \<Rightarrow> bool" where
  "selection_feasibility r = (rr_selected_alternative_id r \<noteq> None \<longrightarrow> selectable (rr_outcome r))"

definition ConsensusRunRecord_valid :: "ConsensusRunRecord \<Rightarrow> bool" where
  "ConsensusRunRecord_valid r = (1 \<le> rr_round r \<and> rr_strategy r \<noteq> [] \<and> rr_strategy_version r \<noteq> [] \<and>
     is_sha256 (rr_input_hash r) \<and> selection_feasibility r)"

subsection \<open>The result store\<close>

text \<open>
  The rows of \<^verbatim>\<open>consensus_results\<close> and \<^verbatim>\<open>consensus_explanations\<close> in insertion order, with the
  keys of the sessions and artifacts that the foreign keys of the tables refer to. A flush that
  violates a constraint raises and leaves the transaction to be rolled back.
\<close>

record consensus_db =
  cd_sessions :: "(uuid \<times> uuid) list"
  cd_artifacts :: "(uuid \<times> uuid \<times> uuid) list"
  cd_results :: "ConsensusRunRecord list"
  cd_explanations :: "(uuid \<times> uuid \<times> ConsensusExplanation) list"

definition run_key :: "ConsensusRunRecord \<Rightarrow> uuid \<times> int \<times> string \<times> string" where
  "run_key r = (rr_session_id r, rr_round r, rr_strategy r, rr_strategy_version r)"

definition row_admissible :: "consensus_db \<Rightarrow> ConsensusRunRecord \<Rightarrow> bool" where
  "row_admissible db r =
     ((rr_workspace_id r, rr_session_id r) \<in> set (cd_sessions db) \<and>
      (case rr_selected_alternative_id r of None \<Rightarrow> True
       | Some a \<Rightarrow> (rr_workspace_id r, rr_session_id r, a) \<in> set (cd_artifacts db)) \<and>
      1 \<le> rr_round r \<and> selection_feasibility r \<and> is_sha256 (rr_input_hash r) \<and>
      rr_id r \<notin> set (map rr_id (cd_results db)) \<and> run_key r \<notin> set (map run_key (cd_results db)))"

text \<open>
  The ratios are columns of type \<^verbatim>\<open>Numeric(6, 5)\<close>: the database rounds them to five places, halves away
  from zero, and refuses a value with more than one digit before the point.
\<close>

definition numeric_6_5 :: "decimal \<Rightarrow> decimal" where
  "numeric_6_5 x = sgn x * of_int \<lfloor>\<bar>x\<bar> * 10 ^ 5 + 1 / 2\<rfloor> / 10 ^ 5"

fun numeric_fits :: "decimal option \<Rightarrow> bool" where
  "numeric_fits None = True"
| "numeric_fits (Some x) = (\<bar>numeric_6_5 x\<bar> < 10)"

definition ratios_fit :: "ConsensusRunRecord \<Rightarrow> bool" where
  "ratios_fit r = (numeric_fits (rr_support r) \<and> numeric_fits (rr_dissent r) \<and> numeric_fits (rr_abstention r) \<and>
     numeric_fits (rr_coverage r))"

definition stored :: "ConsensusRunRecord \<Rightarrow> ConsensusRunRecord" where
  "stored r = r\<lparr>rr_support := map_option numeric_6_5 (rr_support r), rr_dissent := map_option numeric_6_5 (rr_dissent r),
     rr_abstention := map_option numeric_6_5 (rr_abstention r), rr_coverage := map_option numeric_6_5 (rr_coverage r)\<rparr>"

definition add_result :: "consensus_db \<Rightarrow> ConsensusRunRecord \<Rightarrow> consensus_db result" where
  "add_result db r =
     (if \<not> ratios_fit r then Inl (DataError ''consensus_results'')
      else if row_admissible db r then Inr (db\<lparr>cd_results := cd_results db @ [stored r]\<rparr>)
      else Inl (IntegrityError ''consensus_results''))"

definition get_result :: "consensus_db \<Rightarrow> uuid \<Rightarrow> uuid \<Rightarrow> ConsensusRunRecord option" where
  "get_result db ws rid = find (\<lambda>r. rr_workspace_id r = ws \<and> rr_id r = rid) (cd_results db)"

definition list_results ::
  "consensus_db \<Rightarrow> uuid \<Rightarrow> uuid \<Rightarrow> string option \<Rightarrow> ConsensusRunRecord list" where
  "list_results db ws sess strategy = sort_key rr_round (sort_key rr_id
     (filter (\<lambda>r. rr_workspace_id r = ws \<and> rr_session_id r = sess \<and>
        (case strategy of None \<Rightarrow> True | Some n \<Rightarrow> rr_strategy r = n)) (cd_results db)))"

definition get_round_result ::
  "consensus_db \<Rightarrow> uuid \<Rightarrow> uuid \<Rightarrow> int \<Rightarrow> ConsensusRunRecord option result" where
  "get_round_result db ws sess round' =
     (if round' < 1 then Inl (ValueError ''round must be a positive number'')
      else Inr (case sort_key rr_id (filter (\<lambda>r. rr_workspace_id r = ws \<and> rr_session_id r = sess \<and>
                  rr_round r = round') (cd_results db)) of
             [] \<Rightarrow> None | r # _ \<Rightarrow> Some r))"

definition add_explanation ::
  "consensus_db \<Rightarrow> uuid \<Rightarrow> uuid \<Rightarrow> ConsensusExplanation \<Rightarrow> consensus_db result" where
  "add_explanation db ws rid e =
     (if (ws, rid) \<in> set (map (\<lambda>r. (rr_workspace_id r, rr_id r)) (cd_results db)) \<and>
         rid \<notin> set (map (fst \<circ> snd) (cd_explanations db))
      then Inr (db\<lparr>cd_explanations := cd_explanations db @ [(ws, rid, e)]\<rparr>)
      else Inl (IntegrityError ''consensus_explanations''))"

definition get_explanation :: "consensus_db \<Rightarrow> uuid \<Rightarrow> uuid \<Rightarrow> ConsensusExplanation option" where
  "get_explanation db ws rid =
     map_option (snd \<circ> snd) (find (\<lambda>(w, i, _). w = ws \<and> i = rid) (cd_explanations db))"

subsection \<open>The orchestrator\<close>

definition run_record :: "uuid \<Rightarrow> int \<Rightarrow> ConsensusResult \<Rightarrow> ConsensusRunRecord" where
  "run_record ws now r =
     \<lparr>rr_id = rs_result_id r, rr_workspace_id = ws, rr_session_id = rs_session_id r,
      rr_round = rs_round r, rr_strategy = rs_strategy r, rr_strategy_version = rs_strategy_version r,
      rr_outcome = rs_outcome r, rr_selected_alternative_id = rs_selected_alternative_id r,
      rr_pareto_set = rs_pareto_set r, rr_support = rs_support r, rr_dissent = rs_dissent_ratio r,
      rr_abstention = rs_abstention_ratio r, rr_coverage = None,
      rr_blocking_constraints = rs_blocking_constraints r,
      rr_blocking_critiques = rs_blocking_critiques r, rr_conditions = rs_conditions r,
      rr_input_hash = rs_input_hash r, rr_created_at = now\<rparr>"

definition mk_run_record :: "uuid \<Rightarrow> int \<Rightarrow> ConsensusResult \<Rightarrow> ConsensusRunRecord result" where
  "mk_run_record ws now r = (let rec = run_record ws now r in
     if ConsensusRunRecord_valid rec then Inr rec else Inl (ValueError ''ConsensusRunRecord''))"

text \<open>
  The try block: a \<^verbatim>\<open>ConsensusError\<close> passes, every other exception is wrapped. The text of the
  wrapped exception, which the source appends to the message, is left out.
\<close>

fun wrap_failure :: "strategy_obj \<Rightarrow> py_error \<Rightarrow> py_error" where
  "wrap_failure s (ConsensusError m) = ConsensusError m"
| "wrap_failure s e = ConsensusError (''strategy '' @ so_name s @ ''@'' @ so_version s @ '' failed'')"

definition guarded_evaluate ::
  "strategy_obj \<Rightarrow> string \<Rightarrow> uuid \<Rightarrow> ConsensusContext \<Rightarrow> ConsensusResult result" where
  "guarded_evaluate s hash fresh cx = (case so_evaluate s hash fresh cx of
     Inl e \<Rightarrow> Inl (wrap_failure s e) | Inr r \<Rightarrow> Inr r)"

definition orchestrator_run ::
  "registry \<Rightarrow> string \<Rightarrow> uuid \<Rightarrow> int \<Rightarrow> consensus_db \<Rightarrow> uuid \<Rightarrow> ConsensusContext
   \<Rightarrow> (consensus_db \<times> ConsensusResult) result" where
  "orchestrator_run reg hash fresh now db ws cx =
     ebind (resolve reg (sc_strategy_name (cx_strategy_config cx))
              (sc_strategy_version (cx_strategy_config cx))) (\<lambda>s.
     ebind (guarded_evaluate s hash fresh cx) (\<lambda>r.
     let explanation = so_explain s r in
     ebind (mk_run_record ws now r) (\<lambda>rec.
     ebind (add_result db rec) (\<lambda>db'.
     ebind (add_explanation db' ws (rs_result_id r) explanation) (\<lambda>db''.
     Inr (db'', r))))))"

definition strategy_key :: "strategy_obj \<Rightarrow> string \<times> string" where
  "strategy_key s = (so_name s, so_version s)"

definition registrable :: "string set option \<Rightarrow> strategy_obj \<Rightarrow> bool" where
  "registrable documented s = (so_name s \<noteq> [] \<and> so_version s \<noteq> [] \<and>
     (\<forall>D. documented = Some D \<longrightarrow> so_name s \<in> D))"

definition store_wf :: "consensus_db \<Rightarrow> bool" where
  "store_wf db =
     (distinct (map rr_id (cd_results db)) \<and> distinct (map run_key (cd_results db)) \<and>
      distinct (map (fst \<circ> snd) (cd_explanations db)) \<and>
      (\<forall>r \<in> set (cd_results db). 1 \<le> rr_round r \<and> selection_feasibility r \<and>
         is_sha256 (rr_input_hash r) \<and> (rr_workspace_id r, rr_session_id r) \<in> set (cd_sessions db)) \<and>
      (\<forall>(w, i, e) \<in> set (cd_explanations db). get_result db w i \<noteq> None))"

definition engine_error :: "py_error \<Rightarrow> bool" where
  "engine_error e = (case e of ConsensusError _ \<Rightarrow> True | IntegrityError _ \<Rightarrow> True | _ \<Rightarrow> False)"



subsection \<open>Registration and resolution\<close>

lemma required_Inr [result_simps]: "required v l = Inr w \<longleftrightarrow> w = v \<and> v \<noteq> []"
  by (auto simp: required_def)

lemma register_step_Inr:
  "register_step D reg s = Inr reg' \<longleftrightarrow>
     registrable D s \<and> strategy_key s \<notin> fst ` set reg \<and> reg' = reg @ [(strategy_key s, s)]"
  by (auto simp: register_step_def registrable_def strategy_key_def result_simps map_of_eq_None_iff
      split: option.splits)

lemma register_fold:
  "efold (register_step D) reg0 ss = Inr reg \<longleftrightarrow>
     list_all (registrable D) ss \<and> distinct (map strategy_key ss) \<and>
     strategy_key ` set ss \<inter> fst ` set reg0 = {} \<and> reg = reg0 @ map (\<lambda>s. (strategy_key s, s)) ss"
  by (induction ss arbitrary: reg0) (auto simp: result_simps register_step_Inr)

lemma registry_iff:
  "StrategyRegistry ss D = Inr reg \<longleftrightarrow>
     list_all (registrable D) ss \<and> distinct (map strategy_key ss) \<and> reg = map (\<lambda>s. (strategy_key s, s)) ss"
  by (auto simp: StrategyRegistry_def register_fold)

lemma resolve_registered:
  assumes "StrategyRegistry ss D = Inr reg"
  shows "resolve reg n v = Inr s \<longleftrightarrow> s \<in> set ss \<and> so_name s = n \<and> so_version s = v"
proof -
  have reg: "distinct (map strategy_key ss)" "reg = map (\<lambda>s. (strategy_key s, s)) ss"
    using assms by (auto simp: registry_iff)
  then have "distinct (map fst reg)" by (simp add: comp_def)
  then have "map_of reg (n, v) = Some s \<longleftrightarrow> ((n, v), s) \<in> set reg" by (rule map_of_eq_Some_iff)
  also have "\<dots> \<longleftrightarrow> s \<in> set ss \<and> so_name s = n \<and> so_version s = v"
    unfolding reg(2) by (auto simp: strategy_key_def)
  finally show ?thesis by (auto simp: resolve_def split: option.splits)
qed

subsection \<open>The contract of a strategy and of a result store\<close>

lemma unit_fits: "opt_unit x \<Longrightarrow> numeric_fits x"
proof (cases x)
  fix v assume "opt_unit x" "x = Some v"
  then have v: "0 \<le> v" "v \<le> 1" by simp_all
  have "0 \<le> \<lfloor>\<bar>v\<bar> * 10 ^ 5 + 1 / 2\<rfloor>" "\<lfloor>\<bar>v\<bar> * 10 ^ 5 + 1 / 2\<rfloor> \<le> 100000"
    using v by (simp_all add: floor_le_iff)
  then have "0 \<le> rat_of_int \<lfloor>\<bar>v\<bar> * 10 ^ 5 + 1 / 2\<rfloor>" "rat_of_int \<lfloor>\<bar>v\<bar> * 10 ^ 5 + 1 / 2\<rfloor> \<le> 100000" by linarith+
  then have "\<bar>numeric_6_5 v\<bar> \<le> 1" by (auto simp: numeric_6_5_def sgn_if)
  then show ?thesis using \<open>x = Some v\<close> by simp
qed simp

locale consensus_strategy =
  fixes eval :: "string \<Rightarrow> uuid \<Rightarrow> ConsensusContext \<Rightarrow> ConsensusResult result"
    and name :: string and version :: string
  assumes outcome_law: "eval h f cx = Inr r \<Longrightarrow> outcome_lawful cx r"
    and report_law: "eval h f cx = Inr r \<Longrightarrow> report_lawful cx r"
    and identity_law: "eval h f cx = Inr r \<Longrightarrow> identity_lawful name version h f cx r"
    and valid_law: "eval h f cx = Inr r \<Longrightarrow> ConsensusResult_valid r"
    and ranking_law: "eval h f cx = Inr r \<Longrightarrow> ConsensusContext_valid cx \<Longrightarrow> ranking_lawful r"
begin

lemma selected_feasible:
  assumes "eval h f cx = Inr r" "rs_selected_alternative_id r = Some a"
  shows "feasible cx a"
  using outcome_law [OF assms(1)] assms(2) by (simp add: outcome_lawful_def)

lemma record_valid:
  assumes "eval h f cx = Inr r"
  shows "ConsensusRunRecord_valid (run_record ws now r)"
  using valid_law [OF assms]
  by (simp add: ConsensusRunRecord_valid_def ConsensusResult_valid_def run_record_def
      selection_feasibility_def result_invariants_def)

lemma record_fits:
  assumes "eval h f cx = Inr r"
  shows "ratios_fit (run_record ws now r)"
  using valid_law [OF assms] by (simp add: ratios_fit_def run_record_def ConsensusResult_valid_def unit_fits)

lemma record_key:
  assumes "eval h f cx = Inr r"
  shows "run_key (run_record ws now r) = (cx_session_id cx, cx_round cx, name, version)"
  using identity_law [OF assms] by (simp add: run_key_def run_record_def identity_lawful_def)

lemma leader_wins:
  assumes "eval h f cx = Inr r" "ConsensusContext_valid cx" "rs_selected_alternative_id r = Some a"
    "s \<in> set (rs_scores r)" "rs_pareto_set r = []"
  obtains t where "t \<in> set (rs_scores r)" "as_alternative_id t = a" "rank_value s \<le> rank_value t"
proof (cases "rs_scores r")
  case (Cons t rest)
  with ranking_law [OF assms(1,2)] assms(3-5) that [of t] show ?thesis
    by (auto simp: ranking_lawful_def)
qed (use assms(4) in simp)

end

interpretation weighted: consensus_strategy weighted_evaluate weighted_name weighted_version
  using evaluate_lawful [of Weighted] evaluate_identity [of Weighted] evaluate_ranking [of Weighted]
  by unfold_locales simp_all

interpretation evidence: consensus_strategy evidence_evaluate evidence_name evidence_version
  using evaluate_lawful [of EvidenceWeighted] evaluate_identity [of EvidenceWeighted]
    evaluate_ranking [of EvidenceWeighted]
  by unfold_locales simp_all

interpretation constraint: consensus_strategy constraint_evaluate constraint_name constraint_version
  using evaluate_lawful [of ConstraintAware] evaluate_identity [of ConstraintAware]
    evaluate_ranking [of ConstraintAware]
  by unfold_locales simp_all

interpretation family: consensus_strategy "evaluate s" "strategy_name s" "strategy_version s" for s
  using evaluate_lawful [of s] evaluate_identity [of s] evaluate_ranking [of s]
  by unfold_locales simp_all

text \<open>A store gives back what it keeps of a record, which it keeps under the record's own identifiers.\<close>

locale result_store =
  fixes keep :: "ConsensusRunRecord \<Rightarrow> ConsensusRunRecord"
    and add :: "'db \<Rightarrow> ConsensusRunRecord \<Rightarrow> 'db result"
    and get :: "'db \<Rightarrow> uuid \<Rightarrow> uuid \<Rightarrow> ConsensusRunRecord option"
    and addx :: "'db \<Rightarrow> uuid \<Rightarrow> uuid \<Rightarrow> ConsensusExplanation \<Rightarrow> 'db result"
    and getx :: "'db \<Rightarrow> uuid \<Rightarrow> uuid \<Rightarrow> ConsensusExplanation option"
  assumes get_add: "add db r = Inr db' \<Longrightarrow> get db' ws i =
      (if ws = rr_workspace_id r \<and> i = rr_id r then Some (keep r) else get db ws i)"
    and getx_add: "add db r = Inr db' \<Longrightarrow> getx db' ws i = getx db ws i"
    and getx_addx: "addx db w j e = Inr db' \<Longrightarrow> getx db' ws i =
      (if ws = w \<and> i = j then Some e else getx db ws i)"
    and get_addx: "addx db w j e = Inr db' \<Longrightarrow> get db' ws i = get db ws i"
begin

lemma persist_both:
  assumes "ebind (add db r) (\<lambda>db'. addx db' (rr_workspace_id r) (rr_id r) e) = Inr db''"
  shows "get db'' ws i = (if ws = rr_workspace_id r \<and> i = rr_id r then Some (keep r) else get db ws i)"
    and "getx db'' ws i = (if ws = rr_workspace_id r \<and> i = rr_id r then Some e else getx db ws i)"
  using assms by (auto simp: result_simps get_add getx_add get_addx getx_addx)

end

lemma find_append_new:
  "find P (xs @ [x]) = (case find P xs of None \<Rightarrow> if P x then Some x else None | Some y \<Rightarrow> Some y)"
  by (induction xs) auto

lemma stored_simps [simp]:
  "rr_id (stored r) = rr_id r" "rr_workspace_id (stored r) = rr_workspace_id r" "rr_session_id (stored r) = rr_session_id r"
  "rr_round (stored r) = rr_round r" "rr_input_hash (stored r) = rr_input_hash r" "run_key (stored r) = run_key r"
  "selection_feasibility (stored r) = selection_feasibility r"
  by (simp_all add: stored_def run_key_def selection_feasibility_def)

interpretation store: result_store stored add_result get_result add_explanation get_explanation
proof (unfold_locales, goal_cases)
  case (1 db r db' ws i)
  then have new: "rr_id r \<notin> set (map rr_id (cd_results db))" "db' = db\<lparr>cd_results := cd_results db @ [stored r]\<rparr>"
    by (auto simp: add_result_def row_admissible_def split: if_splits)
  have "find (\<lambda>q. rr_workspace_id q = ws \<and> rr_id q = rr_id r) (cd_results db) = None"
    using new(1) by (auto simp: find_None_iff image_iff)
  then show ?case unfolding get_result_def new(2)
    by (auto simp: find_append_new split: option.splits)
next
  case (2 db r db' ws i)
  then show ?case by (auto simp: add_result_def get_explanation_def split: if_splits)
next
  case (3 db w j e db' ws i)
  then have new: "j \<notin> (fst \<circ> snd) ` set (cd_explanations db)"
    "db' = db\<lparr>cd_explanations := cd_explanations db @ [(w, j, e)]\<rparr>"
    by (auto simp: add_explanation_def split: if_splits)
  have "find (\<lambda>(v, k, _). v = ws \<and> k = j) (cd_explanations db) = None"
    using new(1) by (auto simp: find_None_iff image_iff)
  then show ?case unfolding get_explanation_def new(2)
    by (auto simp: find_append_new split: option.splits)
next
  case (4 db w j e db' ws i)
  then show ?case by (auto simp: add_explanation_def get_result_def split: if_splits)
qed

subsection \<open>The orchestrator\<close>

lemma guarded_evaluate_Inr [result_simps]:
  "guarded_evaluate s h f cx = Inr r \<longleftrightarrow> so_evaluate s h f cx = Inr r"
  by (auto simp: guarded_evaluate_def split: sum.splits)

lemma mk_run_record_Inr [result_simps]:
  "mk_run_record ws now r = Inr x \<longleftrightarrow> x = run_record ws now r \<and> ConsensusRunRecord_valid x"
  by (auto simp: mk_run_record_def Let_def)

lemma run_record_keys [simp]:
  "rr_workspace_id (run_record ws now r) = ws" "rr_id (run_record ws now r) = rs_result_id r"
  by (simp_all add: run_record_def)

lemma orchestrator_runE:
  assumes "orchestrator_run reg h f now db ws cx = Inr (db', r)"
  obtains s where "resolve reg (sc_strategy_name (cx_strategy_config cx))
      (sc_strategy_version (cx_strategy_config cx)) = Inr s" "so_evaluate s h f cx = Inr r"
    "ConsensusRunRecord_valid (run_record ws now r)"
    "ebind (add_result db (run_record ws now r)) (\<lambda>db'. add_explanation db'
       (rr_workspace_id (run_record ws now r)) (rr_id (run_record ws now r)) (so_explain s r)) = Inr db'"
  using assms
  by (auto simp: orchestrator_run_def Let_def result_simps)

lemma run_persists:
  assumes "orchestrator_run reg h f now db ws cx = Inr (db', r)"
  shows "get_result db' w i =
      (if w = ws \<and> i = rs_result_id r then Some (stored (run_record ws now r)) else get_result db w i)"
    "\<exists>s. resolve reg (sc_strategy_name (cx_strategy_config cx))
        (sc_strategy_version (cx_strategy_config cx)) = Inr s \<and> so_evaluate s h f cx = Inr r \<and>
      get_explanation db' w i =
      (if w = ws \<and> i = rs_result_id r then Some (so_explain s r) else get_explanation db w i)"
proof -
  obtain s where s: "resolve reg (sc_strategy_name (cx_strategy_config cx))
      (sc_strategy_version (cx_strategy_config cx)) = Inr s" "so_evaluate s h f cx = Inr r"
    and p: "ebind (add_result db (run_record ws now r)) (\<lambda>db'. add_explanation db'
       (rr_workspace_id (run_record ws now r)) (rr_id (run_record ws now r)) (so_explain s r)) = Inr db'"
    using assms by (rule orchestrator_runE)
  show "get_result db' w i =
      (if w = ws \<and> i = rs_result_id r then Some (stored (run_record ws now r)) else get_result db w i)"
    using store.persist_both(1) [OF p, of w i] by simp
  show "\<exists>s. resolve reg (sc_strategy_name (cx_strategy_config cx))
        (sc_strategy_version (cx_strategy_config cx)) = Inr s \<and> so_evaluate s h f cx = Inr r \<and>
      get_explanation db' w i =
      (if w = ws \<and> i = rs_result_id r then Some (so_explain s r) else get_explanation db w i)"
    using store.persist_both(2) [OF p, of w i] s by auto
qed

lemma store_wf_add_result:
  assumes "add_result db r = Inr db'" "store_wf db"
  shows "store_wf db'"
proof -
  have r: "row_admissible db r" "db' = db\<lparr>cd_results := cd_results db @ [stored r]\<rparr>"
    using assms(1) by (auto simp: add_result_def split: if_splits)
  have "get_result db' w i \<noteq> None" if "get_result db w i \<noteq> None" for w i
    using store.get_add [OF assms(1)] that by simp
  with assms(2) r show ?thesis by (auto simp: store_wf_def row_admissible_def)
qed

lemma get_result_exists:
  "get_result db w i \<noteq> None \<longleftrightarrow> (w, i) \<in> (\<lambda>r. (rr_workspace_id r, rr_id r)) ` set (cd_results db)"
  unfolding get_result_def find_None_iff by auto

lemma store_wf_add_explanation:
  assumes "add_explanation db w i e = Inr db'" "store_wf db"
  shows "store_wf db'"
proof -
  have a: "(w, i) \<in> (\<lambda>r. (rr_workspace_id r, rr_id r)) ` set (cd_results db)"
      "i \<notin> (fst \<circ> snd) ` set (cd_explanations db)"
    and db': "db' = db\<lparr>cd_explanations := cd_explanations db @ [(w, i, e)]\<rparr>"
    using assms(1) by (auto simp: add_explanation_def split: if_splits)
  from a(1) have "get_result db w i \<noteq> None" unfolding get_result_exists .
  with a(2) assms(2) show ?thesis
    unfolding store_wf_def store.get_addx [OF assms(1)] by (auto simp: db')
qed

lemma run_store_wf:
  assumes "orchestrator_run reg h f now db ws cx = Inr (db', r)" "store_wf db"
  shows "store_wf db'"
  using assms
  by (elim orchestrator_runE) (auto simp: result_simps dest: store_wf_add_result store_wf_add_explanation)

lemma resolve_family:
  assumes "StrategyRegistry (map strategy_object ss) D = Inr reg" "resolve reg n v = Inr so"
  obtains s where "s \<in> set ss" "so = strategy_object s" "strategy_name s = n" "strategy_version s = v"
  using resolve_registered [OF assms(1)] assms(2) by (auto simp: strategy_object_def)

lemma run_record_of_family:
  assumes "StrategyRegistry (map strategy_object ss) D = Inr reg"
    and "orchestrator_run reg h f now db ws cx = Inr (db', r)"
  obtains s where "s \<in> set ss" "strategy_name s = sc_strategy_name (cx_strategy_config cx)"
    "strategy_version s = sc_strategy_version (cx_strategy_config cx)" "evaluate s h f cx = Inr r"
    "get_explanation db' ws f = Some (explain s r)" "rs_result_id r = f"
proof -
  obtain so where so: "resolve reg (sc_strategy_name (cx_strategy_config cx))
        (sc_strategy_version (cx_strategy_config cx)) = Inr so" "so_evaluate so h f cx = Inr r"
      "get_explanation db' ws (rs_result_id r) = Some (so_explain so r)"
    using run_persists(2) [OF assms(2), of ws "rs_result_id r"] by auto
  obtain s where s: "s \<in> set ss" "so = strategy_object s" "strategy_name s = sc_strategy_name (cx_strategy_config cx)"
      "strategy_version s = sc_strategy_version (cx_strategy_config cx)"
    using assms(1) so(1) by (rule resolve_family)
  have ev: "evaluate s h f cx = Inr r" using so(2) s(2) by (simp add: strategy_object_def)
  then have "rs_result_id r = f" using family.identity_law by (simp add: identity_lawful_def)
  with so(3) s ev that show ?thesis by (simp add: strategy_object_def)
qed

lemma engine_errors:
  "resolve reg n v = Inl e \<Longrightarrow> engine_error e"
  "guarded_evaluate so h f cx = Inl e \<Longrightarrow> engine_error e"
  "add_result db r = Inl e \<Longrightarrow> ratios_fit r \<Longrightarrow> engine_error e"
  "add_explanation db w i ex = Inl e \<Longrightarrow> engine_error e"
proof -
  have w: "engine_error (wrap_failure so x)" for x by (cases x) (auto simp: engine_error_def)
  show "guarded_evaluate so h f cx = Inl e \<Longrightarrow> engine_error e"
    using w by (auto simp: guarded_evaluate_def split: sum.splits)
qed (auto simp: resolve_def add_result_def add_explanation_def engine_error_def
      split: option.splits if_splits)

lemma run_errors:
  assumes "StrategyRegistry (map strategy_object ss) D = Inr reg"
    and "orchestrator_run reg h f now db ws cx = Inl e"
  shows "engine_error e"
proof -
  have v: "mk_run_record ws now r \<noteq> Inl x" "ratios_fit (run_record ws now r)"
    if so: "resolve reg n v = Inr so" "so_evaluate so h f cx = Inr r" for n v so r x
  proof -
    obtain s where "so = strategy_object s" using assms(1) so(1) by (rule resolve_family)
    with so(2) have "evaluate s h f cx = Inr r" by (simp add: strategy_object_def)
    then show "mk_run_record ws now r \<noteq> Inl x" "ratios_fit (run_record ws now r)"
      using family.record_valid family.record_fits by (simp_all add: mk_run_record_def Let_def)
  qed
  from assms(2) show ?thesis
    unfolding orchestrator_run_def Let_def ebind_eq_Inl_iff guarded_evaluate_Inr
    using v by (elim disjE exE conjE) (auto simp: mk_run_record_Inr dest: engine_errors)
qed

end
