(* ===== verification/Consensus_Properties.thy ===== *)
theory Consensus_Properties
  imports Consensus_Engine
begin

text \<open>
  The properties of the consensus component: what an evaluation by any of the three strategies
  guarantees, that it returns, and what the registry, the orchestrator and the result store keep.
  The sample inputs at the start are the concrete contexts at which the conditional properties are
  instantiated.
\<close>

subsection \<open>Thresholds of a configuration\<close>



subsection \<open>Sample inputs\<close>

definition sample_hash :: string where
  "sample_hash = ''sha256:'' @ replicate 64 (CHR ''0'')"

definition sample_position :: "uuid \<Rightarrow> uuid \<Rightarrow> string \<Rightarrow> AgentPosition" where
  "sample_position agent alt stance =
     \<lparr>ap_agent_id = agent, ap_agent_definition_version = ''1'', ap_alternative_id = alt,
      ap_stance = stance, ap_confidence = 9 / 10, ap_rationale = [], ap_evidence_ids = []\<rparr>"

definition sample_context ::
  "FeasibilityVerdict list \<Rightarrow> AgentPosition list \<Rightarrow> string \<Rightarrow> params \<Rightarrow> ConsensusContext" where
  "sample_context verdicts ps name params =
     \<lparr>cx_session_id = 1, cx_round = 1,
      cx_alternatives = [\<lparr>al_alternative_id = 10, al_name = ''A''\<rparr>, \<lparr>al_alternative_id = 11, al_name = ''B''\<rparr>],
      cx_propositions = [], cx_agent_positions = ps, cx_evidence = [], cx_assumptions = [],
      cx_critiques = [],
      cx_objectives = [\<lparr>ob_objective_id = 20, ob_name = ''cost'', ob_weight = 1,
                        ob_direction = ''MAX'', ob_conflicts_with = []\<rparr>],
      cx_constraints = [], cx_feasibility = verdicts,
      cx_strategy_config = \<lparr>sc_strategy_name = name, sc_strategy_version = ''1.0.0'',
                            sc_parameters = params\<rparr>,
      cx_objective_values = [(uuid_str 20, [(uuid_str 10, ''0.5''), (uuid_str 11, ''0.5'')])]\<rparr>"

definition unsat_verdict :: "uuid \<Rightarrow> FeasibilityVerdict" where
  "unsat_verdict a = \<lparr>fv_alternative_id = a, fv_status = UNSAT, fv_unsat_core = [''c1''],
     fv_witness = None, fv_reason_unknown = None\<rparr>"

definition sample_run :: "ConsensusContext" where
  "sample_run = sample_context [unsat_verdict 11]
     [sample_position 1 10 ''SUPPORT'', sample_position 2 11 ''OPPOSE'', sample_position 3 10 ''OPPOSE'']
     ''weighted'' []"

definition sample_blocked :: "ConsensusContext" where
  "sample_blocked = sample_context [unsat_verdict 10, unsat_verdict 11]
     [sample_position 1 10 ''SUPPORT'', sample_position 2 11 ''OPPOSE''] ''weighted'' []"

definition sample_negative_margin :: "ConsensusContext" where
  "sample_negative_margin = sample_context [] [] ''constraint_aware''
     [(''epsilon'', PStr ''-1''), (''allow_unevidenced'', PBool True)]"

definition sample_values :: "uuid \<Rightarrow> (uuid \<rightharpoonup> decimal)" where
  "sample_values a = (if a = 10 then [20 \<mapsto> 1] else [20 \<mapsto> 0])"

definition sample_db :: consensus_db where
  "sample_db = \<lparr>cd_sessions = [(3, 1)], cd_artifacts = [(3, 1, 10)], cd_results = [], cd_explanations = []\<rparr>"

definition sample_registry :: registry where
  "sample_registry = map (\<lambda>s. ((so_name s, so_version s), s))
     (map strategy_object [Weighted, EvidenceWeighted, ConstraintAware])"

text \<open>The states of the result store its operations reach from an empty one.\<close>

inductive store_reachable :: "(uuid \<times> uuid) list \<Rightarrow> (uuid \<times> uuid \<times> uuid) list \<Rightarrow> consensus_db \<Rightarrow> bool"
  for sessions artifacts where
  empty: "store_reachable sessions artifacts
     \<lparr>cd_sessions = sessions, cd_artifacts = artifacts, cd_results = [], cd_explanations = []\<rparr>"
| result: "store_reachable sessions artifacts db \<Longrightarrow> add_result db r = Inr db' \<Longrightarrow>
     store_reachable sessions artifacts db'"
| explanation: "store_reachable sessions artifacts db \<Longrightarrow> add_explanation db ws i e = Inr db' \<Longrightarrow>
     store_reachable sessions artifacts db'"


lemma sample_run_evaluable: "evaluable s sample_run"
proof (cases s)
  case Weighted
  show ?thesis unfolding Weighted by code_simp
next
  case EvidenceWeighted
  show ?thesis unfolding EvidenceWeighted by code_simp
next
  case ConstraintAware
  show ?thesis unfolding ConstraintAware by code_simp
qed

lemma sample_run_valid: "ConsensusContext_valid sample_run"
  using sample_run_evaluable by (simp add: evaluable_def)

lemma sample_weighted:
  "map_sum id (\<lambda>r. (rs_outcome r, rs_selected_alternative_id r, rs_result_id r, rs_pareto_set r))
     (evaluate Weighted sample_hash 5 sample_run) = Inr (PARTIAL_CONSENSUS, Some 10, 5, [])"
  by code_simp

lemma sample_weightedE:
  obtains r where "evaluate Weighted sample_hash 5 sample_run = Inr r" "rs_outcome r = PARTIAL_CONSENSUS"
    "rs_selected_alternative_id r = Some 10" "rs_pareto_set r = []"
  using sample_weighted by (cases "evaluate Weighted sample_hash 5 sample_run") auto

text \<open>Where the code and the documentation of the outcomes differ.\<close>

definition unknown_verdict :: "uuid \<Rightarrow> FeasibilityVerdict" where
  "unknown_verdict a = \<lparr>fv_alternative_id = a, fv_status = UNKNOWN, fv_unsat_core = [],
     fv_witness = None, fv_reason_unknown = Some ''timeout''\<rparr>"

definition sample_abstain :: "ConsensusContext" where
  "sample_abstain = sample_context [unsat_verdict 11]
     [sample_position 1 10 ''ABSTAIN'', sample_position 2 10 ''ABSTAIN'', sample_position 2 11 ''OPPOSE''] ''weighted'' []"

definition sample_unknown :: "ConsensusContext" where
  "sample_unknown = sample_context [unknown_verdict 10, unsat_verdict 11]
     [sample_position 1 10 ''OPPOSE'', sample_position 2 10 ''OPPOSE''] ''weighted'' []"

lemma all_abstain_no_consensus:
  "evaluable Weighted sample_abstain \<and>
   map_sum id (\<lambda>r. (rs_outcome r, rs_support r)) (evaluate Weighted sample_hash 5 sample_abstain) = Inr (NO_CONSENSUS, Some 0)"
  by code_simp

lemma unknown_leader_raised:
  "evaluable Weighted sample_unknown \<and>
   map_sum id (\<lambda>r. (rs_outcome r, rs_support r, rs_selected_alternative_id r)) (evaluate Weighted sample_hash 5 sample_unknown) =
     Inr (CONDITIONAL_CONSENSUS, Some 0, Some 10)"
  by code_simp

lemma minority_leaves_out:
  "map_sum id (\<lambda>r. (map de_agent_id (rs_dissent r), map me_agent_id (rs_minority_report r))) (evaluate Weighted sample_hash 5 sample_abstain) =
     Inr ([1, 2], [])"
  by code_simp


subsection \<open>Evaluation\<close>



text \<open>
  C2. An infeasible alternative is never selected: a selected alternative is one of the context's,
  its verdict is not UNSAT, and when its verdict is UNKNOWN the outcome is CONDITIONAL_CONSENSUS,
  otherwise FULL_CONSENSUS or PARTIAL_CONSENSUS.
\<close>

theorem selected_never_infeasible:
  assumes "evaluate s h f cx = Inr r" and "rs_selected_alternative_id r = Some a"
  shows "(\<exists>alt \<in> set (cx_alternatives cx). al_alternative_id alt = a) \<and>
    alt_status (cx_feasibility cx) a \<noteq> Some UNSAT \<and>
    rs_outcome r \<in> (if alt_status (cx_feasibility cx) a = Some UNKNOWN
      then {CONDITIONAL_CONSENSUS} else {FULL_CONSENSUS, PARTIAL_CONSENSUS})"
  using family.selected_feasible [OF assms] family.outcome_law [OF assms(1)] assms(2)
  by (auto simp: feasible_def outcome_lawful_def unknown_alt_def)

theorem selected_never_infeasible_witness:
  "\<exists>r. evaluate Weighted sample_hash 5 sample_run = Inr r \<and> rs_selected_alternative_id r = Some 10 \<and>
    alt_status (cx_feasibility sample_run) 10 \<noteq> Some UNSAT"
  using selected_never_infeasible by (metis sample_weightedE)

text \<open>
  The outcome is INFEASIBLE exactly when the feasibility verdict of every alternative is UNSAT.
\<close>

theorem infeasible_iff_all_unsat:
  assumes "evaluate s h f cx = Inr r"
  shows "rs_outcome r = INFEASIBLE \<longleftrightarrow>
    (\<forall>alt \<in> set (cx_alternatives cx). alt_status (cx_feasibility cx) (al_alternative_id alt) = Some UNSAT)"
  using family.outcome_law [OF assms]
  by (auto simp: outcome_lawful_def feasible_alternatives_def filter_empty_conv)

theorem infeasible_iff_all_unsat_witness:
  "\<exists>r. evaluate Weighted sample_hash 5 sample_run = Inr r \<and> rs_outcome r \<noteq> INFEASIBLE \<and>
    \<not> (\<forall>alt \<in> set (cx_alternatives sample_run).
        alt_status (cx_feasibility sample_run) (al_alternative_id alt) = Some UNSAT)"
  using infeasible_iff_all_unsat by (metis sample_weightedE ConsensusOutcome.distinct(15,25))






text \<open>
  C24. The score rows of a result name distinct alternatives, all feasible, with ranks 1 to n in order;
  outside a Pareto frontier they stand in descending order of their rank score, and a selected
  alternative is the first row, whose support is the support of the result.
\<close>

theorem ranking_is_ordered:
  assumes "evaluate s h f cx = Inr r" and "ConsensusContext_valid cx"
  shows "distinct (map as_alternative_id (rs_scores r)) \<and>
    (\<forall>x \<in> set (rs_scores r). feasible cx (as_alternative_id x)) \<and>
    map as_rank (rs_scores r) = map int [1..<Suc (length (rs_scores r))] \<and>
    (rs_pareto_set r = [] \<longrightarrow> sorted_wrt (\<lambda>x y. rank_value y \<le> rank_value x) (rs_scores r)) \<and>
    (\<forall>a. rs_selected_alternative_id r = Some a \<longrightarrow> rs_scores r \<noteq> [] \<and>
       as_alternative_id (hd (rs_scores r)) = a \<and> rs_support r = Some (as_support (hd (rs_scores r))))"
  using family.ranking_law [OF assms] family.report_law [OF assms(1)]
  by (auto simp: ranking_lawful_def report_lawful_def)

theorem ranking_is_ordered_witness:
  "\<exists>r. evaluate Weighted sample_hash 5 sample_run = Inr r \<and> rs_scores r \<noteq> [] \<and>
    as_alternative_id (hd (rs_scores r)) = 10"
proof -
  obtain r where r: "evaluate Weighted sample_hash 5 sample_run = Inr r" "rs_selected_alternative_id r = Some 10"
    by (rule sample_weightedE)
  from ranking_is_ordered [OF r(1) sample_run_valid] r show ?thesis by auto
qed

text \<open>
  C12. Unless every alternative is infeasible, the dissent of a result holds exactly the positions on
  feasible alternatives that are OPPOSE, ABSTAIN or INSUFFICIENT_EVIDENCE, with agent, stance and
  evidence, and its minority report exactly those of them that are OPPOSE or INSUFFICIENT_EVIDENCE,
  with every unresolved critique. So an abstaining agent is in the dissent but not in the minority
  report, and a position on an infeasible alternative is in neither (\<open>minority_leaves_out\<close>).
\<close>

theorem dissent_is_preserved:
  assumes "evaluate s h f cx = Inr r" and "rs_outcome r \<noteq> INFEASIBLE"
  shows "(\<forall>p \<in> set (cx_agent_positions cx). feasible cx (ap_alternative_id p) \<longrightarrow>
      (ap_stance p \<in> {''OPPOSE'', ''ABSTAIN'', ''INSUFFICIENT_EVIDENCE''} \<longrightarrow>
        (\<exists>d \<in> set (rs_dissent r). de_agent_id d = ap_agent_id p \<and> de_stance d = ap_stance p \<and>
           de_warrant_artifact_ids d = ap_evidence_ids p)) \<and>
      (ap_stance p \<in> {''OPPOSE'', ''INSUFFICIENT_EVIDENCE''} \<longrightarrow>
        (\<exists>m \<in> set (rs_minority_report r). me_agent_id m = ap_agent_id p \<and> me_position m = ap_stance p \<and>
           me_warrant_artifact_ids m = ap_evidence_ids p \<and>
           me_unresolved_critiques m = cr_critique_id ` {c \<in> set (cx_critiques cx). unresolved_resolution (cr_resolution c)}))) \<and>
    (\<forall>d \<in> set (rs_dissent r). \<exists>p \<in> set (cx_agent_positions cx). feasible cx (ap_alternative_id p) \<and>
       ap_stance p \<in> {''OPPOSE'', ''ABSTAIN'', ''INSUFFICIENT_EVIDENCE''} \<and>
       de_agent_id d = ap_agent_id p \<and> de_stance d = ap_stance p) \<and>
    (\<forall>m \<in> set (rs_minority_report r). \<exists>p \<in> set (cx_agent_positions cx). feasible cx (ap_alternative_id p) \<and>
       ap_stance p \<in> {''OPPOSE'', ''INSUFFICIENT_EVIDENCE''} \<and>
       me_agent_id m = ap_agent_id p \<and> me_position m = ap_stance p)"
proof -
  have "rs_dissent r = full_dissent cx" "rs_minority_report r = full_minority cx"
    using family.report_law [OF assms(1)] assms(2) by (auto simp: report_lawful_def)
  then show ?thesis
    by (auto simp: full_dissent_def full_minority_def build_dissent_def build_minority_def feasible_iff Let_def)
qed

theorem dissent_is_preserved_witness:
  "\<exists>r. evaluate Weighted sample_hash 5 sample_run = Inr r \<and>
    (\<exists>d \<in> set (rs_dissent r). de_agent_id d = 3 \<and> de_stance d = ''OPPOSE'')"
proof -
  obtain r where r: "evaluate Weighted sample_hash 5 sample_run = Inr r" "rs_outcome r = PARTIAL_CONSENSUS"
    by (rule sample_weightedE)
  let ?p = "sample_position 3 10 ''OPPOSE''"
  have p: "?p \<in> set (cx_agent_positions sample_run)" "feasible sample_run 10"
    by (simp add: sample_run_def sample_context_def) code_simp
  have f: "ap_alternative_id ?p = 10" "ap_stance ?p = ''OPPOSE''" "ap_agent_id ?p = 3"
    by (simp_all add: sample_position_def)
  have "rs_outcome r \<noteq> INFEASIBLE" using r(2) by simp
  from bspec [OF conjunct1 [OF dissent_is_preserved [OF r(1) this]] p(1), unfolded f] p(2) r(1)
  show ?thesis by auto
qed

text \<open>
  C33. The feasibility gate implements its specification on every list of validated verdicts: the
  rankable alternatives are those whose verdict is not UNSAT, in the order of the context, the UNSAT
  and UNKNOWN verdicts are listed in that order, and the gate reports total infeasibility when
  nothing is rankable.
\<close>

theorem gate_refines_spec:
  assumes "\<And>v. v \<in> set feasibility \<Longrightarrow> evidence_matches_status v"
  shows "feasibility_gate alternatives feasibility = Inr (gate_spec alternatives feasibility)"
  using assms by (rule feasibility_gate_total)

theorem gate_refines_spec_witness:
  "feasibility_gate (cx_alternatives sample_run) (cx_feasibility sample_run) =
     Inr (gate_spec (cx_alternatives sample_run) (cx_feasibility sample_run)) \<and>
   map al_alternative_id (gt_rankable (gate_spec (cx_alternatives sample_run) (cx_feasibility sample_run))) = [10]"
proof -
  have "\<And>v. v \<in> set (cx_feasibility sample_run) \<Longrightarrow> evidence_matches_status v"
    using context_validD(4) [OF sample_run_valid] .
  moreover have "map al_alternative_id (gt_rankable (gate_spec (cx_alternatives sample_run) (cx_feasibility sample_run))) = [10]"
    by code_simp
  ultimately show ?thesis using gate_refines_spec by blast
qed

text \<open>
  With the default stance weights the support of an alternative is a number between 0 and 1,
  whatever the policy on abstentions and whether confidence is used, although every addition,
  product and division is rounded to 28 significant digits.
\<close>

theorem support_is_unit:
  assumes "\<And>p. p \<in> set ps \<Longrightarrow> AgentPosition_valid p" and "length ps \<le> 10 ^ 28"
  shows "0 \<le> fst (compute_support a ps uc pol None) \<and> fst (compute_support a ps uc pol None) \<le> 1"
  using assms by (rule compute_support_unit)

theorem support_is_unit_witness:
  "let s = fst (compute_support 10 [sample_position 1 10 ''SUPPORT''] True EXCLUDE None) in 0 \<le> s \<and> s \<le> 1"
proof -
  show ?thesis unfolding Let_def
    by (rule support_is_unit) (simp_all add: sample_position_def AgentPosition_valid_def)
qed

text \<open>
  The independence cap holds: of each publisher exactly the first \<open>cap\<close> citations survive, in
  their order, so no publisher contributes more than the cap and a list within the cap is unchanged.
\<close>

theorem publisher_cap_exact:
  "filter (\<lambda>c. ec_publisher c = p) (capped_by_publisher cs cap) =
   take (nat cap) (filter (\<lambda>c. ec_publisher c = p) cs)"
proof -
  have "filter (\<lambda>c. ec_publisher c = p) (capped_loop cap counts cs) =
      take (nat (cap - counts p)) (filter (\<lambda>c. ec_publisher c = p) cs)" for counts
  proof (induction cs arbitrary: counts)
    case (Cons c cs)
    show ?case
    proof (cases "ec_publisher c = p")
      case True
      moreover have "nat (cap - counts p) =
          (if counts p + 1 \<le> cap then Suc (nat (cap - bump counts p p)) else 0)"
        by (auto simp: bump_same Suc_nat_eq_nat_zadd1)
      ultimately show ?thesis using Cons.IH [of "bump counts p"] by (simp add: Let_def bump_same)
    qed (use Cons.IH in \<open>simp add: Let_def bump_other\<close>)
  qed simp
  from this [of "\<lambda>_. 0"] show ?thesis by (simp add: capped_by_publisher_def)
qed

text \<open>
  The undominated set is a Pareto frontier: on objective values of at most 28 digits and a
  non-negative margin no member is dominated by another alternative, and every alternative outside
  it is dominated by a member.
\<close>

theorem undominated_is_frontier:
  assumes "0 \<le> eps" and "\<And>a k x. a \<in> set ids \<Longrightarrow> k \<in> set ks \<Longrightarrow> vals a k = Some x \<Longrightarrow> dec_round x = x"
  shows "(\<forall>m \<in> set (undominated ids vals ks eps). m \<in> set ids \<and>
      (\<forall>b \<in> set ids. \<not> dominates (vals b) (vals m) ks eps)) \<and>
    (\<forall>a \<in> set ids. a \<notin> set (undominated ids vals ks eps) \<longrightarrow>
      (\<exists>m \<in> set (undominated ids vals ks eps). dominates (vals m) (vals a) ks eps))"
proof -
  have safe: "margin_safe (vals a) ks eps" if "a \<in> set ids" for a
    using margin_safeI [OF assms(1)] assms(2) that by blast
  show ?thesis
  proof (intro conjI ballI impI)
    fix m b assume m: "m \<in> set (undominated ids vals ks eps)"
    then show "m \<in> set ids" by (simp add: undominated_iff)
    assume "b \<in> set ids"
    with m safe show "\<not> dominates (vals b) (vals m) ks eps"
      by (cases "b = m") (auto simp: undominated_iff not_self_dominates)
  next
    fix a assume a: "a \<in> set ids" and out: "a \<notin> set (undominated ids vals ks eps)"
    obtain m where "m \<in> set (undominated ids vals ks eps)" "m = a \<or> dominates (vals m) (vals a) ks eps"
      using undominated_cover [of ids vals ks eps a, OF safe a] by blast
    with out show "\<exists>m \<in> set (undominated ids vals ks eps). dominates (vals m) (vals a) ks eps" by blast
  qed
qed

theorem undominated_is_frontier_witness:
  "undominated [10, 11] sample_values [20] 0 = [10] \<and> dominates (sample_values 10) (sample_values 11) [20] 0"
proof -
  have u: "undominated [10, 11] sample_values [20] 0 = [10]" by code_simp
  have exact: "dec_round x = x" if "sample_values a k = Some x" for a k x
    using that by (auto simp: sample_values_def dec_round_0 dec_round_1 split: if_splits)
  have "dominates (sample_values 10) (sample_values 11) [20] 0"
    using conjunct2 [OF undominated_is_frontier [of 0 "[10, 11]" "[20]" sample_values, OF order_refl exact]]
    unfolding u by simp
  with u show ?thesis by simp
qed

text \<open>
  A negative dominance margin makes the constraint-aware strategy fail: two alternatives with
  equal objective values then dominate each other, the undominated set is empty, and taking the
  leader of the empty ranking raises IndexError although the context and its parameters pass every
  validation.
\<close>

theorem negative_margin_fails:
  "ConsensusContext_valid sample_negative_margin \<and>
   constraint_evaluate sample_hash 5 sample_negative_margin = Inl IndexError"
  by (intro conjI) code_simp+

text \<open>
  When every alternative is infeasible the result keeps the unsat cores of all verdicts but
  carries no dissent and no minority report, whatever the agents' positions were.
\<close>

theorem infeasible_keeps_cores_only:
  assumes "evaluate s h f cx = Inr r" and "rs_outcome r = INFEASIBLE"
  shows "rs_blocking_constraints r =
      concat (map fv_unsat_core (verdicts_with UNSAT (cx_alternatives cx) (cx_feasibility cx))) \<and>
    rs_scores r = [] \<and> rs_dissent r = [] \<and> rs_minority_report r = []"
proof -
  have "feasible_alternatives cx = []"
    using family.outcome_law [OF assms(1)] assms(2) by (simp add: outcome_lawful_def)
  then obtain n v der where "r = infeasible_result n v f h cx (the_gate cx) der"
    using assms(1)
    by (cases s) (auto elim: weighted_evaluateE evidence_evaluateE constraint_evaluateE)
  then show ?thesis
    by (simp add: infeasible_result_def base_result_def) (simp add: gate_spec_def Let_def)
qed

theorem infeasible_keeps_cores_only_witness:
  "\<exists>r. evaluate Weighted sample_hash 5 sample_blocked = Inr r \<and> rs_outcome r = INFEASIBLE \<and>
    rs_blocking_constraints r = [''c1'', ''c1''] \<and> rs_minority_report r = []"
proof -
  have "map_sum id rs_outcome (evaluate Weighted sample_hash 5 sample_blocked) = Inr INFEASIBLE" by code_simp
  then obtain r where r: "evaluate Weighted sample_hash 5 sample_blocked = Inr r" "rs_outcome r = INFEASIBLE"
    by (cases "evaluate Weighted sample_hash 5 sample_blocked") auto
  have "concat (map fv_unsat_core (verdicts_with UNSAT (cx_alternatives sample_blocked)
      (cx_feasibility sample_blocked))) = [''c1'', ''c1'']" by code_simp
  with infeasible_keeps_cores_only [OF r] r show ?thesis by auto
qed

subsection \<open>Registry, orchestrator and store\<close>

text \<open>
  Building a registry succeeds exactly when every strategy has a name and a version, is
  documented when a list of documented names is given, and no two share name and version; resolving
  then returns exactly the strategies that were registered, each under its own name and version.
\<close>

theorem registry_resolves_registered:
  "(\<exists>reg. StrategyRegistry ss D = Inr reg \<and>
      (\<forall>n v s. resolve reg n v = Inr s \<longleftrightarrow> s \<in> set ss \<and> so_name s = n \<and> so_version s = v) \<and>
      names reg = so_name ` set ss) \<longleftrightarrow>
   (\<forall>s \<in> set ss. so_name s \<noteq> [] \<and> so_version s \<noteq> [] \<and> (\<forall>names. D = Some names \<longrightarrow> so_name s \<in> names)) \<and>
   distinct (map (\<lambda>s. (so_name s, so_version s)) ss)"
  (is "?L \<longleftrightarrow> ?R")
proof -
  have k: "map strategy_key ss = map (\<lambda>s. (so_name s, so_version s)) ss"
    by (simp add: strategy_key_def)
  have R: "?R \<longleftrightarrow> StrategyRegistry ss D = Inr (map (\<lambda>s. (strategy_key s, s)) ss)"
    unfolding registry_iff k by (simp add: list_all_iff registrable_def)
  have "names (map (\<lambda>s. (strategy_key s, s)) ss) = so_name ` set ss"
    by (force simp: names_def strategy_key_def)
  with R show ?thesis using resolve_registered [of ss D] by (auto simp: registry_iff)
qed

theorem registry_resolves_registered_witness:
  "\<exists>reg. StrategyRegistry (map strategy_object [Weighted, EvidenceWeighted]) None = Inr reg \<and>
    resolve reg ''weighted'' ''1.0.0'' = Inr (strategy_object Weighted)"
proof -
  let ?ss = "map strategy_object [Weighted, EvidenceWeighted]"
  have "(\<forall>s \<in> set ?ss. so_name s \<noteq> [] \<and> so_version s \<noteq> []) \<and> distinct (map (\<lambda>s. (so_name s, so_version s)) ?ss)"
    "so_name (strategy_object Weighted) = ''weighted''" "so_version (strategy_object Weighted) = ''1.0.0''"
    by (simp_all add: strategy_object_def weighted_name_def weighted_version_def evidence_name_def evidence_version_def)
  with registry_resolves_registered [of ?ss None] show ?thesis by auto
qed

text \<open>
  A run of the orchestrator over the built-in strategies persists exactly what it returns: the
  result of the configured strategy, its record (the ratios rounded to the columns' five places) under
  the workspace and result identifier, the
  strategy's explanation beside it, and no other row of the store changes.
\<close>

theorem run_persists_result:
  assumes "StrategyRegistry (map strategy_object ss) D = Inr reg"
    and "orchestrator_run reg h f now db ws cx = Inr (db', r)"
  shows "\<exists>s \<in> set ss. strategy_name s = sc_strategy_name (cx_strategy_config cx) \<and>
      strategy_version s = sc_strategy_version (cx_strategy_config cx) \<and> evaluate s h f cx = Inr r \<and>
      get_result db' ws f = Some (stored (run_record ws now r)) \<and> get_explanation db' ws f = Some (explain s r) \<and>
      (\<forall>w i. (w, i) \<noteq> (ws, f) \<longrightarrow> get_result db' w i = get_result db w i \<and>
         get_explanation db' w i = get_explanation db w i)"
proof -
  obtain s where s: "s \<in> set ss" "strategy_name s = sc_strategy_name (cx_strategy_config cx)"
    "strategy_version s = sc_strategy_version (cx_strategy_config cx)" "evaluate s h f cx = Inr r"
    "get_explanation db' ws f = Some (explain s r)" "rs_result_id r = f"
    using assms by (rule run_record_of_family)
  have "\<forall>w i. (w, i) \<noteq> (ws, f) \<longrightarrow> get_explanation db' w i = get_explanation db w i"
    using run_persists(2) [OF assms(2)] s(6) by (metis prod.inject)
  with s run_persists(1) [OF assms(2)] show ?thesis by auto
qed

lemma reachable_store_wf: "store_reachable ss as db \<Longrightarrow> store_wf db"
  by (induction rule: store_reachable.induct)
     (auto simp: store_wf_def [of "\<lparr>cd_sessions = _, cd_artifacts = _, cd_results = [], cd_explanations = []\<rparr>"]
       intro: store_wf_add_result store_wf_add_explanation)

lemma sample_registry_ok:
  "StrategyRegistry (map strategy_object [Weighted, EvidenceWeighted, ConstraintAware]) None = Inr sample_registry"
  unfolding registry_iff sample_registry_def
  by (simp add: strategy_key_def registrable_def strategy_object_def weighted_name_def weighted_version_def
      evidence_name_def evidence_version_def constraint_name_def constraint_version_def)

lemma sample_orchestrated:
  "\<exists>db' r. orchestrator_run sample_registry sample_hash 5 0 sample_db 3 sample_run = Inr (db', r)"
proof -
  have "case orchestrator_run sample_registry sample_hash 5 0 sample_db 3 sample_run of Inl _ \<Rightarrow> False | Inr _ \<Rightarrow> True"
    by code_simp
  then show ?thesis by (auto split: sum.splits)
qed

theorem run_persists_result_witness:
  "\<exists>db' r. orchestrator_run sample_registry sample_hash 5 0 sample_db 3 sample_run = Inr (db', r) \<and>
    get_result db' 3 5 = Some (stored (run_record 3 0 r))"
  using run_persists_result [OF sample_registry_ok] sample_orchestrated by blast

text \<open>
  C35. In every state of the result store reached from an empty one by its operations, a result
  identifier and a combination of session, round, strategy and version occur at most once, every row
  has a positive round, a well-formed input hash, an existing session and a selection only under a
  selectable outcome, and every explanation belongs to a stored result.
\<close>

theorem reachable_store_consistent:
  assumes "store_reachable sessions artifacts db"
  shows "inj_on rr_id (set (cd_results db)) \<and> inj_on run_key (set (cd_results db)) \<and>
    (\<forall>r \<in> set (cd_results db). 1 \<le> rr_round r \<and> is_sha256 (rr_input_hash r) \<and>
       (rr_workspace_id r, rr_session_id r) \<in> set (cd_sessions db) \<and>
       (rr_selected_alternative_id r \<noteq> None \<longrightarrow>
          rr_outcome r \<in> {FULL_CONSENSUS, PARTIAL_CONSENSUS, CONDITIONAL_CONSENSUS})) \<and>
    (\<forall>(w, i, e) \<in> set (cd_explanations db). \<exists>r. get_result db w i = Some r)"
  using reachable_store_wf [OF assms]
  by (auto simp: store_wf_def distinct_map selection_feasibility_def selectable_def)

theorem reachable_store_consistent_witness:
  "\<exists>db. store_reachable [(3, 1)] [(3, 1, 10)] db \<and> cd_results db \<noteq> [] \<and>
     inj_on run_key (set (cd_results db))"
proof -
  obtain db' r where "orchestrator_run sample_registry sample_hash 5 0 sample_db 3 sample_run = Inr (db', r)"
    using sample_orchestrated by blast
  then obtain db1 where db1: "add_result sample_db (run_record 3 0 r) = Inr db1"
    by (elim orchestrator_runE) (auto simp: result_simps)
  have "store_reachable [(3, 1)] [(3, 1, 10)] db1"
    using store_reachable.result [OF store_reachable.empty db1 [unfolded sample_db_def]] .
  moreover have "cd_results db1 \<noteq> []"
    using db1 by (auto simp: add_result_def split: if_splits)
  ultimately show ?thesis using reachable_store_consistent by blast
qed

text \<open>
  One result per session, round, strategy and version: after a successful run a second run for
  the same session, round and configured strategy is refused, whatever its workspace, hash,
  identifier and inputs are.
\<close>

theorem second_run_refused:
  assumes reg: "StrategyRegistry (map strategy_object ss) D = Inr reg"
    and "orchestrator_run reg h f now db ws cx = Inr (db', r)"
    and same: "cx_session_id cx' = cx_session_id cx" "cx_round cx' = cx_round cx"
      "sc_strategy_name (cx_strategy_config cx') = sc_strategy_name (cx_strategy_config cx)"
      "sc_strategy_version (cx_strategy_config cx') = sc_strategy_version (cx_strategy_config cx)"
  shows "\<exists>e. orchestrator_run reg h' f' now' db' ws' cx' = Inl e"
proof (rule ccontr)
  assume "\<not> ?thesis"
  then obtain db2 r2 where run2: "orchestrator_run reg h' f' now' db' ws' cx' = Inr (db2, r2)"
    by (metis old.prod.exhaust sum.exhaust)
  obtain s where s: "evaluate s h f cx = Inr r" "rs_result_id r = f"
      "strategy_name s = sc_strategy_name (cx_strategy_config cx)"
      "strategy_version s = sc_strategy_version (cx_strategy_config cx)"
    using reg assms(2) by (rule run_record_of_family)
  obtain t where t: "evaluate t h' f' cx' = Inr r2"
      "strategy_name t = sc_strategy_name (cx_strategy_config cx')"
      "strategy_version t = sc_strategy_version (cx_strategy_config cx')"
    using reg run2 by (rule run_record_of_family)
  have "run_key (run_record ws now r) = run_key (run_record ws' now' r2)"
    unfolding family.record_key [OF s(1)] family.record_key [OF t(1)] using s t same by simp
  then have "run_key (stored (run_record ws now r)) = run_key (run_record ws' now' r2)" by simp
  moreover have "stored (run_record ws now r) \<in> set (cd_results db')"
    using run_persists(1) [OF assms(2), of ws f] s(2) by (auto simp: get_result_def find_Some_iff)
  moreover have "row_admissible db' (run_record ws' now' r2)"
    using run2 by (elim orchestrator_runE) (auto simp: result_simps add_result_def split: if_splits)
  ultimately show False by (metis (no_types, lifting) row_admissible_def image_eqI set_map)
qed

theorem second_run_refused_witness:
  "\<exists>db' r e. orchestrator_run sample_registry sample_hash 5 0 sample_db 3 sample_run = Inr (db', r) \<and>
    orchestrator_run sample_registry sample_hash 6 1 db' 3 sample_run = Inl e"
  using second_run_refused [OF sample_registry_ok _ refl refl refl refl] sample_orchestrated by blast

text \<open>
  C40. A failing run over the built-in strategies raises either a ConsensusError (unknown strategy or
  a failed evaluation, wrapped) or the database's refusal of a row, never a bare exception of the
  evaluation, and the record built from a result always passes its own validation.
\<close>

theorem run_fails_cleanly:
  assumes "StrategyRegistry (map strategy_object ss) D = Inr reg"
    and "orchestrator_run reg h f now db ws cx = Inl e"
  shows "(\<exists>m. e = ConsensusError m) \<or> (\<exists>t. e = IntegrityError t)"
  using run_errors [OF assms] by (cases e) (auto simp: engine_error_def)

theorem run_fails_cleanly_witness:
  "\<exists>m. orchestrator_run sample_registry sample_hash 5 0 sample_db 3 sample_negative_margin = Inl (ConsensusError m)"
proof -
  have f: "case orchestrator_run sample_registry sample_hash 5 0 sample_db 3 sample_negative_margin of
      Inl (IntegrityError t) \<Rightarrow> False | Inl _ \<Rightarrow> True | Inr _ \<Rightarrow> False" by code_simp
  then obtain e where "orchestrator_run sample_registry sample_hash 5 0 sample_db 3 sample_negative_margin = Inl e"
    by (auto split: sum.splits)
  with run_fails_cleanly [OF sample_registry_ok this] f show ?thesis by auto
qed

text \<open>
  A decision of the symbolic-unknown policy gives affirmative assurance exactly for a SAT
  verdict: UNSAT blocks and UNKNOWN defers, whatever reason the solver reports.
\<close>

theorem unknown_never_affirms:
  assumes "decide_status st reason = Inr d"
  shows "(provides_affirmative_assurance d \<longleftrightarrow> st = Sym_SAT) \<and>
    dec_action d = (case st of Sym_SAT \<Rightarrow> PROCEED | Sym_UNSAT \<Rightarrow> BLOCK | Sym_UNKNOWN \<Rightarrow> DEFER) \<and>
    dec_symbolic_status d = st"
  using assms affirmative_iff_SAT [OF assms]
  by (cases st) (auto split: option.splits if_splits)

theorem unknown_never_affirms_witness:
  "\<exists>d. decide_status Sym_UNKNOWN (Some ''timeout'') = Inr d \<and> \<not> provides_affirmative_assurance d"
proof -
  have "case decide_status Sym_UNKNOWN (Some ''timeout'') of Inl _ \<Rightarrow> False | Inr _ \<Rightarrow> True" by code_simp
  then obtain d where "decide_status Sym_UNKNOWN (Some ''timeout'') = Inr d" by (auto split: sum.splits)
  with unknown_never_affirms [OF this] show ?thesis by auto
qed

end
