(* ===== verification/Canonical_Json.thy ===== *)
theory Canonical_Json
  imports Prelude "HOL-Library.List_Lexorder"
begin

text \<open>
  The content identity of \<^verbatim>\<open>app/domain/reasoning.py\<close>: the validation of JSON values
  (\<^verbatim>\<open>_json_value\<close>), their canonical text with the keys of an object in UTF-16 order
  (\<^verbatim>\<open>_canonical\<close>), its UTF-8 bytes (\<^verbatim>\<open>canonical_json\<close>) and the SHA-256 digest of those
  (\<^verbatim>\<open>content_hash\<close>). A Python string is the list of its code points. The digest is the function of
  FIPS 180-4, which \<^verbatim>\<open>hashlib.sha256\<close> computes.
\<close>

type_synonym ustr = "nat list"

definition ustr :: "string \<Rightarrow> ustr" where
  "ustr s = map of_char s"

subsection \<open>Values\<close>

text \<open>
  The Python values the validation distinguishes. A float only matters for being finite; a value of
  any other type is its type name. Lists and tuples are validated alike.
\<close>

datatype pyval =
    VNone | VBool bool | VInt int | VFloat bool | VStr ustr | VList "pyval list"
  | VDict "(pyval \<times> pyval) list" | VOther string

datatype json =
    JNull | JBool bool | JInt int | JStr ustr | JList "json list" | JObj "(ustr \<times> json) list"

definition surrogate :: "nat \<Rightarrow> bool" where
  "surrogate c = (0xD800 \<le> c \<and> c \<le> 0xDFFF)"

fun is_str :: "pyval \<Rightarrow> bool" where
  "is_str (VStr s) = True"
| "is_str _ = False"

fun json_value :: "pyval \<Rightarrow> json result"
  and json_values :: "pyval list \<Rightarrow> json list result"
  and json_items :: "(pyval \<times> pyval) list \<Rightarrow> (ustr \<times> json) list result" where
  "json_value (VStr s) = (if list_ex surrogate s
     then Inl (ValueError ''JSON strings must contain Unicode scalar values'') else Inr (JStr s))"
| "json_value VNone = Inr JNull"
| "json_value (VBool b) = Inr (JBool b)"
| "json_value (VInt i) = Inr (JInt i)"
| "json_value (VFloat finite') = Inl (ValueError (if finite'
     then ''floats are forbidden; use canonical decimal strings''
     else ''non-finite numbers are not JSON values''))"
| "json_value (VList xs) = ebind (json_values xs) (\<lambda>ys. Inr (JList ys))"
| "json_value (VDict items) = (if list_ex (\<lambda>(k, v). \<not> is_str k) items
     then Inl (ValueError ''JSON object keys must be strings'')
     else ebind (json_items items) (\<lambda>ys. Inr (JObj ys)))"
| "json_value (VOther name) = Inl (ValueError (''unsupported JSON value: '' @ name))"
| "json_values [] = Inr []"
| "json_values (x # xs) = ebind (json_value x) (\<lambda>y. ebind (json_values xs) (\<lambda>ys. Inr (y # ys)))"
| "json_items [] = Inr []"
| "json_items ((k, v) # xs) = ebind (json_value v) (\<lambda>y. ebind (json_items xs) (\<lambda>ys.
     Inr (((case k of VStr s \<Rightarrow> s | _ \<Rightarrow> []), y) # ys)))"

subsection \<open>Canonical text\<close>

fun dec_text :: "nat \<Rightarrow> ustr" where
  "dec_text n = (if n < 10 then [48 + n] else dec_text (n div 10) @ [48 + n mod 10])"

declare dec_text.simps [simp del]

definition int_text :: "int \<Rightarrow> ustr" where
  "int_text i = (if i < 0 then 45 # dec_text (nat (- i)) else dec_text (nat i))"

definition hex_code :: "nat \<Rightarrow> nat" where
  "hex_code d = (if d < 10 then 48 + d else 87 + d)"

text \<open>\<^verbatim>\<open>json.dumps(s, ensure_ascii=False)\<close>: only quotes, backslashes and control characters are escaped.\<close>

definition esc :: "nat \<Rightarrow> ustr" where
  "esc c = (if c = 34 then [92, 34] else if c = 92 then [92, 92] else if c = 10 then [92, 110]
     else if c = 13 then [92, 114] else if c = 9 then [92, 116] else if c = 12 then [92, 102]
     else if c = 8 then [92, 98]
     else if c < 32 then [92, 117, 48, 48, hex_code (c div 16), hex_code (c mod 16)] else [c])"

definition json_string :: "ustr \<Rightarrow> ustr" where
  "json_string s = 34 # concat (map esc s) @ [34]"

text \<open>The UTF-16 big-endian bytes of a key, lone surrogates passed through.\<close>

definition utf16_units :: "nat \<Rightarrow> nat list" where
  "utf16_units c = (if c < 0x10000 then [c]
     else [0xD800 + (c - 0x10000) div 1024, 0xDC00 + (c - 0x10000) mod 1024])"

definition utf16_key :: "ustr \<Rightarrow> nat list" where
  "utf16_key s = concat (map (\<lambda>u. [u div 256, u mod 256]) (concat (map utf16_units s)))"

fun ujoin :: "ustr list \<Rightarrow> ustr" where
  "ujoin [] = []"
| "ujoin [x] = x"
| "ujoin (x # y # xs) = x @ 44 # ujoin (y # xs)"

definition member_text :: "ustr \<times> ustr \<Rightarrow> ustr" where
  "member_text kt = json_string (fst kt) @ 58 # snd kt"

primrec canonical :: "json \<Rightarrow> ustr" where
  "canonical JNull = ustr ''null''"
| "canonical (JBool b) = ustr (if b then ''true'' else ''false'')"
| "canonical (JInt i) = int_text i"
| "canonical (JStr s) = json_string s"
| "canonical (JList xs) = 91 # ujoin (map canonical xs) @ [93]"
| "canonical (JObj items) = 123 # ujoin (map member_text
     (sort_key (\<lambda>kt. utf16_key (fst kt)) (map (map_prod (\<lambda>k. k) canonical) items))) @ [125]"

subsection \<open>UTF-8 and SHA-256\<close>

definition utf8_char :: "nat \<Rightarrow> nat list" where
  "utf8_char c = (if c < 0x80 then [c]
     else if c < 0x800 then [0xC0 + c div 64, 0x80 + c mod 64]
     else if c < 0x10000 then [0xE0 + c div 4096, 0x80 + c div 64 mod 64, 0x80 + c mod 64]
     else [0xF0 + c div 262144, 0x80 + c div 4096 mod 64, 0x80 + c div 64 mod 64, 0x80 + c mod 64])"

definition utf8_encode :: "ustr \<Rightarrow> nat list result" where
  "utf8_encode s = (if list_ex surrogate s then Inl (ValueError ''surrogates not allowed'')
     else Inr (concat (map utf8_char s)))"

definition canonical_json :: "pyval \<Rightarrow> nat list result" where
  "canonical_json v = ebind (json_value v) (\<lambda>j. utf8_encode (canonical j))"

text \<open>
  The constants of the digest are the first 32 bits of the fractional parts of the square roots of
  the first eight primes (the initial state) and of the cube roots of the first sixty-four (the
  rounds): \<open>int_root k n\<close> is the largest number below \<open>2 ^ 40\<close> whose \<open>k\<close>-th power is at most \<open>n\<close>.
  Dividing by the numbers up to 17 is enough to recognise the primes below 361.
\<close>

definition int_root :: "nat \<Rightarrow> int \<Rightarrow> int" where
  "int_root k n = foldl (\<lambda>r b. if (r + 2 ^ b) ^ k \<le> n then r + 2 ^ b else r) 0 (rev [0..<40])"

definition small_primes :: "int \<Rightarrow> int list" where
  "small_primes m = filter (\<lambda>p. list_all (\<lambda>d. p mod d \<noteq> 0) [2..min (p - 1) 17]) [2..m]"

definition root_bits :: "nat \<Rightarrow> int \<Rightarrow> 32 word" where
  "root_bits k p = word_of_int (int_root k (p * 2 ^ (32 * k)))"

definition sha_k :: "32 word list" where
  "sha_k = map (root_bits 3) (small_primes 311)"

type_synonym sha_state =
  "32 word \<times> 32 word \<times> 32 word \<times> 32 word \<times> 32 word \<times> 32 word \<times> 32 word \<times> 32 word"

definition sha_init :: sha_state where
  "sha_init = (root_bits 2 2, root_bits 2 3, root_bits 2 5, root_bits 2 7, root_bits 2 11,
     root_bits 2 13, root_bits 2 17, root_bits 2 19)"

unbundle bit_operations_syntax

definition rotr :: "nat \<Rightarrow> 32 word \<Rightarrow> 32 word" where
  "rotr n x = drop_bit n x OR push_bit (32 - n) x"

text \<open>One word of the message schedule from the sixteen before it, then one round.\<close>

fun schedule :: "nat \<Rightarrow> 32 word list \<Rightarrow> 32 word list" where
  "schedule 0 w = []"
| "schedule (Suc n) w =
     (let w1 = w ! 1; w14 = w ! 14;
          s0 = rotr 7 w1 XOR rotr 18 w1 XOR drop_bit 3 w1;
          s1 = rotr 17 w14 XOR rotr 19 w14 XOR drop_bit 10 w14
      in w ! 0 # schedule n (tl w @ [w ! 0 + s0 + w ! 9 + s1]))"

fun sha_round :: "sha_state \<Rightarrow> 32 word \<times> 32 word \<Rightarrow> sha_state" where
  "sha_round (a, b, c, d, e, f, g, h) (k, w) =
     (let t1 = h + (rotr 6 e XOR rotr 11 e XOR rotr 25 e) + ((e AND f) XOR (NOT e AND g)) + k + w;
          t2 = (rotr 2 a XOR rotr 13 a XOR rotr 22 a) + ((a AND b) XOR (a AND c) XOR (b AND c))
      in (t1 + t2, a, b, c, d + t1, e, f, g))"

fun sha_add :: "sha_state \<Rightarrow> sha_state \<Rightarrow> sha_state" where
  "sha_add (a, b, c, d, e, f, g, h) (a', b', c', d', e', f', g', h') =
     (a + a', b + b', c + c', d + d', e + e', f + f', g + g', h + h')"

definition sha_block :: "sha_state \<Rightarrow> 32 word list \<Rightarrow> sha_state" where
  "sha_block st ws = sha_add st (foldl sha_round st (zip sha_k (schedule 64 ws)))"

fun sha_blocks :: "nat \<Rightarrow> sha_state \<Rightarrow> 32 word list \<Rightarrow> sha_state" where
  "sha_blocks 0 st ws = st"
| "sha_blocks (Suc n) st ws = sha_blocks n (sha_block st (take 16 ws)) (drop 16 ws)"

fun be_words :: "nat list \<Rightarrow> 32 word list" where
  "be_words (a # b # c # d # bs) = word_of_nat (((a * 256 + b) * 256 + c) * 256 + d) # be_words bs"
| "be_words _ = []"

text \<open>Padding to a multiple of 64 bytes: 0x80, zeros, and the bit length in eight bytes.\<close>

definition sha_pad :: "nat list \<Rightarrow> nat list" where
  "sha_pad bs = bs @ 0x80 # replicate ((119 - length bs mod 64) mod 64) 0 @
     map (\<lambda>i. (length bs * 8) div 256 ^ (7 - i) mod 256) [0..<8]"

definition word_hex :: "32 word \<Rightarrow> string" where
  "word_hex w = map (\<lambda>i. hex_digit (uint w div 16 ^ (7 - i) mod 16)) [0..<8]"

definition sha256_hex :: "nat list \<Rightarrow> string" where
  "sha256_hex bs = (let p = sha_pad bs in
     case sha_blocks (length p div 64) sha_init (be_words p) of
       (a, b, c, d, e, f, g, h) \<Rightarrow> concat (map word_hex [a, b, c, d, e, f, g, h]))"

definition sha256_text :: "nat list \<Rightarrow> string" where
  "sha256_text bs = ''sha256:'' @ sha256_hex bs"

definition content_hash :: "pyval \<Rightarrow> string result" where
  "content_hash v = ebind (canonical_json v) (\<lambda>bs. Inr (sha256_text bs))"

text \<open>
  \<^verbatim>\<open>_frozen_json\<close> keeps the validated value and makes its containers immutable; the model's values
  are immutable, so it is the validation. Hashing a frozen value validates it again, which returns it
  (\<open>thaw\<close> is the frozen value as a Python value).
\<close>

definition frozen_json :: "pyval \<Rightarrow> json result" where
  "frozen_json v = json_value v"

primrec thaw :: "json \<Rightarrow> pyval" where
  "thaw JNull = VNone"
| "thaw (JBool b) = VBool b"
| "thaw (JInt i) = VInt i"
| "thaw (JStr s) = VStr s"
| "thaw (JList xs) = VList (map thaw xs)"
| "thaw (JObj items) = VDict (map (map_prod VStr thaw) items)"

text \<open>Reading one escaped character or one UTF-8 sequence back.\<close>

definition unhex :: "nat \<Rightarrow> nat" where
  "unhex d = (if d < 58 then d - 48 else d - 87)"

definition unesc :: "ustr \<Rightarrow> nat \<times> ustr" where
  "unesc xs = (if hd xs \<noteq> 92 then (hd xs, tl xs) else
     let d = xs ! 1; r = drop 2 xs in
     if d = 110 then (10, r) else if d = 114 then (13, r) else if d = 116 then (9, r)
     else if d = 102 then (12, r) else if d = 98 then (8, r)
     else if d = 117 then (16 * unhex (xs ! 4) + unhex (xs ! 5), drop 6 xs) else (d, r))"

definition utf8_read :: "nat list \<Rightarrow> nat \<times> nat list" where
  "utf8_read bs = (let b = hd bs; t = (\<lambda>i. bs ! i - 0x80) in
     if b < 0x80 then (b, tl bs)
     else if b < 0xE0 then ((b - 0xC0) * 64 + t 1, drop 2 bs)
     else if b < 0xF0 then ((b - 0xE0) * 4096 + t 1 * 64 + t 2, drop 3 bs)
     else ((b - 0xF0) * 262144 + t 1 * 4096 + t 2 * 64 + t 3, drop 4 bs))"

text \<open>The normal form of a value: the members of every object in the order of their keys.\<close>

primrec normal :: "json \<Rightarrow> json" where
  "normal JNull = JNull"
| "normal (JBool b) = JBool b"
| "normal (JInt i) = JInt i"
| "normal (JStr s) = JStr s"
| "normal (JList xs) = JList (map normal xs)"
| "normal (JObj items) = JObj (sort_key (\<lambda>kt. utf16_key (fst kt)) (map (map_prod (\<lambda>k. k) normal) items))"

fun dec_value :: "ustr \<Rightarrow> nat" where
  "dec_value ds = foldl (\<lambda>n d. n * 10 + (d - 48)) 0 ds"

definition is_digit :: "nat \<Rightarrow> bool" where
  "is_digit c = (48 \<le> c \<and> c \<le> 57)"

definition stops :: "ustr \<Rightarrow> bool" where
  "stops r = (r = [] \<or> \<not> is_digit (hd r))"

text \<open>The first character tells the kind of value.\<close>

definition delim :: "ustr \<Rightarrow> bool" where
  "delim r = (r = [] \<or> hd r \<in> {44, 93, 125})"

datatype kind = KNull | KTrue | KFalse | KInt | KStr | KList | KObj

fun kind_of :: "json \<Rightarrow> kind" where
  "kind_of JNull = KNull" | "kind_of (JBool b) = (if b then KTrue else KFalse)" | "kind_of (JInt i) = KInt"
| "kind_of (JStr s) = KStr" | "kind_of (JList xs) = KList" | "kind_of (JObj ms) = KObj"

definition kind_at :: "nat \<Rightarrow> kind" where
  "kind_at c = (if c = 110 then KNull else if c = 116 then KTrue else if c = 102 then KFalse
     else if c = 34 then KStr else if c = 91 then KList else if c = 123 then KObj else KInt)"

text \<open>A Unicode scalar value; every string of a value that consists of them.\<close>

definition scalar :: "nat \<Rightarrow> bool" where
  "scalar c = (c < 0x110000 \<and> \<not> surrogate c)"

primrec scalars :: "json \<Rightarrow> bool" where
  "scalars JNull = True"
| "scalars (JBool b) = True"
| "scalars (JInt i) = True"
| "scalars (JStr s) = list_all scalar s"
| "scalars (JList xs) = list_all (\<lambda>b. b) (map scalars xs)"
| "scalars (JObj items) = list_all (\<lambda>kb. list_all scalar (fst kb) \<and> snd kb) (map (map_prod (\<lambda>k. k) scalars) items)"

definition utf16_bytes :: "nat \<Rightarrow> nat list" where
  "utf16_bytes c = concat (map (\<lambda>u. [u div 256, u mod 256]) (utf16_units c))"

definition utf16_read :: "nat list \<Rightarrow> nat \<times> nat list" where
  "utf16_read bs = (let u = bs ! 0 * 256 + bs ! 1 in
     if 0xD800 \<le> u \<and> u \<le> 0xDBFF
     then (0x10000 + (u - 0xD800) * 1024 + (bs ! 2 * 256 + bs ! 3 - 0xDC00), drop 4 bs)
     else (u, drop 2 bs))"

definition canonical_bytes :: "json \<Rightarrow> nat list" where
  "canonical_bytes j = concat (map utf8_char (canonical j))"

subsection \<open>Codes that can be read back\<close>

text \<open>
  The interface the character encodings share: every symbol of the alphabet has a non-empty code
  word, and a reader returns the symbol of the first code word and the rest.
\<close>

locale prefix_code =
  fixes enc :: "nat \<Rightarrow> nat list" and rd :: "nat list \<Rightarrow> nat \<times> nat list" and alphabet :: "nat \<Rightarrow> bool"
  assumes enc_nonempty: "alphabet x \<Longrightarrow> enc x \<noteq> []"
    and read_enc: "alphabet x \<Longrightarrow> rd (enc x @ r) = (x, r)"
begin

lemma enc_prefix_free:
  assumes "alphabet x" "alphabet y" "enc x @ r = enc y @ s"
  shows "x = y \<and> r = s"
  using read_enc assms by (metis prod.inject)

lemma concat_inj:
  assumes "list_all alphabet xs" "list_all alphabet ys" "concat (map enc xs) = concat (map enc ys)"
  shows "xs = ys"
  using assms
proof (induction xs arbitrary: ys)
  case Nil
  then show ?case by (cases ys) (auto simp: enc_nonempty)
next
  case (Cons x xs)
  then obtain y zs where "ys = y # zs" by (cases ys) (auto simp: enc_nonempty)
  with Cons.prems have "x = y \<and> concat (map enc xs) = concat (map enc zs)"
    by (intro enc_prefix_free) auto
  with Cons.IH [of zs] Cons.prems \<open>ys = y # zs\<close> show ?case by simp
qed

lemma terminated_inj:
  assumes "list_all alphabet xs" "list_all alphabet ys"
    and "concat (map enc xs) @ t # r = concat (map enc ys) @ t # s"
    and stop: "\<And>x. alphabet x \<Longrightarrow> hd (enc x) \<noteq> t"
  shows "xs = ys \<and> r = s"
  using assms(1-3)
proof (induction xs arbitrary: ys)
  case Nil
  then show ?case
  proof (cases ys)
    case (Cons y zs)
    with Nil stop [of y] enc_nonempty [of y] show ?thesis by (cases "enc y") auto
  qed simp
next
  case (Cons x xs)
  show ?case
  proof (cases ys)
    case Nil
    with Cons.prems stop [of x] enc_nonempty [of x] show ?thesis by (cases "enc x") auto
  next
    case ys: (Cons y zs)
    with Cons.prems have "x = y \<and> concat (map enc xs) @ t # r = concat (map enc zs) @ t # s"
      by (intro enc_prefix_free) auto
    with Cons.IH [of zs] Cons.prems ys show ?thesis by simp
  qed
qed

end

lemma unhex_hex_code: "d < 16 \<Longrightarrow> unhex (hex_code d) = d"
  by (simp add: hex_code_def unhex_def)

lemma unesc_esc: "unesc (esc c @ r) = (c, r)"
proof -
  consider "c \<in> {34, 92, 10, 13, 9, 12, 8}" | "c < 32" "c \<notin> {34, 92, 10, 13, 9, 12, 8}"
    | "32 \<le> c" "c \<noteq> 34" "c \<noteq> 92" by fastforce
  then show ?thesis
  proof cases
    case 1
    then show ?thesis by (elim insertE) (simp_all add: esc_def unesc_def)
  next
    case 2
    moreover from 2 have "16 * unhex (hex_code (c div 16)) + unhex (hex_code (c mod 16)) = c"
      by (simp add: unhex_hex_code)
    ultimately show ?thesis by (simp add: esc_def unesc_def)
  next
    case 3
    then show ?thesis by (simp add: esc_def unesc_def)
  qed
qed

lemma base_64:
  fixes c :: nat
  shows "c div 64 * 64 + c mod 64 = c" "c div 4096 * 4096 + c div 64 mod 64 * 64 + c mod 64 = c"
    "c div 262144 * 262144 + c div 4096 mod 64 * 4096 + c div 64 mod 64 * 64 + c mod 64 = c"
proof -
  have d: "c div 4096 = c div 64 div 64" "c div 262144 = c div 64 div 64 div 64"
    by (simp_all add: div_mult2_eq [symmetric])
  show 1: "c div 64 * 64 + c mod 64 = c" by (rule div_mult_mod_eq)
  show 2: "c div 4096 * 4096 + c div 64 mod 64 * 64 + c mod 64 = c"
    using 1 div_mult_mod_eq [of "c div 64" 64] unfolding d by linarith
  show "c div 262144 * 262144 + c div 4096 mod 64 * 4096 + c div 64 mod 64 * 64 + c mod 64 = c"
    using 2 div_mult_mod_eq [of "c div 64 div 64" 64] unfolding d by linarith
qed

lemma utf8_read_char:
  assumes "c < 0x110000"
  shows "utf8_read (utf8_char c @ r) = (c, r)"
proof -
  consider "c < 0x80" | "0x80 \<le> c" "c < 0x800" | "0x800 \<le> c" "c < 0x10000" | "0x10000 \<le> c" by linarith
  then show ?thesis
  proof cases
    case 1
    then show ?thesis by (simp add: utf8_char_def utf8_read_def)
  next
    case 2
    then have "c div 64 < 32" by (simp add: less_mult_imp_div_less)
    with 2 base_64(1) [of c] show ?thesis by (simp add: utf8_char_def utf8_read_def Let_def)
  next
    case 3
    then have "c div 4096 < 16" by (simp add: less_mult_imp_div_less)
    with 3 base_64(2) [of c] show ?thesis by (simp add: utf8_char_def utf8_read_def Let_def)
  next
    case 4
    with base_64(3) [of c] show ?thesis by (simp add: utf8_char_def utf8_read_def Let_def)
  qed
qed

interpretation escape: prefix_code esc unesc "\<lambda>c. True"
  by unfold_locales (simp_all add: unesc_esc, simp add: esc_def)

interpretation utf8: prefix_code utf8_char utf8_read "\<lambda>c. c < 0x110000"
  by unfold_locales (simp_all add: utf8_read_char, simp add: utf8_char_def)

lemma json_string_inj:
  assumes "json_string k @ r = json_string l @ s"
  shows "k = l \<and> r = s"
  using escape.terminated_inj [of k l 34 r s] assms
  by (auto simp: json_string_def esc_def list_all_iff)

lemma dec_value_text: "dec_value (dec_text n) = n"
  by (induction n rule: dec_text.induct) (subst dec_text.simps, simp)

lemma dec_text_digits: "list_all is_digit (dec_text n)"
  by (induction n rule: dec_text.induct) (subst dec_text.simps, simp add: list_all_iff is_digit_def, linarith)

lemma dec_text_nonempty [simp]: "dec_text n \<noteq> []"
  by (subst dec_text.simps) simp

lemma takeWhile_dec_text: "stops r \<Longrightarrow> takeWhile is_digit (dec_text n @ r) = dec_text n"
  using dec_text_digits [of n]
  by (cases r) (auto simp: stops_def list_all_iff takeWhile_append)

lemma dec_text_inj:
  assumes "stops r" "stops s" "dec_text m @ r = dec_text n @ s"
  shows "m = n \<and> r = s"
proof -
  have "dec_text m = dec_text n" using takeWhile_dec_text assms by metis
  then have "m = n" using dec_value_text by metis
  with assms(3) show ?thesis by simp
qed

lemma dec_text_hd: "is_digit (hd (dec_text n))"
  using dec_text_digits [of n] by (cases "dec_text n") auto

lemma int_text_inj:
  assumes "stops r" "stops s" "int_text i @ r = int_text j @ s"
  shows "i = j \<and> r = s"
proof -
  have h: "hd (dec_text n @ x) \<noteq> 45" for n x
    using dec_text_hd [of n] by (cases "dec_text n") (auto simp: is_digit_def)
  have neg: "dec_text m @ x \<noteq> 45 # y" for m x y using h [of m x] by (metis list.sel(1))
  show ?thesis
  proof (cases "i < 0"; cases "j < 0")
    assume ij: "i < 0" "j < 0"
    then have "dec_text (nat (- i)) @ r = dec_text (nat (- j)) @ s" using assms(3) by (simp add: int_text_def)
    from dec_text_inj [OF assms(1,2) this] ij show ?thesis by (simp add: eq_nat_nat_iff)
  next
    assume ij: "\<not> i < 0" "\<not> j < 0"
    then have "dec_text (nat i) @ r = dec_text (nat j) @ s" using assms(3) by (simp add: int_text_def)
    from dec_text_inj [OF assms(1,2) this] ij show ?thesis by (simp add: eq_nat_nat_iff)
  next
    assume "i < 0" "\<not> j < 0"
    then have "dec_text (nat j) @ s = 45 # dec_text (nat (- i)) @ r" using assms(3) by (simp add: int_text_def)
    with neg show ?thesis by blast
  next
    assume "\<not> i < 0" "j < 0"
    then have "dec_text (nat i) @ r = 45 # dec_text (nat (- j)) @ s" using assms(3) by (simp add: int_text_def)
    with neg show ?thesis by blast
  qed
qed

lemma delim_stops: "delim r \<Longrightarrow> stops r"
  by (auto simp: delim_def stops_def is_digit_def)

lemma int_text_hd: "hd (int_text i) = 45 \<or> is_digit (hd (int_text i))" "int_text i \<noteq> []"
  using dec_text_hd by (auto simp: int_text_def)

lemma canonical_hd: "canonical j \<noteq> [] \<and> kind_at (hd (canonical j)) = kind_of j \<and> hd (canonical j) \<notin> {44, 93, 125}"
proof (cases j)
  case (JInt i)
  then show ?thesis using int_text_hd [of i] by (auto simp: kind_at_def is_digit_def)
qed (auto simp: ustr_def kind_at_def json_string_def)

lemma canonical_kind: "canonical i @ r = canonical j @ s \<Longrightarrow> kind_of i = kind_of j"
  using canonical_hd [of i] canonical_hd [of j] by (metis hd_append2)

lemma ujoin_Cons: "ujoin (x # xs) = x @ (if xs = [] then [] else 44 # ujoin xs)"
  by (cases xs) auto

lemma sort_key_map: "sort_key f (map g xs) = map g (sort_key (\<lambda>x. f (g x)) xs)"
proof (induction xs)
  case (Cons x xs)
  have "insort_key f (g x) (map g ys) = map g (insort_key (\<lambda>x. f (g x)) x ys)" for ys
    by (induction ys) auto
  with Cons show ?case by simp
qed simp

lemma ujoin_inj:
  assumes "\<And>x y r s. x \<in> set xs \<Longrightarrow> delim r \<Longrightarrow> delim s \<Longrightarrow> t x @ r = t y @ s \<Longrightarrow> v x = v y \<and> r = s"
    and ne: "\<And>x. t x \<noteq> [] \<and> hd (t x) \<noteq> c" and c: "c \<in> {93, 125}"
    and "ujoin (map t xs) @ c # r = ujoin (map t ys) @ c # s"
  shows "map v xs = map v ys \<and> r = s"
  using assms(1,4)
proof (induction xs arbitrary: ys)
  case Nil
  then show ?case
  proof (cases ys)
    case (Cons y zs)
    with Nil.prems(2) ne [of y] show ?thesis by (cases "t y") (auto simp: ujoin_Cons)
  qed simp
next
  case (Cons x xs)
  define rest where "rest zs u = (if zs = [] then c # u else 44 # ujoin (map t zs) @ c # u)" for zs :: "'a list" and u
  have rest: "ujoin (map t (z # zs)) @ c # u = t z @ rest zs u" "delim (rest zs u)" for z zs u
    using c by (auto simp: ujoin_Cons rest_def delim_def)
  show ?case
  proof (cases ys)
    case Nil
    with Cons.prems(2) ne [of x] show ?thesis by (cases "t x") (auto simp: ujoin_Cons)
  next
    case ys: (Cons y zs)
    have "t x @ rest xs r = t y @ rest zs s"
      using Cons.prems(2) unfolding ys rest(1) .
    then have v: "v x = v y" "rest xs r = rest zs s"
      using Cons.prems(1) [of x "rest xs r" "rest zs s" y] rest(2) by auto
    show ?thesis
    proof (cases "xs = [] \<or> zs = []")
      case True
      with v c show ?thesis unfolding ys by (auto simp: rest_def split: if_splits)
    next
      case False
      with v(2) have "ujoin (map t xs) @ c # r = ujoin (map t zs) @ c # s" by (simp add: rest_def)
      with Cons.IH [of zs] Cons.prems(1) v(1) ys show ?thesis by auto
    qed
  qed
qed

lemma canonical_obj_text:
  "canonical (JObj items) = 123 # ujoin (map (\<lambda>kv. member_text (fst kv, canonical (snd kv)))
     (sort_key (\<lambda>kv. utf16_key (fst kv)) items)) @ [125]"
  by (simp add: sort_key_map comp_def map_prod_def case_prod_unfold)

lemma normal_obj:
  "normal (JObj items) = JObj (map (\<lambda>kv. (fst kv, normal (snd kv))) (sort_key (\<lambda>kv. utf16_key (fst kv)) items))"
  by (simp add: sort_key_map comp_def map_prod_def case_prod_unfold)

lemma member_text_hd: "member_text kt \<noteq> [] \<and> hd (member_text kt) \<noteq> 125"
  by (simp add: member_text_def json_string_def)

lemma member_text_inj:
  assumes "member_text (k, canonical v) @ r = member_text (l, canonical w) @ s"
  shows "k = l \<and> canonical v @ r = canonical w @ s"
  using json_string_inj [of k "58 # canonical v @ r" l "58 # canonical w @ s"] assms
  by (simp add: member_text_def)

lemma canonical_prefix_inj:
  assumes "delim r" "delim s" "canonical i @ r = canonical j @ s"
  shows "normal i = normal j \<and> r = s"
  using assms
proof (induction i arbitrary: j r s)
  case JNull
  then have "j = JNull" using canonical_kind [OF JNull.prems(3)] by (cases j) (auto split: if_splits)
  with JNull show ?case by simp
next
  case (JBool b)
  then have "j = JBool b" using canonical_kind [OF JBool.prems(3)] by (cases j) (auto split: if_splits)
  with JBool show ?case by simp
next
  case (JInt n)
  then obtain m where "j = JInt m" using canonical_kind [OF JInt.prems(3)] by (cases j) (auto split: if_splits)
  with JInt.prems(3) have "int_text n @ r = int_text m @ s" by simp
  from int_text_inj [OF delim_stops delim_stops this] JInt.prems(1,2) show ?case by (simp add: \<open>j = JInt m\<close>)
next
  case (JStr x)
  then obtain y where "j = JStr y" using canonical_kind [OF JStr.prems(3)] by (cases j) (auto split: if_splits)
  with JStr.prems(3) have "json_string x @ r = json_string y @ s" by simp
  from json_string_inj [OF this] show ?case by (simp add: \<open>j = JStr y\<close>)
next
  case (JList xs)
  then obtain ys where j: "j = JList ys" using canonical_kind [OF JList.prems(3)] by (cases j) (auto split: if_splits)
  have eq: "ujoin (map canonical xs) @ 93 # r = ujoin (map canonical ys) @ 93 # s"
    using JList.prems(3) unfolding j by simp
  have "map normal xs = map normal ys \<and> r = s"
    by (rule ujoin_inj [OF _ _ _ eq]) (use JList.IH canonical_hd in blast)+
  then show ?case unfolding j by simp
next
  case (JObj ms)
  then obtain ns where j: "j = JObj ns" using canonical_kind [OF JObj.prems(3)] by (cases j) (auto split: if_splits)
  let ?S = "sort_key (\<lambda>kv. utf16_key (fst kv)) :: (ustr \<times> json) list \<Rightarrow> _"
  let ?v = "\<lambda>kv. (fst kv, normal (snd kv)) :: ustr \<times> json"
  have eq: "ujoin (map (\<lambda>kv. member_text (fst kv, canonical (snd kv))) (?S ms)) @ 125 # r =
      ujoin (map (\<lambda>kv. member_text (fst kv, canonical (snd kv))) (?S ns)) @ 125 # s"
    using JObj.prems(3) unfolding j canonical_obj_text by simp
  have "map ?v (?S ms) = map ?v (?S ns) \<and> r = s"
  proof (rule ujoin_inj [OF _ _ _ eq])
    fix x y :: "ustr \<times> json" and r' s'
    assume x: "x \<in> set (?S ms)" and d: "delim r'" "delim s'"
      and "member_text (fst x, canonical (snd x)) @ r' = member_text (fst y, canonical (snd y)) @ s'"
    then have "fst x = fst y" "canonical (snd x) @ r' = canonical (snd y) @ s'" using member_text_inj by blast+
    moreover have "x \<in> set ms" using x by simp
    moreover have "snd x \<in> Basic_BNFs.snds x" by (cases x) simp
    ultimately show "?v x = ?v y \<and> r' = s'"
      using JObj.IH [of x "snd x" r' s' "snd y"] d by blast
  qed (simp_all add: member_text_hd)
  then show ?case unfolding j normal_obj by simp
qed

lemma canonical_inj: "canonical i = canonical j \<Longrightarrow> normal i = normal j"
  using canonical_prefix_inj [of "[]" "[]" i j] by (simp add: delim_def)

lemma utf16_read_bytes:
  assumes "scalar c"
  shows "utf16_read (utf16_bytes c @ r) = (c, r)"
proof (cases "c < 0x10000")
  case True
  have "c div 256 * 256 + c mod 256 = c" by (rule div_mult_mod_eq)
  with True assms show ?thesis
    by (auto simp: utf16_bytes_def utf16_units_def utf16_read_def Let_def scalar_def surrogate_def)
next
  case False
  define h l where "h = (c - 0x10000) div 1024" and "l = (c - 0x10000) mod 1024"
  have "h * 1024 + l = c - 0x10000" unfolding h_def l_def by (rule div_mult_mod_eq)
  moreover have "h < 1024" "l < 1024" using assms
    by (auto simp: h_def l_def scalar_def less_mult_imp_div_less)
  moreover have "(0xD800 + h) div 256 * 256 + (0xD800 + h) mod 256 = 0xD800 + h"
    "(0xDC00 + l) div 256 * 256 + (0xDC00 + l) mod 256 = 0xDC00 + l" by (rule div_mult_mod_eq)+
  ultimately show ?thesis using False
    by (simp add: utf16_bytes_def utf16_units_def utf16_read_def Let_def flip: h_def l_def)
qed

interpretation utf16: prefix_code utf16_bytes utf16_read scalar
  by unfold_locales (simp_all add: utf16_read_bytes, simp add: utf16_bytes_def utf16_units_def)

lemma utf16_key_bytes: "utf16_key s = concat (map utf16_bytes s)"
  by (induction s) (simp_all add: utf16_key_def utf16_bytes_def)

lemma utf16_key_inj: "list_all scalar s \<Longrightarrow> list_all scalar t \<Longrightarrow> utf16_key s = utf16_key t \<Longrightarrow> s = t"
  unfolding utf16_key_bytes by (rule utf16.concat_inj)

lemma canonical_normal [simp]: "canonical (normal j) = canonical j"
proof (induction j)
  case (JObj items)
  let ?S = "sort_key (\<lambda>kv. utf16_key (fst kv)) :: (ustr \<times> json) list \<Rightarrow> _"
  let ?n = "\<lambda>kv. (fst kv, normal (snd kv)) :: ustr \<times> json"
  have "sorted (map (\<lambda>kv. utf16_key (fst kv)) (map ?n (?S items)))"
    using sorted_sort_key [of "\<lambda>kv. utf16_key (fst kv)" items] by (simp add: comp_def)
  then have "?S (map ?n (?S items)) = map ?n (?S items)" by (rule sort_key_id_if_sorted)
  moreover have "canonical (snd kv) = canonical (normal (snd kv))" if "kv \<in> set items" for kv
    using JObj [of kv "snd kv"] that by (cases kv) simp
  ultimately show ?case unfolding normal_obj canonical_obj_text by (auto simp: comp_def intro!: arg_cong [where f = ujoin])
qed (auto intro!: arg_cong [where f = ujoin])

lemma canonical_eq_iff: "canonical i = canonical j \<longleftrightarrow> normal i = normal j"
  using canonical_inj canonical_normal by metis

lemma normal_reorder:
  assumes "mset xs = mset ys" "distinct (map fst xs)" "\<forall>k \<in> set (map fst xs). list_all scalar k"
  shows "normal (JObj xs) = normal (JObj ys)"
proof -
  let ?f = "\<lambda>kv :: ustr \<times> json. utf16_key (fst kv)"
  have "inj_on ?f (set xs)"
    using assms(2,3) utf16_key_inj by (auto simp: inj_on_def distinct_map)
  then have "sort_key ?f xs = sort_key ?f ys"
    using assms(1) by (intro sort_key_inj_key_eq) simp_all
  then show ?thesis unfolding normal_obj by simp
qed

lemma scalar_ascii: "c < 0x80 \<Longrightarrow> scalar c"
  by (simp add: scalar_def surrogate_def)

lemma esc_scalar: "scalar c \<Longrightarrow> list_all scalar (esc c)"
  by (auto simp: esc_def hex_code_def intro!: scalar_ascii)

lemma concat_scalar: "list_all (list_all scalar) xs \<Longrightarrow> list_all scalar (concat xs)"
  by (induction xs) auto

lemma json_string_scalar: "list_all scalar s \<Longrightarrow> list_all scalar (json_string s)"
  by (auto simp: json_string_def list_all_iff intro: scalar_ascii dest: esc_scalar [unfolded list_all_iff])

lemma int_text_scalar: "list_all scalar (int_text i)"
proof -
  have "list_all scalar (dec_text n)" for n
    using dec_text_digits [of n] by (auto simp: list_all_iff is_digit_def intro!: scalar_ascii)
  then show ?thesis by (simp add: int_text_def scalar_ascii)
qed

lemma ujoin_scalar: "list_all (list_all scalar) xs \<Longrightarrow> list_all scalar (ujoin xs)"
  by (induction xs rule: ujoin.induct) (auto simp: scalar_ascii)

lemma ustr_scalar: "list_all scalar (ustr s)"
proof -
  have "scalar (of_char c)" for c
    using nat_of_char_less_256 [of c] unfolding scalar_def surrogate_def by linarith
  then show ?thesis by (simp add: ustr_def list_all_iff)
qed

lemma canonical_scalar: "scalars j \<Longrightarrow> list_all scalar (canonical j)"
proof (induction j)
  case (JList xs)
  then have "list_all (list_all scalar) (map canonical xs)" by (simp add: list_all_iff)
  then show ?case by (simp add: scalar_ascii ujoin_scalar)
next
  case (JObj items)
  have "list_all scalar (fst kv) \<and> list_all scalar (canonical (snd kv))" if "kv \<in> set items" for kv
    using JObj that by (cases kv) (force simp: list_all_iff)
  then have "list_all (list_all scalar) (map (\<lambda>kv. member_text (fst kv, canonical (snd kv)))
      (sort_key (\<lambda>kv. utf16_key (fst kv)) items))"
    by (auto simp: list_all_iff [of "list_all scalar"] member_text_def scalar_ascii intro!: json_string_scalar)
  then show ?case unfolding canonical_obj_text by (simp add: ujoin_scalar scalar_ascii)
qed (auto simp: json_string_scalar int_text_scalar ustr_scalar)

subsection \<open>Validation and hashing\<close>

lemma json_values_map:
  "(\<And>x. x \<in> set xs \<Longrightarrow> json_value (f x) = Inr x) \<Longrightarrow> json_values (map f xs) = Inr xs"
  by (induction xs) auto

lemma json_items_map:
  "(\<And>k x. (k, x) \<in> set xs \<Longrightarrow> json_value (f x) = Inr x) \<Longrightarrow> json_items (map (map_prod VStr f) xs) = Inr xs"
proof (induction xs)
  case (Cons kx xs)
  have "json_items (map (map_prod VStr f) xs) = Inr xs"
    using Cons.prems by (intro Cons.IH) (meson list.set_intros(2))
  moreover obtain k x where "kx = (k, x)" by (cases kx)
  moreover from this have "json_value (f x) = Inr x" using Cons.prems by (meson list.set_intros(1))
  ultimately show ?case by simp
qed simp

lemma json_value_thaw: "scalars j \<Longrightarrow> json_value (thaw j) = Inr j"
proof (induction j)
  case (JStr s)
  then show ?case by (auto simp: list_all_iff list_ex_iff scalar_def)
next
  case (JList xs)
  then have "json_values (map thaw xs) = Inr xs" by (intro json_values_map) (simp add: list_all_iff)
  then show ?case by simp
next
  case (JObj items)
  have "json_items (map (map_prod VStr thaw) items) = Inr items"
  proof (rule json_items_map)
    fix k x assume "(k, x) \<in> set items"
    with JObj.IH [of "(k, x)" x] JObj.prems show "json_value (thaw x) = Inr x" by (force simp: list_all_iff)
  qed
  then show ?case by (auto simp: list_ex_iff)
qed simp_all

lemma utf8_encode_scalar: "list_all scalar s \<Longrightarrow> utf8_encode s = Inr (concat (map utf8_char s))"
  by (auto simp: utf8_encode_def list_all_iff list_ex_iff scalar_def)

lemma content_hash_thaw: "scalars j \<Longrightarrow> content_hash (thaw j) = Inr (sha256_text (canonical_bytes j))"
  by (simp add: content_hash_def canonical_json_def json_value_thaw utf8_encode_scalar canonical_scalar
      canonical_bytes_def)

lemma canonical_bytes_inj:
  assumes "scalars i" "scalars j" "canonical_bytes i = canonical_bytes j"
  shows "normal i = normal j"
proof -
  have "list_all (\<lambda>c. c < 0x110000) (canonical k)" if "scalars k" for k
    using canonical_scalar [OF that] by (auto simp: list_all_iff scalar_def)
  from utf8.concat_inj [OF this this assms(3) [unfolded canonical_bytes_def]] assms(1,2)
  have "canonical i = canonical j" by blast
  then show ?thesis by (rule canonical_inj)
qed

lemma set_hex_digit: "0 \<le> n \<Longrightarrow> n < 16 \<Longrightarrow> hex_digit n \<in> set ''0123456789abcdef''"
  unfolding hex_digit_def by (rule nth_mem) simp

lemma word_hex_format: "length (word_hex w) = 8 \<and> set (word_hex w) \<subseteq> set ''0123456789abcdef''"
proof (intro conjI subsetI)
  fix c assume "c \<in> set (word_hex w)"
  then obtain i where c: "c = hex_digit (uint w div 16 ^ (7 - i) mod 16)" unfolding word_hex_def by auto
  show "c \<in> set ''0123456789abcdef''" unfolding c by (rule set_hex_digit) simp_all
qed (simp add: word_hex_def)

lemma sha256_hex_format: "length (sha256_hex bs) = 64 \<and> set (sha256_hex bs) \<subseteq> set ''0123456789abcdef''"
proof -
  obtain a b c d e f g h where
    "sha_blocks (length (sha_pad bs) div 64) sha_init (be_words (sha_pad bs)) = (a, b, c, d, e, f, g, h)"
    by (metis surj_pair)
  then obtain ws :: "32 word list" where ws: "length ws = 8" "sha256_hex bs = concat (map word_hex ws)"
    by (simp add: sha256_hex_def Let_def that [of "[a, b, c, d, e, f, g, h]"])
  have "length (concat (map word_hex vs)) = 8 * length vs" for vs
    using word_hex_format by (induction vs) auto
  moreover have "set (concat (map word_hex vs)) \<subseteq> set ''0123456789abcdef''" for vs
    unfolding set_concat set_map using word_hex_format by blast
  ultimately show ?thesis unfolding ws(2) by (simp only: ws(1)) simp
qed

lemma sha256_text_valid: "is_sha256 (sha256_text bs)"
proof -
  have f: "take 7 (sha256_text bs) = ''sha256:''" "drop 7 (sha256_text bs) = sha256_hex bs"
    "length (sha256_text bs) = 7 + length (sha256_hex bs)" by (simp_all add: sha256_text_def)
  show ?thesis unfolding is_sha256_def list_all_iff f
    using sha256_hex_format [of bs] by (intro conjI ballI) (simp, simp, blast)
qed

end
