(* ===== verification/Reasoning_Ledger.thy ===== *)
theory Reasoning_Ledger
  imports Canonical_Json
begin

text \<open>
  The reasoning ledger: the event contract and hash identity of
  \<^verbatim>\<open>app/domain/reasoning_ledger.py\<close> and the append, read and verify operations of
  \<^verbatim>\<open>app/db/reasoning_ledger.py\<close> over the tables of \<^verbatim>\<open>app/db/models/reasoning_ledger.py\<close>. A
  timestamp is its UTC calendar fields, as the validators leave it.
\<close>

subsection \<open>Timestamps and text\<close>

record datetime =
  dt_year :: nat
  dt_month :: nat
  dt_day :: nat
  dt_hour :: nat
  dt_minute :: nat
  dt_second :: nat
  dt_micro :: nat

definition datetime_valid :: "datetime \<Rightarrow> bool" where
  "datetime_valid d = (1 \<le> dt_year d \<and> dt_year d \<le> 9999 \<and> 1 \<le> dt_month d \<and> dt_month d \<le> 12 \<and>
     1 \<le> dt_day d \<and> dt_day d \<le> 31 \<and> dt_hour d \<le> 23 \<and> dt_minute d \<le> 59 \<and> dt_second d \<le> 59 \<and>
     dt_micro d \<le> 999999)"

definition dt_fields :: "datetime \<Rightarrow> nat list" where
  "dt_fields d = [dt_year d, dt_month d, dt_day d, dt_hour d, dt_minute d, dt_second d, dt_micro d]"

text \<open>\<^verbatim>\<open>a < b\<close> on timestamps of the same offset.\<close>

definition dt_less :: "datetime \<Rightarrow> datetime \<Rightarrow> bool" where
  "dt_less a b = (dt_fields a < dt_fields b)"

definition pad :: "nat \<Rightarrow> nat \<Rightarrow> ustr" where
  "pad w n = replicate (w - length (dec_text n)) 48 @ dec_text n"

text \<open>\<^verbatim>\<open>strftime("%Y-%m-%dT%H:%M:%S.%fZ")\<close>, the year in four digits.\<close>

definition timestamp :: "datetime \<Rightarrow> ustr" where
  "timestamp d = pad 4 (dt_year d) @ 45 # pad 2 (dt_month d) @ 45 # pad 2 (dt_day d) @ 84 #
     pad 2 (dt_hour d) @ 58 # pad 2 (dt_minute d) @ 58 # pad 2 (dt_second d) @ 46 #
     pad 6 (dt_micro d) @ [90]"

definition u_isspace :: "nat \<Rightarrow> bool" where
  "u_isspace c = ((9 \<le> c \<and> c \<le> 13) \<or> (28 \<le> c \<and> c \<le> 32) \<or> c = 0x85 \<or> c = 0xA0 \<or> c = 0x1680 \<or>
     (0x2000 \<le> c \<and> c \<le> 0x200A) \<or> c = 0x2028 \<or> c = 0x2029 \<or> c = 0x202F \<or> c = 0x205F \<or> c = 0x3000)"

definition u_blank :: "ustr \<Rightarrow> bool" where
  "u_blank s = list_all u_isspace s"

subsection \<open>Events\<close>

datatype ActorClass = HUMAN | AGENT | SERVICE | POLICY

fun actor_class_value :: "ActorClass \<Rightarrow> string" where
  "actor_class_value HUMAN = ''HUMAN''"
| "actor_class_value AGENT = ''AGENT''"
| "actor_class_value SERVICE = ''SERVICE''"
| "actor_class_value POLICY = ''POLICY''"

record LedgerAppend =
  la_id :: uuid
  la_workspace_id :: uuid
  la_session_id :: uuid
  la_event_type :: ustr
  la_payload_schema_version :: int
  la_causation_id :: "uuid option"
  la_correlation_id :: uuid
  la_actor_class :: ActorClass
  la_actor_id :: uuid
  la_round :: int
  la_payload :: json
  la_recorded_at :: datetime

record LedgerEvent = LedgerAppend +
  le_ledger_seq :: int
  le_payload_hash :: string
  le_prev_hash :: string
  le_event_hash :: string

definition json_payload :: "pyval \<Rightarrow> json result" where
  "json_payload v = ebind (content_hash v) (\<lambda>_. frozen_json v)"

fun is_object :: "json \<Rightarrow> bool" where
  "is_object (JObj ms) = distinct (map fst ms)"
| "is_object _ = False"

text \<open>What the validators of the contract leave: a validated payload consists of Unicode scalars.\<close>

definition LedgerAppend_valid :: "('a) LedgerAppend_scheme \<Rightarrow> bool" where
  "LedgerAppend_valid e = (la_event_type e \<noteq> [] \<and> \<not> u_blank (la_event_type e) \<and>
     list_all scalar (la_event_type e) \<and> 0 < la_payload_schema_version e \<and> 0 \<le> la_round e \<and>
     is_object (la_payload e) \<and> scalars (la_payload e) \<and> datetime_valid (la_recorded_at e))"

definition LedgerEvent_valid :: "LedgerEvent \<Rightarrow> bool" where
  "LedgerEvent_valid e = (LedgerAppend_valid e \<and> 0 < le_ledger_seq e \<and> is_sha256 (le_payload_hash e) \<and>
     is_sha256 (le_prev_hash e) \<and> is_sha256 (le_event_hash e))"

definition GENESIS_HASH :: string where
  "GENESIS_HASH = ''sha256:'' @ replicate 64 (CHR ''0'')"

definition ledger_payload_hash :: "json \<Rightarrow> string result" where
  "ledger_payload_hash payload = content_hash (thaw payload)"

definition juuid :: "uuid \<Rightarrow> json" where
  "juuid u = JStr (ustr (uuid_str u))"

definition event_preimage :: "LedgerEvent \<Rightarrow> json" where
  "event_preimage e = JObj
     [(ustr ''actor_class'', JStr (ustr (actor_class_value (la_actor_class e)))),
      (ustr ''actor_id'', juuid (la_actor_id e)),
      (ustr ''causation_id'', case la_causation_id e of None \<Rightarrow> JNull | Some c \<Rightarrow> juuid c),
      (ustr ''correlation_id'', juuid (la_correlation_id e)),
      (ustr ''event_type'', JStr (la_event_type e)),
      (ustr ''id'', juuid (la_id e)),
      (ustr ''ledger_seq'', JInt (le_ledger_seq e)),
      (ustr ''payload_hash'', JStr (ustr (le_payload_hash e))),
      (ustr ''payload_schema_version'', JInt (la_payload_schema_version e)),
      (ustr ''prev_hash'', JStr (ustr (le_prev_hash e))),
      (ustr ''recorded_at'', JStr (timestamp (la_recorded_at e))),
      (ustr ''round'', JInt (la_round e)),
      (ustr ''session_id'', juuid (la_session_id e)),
      (ustr ''workspace_id'', juuid (la_workspace_id e))]"

definition ledger_event_hash :: "LedgerEvent \<Rightarrow> string result" where
  "ledger_event_hash e = content_hash (thaw (event_preimage e))"

subsection \<open>The ledger tables and operations\<close>

record ledger_head =
  lh_workspace_id :: uuid
  lh_next_seq :: int
  lh_head_hash :: string

record ledger_db =
  lg_heads :: "uuid \<rightharpoonup> ledger_head"
  lg_events :: "LedgerEvent list"

definition empty_ledger :: ledger_db where
  "empty_ledger = \<lparr>lg_heads = Map.empty, lg_events = []\<rparr>"

text \<open>The trigger that gives a new session its ledger head.\<close>

definition create_session_ledger_head :: "ledger_db \<Rightarrow> uuid \<Rightarrow> uuid \<Rightarrow> ledger_db result" where
  "create_session_ledger_head db ws s = (case lg_heads db s of
     Some _ \<Rightarrow> Inl (IntegrityError ''pk_session_ledger_heads'')
   | None \<Rightarrow> Inr (db\<lparr>lg_heads := (lg_heads db)(s \<mapsto>
       \<lparr>lh_workspace_id = ws, lh_next_seq = 1, lh_head_hash = GENESIS_HASH\<rparr>)\<rparr>))"

definition event_by_id :: "ledger_db \<Rightarrow> uuid \<Rightarrow> LedgerEvent option" where
  "event_by_id db i = find (\<lambda>e. la_id e = i) (lg_events db)"

definition get_by_id :: "ledger_db \<Rightarrow> uuid \<Rightarrow> uuid \<Rightarrow> uuid \<Rightarrow> LedgerEvent option" where
  "get_by_id db ws s i = (case event_by_id db i of
     None \<Rightarrow> None
   | Some e \<Rightarrow> if (la_workspace_id e, la_session_id e) \<noteq> (ws, s) then None else Some e)"

text \<open>
  Python compares payloads by value: the order of the members does not matter, and \<^verbatim>\<open>True\<close> and
  \<^verbatim>\<open>1\<close> are equal, as are \<^verbatim>\<open>False\<close> and \<^verbatim>\<open>0\<close>.
\<close>

primrec unbool :: "json \<Rightarrow> json" where
  "unbool JNull = JNull"
| "unbool (JBool b) = JInt (if b then 1 else 0)"
| "unbool (JInt i) = JInt i"
| "unbool (JStr s) = JStr s"
| "unbool (JList xs) = JList (map unbool xs)"
| "unbool (JObj items) = JObj (map (map_prod (\<lambda>k. k) unbool) items)"

definition py_eq :: "json \<Rightarrow> json \<Rightarrow> bool" where
  "py_eq i j = (normal (unbool i) = normal (unbool j))"

definition same_caller_values :: "('a) LedgerAppend_scheme \<Rightarrow> ('b) LedgerAppend_scheme \<Rightarrow> bool" where
  "same_caller_values a e = (la_id a = la_id e \<and> la_workspace_id a = la_workspace_id e \<and>
     la_session_id a = la_session_id e \<and> la_event_type a = la_event_type e \<and>
     la_payload_schema_version a = la_payload_schema_version e \<and>
     la_causation_id a = la_causation_id e \<and> la_correlation_id a = la_correlation_id e \<and>
     la_actor_class a = la_actor_class e \<and> la_actor_id a = la_actor_id e \<and>
     la_round a = la_round e \<and> py_eq (la_payload a) (la_payload e))"

definition idempotent_result :: "LedgerAppend \<Rightarrow> LedgerEvent \<Rightarrow> LedgerEvent result" where
  "idempotent_result requested existing =
     (if \<not> same_caller_values requested existing
      then Inl (LedgerIntegrityError (''reasoning event id '' @ uuid_str (la_id requested) @
        '' already exists with different caller values''))
      else Inr existing)"

definition persisted_event :: "LedgerAppend \<Rightarrow> int \<Rightarrow> string \<Rightarrow> string \<Rightarrow> string \<Rightarrow> LedgerEvent" where
  "persisted_event e seq payload_hash prev_hash event_hash =
     LedgerAppend.extend e \<lparr>le_ledger_seq = seq, le_payload_hash = payload_hash,
       le_prev_hash = prev_hash, le_event_hash = event_hash\<rparr>"

text \<open>The part of an append after the head row is locked; the flush checks the table's keys.\<close>

definition append_locked ::
  "ledger_db \<Rightarrow> ledger_head \<Rightarrow> LedgerAppend \<Rightarrow> (ledger_db \<times> LedgerEvent) result" where
  "append_locked db head e =
     ebind (ledger_payload_hash (la_payload e)) (\<lambda>payload_hash.
     let draft = persisted_event e (lh_next_seq head) payload_hash (lh_head_hash head) GENESIS_HASH in
     ebind (eguard (LedgerEvent_valid draft) (ValueError ''LedgerEvent'')) (\<lambda>_.
     ebind (ledger_event_hash draft) (\<lambda>event_hash.
     let persisted = draft\<lparr>le_event_hash := event_hash\<rparr> in
     ebind (eguard (\<not> list_ex (\<lambda>x. la_id x = la_id e \<or> la_session_id x = la_session_id e \<and>
                      le_ledger_seq x = le_ledger_seq persisted) (lg_events db))
              (IntegrityError ''reasoning_events'')) (\<lambda>_.
     Inr (db\<lparr>lg_events := lg_events db @ [persisted],
             lg_heads := (lg_heads db)(la_session_id e \<mapsto> head\<lparr>lh_next_seq := le_ledger_seq persisted + 1,
               lh_head_hash := le_event_hash persisted\<rparr>)\<rparr>, persisted)))))"

text \<open>
  The state the locked part sees, \<open>db'\<close>, may be later than the one of the first look-up, \<open>db\<close>: the lock
  waits for the transactions that hold it. A call with nothing in between is \<open>append\<close>.
\<close>

definition append_between ::
  "ledger_db \<Rightarrow> ledger_db \<Rightarrow> LedgerAppend \<Rightarrow> (ledger_db \<times> LedgerEvent) result" where
  "append_between db db' e =
     (case event_by_id db (la_id e) of
        Some existing \<Rightarrow> ebind (idempotent_result e existing) (\<lambda>x. Inr (db', x))
      | None \<Rightarrow>
          (case lg_heads db' (la_session_id e) of
             None \<Rightarrow> Inl (LedgerIntegrityError (''session '' @ uuid_str (la_session_id e) @
               '' has no ledger head in workspace '' @ uuid_str (la_workspace_id e)))
           | Some head \<Rightarrow>
               if lh_workspace_id head \<noteq> la_workspace_id e
               then Inl (LedgerIntegrityError (''session '' @ uuid_str (la_session_id e) @
                 '' has no ledger head in workspace '' @ uuid_str (la_workspace_id e)))
               else (case event_by_id db' (la_id e) of
                       Some existing \<Rightarrow> ebind (idempotent_result e existing) (\<lambda>x. Inr (db', x))
                     | None \<Rightarrow> append_locked db' head e)))"

definition ledger_append :: "ledger_db \<Rightarrow> LedgerAppend \<Rightarrow> (ledger_db \<times> LedgerEvent) result" where
  "ledger_append db e = append_between db db e"

definition session_rows :: "ledger_db \<Rightarrow> uuid \<Rightarrow> uuid \<Rightarrow> LedgerEvent list" where
  "session_rows db ws s = sort_key le_ledger_seq
     (filter (\<lambda>e. la_workspace_id e = ws \<and> la_session_id e = s) (lg_events db))"

definition ledger_read :: "ledger_db \<Rightarrow> uuid \<Rightarrow> uuid \<Rightarrow> int \<Rightarrow> int \<Rightarrow> LedgerEvent list result" where
  "ledger_read db ws s from_seq limit =
     (if from_seq \<le> 0 then Inl (ValueError ''from_seq must be positive'')
      else if limit \<le> 0 then Inl (ValueError ''limit must be positive'')
      else Inr (take (nat limit) (filter (\<lambda>e. from_seq \<le> le_ledger_seq e) (session_rows db ws s))))"

definition int_string :: "int \<Rightarrow> string" where
  "int_string i = map char_of (int_text i)"

text \<open>The loop of the verification: a failure, or the hash of the last event.\<close>

fun verify_loop :: "int \<Rightarrow> string \<Rightarrow> LedgerEvent list \<Rightarrow> ((int \<times> string) + string) result" where
  "verify_loop expected previous [] = Inr (Inr previous)"
| "verify_loop expected previous (e # es) =
     (if le_ledger_seq e \<noteq> expected
      then Inr (Inl (le_ledger_seq e, ''expected ledger sequence '' @ int_string expected))
      else ebind (ledger_payload_hash (la_payload e)) (\<lambda>payload_hash.
        if le_payload_hash e \<noteq> payload_hash then Inr (Inl (le_ledger_seq e, ''payload hash mismatch''))
        else if le_prev_hash e \<noteq> previous then Inr (Inl (le_ledger_seq e, ''previous hash mismatch''))
        else ebind (ledger_event_hash e) (\<lambda>event_hash.
          if le_event_hash e \<noteq> event_hash then Inr (Inl (le_ledger_seq e, ''event hash mismatch''))
          else verify_loop (expected + 1) (le_event_hash e) es)))"

definition verify_events ::
  "LedgerEvent list \<Rightarrow> int \<Rightarrow> string \<Rightarrow> (int option \<times> string) option result" where
  "verify_events events next_seq head_hash =
     ebind (verify_loop 1 GENESIS_HASH events) (\<lambda>r. Inr (case r of
       Inl (failed_seq, reason) \<Rightarrow> Some (Some failed_seq, reason)
     | Inr previous \<Rightarrow>
         if next_seq \<noteq> int (length events) + 1 then Some (None, ''ledger head next sequence mismatch'')
         else if head_hash \<noteq> previous then Some (None, ''ledger head hash mismatch'')
         else None))"

record LedgerVerification =
  lv_valid :: bool
  lv_event_count :: int
  lv_head_hash :: string
  lv_first_invalid_seq :: "int option"
  lv_reason :: "string option"

definition failure_shape :: "LedgerVerification \<Rightarrow> bool" where
  "failure_shape v = ((lv_valid v \<longrightarrow> lv_first_invalid_seq v = None \<and> lv_reason v = None) \<and>
     (\<not> lv_valid v \<longrightarrow> lv_reason v \<noteq> None))"

definition ledger_verify :: "ledger_db \<Rightarrow> uuid \<Rightarrow> uuid \<Rightarrow> LedgerVerification result" where
  "ledger_verify db ws s =
     (case (case lg_heads db s of None \<Rightarrow> None
            | Some head \<Rightarrow> if lh_workspace_id head = ws then Some head else None) of
        None \<Rightarrow> Inr \<lparr>lv_valid = False, lv_event_count = 0, lv_head_hash = GENESIS_HASH,
                     lv_first_invalid_seq = None, lv_reason = Some ''session ledger head is missing''\<rparr>
      | Some head \<Rightarrow>
          (let events = session_rows db ws s in
           ebind (verify_events events (lh_next_seq head) (lh_head_hash head)) (\<lambda>failure.
           Inr (case failure of
             Some (failed_seq, reason) \<Rightarrow>
               \<lparr>lv_valid = False, lv_event_count = int (length events), lv_head_hash = lh_head_hash head,
                lv_first_invalid_seq = failed_seq, lv_reason = Some reason\<rparr>
           | None \<Rightarrow>
               \<lparr>lv_valid = True, lv_event_count = int (length events), lv_head_hash = lh_head_hash head,
                lv_first_invalid_seq = None, lv_reason = None\<rparr>))))"

subsection \<open>Chains of events and the ledger invariant\<close>

definition payload_digest :: "json \<Rightarrow> string" where
  "payload_digest j = sha256_text (canonical_bytes j)"

definition event_digest :: "LedgerEvent \<Rightarrow> string" where
  "event_digest e = sha256_text (canonical_bytes (event_preimage e))"

text \<open>A validated event with the given number and predecessor whose two digests are right.\<close>

definition link :: "int \<Rightarrow> string \<Rightarrow> LedgerEvent \<Rightarrow> bool" where
  "link n prev e = (LedgerAppend_valid e \<and> le_ledger_seq e = n \<and> le_prev_hash e = prev \<and>
     le_payload_hash e = payload_digest (la_payload e) \<and> le_event_hash e = event_digest e)"

fun chain :: "int \<Rightarrow> string \<Rightarrow> LedgerEvent list \<Rightarrow> bool" where
  "chain n prev [] = True"
| "chain n prev (e # es) = (link n prev e \<and> chain (n + 1) (le_event_hash e) es)"

definition last_hash :: "string \<Rightarrow> LedgerEvent list \<Rightarrow> string" where
  "last_hash prev es = (if es = [] then prev else le_event_hash (last es))"

definition rows_of :: "ledger_db \<Rightarrow> uuid \<Rightarrow> LedgerEvent list" where
  "rows_of db s = filter (\<lambda>e. la_session_id e = s) (lg_events db)"

definition head_ok :: "ledger_db \<Rightarrow> uuid \<Rightarrow> ledger_head \<Rightarrow> bool" where
  "head_ok db s h = (chain 1 GENESIS_HASH (rows_of db s) \<and> lh_next_seq h = int (length (rows_of db s)) + 1 \<and>
     lh_head_hash h = last_hash GENESIS_HASH (rows_of db s) \<and>
     (\<forall>e \<in> set (rows_of db s). la_workspace_id e = lh_workspace_id h))"

definition ledger_wf :: "ledger_db \<Rightarrow> bool" where
  "ledger_wf db = (distinct (map la_id (lg_events db)) \<and>
     (\<forall>e \<in> set (lg_events db). lg_heads db (la_session_id e) \<noteq> None) \<and>
     (\<forall>s h. lg_heads db s = Some h \<longrightarrow> head_ok db s h))"

definition next_event :: "ledger_head \<Rightarrow> LedgerAppend \<Rightarrow> LedgerEvent" where
  "next_event h e = (let d = persisted_event e (lh_next_seq h) (payload_digest (la_payload e)) (lh_head_hash h) GENESIS_HASH
     in d\<lparr>le_event_hash := event_digest d\<rparr>)"

definition with_event :: "ledger_db \<Rightarrow> ledger_head \<Rightarrow> LedgerEvent \<Rightarrow> ledger_db" where
  "with_event db h x = db\<lparr>lg_events := lg_events db @ [x],
     lg_heads := (lg_heads db)(la_session_id x \<mapsto>
       h\<lparr>lh_next_seq := le_ledger_seq x + 1, lh_head_hash := le_event_hash x\<rparr>)\<rparr>"

text \<open>A series of append calls by anyone; a call that raises rolls its transaction back.\<close>

primrec append_run :: "('l \<Rightarrow> LedgerAppend \<Rightarrow> ('l \<times> LedgerEvent) result) \<Rightarrow> 'l \<Rightarrow> LedgerAppend list \<Rightarrow> 'l" where
  "append_run app l [] = l"
| "append_run app l (e # es) =
     append_run app (case app l e of Inl _ \<Rightarrow> l | Inr (l', _) \<Rightarrow> l') es"

text \<open>What of an event its hash identifies: every field, the payload up to the order of members.\<close>

definition same_content :: "LedgerEvent \<Rightarrow> LedgerEvent \<Rightarrow> bool" where
  "same_content e f = (normal (la_payload e) = normal (la_payload f) \<and>
     e\<lparr>la_payload := JNull\<rparr> = f\<lparr>la_payload := JNull\<rparr>)"

text \<open>Two events of which the payloads, or the preimages, differ in their bytes and not in their digests.\<close>

definition collision :: "LedgerEvent list \<Rightarrow> LedgerEvent list \<Rightarrow> bool" where
  "collision es fs = (\<exists>e \<in> set es. \<exists>f \<in> set fs.
     canonical_bytes (la_payload e) \<noteq> canonical_bytes (la_payload f) \<and>
       payload_digest (la_payload e) = payload_digest (la_payload f) \<or>
     canonical_bytes (event_preimage e) \<noteq> canonical_bytes (event_preimage f) \<and> event_digest e = event_digest f)"

text \<open>
  The states the operations reach. An append may have looked the event up in an earlier state \<open>db0\<close>
  whose events the current state extends.
\<close>

inductive ledger_reachable :: "ledger_db \<Rightarrow> bool" where
  empty: "ledger_reachable empty_ledger"
| session: "ledger_reachable db \<Longrightarrow> create_session_ledger_head db ws s = Inr db' \<Longrightarrow> ledger_reachable db'"
| append: "ledger_reachable db \<Longrightarrow> LedgerAppend_valid e \<Longrightarrow> lg_events db = lg_events db0 @ later \<Longrightarrow>
    append_between db0 db e = Inr (db', x) \<Longrightarrow> ledger_reachable db'"

subsection \<open>Hashes of validated events\<close>

lemma scalars_object: "scalars (JObj ms) \<longleftrightarrow> (\<forall>(k, v) \<in> set ms. list_all scalar k \<and> scalars v)"
  by (auto simp: list_all_iff [of "\<lambda>kb. list_all scalar (fst kb) \<and> snd kb"])

lemma pad_scalar: "list_all scalar (pad w n)"
  using dec_text_digits [of n] by (auto simp: pad_def list_all_iff is_digit_def intro!: scalar_ascii)

lemma timestamp_scalar: "list_all scalar (timestamp d)"
  by (simp add: timestamp_def pad_scalar scalar_ascii)

lemma event_preimage_scalars: "list_all scalar (la_event_type e) \<Longrightarrow> scalars (event_preimage e)"
  unfolding event_preimage_def scalars_object
  by (simp add: ustr_scalar timestamp_scalar juuid_def split: option.splits)

lemma ledger_payload_hash_valid: "scalars j \<Longrightarrow> ledger_payload_hash j = Inr (payload_digest j)"
  by (simp add: ledger_payload_hash_def content_hash_thaw payload_digest_def)

lemma ledger_event_hash_valid:
  "list_all scalar (la_event_type e) \<Longrightarrow> ledger_event_hash e = Inr (event_digest e)"
  by (simp add: ledger_event_hash_def content_hash_thaw event_digest_def event_preimage_scalars)

lemma digests_valid: "is_sha256 (payload_digest j)" "is_sha256 (event_digest e)"
  by (simp_all add: payload_digest_def event_digest_def sha256_text_valid)

lemma genesis_valid: "is_sha256 GENESIS_HASH"
  by (simp add: is_sha256_def GENESIS_HASH_def list_all_iff)

lemma preimage_ignores_hash [simp]:
  "event_preimage (e\<lparr>le_event_hash := h\<rparr>) = event_preimage e"
  "event_digest (e\<lparr>le_event_hash := h\<rparr>) = event_digest e"
  by (simp_all add: event_preimage_def event_digest_def)

lemma persisted_simps [simp]:
  "la_id (persisted_event a q p v h) = la_id a"
  "la_session_id (persisted_event a q p v h) = la_session_id a"
  "la_workspace_id (persisted_event a q p v h) = la_workspace_id a"
  "la_event_type (persisted_event a q p v h) = la_event_type a"
  "la_payload (persisted_event a q p v h) = la_payload a"
  "la_recorded_at (persisted_event a q p v h) = la_recorded_at a"
  "le_ledger_seq (persisted_event a q p v h) = q"
  "le_payload_hash (persisted_event a q p v h) = p"
  "le_prev_hash (persisted_event a q p v h) = v"
  "le_event_hash (persisted_event a q p v h) = h"
  "same_caller_values a (persisted_event a q p v h)"
  "LedgerAppend_valid (persisted_event a q p v h) = LedgerAppend_valid a"
  by (simp_all add: persisted_event_def LedgerAppend.defs same_caller_values_def py_eq_def
      LedgerAppend_valid_def)

subsection \<open>Lemmas on chains\<close>

lemma last_hash_simps [simp]:
  "last_hash p [] = p" "last_hash p (e # es) = last_hash (le_event_hash e) es"
  "last_hash p (es @ [e]) = le_event_hash e"
  by (simp_all add: last_hash_def)

lemma chain_append: "chain n p (es @ fs) \<longleftrightarrow> chain n p es \<and> chain (n + int (length es)) (last_hash p es) fs"
  by (induction es arbitrary: n p) (auto simp: algebra_simps)

lemma chain_verifies: "chain n p es \<Longrightarrow> verify_loop n p es = Inr (Inr (last_hash p es))"
  by (induction n p es rule: chain.induct)
     (auto simp: link_def LedgerAppend_valid_def ledger_payload_hash_valid ledger_event_hash_valid)

lemma verifies_chain:
  assumes "list_all LedgerAppend_valid es" "verify_loop n p es = Inr (Inr h)"
  shows "chain n p es \<and> h = last_hash p es"
  using assms
  by (induction n p es rule: chain.induct)
     (auto simp: link_def LedgerAppend_valid_def ledger_payload_hash_valid ledger_event_hash_valid split: if_splits)

lemma chain_seqs: "chain n p es \<Longrightarrow> map le_ledger_seq es = [n..n + int (length es) - 1]"
proof (induction n p es rule: chain.induct)
  case (2 n p e es)
  then have "map le_ledger_seq es = [n + 1..n + 1 + int (length es) - 1]" by simp
  moreover have "[n..n + int (length (e # es)) - 1] = n # [n + 1..n + int (length (e # es)) - 1]"
    by (simp add: upto_rec1)
  ultimately show ?case using 2 by (simp add: link_def algebra_simps)
qed simp

lemma chain_sorted: "chain n p es \<Longrightarrow> sort_key le_ledger_seq es = es"
  by (rule sort_key_id_if_sorted) (simp add: chain_seqs)

subsection \<open>The ledger invariant\<close>

lemma chain_hash_valid: "chain n p es \<Longrightarrow> is_sha256 p \<Longrightarrow> is_sha256 (last_hash p es)"
  by (induction n p es rule: chain.induct) (auto simp: link_def digests_valid)

lemma chain_seq_bounds:
  assumes "chain n p es" "e \<in> set es"
  shows "n \<le> le_ledger_seq e \<and> le_ledger_seq e < n + int (length es)"
proof -
  have "le_ledger_seq e \<in> set (map le_ledger_seq es)" using assms(2) by simp
  then show ?thesis unfolding chain_seqs [OF assms(1)] by simp
qed

lemma next_event_simps [simp]:
  "la_id (next_event h e) = la_id e" "la_session_id (next_event h e) = la_session_id e"
  "la_workspace_id (next_event h e) = la_workspace_id e" "le_ledger_seq (next_event h e) = lh_next_seq h"
  by (simp_all add: next_event_def Let_def)

lemma next_event_caller: "same_caller_values e (next_event h e)" "la_recorded_at (next_event h e) = la_recorded_at e"
  using persisted_simps(11) [of e] by (simp_all add: next_event_def Let_def same_caller_values_def)

lemma next_event_link: "LedgerAppend_valid e \<Longrightarrow> link (lh_next_seq h) (lh_head_hash h) (next_event h e)"
  using persisted_simps(12) [of e] by (simp add: link_def next_event_def Let_def LedgerAppend_valid_def)

lemma append_locked_wf:
  assumes "ledger_wf db" "LedgerAppend_valid e" "lg_heads db (la_session_id e) = Some h"
    and "event_by_id db (la_id e) = None"
  shows "append_locked db h e = Inr (with_event db h (next_event h e), next_event h e)"
proof -
  have ok: "head_ok db (la_session_id e) h" using assms(1,3) by (simp add: ledger_wf_def)
  have v: "0 < lh_next_seq h" "is_sha256 (lh_head_hash h)"
    using ok chain_hash_valid [OF _ genesis_valid] by (auto simp: head_ok_def)
  have "\<not> list_ex (\<lambda>x. la_id x = la_id e \<or> la_session_id x = la_session_id e \<and> le_ledger_seq x = lh_next_seq h) (lg_events db)"
    using assms(4) ok chain_seq_bounds [of 1 GENESIS_HASH "rows_of db (la_session_id e)"]
    by (fastforce simp: list_ex_iff event_by_id_def find_None_iff head_ok_def rows_of_def)
  moreover have "scalars (la_payload e)" "list_all scalar (la_event_type e)"
    using assms(2) by (simp_all add: LedgerAppend_valid_def)
  ultimately show ?thesis
    using v assms(2)
    by (simp add: append_locked_def Let_def ledger_payload_hash_valid ledger_event_hash_valid
        LedgerEvent_valid_def digests_valid genesis_valid eguard_def next_event_def with_event_def)
qed

lemma rows_of_with_event:
  "rows_of (with_event db h x) s = (if la_session_id x = s then rows_of db s @ [x] else rows_of db s)"
  by (simp add: rows_of_def with_event_def)

lemma with_event_wf:
  assumes "ledger_wf db" "LedgerAppend_valid e" "lg_heads db (la_session_id e) = Some h"
    and "event_by_id db (la_id e) = None" "lh_workspace_id h = la_workspace_id e"
  shows "ledger_wf (with_event db h (next_event h e))"
proof -
  have ok: "head_ok db (la_session_id e) h" using assms(1,3) by (simp add: ledger_wf_def)
  have "chain 1 GENESIS_HASH (rows_of db (la_session_id e) @ [next_event h e])"
    using ok next_event_link [OF assms(2), of h] by (simp add: chain_append head_ok_def add.commute)
  then have new: "head_ok (with_event db h (next_event h e)) (la_session_id e)
      (h\<lparr>lh_next_seq := le_ledger_seq (next_event h e) + 1, lh_head_hash := le_event_hash (next_event h e)\<rparr>)"
    using ok assms(5) by (simp add: head_ok_def rows_of_with_event)
  have old: "head_ok (with_event db h (next_event h e)) s h'" if "head_ok db s h'" "s \<noteq> la_session_id e" for s h'
    using that by (simp add: head_ok_def rows_of_with_event)
  show ?thesis
    using assms(1,4) new old
    by (auto simp: ledger_wf_def with_event_def event_by_id_def find_None_iff)
qed

subsection \<open>Texts that identify their values\<close>

lemma digits_unique:
  fixes a b :: int
  assumes "0 \<le> a" "0 \<le> b" "a < 16 ^ n" "b < 16 ^ n" "\<And>i. i < n \<Longrightarrow> a div 16 ^ i mod 16 = b div 16 ^ i mod 16"
  shows "a = b"
  using assms
proof (induction n arbitrary: a b)
  case (Suc n)
  have "(a div 16) div 16 ^ i mod 16 = (b div 16) div 16 ^ i mod 16" if "i < n" for i
    using Suc.prems(5) [of "Suc i"] that by (simp add: zdiv_zmult2_eq mult.commute)
  moreover have "a div 16 < 16 ^ n" "b div 16 < 16 ^ n"
    using Suc.prems(3,4) by simp_all
  ultimately have "a div 16 = b div 16" using Suc.IH [of "a div 16" "b div 16"] Suc.prems(1,2)
    by (simp add: pos_imp_zdiv_nonneg_iff)
  moreover have "a mod 16 = b mod 16" using Suc.prems(5) [of 0] by simp
  ultimately show ?case by (metis div_mult_mod_eq)
qed simp

lemma hex_digit_inj:
  assumes "0 \<le> a" "a < 16" "0 \<le> b" "b < 16" "hex_digit a = hex_digit b"
  shows "a = b"
proof -
  have "distinct ''0123456789abcdef''" by simp
  then have "nat a = nat b"
    using assms nth_eq_iff_index_eq [of "''0123456789abcdef''" "nat a" "nat b"] unfolding hex_digit_def by simp
  then show ?thesis using assms by simp
qed

lemma uuid_hex_inj:
  assumes "uuid_hex u = uuid_hex v"
  shows "u = v"
proof -
  have "uint u div 16 ^ i mod 16 = uint v div 16 ^ i mod 16" if "i < 32" for i
  proof -
    have "uuid_hex u ! (31 - i) = uuid_hex v ! (31 - i)" using assms by simp
    moreover have "[0..<32] ! (31 - i) = 31 - i" "31 - (31 - i) = i" using that by simp_all
    ultimately have "hex_digit (uint u div 16 ^ i mod 16) = hex_digit (uint v div 16 ^ i mod 16)"
      by (simp add: uuid_hex_def)
    then show ?thesis by (intro hex_digit_inj) simp_all
  qed
  moreover have "uint w < 16 ^ 32" for w :: uuid
    using uint_lt2p [of w] by simp
  ultimately have "uint u = uint v" using digits_unique [OF uint_ge_0 uint_ge_0] by blast
  then show ?thesis by (rule word_uint_eqI)
qed

lemma uuid_hex_no_dash: "CHR ''-'' \<notin> set (uuid_hex u)"
proof
  assume "CHR ''-'' \<in> set (uuid_hex u)"
  then obtain i where "CHR ''-'' = hex_digit (uint u div 16 ^ (31 - i) mod 16)" by (auto simp: uuid_hex_def)
  moreover have "hex_digit (uint u div 16 ^ (31 - i) mod 16) \<in> set ''0123456789abcdef''"
    by (rule set_hex_digit) simp_all
  moreover have "CHR ''-'' \<notin> set ''0123456789abcdef''" by simp
  ultimately show False by metis
qed

lemma uuid_str_hex: "filter (\<lambda>c. c \<noteq> CHR ''-'') (uuid_str u) = uuid_hex u"
proof -
  have keep: "filter (\<lambda>c. c \<noteq> CHR ''-'') xs = xs" if "set xs \<subseteq> set (uuid_hex u)" for xs
    using that uuid_hex_no_dash by (intro filter_True) blast
  have sub: "set (take m (drop n (uuid_hex u))) \<subseteq> set (uuid_hex u)" "set (drop n (uuid_hex u)) \<subseteq> set (uuid_hex u)"
    "set (take m (uuid_hex u)) \<subseteq> set (uuid_hex u)" for m n
    by (meson set_drop_subset set_take_subset subset_trans)+
  have cut: "drop a xs = take k (drop a xs) @ drop (a + k) xs" for a k and xs :: string
    by (metis add.commute append_take_drop_id drop_drop)
  have "uuid_hex u = take 8 (uuid_hex u) @ take 4 (drop 8 (uuid_hex u)) @ take 4 (drop 12 (uuid_hex u)) @
      take 4 (drop 16 (uuid_hex u)) @ drop 20 (uuid_hex u)"
    using cut [of 8 "uuid_hex u" 4] cut [of 12 "uuid_hex u" 4] cut [of 16 "uuid_hex u" 4]
      append_take_drop_id [of 8 "uuid_hex u"] by simp
  then show ?thesis by (simp add: uuid_str_def Let_def keep sub)
qed

lemma uuid_str_inj: "uuid_str u = uuid_str v \<Longrightarrow> u = v"
  using uuid_str_hex uuid_hex_inj by metis

lemma ustr_inj: "ustr s = ustr t \<Longrightarrow> s = t"
  unfolding ustr_def using inj_of_char by (metis inj_map_eq_map)

lemma pad_value: "dec_value (pad w n) = n"
proof -
  have "foldl (\<lambda>n d. n * 10 + (d - 48)) 0 (replicate k 48 @ ds) = foldl (\<lambda>n d. n * 10 + (d - 48)) (0::nat) ds" for k ds
    by (induction k) auto
  then show ?thesis using dec_value_text [of n] by (simp add: pad_def)
qed

lemma dec_text_length: "n < 10 ^ w \<Longrightarrow> 0 < w \<Longrightarrow> length (dec_text n) \<le> w"
proof (induction n arbitrary: w rule: dec_text.induct)
  case (1 n)
  show ?case
  proof (cases "n < 10")
    case True
    with 1 show ?thesis by (subst dec_text.simps) simp
  next
    case False
    with 1 have "1 < w" by (cases w; cases "w - 1") auto
    then have "n div 10 < 10 ^ (w - 1)" using 1(2) by (cases w) auto
    with 1(1) [OF False, of "w - 1"] \<open>1 < w\<close> False show ?thesis by (subst dec_text.simps) simp
  qed
qed

lemma pad_length: "n < 10 ^ w \<Longrightarrow> 0 < w \<Longrightarrow> length (pad w n) = w"
  using dec_text_length [of n w] by (simp add: pad_def)

lemma pad_eq_iff: "pad w m = pad w n \<longleftrightarrow> m = n"
  using pad_value by metis

lemma timestamp_inj:
  assumes "datetime_valid d" "datetime_valid e" "timestamp d = timestamp e"
  shows "d = e"
proof -
  have b: "length (pad 4 (dt_year x)) = 4" "length (pad 2 (dt_month x)) = 2" "length (pad 2 (dt_day x)) = 2"
      "length (pad 2 (dt_hour x)) = 2" "length (pad 2 (dt_minute x)) = 2" "length (pad 2 (dt_second x)) = 2"
      "length (pad 6 (dt_micro x)) = 6" if "datetime_valid x" for x
    using that by (auto simp: datetime_valid_def intro!: pad_length)
  show ?thesis
    using assms(3) by (simp add: timestamp_def b [OF assms(1)] b [OF assms(2)] pad_eq_iff)
qed

lemma same_keys_same_list:
  assumes "set A = set B" "map fst A = map fst B" "distinct (map fst A)"
  shows "A = B"
proof -
  have eq: "C = map (\<lambda>k. (k, the (map_of C k))) (map fst C)" if "distinct (map fst C)" for C :: "('a \<times> 'b) list"
    using that by (auto intro!: map_idI [symmetric] simp: comp_def)
  have "map_of A = map_of B" using assms by (simp add: map_of_inject_set)
  then show ?thesis using eq [of A] eq [of B] assms(2,3) by metis
qed

text \<open>The keys of an object in normal form determine where its values stand.\<close>

lemma normal_obj_values:
  assumes "normal (JObj xs) = normal (JObj ys)" "map fst xs = map fst ys" "distinct (map fst xs)"
  shows "map (\<lambda>kv. normal (snd kv)) xs = map (\<lambda>kv. normal (snd kv)) ys"
proof -
  let ?n = "\<lambda>kv. (fst kv, normal (snd kv)) :: ustr \<times> json"
  have "map ?n (sort_key (\<lambda>kv. utf16_key (fst kv)) xs) = map ?n (sort_key (\<lambda>kv. utf16_key (fst kv)) ys)"
    using assms(1) unfolding normal_obj by simp
  then have "set (map ?n (sort_key (\<lambda>kv. utf16_key (fst kv)) xs)) =
      set (map ?n (sort_key (\<lambda>kv. utf16_key (fst kv)) ys))" by (simp only:)
  then have "set (map ?n xs) = set (map ?n ys)" by simp
  moreover have "map fst (map ?n xs) = map fst (map ?n ys)" "distinct (map fst (map ?n xs))"
    using assms(2,3) by (simp_all add: comp_def)
  ultimately have "map ?n xs = map ?n ys" by (intro same_keys_same_list)
  then have "map snd (map ?n xs) = map snd (map ?n ys)" by (simp only:)
  then show ?thesis by (simp add: comp_def)
qed

lemma juuid_inj: "normal (juuid u) = normal (juuid v) \<Longrightarrow> u = v"
  using ustr_inj uuid_str_inj by (auto simp: juuid_def)

lemma actor_class_inj: "actor_class_value a = actor_class_value b \<Longrightarrow> a = b"
  by (cases a; cases b) simp_all

lemma causation_inj:
  "normal (case a of None \<Rightarrow> JNull | Some c \<Rightarrow> juuid c) = normal (case b of None \<Rightarrow> JNull | Some c \<Rightarrow> juuid c) \<Longrightarrow> a = b"
  by (auto simp: juuid_def split: option.splits dest!: ustr_inj uuid_str_inj)

lemma preimage_inj:
  assumes "LedgerAppend_valid e" "LedgerAppend_valid f" "normal (event_preimage e) = normal (event_preimage f)"
  shows "e\<lparr>la_payload := JNull, le_event_hash := h\<rparr> = f\<lparr>la_payload := JNull, le_event_hash := h\<rparr>"
proof -
  have "map (\<lambda>kv. normal (snd kv)) (case event_preimage e of JObj ms \<Rightarrow> ms | _ \<Rightarrow> []) =
      map (\<lambda>kv. normal (snd kv)) (case event_preimage f of JObj ms \<Rightarrow> ms | _ \<Rightarrow> [])"
    by (rule normal_obj_values) (use assms(3) in \<open>simp_all add: event_preimage_def ustr_def\<close>)
  then have
    "actor_class_value (la_actor_class e) = actor_class_value (la_actor_class f)"
    "la_actor_id e = la_actor_id f" "la_causation_id e = la_causation_id f"
    "la_correlation_id e = la_correlation_id f" "la_event_type e = la_event_type f" "la_id e = la_id f"
    "le_ledger_seq e = le_ledger_seq f" "le_payload_hash e = le_payload_hash f"
    "la_payload_schema_version e = la_payload_schema_version f" "le_prev_hash e = le_prev_hash f"
    "timestamp (la_recorded_at e) = timestamp (la_recorded_at f)" "la_round e = la_round f"
    "la_session_id e = la_session_id f" "la_workspace_id e = la_workspace_id f"
    unfolding event_preimage_def
    by (simp_all add: juuid_inj causation_inj) (auto dest: ustr_inj juuid_inj causation_inj)
  moreover have "datetime_valid (la_recorded_at e)" "datetime_valid (la_recorded_at f)"
    using assms(1,2) by (simp_all add: LedgerAppend_valid_def)
  ultimately show ?thesis using actor_class_inj timestamp_inj by simp
qed

lemma collision_mono: "collision es fs \<Longrightarrow> set es \<subseteq> set es' \<Longrightarrow> set fs \<subseteq> set fs' \<Longrightarrow> collision es' fs'"
  unfolding collision_def by blast

lemma link_unique:
  assumes "link m p e" "link n q f" "le_event_hash e = le_event_hash f" "\<not> collision [e] [f]"
  shows "same_content e f"
proof -
  have v: "LedgerAppend_valid e" "LedgerAppend_valid f" using assms(1,2) by (simp_all add: link_def)
  have sc: "scalars (la_payload e)" "scalars (la_payload f)" "scalars (event_preimage e)" "scalars (event_preimage f)"
    using v by (simp_all add: LedgerAppend_valid_def event_preimage_scalars)
  have "sha256_text (canonical_bytes (event_preimage e)) = sha256_text (canonical_bytes (event_preimage f))"
    using assms(1-3) by (simp add: link_def event_digest_def)
  then have "canonical_bytes (event_preimage e) = canonical_bytes (event_preimage f)"
    using assms(4) by (auto simp: collision_def payload_digest_def event_digest_def)
  then have "normal (event_preimage e) = normal (event_preimage f)" using canonical_bytes_inj sc(3,4) by blast
  note eq = preimage_inj [OF v this, of "le_event_hash e"]
  then have rest: "e\<lparr>la_payload := JNull\<rparr> = f\<lparr>la_payload := JNull\<rparr>"
    using assms(3) by (cases e; cases f) simp
  have "le_payload_hash e = le_payload_hash f" using arg_cong [OF rest, of le_payload_hash] by simp
  then have "sha256_text (canonical_bytes (la_payload e)) = sha256_text (canonical_bytes (la_payload f))"
    using assms(1,2) by (simp add: link_def payload_digest_def)
  then have "canonical_bytes (la_payload e) = canonical_bytes (la_payload f)"
    using assms(4) by (auto simp: collision_def payload_digest_def event_digest_def)
  then have "normal (la_payload e) = normal (la_payload f)" using canonical_bytes_inj sc(1,2) by blast
  with rest show ?thesis by (simp add: same_content_def)
qed

lemma same_content_prev: "same_content e f \<Longrightarrow> le_prev_hash e = le_prev_hash f"
  unfolding same_content_def by (cases e; cases f) simp

lemma chain_unique:
  assumes "chain n p es" "chain n p fs" "length es = length fs" "last_hash p es = last_hash p fs"
    and "\<not> collision es fs"
  shows "list_all2 same_content es fs"
  using assms
proof (induction es arbitrary: fs rule: rev_induct)
  case (snoc e es)
  then obtain gs g where fs: "fs = gs @ [g]" by (cases fs rule: rev_cases) auto
  have l: "link (n + int (length es)) (last_hash p es) e" "link (n + int (length gs)) (last_hash p gs) g"
    using snoc.prems(1,2) by (simp_all add: fs chain_append)
  have nc: "\<not> collision [e] [g]" "\<not> collision es gs"
    using snoc.prems(5) collision_mono [of "[e]" "[g]" "es @ [e]" "gs @ [g]"] collision_mono [of es gs "es @ [e]" "gs @ [g]"]
    unfolding fs by auto
  have same: "same_content e g" using link_unique [OF l _ nc(1)] snoc.prems(4) by (simp add: fs)
  have "last_hash p es = last_hash p gs" using l same_content_prev [OF same] by (simp add: link_def)
  then have "list_all2 same_content es gs"
    using snoc.IH [of gs] snoc.prems nc(2) by (simp add: fs chain_append)
  with same show ?case unfolding fs by (intro list_all2_appendI) auto
qed simp

subsection \<open>Reachable ledgers\<close>

lemma find_prefix: "find P xs = Some x \<Longrightarrow> find P (xs @ ys) = Some x"
  by (induction xs) auto

lemma event_by_id_prefix:
  "lg_events db = lg_events db0 @ later \<Longrightarrow> event_by_id db0 i = Some x \<Longrightarrow> event_by_id db i = Some x"
  by (simp add: event_by_id_def find_prefix)

lemma event_by_id_SomeD: "event_by_id db i = Some x \<Longrightarrow> x \<in> set (lg_events db) \<and> la_id x = i"
  by (auto simp: event_by_id_def find_Some_iff)

lemma event_head:
  assumes "ledger_wf db" "x \<in> set (lg_events db)"
  obtains h where "lg_heads db (la_session_id x) = Some h" "lh_workspace_id h = la_workspace_id x"
  using assms by (auto simp: ledger_wf_def head_ok_def rows_of_def)

text \<open>An append in a well-formed state, branch by branch.\<close>

lemma append_existing:
  assumes "event_by_id db (la_id e) = Some x"
  shows "ledger_append db e = (if same_caller_values e x then Inr (db, x)
    else Inl (LedgerIntegrityError (''reasoning event id '' @ uuid_str (la_id e) @
        '' already exists with different caller values'')))"
  using assms by (simp add: ledger_append_def append_between_def idempotent_result_def)

lemma append_new:
  assumes "ledger_wf db" "LedgerAppend_valid e" "event_by_id db (la_id e) = None"
    and "lg_heads db (la_session_id e) = Some h" "lh_workspace_id h = la_workspace_id e"
  shows "ledger_append db e = Inr (with_event db h (next_event h e), next_event h e)"
  using assms append_locked_wf by (simp add: ledger_append_def append_between_def)

lemma append_between_linear:
  assumes "ledger_wf db" "lg_events db = lg_events db0 @ later"
  shows "append_between db0 db e = Inr r \<longleftrightarrow> ledger_append db e = Inr r"
proof (cases "event_by_id db0 (la_id e)")
  case (Some x)
  with event_by_id_prefix [OF assms(2) Some] show ?thesis
    by (simp add: ledger_append_def append_between_def)
next
  case None
  show ?thesis
  proof (cases "event_by_id db (la_id e)")
    case None': None
    with None show ?thesis by (simp add: ledger_append_def append_between_def)
  next
    case (Some x)
    then obtain h where h: "lg_heads db (la_session_id x) = Some h" "lh_workspace_id h = la_workspace_id x"
      using event_head [OF assms(1)] event_by_id_SomeD by blast
    show ?thesis
    proof (cases "same_caller_values e x")
      case True
      with h have "lg_heads db (la_session_id e) = Some h" "lh_workspace_id h = la_workspace_id e"
        by (simp_all add: same_caller_values_def)
      with None Some True show ?thesis by (simp add: ledger_append_def append_between_def idempotent_result_def)
    next
      case False
      with None Some show ?thesis
        by (simp add: ledger_append_def append_between_def idempotent_result_def split: option.splits)
    qed
  qed
qed

lemma ledger_append_cases:
  assumes "ledger_wf db" "LedgerAppend_valid e" "ledger_append db e = Inr (db', x)"
  obtains (Existing) "event_by_id db (la_id e) = Some x" "same_caller_values e x" "db' = db"
  | (New) h where "event_by_id db (la_id e) = None" "lg_heads db (la_session_id e) = Some h"
      "lh_workspace_id h = la_workspace_id e" "x = next_event h e" "db' = with_event db h x"
proof (cases "event_by_id db (la_id e)")
  case (Some y)
  with assms(3) Existing show ?thesis by (auto simp: append_existing split: if_splits)
next
  case None
  with assms(3) obtain h where "lg_heads db (la_session_id e) = Some h" "lh_workspace_id h = la_workspace_id e"
    by (auto simp: ledger_append_def append_between_def split: option.splits if_splits)
  with None append_new [OF assms(1,2)] assms(3) New show ?thesis by auto
qed

lemma ledger_append_wf:
  assumes "ledger_wf db" "LedgerAppend_valid e" "ledger_append db e = Inr (db', x)"
  shows "ledger_wf db'"
  by (rule ledger_append_cases [OF assms]) (use assms(1,2) with_event_wf in auto)

lemma create_head_wf:
  assumes "ledger_wf db" "create_session_ledger_head db ws s = Inr db'"
  shows "ledger_wf db'"
proof -
  have db': "lg_heads db s = None" "db' = db\<lparr>lg_heads := (lg_heads db)(s \<mapsto>
      \<lparr>lh_workspace_id = ws, lh_next_seq = 1, lh_head_hash = GENESIS_HASH\<rparr>)\<rparr>"
    using assms(2) by (auto simp: create_session_ledger_head_def split: option.splits)
  have "rows_of db s = []" using assms(1) db'(1) by (auto simp: ledger_wf_def rows_of_def filter_empty_conv)
  moreover have "rows_of db' t = rows_of db t" for t by (simp add: db'(2) rows_of_def)
  moreover have "lg_events db' = lg_events db" by (simp add: db'(2))
  ultimately show ?thesis using assms(1) by (auto simp: ledger_wf_def head_ok_def db'(2))
qed

lemma reachable_wf: "ledger_reachable db \<Longrightarrow> ledger_wf db"
proof (induction rule: ledger_reachable.induct)
  case empty
  then show ?case by (simp add: ledger_wf_def empty_ledger_def)
next
  case (session db ws s db')
  then show ?case by (blast intro: create_head_wf)
next
  case (append db e db0 later db' x)
  then have "ledger_append db e = Inr (db', x)" using append_between_linear by blast
  with append show ?case by (blast intro: ledger_append_wf)
qed

subsection \<open>The interface of the ledger\<close>

text \<open>What a client of the ledger relies on: an accepted event is found under its identifier with the
  caller's values, nothing recorded is lost or changed, and a retry is answered with the event.\<close>

locale reasoning_ledger =
  fixes append :: "'l \<Rightarrow> LedgerAppend \<Rightarrow> ('l \<times> LedgerEvent) result"
    and lookup :: "'l \<Rightarrow> uuid \<Rightarrow> LedgerEvent option"
    and inv :: "'l \<Rightarrow> bool"
  assumes append_inv: "inv l \<Longrightarrow> LedgerAppend_valid e \<Longrightarrow> append l e = Inr (l', x) \<Longrightarrow> inv l'"
    and append_found: "inv l \<Longrightarrow> LedgerAppend_valid e \<Longrightarrow> append l e = Inr (l', x) \<Longrightarrow>
      lookup l' (la_id e) = Some x \<and> same_caller_values e x"
    and append_keeps: "inv l \<Longrightarrow> LedgerAppend_valid e \<Longrightarrow> append l e = Inr (l', x) \<Longrightarrow>
      lookup l i = Some y \<Longrightarrow> lookup l' i = Some y"
    and append_again: "lookup l (la_id e) = Some x \<Longrightarrow> same_caller_values e x \<Longrightarrow> append l e = Inr (l, x)"
    and append_conflict: "lookup l (la_id e) = Some x \<Longrightarrow> \<not> same_caller_values e x \<Longrightarrow>
      \<exists>m. append l e = Inl (LedgerIntegrityError m)"
begin

lemma append_retry:
  assumes "inv l" "LedgerAppend_valid e" "append l e = Inr (l', x)"
  shows "append l' e = Inr (l', x)"
  using append_found [OF assms] append_again by blast

text \<open>A retry after further appends by anyone still finds the event and changes nothing.\<close>

lemma run_keeps:
  "inv l \<Longrightarrow> list_all LedgerAppend_valid es \<Longrightarrow> lookup l i = Some y \<Longrightarrow>
    inv (append_run append l es) \<and> lookup (append_run append l es) i = Some y"
  by (induction es arbitrary: l) (auto split: sum.splits intro: append_inv append_keeps)

lemma late_retry:
  assumes "inv l" "LedgerAppend_valid e" "append l e = Inr (l', x)" "list_all LedgerAppend_valid es"
  shows "append (append_run append l' es) e = Inr (append_run append l' es, x)"
  using append_found [OF assms(1-3)] run_keeps [OF append_inv [OF assms(1-3)] assms(4)] append_again
  by blast

end

lemma event_by_id_with_event:
  "event_by_id (with_event db h x) i = (case event_by_id db i of Some y \<Rightarrow> Some y
     | None \<Rightarrow> if la_id x = i then Some x else None)"
proof -
  have "find P (ys @ [y]) = (case find P ys of None \<Rightarrow> if P y then Some y else None | Some z \<Rightarrow> Some z)"
    for P and y :: LedgerEvent and ys by (induction ys) auto
  then show ?thesis by (simp add: event_by_id_def with_event_def split: option.splits)
qed

interpretation sql_ledger: reasoning_ledger ledger_append event_by_id ledger_wf
proof (unfold_locales, goal_cases)
  case (1 l e l' x)
  then show ?case by (rule ledger_append_wf)
next
  case (2 l e l' x)
  then show ?case
    by (cases rule: ledger_append_cases [OF 2]) (auto simp: event_by_id_with_event next_event_caller)
next
  case (3 l e l' x i y)
  then show ?case
    by (cases rule: ledger_append_cases [OF 3(1-3)]) (auto simp: event_by_id_with_event)
qed (simp_all add: append_existing)

lemma reachable_head:
  assumes "ledger_reachable db" "lg_heads db s = Some h"
  shows "head_ok db s h"
  using reachable_wf [OF assms(1)] assms(2) by (simp add: ledger_wf_def)

lemma session_rows_reachable:
  assumes "ledger_reachable db" "lg_heads db s = Some h"
  shows "session_rows db (lh_workspace_id h) s = rows_of db s"
proof -
  have ok: "head_ok db s h" using assms by (rule reachable_head)
  then have "filter (\<lambda>e. la_workspace_id e = lh_workspace_id h \<and> la_session_id e = s) (lg_events db) = rows_of db s"
    unfolding rows_of_def head_ok_def by (intro filter_cong) auto
  with ok show ?thesis using chain_sorted [of 1 GENESIS_HASH "rows_of db s"] by (simp add: session_rows_def head_ok_def)
qed

lemma chain_drop:
  "chain n p es \<Longrightarrow> filter (\<lambda>e. n + int k \<le> le_ledger_seq e) es = drop k es"
proof (induction n p es arbitrary: k rule: chain.induct)
  case (2 n p e es)
  show ?case
  proof (cases k)
    case 0
    have "\<forall>f \<in> set es. n \<le> le_ledger_seq f" using chain_seq_bounds [of "n + 1" "le_event_hash e" es] 2 by force
    with 0 2 show ?thesis by (simp add: link_def filter_id_conv)
  next
    case (Suc m)
    have "filter (\<lambda>f. n + int k \<le> le_ledger_seq f) es = drop m es"
      using 2(1) [of m] 2(2) Suc by (simp add: algebra_simps)
    with Suc 2 show ?thesis by (simp add: link_def)
  qed
qed simp

end
