(* ===== verification/Session_Lifecycle.thy ===== *)
theory Session_Lifecycle
  imports Reasoning_Ledger
begin

text \<open>
  The session lifecycle: the state graph and the contracts of
  \<^verbatim>\<open>app/domain/session_lifecycle.py\<close>, the in-memory store of
  \<^verbatim>\<open>app/adapters/inmemory/session_lifecycle.py\<close> over any ledger, and the PostgreSQL store of
  \<^verbatim>\<open>app/db/session_lifecycle.py\<close> with the table constraints of
  \<^verbatim>\<open>app/db/models/session_lifecycle.py\<close> over the ledger tables.
\<close>

subsection \<open>States and transitions\<close>

datatype SessionLifecycleState = DRAFT | INITIALIZING | RUNNING | WAITING_FOR_AGENT
  | WAITING_FOR_EVIDENCE | WAITING_FOR_CRITIQUE | WAITING_FOR_SIMULATION | WAITING_FOR_HUMAN
  | EVALUATING_CONSENSUS | PAUSED | FAILED_RETRYABLE | COMPLETED | PARTIAL_CONSENSUS_STATE
  | NO_CONSENSUS | DEADLOCK | FAILED | CANCELLED

fun state_value :: "SessionLifecycleState \<Rightarrow> string" where
  "state_value DRAFT = ''DRAFT''"
| "state_value INITIALIZING = ''INITIALIZING''"
| "state_value RUNNING = ''RUNNING''"
| "state_value WAITING_FOR_AGENT = ''WAITING_FOR_AGENT''"
| "state_value WAITING_FOR_EVIDENCE = ''WAITING_FOR_EVIDENCE''"
| "state_value WAITING_FOR_CRITIQUE = ''WAITING_FOR_CRITIQUE''"
| "state_value WAITING_FOR_SIMULATION = ''WAITING_FOR_SIMULATION''"
| "state_value WAITING_FOR_HUMAN = ''WAITING_FOR_HUMAN''"
| "state_value EVALUATING_CONSENSUS = ''EVALUATING_CONSENSUS''"
| "state_value PAUSED = ''PAUSED''"
| "state_value FAILED_RETRYABLE = ''FAILED_RETRYABLE''"
| "state_value COMPLETED = ''COMPLETED''"
| "state_value PARTIAL_CONSENSUS_STATE = ''PARTIAL_CONSENSUS_STATE''"
| "state_value NO_CONSENSUS = ''NO_CONSENSUS''"
| "state_value DEADLOCK = ''DEADLOCK''"
| "state_value FAILED = ''FAILED''"
| "state_value CANCELLED = ''CANCELLED''"

text \<open>The table of the state graph; a state without an entry has no successors.\<close>

fun TRANSITIONS :: "SessionLifecycleState \<Rightarrow> SessionLifecycleState list" where
  "TRANSITIONS DRAFT = [INITIALIZING, FAILED]"
| "TRANSITIONS INITIALIZING = [RUNNING, FAILED_RETRYABLE, FAILED, CANCELLED]"
| "TRANSITIONS RUNNING = [WAITING_FOR_AGENT, WAITING_FOR_EVIDENCE, WAITING_FOR_CRITIQUE,
     WAITING_FOR_SIMULATION, WAITING_FOR_HUMAN, EVALUATING_CONSENSUS, PAUSED, FAILED_RETRYABLE,
     FAILED, CANCELLED]"
| "TRANSITIONS WAITING_FOR_AGENT = [RUNNING, FAILED_RETRYABLE, FAILED, CANCELLED]"
| "TRANSITIONS WAITING_FOR_EVIDENCE = [RUNNING, FAILED_RETRYABLE, FAILED, CANCELLED]"
| "TRANSITIONS WAITING_FOR_CRITIQUE = [RUNNING, FAILED_RETRYABLE, FAILED, CANCELLED]"
| "TRANSITIONS WAITING_FOR_SIMULATION = [RUNNING, FAILED_RETRYABLE, FAILED, CANCELLED]"
| "TRANSITIONS WAITING_FOR_HUMAN = [RUNNING, PAUSED, FAILED, CANCELLED]"
| "TRANSITIONS EVALUATING_CONSENSUS = [RUNNING, COMPLETED, PARTIAL_CONSENSUS_STATE, NO_CONSENSUS,
     DEADLOCK, FAILED, CANCELLED]"
| "TRANSITIONS PAUSED = [RUNNING, FAILED, CANCELLED]"
| "TRANSITIONS FAILED_RETRYABLE = [RUNNING, FAILED, CANCELLED]"
| "TRANSITIONS _ = []"

definition TERMINAL_SESSION_STATES :: "SessionLifecycleState list" where
  "TERMINAL_SESSION_STATES = [COMPLETED, PARTIAL_CONSENSUS_STATE, NO_CONSENSUS, DEADLOCK, FAILED, CANCELLED]"

definition terminal :: "SessionLifecycleState \<Rightarrow> bool" where
  "terminal s = (s \<in> set TERMINAL_SESSION_STATES)"

definition validate_session_transition ::
  "SessionLifecycleState \<Rightarrow> SessionLifecycleState \<Rightarrow> int \<Rightarrow> int \<Rightarrow> bool \<Rightarrow> unit result" where
  "validate_session_transition source target current_round next_round allow_same_state =
     (if source = target then
        if \<not> allow_same_state
        then Inl (InvalidSessionTransition ''session transition must change state'')
        else if next_round \<noteq> current_round
        then Inl (InvalidSessionTransition ''same-state event cannot change session round'')
        else Inr ()
      else if target \<notin> set (TRANSITIONS source)
      then Inl (InvalidSessionTransition
        (''session cannot transition from '' @ state_value source @ '' to '' @ state_value target))
      else if next_round < current_round
      then Inl (InvalidSessionTransition ''session round cannot decrease'')
      else if next_round > current_round + 1
      then Inl (InvalidSessionTransition ''session round can advance by at most one'')
      else if next_round \<noteq> current_round \<and> target \<noteq> RUNNING
      then Inl (InvalidSessionTransition ''session round may advance only when entering RUNNING'')
      else Inr ())"

record SessionLifecycle =
  sl_workspace_id :: uuid
  sl_session_id :: uuid
  sl_state :: SessionLifecycleState
  sl_round :: int
  sl_workflow_id :: "ustr option"
  sl_run_id :: "ustr option"
  sl_last_event_id :: "uuid option"
  sl_initialized_at :: "datetime option"
  sl_started_at :: "datetime option"
  sl_ended_at :: "datetime option"
  sl_created_at :: datetime
  sl_updated_at :: datetime

definition consistent_projection :: "SessionLifecycle \<Rightarrow> bool" where
  "consistent_projection v =
     ((sl_workflow_id v = None) = (sl_run_id v = None) \<and>
      \<not> dt_less (sl_updated_at v) (sl_created_at v) \<and>
      \<not> (sl_state v = DRAFT \<and> sl_last_event_id v \<noteq> None) \<and>
      \<not> (sl_state v \<noteq> DRAFT \<and> sl_initialized_at v = None) \<and>
      \<not> (sl_state v \<notin> {DRAFT, INITIALIZING} \<and> sl_started_at v = None) \<and>
      terminal (sl_state v) = (sl_ended_at v \<noteq> None))"

text \<open>The model validates the fields first: the round, and the minimal length of the two names.\<close>

definition SessionLifecycle_valid :: "SessionLifecycle \<Rightarrow> bool" where
  "SessionLifecycle_valid v = (0 \<le> sl_round v \<and> sl_workflow_id v \<noteq> Some [] \<and> sl_run_id v \<noteq> Some [] \<and>
     consistent_projection v)"

record SessionTransition =
  st_source :: SessionLifecycleState
  st_target :: SessionLifecycleState
  st_round :: int
  st_event :: LedgerAppend
  st_allow_same_state :: bool

definition event_matches_transition :: "SessionTransition \<Rightarrow> bool" where
  "event_matches_transition c = (la_round (st_event c) = st_round c \<and>
     \<not> (st_source c = st_target c \<and> \<not> st_allow_same_state c))"

definition SessionTransition_valid :: "SessionTransition \<Rightarrow> bool" where
  "SessionTransition_valid c = (0 \<le> st_round c \<and> LedgerAppend_valid (st_event c) \<and> event_matches_transition c)"

definition new_draft :: "uuid \<Rightarrow> uuid \<Rightarrow> datetime \<Rightarrow> SessionLifecycle" where
  "new_draft ws s created_at = \<lparr>sl_workspace_id = ws, sl_session_id = s, sl_state = DRAFT, sl_round = 0,
     sl_workflow_id = None, sl_run_id = None, sl_last_event_id = None, sl_initialized_at = None,
     sl_started_at = None, sl_ended_at = None, sl_created_at = created_at, sl_updated_at = created_at\<rparr>"

text \<open>The fields that an accepted transition writes, the same in both stores.\<close>

definition transition_changes :: "SessionTransition \<Rightarrow> SessionLifecycle \<Rightarrow> SessionLifecycle" where
  "transition_changes c current =
     (let tm = la_recorded_at (st_event c);
          v1 = current\<lparr>sl_state := st_target c, sl_round := st_round c,
                 sl_last_event_id := Some (la_id (st_event c)), sl_updated_at := tm\<rparr>;
          v2 = (if sl_state current = DRAFT then v1\<lparr>sl_initialized_at := Some tm, sl_started_at := Some tm\<rparr> else v1);
          v3 = (if st_target c = RUNNING \<and> sl_started_at v2 = None then v2\<lparr>sl_started_at := Some tm\<rparr> else v2)
      in if terminal (st_target c) then v3\<lparr>sl_ended_at := Some tm\<rparr> else v3)"

subsection \<open>The in-memory store\<close>

record 'l memory_store =
  ms_ledger :: 'l
  ms_values :: "(uuid \<times> uuid) \<rightharpoonup> SessionLifecycle"

definition memory_add_draft ::
  "'l memory_store \<Rightarrow> uuid \<Rightarrow> uuid \<Rightarrow> datetime \<Rightarrow> ('l memory_store \<times> SessionLifecycle) result" where
  "memory_add_draft st ws s created_at =
     (if ms_values st (ws, s) \<noteq> None then Inl (InvalidSessionTransition ''session lifecycle already exists'')
      else Inr (st\<lparr>ms_values := (ms_values st)((ws, s) \<mapsto> new_draft ws s created_at)\<rparr>, new_draft ws s created_at))"

definition memory_get :: "'l memory_store \<Rightarrow> uuid \<Rightarrow> uuid \<Rightarrow> SessionLifecycle option" where
  "memory_get st ws s = ms_values st (ws, s)"

definition required_value :: "'l memory_store \<Rightarrow> uuid \<Rightarrow> uuid \<Rightarrow> SessionLifecycle result" where
  "required_value st ws s = (case ms_values st (ws, s) of
     None \<Rightarrow> Inl (InvalidSessionTransition ''session lifecycle does not exist'')
   | Some v \<Rightarrow> Inr v)"

definition memory_attach_workflow ::
  "'l memory_store \<Rightarrow> uuid \<Rightarrow> uuid \<Rightarrow> ustr \<Rightarrow> ustr \<Rightarrow> ('l memory_store \<times> SessionLifecycle) result" where
  "memory_attach_workflow st ws s workflow_id run_id =
     (if u_blank workflow_id \<or> u_blank run_id
      then Inl (ValueError ''workflow_id and run_id must not be blank'')
      else ebind (required_value st ws s) (\<lambda>v.
        if sl_workflow_id v \<noteq> None \<and> (sl_workflow_id v, sl_run_id v) \<noteq> (Some workflow_id, Some run_id)
        then Inl (InvalidSessionTransition ''session is attached to a different workflow execution'')
        else let v' = v\<lparr>sl_workflow_id := Some workflow_id, sl_run_id := Some run_id\<rparr>
             in Inr (st\<lparr>ms_values := (ms_values st)((ws, s) \<mapsto> v')\<rparr>, v')))"

definition wrong_source :: "SessionTransition \<Rightarrow> SessionLifecycle \<Rightarrow> py_error" where
  "wrong_source c current = InvalidSessionTransition
     (''expected session state '' @ state_value (st_source c) @ '', found '' @ state_value (sl_state current))"

definition memory_transition ::
  "('l \<Rightarrow> LedgerAppend \<Rightarrow> ('l \<times> LedgerEvent) result) \<Rightarrow> 'l memory_store \<Rightarrow> SessionTransition \<Rightarrow>
     ('l memory_store \<times> SessionLifecycle) result" where
  "memory_transition ledger st c =
     (let event = st_event c; key = (la_workspace_id event, la_session_id event) in
      ebind (required_value st (la_workspace_id event) (la_session_id event)) (\<lambda>current.
      if sl_state current = st_target c \<and> sl_last_event_id current = Some (la_id event)
      then ebind (ledger (ms_ledger st) event) (\<lambda>(l, _). Inr (st\<lparr>ms_ledger := l\<rparr>, current))
      else if sl_state current \<noteq> st_source c then Inl (wrong_source c current)
      else ebind (validate_session_transition (sl_state current) (st_target c) (sl_round current) (st_round c)
              (st_allow_same_state c)) (\<lambda>_.
        ebind (ledger (ms_ledger st) event) (\<lambda>(l, _).
        let updated = transition_changes c current
        in Inr (st\<lparr>ms_ledger := l, ms_values := (ms_values st)(key \<mapsto> updated)\<rparr>, updated)))))"

subsection \<open>The PostgreSQL store\<close>

text \<open>
  A row has the columns of the projection; the primary key is the session. The rows of the table
  \<^verbatim>\<open>sessions\<close> are those whose ledger head the trigger has made.
\<close>

record lifecycle_db =
  ld_ledger :: ledger_db
  ld_rows :: "uuid \<rightharpoonup> SessionLifecycle"

definition session_exists :: "ledger_db \<Rightarrow> uuid \<Rightarrow> uuid \<Rightarrow> bool" where
  "session_exists l ws s = (case lg_heads l s of None \<Rightarrow> False | Some h \<Rightarrow> lh_workspace_id h = ws)"

definition row_checks :: "SessionLifecycle \<Rightarrow> bool" where
  "row_checks r = (0 \<le> sl_round r \<and>
     (sl_workflow_id r = None) = (sl_run_id r = None) \<and>
     (sl_state r = DRAFT) = (sl_last_event_id r = None) \<and>
     (sl_state r = DRAFT \<or> sl_initialized_at r \<noteq> None) \<and>
     (sl_state r \<in> {DRAFT, INITIALIZING} \<or> sl_started_at r \<noteq> None) \<and>
     terminal (sl_state r) = (sl_ended_at r \<noteq> None))"

definition row_references :: "ledger_db \<Rightarrow> SessionLifecycle \<Rightarrow> bool" where
  "row_references l r = (session_exists l (sl_workspace_id r) (sl_session_id r) \<and>
     (case sl_last_event_id r of None \<Rightarrow> True
      | Some i \<Rightarrow> get_by_id l (sl_workspace_id r) (sl_session_id r) i \<noteq> None))"

text \<open>Another row with the same workflow; a unique constraint does not compare nulls.\<close>

definition workflow_taken :: "(uuid \<rightharpoonup> SessionLifecycle) \<Rightarrow> SessionLifecycle \<Rightarrow> bool" where
  "workflow_taken rows r = (sl_workflow_id r \<noteq> None \<and>
     (\<exists>s \<in> dom rows. s \<noteq> sl_session_id r \<and> sl_workflow_id (the (rows s)) = sl_workflow_id r))"

definition flush :: "lifecycle_db \<Rightarrow> SessionLifecycle \<Rightarrow> lifecycle_db result" where
  "flush db r = (if row_checks r \<and> row_references (ld_ledger db) r \<and> \<not> workflow_taken (ld_rows db) r
     then Inr (db\<lparr>ld_rows := (ld_rows db)(sl_session_id r \<mapsto> r)\<rparr>)
     else Inl (IntegrityError ''session_lifecycles''))"

definition projection :: "SessionLifecycle \<Rightarrow> SessionLifecycle result" where
  "projection r = (if SessionLifecycle_valid r then Inr r else Inl (ValueError ''SessionLifecycle''))"

definition sql_row :: "lifecycle_db \<Rightarrow> uuid \<Rightarrow> uuid \<Rightarrow> SessionLifecycle option" where
  "sql_row db ws s = (case ld_rows db s of None \<Rightarrow> None
     | Some r \<Rightarrow> if sl_workspace_id r = ws then Some r else None)"

definition required_row :: "lifecycle_db \<Rightarrow> uuid \<Rightarrow> uuid \<Rightarrow> SessionLifecycle result" where
  "required_row db ws s = (case sql_row db ws s of
     None \<Rightarrow> Inl (InvalidSessionTransition
       (''session '' @ uuid_str s @ '' has no lifecycle in workspace '' @ uuid_str ws))
   | Some r \<Rightarrow> Inr r)"

definition sql_add_draft ::
  "lifecycle_db \<Rightarrow> uuid \<Rightarrow> uuid \<Rightarrow> datetime \<Rightarrow> (lifecycle_db \<times> SessionLifecycle) result" where
  "sql_add_draft db ws s created_at =
     (let row = new_draft ws s created_at in
      if ld_rows db s \<noteq> None then Inl (IntegrityError ''pk_session_lifecycles'')
      else ebind (flush db row) (\<lambda>db'. ebind (projection row) (\<lambda>v. Inr (db', v))))"

definition sql_get :: "lifecycle_db \<Rightarrow> uuid \<Rightarrow> uuid \<Rightarrow> SessionLifecycle option result" where
  "sql_get db ws s = (case sql_row db ws s of
     None \<Rightarrow> Inr None | Some row \<Rightarrow> ebind (projection row) (\<lambda>v. Inr (Some v)))"

definition sql_attach_workflow ::
  "lifecycle_db \<Rightarrow> uuid \<Rightarrow> uuid \<Rightarrow> ustr \<Rightarrow> ustr \<Rightarrow> (lifecycle_db \<times> SessionLifecycle) result" where
  "sql_attach_workflow db ws s workflow_id run_id =
     (if u_blank workflow_id \<or> u_blank run_id
      then Inl (ValueError ''workflow_id and run_id must not be blank'')
      else ebind (required_row db ws s) (\<lambda>row.
        if sl_workflow_id row \<noteq> None then
          if (sl_workflow_id row, sl_run_id row) \<noteq> (Some workflow_id, Some run_id)
          then Inl (InvalidSessionTransition ''session is attached to a different workflow execution'')
          else ebind (projection row) (\<lambda>v. Inr (db, v))
        else let row' = row\<lparr>sl_workflow_id := Some workflow_id, sl_run_id := Some run_id\<rparr> in
          ebind (flush db row') (\<lambda>db'. ebind (projection row') (\<lambda>v. Inr (db', v)))))"

definition sql_transition ::
  "lifecycle_db \<Rightarrow> SessionTransition \<Rightarrow> (lifecycle_db \<times> SessionLifecycle) result" where
  "sql_transition db c =
     (let event = st_event c in
      ebind (required_row db (la_workspace_id event) (la_session_id event)) (\<lambda>row.
      if sl_state row = st_target c \<and> sl_last_event_id row = Some (la_id event)
      then ebind (ledger_append (ld_ledger db) event) (\<lambda>(l, _).
        ebind (projection row) (\<lambda>v. Inr (db\<lparr>ld_ledger := l\<rparr>, v)))
      else if sl_state row \<noteq> st_source c then Inl (wrong_source c row)
      else ebind (validate_session_transition (sl_state row) (st_target c) (sl_round row) (st_round c)
              (st_allow_same_state c)) (\<lambda>_.
        ebind (ledger_append (ld_ledger db) event) (\<lambda>(l, _).
        let row' = transition_changes c row in
        ebind (flush (db\<lparr>ld_ledger := l\<rparr>) row') (\<lambda>db'.
        ebind (projection row') (\<lambda>v. Inr (db', v)))))))"

subsection \<open>Runs and the invariant\<close>

text \<open>A series of transition commands; a rejected command leaves the store as it was.\<close>

primrec transition_run :: "('s \<Rightarrow> SessionTransition \<Rightarrow> ('s \<times> SessionLifecycle) result) \<Rightarrow> 's \<Rightarrow> SessionTransition list \<Rightarrow> 's" where
  "transition_run step st [] = st"
| "transition_run step st (c # cs) = transition_run step (case step st c of Inl _ \<Rightarrow> st | Inr (st', _) \<Rightarrow> st') cs"

text \<open>The event a projection names is recorded in its session with its round.\<close>

definition last_event_ok :: "ledger_db \<Rightarrow> SessionLifecycle \<Rightarrow> bool" where
  "last_event_ok l r = (case sl_last_event_id r of None \<Rightarrow> sl_round r = 0
     | Some i \<Rightarrow> (case get_by_id l (sl_workspace_id r) (sl_session_id r) i of
         None \<Rightarrow> False | Some e \<Rightarrow> la_round e = sl_round r))"

definition row_ok :: "ledger_db \<Rightarrow> SessionLifecycle \<Rightarrow> bool" where
  "row_ok l r = (SessionLifecycle_valid r \<and> row_checks r \<and> last_event_ok l r \<and>
     session_exists l (sl_workspace_id r) (sl_session_id r) \<and>
     (sl_state r \<noteq> DRAFT \<longrightarrow> sl_started_at r \<noteq> None))"

definition lifecycle_wf :: "lifecycle_db \<Rightarrow> bool" where
  "lifecycle_wf db = (ledger_wf (ld_ledger db) \<and>
     (\<forall>s r. ld_rows db s = Some r \<longrightarrow> sl_session_id r = s \<and> row_ok (ld_ledger db) r \<and> \<not> workflow_taken (ld_rows db) r))"

text \<open>What the operations of the two components and the creation of sessions reach.\<close>

inductive lifecycle_reachable :: "lifecycle_db \<Rightarrow> bool" where
  empty: "lifecycle_reachable \<lparr>ld_ledger = empty_ledger, ld_rows = Map.empty\<rparr>"
| session: "lifecycle_reachable db \<Longrightarrow> create_session_ledger_head (ld_ledger db) ws s = Inr l \<Longrightarrow>
    lifecycle_reachable (db\<lparr>ld_ledger := l\<rparr>)"
| event: "lifecycle_reachable db \<Longrightarrow> LedgerAppend_valid e \<Longrightarrow> ledger_append (ld_ledger db) e = Inr (l, x) \<Longrightarrow>
    lifecycle_reachable (db\<lparr>ld_ledger := l\<rparr>)"
| draft: "lifecycle_reachable db \<Longrightarrow> sql_add_draft db ws s tm = Inr (db', v) \<Longrightarrow> lifecycle_reachable db'"
| attach: "lifecycle_reachable db \<Longrightarrow> sql_attach_workflow db ws s w run = Inr (db', v) \<Longrightarrow> lifecycle_reachable db'"
| move: "lifecycle_reachable db \<Longrightarrow> SessionTransition_valid c \<Longrightarrow> sql_transition db c = Inr (db', v) \<Longrightarrow>
    lifecycle_reachable db'"

definition memory_of :: "lifecycle_db \<Rightarrow> ledger_db memory_store" where
  "memory_of db = \<lparr>ms_ledger = ld_ledger db, ms_values = (\<lambda>(ws, s). sql_row db ws s)\<rparr>"



subsection \<open>The state graph\<close>

lemma terminal_simps [simp]:
  "terminal DRAFT = False" "terminal INITIALIZING = False" "terminal RUNNING = False"
  "terminal WAITING_FOR_AGENT = False" "terminal WAITING_FOR_EVIDENCE = False"
  "terminal WAITING_FOR_CRITIQUE = False" "terminal WAITING_FOR_SIMULATION = False"
  "terminal WAITING_FOR_HUMAN = False" "terminal EVALUATING_CONSENSUS = False" "terminal PAUSED = False"
  "terminal FAILED_RETRYABLE = False" "terminal COMPLETED" "terminal PARTIAL_CONSENSUS_STATE"
  "terminal NO_CONSENSUS" "terminal DEADLOCK" "terminal FAILED" "terminal CANCELLED"
  by (simp_all add: terminal_def TERMINAL_SESSION_STATES_def)

lemma terminal_iff: "terminal s \<longleftrightarrow> TRANSITIONS s = []"
  by (cases s) simp_all

lemma no_way_to_draft: "DRAFT \<notin> set (TRANSITIONS s)"
  by (cases s) simp_all

lemma validate_Inr_iff:
  "validate_session_transition a b m n same = Inr u \<longleftrightarrow>
     (a = b \<and> same \<and> n = m) \<or> (a \<noteq> b \<and> b \<in> set (TRANSITIONS a) \<and> (n = m \<or> n = m + 1 \<and> b = RUNNING))"
  by (auto simp: validate_session_transition_def)

lemma transition_changes_simps [simp]:
  "sl_state (transition_changes c v) = st_target c" "sl_round (transition_changes c v) = st_round c"
  "sl_last_event_id (transition_changes c v) = Some (la_id (st_event c))"
  "sl_updated_at (transition_changes c v) = la_recorded_at (st_event c)"
  "sl_created_at (transition_changes c v) = sl_created_at v"
  "sl_workspace_id (transition_changes c v) = sl_workspace_id v"
  "sl_session_id (transition_changes c v) = sl_session_id v"
  "sl_workflow_id (transition_changes c v) = sl_workflow_id v"
  "sl_run_id (transition_changes c v) = sl_run_id v"
  by (simp_all add: transition_changes_def Let_def)

lemma transition_changes_times:
  "sl_initialized_at (transition_changes c v) = (if sl_state v = DRAFT then Some (la_recorded_at (st_event c)) else sl_initialized_at v)"
  "sl_started_at (transition_changes c v) = (if sl_state v = DRAFT \<or> st_target c = RUNNING \<and> sl_started_at v = None
     then Some (la_recorded_at (st_event c)) else sl_started_at v)"
  "sl_ended_at (transition_changes c v) = (if terminal (st_target c) then Some (la_recorded_at (st_event c)) else sl_ended_at v)"
  by (simp_all add: transition_changes_def Let_def)

subsection \<open>The rows a transition leaves\<close>

text \<open>A transition that the graph allows keeps the projection consistent, unless it records an event on a
  draft or is dated before the session was created.\<close>

lemma transition_changes_valid:
  assumes "row_ok l r" "SessionTransition_valid c" "sl_state r = st_source c"
    and "validate_session_transition (sl_state r) (st_target c) (sl_round r) (st_round c) (st_allow_same_state c) = Inr ()"
  shows "SessionLifecycle_valid (transition_changes c r) \<longleftrightarrow>
    st_target c \<noteq> DRAFT \<and> \<not> dt_less (la_recorded_at (st_event c)) (sl_created_at r)"
proof -
  have v: "SessionLifecycle_valid r" "row_checks r" and s: "sl_state r \<noteq> DRAFT \<longrightarrow> sl_started_at r \<noteq> None"
    using assms(1) by (simp_all add: row_ok_def)
  have d: "st_target c = DRAFT \<Longrightarrow> sl_state r = DRAFT" "terminal (sl_state r) \<Longrightarrow> sl_state r = st_target c"
    using assms(4) no_way_to_draft [of "sl_state r"] terminal_iff [of "sl_state r"]
    by (auto simp: validate_Inr_iff)
  have "0 \<le> st_round c" using assms(2) by (simp add: SessionTransition_valid_def)
  moreover have "sl_initialized_at (transition_changes c r) \<noteq> None"
    using v(2) by (auto simp: transition_changes_times row_checks_def)
  moreover have "sl_started_at (transition_changes c r) \<noteq> None"
    using s by (auto simp: transition_changes_times)
  moreover have "terminal (st_target c) = (sl_ended_at (transition_changes c r) \<noteq> None)"
    using v(2) d(2) unfolding transition_changes_times(3) row_checks_def by auto
  moreover have "sl_workflow_id r \<noteq> Some []" "sl_run_id r \<noteq> Some []" "(sl_workflow_id r = None) = (sl_run_id r = None)"
    using v(1) by (simp_all add: SessionLifecycle_valid_def consistent_projection_def)
  ultimately show ?thesis
    unfolding SessionLifecycle_valid_def consistent_projection_def transition_changes_simps by blast
qed

lemma transition_changes_checks:
  "SessionLifecycle_valid (transition_changes c r) \<Longrightarrow> row_checks (transition_changes c r)"
  by (auto simp: SessionLifecycle_valid_def consistent_projection_def row_checks_def)

lemma get_by_id_append:
  assumes "ledger_wf l" "LedgerAppend_valid e" "ledger_append l e = Inr (l', x)"
  shows "get_by_id l' (la_workspace_id e) (la_session_id e) (la_id e) = Some x \<and> la_round x = la_round e"
    "get_by_id l ws s i = Some y \<Longrightarrow> get_by_id l' ws s i = Some y"
    "session_exists l ws s \<Longrightarrow> session_exists l' ws s"
proof -
  show "get_by_id l' (la_workspace_id e) (la_session_id e) (la_id e) = Some x \<and> la_round x = la_round e"
    using sql_ledger.append_found [OF assms] by (auto simp: get_by_id_def same_caller_values_def)
  show "get_by_id l' ws s i = Some y" if "get_by_id l ws s i = Some y"
  proof -
    have "event_by_id l i = Some y" "(la_workspace_id y, la_session_id y) = (ws, s)"
      using that by (auto simp: get_by_id_def split: option.splits if_splits)
    then show ?thesis using sql_ledger.append_keeps [OF assms] by (simp add: get_by_id_def)
  qed
  show "session_exists l' ws s" if "session_exists l ws s"
    using assms by (cases rule: ledger_append_cases) (use that in \<open>auto simp: session_exists_def with_event_def split: option.splits\<close>)
qed

lemma row_ok_append:
  assumes "ledger_wf l" "LedgerAppend_valid e" "ledger_append l e = Inr (l', x)" "row_ok l r"
  shows "row_ok l' r"
proof -
  have "last_event_ok l' r"
    using assms(4) get_by_id_append(2) [OF assms(1-3)]
    by (auto simp: row_ok_def last_event_ok_def split: option.splits)
  then show ?thesis using assms(4) get_by_id_append(3) [OF assms(1-3)] by (simp add: row_ok_def)
qed

lemma row_ok_references: "row_ok l r \<Longrightarrow> row_references l r"
  by (auto simp: row_ok_def row_references_def last_event_ok_def split: option.splits)

lemma lifecycle_wf_append:
  assumes "lifecycle_wf db" "LedgerAppend_valid e" "ledger_append (ld_ledger db) e = Inr (l, x)"
  shows "lifecycle_wf (db\<lparr>ld_ledger := l\<rparr>)"
  using assms ledger_append_wf [OF _ assms(2,3)] row_ok_append [OF _ assms(2,3)]
  by (simp add: lifecycle_wf_def)

lemma lifecycle_wf_update:
  assumes "lifecycle_wf db" "row_ok (ld_ledger db) r" "\<not> workflow_taken (ld_rows db) r"
  shows "lifecycle_wf (db\<lparr>ld_rows := (ld_rows db)(sl_session_id r \<mapsto> r)\<rparr>)"
proof -
  have "\<not> workflow_taken ((ld_rows db)(sl_session_id r \<mapsto> r)) q"
    if q: "((ld_rows db)(sl_session_id r \<mapsto> r)) s = Some q" for s q
  proof (cases "s = sl_session_id r")
    case True
    then show ?thesis using q assms(3) by (auto simp: workflow_taken_def)
  next
    case False
    then have "ld_rows db s = Some q" "sl_session_id q = s" "\<not> workflow_taken (ld_rows db) q"
      using q assms(1) by (auto simp: lifecycle_wf_def)
    then show ?thesis using assms(3) False by (auto simp: workflow_taken_def)
  qed
  then show ?thesis using assms(1,2) by (auto simp: lifecycle_wf_def)
qed

lemma sql_row_wf:
  assumes "lifecycle_wf db" "sql_row db ws s = Some r"
  shows "ld_rows db s = Some r \<and> sl_workspace_id r = ws \<and> sl_session_id r = s \<and> row_ok (ld_ledger db) r \<and>
    \<not> workflow_taken (ld_rows db) r"
  using assms by (auto simp: lifecycle_wf_def sql_row_def split: option.splits if_splits)

subsection \<open>Accepted transitions, case by case\<close>

lemma memory_transition_cases:
  assumes "memory_transition ledger st c = Inr (st', v)"
  obtains (Replay) l x where "ms_values st (la_workspace_id (st_event c), la_session_id (st_event c)) = Some v"
      "sl_state v = st_target c" "sl_last_event_id v = Some (la_id (st_event c))"
      "ledger (ms_ledger st) (st_event c) = Inr (l, x)" "st' = st\<lparr>ms_ledger := l\<rparr>"
  | (Move) old l x where "ms_values st (la_workspace_id (st_event c), la_session_id (st_event c)) = Some old"
      "\<not> (sl_state old = st_target c \<and> sl_last_event_id old = Some (la_id (st_event c)))"
      "sl_state old = st_source c"
      "validate_session_transition (sl_state old) (st_target c) (sl_round old) (st_round c) (st_allow_same_state c) = Inr ()"
      "ledger (ms_ledger st) (st_event c) = Inr (l, x)" "v = transition_changes c old"
      "st' = st\<lparr>ms_ledger := l, ms_values := (ms_values st)((la_workspace_id (st_event c), la_session_id (st_event c)) \<mapsto> v)\<rparr>"
  using assms unfolding memory_transition_def required_value_def Let_def
  by (auto simp: result_simps split: option.splits if_splits)

lemma sql_transition_cases:
  assumes "sql_transition db c = Inr (db', v)"
  obtains (Replay) l x where "sql_row db (la_workspace_id (st_event c)) (la_session_id (st_event c)) = Some v"
      "sl_state v = st_target c" "sl_last_event_id v = Some (la_id (st_event c))"
      "ledger_append (ld_ledger db) (st_event c) = Inr (l, x)" "SessionLifecycle_valid v" "db' = db\<lparr>ld_ledger := l\<rparr>"
  | (Move) old l x where "sql_row db (la_workspace_id (st_event c)) (la_session_id (st_event c)) = Some old"
      "\<not> (sl_state old = st_target c \<and> sl_last_event_id old = Some (la_id (st_event c)))"
      "sl_state old = st_source c"
      "validate_session_transition (sl_state old) (st_target c) (sl_round old) (st_round c) (st_allow_same_state c) = Inr ()"
      "ledger_append (ld_ledger db) (st_event c) = Inr (l, x)" "v = transition_changes c old" "SessionLifecycle_valid v"
      "db' = db\<lparr>ld_ledger := l, ld_rows := (ld_rows db)(sl_session_id old \<mapsto> v)\<rparr>"
  using assms unfolding sql_transition_def required_row_def Let_def projection_def flush_def
  by (auto simp: result_simps split: option.splits if_splits)

lemma workflow_taken_changes [simp]: "workflow_taken rows (transition_changes c r) = workflow_taken rows r"
  by (simp add: workflow_taken_def)

text \<open>The constraints of the table accept every row that the projection accepts.\<close>

lemma sql_move_accepted:
  assumes wf: "lifecycle_wf db" and c: "SessionTransition_valid c"
    and row: "sql_row db (la_workspace_id (st_event c)) (la_session_id (st_event c)) = Some old"
    and valid: "SessionLifecycle_valid (transition_changes c old)"
    and app: "ledger_append (ld_ledger db) (st_event c) = Inr (l, x)"
  shows "row_ok l (transition_changes c old) \<and>
    flush (db\<lparr>ld_ledger := l\<rparr>) (transition_changes c old) =
      Inr (db\<lparr>ld_ledger := l, ld_rows := (ld_rows db)(sl_session_id old \<mapsto> transition_changes c old)\<rparr>)"
proof -
  have e: "LedgerAppend_valid (st_event c)" "la_round (st_event c) = st_round c"
    using c by (simp_all add: SessionTransition_valid_def event_matches_transition_def)
  have lw: "ledger_wf (ld_ledger db)" using wf by (simp add: lifecycle_wf_def)
  note r = sql_row_wf [OF wf row]
  have "row_ok l old" using row_ok_append [OF lw e(1) app] r by simp
  then have "session_exists l (sl_workspace_id old) (sl_session_id old)" by (simp add: row_ok_def)
  moreover have "st_target c \<noteq> DRAFT"
    using valid by (simp add: SessionLifecycle_valid_def consistent_projection_def)
  moreover have "sl_started_at (transition_changes c old) \<noteq> None"
    using r by (auto simp: transition_changes_times row_ok_def)
  moreover have "last_event_ok l (transition_changes c old)"
    using get_by_id_append(1) [OF lw e(1) app] r e(2) by (simp add: last_event_ok_def)
  ultimately have ok: "row_ok l (transition_changes c old)"
    using valid transition_changes_checks [OF valid] by (simp add: row_ok_def)
  moreover have "\<not> workflow_taken (ld_rows db) (transition_changes c old)"
    using r by simp
  ultimately show ?thesis
    using row_ok_references [OF ok] transition_changes_checks [OF valid] by (simp add: flush_def)
qed

lemma sql_transition_wf:
  assumes wf: "lifecycle_wf db" and c: "SessionTransition_valid c" and t: "sql_transition db c = Inr (db', v)"
  shows "lifecycle_wf db'"
  using t
proof (cases rule: sql_transition_cases)
  case (Replay l x)
  then show ?thesis using lifecycle_wf_append [OF wf _ Replay(4)] c by (simp add: SessionTransition_valid_def)
next
  case (Move old l x)
  have "lifecycle_wf (db\<lparr>ld_ledger := l\<rparr>)"
    using lifecycle_wf_append [OF wf _ Move(5)] c by (simp add: SessionTransition_valid_def)
  moreover have "\<not> workflow_taken (ld_rows db) v"
    using sql_row_wf [OF wf Move(1)] by (simp add: Move(6))
  ultimately show ?thesis
    using sql_move_accepted [OF wf c Move(1) _ Move(5)] Move(6,7,8) lifecycle_wf_update [of "db\<lparr>ld_ledger := l\<rparr>" v] by simp
qed

lemma memory_of_update:
  assumes "lifecycle_wf db" "sql_row db ws s = Some old" "sl_workspace_id v = ws" "sl_session_id v = s"
  shows "memory_of (db\<lparr>ld_ledger := l, ld_rows := (ld_rows db)(s \<mapsto> v)\<rparr>) =
    (memory_of db)\<lparr>ms_ledger := l, ms_values := (ms_values (memory_of db))((ws, s) \<mapsto> v)\<rparr>"
  using sql_row_wf [OF assms(1,2)] assms(3,4) by (auto simp: memory_of_def sql_row_def fun_eq_iff)

lemma memory_of_ledger: "memory_of (db\<lparr>ld_ledger := l\<rparr>) = (memory_of db)\<lparr>ms_ledger := l\<rparr>"
  by (simp add: memory_of_def sql_row_def)

lemma sql_transition_memory:
  assumes wf: "lifecycle_wf db" and c: "SessionTransition_valid c"
  shows "(\<exists>db'. sql_transition db c = Inr (db', v) \<and> memory_of db' = st) \<longleftrightarrow>
    memory_transition ledger_append (memory_of db) c = Inr (st, v) \<and> SessionLifecycle_valid v"
    (is "?sql \<longleftrightarrow> ?mem")
proof
  assume ?sql
  then obtain db' where t: "sql_transition db c = Inr (db', v)" and st: "st = memory_of db'" by blast
  from t show ?mem
  proof (cases rule: sql_transition_cases)
    case (Replay l x)
    then show ?thesis by (simp add: st memory_of_ledger) (simp add: memory_transition_def required_value_def memory_of_def)
  next
    case (Move old l x)
    note r = sql_row_wf [OF wf Move(1)]
    have "st = (memory_of db)\<lparr>ms_ledger := l, ms_values := (ms_values (memory_of db))
        ((la_workspace_id (st_event c), la_session_id (st_event c)) \<mapsto> v)\<rparr>"
      using memory_of_update [OF wf Move(1), of v l] r Move(6,8) st by simp
    then show ?thesis using Move(1-7) by (auto simp: memory_transition_def required_value_def memory_of_def Let_def)
  qed
next
  assume m: ?mem
  from conjunct1 [OF m] show ?sql
  proof (cases rule: memory_transition_cases)
    case (Replay l x)
    have "sql_row db (la_workspace_id (st_event c)) (la_session_id (st_event c)) = Some v"
      and "ledger_append (ld_ledger db) (st_event c) = Inr (l, x)"
      using Replay(1,4) by (simp_all add: memory_of_def)
    then have "sql_transition db c = Inr (db\<lparr>ld_ledger := l\<rparr>, v)"
      using Replay(2,3) m by (simp add: sql_transition_def required_row_def projection_def)
    then show ?thesis using Replay(5) memory_of_ledger by metis
  next
    case (Move old l x)
    have row: "sql_row db (la_workspace_id (st_event c)) (la_session_id (st_event c)) = Some old"
      and app: "ledger_append (ld_ledger db) (st_event c) = Inr (l, x)"
      using Move(1,5) by (simp_all add: memory_of_def)
    note r = sql_row_wf [OF wf row]
    have valid: "SessionLifecycle_valid (transition_changes c old)" using m Move(6) by simp
    have "memory_of (db\<lparr>ld_ledger := l, ld_rows := (ld_rows db)(sl_session_id old \<mapsto> v)\<rparr>) = st"
      using memory_of_update [OF wf row, of v l] r Move(6,7) by simp
    moreover have "sql_transition db c = Inr (db\<lparr>ld_ledger := l, ld_rows := (ld_rows db)(sl_session_id old \<mapsto> v)\<rparr>, v)"
      using sql_move_accepted [OF wf c row valid app] valid Move(2-4,6) row app
      by (auto simp: sql_transition_def required_row_def projection_def Let_def)
    ultimately show ?thesis by blast
  qed
qed

subsection \<open>The interface of a lifecycle store\<close>

locale lifecycle_store =
  fixes transition :: "'s \<Rightarrow> SessionTransition \<Rightarrow> ('s \<times> SessionLifecycle) result"
    and lookup :: "'s \<Rightarrow> uuid \<Rightarrow> uuid \<Rightarrow> SessionLifecycle option"
    and inv :: "'s \<Rightarrow> bool"
  assumes transition_inv: "inv st \<Longrightarrow> SessionTransition_valid c \<Longrightarrow> transition st c = Inr (st', v) \<Longrightarrow> inv st'"
    and transition_found: "inv st \<Longrightarrow> SessionTransition_valid c \<Longrightarrow> transition st c = Inr (st', v) \<Longrightarrow>
      lookup st' (la_workspace_id (st_event c)) (la_session_id (st_event c)) = Some v"
    and transition_from: "inv st \<Longrightarrow> SessionTransition_valid c \<Longrightarrow> transition st c = Inr (st', v) \<Longrightarrow>
      lookup st (la_workspace_id (st_event c)) (la_session_id (st_event c)) = Some v \<or>
      (\<exists>old. lookup st (la_workspace_id (st_event c)) (la_session_id (st_event c)) = Some old \<and>
        validate_session_transition (sl_state old) (st_target c) (sl_round old) (st_round c) (st_allow_same_state c) = Inr () \<and>
        v = transition_changes c old)"
    and transition_frame: "inv st \<Longrightarrow> SessionTransition_valid c \<Longrightarrow> transition st c = Inr (st', v) \<Longrightarrow>
      (ws, s) \<noteq> (la_workspace_id (st_event c), la_session_id (st_event c)) \<Longrightarrow> lookup st' ws s = lookup st ws s"
    and transition_again: "inv st \<Longrightarrow> SessionTransition_valid c \<Longrightarrow> transition st c = Inr (st', v) \<Longrightarrow>
      transition st' c = Inr (st', v)"
begin

text \<open>One command moves the state of any session along the graph by at most one edge.\<close>

lemma one_step:
  assumes "inv st" "SessionTransition_valid c" "transition st c = Inr (st', v)" "lookup st ws s = Some old"
  obtains new where "lookup st' ws s = Some new"
    "sl_state new = sl_state old \<and> sl_round new = sl_round old \<or>
     sl_state new \<in> set (TRANSITIONS (sl_state old)) \<and>
       (sl_round new = sl_round old \<or> sl_round new = sl_round old + 1 \<and> sl_state new = RUNNING)"
proof (cases "(ws, s) = (la_workspace_id (st_event c), la_session_id (st_event c))")
  case True
  then show ?thesis
    using transition_from [OF assms(1-3)] transition_found [OF assms(1-3)] assms(4) that by (auto simp: validate_Inr_iff)
next
  case False
  then show ?thesis using transition_frame [OF assms(1-3)] assms(4) that by auto
qed

lemma run_inv:
  "inv st \<Longrightarrow> list_all SessionTransition_valid cs \<Longrightarrow> inv (transition_run transition st cs)"
  by (induction cs arbitrary: st) (auto split: sum.splits intro: transition_inv)

lemma run_step:
  assumes "inv st" "SessionTransition_valid c" "lookup st ws s = Some old"
  obtains new where "lookup (case transition st c of Inl _ \<Rightarrow> st | Inr (st', _) \<Rightarrow> st') ws s = Some new"
    "sl_state new = sl_state old \<and> sl_round new = sl_round old \<or>
     sl_state new \<in> set (TRANSITIONS (sl_state old)) \<and>
       (sl_round new = sl_round old \<or> sl_round new = sl_round old + 1 \<and> sl_state new = RUNNING)"
    "inv (case transition st c of Inl _ \<Rightarrow> st | Inr (st', _) \<Rightarrow> st')"
  using assms one_step [OF assms(1,2) _ assms(3)] transition_inv [OF assms(1,2)]
  by (cases "transition st c") (auto, blast)

text \<open>A terminal state is never left, and the round of a session never decreases.\<close>

lemma run_terminal:
  assumes "inv st" "list_all SessionTransition_valid cs" "lookup st ws s = Some old" "terminal (sl_state old)"
  shows "\<exists>new. lookup (transition_run transition st cs) ws s = Some new \<and>
    sl_state new = sl_state old \<and> sl_round new = sl_round old"
  using assms
proof (induction cs arbitrary: st old)
  case (Cons c cs)
  from Cons.prems obtain new where n: "lookup (case transition st c of Inl _ \<Rightarrow> st | Inr (st', _) \<Rightarrow> st') ws s = Some new"
    "sl_state new = sl_state old \<and> sl_round new = sl_round old"
    "inv (case transition st c of Inl _ \<Rightarrow> st | Inr (st', _) \<Rightarrow> st')"
    using terminal_iff [of "sl_state old"] by (auto elim: run_step)
  with Cons.IH [OF n(3) _ n(1)] Cons.prems show ?case by simp
qed simp

lemma run_rounds:
  assumes "inv st" "list_all SessionTransition_valid cs" "lookup st ws s = Some old"
  shows "\<exists>new. lookup (transition_run transition st cs) ws s = Some new \<and>
    sl_round old \<le> sl_round new \<and> sl_round new \<le> sl_round old + int (length cs)"
  using assms
proof (induction cs arbitrary: st old)
  case (Cons c cs)
  from Cons.prems obtain new where n: "lookup (case transition st c of Inl _ \<Rightarrow> st | Inr (st', _) \<Rightarrow> st') ws s = Some new"
    "sl_round old \<le> sl_round new \<and> sl_round new \<le> sl_round old + 1"
    "inv (case transition st c of Inl _ \<Rightarrow> st | Inr (st', _) \<Rightarrow> st')"
    by (auto elim: run_step)
  with Cons.IH [OF n(3) _ n(1)] Cons.prems show ?case by force
qed simp

end

subsection \<open>Both stores provide the interface\<close>

interpretation memory: lifecycle_store "memory_transition ledger_append" memory_get "\<lambda>st. ledger_wf (ms_ledger st)"
proof (unfold_locales, goal_cases)
  case (1 st c st' v)
  then have e: "LedgerAppend_valid (st_event c)" by (simp add: SessionTransition_valid_def)
  from 1(3) show ?case
    by (cases rule: memory_transition_cases) (use 1(1) e ledger_append_wf in auto)
next
  case (2 st c st' v)
  from 2(3) show ?case by (cases rule: memory_transition_cases) (auto simp: memory_get_def)
next
  case (3 st c st' v)
  from 3(3) show ?case by (cases rule: memory_transition_cases) (auto simp: memory_get_def)
next
  case (4 st c st' v ws s)
  from 4(3) show ?case by (cases rule: memory_transition_cases) (use 4(4) in \<open>auto simp: memory_get_def\<close>)
next
  case (5 st c st' v)
  then have e: "LedgerAppend_valid (st_event c)" by (simp add: SessionTransition_valid_def)
  from 5(3) show ?case
  proof (cases rule: memory_transition_cases)
    case (Replay l x)
    have "ledger_append l (st_event c) = Inr (l, x)" using 5(1) e Replay(4) by (rule sql_ledger.append_retry)
    with Replay show ?thesis by (simp add: memory_transition_def required_value_def)
  next
    case (Move old l x)
    have "ledger_append l (st_event c) = Inr (l, x)" using 5(1) e Move(5) by (rule sql_ledger.append_retry)
    with Move(6,7) show ?thesis by (simp add: memory_transition_def required_value_def Let_def)
  qed
qed

interpretation sql: lifecycle_store sql_transition sql_row lifecycle_wf
proof (unfold_locales, goal_cases)
  case (1 db c db' v)
  then show ?case by (rule sql_transition_wf)
next
  case (2 db c db' v)
  from 2(3) show ?case
    by (cases rule: sql_transition_cases) (use 2(1) in \<open>auto dest: sql_row_wf simp: sql_row_def\<close>)
next
  case (3 db c db' v)
  from 3(3) show ?case by (cases rule: sql_transition_cases) auto
next
  case (4 db c db' v ws s)
  from 4(3) show ?case
  proof (cases rule: sql_transition_cases)
    case (Replay l x)
    then show ?thesis by (simp add: sql_row_def)
  next
    case (Move old l x)
    then show ?thesis using sql_row_wf [OF 4(1) Move(1)] 4(4) by (auto simp: sql_row_def)
  qed
next
  case (5 db c db' v)
  have l: "ledger_wf (ld_ledger db)" and e: "LedgerAppend_valid (st_event c)"
    using 5 by (simp_all add: SessionTransition_valid_def lifecycle_wf_def)
  from 5(3) show ?case
  proof (cases rule: sql_transition_cases)
    case (Replay k x)
    have "ledger_append k (st_event c) = Inr (k, x)" using l e Replay(4) by (rule sql_ledger.append_retry)
    with Replay show ?thesis by (simp add: sql_transition_def required_row_def projection_def sql_row_def)
  next
    case (Move old k x)
    note r = sql_row_wf [OF 5(1) Move(1)]
    have "ledger_append k (st_event c) = Inr (k, x)" using l e Move(5) by (rule sql_ledger.append_retry)
    with Move(6-8) r show ?thesis by (simp add: sql_transition_def required_row_def projection_def sql_row_def)
  qed
qed

subsection \<open>Reachable stores\<close>

lemma flush_wf:
  assumes "lifecycle_wf db" "flush db r = Inr db'" "row_ok (ld_ledger db) r"
  shows "lifecycle_wf db'"
  using assms lifecycle_wf_update [OF assms(1,3)] by (auto simp: flush_def split: if_splits)

lemma sql_add_draft_wf:
  assumes "lifecycle_wf db" "sql_add_draft db ws s tm = Inr (db', v)"
  shows "lifecycle_wf db'"
proof (rule flush_wf [OF assms(1)])
  show "flush db (new_draft ws s tm) = Inr db'"
    using assms(2) by (auto simp: sql_add_draft_def Let_def result_simps split: if_splits)
  then show "row_ok (ld_ledger db) (new_draft ws s tm)"
    using assms(2)
    by (auto simp: sql_add_draft_def flush_def row_ok_def last_event_ok_def row_references_def projection_def
        result_simps Let_def split: if_splits) (simp_all add: new_draft_def)
qed

lemma sql_attach_workflow_wf:
  assumes "lifecycle_wf db" "sql_attach_workflow db ws s w run = Inr (db', v)"
  shows "lifecycle_wf db'"
proof -
  obtain row where row: "sql_row db ws s = Some row"
    using assms(2) by (auto simp: sql_attach_workflow_def required_row_def result_simps split: option.splits if_splits)
  let ?row = "row\<lparr>sl_workflow_id := Some w, sl_run_id := Some run\<rparr>"
  note r = sql_row_wf [OF assms(1) row]
  show ?thesis
  proof (cases "sl_workflow_id row = None")
    case True
    then have f: "flush db ?row = Inr db'" "SessionLifecycle_valid ?row"
      using assms(2) row
      by (auto simp: sql_attach_workflow_def required_row_def projection_def result_simps Let_def split: if_splits)
    then have "row_ok (ld_ledger db) ?row"
      using r by (auto simp: row_ok_def last_event_ok_def flush_def split: if_splits option.splits)
    then show ?thesis using flush_wf [OF assms(1) f(1)] by simp
  next
    case False
    then show ?thesis
      using assms row by (auto simp: sql_attach_workflow_def required_row_def result_simps split: if_splits)
  qed
qed

lemma session_head_added:
  assumes "create_session_ledger_head l ws s = Inr l'" "row_ok l r"
  shows "row_ok l' r"
  using assms
  by (auto simp: create_session_ledger_head_def row_ok_def last_event_ok_def get_by_id_def event_by_id_def
      session_exists_def split: option.splits if_splits)

lemma lifecycle_reachable_wf: "lifecycle_reachable db \<Longrightarrow> lifecycle_wf db"
proof (induction rule: lifecycle_reachable.induct)
  case empty
  show ?case using reachable_wf [OF ledger_reachable.empty] by (simp add: lifecycle_wf_def)
next
  case (session db ws s l)
  then show ?case using create_head_wf session_head_added by (auto simp: lifecycle_wf_def)
next
  case (event db e l x)
  then show ?case by (auto intro: lifecycle_wf_append)
qed (auto intro: sql_add_draft_wf sql_attach_workflow_wf sql_transition_wf)

end
