(* ===== verification/Session_Control.thy ===== *)
theory Session_Control
  imports Session_Lifecycle
begin

text \<open>
  Session controls and the workflow that applies them: the commands of
  \<^verbatim>\<open>app/domain/session_control.py\<close> and \<^verbatim>\<open>app/domain/session_bootstrap.py\<close>, the request check of
  \<^verbatim>\<open>app/application/session_control.py\<close>, the transactions of \<^verbatim>\<open>app/db/session_control.py\<close> and
  \<^verbatim>\<open>app/db/session_bootstrap.py\<close>, and the Temporal workflow of
  \<^verbatim>\<open>app/adapters/temporal/session_bootstrap.py\<close>. What Temporal does with an activity (the times of its
  attempts, and whether the outcome of the last one reaches the workflow) is an argument.
\<close>

subsection \<open>Control commands\<close>

datatype SessionControlKind = PAUSE | RESUME | CANCEL | HUMAN_INPUT

fun control_kind_value :: "SessionControlKind \<Rightarrow> string" where
  "control_kind_value PAUSE = ''PAUSE''"
| "control_kind_value RESUME = ''RESUME''"
| "control_kind_value CANCEL = ''CANCEL''"
| "control_kind_value HUMAN_INPUT = ''HUMAN_INPUT''"

datatype HumanDirectiveKind = INJECT_EVIDENCE | ADD_CONSTRAINT | MODIFY_OBJECTIVE | REQUEST_SIMULATION
  | REQUEST_CRITIQUE | REQUEST_ANOTHER_ROUND | REJECT_RECOMMENDATION | OVERRIDE_OUTCOME

fun directive_kind_value :: "HumanDirectiveKind \<Rightarrow> string" where
  "directive_kind_value INJECT_EVIDENCE = ''INJECT_EVIDENCE''"
| "directive_kind_value ADD_CONSTRAINT = ''ADD_CONSTRAINT''"
| "directive_kind_value MODIFY_OBJECTIVE = ''MODIFY_OBJECTIVE''"
| "directive_kind_value REQUEST_SIMULATION = ''REQUEST_SIMULATION''"
| "directive_kind_value REQUEST_CRITIQUE = ''REQUEST_CRITIQUE''"
| "directive_kind_value REQUEST_ANOTHER_ROUND = ''REQUEST_ANOTHER_ROUND''"
| "directive_kind_value REJECT_RECOMMENDATION = ''REJECT_RECOMMENDATION''"
| "directive_kind_value OVERRIDE_OUTCOME = ''OVERRIDE_OUTCOME''"

record HumanDirective =
  hd_kind :: HumanDirectiveKind
  hd_instruction :: ustr
  hd_artifact_ids :: "uuid list"

definition HumanDirective_valid :: "HumanDirective \<Rightarrow> bool" where
  "HumanDirective_valid d = (1 \<le> length (hd_instruction d) \<and> length (hd_instruction d) \<le> 10000 \<and>
     list_all scalar (hd_instruction d) \<and> \<not> u_blank (hd_instruction d) \<and> distinct (hd_artifact_ids d))"

record SessionControlCommand =
  sc_command_id :: uuid
  sc_event_id :: uuid
  sc_failure_event_id :: uuid
  sc_workspace_id :: uuid
  sc_session_id :: uuid
  sc_kind :: SessionControlKind
  sc_observed_state :: SessionLifecycleState
  sc_correlation_id :: uuid
  sc_actor_id :: uuid
  sc_requested_at :: datetime
  sc_reason :: ustr
  sc_directive :: "HumanDirective option"

definition SessionControlCommand_valid :: "SessionControlCommand \<Rightarrow> bool" where
  "SessionControlCommand_valid c = (1 \<le> length (sc_reason c) \<and> length (sc_reason c) \<le> 2000 \<and>
     list_all scalar (sc_reason c) \<and> \<not> u_blank (sc_reason c) \<and> datetime_valid (sc_requested_at c) \<and>
     (sc_kind c = HUMAN_INPUT) = (sc_directive c \<noteq> None) \<and>
     (case sc_directive c of None \<Rightarrow> True | Some d \<Rightarrow> HumanDirective_valid d))"

record SessionControlTransition =
  ct_command :: SessionControlCommand
  ct_source :: SessionLifecycleState
  ct_target :: SessionLifecycleState
  ct_round :: int

fun control_event_type :: "SessionControlKind \<Rightarrow> string" where
  "control_event_type PAUSE = ''SESSION_PAUSED''"
| "control_event_type RESUME = ''SESSION_RESUMED''"
| "control_event_type CANCEL = ''SESSION_CANCELLED''"
| "control_event_type HUMAN_INPUT = ''HUMAN_DIRECTIVE''"

definition control_transition ::
  "SessionControlCommand \<Rightarrow> SessionLifecycleState \<Rightarrow> int \<Rightarrow> SessionControlTransition result" where
  "control_transition command current_state current_round =
     (if terminal current_state
      then Inl (InvalidSessionTransition (''session is already terminal in '' @ state_value current_state))
      else
        let target =
          (if sc_kind command = PAUSE then PAUSED
           else if sc_kind command = RESUME then RUNNING
           else if sc_kind command = CANCEL then CANCELLED
           else if current_state = WAITING_FOR_HUMAN then RUNNING
           else current_state) in
        ebind (validate_session_transition current_state target current_round current_round
            (sc_kind command = HUMAN_INPUT)) (\<lambda>_.
        if current_round < 0 then Inl (ValueError ''SessionControlTransition'')
        else Inr \<lparr>ct_command = command, ct_source = current_state, ct_target = target, ct_round = current_round\<rparr>))"

text \<open>The check of a request against the stored projection.\<close>

definition validate_control_request :: "SessionControlKind \<Rightarrow> SessionLifecycle \<Rightarrow> unit result" where
  "validate_control_request kind lifecycle =
     (if sl_workflow_id lifecycle = None
      then Inl (InvalidSessionTransition ''session has not been started'')
      else if terminal (sl_state lifecycle)
      then Inl (InvalidSessionTransition
        (''session is already terminal in '' @ state_value (sl_state lifecycle)))
      else if kind = HUMAN_INPUT then
        if sl_state lifecycle \<notin> {RUNNING, WAITING_FOR_HUMAN, PAUSED}
        then Inl (InvalidSessionTransition
          (''human input is not accepted while session is '' @ state_value (sl_state lifecycle)))
        else Inr ()
      else
        let target = (case kind of PAUSE \<Rightarrow> PAUSED | RESUME \<Rightarrow> RUNNING | _ \<Rightarrow> CANCELLED) in
        validate_session_transition (sl_state lifecycle) target (sl_round lifecycle) (sl_round lifecycle) False)"

subsection \<open>The transaction of a control\<close>

text \<open>\<^verbatim>\<open>isoformat()\<close> of a UTC timestamp with \<^verbatim>\<open>Z\<close> for the offset: the fraction only when it is not zero.\<close>

definition iso_text :: "datetime \<Rightarrow> ustr" where
  "iso_text d = pad 4 (dt_year d) @ 45 # pad 2 (dt_month d) @ 45 # pad 2 (dt_day d) @ 84 #
     pad 2 (dt_hour d) @ 58 # pad 2 (dt_minute d) @ 58 # pad 2 (dt_second d) @
     (if dt_micro d = 0 then [] else 46 # pad 6 (dt_micro d)) @ [90]"

definition directive_json :: "HumanDirective \<Rightarrow> json" where
  "directive_json d = JObj [(ustr ''kind'', JStr (ustr (directive_kind_value (hd_kind d)))),
     (ustr ''instruction'', JStr (hd_instruction d)), (ustr ''artifact_ids'', JList (map juuid (hd_artifact_ids d)))]"

definition control_payload :: "SessionControlTransition \<Rightarrow> json" where
  "control_payload t = (let c = ct_command t in JObj
     [(ustr ''command_id'', juuid (sc_command_id c)),
      (ustr ''command'', JStr (ustr (control_kind_value (sc_kind c)))),
      (ustr ''from'', JStr (ustr (state_value (ct_source t)))),
      (ustr ''to'', JStr (ustr (state_value (ct_target t)))),
      (ustr ''observed_state'', JStr (ustr (state_value (sc_observed_state c)))),
      (ustr ''reason'', JStr (sc_reason c)),
      (ustr ''directive'', case sc_directive c of None \<Rightarrow> JNull | Some d \<Rightarrow> directive_json d),
      (ustr ''requested_at'', JStr (iso_text (sc_requested_at c)))])"

definition control_event :: "SessionControlTransition \<Rightarrow> LedgerAppend" where
  "control_event t = (let c = ct_command t in
     \<lparr>la_id = sc_event_id c, la_workspace_id = sc_workspace_id c, la_session_id = sc_session_id c,
      la_event_type = ustr (control_event_type (sc_kind c)), la_payload_schema_version = 1,
      la_causation_id = None, la_correlation_id = sc_correlation_id c, la_actor_class = HUMAN,
      la_actor_id = sc_actor_id c, la_round = ct_round t, la_payload = control_payload t,
      la_recorded_at = sc_requested_at c\<rparr>)"

text \<open>Building the two contracts validates them.\<close>

definition transition_checked ::
  "lifecycle_db \<Rightarrow> SessionTransition \<Rightarrow> (lifecycle_db \<times> SessionLifecycle) result" where
  "transition_checked db c =
     ebind (eguard (LedgerAppend_valid (st_event c)) (ValueError ''LedgerAppend'')) (\<lambda>_.
     ebind (eguard (SessionTransition_valid c) (ValueError ''SessionTransition'')) (\<lambda>_.
     sql_transition db c))"

definition control_step :: "SessionControlTransition \<Rightarrow> SessionTransition" where
  "control_step t = \<lparr>st_source = ct_source t, st_target = ct_target t, st_round = ct_round t,
     st_event = control_event t, st_allow_same_state = (ct_source t = ct_target t)\<rparr>"

definition commit_control ::
  "SessionControlTransition \<Rightarrow> lifecycle_db \<Rightarrow> (lifecycle_db \<times> SessionLifecycle) result" where
  "commit_control t db = transition_checked db (control_step t)"

subsection \<open>Bootstrap transitions\<close>

record SessionBootstrapInput =
  bi_workspace_id :: uuid
  bi_session_id :: uuid
  bi_initialized_event_id :: uuid
  bi_round_started_event_id :: uuid
  bi_failed_event_id :: uuid
  bi_correlation_id :: uuid

record BootstrapFailure =
  bf_activity_type :: ustr
  bf_operation_id :: ustr
  bf_retry_state :: ustr
  bf_termination_reason :: ustr

definition BootstrapFailure_valid :: "BootstrapFailure \<Rightarrow> bool" where
  "BootstrapFailure_valid f = list_all (\<lambda>s. s \<noteq> [] \<and> list_all scalar s)
     [bf_activity_type f, bf_operation_id f, bf_retry_state f, bf_termination_reason f]"

record SessionBootstrapTransition =
  bt_workspace_id :: uuid
  bt_session_id :: uuid
  bt_event_id :: uuid
  bt_event_type :: ustr
  bt_source :: SessionLifecycleState
  bt_target :: SessionLifecycleState
  bt_round :: int
  bt_correlation_id :: uuid
  bt_causation_id :: "uuid option"
  bt_failure :: "BootstrapFailure option"

definition failure_matches_event :: "SessionBootstrapTransition \<Rightarrow> bool" where
  "failure_matches_event c = ((bt_event_type c = ustr ''ACTIVITY_DEAD_LETTERED'') = (bt_failure c \<noteq> None) \<and>
     (case bt_failure c of None \<Rightarrow> True | Some f \<Rightarrow> BootstrapFailure_valid f))"

definition session_workflow_id :: "uuid \<Rightarrow> ustr" where
  "session_workflow_id s = ustr (''session-'' @ uuid_str s)"

definition transition_payload :: "SessionBootstrapTransition \<Rightarrow> json" where
  "transition_payload c = JObj
     ([(ustr ''from'', JStr (ustr (state_value (bt_source c)))),
       (ustr ''to'', JStr (ustr (state_value (bt_target c))))] @
      (case bt_failure c of None \<Rightarrow> [] | Some f \<Rightarrow> [(ustr ''failure'', JObj
         [(ustr ''activity_type'', JStr (bf_activity_type f)), (ustr ''operation_id'', JStr (bf_operation_id f)),
          (ustr ''retry_state'', JStr (bf_retry_state f)),
          (ustr ''termination_reason'', JStr (bf_termination_reason f))])]))"

definition bootstrap_step :: "uuid \<Rightarrow> datetime \<Rightarrow> SessionBootstrapTransition \<Rightarrow> SessionTransition" where
  "bootstrap_step service_actor_id now c =
     \<lparr>st_source = bt_source c, st_target = bt_target c, st_round = bt_round c,
      st_event = \<lparr>la_id = bt_event_id c, la_workspace_id = bt_workspace_id c, la_session_id = bt_session_id c,
        la_event_type = bt_event_type c, la_payload_schema_version = 1, la_causation_id = bt_causation_id c,
        la_correlation_id = bt_correlation_id c, la_actor_class = SERVICE, la_actor_id = service_actor_id,
        la_round = bt_round c, la_payload = transition_payload c, la_recorded_at = now\<rparr>,
      st_allow_same_state = False\<rparr>"

definition commit_bootstrap :: "uuid \<Rightarrow> SessionBootstrapTransition \<Rightarrow> datetime \<Rightarrow> lifecycle_db \<Rightarrow>
    (lifecycle_db \<times> SessionLifecycle) result" where
  "commit_bootstrap service_actor_id c now db =
     ebind (eguard (failure_matches_event c) (ValueError ''SessionBootstrapTransition'')) (\<lambda>_.
     transition_checked db (bootstrap_step service_actor_id now c))"

subsection \<open>Activities\<close>

definition activity_operation_id :: "ustr \<Rightarrow> ustr \<Rightarrow> ustr \<Rightarrow> ustr result" where
  "activity_operation_id session_id activity_type idempotency_key =
     (if list_ex u_blank [session_id, activity_type, idempotency_key]
      then Inl (ValueError ''activity operation identity parts must not be blank'')
      else Inr (session_id @ 58 # activity_type @ 58 # idempotency_key))"

record ActivityPolicy =
  po_start_to_close_s :: int
  po_schedule_to_close_s :: int
  po_maximum_attempts :: int

definition STATE_COMMIT_POLICY :: ActivityPolicy where
  "STATE_COMMIT_POLICY = \<lparr>po_start_to_close_s = 15, po_schedule_to_close_s = 300, po_maximum_attempts = 10\<rparr>"

text \<open>The failures that an activity reports as not worth a retry.\<close>

fun permanent_failure :: "py_error \<Rightarrow> bool" where
  "permanent_failure (ValueError _) = True"
| "permanent_failure (InvalidSessionTransition _) = True"
| "permanent_failure (LedgerIntegrityError _) = True"
| "permanent_failure _ = False"

text \<open>
  The attempts of an activity, each a transaction at its time. An attempt that committed is repeated when its
  answer was lost. The flag says that the last attempt committed.
\<close>

fun activity_attempts ::
  "(datetime \<Rightarrow> lifecycle_db \<Rightarrow> (lifecycle_db \<times> SessionLifecycle) result) \<Rightarrow> datetime list \<Rightarrow> lifecycle_db \<Rightarrow>
     lifecycle_db \<times> bool" where
  "activity_attempts commit [] db = (db, False)"
| "activity_attempts commit (t # ts) db = (case commit t db of
     Inr (db', _) \<Rightarrow> if ts = [] then (db', True) else activity_attempts commit ts db'
   | Inl e \<Rightarrow> if permanent_failure e then (db, False) else activity_attempts commit ts db)"

record activity_history =
  ah_attempts :: "datetime list"
  ah_reported :: bool
  ah_retry_state :: ustr

definition execute_activity ::
  "(datetime \<Rightarrow> lifecycle_db \<Rightarrow> (lifecycle_db \<times> SessionLifecycle) result) \<Rightarrow> activity_history \<Rightarrow> lifecycle_db \<Rightarrow>
     lifecycle_db \<times> bool" where
  "execute_activity commit h db =
     (let (db', committed) =
        activity_attempts commit (take (nat (po_maximum_attempts STATE_COMMIT_POLICY)) (ah_attempts h)) db
      in (db', committed \<and> ah_reported h))"

subsection \<open>The workflow\<close>

datatype workflow_status = Active | Finished | Crashed

record workflow_state =
  wf_pending_controls :: "SessionControlCommand list"
  wf_processed_control_ids :: "string set"
  wf_state :: SessionLifecycleState
  wf_round :: int

definition new_workflow :: workflow_state where
  "new_workflow = \<lparr>wf_pending_controls = [], wf_processed_control_ids = {}, wf_state = DRAFT, wf_round = 0\<rparr>"

definition receive_control :: "SessionControlCommand \<Rightarrow> workflow_state \<Rightarrow> workflow_state" where
  "receive_control c w = w\<lparr>wf_pending_controls := wf_pending_controls w @ [c]\<rparr>"

definition initialized_command :: "SessionBootstrapInput \<Rightarrow> SessionBootstrapTransition" where
  "initialized_command b = \<lparr>bt_workspace_id = bi_workspace_id b, bt_session_id = bi_session_id b,
     bt_event_id = bi_initialized_event_id b, bt_event_type = ustr ''SESSION_INITIALIZED'',
     bt_source = DRAFT, bt_target = INITIALIZING, bt_round = 0, bt_correlation_id = bi_correlation_id b,
     bt_causation_id = None, bt_failure = None\<rparr>"

definition round_started_command :: "SessionBootstrapInput \<Rightarrow> SessionBootstrapTransition" where
  "round_started_command b = \<lparr>bt_workspace_id = bi_workspace_id b, bt_session_id = bi_session_id b,
     bt_event_id = bi_round_started_event_id b, bt_event_type = ustr ''ROUND_STARTED'',
     bt_source = INITIALIZING, bt_target = RUNNING, bt_round = 1, bt_correlation_id = bi_correlation_id b,
     bt_causation_id = Some (bi_initialized_event_id b), bt_failure = None\<rparr>"

definition bootstrap_activity :: ustr where
  "bootstrap_activity = ustr ''commit_session_bootstrap_transition''"

definition control_activity :: ustr where
  "control_activity = ustr ''commit_session_control_transition''"

definition dead_letter :: "ustr \<Rightarrow> ustr \<Rightarrow> ustr \<Rightarrow> BootstrapFailure" where
  "dead_letter activity_type operation_id retry_state = \<lparr>bf_activity_type = activity_type,
     bf_operation_id = operation_id, bf_retry_state = retry_state,
     bf_termination_reason = ustr ''ACTIVITY_POLICY_EXHAUSTED''\<rparr>"

definition bootstrap_failed_command ::
  "SessionBootstrapInput \<Rightarrow> workflow_state \<Rightarrow> ustr \<Rightarrow> SessionBootstrapTransition" where
  "bootstrap_failed_command b w retry_state =
     (let failed_event_id = (if wf_state w = DRAFT then bi_initialized_event_id b else bi_round_started_event_id b);
          operation_id = projr (activity_operation_id (ustr (uuid_str (bi_session_id b))) bootstrap_activity (ustr (uuid_str failed_event_id)))
      in \<lparr>bt_workspace_id = bi_workspace_id b, bt_session_id = bi_session_id b,
        bt_event_id = bi_failed_event_id b, bt_event_type = ustr ''ACTIVITY_DEAD_LETTERED'',
        bt_source = wf_state w, bt_target = FAILED, bt_round = wf_round w,
        bt_correlation_id = bi_correlation_id b,
        bt_causation_id = (if wf_state w \<noteq> DRAFT then Some (bi_initialized_event_id b) else None),
        bt_failure = Some (dead_letter bootstrap_activity operation_id retry_state)\<rparr>)"

definition control_failed_command ::
  "SessionControlCommand \<Rightarrow> workflow_state \<Rightarrow> ustr \<Rightarrow> SessionBootstrapTransition" where
  "control_failed_command c w retry_state =
     (let operation_id = projr (activity_operation_id (ustr (uuid_str (sc_session_id c))) control_activity (ustr (uuid_str (sc_command_id c))))
      in \<lparr>bt_workspace_id = sc_workspace_id c, bt_session_id = sc_session_id c,
        bt_event_id = sc_failure_event_id c, bt_event_type = ustr ''ACTIVITY_DEAD_LETTERED'',
        bt_source = wf_state w, bt_target = FAILED, bt_round = wf_round w,
        bt_correlation_id = sc_correlation_id c, bt_causation_id = Some (sc_event_id c),
        bt_failure = Some (dead_letter control_activity operation_id retry_state)\<rparr>)"

text \<open>The part of the run before the loop; the three histories are those of its activities.\<close>

definition run_bootstrap ::
  "uuid \<Rightarrow> SessionBootstrapInput \<Rightarrow> activity_history \<Rightarrow> activity_history \<Rightarrow> activity_history \<Rightarrow>
     workflow_state \<Rightarrow> lifecycle_db \<Rightarrow> lifecycle_db \<times> workflow_state \<times> workflow_status" where
  "run_bootstrap actor b h1 h2 hf w db =
     (let (db1, ok1) = execute_activity (commit_bootstrap actor (initialized_command b)) h1 db in
      if \<not> ok1 then
        let (db', _) = execute_activity (commit_bootstrap actor (bootstrap_failed_command b w (ah_retry_state h1))) hf db1
        in (db', w, Crashed)
      else let w1 = w\<lparr>wf_state := INITIALIZING\<rparr>;
               (db2, ok2) = execute_activity (commit_bootstrap actor (round_started_command b)) h2 db1 in
        if \<not> ok2 then
          let (db', _) = execute_activity (commit_bootstrap actor (bootstrap_failed_command b w1 (ah_retry_state h2))) hf db2
          in (db', w1, Crashed)
        else (db2, w1\<lparr>wf_state := RUNNING, wf_round := 1\<rparr>, Active))"

text \<open>One iteration of the loop, for the first pending command.\<close>

definition handle_control ::
  "uuid \<Rightarrow> activity_history \<Rightarrow> activity_history \<Rightarrow> workflow_state \<Rightarrow> lifecycle_db \<Rightarrow>
     lifecycle_db \<times> workflow_state \<times> workflow_status" where
  "handle_control actor h hf w db = (case wf_pending_controls w of
     [] \<Rightarrow> (db, w, Active)
   | command # rest \<Rightarrow>
       (let w1 = w\<lparr>wf_pending_controls := rest\<rparr>; identity = uuid_str (sc_command_id command) in
        if identity \<in> wf_processed_control_ids w then (db, w1, Active)
        else (case control_transition command (wf_state w) (wf_round w) of
          Inl (InvalidSessionTransition _) \<Rightarrow> (db, w1\<lparr>wf_processed_control_ids := insert identity (wf_processed_control_ids w)\<rparr>, Active)
        | Inl _ \<Rightarrow> (db, w1, Crashed)
        | Inr transition \<Rightarrow>
            (let (db1, ok) = execute_activity (\<lambda>_. commit_control transition) h db in
             if \<not> ok then
               let (db', _) = execute_activity (commit_bootstrap actor (control_failed_command command w1 (ah_retry_state h))) hf db1
               in (db', w1, Crashed)
             else (db1, w1\<lparr>wf_state := ct_target transition, wf_round := ct_round transition,
                       wf_processed_control_ids := insert identity (wf_processed_control_ids w)\<rparr>,
                   if ct_target transition = CANCELLED then Finished else Active)))))"

text \<open>The loop over a list of pairs of histories, one for each iteration, and commands arriving before it.\<close>

fun run_controls ::
  "uuid \<Rightarrow> (SessionControlCommand list \<times> activity_history \<times> activity_history) list \<Rightarrow> workflow_state \<Rightarrow> lifecycle_db \<Rightarrow>
     lifecycle_db \<times> workflow_state \<times> workflow_status" where
  "run_controls actor [] w db = (db, w, Active)"
| "run_controls actor ((arriving, h, hf) # later) w db =
     (let (db', w', status) = handle_control actor h hf (fold receive_control arriving w) db in
      if status = Active then run_controls actor later w' db' else (db', w', status))"

subsection \<open>Agreement of workflow and projection\<close>

text \<open>The workflow and the stored projection tell the same story about a session.\<close>

definition agrees :: "uuid \<Rightarrow> uuid \<Rightarrow> workflow_state \<Rightarrow> lifecycle_db \<Rightarrow> bool" where
  "agrees ws s w db = (map_option (\<lambda>v. (sl_state v, sl_round v)) (sql_row db ws s) = Some (wf_state w, wf_round w))"

definition own_command :: "uuid \<Rightarrow> uuid \<Rightarrow> SessionControlCommand \<Rightarrow> bool" where
  "own_command ws s c = (SessionControlCommand_valid c \<and> sc_workspace_id c = ws \<and> sc_session_id c = s)"



subsection \<open>Committed transitions\<close>

lemma sql_transition_result:
  assumes "lifecycle_wf db" "SessionTransition_valid c" "sql_transition db c = Inr (db', v)"
  shows "sl_state v = st_target c \<and> sl_round v = st_round c"
  using assms(3)
proof (cases rule: sql_transition_cases)
  case (Replay l x)
  have e: "LedgerAppend_valid (st_event c)" "la_round (st_event c) = st_round c"
    using assms(2) by (simp_all add: SessionTransition_valid_def event_matches_transition_def)
  have l: "ledger_wf (ld_ledger db)" using assms(1) by (simp add: lifecycle_wf_def)
  note r = sql_row_wf [OF assms(1) Replay(1)]
  obtain e' where e': "get_by_id (ld_ledger db) (sl_workspace_id v) (sl_session_id v) (la_id (st_event c)) = Some e'"
    "la_round e' = sl_round v"
    using r Replay(3) by (auto simp: row_ok_def last_event_ok_def split: option.splits)
  then have "x = e'"
    using get_by_id_append(1,2) [OF l e(1) Replay(4)] r by (metis option.inject)
  then show ?thesis using get_by_id_append(1) [OF l e(1) Replay(4)] e' e(2) Replay(2) by simp
next
  case (Move old l x)
  then show ?thesis by simp
qed

lemma transition_checked_Inr:
  "transition_checked db c = Inr r \<longleftrightarrow> SessionTransition_valid c \<and> sql_transition db c = Inr r"
  by (auto simp: transition_checked_def result_simps SessionTransition_valid_def)

lemma transition_checked_result:
  assumes "lifecycle_wf db" "transition_checked db c = Inr (db', v)"
  shows "lifecycle_wf db' \<and>
    sql_row db' (la_workspace_id (st_event c)) (la_session_id (st_event c)) = Some v \<and>
    sl_state v = st_target c \<and> sl_round v = st_round c"
proof -
  have t: "SessionTransition_valid c" "sql_transition db c = Inr (db', v)"
    using assms(2) by (simp_all add: transition_checked_Inr)
  then show ?thesis
    using sql_transition_result [OF assms(1) t] sql.transition_found [OF assms(1) t] sql.transition_inv [OF assms(1) t] by simp
qed

subsection \<open>Activities that commit one transition\<close>

locale transition_committer =
  fixes commit :: "datetime \<Rightarrow> lifecycle_db \<Rightarrow> (lifecycle_db \<times> SessionLifecycle) result"
    and ws s :: uuid and target :: SessionLifecycleState and n :: int
  assumes committed: "lifecycle_wf db \<Longrightarrow> commit t db = Inr (db', v) \<Longrightarrow>
    lifecycle_wf db' \<and> sql_row db' ws s = Some v \<and> sl_state v = target \<and> sl_round v = n"
begin

lemma attempts_wf: "lifecycle_wf db \<Longrightarrow> lifecycle_wf (fst (activity_attempts commit ts db))"
  by (induction ts arbitrary: db) (auto split: sum.splits dest: committed)

lemma attempts_committed:
  "lifecycle_wf db \<Longrightarrow> activity_attempts commit ts db = (db', True) \<Longrightarrow>
     \<exists>v. sql_row db' ws s = Some v \<and> sl_state v = target \<and> sl_round v = n"
  by (induction ts arbitrary: db) (auto split: sum.splits if_splits dest: committed)

lemma activity_wf: "lifecycle_wf db \<Longrightarrow> execute_activity commit h db = (db', ok) \<Longrightarrow> lifecycle_wf db'"
  using attempts_wf [of db "take (nat (po_maximum_attempts STATE_COMMIT_POLICY)) (ah_attempts h)"]
  by (auto simp: execute_activity_def split: prod.splits)

lemma activity_committed:
  "lifecycle_wf db \<Longrightarrow> execute_activity commit h db = (db', True) \<Longrightarrow>
     \<exists>v. sql_row db' ws s = Some v \<and> sl_state v = target \<and> sl_round v = n"
  using attempts_committed [of db "take (nat (po_maximum_attempts STATE_COMMIT_POLICY)) (ah_attempts h)"]
  by (auto simp: execute_activity_def split: prod.splits)

end

interpretation control: transition_committer "\<lambda>_. commit_control t" "sc_workspace_id (ct_command t)"
  "sc_session_id (ct_command t)" "ct_target t" "ct_round t" for t
proof unfold_locales
  fix db db' v
  assume "lifecycle_wf db" "commit_control t db = Inr (db', v)"
  then show "lifecycle_wf db' \<and> sql_row db' (sc_workspace_id (ct_command t)) (sc_session_id (ct_command t)) = Some v \<and>
      sl_state v = ct_target t \<and> sl_round v = ct_round t"
    using transition_checked_result [of db "control_step t" db' v]
    by (simp add: commit_control_def control_step_def control_event_def Let_def)
qed

interpretation bootstrap: transition_committer "commit_bootstrap actor c" "bt_workspace_id c" "bt_session_id c"
  "bt_target c" "bt_round c" for actor c
proof unfold_locales
  fix db now db' v
  assume "lifecycle_wf db" "commit_bootstrap actor c now db = Inr (db', v)"
  then show "lifecycle_wf db' \<and> sql_row db' (bt_workspace_id c) (bt_session_id c) = Some v \<and>
      sl_state v = bt_target c \<and> sl_round v = bt_round c"
    using transition_checked_result [of db "bootstrap_step actor now c" db' v]
    by (auto simp: commit_bootstrap_def bootstrap_step_def result_simps)
qed

subsection \<open>The workflow and the projection\<close>

lemma run_bootstrap_agrees:
  assumes "lifecycle_wf db" "run_bootstrap actor b h1 h2 hf w db = (db', w', status)"
  shows "lifecycle_wf db' \<and>
    (status = Active \<longrightarrow> wf_state w' = RUNNING \<and> wf_round w' = 1 \<and> agrees (bi_workspace_id b) (bi_session_id b) w' db')"
proof -
  obtain db1 ok1 where a1: "execute_activity (commit_bootstrap actor (initialized_command b)) h1 db = (db1, ok1)" by fastforce
  obtain db2 ok2 where a2: "execute_activity (commit_bootstrap actor (round_started_command b)) h2 db1 = (db2, ok2)" by fastforce
  have wf: "lifecycle_wf db1" "lifecycle_wf db2"
    using bootstrap.activity_wf [OF assms(1) a1] bootstrap.activity_wf [OF _ a2] by blast+
  have d: "ok2 \<Longrightarrow> agrees (bi_workspace_id b) (bi_session_id b) (w\<lparr>wf_state := RUNNING, wf_round := 1\<rparr>) db2"
    using bootstrap.activity_committed [OF wf(1), of actor "round_started_command b" h2 db2] a2
    by (auto simp: agrees_def round_started_command_def)
  show ?thesis
    using assms(2) a1 a2 wf d bootstrap.activity_wf [OF wf(1)] bootstrap.activity_wf [OF wf(2)]
    by (auto simp: run_bootstrap_def agrees_def Let_def split: prod.splits if_splits)
qed

lemma control_transition_Inr:
  assumes "control_transition c st n = Inr t"
  shows "ct_command t = c \<and> ct_source t = st \<and> ct_round t = n \<and> 0 \<le> n \<and> \<not> terminal st \<and>
    validate_session_transition st (ct_target t) n n (sc_kind c = HUMAN_INPUT) = Inr () \<and>
    ct_target t = (case sc_kind c of PAUSE \<Rightarrow> PAUSED | RESUME \<Rightarrow> RUNNING | CANCEL \<Rightarrow> CANCELLED
      | HUMAN_INPUT \<Rightarrow> if st = WAITING_FOR_HUMAN then RUNNING else st)"
  using assms by (auto simp: control_transition_def Let_def result_simps split: if_splits SessionControlKind.splits)

lemma handle_control_agrees:
  assumes "lifecycle_wf db" "agrees ws s w db" "\<forall>c \<in> set (wf_pending_controls w). own_command ws s c"
    and "handle_control actor h hf w db = (db', w', status)"
  shows "lifecycle_wf db' \<and> (\<forall>c \<in> set (wf_pending_controls w'). own_command ws s c) \<and>
    (status \<noteq> Crashed \<longrightarrow> agrees ws s w' db')"
proof (cases "wf_pending_controls w")
  case Nil
  then show ?thesis using assms by (simp add: handle_control_def)
next
  case (Cons c rest)
  have own: "own_command ws s c" "\<forall>c \<in> set rest. own_command ws s c" using assms(3) Cons by auto
  show ?thesis
  proof (cases "uuid_str (sc_command_id c) \<in> wf_processed_control_ids w")
    case True
    then show ?thesis using assms Cons own by (auto simp: handle_control_def agrees_def)
  next
    case False
    show ?thesis
    proof (cases "control_transition c (wf_state w) (wf_round w)")
      case (Inl e)
      then show ?thesis
        using assms Cons own False
        by (cases e) (auto simp: handle_control_def Let_def agrees_def)
    next
      case (Inr t)
      note t = control_transition_Inr [OF Inr]
      obtain db1 ok where a: "execute_activity (\<lambda>_. commit_control t) h db = (db1, ok)" by fastforce
      have wf1: "lifecycle_wf db1" using control.activity_wf [OF assms(1) a] .
      have d: "ok \<Longrightarrow> \<exists>v. sql_row db1 ws s = Some v \<and> sl_state v = ct_target t \<and> sl_round v = ct_round t"
        using control.activity_committed [OF assms(1), of t h db1] a t own by (auto simp: own_command_def)
      show ?thesis
        using assms(4) Cons False Inr a wf1 own d bootstrap.activity_wf [OF wf1]
        by (auto simp: handle_control_def Let_def agrees_def split: prod.splits if_splits)
    qed
  qed
qed

lemma receive_controls: "wf_pending_controls (fold receive_control cs w) = wf_pending_controls w @ cs"
    "wf_state (fold receive_control cs w) = wf_state w" "wf_round (fold receive_control cs w) = wf_round w"
  by (induction cs arbitrary: w) (auto simp: receive_control_def)

lemma run_controls_agrees:
  assumes "lifecycle_wf db" "agrees ws s w db" "\<forall>c \<in> set (wf_pending_controls w). own_command ws s c"
    and "\<forall>(cs, _) \<in> set steps. \<forall>c \<in> set cs. own_command ws s c"
    and "run_controls actor steps w db = (db', w', status)"
  shows "lifecycle_wf db' \<and> (status \<noteq> Crashed \<longrightarrow> agrees ws s w' db')"
  using assms
proof (induction steps arbitrary: w db)
  case (Cons st steps)
  obtain cs h hf where st: "st = (cs, h, hf)" by (cases st)
  let ?w = "fold receive_control cs w"
  obtain db1 w1 status1 where r: "handle_control actor h hf ?w db = (db1, w1, status1)" by (cases "handle_control actor h hf ?w db")
  have h: "lifecycle_wf db1 \<and> (\<forall>c \<in> set (wf_pending_controls w1). own_command ws s c) \<and>
      (status1 \<noteq> Crashed \<longrightarrow> agrees ws s w1 db1)"
    by (rule handle_control_agrees [OF Cons.prems(1) _ _ r]) (use Cons.prems(2-4) in \<open>auto simp: agrees_def receive_controls st\<close>)
  show ?case
  proof (cases "status1 = Active")
    case True
    then show ?thesis using Cons.IH [of db1 w1] Cons.prems(4,5) h r by (simp add: st)
  next
    case False
    then show ?thesis using Cons.prems(5) h r by (auto simp: st)
  qed
qed simp

text \<open>After the bootstrap the workflow runs, is paused or is cancelled, in round one.\<close>

lemma handle_control_states:
  assumes "wf_state w \<in> {RUNNING, PAUSED}" "handle_control actor h hf w db = (db', w', status)"
  shows "wf_state w' \<in> {RUNNING, PAUSED, CANCELLED} \<and> wf_round w' = wf_round w \<and>
    (status = Active \<longrightarrow> wf_state w' \<noteq> CANCELLED) \<and> (status = Finished \<longrightarrow> wf_state w' = CANCELLED)"
proof (cases "wf_pending_controls w")
  case Nil
  then show ?thesis using assms by (auto simp: handle_control_def)
next
  case (Cons c rest)
  show ?thesis
  proof (cases "control_transition c (wf_state w) (wf_round w)")
    case (Inl e)
    then show ?thesis using assms Cons
      by (cases e) (auto simp: handle_control_def Let_def split: if_splits)
  next
    case (Inr t)
    note t = control_transition_Inr [OF Inr]
    have "ct_target t \<in> {RUNNING, PAUSED, CANCELLED}" using t assms(1) by (auto split: SessionControlKind.splits)
    then show ?thesis using assms Cons Inr t
      by (auto simp: handle_control_def Let_def split: prod.splits if_splits)
  qed
qed

subsection \<open>The event of a control\<close>

lemma iso_text_scalar: "list_all scalar (iso_text d)"
  by (simp add: iso_text_def pad_scalar scalar_ascii)

lemma juuid_scalars: "scalars (juuid u)"
  by (simp add: juuid_def ustr_scalar)

lemma directive_scalars: "HumanDirective_valid d \<Longrightarrow> scalars (directive_json d)"
  unfolding directive_json_def scalars_object
  by (simp add: ustr_scalar HumanDirective_valid_def) (simp add: list_all_iff juuid_scalars)

lemma control_payload_ok:
  assumes "SessionControlCommand_valid (ct_command t)"
  shows "scalars (control_payload t) \<and> is_object (control_payload t)"
proof -
  have "scalars (case sc_directive (ct_command t) of None \<Rightarrow> JNull | Some d \<Rightarrow> directive_json d)"
    using assms by (auto simp: SessionControlCommand_valid_def directive_scalars split: option.splits)
  moreover have "list_all scalar (sc_reason (ct_command t))" using assms by (simp add: SessionControlCommand_valid_def)
  ultimately show ?thesis
    unfolding control_payload_def Let_def scalars_object
    by (simp add: ustr_scalar iso_text_scalar juuid_scalars) (simp add: ustr_def)
qed

lemma control_step_valid:
  assumes "SessionControlCommand_valid (ct_command t)" "0 \<le> ct_round t"
  shows "SessionTransition_valid (control_step t)"
proof -
  have "la_event_type (control_event t) \<noteq> [] \<and> \<not> u_blank (la_event_type (control_event t))"
    by (cases "sc_kind (ct_command t)") (simp_all add: control_event_def u_blank_def u_isspace_def ustr_def Let_def)
  then have "LedgerAppend_valid (control_event t)"
    using control_payload_ok [OF assms(1)] assms
    by (simp add: LedgerAppend_valid_def control_event_def Let_def ustr_scalar SessionControlCommand_valid_def)
  then show ?thesis
    using assms(2) by (simp add: SessionTransition_valid_def event_matches_transition_def control_step_def control_event_def Let_def)
qed

lemma control_step_simps [simp]:
  "st_source (control_step t) = ct_source t" "st_target (control_step t) = ct_target t"
  "st_round (control_step t) = ct_round t" "st_event (control_step t) = control_event t"
  "st_allow_same_state (control_step t) = (ct_source t = ct_target t)"
  by (simp_all add: control_step_def)

text \<open>A transition that the graph allows commits, if its event is new and not dated before the session.\<close>

lemma transition_accepted:
  assumes wf: "lifecycle_wf db" and c: "SessionTransition_valid c"
    and row: "sql_row db (la_workspace_id (st_event c)) (la_session_id (st_event c)) = Some v"
    and step: "sl_state v = st_source c"
      "validate_session_transition (sl_state v) (st_target c) (sl_round v) (st_round c) (st_allow_same_state c) = Inr ()"
    and draft: "st_target c \<noteq> DRAFT" and time: "\<not> dt_less (la_recorded_at (st_event c)) (sl_created_at v)"
    and fresh: "event_by_id (ld_ledger db) (la_id (st_event c)) = None"
  obtains l x where "ledger_append (ld_ledger db) (st_event c) = Inr (l, x)"
    "sql_transition db c = Inr (db\<lparr>ld_ledger := l, ld_rows := (ld_rows db)(sl_session_id v \<mapsto> transition_changes c v)\<rparr>,
      transition_changes c v)"
proof -
  have ev: "LedgerAppend_valid (st_event c)" using c by (simp add: SessionTransition_valid_def)
  have lw: "ledger_wf (ld_ledger db)" using wf by (simp add: lifecycle_wf_def)
  note r = sql_row_wf [OF wf row]
  obtain h where h: "lg_heads (ld_ledger db) (la_session_id (st_event c)) = Some h"
    "lh_workspace_id h = la_workspace_id (st_event c)"
    using r by (auto simp: row_ok_def session_exists_def split: option.splits)
  obtain l x where app: "ledger_append (ld_ledger db) (st_event c) = Inr (l, x)"
    using append_new [OF lw ev fresh h] by auto
  have ok: "SessionLifecycle_valid (transition_changes c v)"
    using transition_changes_valid [OF _ c step, of "ld_ledger db"] r draft time by simp
  have "sl_last_event_id v \<noteq> Some (la_id (st_event c))"
    using r fresh by (auto simp: row_ok_def last_event_ok_def get_by_id_def)
  then have "sql_transition db c = Inr (db\<lparr>ld_ledger := l, ld_rows := (ld_rows db)(sl_session_id v \<mapsto> transition_changes c v)\<rparr>,
      transition_changes c v)"
    using sql_move_accepted [OF wf c row ok app] row app step ok
    unfolding sql_transition_def required_row_def projection_def Let_def by auto
  with app show ?thesis by (rule that)
qed

text \<open>A command interpreted in the stored state commits.\<close>

lemma commit_control_accepted:
  assumes wf: "lifecycle_wf db" and row: "sql_row db ws s = Some v" and own: "own_command ws s c"
    and t: "control_transition c (sl_state v) (sl_round v) = Inr t" and draft: "sl_state v \<noteq> DRAFT"
    and fresh: "event_by_id (ld_ledger db) (sc_event_id c) = None"
    and time: "\<not> dt_less (sc_requested_at c) (sl_created_at v)"
  shows "\<exists>db'. commit_control t db = Inr (db', transition_changes (control_step t) v) \<and>
    get_by_id (ld_ledger db') ws s (sc_event_id c) \<noteq> None"
proof -
  note ti = control_transition_Inr [OF t]
  have cv: "SessionTransition_valid (control_step t)"
    using control_step_valid [of t] own ti by (simp add: own_command_def)
  have ev: "LedgerAppend_valid (control_event t)" "la_id (control_event t) = sc_event_id c"
    "la_workspace_id (control_event t) = ws" "la_session_id (control_event t) = s" "la_recorded_at (control_event t) = sc_requested_at c"
    using cv own ti by (simp_all add: SessionTransition_valid_def own_command_def) (simp_all add: control_event_def Let_def)
  have val: "validate_session_transition (sl_state v) (ct_target t) (sl_round v) (sl_round v) (sc_kind c = HUMAN_INPUT) = Inr ()"
    and e: "ct_source t = sl_state v" "ct_round t = sl_round v" using ti by blast+
  have step: "sl_state v = st_source (control_step t)"
    "validate_session_transition (sl_state v) (st_target (control_step t)) (sl_round v) (st_round (control_step t))
      (st_allow_same_state (control_step t)) = Inr ()"
    using val unfolding control_step_simps e validate_Inr_iff by blast+
  have nd: "st_target (control_step t) \<noteq> DRAFT"
    using val draft no_way_to_draft [of "sl_state v"] by (auto simp: validate_Inr_iff)
  have lw: "ledger_wf (ld_ledger db)" using wf by (simp add: lifecycle_wf_def)
  obtain l x where "ledger_append (ld_ledger db) (control_event t) = Inr (l, x)"
    "sql_transition db (control_step t) = Inr (db\<lparr>ld_ledger := l, ld_rows := (ld_rows db)
      (sl_session_id v \<mapsto> transition_changes (control_step t) v)\<rparr>, transition_changes (control_step t) v)"
    by (rule transition_accepted [OF wf cv _ step nd]) (use row ev time fresh in auto)
  then show ?thesis
    using get_by_id_append(1) [OF lw ev(1)] cv ev by (simp add: commit_control_def transition_checked_Inr)
qed

end
