(* ===== verification/Ledger_Properties.thy ===== *)
theory Ledger_Properties
  imports Reasoning_Ledger
begin

text \<open>
  The properties of canonical JSON and of the reasoning ledger: what a hash identifies, that every
  ledger the operations reach verifies, that a verified history is determined by its head, and how
  appends behave when they are repeated, interleaved or in conflict.
\<close>

subsection \<open>A sample ledger\<close>

definition sample_append :: LedgerAppend where
  "sample_append = \<lparr>la_id = 7, la_workspace_id = 1, la_session_id = 2,
     la_event_type = ustr ''session.started'', la_payload_schema_version = 1, la_causation_id = None,
     la_correlation_id = 9, la_actor_class = HUMAN, la_actor_id = 4, la_round = 0,
     la_payload = JObj [(ustr ''goal'', JStr (ustr ''x'')), (ustr ''flag'', JBool True)],
     la_recorded_at = \<lparr>dt_year = 2026, dt_month = 1, dt_day = 2, dt_hour = 3, dt_minute = 4,
       dt_second = 5, dt_micro = 6\<rparr>\<rparr>"

definition sample_head :: ledger_head where
  "sample_head = \<lparr>lh_workspace_id = 1, lh_next_seq = 1, lh_head_hash = GENESIS_HASH\<rparr>"

definition sample_start :: ledger_db where
  "sample_start = empty_ledger\<lparr>lg_heads := [2 \<mapsto> sample_head]\<rparr>"

definition sample_event :: LedgerEvent where
  "sample_event = next_event sample_head sample_append"

definition sample_ledger :: ledger_db where
  "sample_ledger = with_event sample_start sample_head sample_event"

text \<open>The sample ledger with the members of the payload in another order.\<close>

definition reordered_event :: LedgerEvent where
  "reordered_event = sample_event\<lparr>la_payload :=
     JObj [(ustr ''flag'', JBool True), (ustr ''goal'', JStr (ustr ''x''))]\<rparr>"

definition reordered_ledger :: ledger_db where
  "reordered_ledger = with_event sample_start sample_head reordered_event"

lemma sample_append_valid: "LedgerAppend_valid sample_append"
  unfolding LedgerAppend_valid_def sample_append_def datetime_valid_def u_blank_def scalars_object is_object.simps
  by (simp add: ustr_scalar) (simp add: ustr_def u_isspace_def)

lemma sample_start_reachable: "ledger_reachable sample_start"
proof -
  have "create_session_ledger_head empty_ledger 1 2 = Inr sample_start"
    by (simp add: create_session_ledger_head_def empty_ledger_def sample_start_def sample_head_def)
  then show ?thesis by (rule ledger_reachable.session [OF ledger_reachable.empty])
qed

lemma sample_appended: "ledger_append sample_start sample_append = Inr (sample_ledger, sample_event)"
  unfolding sample_ledger_def sample_event_def
  by (rule append_new [OF reachable_wf [OF sample_start_reachable] sample_append_valid])
    (simp_all add: sample_start_def sample_append_def sample_head_def event_by_id_def empty_ledger_def)

lemma sample_ledger_reachable: "ledger_reachable sample_ledger"
  using ledger_reachable.append [OF sample_start_reachable sample_append_valid, of sample_start "[]"]
    sample_appended by (simp add: ledger_append_def)

lemma sample_ledger_head: "\<exists>h. lg_heads sample_ledger 2 = Some h \<and> lh_workspace_id h = 1"
  by (simp add: sample_ledger_def with_event_def sample_event_def)
    (simp add: sample_append_def sample_head_def)

lemma sample_rows: "rows_of sample_ledger 2 = [sample_event]"
  by (simp add: sample_ledger_def rows_of_with_event sample_event_def)
    (simp add: sample_append_def sample_start_def empty_ledger_def rows_of_def)

lemma sample_found: "event_by_id sample_ledger 7 = Some sample_event"
  using sql_ledger.append_found [OF reachable_wf [OF sample_start_reachable] sample_append_valid sample_appended]
  by (simp add: sample_append_def)

subsection \<open>Canonical JSON\<close>

text \<open>C29. Two documents of Unicode scalars have the same canonical bytes exactly when they are equal up to
  the order of the members of their objects: the digest of a document identifies it.\<close>

theorem canonical_bytes_identify:
  assumes "scalars i" "scalars j"
  shows "canonical_bytes i = canonical_bytes j \<longleftrightarrow> normal i = normal j"
  using canonical_bytes_inj [OF assms] canonical_eq_iff [of i j]
  by (auto simp: canonical_bytes_def)

theorem canonical_bytes_identify_witness:
  "canonical_bytes (JObj [([98], JInt 1), ([97], JNull)]) = canonical_bytes (JObj [([97], JNull), ([98], JInt 1)]) \<and>
   canonical_bytes (JBool True) \<noteq> canonical_bytes (JInt 1)"
proof -
  have "scalars (JObj [([98], JInt 1), ([97], JNull)])" "scalars (JObj [([97], JNull), ([98], JInt 1)])"
    by (simp_all add: scalar_ascii)
  moreover have "normal (JObj [([98], JInt 1), ([97], JNull)]) = normal (JObj [([97], JNull), ([98], JInt 1)])"
    by (rule normal_reorder) (auto simp: scalar_ascii)
  ultimately show ?thesis
    using canonical_bytes_identify [of "JObj [([98], JInt 1), ([97], JNull)]"] canonical_bytes_identify [of "JBool True" "JInt 1"]
    by simp
qed

text \<open>A frozen document read back as a Python value and validated again is the same document, and its
  hash is the one of its canonical bytes, in the form of a SHA-256 text.\<close>

theorem frozen_roundtrip:
  assumes "scalars j"
  shows "json_value (thaw j) = Inr j \<and> content_hash (thaw j) = Inr (sha256_text (canonical_bytes j)) \<and>
    is_sha256 (sha256_text (canonical_bytes j))"
  using assms by (simp add: json_value_thaw content_hash_thaw sha256_text_valid)

theorem frozen_roundtrip_witness:
  "json_value (thaw (JList [JBool True, JStr [233]])) = Inr (JList [JBool True, JStr [233]])"
  using frozen_roundtrip [of "JList [JBool True, JStr [233]]"] by (simp add: scalar_ascii scalar_def surrogate_def)

subsection \<open>The reasoning ledger\<close>

text \<open>C22. The ledger of every session the operations reach is reported valid by the verification, with the
  number of its events and the hash of its head.\<close>

theorem reachable_verifies:
  assumes "ledger_reachable db" "lg_heads db s = Some h"
  shows "ledger_verify db (lh_workspace_id h) s = Inr \<lparr>lv_valid = True,
    lv_event_count = int (length (rows_of db s)), lv_head_hash = lh_head_hash h,
    lv_first_invalid_seq = None, lv_reason = None\<rparr>"
  using reachable_head [OF assms] chain_verifies [of 1 GENESIS_HASH "rows_of db s"]
  by (simp add: ledger_verify_def session_rows_reachable [OF assms] assms(2) head_ok_def verify_events_def Let_def)

theorem reachable_verifies_witness:
  "\<exists>v. ledger_verify sample_ledger 1 2 = Inr v \<and> lv_valid v \<and> lv_event_count v = 1"
proof -
  obtain h where h: "lg_heads sample_ledger 2 = Some h" "lh_workspace_id h = 1" using sample_ledger_head by blast
  show ?thesis using reachable_verifies [OF sample_ledger_reachable h(1)] h(2) by (simp add: sample_rows)
qed

lemma verify_validD:
  assumes "list_all LedgerAppend_valid (lg_events db)" "ledger_verify db ws s = Inr v" "lv_valid v"
  shows "chain 1 GENESIS_HASH (session_rows db ws s) \<and> lv_event_count v = int (length (session_rows db ws s)) \<and>
    lv_head_hash v = last_hash GENESIS_HASH (session_rows db ws s)"
proof -
  have valid: "list_all LedgerAppend_valid (session_rows db ws s)"
    using assms(1) by (auto simp: session_rows_def list_all_iff)
  show ?thesis
    using assms(2,3) verifies_chain [OF valid, of 1 GENESIS_HASH]
    by (auto simp: ledger_verify_def verify_events_def Let_def result_simps split: option.splits if_splits sum.splits)
qed

text \<open>C3. The history of a session is tamper-evident: two stores of validated events, reached in whatever way,
  that both verify and agree on the number of events and the head hash hold the same events, every field
  and the payload up to the order of members, or a SHA-256 collision among the bytes they digest.\<close>

theorem verified_history_unique:
  assumes "list_all LedgerAppend_valid (lg_events db)" "list_all LedgerAppend_valid (lg_events db')"
    and "ledger_verify db ws s = Inr v" "ledger_verify db' ws s = Inr v" "lv_valid v"
    and "\<not> collision (session_rows db ws s) (session_rows db' ws s)"
  shows "list_all2 same_content (session_rows db ws s) (session_rows db' ws s)"
proof -
  have ch: "chain 1 GENESIS_HASH (session_rows d ws s) \<and> lv_event_count v = int (length (session_rows d ws s)) \<and>
      lv_head_hash v = last_hash GENESIS_HASH (session_rows d ws s)"
    if ok: "list_all LedgerAppend_valid (lg_events d)" "ledger_verify d ws s = Inr v" for d
    using ok by (rule verify_validD) (rule assms(5))
  show ?thesis
    by (rule chain_unique) (use ch [OF assms(1,3)] ch [OF assms(2,4)] assms(6) in auto)
qed

lemma reordered_normal: "normal (la_payload reordered_event) = normal (la_payload sample_event)"
proof -
  have "la_payload reordered_event = JObj [(ustr ''flag'', JBool True), (ustr ''goal'', JStr (ustr ''x''))]"
    by (simp add: reordered_event_def)
  moreover have "la_payload sample_event = JObj [(ustr ''goal'', JStr (ustr ''x'')), (ustr ''flag'', JBool True)]"
    by (simp add: sample_event_def next_event_def Let_def) (simp add: sample_append_def)
  ultimately show ?thesis by (simp only:, intro normal_reorder) (auto simp: ustr_def scalar_ascii)
qed

lemma sample_link: "link 1 GENESIS_HASH sample_event"
  using next_event_link [OF sample_append_valid, of sample_head] by (simp add: sample_head_def sample_event_def)

lemma reordered_bytes:
  "canonical_bytes (la_payload reordered_event) = canonical_bytes (la_payload sample_event)"
  "event_preimage reordered_event = event_preimage sample_event"
  using canonical_eq_iff [THEN iffD2, OF reordered_normal]
  by (simp_all only: canonical_bytes_def) (simp add: reordered_event_def event_preimage_def)

lemma reordered_link: "link 1 GENESIS_HASH reordered_event"
proof -
  have "LedgerAppend_valid reordered_event"
    using sample_link by (auto simp: link_def LedgerAppend_valid_def reordered_event_def scalars_object ustr_def scalar_ascii)
  then show ?thesis
    using sample_link reordered_bytes
    by (simp add: link_def payload_digest_def event_digest_def) (simp add: reordered_event_def)
qed

lemma one_event_ledger:
  assumes "link 1 GENESIS_HASH x" "la_session_id x = 2" "la_workspace_id x = 1"
    and "db = with_event sample_start sample_head x"
  shows "list_all LedgerAppend_valid (lg_events db)" "session_rows db 1 2 = [x]"
    "ledger_verify db 1 2 = Inr \<lparr>lv_valid = True, lv_event_count = 1, lv_head_hash = le_event_hash x,
       lv_first_invalid_seq = None, lv_reason = None\<rparr>"
proof -
  show "list_all LedgerAppend_valid (lg_events db)"
    using assms(1) by (simp add: assms(4) with_event_def sample_start_def empty_ledger_def link_def)
  show rows: "session_rows db 1 2 = [x]"
    using assms by (simp add: session_rows_def with_event_def sample_start_def empty_ledger_def)
  show "ledger_verify db 1 2 = Inr \<lparr>lv_valid = True, lv_event_count = 1, lv_head_hash = le_event_hash x,
       lv_first_invalid_seq = None, lv_reason = None\<rparr>"
  proof -
    have "verify_loop 1 GENESIS_HASH [x] = Inr (Inr (le_event_hash x))"
      using chain_verifies [of 1 GENESIS_HASH "[x]"] assms(1) by (simp del: verify_loop.simps)
    then show ?thesis
      using assms(1-3) unfolding ledger_verify_def rows verify_events_def
      by (simp add: Let_def link_def with_event_def sample_head_def assms(4) del: verify_loop.simps)
  qed
qed

theorem verified_history_unique_witness:
  "list_all2 same_content (session_rows sample_ledger 1 2) (session_rows reordered_ledger 1 2)"
proof -
  have x: "la_session_id sample_event = 2" "la_workspace_id sample_event = 1"
    by (simp_all add: sample_event_def) (simp_all add: sample_append_def)
  have y: "la_session_id reordered_event = 2" "la_workspace_id reordered_event = 1"
    "le_event_hash reordered_event = le_event_hash sample_event"
    using x by (simp_all add: reordered_event_def)
  note s = one_event_ledger [OF sample_link x sample_ledger_def]
  note r = one_event_ledger [OF reordered_link y(1,2) reordered_ledger_def, unfolded y(3)]
  have "\<not> collision [sample_event] [reordered_event]"
    by (simp add: collision_def reordered_bytes)
  then show ?thesis
    using verified_history_unique [OF s(1) r(1) s(3) r(3)] by (simp add: s(2) r(2))
qed

text \<open>The events of a session in a reachable ledger are numbered from one without a gap, and a read
  returns exactly the numbers asked for, in order, whatever else the store holds.\<close>

theorem read_contiguous:
  assumes "ledger_reachable db" "lg_heads db s = Some h" "0 < from_seq" "0 < limit"
  shows "ledger_read db (lh_workspace_id h) s from_seq limit =
      Inr (take (nat limit) (drop (nat (from_seq - 1)) (rows_of db s))) \<and>
    map le_ledger_seq (rows_of db s) = [1..int (length (rows_of db s))]"
proof -
  have ch: "chain 1 GENESIS_HASH (rows_of db s)" using reachable_head [OF assms(1,2)] by (simp add: head_ok_def)
  have "filter (\<lambda>e. from_seq \<le> le_ledger_seq e) (rows_of db s) = drop (nat (from_seq - 1)) (rows_of db s)"
    using chain_drop [OF ch, of "nat (from_seq - 1)"] assms(3) by simp
  then show ?thesis
    using chain_seqs [OF ch] assms by (simp add: ledger_read_def session_rows_reachable)
qed

theorem read_contiguous_witness:
  "ledger_read sample_ledger 1 2 1 100 = Inr [sample_event] \<and> ledger_read sample_ledger 1 2 2 100 = Inr []"
proof -
  obtain h where h: "lg_heads sample_ledger 2 = Some h" "lh_workspace_id h = 1" using sample_ledger_head by blast
  show ?thesis
    using read_contiguous [OF sample_ledger_reachable h(1), of 1 100]
      read_contiguous [OF sample_ledger_reachable h(1), of 2 100] h(2) by (simp add: sample_rows)
qed

text \<open>C13. An append is idempotent for good: once accepted, the same request returns the recorded event and
  changes nothing, however many other appends, failed ones included, came in between.\<close>

theorem append_late_retry:
  assumes "ledger_reachable db" "LedgerAppend_valid e" "ledger_append db e = Inr (db', x)"
    and "list_all LedgerAppend_valid es"
  shows "ledger_append (append_run ledger_append db' es) e = Inr (append_run ledger_append db' es, x)"
  using sql_ledger.late_retry [OF reachable_wf [OF assms(1)] assms(2-4)] .

theorem append_late_retry_witness:
  "ledger_append (append_run ledger_append sample_ledger [sample_append\<lparr>la_id := 8\<rparr>, sample_append\<lparr>la_id := 8, la_round := 3\<rparr>])
     sample_append = Inr (append_run ledger_append sample_ledger
       [sample_append\<lparr>la_id := 8\<rparr>, sample_append\<lparr>la_id := 8, la_round := 3\<rparr>], sample_event)"
  by (rule append_late_retry [OF sample_start_reachable sample_append_valid sample_appended])
    (use sample_append_valid in \<open>simp add: LedgerAppend_valid_def\<close>)

text \<open>C34. The look-up before the lock is only a short cut: an append whose first look-up saw an earlier state
  has the result of an append that runs alone at the time the lock is granted.\<close>

theorem append_linearizable:
  assumes "ledger_reachable db" "lg_events db = lg_events db0 @ later"
  shows "append_between db0 db e = Inr r \<longleftrightarrow> ledger_append db e = Inr r"
  using append_between_linear [OF reachable_wf [OF assms(1)] assms(2)] .

theorem append_linearizable_witness:
  "append_between sample_start sample_ledger sample_append = Inr (sample_ledger, sample_event)"
proof -
  have "same_caller_values sample_append sample_event"
    using sql_ledger.append_found [OF reachable_wf [OF sample_start_reachable] sample_append_valid sample_appended] by simp
  then have "ledger_append sample_ledger sample_append = Inr (sample_ledger, sample_event)"
    using append_existing [of sample_ledger sample_append sample_event] sample_found
    by (simp add: sample_append_def)
  moreover have "lg_events sample_ledger = lg_events sample_start @ [sample_event]"
    by (simp add: sample_ledger_def with_event_def)
  ultimately show ?thesis
    using append_linearizable [OF sample_ledger_reachable, of sample_start "[sample_event]" sample_append] by simp
qed

text \<open>What an append of a validated request does in a reachable ledger, branch by branch: a recorded
  identifier is answered by its event or refused, a session without a head in the workspace is refused,
  and otherwise exactly one event is added, numbered and linked to the head.\<close>

theorem append_functional:
  assumes "ledger_reachable db" "LedgerAppend_valid e"
  shows "ledger_append db e = (case event_by_id db (la_id e) of
      Some x \<Rightarrow> if same_caller_values e x then Inr (db, x)
        else Inl (LedgerIntegrityError (''reasoning event id '' @ uuid_str (la_id e) @
          '' already exists with different caller values''))
    | None \<Rightarrow> (case lg_heads db (la_session_id e) of
        Some h \<Rightarrow> if lh_workspace_id h = la_workspace_id e
          then Inr (with_event db h (next_event h e), next_event h e)
          else Inl (LedgerIntegrityError (''session '' @ uuid_str (la_session_id e) @
            '' has no ledger head in workspace '' @ uuid_str (la_workspace_id e)))
      | None \<Rightarrow> Inl (LedgerIntegrityError (''session '' @ uuid_str (la_session_id e) @
          '' has no ledger head in workspace '' @ uuid_str (la_workspace_id e)))))"
  using append_new [OF reachable_wf [OF assms(1)] assms(2)]
  by (auto simp: append_existing split: option.splits) (simp_all add: ledger_append_def append_between_def)

theorem append_functional_witness:
  "ledger_append sample_ledger (sample_append\<lparr>la_session_id := 3, la_id := 8\<rparr>) =
     Inl (LedgerIntegrityError (''session '' @ uuid_str 3 @ '' has no ledger head in workspace '' @ uuid_str 1))"
proof -
  have "LedgerAppend_valid (sample_append\<lparr>la_session_id := 3, la_id := 8\<rparr>)"
    using sample_append_valid by (simp add: LedgerAppend_valid_def)
  moreover have "event_by_id sample_ledger 8 = None" "lg_heads sample_ledger 3 = None"
    by (simp_all add: sample_ledger_def event_by_id_def with_event_def sample_event_def)
      (simp_all add: sample_append_def sample_start_def empty_ledger_def)
  ultimately show ?thesis
    using append_functional [OF sample_ledger_reachable] by (simp add: sample_append_def)
qed

text \<open>A retry whose payload differs from the recorded one only in \<^verbatim>\<open>1\<close> for \<^verbatim>\<open>True\<close> is taken for the same
  request, although the canonical bytes and so the payload hashes of the two differ.\<close>

lemma retry_confuses_true_and_one:
  assumes "event_by_id db (la_id e) = Some x" "same_caller_values (e\<lparr>la_payload := JObj [(k, JBool True)]\<rparr>) x"
    and "la_payload x = JObj [(k, JBool True)]" "list_all scalar k"
  shows "ledger_append db (e\<lparr>la_payload := JObj [(k, JInt 1)]\<rparr>) = Inr (db, x) \<and>
    canonical_bytes (JObj [(k, JInt 1)]) \<noteq> canonical_bytes (la_payload x)"
proof -
  have "same_caller_values (e\<lparr>la_payload := JObj [(k, JInt 1)]\<rparr>) x"
    using assms(2,3) by (simp add: same_caller_values_def py_eq_def)
  moreover have "canonical_bytes (JObj [(k, JInt 1)]) \<noteq> canonical_bytes (JObj [(k, JBool True)])"
    using canonical_bytes_inj [of "JObj [(k, JInt 1)]" "JObj [(k, JBool True)]"] assms(4)
    by (auto simp: normal_obj)
  ultimately show ?thesis using append_existing [of db "e\<lparr>la_payload := JObj [(k, JInt 1)]\<rparr>" x] assms(1,3) by simp
qed

end
