(* ===== verification/Session_Properties.thy ===== *)
theory Session_Properties
  imports Session_Control Ledger_Properties
begin

text \<open>
  The properties of sessions: what every reachable lifecycle table satisfies, how states and rounds
  move, that the two stores agree, and how the request check, the workflow and the transactions fit
  together. The sample session at the start is a session of the sample ledger.
\<close>

subsection \<open>A sample session\<close>

definition sample_time :: datetime where
  "sample_time = la_recorded_at sample_append"

definition draft_db :: lifecycle_db where
  "draft_db = \<lparr>ld_ledger = sample_start, ld_rows = [2 \<mapsto> new_draft 1 2 sample_time]\<rparr>"

definition initialize :: SessionTransition where
  "initialize = \<lparr>st_source = DRAFT, st_target = INITIALIZING, st_round = 0, st_event = sample_append,
     st_allow_same_state = False\<rparr>"

definition initializing_db :: lifecycle_db where
  "initializing_db = \<lparr>ld_ledger = sample_ledger,
     ld_rows = [2 \<mapsto> transition_changes initialize (new_draft 1 2 sample_time)]\<rparr>"

definition cancel_command :: SessionControlCommand where
  "cancel_command = \<lparr>sc_command_id = 30, sc_event_id = 31, sc_failure_event_id = 32, sc_workspace_id = 1,
     sc_session_id = 2, sc_kind = CANCEL, sc_observed_state = INITIALIZING, sc_correlation_id = 9,
     sc_actor_id = 4, sc_requested_at = sample_time, sc_reason = ustr ''stop'', sc_directive = None\<rparr>"

definition sample_bootstrap :: SessionBootstrapInput where
  "sample_bootstrap = \<lparr>bi_workspace_id = 1, bi_session_id = 2, bi_initialized_event_id = 40,
     bi_round_started_event_id = 41, bi_failed_event_id = 42, bi_correlation_id = 9\<rparr>"

definition delivered :: activity_history where
  "delivered = \<lparr>ah_attempts = [sample_time], ah_reported = True, ah_retry_state = []\<rparr>"

lemma draft_added:
  "sql_add_draft \<lparr>ld_ledger = sample_start, ld_rows = Map.empty\<rparr> 1 2 sample_time = Inr (draft_db, new_draft 1 2 sample_time)"
  by (simp add: sql_add_draft_def flush_def projection_def row_checks_def row_references_def session_exists_def
      workflow_taken_def SessionLifecycle_valid_def consistent_projection_def new_draft_def draft_db_def dt_less_def)
    (simp add: sample_start_def sample_head_def Let_def)

lemma draft_reachable: "lifecycle_reachable draft_db"
proof -
  have "create_session_ledger_head empty_ledger 1 2 = Inr sample_start"
    by (simp add: create_session_ledger_head_def empty_ledger_def sample_start_def sample_head_def)
  from lifecycle_reachable.session [OF lifecycle_reachable.empty, of 1 2 sample_start] this
  have "lifecycle_reachable \<lparr>ld_ledger = sample_start, ld_rows = Map.empty\<rparr>" by simp
  then show ?thesis using draft_added by (rule lifecycle_reachable.draft)
qed

lemma initialize_valid: "SessionTransition_valid initialize"
  using sample_append_valid
  by (simp add: SessionTransition_valid_def initialize_def event_matches_transition_def) (simp add: sample_append_def)

lemma initialize_key: "la_workspace_id (st_event initialize) = 1" "la_session_id (st_event initialize) = 2"
    "la_recorded_at (st_event initialize) = sample_time" "la_id (st_event initialize) = 7"
  by (simp_all add: initialize_def sample_time_def) (simp_all add: sample_append_def)

lemma initialized: "sql_transition draft_db initialize =
    Inr (initializing_db, transition_changes initialize (new_draft 1 2 sample_time))"
proof -
  have row: "sql_row draft_db 1 2 = Some (new_draft 1 2 sample_time)"
    by (simp add: sql_row_def draft_db_def new_draft_def)
  obtain l x where a: "ledger_append (ld_ledger draft_db) (st_event initialize) = Inr (l, x)"
    "sql_transition draft_db initialize = Inr (draft_db\<lparr>ld_ledger := l, ld_rows := (ld_rows draft_db)
      (sl_session_id (new_draft 1 2 sample_time) \<mapsto> transition_changes initialize (new_draft 1 2 sample_time))\<rparr>,
      transition_changes initialize (new_draft 1 2 sample_time))"
  proof (rule transition_accepted [OF lifecycle_reachable_wf [OF draft_reachable] initialize_valid])
    show "sql_row draft_db (la_workspace_id (st_event initialize)) (la_session_id (st_event initialize)) = Some (new_draft 1 2 sample_time)"
      using row by (simp add: initialize_key)
    show "event_by_id (ld_ledger draft_db) (la_id (st_event initialize)) = None"
      by (simp add: event_by_id_def draft_db_def sample_start_def empty_ledger_def)
    show "\<not> dt_less (la_recorded_at (st_event initialize)) (sl_created_at (new_draft 1 2 sample_time))"
      by (simp add: initialize_key new_draft_def dt_less_def)
  qed (simp_all add: initialize_def new_draft_def validate_session_transition_def)
  have "l = sample_ledger" using a(1) sample_appended by (simp add: draft_db_def initialize_def)
  then show ?thesis using a(2) by (simp add: initializing_db_def draft_db_def new_draft_def)
qed

lemma initializing_reachable: "lifecycle_reachable initializing_db"
  by (rule lifecycle_reachable.move [OF draft_reachable initialize_valid initialized])

lemma initializing_row: "sql_row initializing_db 1 2 = Some (transition_changes initialize (new_draft 1 2 sample_time))"
  using sql.transition_found [OF lifecycle_reachable_wf [OF draft_reachable] initialize_valid initialized]
  by (simp add: initialize_key)

lemma cancel_own: "own_command 1 2 cancel_command"
proof -
  have "datetime_valid sample_time" using sample_append_valid by (simp add: sample_time_def LedgerAppend_valid_def)
  then show ?thesis
    by (simp add: own_command_def SessionControlCommand_valid_def cancel_command_def ustr_scalar)
      (simp add: ustr_def u_blank_def u_isspace_def)
qed

lemma reachable_valid:
  assumes "ledger_reachable l" "lg_heads l s = Some h"
  shows "\<exists>v. ledger_verify l (lh_workspace_id h) s = Inr v \<and> lv_valid v"
  using reachable_head [OF assms] chain_verifies [of 1 GENESIS_HASH "rows_of l s"]
  by (simp add: ledger_verify_def session_rows_reachable [OF assms] assms(2) head_ok_def verify_events_def Let_def)

lemma sample_event_absent: "event_by_id sample_ledger 31 = None"
  by (simp add: sample_ledger_def event_by_id_def with_event_def sample_event_def)
    (simp add: sample_append_def sample_start_def empty_ledger_def)

subsection \<open>The lifecycle table\<close>

lemma append_reachable:
  "ledger_reachable l \<Longrightarrow> LedgerAppend_valid e \<Longrightarrow> ledger_append l e = Inr (l', x) \<Longrightarrow> ledger_reachable l'"
  using ledger_reachable.append [of l e l "[]"] by (simp add: ledger_append_def)

lemma lifecycle_ledger_reachable: "lifecycle_reachable db \<Longrightarrow> ledger_reachable (ld_ledger db)"
proof (induction rule: lifecycle_reachable.induct)
  case (move db c db' v)
  have "LedgerAppend_valid (st_event c)" using move by (simp add: SessionTransition_valid_def)
  with move show ?case by (auto elim!: sql_transition_cases intro: append_reachable)
qed (auto simp: sql_add_draft_def sql_attach_workflow_def flush_def Let_def result_simps
  intro: ledger_reachable.intros append_reachable split: if_splits)

text \<open>C9. In every lifecycle table that sessions, ledger appends and the operations of the store reach, each row
  is a consistent projection, its last event is recorded in its session with the round of the row, a row
  without events is a draft of round zero, and the ledger of the session verifies.\<close>

theorem lifecycle_invariant:
  assumes "lifecycle_reachable db" "ld_rows db s = Some r"
  shows "consistent_projection r \<and> (sl_ended_at r \<noteq> None) = terminal (sl_state r) \<and>
    (case sl_last_event_id r of None \<Rightarrow> sl_state r = DRAFT \<and> sl_round r = 0
     | Some i \<Rightarrow> (\<exists>e. get_by_id (ld_ledger db) (sl_workspace_id r) s i = Some e \<and> la_round e = sl_round r)) \<and>
    (\<exists>v. ledger_verify (ld_ledger db) (sl_workspace_id r) s = Inr v \<and> lv_valid v)"
proof -
  have ok: "sl_session_id r = s" "row_ok (ld_ledger db) r"
    using lifecycle_reachable_wf [OF assms(1)] assms(2) by (simp_all add: lifecycle_wf_def)
  have "consistent_projection r \<and> (sl_ended_at r \<noteq> None) = terminal (sl_state r) \<and>
    (case sl_last_event_id r of None \<Rightarrow> sl_state r = DRAFT \<and> sl_round r = 0
     | Some i \<Rightarrow> (\<exists>e. get_by_id (ld_ledger db) (sl_workspace_id r) s i = Some e \<and> la_round e = sl_round r))"
    using ok by (auto simp: row_ok_def SessionLifecycle_valid_def row_checks_def last_event_ok_def split: option.splits)
  moreover obtain h where "lg_heads (ld_ledger db) s = Some h" "lh_workspace_id h = sl_workspace_id r"
    using ok by (auto simp: row_ok_def session_exists_def split: option.splits)
  ultimately show ?thesis
    using reachable_valid [OF lifecycle_ledger_reachable [OF assms(1)]] by fastforce
qed

theorem lifecycle_invariant_witness:
  "\<exists>r. ld_rows initializing_db 2 = Some r \<and> consistent_projection r \<and> sl_state r = INITIALIZING"
  using lifecycle_invariant [OF initializing_reachable, of 2] sql_row_wf [OF lifecycle_reachable_wf [OF initializing_reachable] initializing_row]
  by (simp add: initialize_def)

text \<open>C21. A terminal state is final: whatever transition commands follow, accepted or rejected, for this or for
  other sessions, the session keeps its state and its round.\<close>

theorem terminal_final:
  assumes "lifecycle_reachable db" "sql_row db ws s = Some r" "terminal (sl_state r)" "list_all SessionTransition_valid cs"
  shows "\<exists>r'. sql_row (transition_run sql_transition db cs) ws s = Some r' \<and>
    sl_state r' = sl_state r \<and> sl_round r' = sl_round r"
  using sql.run_terminal [OF lifecycle_reachable_wf [OF assms(1)] assms(4,2,3)] .

lemma cancelled_session:
  obtains db r where "lifecycle_reachable db" "sql_row db 1 2 = Some r" "sl_state r = CANCELLED"
proof -
  let ?v = "transition_changes initialize (new_draft 1 2 sample_time)"
  let ?t = "\<lparr>ct_command = cancel_command, ct_source = INITIALIZING, ct_target = CANCELLED, ct_round = 0\<rparr>"
  have t: "control_transition cancel_command (sl_state ?v) (sl_round ?v) = Inr ?t"
    by (simp add: control_transition_def validate_session_transition_def cancel_command_def initialize_def)
  obtain db where c: "commit_control ?t initializing_db = Inr (db, transition_changes (control_step ?t) ?v)"
    using commit_control_accepted [OF lifecycle_reachable_wf [OF initializing_reachable] initializing_row cancel_own t]
    by (auto simp: initialize_def new_draft_def cancel_command_def dt_less_def initializing_db_def sample_event_absent)
  then have m: "SessionTransition_valid (control_step ?t)"
    "sql_transition initializing_db (control_step ?t) = Inr (db, transition_changes (control_step ?t) ?v)"
    by (simp_all add: commit_control_def transition_checked_Inr)
  note lifecycle_reachable.move [OF initializing_reachable m]
  moreover have "sql_row db 1 2 = Some (transition_changes (control_step ?t) ?v)"
    using sql.transition_found [OF lifecycle_reachable_wf [OF initializing_reachable] m]
    by (simp add: control_event_def Let_def cancel_command_def)
  ultimately show ?thesis by (rule that) simp
qed

theorem terminal_final_witness:
  "\<exists>db r. lifecycle_reachable db \<and> sql_row (transition_run sql_transition db [initialize]) 1 2 = Some r \<and>
    sl_state r = CANCELLED"
proof -
  obtain db r where "lifecycle_reachable db" "sql_row db 1 2 = Some r" "sl_state r = CANCELLED" by (rule cancelled_session)
  then show ?thesis using terminal_final [of db 1 2 r "[initialize]"] initialize_valid by auto
qed

text \<open>C39. The round of a session never decreases and grows by at most one with each command.\<close>

theorem rounds_bounded:
  assumes "lifecycle_reachable db" "sql_row db ws s = Some r" "list_all SessionTransition_valid cs"
  shows "\<exists>r'. sql_row (transition_run sql_transition db cs) ws s = Some r' \<and>
    sl_round r \<le> sl_round r' \<and> sl_round r' \<le> sl_round r + int (length cs)"
  using sql.run_rounds [OF lifecycle_reachable_wf [OF assms(1)] assms(3,2)] .

theorem rounds_bounded_witness:
  "\<exists>r'. sql_row (transition_run sql_transition draft_db [initialize, initialize]) 1 2 = Some r' \<and>
    0 \<le> sl_round r' \<and> sl_round r' \<le> 2"
proof -
  have "sql_row draft_db 1 2 = Some (new_draft 1 2 sample_time)" by (simp add: sql_row_def draft_db_def new_draft_def)
  from rounds_bounded [OF draft_reachable this, of "[initialize, initialize]"] show ?thesis
    by (simp add: initialize_valid new_draft_def)
qed

text \<open>C14. The PostgreSQL store accepts exactly the transitions that the in-memory reference store accepts with a
  consistent projection as the result, and then both return the same projection and reach the same state.\<close>

theorem stores_equivalent:
  assumes "lifecycle_reachable db" "SessionTransition_valid c"
  shows "(\<exists>db'. sql_transition db c = Inr (db', v) \<and> memory_of db' = st) \<longleftrightarrow>
    memory_transition ledger_append (memory_of db) c = Inr (st, v) \<and> SessionLifecycle_valid v"
  using sql_transition_memory [OF lifecycle_reachable_wf [OF assms(1)] assms(2)] .

theorem stores_equivalent_witness:
  "memory_transition ledger_append (memory_of draft_db) initialize =
     Inr (memory_of initializing_db, transition_changes initialize (new_draft 1 2 sample_time))"
  using stores_equivalent [OF draft_reachable initialize_valid] initialized by blast

text \<open>A transition command delivered again right after it was accepted returns the same projection and
  changes nothing, in either store.\<close>

theorem transition_idempotent:
  assumes "lifecycle_reachable db" "SessionTransition_valid c"
  shows "(sql_transition db c = Inr (db', v) \<longrightarrow> sql_transition db' c = Inr (db', v)) \<and>
    (memory_transition ledger_append (memory_of db) c = Inr (st, v) \<longrightarrow>
      memory_transition ledger_append st c = Inr (st, v))"
proof -
  have wf: "lifecycle_wf db" "ledger_wf (ms_ledger (memory_of db))"
    using lifecycle_reachable_wf [OF assms(1)] by (simp_all add: memory_of_def lifecycle_wf_def)
  show ?thesis
    using sql.transition_again [OF wf(1) assms(2)] memory.transition_again [OF wf(2) assms(2)] by blast
qed

theorem transition_idempotent_witness:
  "sql_transition initializing_db initialize =
     Inr (initializing_db, transition_changes initialize (new_draft 1 2 sample_time))"
  using transition_idempotent [OF draft_reachable initialize_valid] initialized by blast

text \<open>A command that was accepted before, delivered again after the session has come back to the source state
  of the command, is not recognised: it moves the session once more, and no event records the move.\<close>

lemma late_command_reapplied:
  assumes wf: "lifecycle_wf db" and c: "SessionTransition_valid c"
    and row: "sql_row db (la_workspace_id (st_event c)) (la_session_id (st_event c)) = Some v"
    and step: "sl_state v = st_source c" "sl_last_event_id v \<noteq> Some (la_id (st_event c))"
      "validate_session_transition (sl_state v) (st_target c) (sl_round v) (st_round c) (st_allow_same_state c) = Inr ()"
    and ok: "st_target c \<noteq> DRAFT" "\<not> dt_less (la_recorded_at (st_event c)) (sl_created_at v)"
    and old: "event_by_id (ld_ledger db) (la_id (st_event c)) = Some x" "same_caller_values (st_event c) x"
  shows "\<exists>db'. sql_transition db c = Inr (db', transition_changes c v) \<and> ld_ledger db' = ld_ledger db"
proof -
  have app: "ledger_append (ld_ledger db) (st_event c) = Inr (ld_ledger db, x)"
    using append_existing [OF old(1)] old(2) by simp
  have valid: "SessionLifecycle_valid (transition_changes c v)"
    using transition_changes_valid [OF _ c step(1,3)] sql_row_wf [OF wf row] ok by blast
  show ?thesis
    using sql_move_accepted [OF wf c row valid app] row step app valid
    unfolding sql_transition_def required_row_def projection_def Let_def by auto
qed

subsection \<open>The state graph\<close>

text \<open>Every lifecycle state can be reached from a draft, a session that has not ended can still reach each of
  the outcomes of a consensus evaluation, and exactly the terminal states have no successor.\<close>

theorem graph_live:
  "(\<lambda>a b. b \<in> set (TRANSITIONS a))\<^sup>*\<^sup>* DRAFT s \<and>
   (terminal s \<or> (\<forall>t \<in> {COMPLETED, PARTIAL_CONSENSUS_STATE, NO_CONSENSUS, DEADLOCK, FAILED, CANCELLED}.
      (\<lambda>a b. b \<in> set (TRANSITIONS a))\<^sup>*\<^sup>* s t)) \<and>
   terminal s = (TRANSITIONS s = [])"
proof -
  let ?R = "\<lambda>a b. b \<in> set (TRANSITIONS a)"
  have di: "?R\<^sup>*\<^sup>* DRAFT INITIALIZING" and ir: "?R\<^sup>*\<^sup>* INITIALIZING RUNNING" and re: "?R\<^sup>*\<^sup>* RUNNING EVALUATING_CONSENSUS"
    by (rule r_into_rtranclp, simp)+
  have dr: "?R\<^sup>*\<^sup>* DRAFT RUNNING" and de: "?R\<^sup>*\<^sup>* DRAFT EVALUATING_CONSENSUS"
    using rtranclp_trans [OF di ir] rtranclp_trans [OF rtranclp_trans [OF di ir] re] by simp_all
  have one: "?R\<^sup>*\<^sup>* a b" if "b \<in> set (TRANSITIONS a)" for a b using that by (rule r_into_rtranclp)
  have from_draft: "?R\<^sup>*\<^sup>* DRAFT s"
    using di dr de rtranclp_trans [OF dr one [of s RUNNING]] rtranclp_trans [OF de one [of s EVALUATING_CONSENSUS]]
    by (cases s) auto
  have to_eval: "?R\<^sup>*\<^sup>* s EVALUATING_CONSENSUS" if "\<not> terminal s"
    using that de rtranclp_trans [OF one [of RUNNING s] re] by (cases s) (auto intro: re)
  have out: "?R\<^sup>*\<^sup>* EVALUATING_CONSENSUS t"
    if "t \<in> {COMPLETED, PARTIAL_CONSENSUS_STATE, NO_CONSENSUS, DEADLOCK, FAILED, CANCELLED}" for t
    using that by (intro one) auto
  show ?thesis using from_draft to_eval out terminal_iff rtranclp_trans [of ?R s EVALUATING_CONSENSUS] by blast
qed

theorem graph_live_witness: "(\<lambda>a b. b \<in> set (TRANSITIONS a))\<^sup>*\<^sup>* PAUSED COMPLETED"
  using graph_live [of PAUSED] by simp

subsection \<open>Controls\<close>

text \<open>A control request that the check against the stored projection admits is one that the workflow accepts
  in that state, in the same round: cancelling ends the session, pausing and resuming do what they say, and
  a human input moves only a session that waits for it.\<close>

theorem admitted_request_accepted:
  assumes "validate_control_request (sc_kind c) v = Inr ()" "SessionLifecycle_valid v"
  shows "control_transition c (sl_state v) (sl_round v) = Inr \<lparr>ct_command = c, ct_source = sl_state v,
    ct_target = (case sc_kind c of PAUSE \<Rightarrow> PAUSED | RESUME \<Rightarrow> RUNNING | CANCEL \<Rightarrow> CANCELLED
      | HUMAN_INPUT \<Rightarrow> if sl_state v = WAITING_FOR_HUMAN then RUNNING else sl_state v), ct_round = sl_round v\<rparr>"
proof (cases "sc_kind c = HUMAN_INPUT")
  case True
  then have "sl_state v \<in> {RUNNING, WAITING_FOR_HUMAN, PAUSED}" "0 \<le> sl_round v"
    using assms by (auto simp: validate_control_request_def SessionLifecycle_valid_def split: if_splits)
  then show ?thesis using True by (auto simp: control_transition_def validate_session_transition_def)
next
  case False
  then show ?thesis
    using assms
    by (cases "sc_kind c")
      (auto simp: validate_control_request_def control_transition_def SessionLifecycle_valid_def Let_def split: if_splits)
qed

theorem admitted_request_accepted_witness:
  "\<exists>t. control_transition cancel_command RUNNING 1 = Inr t \<and> ct_target t = CANCELLED"
proof -
  let ?v = "(new_draft 1 2 sample_time)\<lparr>sl_state := RUNNING, sl_round := 1, sl_workflow_id := Some [115],
    sl_run_id := Some [114], sl_last_event_id := Some 7, sl_initialized_at := Some sample_time, sl_started_at := Some sample_time\<rparr>"
  have "validate_control_request (sc_kind cancel_command) ?v = Inr ()"
    by (simp add: validate_control_request_def cancel_command_def validate_session_transition_def)
  moreover have "SessionLifecycle_valid ?v"
    by (simp add: SessionLifecycle_valid_def consistent_projection_def new_draft_def dt_less_def)
  ultimately show ?thesis using admitted_request_accepted [of cancel_command ?v] by (simp add: cancel_command_def)
qed

text \<open>C32. Every session that has been initialised and has not ended can be cancelled: a valid cancel command with a
  fresh event that is not dated before the session is interpreted and committed, the session is then
  cancelled and ended at the time of the request, and the event is in the ledger.\<close>

theorem cancel_possible:
  assumes "lifecycle_reachable db" "sql_row db ws s = Some v" "sl_state v \<noteq> DRAFT" "\<not> terminal (sl_state v)"
    and "own_command ws s c" "sc_kind c = CANCEL" "event_by_id (ld_ledger db) (sc_event_id c) = None"
    and "\<not> dt_less (sc_requested_at c) (sl_created_at v)"
  shows "\<exists>t db' v'. control_transition c (sl_state v) (sl_round v) = Inr t \<and> commit_control t db = Inr (db', v') \<and>
    sl_state v' = CANCELLED \<and> sl_ended_at v' = Some (sc_requested_at c) \<and>
    get_by_id (ld_ledger db') ws s (sc_event_id c) \<noteq> None"
proof -
  let ?t = "\<lparr>ct_command = c, ct_source = sl_state v, ct_target = CANCELLED, ct_round = sl_round v\<rparr>"
  have wf: "lifecycle_wf db" using assms(1) by (rule lifecycle_reachable_wf)
  have "0 \<le> sl_round v" using sql_row_wf [OF wf assms(2)] by (simp add: row_ok_def SessionLifecycle_valid_def)
  moreover have "CANCELLED \<in> set (TRANSITIONS (sl_state v))" "sl_state v \<noteq> CANCELLED"
    using assms(3,4) by (cases "sl_state v"; simp)+
  ultimately have t: "control_transition c (sl_state v) (sl_round v) = Inr ?t"
    using assms(4,6) by (simp add: control_transition_def validate_session_transition_def)
  from commit_control_accepted [OF wf assms(2,5) t assms(3,7,8)] show ?thesis
    using t by (force simp: transition_changes_times control_event_def)
qed

theorem cancel_possible_witness:
  "\<exists>t db' v'. control_transition cancel_command INITIALIZING 0 = Inr t \<and> commit_control t initializing_db = Inr (db', v') \<and>
    sl_state v' = CANCELLED"
  using cancel_possible [OF initializing_reachable initializing_row _ _ cancel_own]
  by (auto simp: initialize_def new_draft_def cancel_command_def dt_less_def initializing_db_def sample_event_absent)

subsection \<open>The workflow\<close>

lemma run_controls_states:
  assumes "wf_state w \<in> {RUNNING, PAUSED}" "run_controls actor steps w db = (db', w', status)"
  shows "wf_state w' \<in> {RUNNING, PAUSED, CANCELLED} \<and> wf_round w' = wf_round w \<and>
    (status = Active \<longrightarrow> wf_state w' \<noteq> CANCELLED) \<and> (status = Finished \<longrightarrow> wf_state w' = CANCELLED)"
  using assms
proof (induction steps arbitrary: w db)
  case (Cons st steps)
  obtain cs h hf where st: "st = (cs, h, hf)" by (cases st)
  let ?w = "fold receive_control cs w"
  obtain db1 w1 status1 where r: "handle_control actor h hf ?w db = (db1, w1, status1)" by (cases "handle_control actor h hf ?w db")
  have w: "wf_state ?w \<in> {RUNNING, PAUSED}" using Cons.prems(1) by (simp add: receive_controls)
  note h = handle_control_states [OF w r]
  show ?case
  proof (cases "status1 = Active")
    case True
    then have "wf_state w1 \<in> {RUNNING, PAUSED}" using h by auto
    from Cons.IH [OF this, of db1] True show ?thesis using Cons.prems(2) h r by (simp add: st receive_controls)
  next
    case False
    then show ?thesis using Cons.prems(2) h r by (auto simp: st receive_controls)
  qed
qed auto

lemma run_bootstrap_pending:
  "run_bootstrap actor b h1 h2 hf w db = (db', w', status) \<Longrightarrow> wf_pending_controls w' = wf_pending_controls w"
  by (auto simp: run_bootstrap_def Let_def split: prod.splits if_splits)

lemma append_keeps_fresh:
  assumes "ledger_wf l" "LedgerAppend_valid e" "ledger_append l e = Inr (l', x)" "event_by_id l i = None" "la_id e \<noteq> i"
  shows "event_by_id l' i = None"
  using assms(1-3) by (cases rule: ledger_append_cases) (use assms(4,5) in \<open>auto simp: event_by_id_with_event\<close>)

lemma transition_payload_ok:
  assumes "failure_matches_event c"
  shows "scalars (transition_payload c) \<and> is_object (transition_payload c)"
  using assms unfolding transition_payload_def scalars_object
  by (auto simp: ustr_scalar failure_matches_event_def BootstrapFailure_valid_def split: option.splits) (simp_all add: ustr_def)

lemma bootstrap_step_valid:
  assumes "failure_matches_event c" "bt_event_type c \<noteq> []" "\<not> u_blank (bt_event_type c)" "list_all scalar (bt_event_type c)"
    and "0 \<le> bt_round c" "datetime_valid now" "bt_source c \<noteq> bt_target c"
  shows "SessionTransition_valid (bootstrap_step actor now c)"
  using transition_payload_ok [OF assms(1)] assms(2-)
  by (simp add: SessionTransition_valid_def bootstrap_step_def LedgerAppend_valid_def event_matches_transition_def)

lemma single_attempt:
  assumes "commit t db = Inr (db', v)" "ah_attempts h = [t]" "ah_reported h"
  shows "execute_activity commit h db = (db', True)"
  using assms by (simp add: execute_activity_def STATE_COMMIT_POLICY_def)

lemma bootstrap_step_simps [simp]:
  "st_source (bootstrap_step actor now c) = bt_source c" "st_target (bootstrap_step actor now c) = bt_target c"
  "st_round (bootstrap_step actor now c) = bt_round c" "st_allow_same_state (bootstrap_step actor now c) = False"
  "la_id (st_event (bootstrap_step actor now c)) = bt_event_id c"
  "la_workspace_id (st_event (bootstrap_step actor now c)) = bt_workspace_id c"
  "la_session_id (st_event (bootstrap_step actor now c)) = bt_session_id c"
  "la_recorded_at (st_event (bootstrap_step actor now c)) = now"
  by (simp_all add: bootstrap_step_def)

text \<open>One bootstrap transaction on a session that stands at its source.\<close>

lemma commit_bootstrap_accepted:
  assumes wf: "lifecycle_wf db" and c: "SessionTransition_valid (bootstrap_step actor now c)" "failure_matches_event c"
    and row: "sql_row db (bt_workspace_id c) (bt_session_id c) = Some v"
    and step: "sl_state v = bt_source c" "bt_target c \<in> set (TRANSITIONS (bt_source c))" "bt_source c \<noteq> bt_target c"
      "bt_round c = sl_round v \<or> bt_round c = sl_round v + 1 \<and> bt_target c = RUNNING"
    and time: "\<not> dt_less now (sl_created_at v)" and fresh: "event_by_id (ld_ledger db) (bt_event_id c) = None"
  obtains db' v' where "commit_bootstrap actor c now db = Inr (db', v')" "sl_created_at v' = sl_created_at v"
    "\<And>i. event_by_id (ld_ledger db) i = None \<Longrightarrow> i \<noteq> bt_event_id c \<Longrightarrow> event_by_id (ld_ledger db') i = None"
proof -
  let ?c = "bootstrap_step actor now c"
  have nd: "bt_target c \<noteq> DRAFT" using step(2) no_way_to_draft [of "bt_source c"] by auto
  obtain l x where a: "ledger_append (ld_ledger db) (st_event ?c) = Inr (l, x)"
    "sql_transition db ?c = Inr (db\<lparr>ld_ledger := l, ld_rows := (ld_rows db)(sl_session_id v \<mapsto> transition_changes ?c v)\<rparr>,
      transition_changes ?c v)"
    by (rule transition_accepted [OF wf c(1)]) (use row step nd time fresh in \<open>auto simp: validate_Inr_iff\<close>)
  have "ledger_wf (ld_ledger db)" "LedgerAppend_valid (st_event ?c)"
    using wf c(1) by (simp_all add: lifecycle_wf_def SessionTransition_valid_def)
  note keep = append_keeps_fresh [OF this a(1)]
  have "commit_bootstrap actor c now db = Inr (db\<lparr>ld_ledger := l, ld_rows := (ld_rows db)(sl_session_id v \<mapsto>
      transition_changes ?c v)\<rparr>, transition_changes ?c v)"
    using a(2) c by (simp add: commit_bootstrap_def transition_checked_Inr)
  then show ?thesis by (rule that) (use keep in auto)
qed

lemma initialized_command_simps [simp]:
  "bt_workspace_id (initialized_command b) = bi_workspace_id b" "bt_session_id (initialized_command b) = bi_session_id b"
  "bt_event_id (initialized_command b) = bi_initialized_event_id b" "bt_source (initialized_command b) = DRAFT"
  "bt_target (initialized_command b) = INITIALIZING" "bt_round (initialized_command b) = 0"
  "failure_matches_event (initialized_command b)"
  by (simp_all add: initialized_command_def failure_matches_event_def ustr_def)

lemma round_started_command_simps [simp]:
  "bt_workspace_id (round_started_command b) = bi_workspace_id b" "bt_session_id (round_started_command b) = bi_session_id b"
  "bt_event_id (round_started_command b) = bi_round_started_event_id b" "bt_source (round_started_command b) = INITIALIZING"
  "bt_target (round_started_command b) = RUNNING" "bt_round (round_started_command b) = 1"
  "failure_matches_event (round_started_command b)"
  by (simp_all add: round_started_command_def failure_matches_event_def ustr_def)

lemma bootstrap_commands_valid:
  assumes "datetime_valid now"
  shows "SessionTransition_valid (bootstrap_step actor now (initialized_command b))"
    "SessionTransition_valid (bootstrap_step actor now (round_started_command b))"
proof -
  have t: "bt_event_type (initialized_command b) = ustr ''SESSION_INITIALIZED''" "bt_event_type (round_started_command b) = ustr ''ROUND_STARTED''"
    by (simp_all add: initialized_command_def round_started_command_def)
  have n: "ustr ''SESSION_INITIALIZED'' \<noteq> []" "\<not> u_blank (ustr ''SESSION_INITIALIZED'')"
    "ustr ''ROUND_STARTED'' \<noteq> []" "\<not> u_blank (ustr ''ROUND_STARTED'')"
    by (simp_all add: ustr_def u_blank_def u_isspace_def)
  show "SessionTransition_valid (bootstrap_step actor now (initialized_command b))"
    by (rule bootstrap_step_valid) (simp_all add: assms t n ustr_scalar)
  show "SessionTransition_valid (bootstrap_step actor now (round_started_command b))"
    by (rule bootstrap_step_valid) (simp_all add: assms t n ustr_scalar)
qed

lemma bootstrap_runs:
  assumes "lifecycle_reachable db" "sql_row db (bi_workspace_id b) (bi_session_id b) = Some v" "sl_state v = DRAFT"
    and "event_by_id (ld_ledger db) (bi_initialized_event_id b) = None"
      "event_by_id (ld_ledger db) (bi_round_started_event_id b) = None" "bi_initialized_event_id b \<noteq> bi_round_started_event_id b"
    and "ah_attempts h1 = [t1]" "ah_reported h1" "ah_attempts h2 = [t2]" "ah_reported h2" "datetime_valid t1" "datetime_valid t2"
    and "\<not> dt_less t1 (sl_created_at v)" "\<not> dt_less t2 (sl_created_at v)"
  shows "\<exists>db'. run_bootstrap actor b h1 h2 hf new_workflow db = (db', new_workflow\<lparr>wf_state := RUNNING, wf_round := 1\<rparr>, Active)"
proof -
  have wf: "lifecycle_wf db" using assms(1) by (rule lifecycle_reachable_wf)
  have r0: "sl_round v = 0"
    using sql_row_wf [OF wf assms(2)] assms(3) by (auto simp: row_ok_def row_checks_def last_event_ok_def)
  have row0: "sql_row db (bt_workspace_id (initialized_command b)) (bt_session_id (initialized_command b)) = Some v"
    using assms(2) by simp
  obtain db1 v1 where a1: "commit_bootstrap actor (initialized_command b) t1 db = Inr (db1, v1)" "sl_created_at v1 = sl_created_at v"
    "\<And>i. event_by_id (ld_ledger db) i = None \<Longrightarrow> i \<noteq> bt_event_id (initialized_command b) \<Longrightarrow> event_by_id (ld_ledger db1) i = None"
    by (rule commit_bootstrap_accepted [OF wf bootstrap_commands_valid(1) [OF assms(11)] initialized_command_simps(7) row0])
      (use assms r0 in auto)
  note c1 = bootstrap.committed [OF wf a1(1), simplified]
  have row1: "sql_row db1 (bt_workspace_id (round_started_command b)) (bt_session_id (round_started_command b)) = Some v1"
    using c1 by simp
  have fresh: "event_by_id (ld_ledger db1) (bt_event_id (round_started_command b)) = None"
    using a1(3) assms(5,6) by simp
  obtain db2 v2 where a2: "commit_bootstrap actor (round_started_command b) t2 db1 = Inr (db2, v2)"
    by (rule commit_bootstrap_accepted [OF conjunct1 [OF c1] bootstrap_commands_valid(2) [OF assms(12)] round_started_command_simps(7) row1])
      (use c1 a1(2) assms(14) fresh in auto)
  show ?thesis
    using single_attempt [of "commit_bootstrap actor (initialized_command b)", OF a1(1) assms(7,8)]
      single_attempt [of "commit_bootstrap actor (round_started_command b)", OF a2 assms(9,10)]
    by (simp add: run_bootstrap_def Let_def)
qed

text \<open>C36. Bootstrapping a draft ends with a running session: when both activities are executed and answered at
  their first attempt, with fresh and different event identifiers and no clock before the creation of the
  session, the workflow enters its loop in round one and the stored projection agrees.\<close>

theorem bootstrap_completes:
  assumes "lifecycle_reachable db" "sql_row db (bi_workspace_id b) (bi_session_id b) = Some v" "sl_state v = DRAFT"
    and "event_by_id (ld_ledger db) (bi_initialized_event_id b) = None"
      "event_by_id (ld_ledger db) (bi_round_started_event_id b) = None" "bi_initialized_event_id b \<noteq> bi_round_started_event_id b"
    and "ah_attempts h1 = [t1]" "ah_reported h1" "ah_attempts h2 = [t2]" "ah_reported h2" "datetime_valid t1" "datetime_valid t2"
    and "\<not> dt_less t1 (sl_created_at v)" "\<not> dt_less t2 (sl_created_at v)"
  shows "\<exists>db' w. run_bootstrap actor b h1 h2 hf new_workflow db = (db', w, Active) \<and>
    agrees (bi_workspace_id b) (bi_session_id b) w db' \<and> wf_state w = RUNNING \<and> wf_round w = 1"
  using bootstrap_runs [OF assms, of actor hf] run_bootstrap_agrees [OF lifecycle_reachable_wf [OF assms(1)], of actor b h1 h2 hf new_workflow]
  by fastforce

lemma sample_clock: "datetime_valid sample_time"
  using sample_append_valid by (simp add: sample_time_def LedgerAppend_valid_def)

lemma draft_row: "sql_row draft_db 1 2 = Some (new_draft 1 2 sample_time)"
  by (simp add: sql_row_def draft_db_def new_draft_def)

lemma sample_premises:
  "sql_row draft_db (bi_workspace_id sample_bootstrap) (bi_session_id sample_bootstrap) = Some (new_draft 1 2 sample_time)"
  "sl_state (new_draft 1 2 sample_time) = DRAFT" "event_by_id (ld_ledger draft_db) i = None"
  "bi_initialized_event_id sample_bootstrap \<noteq> bi_round_started_event_id sample_bootstrap"
  "ah_attempts delivered = [sample_time]" "ah_reported delivered" "\<not> dt_less sample_time (sl_created_at (new_draft 1 2 sample_time))"
  by (simp_all add: sample_bootstrap_def draft_row delivered_def)
    (simp_all add: new_draft_def dt_less_def event_by_id_def draft_db_def sample_start_def empty_ledger_def)

theorem bootstrap_completes_witness:
  "\<exists>db' w. run_bootstrap 5 sample_bootstrap delivered delivered delivered new_workflow draft_db = (db', w, Active) \<and>
    agrees 1 2 w db' \<and> wf_state w = RUNNING \<and> wf_round w = 1"
  using bootstrap_completes [OF draft_reachable sample_premises(1-2) sample_premises(3) sample_premises(3)
      sample_premises(4) sample_premises(5,6) sample_premises(5,6) sample_clock sample_clock
      sample_premises(7) sample_premises(7), of 5 delivered]
  by (simp add: sample_bootstrap_def)

lemma sample_bootstrap_runs:
  "\<exists>db'. run_bootstrap 5 sample_bootstrap delivered delivered delivered new_workflow draft_db =
     (db', new_workflow\<lparr>wf_state := RUNNING, wf_round := 1\<rparr>, Active)"
  using bootstrap_runs [OF draft_reachable sample_premises(1-2) sample_premises(3) sample_premises(3)
      sample_premises(4) sample_premises(5,6) sample_premises(5,6) sample_clock sample_clock
      sample_premises(7) sample_premises(7)] .

text \<open>C7. The workflow never loses track of the session: after a bootstrap that reached the loop, and after any
  series of controls that arrive, are repeated, are stale, or are retried by the engine, the stored
  projection has the state and the round the workflow holds, unless the workflow has crashed; it is
  running, paused or cancelled in round one, and it finishes exactly when the session is cancelled.\<close>

theorem workflow_in_step:
  assumes "lifecycle_reachable db" "run_bootstrap actor b h1 h2 hf new_workflow db = (db1, w1, Active)"
    and "\<forall>(cs, _) \<in> set steps. \<forall>c \<in> set cs. own_command (bi_workspace_id b) (bi_session_id b) c"
    and "run_controls actor steps w1 db1 = (db2, w2, status)" "status \<noteq> Crashed"
  shows "agrees (bi_workspace_id b) (bi_session_id b) w2 db2 \<and> wf_state w2 \<in> {RUNNING, PAUSED, CANCELLED} \<and>
    wf_round w2 = 1 \<and> (status = Finished) = (wf_state w2 = CANCELLED)"
proof -
  note b = run_bootstrap_agrees [OF lifecycle_reachable_wf [OF assms(1)] assms(2)]
  have p: "wf_pending_controls w1 = []" using run_bootstrap_pending [OF assms(2)] by (simp add: new_workflow_def)
  have "agrees (bi_workspace_id b) (bi_session_id b) w2 db2"
    using run_controls_agrees [OF _ _ _ assms(3,4)] b p assms(5) by simp
  moreover have "wf_state w1 \<in> {RUNNING, PAUSED}" using b by simp
  ultimately show ?thesis using run_controls_states [OF _ assms(4)] b assms(5) by (cases status) auto
qed

theorem workflow_in_step_witness:
  "\<exists>db1 w1. run_bootstrap 5 sample_bootstrap delivered delivered delivered new_workflow draft_db = (db1, w1, Active) \<and>
    (\<exists>db2 w2. run_controls 5 [([cancel_command\<lparr>sc_kind := RESUME\<rparr>], delivered, delivered)] w1 db1 = (db2, w2, Active) \<and>
      agrees 1 2 w2 db2 \<and> wf_state w2 = RUNNING)"
proof -
  let ?c = "cancel_command\<lparr>sc_kind := RESUME\<rparr>"
  have own: "own_command 1 2 ?c" using cancel_own by (simp add: own_command_def SessionControlCommand_valid_def cancel_command_def)
  have b: "run_bootstrap 5 sample_bootstrap delivered delivered delivered new_workflow draft_db =
      (fst (run_bootstrap 5 sample_bootstrap delivered delivered delivered new_workflow draft_db),
       new_workflow\<lparr>wf_state := RUNNING, wf_round := 1\<rparr>, Active)"
    using sample_bootstrap_runs by auto
  let ?db = "fst (run_bootstrap 5 sample_bootstrap delivered delivered delivered new_workflow draft_db)"
  let ?w = "new_workflow\<lparr>wf_state := RUNNING, wf_round := 1\<rparr>"
  obtain w2 where c: "run_controls 5 [([?c], delivered, delivered)] ?w ?db = (?db, w2, Active)" "wf_state w2 = RUNNING"
    by (simp add: receive_control_def handle_control_def new_workflow_def control_transition_def
        validate_session_transition_def cancel_command_def)
  from workflow_in_step [OF draft_reachable b _ c(1)] own have "agrees 1 2 w2 ?db"
    by (simp add: sample_bootstrap_def)
  with b c show ?thesis by blast
qed

text \<open>The answer of a control activity that committed can be lost until the engine gives up. The workflow then reports
  the failure from the state it held before, which the stored session has left, so the report is refused:
  the workflow crashes and the session stays in the new state.\<close>

lemma lost_answer_strands_session:
  assumes "lifecycle_wf db" "commit_control t db = Inr (db', v)" "ct_command t = c" "ct_target t \<noteq> FAILED"
    and "ct_target t \<noteq> wf_state w" "failure_matches_event (control_failed_command c w rs)"
    and "SessionTransition_valid (bootstrap_step actor now (control_failed_command c w rs))"
  shows "\<exists>m. commit_bootstrap actor (control_failed_command c w rs) now db' = Inl (InvalidSessionTransition m)"
proof -
  let ?f = "control_failed_command c w rs"
  have row: "sql_row db' (sc_workspace_id c) (sc_session_id c) = Some v" "sl_state v = ct_target t"
    using control.committed [OF assms(1,2)] assms(3) by simp_all
  have "LedgerAppend_valid (st_event (bootstrap_step actor now (control_failed_command c w rs)))"
    using assms(7) by (simp add: SessionTransition_valid_def)
  moreover have "bt_workspace_id ?f = sc_workspace_id c" "bt_session_id ?f = sc_session_id c" "bt_target ?f = FAILED"
    "bt_source ?f = wf_state w" by (simp_all add: control_failed_command_def Let_def)
  ultimately show ?thesis
    using assms(4-7) row
    by (simp add: commit_bootstrap_def transition_checked_def sql_transition_def required_row_def wrong_source_def)
qed

end
