(* ===== verification/Coordinator_Policy.thy ===== *)
theory Coordinator_Policy
  imports Session_Control Py_Decimal
begin

text \<open>
  The coordinator's policy: session membership with its interventions, and token and cost budgets.
  The contracts are those of \<^verbatim>\<open>app/domain/coordinator_policy.py\<close> and
  \<^verbatim>\<open>app/domain/agent_registry.py\<close>, the tables and queries those of
  \<^verbatim>\<open>app/db/coordinator_policy.py\<close>, and the two coordinators and the budgeted dispatcher those of
  \<^verbatim>\<open>app/application/coordinator_policy.py\<close>, over the lifecycle store and the ledger.
\<close>

subsection \<open>Agent definitions and interventions\<close>

datatype AgentRoleKind = DOMAIN_EXPERT | CRITIC | ORCHESTRATOR | RETRIEVER | EVALUATOR

datatype AgentStatus = AGENT_DRAFT | ACTIVE | DEPRECATED | WITHDRAWN

record AgentDefinition =
  ad_id :: uuid
  ad_workspace_id :: uuid
  ad_logical_id :: uuid
  ad_version :: int
  ad_name :: ustr
  ad_domain :: ustr
  ad_role_kind :: AgentRoleKind
  ad_objectives :: "ustr list"
  ad_constraints :: "ustr list"
  ad_knowledge_ns :: "uuid list"
  ad_strategy_ref :: ustr
  ad_strategy_ver :: ustr
  ad_prompt_ref :: ustr
  ad_prompt_hash :: ustr
  ad_llm_config_id :: "uuid option"
  ad_tool_perms :: "ustr list"
  ad_budget :: "(ustr \<times> json) list"
  ad_status :: AgentStatus
  ad_superseded_by :: "uuid option"
  ad_referenced_at :: "datetime option"
  ad_created_at :: "datetime option"
  ad_updated_at :: "datetime option"

datatype MembershipInterventionKind = REPLACE | INJECT

fun intervention_kind_value :: "MembershipInterventionKind \<Rightarrow> string" where
  "intervention_kind_value REPLACE = ''REPLACE''"
| "intervention_kind_value INJECT = ''INJECT''"

record MembershipIntervention =
  mi_event_id :: uuid
  mi_workspace_id :: uuid
  mi_session_id :: uuid
  mi_kind :: MembershipInterventionKind
  mi_replaced_agent_definition_id :: "uuid option"
  mi_agent_definition_id :: uuid
  mi_effective_round :: int
  mi_actor_id :: uuid
  mi_correlation_id :: uuid
  mi_reason :: ustr
  mi_recorded_at :: datetime

definition replacement_shape :: "MembershipIntervention \<Rightarrow> bool" where
  "replacement_shape m = ((mi_kind m = REPLACE) = (mi_replaced_agent_definition_id m \<noteq> None) \<and>
     mi_replaced_agent_definition_id m \<noteq> Some (mi_agent_definition_id m))"

definition MembershipIntervention_valid :: "MembershipIntervention \<Rightarrow> bool" where
  "MembershipIntervention_valid m = (1 \<le> mi_effective_round m \<and> mi_reason m \<noteq> [] \<and> list_all scalar (mi_reason m) \<and>
     \<not> u_blank (mi_reason m) \<and> datetime_valid (mi_recorded_at m) \<and> replacement_shape m)"

record MembershipSnapshot =
  ss_workspace_id :: uuid
  ss_session_id :: uuid
  ss_round :: int
  ss_definitions :: "AgentDefinition list"

definition one_version_per_logical_agent :: "MembershipSnapshot \<Rightarrow> py_error option" where
  "one_version_per_logical_agent s =
     (if ss_definitions s = [] then Some (ValueError ''session membership must not be empty'')
      else if list_ex (\<lambda>d. ad_workspace_id d \<noteq> ss_workspace_id s) (ss_definitions s)
      then Some (ValueError ''session membership contains another workspace'')
      else if \<not> distinct (map ad_logical_id (ss_definitions s))
      then Some (ValueError ''session membership contains multiple versions of one logical agent'')
      else None)"

subsection \<open>The tables\<close>

text \<open>
  A decimal is its coefficient and its exponent, so that its text is known. A cost column holds the
  coefficient at the scale of the column: eight digits for a call, two for a session budget.
\<close>

record pydecimal =
  dc_coeff :: int
  dc_exp :: int

definition dc_value :: "pydecimal \<Rightarrow> rat" where
  "dc_value d = of_int (dc_coeff d) * pow10 (dc_exp d)"

record session_agent =
  sa_workspace_id :: uuid
  sa_session_id :: uuid
  sa_agent_def_id :: uuid
  sa_bound_at :: datetime

record call_record =
  cr_workspace_id :: uuid
  cr_session_id :: "uuid option"
  cr_agent_def_id :: "uuid option"
  cr_input_tokens :: int
  cr_output_tokens :: int
  cr_cost_coeff :: int

record session_budget =
  sb_workspace_id :: uuid
  sb_budget_tokens :: int
  sb_budget_usd_coeff :: int

record policy_db =
  pd_lifecycle :: lifecycle_db
  pd_definitions :: "uuid \<rightharpoonup> AgentDefinition"
  pd_session_agents :: "session_agent list"
  pd_interventions :: "MembershipIntervention list"
  pd_calls :: "call_record list"
  pd_sessions :: "uuid \<rightharpoonup> session_budget"

abbreviation pd_ledger :: "policy_db \<Rightarrow> ledger_db" where
  "pd_ledger db \<equiv> ld_ledger (pd_lifecycle db)"

definition get_definition :: "policy_db \<Rightarrow> uuid \<Rightarrow> uuid \<Rightarrow> AgentDefinition option" where
  "get_definition db ws i = (case pd_definitions db i of None \<Rightarrow> None
     | Some d \<Rightarrow> if ad_workspace_id d = ws then Some d else None)"

definition get_intervention :: "policy_db \<Rightarrow> uuid \<Rightarrow> MembershipIntervention option" where
  "get_intervention db i = find (\<lambda>m. mi_event_id m = i) (pd_interventions db)"

subsection \<open>Membership\<close>

definition initial_members :: "policy_db \<Rightarrow> uuid \<Rightarrow> uuid \<Rightarrow> AgentDefinition list" where
  "initial_members db ws s = List.map_filter (\<lambda>a. get_definition db ws (sa_agent_def_id a))
     (sort_key (\<lambda>a. map int (dt_fields (sa_bound_at a)) @ [uint (sa_agent_def_id a)])
        (filter (\<lambda>a. sa_workspace_id a = ws \<and> sa_session_id a = s) (pd_session_agents db)))"

definition intervention_seq :: "policy_db \<Rightarrow> MembershipIntervention \<Rightarrow> int option" where
  "intervention_seq db m = map_option le_ledger_seq
     (get_by_id (pd_ledger db) (mi_workspace_id m) (mi_session_id m) (mi_event_id m))"

definition interventions_until :: "policy_db \<Rightarrow> uuid \<Rightarrow> uuid \<Rightarrow> int \<Rightarrow> MembershipIntervention list" where
  "interventions_until db ws s n = sort_key (\<lambda>m. [mi_effective_round m, the (intervention_seq db m)])
     (filter (\<lambda>m. mi_workspace_id m = ws \<and> mi_session_id m = s \<and> mi_effective_round m \<le> n \<and>
        intervention_seq db m \<noteq> None) (pd_interventions db))"

text \<open>One intervention on the ordered members; the first member with the identifier is replaced.\<close>

definition intervene ::
  "policy_db \<Rightarrow> uuid \<Rightarrow> AgentDefinition list \<Rightarrow> MembershipIntervention \<Rightarrow> AgentDefinition list result" where
  "intervene db ws ordered m = (case get_definition db ws (mi_agent_definition_id m) of
     None \<Rightarrow> Inl KeyError
   | Some d \<Rightarrow>
       if mi_kind m = REPLACE then
         (let before = takeWhile (\<lambda>x. Some (ad_id x) \<noteq> mi_replaced_agent_definition_id m) ordered in
          if before = ordered then Inl (LedgerIntegrityError
            ''membership history replaces a definition that is not effective'')
          else Inr (ordered[length before := d]))
       else Inr (ordered @ [d]))"

definition membership :: "policy_db \<Rightarrow> uuid \<Rightarrow> uuid \<Rightarrow> int \<Rightarrow> MembershipSnapshot result" where
  "membership db ws s n =
     (if n < 1 then Inl (ValueError ''membership round must be at least 1'')
      else ebind (efold (intervene db ws) (initial_members db ws s) (interventions_until db ws s n)) (\<lambda>ordered.
        let snapshot = \<lparr>ss_workspace_id = ws, ss_session_id = s, ss_round = n, ss_definitions = ordered\<rparr> in
        (case one_version_per_logical_agent snapshot of Some e \<Rightarrow> Inl e | None \<Rightarrow> Inr snapshot)))"

text \<open>The constraints of the interventions table.\<close>

definition intervention_checks :: "policy_db \<Rightarrow> MembershipIntervention \<Rightarrow> bool" where
  "intervention_checks db m =
     (session_exists (pd_ledger db) (mi_workspace_id m) (mi_session_id m) \<and>
      get_by_id (pd_ledger db) (mi_workspace_id m) (mi_session_id m) (mi_event_id m) \<noteq> None \<and>
      get_definition db (mi_workspace_id m) (mi_agent_definition_id m) \<noteq> None \<and>
      (case mi_replaced_agent_definition_id m of None \<Rightarrow> True
       | Some i \<Rightarrow> get_definition db (mi_workspace_id m) i \<noteq> None) \<and>
      1 \<le> mi_effective_round m \<and> replacement_shape m \<and> filter (\<lambda>c. c \<noteq> 32) (mi_reason m) \<noteq> [])"

definition add_intervention :: "policy_db \<Rightarrow> MembershipIntervention \<Rightarrow> policy_db result" where
  "add_intervention db m = (case get_intervention db (mi_event_id m) of
     Some existing \<Rightarrow> if existing \<noteq> m then Inl (LedgerIntegrityError
         ''membership intervention event id was reused with different content'') else Inr db
   | None \<Rightarrow>
       if \<not> intervention_checks db m then Inl (IntegrityError ''session_agent_interventions'')
       else Inr (db\<lparr>pd_interventions := pd_interventions db @ [m],
         pd_definitions := (\<lambda>i. case pd_definitions db i of None \<Rightarrow> None
           | Some d \<Rightarrow> Some (if i = mi_agent_definition_id m \<and> ad_workspace_id d = mi_workspace_id m \<and> ad_referenced_at d = None
               then d\<lparr>ad_referenced_at := Some (mi_recorded_at m)\<rparr> else d))\<rparr>))"

definition optional_juuid :: "uuid option \<Rightarrow> json" where
  "optional_juuid u = (case u of None \<Rightarrow> JNull | Some i \<Rightarrow> juuid i)"

definition intervention_event :: "MembershipIntervention \<Rightarrow> AgentDefinition \<Rightarrow> int \<Rightarrow> LedgerAppend" where
  "intervention_event m d n = \<lparr>la_id = mi_event_id m, la_workspace_id = mi_workspace_id m,
     la_session_id = mi_session_id m,
     la_event_type = ustr (if mi_kind m = REPLACE then ''SESSION_AGENT_REPLACED'' else ''SESSION_AGENT_INJECTED''),
     la_payload_schema_version = 1, la_causation_id = None, la_correlation_id = mi_correlation_id m,
     la_actor_class = HUMAN, la_actor_id = mi_actor_id m, la_round = n,
     la_payload = JObj [(ustr ''kind'', JStr (ustr (intervention_kind_value (mi_kind m)))),
       (ustr ''replaced_agent_definition_id'', optional_juuid (mi_replaced_agent_definition_id m)),
       (ustr ''agent_definition_id'', juuid (mi_agent_definition_id m)),
       (ustr ''agent_definition_version'', JInt (ad_version d)),
       (ustr ''logical_agent_id'', juuid (ad_logical_id d)),
       (ustr ''effective_round'', JInt (mi_effective_round m)),
       (ustr ''reason'', JStr (mi_reason m))],
     la_recorded_at = mi_recorded_at m\<rparr>"

text \<open>The checks of a request against the current lifecycle and membership.\<close>

definition intervention_refused ::
  "policy_db \<Rightarrow> MembershipIntervention \<Rightarrow> SessionLifecycle \<Rightarrow> (AgentDefinition \<times> MembershipSnapshot) result" where
  "intervention_refused db m lifecycle =
     (let expected_round = (if sl_round lifecycle = 0 then 1 else sl_round lifecycle + 1) in
      if mi_effective_round m \<noteq> expected_round
      then Inl (InvalidSessionTransition
        (''membership intervention must become effective in round '' @ int_string expected_round))
      else if mi_kind m = REPLACE \<and> sl_round lifecycle \<noteq> 0
      then Inl (InvalidSessionTransition ''agent replacement is allowed only before round 1'')
      else if mi_kind m = INJECT \<and> sl_round lifecycle = 0
      then Inl (InvalidSessionTransition ''agent injection requires a started session'')
      else (case get_definition db (mi_workspace_id m) (mi_agent_definition_id m) of
        None \<Rightarrow> Inl (ValueError ''new agent definition must be active in the session workspace'')
      | Some d \<Rightarrow>
          if ad_status d \<noteq> ACTIVE
          then Inl (ValueError ''new agent definition must be active in the session workspace'')
          else ebind (membership db (mi_workspace_id m) (mi_session_id m) (mi_effective_round m)) (\<lambda>current.
            if mi_kind m = REPLACE then
              if list_all (\<lambda>x. Some (ad_id x) \<noteq> mi_replaced_agent_definition_id m) (ss_definitions current)
              then Inl (ValueError ''replaced agent definition is not effective for the target round'')
              else if ad_logical_id d \<in> ad_logical_id ` {x \<in> set (ss_definitions current).
                        Some (ad_id x) \<noteq> mi_replaced_agent_definition_id m}
              then Inl (ValueError ''replacement would add multiple versions of one logical agent'')
              else Inr (d, current)
            else if ad_logical_id d \<in> ad_logical_id ` set (ss_definitions current)
            then Inl (ValueError ''injection would add multiple versions of one logical agent'')
            else Inr (d, current))))"

definition apply_intervention ::
  "policy_db \<Rightarrow> MembershipIntervention \<Rightarrow> (policy_db \<times> MembershipSnapshot) result" where
  "apply_intervention db m = (case get_intervention db (mi_event_id m) of
     Some prior \<Rightarrow>
       if prior \<noteq> m
       then Inl (ValueError ''membership intervention event id was reused with different content'')
       else ebind (membership db (mi_workspace_id m) (mi_session_id m) (mi_effective_round m)) (\<lambda>s. Inr (db, s))
   | None \<Rightarrow>
       ebind (sql_get (pd_lifecycle db) (mi_workspace_id m) (mi_session_id m)) (\<lambda>found.
       case found of
         None \<Rightarrow> Inl (InvalidSessionTransition ''session is missing or terminal'')
       | Some lifecycle \<Rightarrow>
           if terminal (sl_state lifecycle)
           then Inl (InvalidSessionTransition ''session is missing or terminal'')
           else ebind (intervention_refused db m lifecycle) (\<lambda>(d, _).
             let event = intervention_event m d (sl_round lifecycle) in
             ebind (eguard (LedgerAppend_valid event) (ValueError ''LedgerAppend'')) (\<lambda>_.
             ebind (ledger_append (pd_ledger db) event) (\<lambda>(l, _).
             ebind (add_intervention (db\<lparr>pd_lifecycle := (pd_lifecycle db)\<lparr>ld_ledger := l\<rparr>\<rparr>) m) (\<lambda>db'.
             ebind (membership db' (mi_workspace_id m) (mi_session_id m) (mi_effective_round m)) (\<lambda>s.
             Inr (db', s))))))))"

subsection \<open>Budgets\<close>

record BudgetUsage =
  bu_input_tokens :: int
  bu_output_tokens :: int
  bu_cost_usd :: pydecimal

definition bu_tokens :: "BudgetUsage \<Rightarrow> int" where
  "bu_tokens u = bu_input_tokens u + bu_output_tokens u"

record BudgetCeiling =
  bc_max_tokens :: int
  bc_max_usd :: pydecimal

text \<open>\<^verbatim>\<open>str\<close> of a decimal.\<close>

definition pydecimal_text :: "pydecimal \<Rightarrow> ustr" where
  "pydecimal_text d =
     (let digits = dec_text (nat \<bar>dc_coeff d\<bar>);
          leftdigits = dc_exp d + int (length digits);
          dotplace = (if dc_exp d \<le> 0 \<and> leftdigits > -6 then leftdigits else 1);
          body = (if dotplace \<le> 0 then 48 # 46 # replicate (nat (- dotplace)) 48 @ digits
                  else if int (length digits) \<le> dotplace then digits @ replicate (nat (dotplace - int (length digits))) 48
                  else take (nat dotplace) digits @ 46 # drop (nat dotplace) digits);
          e = leftdigits - dotplace
      in (if dc_coeff d < 0 then [45] else []) @ body @
         (if e = 0 then [] else 69 # (if e < 0 then 45 else 43) # dec_text (nat \<bar>e\<bar>)))"

definition usage :: "policy_db \<Rightarrow> uuid \<Rightarrow> uuid \<Rightarrow> uuid option \<Rightarrow> BudgetUsage result" where
  "usage db ws s agent =
     (let calls = filter (\<lambda>c. cr_workspace_id c = ws \<and> cr_session_id c = Some s \<and>
            (agent = None \<or> cr_agent_def_id c = agent)) (pd_calls db);
          u = \<lparr>bu_input_tokens = sum_list (map cr_input_tokens calls),
               bu_output_tokens = sum_list (map cr_output_tokens calls),
               bu_cost_usd = (if calls = [] then \<lparr>dc_coeff = 0, dc_exp = 0\<rparr>
                 else \<lparr>dc_coeff = sum_list (map cr_cost_coeff calls), dc_exp = -8\<rparr>)\<rparr>
      in ebind (eguard (0 \<le> bu_input_tokens u \<and> 0 \<le> bu_output_tokens u \<and> 0 \<le> dc_coeff (bu_cost_usd u))
           (ValueError ''BudgetUsage'')) (\<lambda>_. Inr u))"

definition ceiling_checked :: "BudgetCeiling \<Rightarrow> BudgetCeiling result" where
  "ceiling_checked c = (if 0 < bc_max_tokens c \<and> 0 < dc_coeff (bc_max_usd c) then Inr c
     else Inl (ValueError ''BudgetCeiling''))"

definition session_ceiling :: "policy_db \<Rightarrow> uuid \<Rightarrow> uuid \<Rightarrow> BudgetCeiling option result" where
  "session_ceiling db ws s = (case pd_sessions db s of
     None \<Rightarrow> Inr None
   | Some row \<Rightarrow> if sb_workspace_id row \<noteq> ws then Inr None
       else ebind (ceiling_checked \<lparr>bc_max_tokens = sb_budget_tokens row,
              bc_max_usd = \<lparr>dc_coeff = sb_budget_usd_coeff row, dc_exp = -2\<rparr>\<rparr>) (\<lambda>c. Inr (Some c)))"

text \<open>\<^verbatim>\<open>Decimal(str(value))\<close> of a stored JSON value that is a text of ASCII characters or an integer.\<close>

definition pydecimal_of_text :: "ustr \<Rightarrow> pydecimal option" where
  "pydecimal_of_text t =
     (if list_ex (\<lambda>c. 128 \<le> c) t then None
      else (case take_sign (filter (\<lambda>c. c \<noteq> CHR ''_'') (strip (map char_of t))) of (neg, s) \<Rightarrow>
        let ip = takeWhile is_digit s;
            r = dropWhile is_digit s;
            (fp, r') = (case r of [] \<Rightarrow> ([], [])
              | c # cs \<Rightarrow> if c = CHR ''.'' then (takeWhile is_digit cs, dropWhile is_digit cs) else ([], r))
        in if ip @ fp = [] then None
           else (case parse_exponent r' of None \<Rightarrow> None
             | Some e \<Rightarrow> Some \<lparr>dc_coeff = (if neg then -1 else 1) * digits_val (ip @ fp), dc_exp = e - int (length fp)\<rparr>)))"

fun pydecimal_of_json :: "json \<Rightarrow> pydecimal option" where
  "pydecimal_of_json (JStr t) = pydecimal_of_text t"
| "pydecimal_of_json (JInt i) = Some \<lparr>dc_coeff = i, dc_exp = 0\<rparr>"
| "pydecimal_of_json _ = None"

definition agent_ceiling :: "policy_db \<Rightarrow> uuid \<Rightarrow> uuid \<Rightarrow> BudgetCeiling option result" where
  "agent_ceiling db ws agent = (case get_definition db ws agent of
     None \<Rightarrow> Inr None
   | Some d \<Rightarrow>
       if ad_budget d = [] then Inr None
       else if set (map fst (ad_budget d)) \<noteq> {ustr ''max_tokens'', ustr ''max_cost_usd''}
       then Inl (ValueError ''agent budget must contain max_tokens and max_cost_usd exactly'')
       else (case (the (map_of (ad_budget d) (ustr ''max_tokens'')),
                   pydecimal_of_json (the (map_of (ad_budget d) (ustr ''max_cost_usd'')))) of
         (JInt n, Some usd) \<Rightarrow> (case ceiling_checked \<lparr>bc_max_tokens = n, bc_max_usd = usd\<rparr> of
             Inl _ \<Rightarrow> Inl (ValueError ''agent budget ceiling is invalid'') | Inr c \<Rightarrow> Inr (Some c))
       | _ \<Rightarrow> Inl (ValueError ''agent budget ceiling is invalid'')))"

type_synonym breach = "string \<times> uuid option \<times> BudgetUsage \<times> BudgetCeiling"

definition breach_of :: "string \<Rightarrow> uuid option \<Rightarrow> BudgetUsage \<Rightarrow> BudgetCeiling option \<Rightarrow> breach option" where
  "breach_of scope agent u limit = (case limit of None \<Rightarrow> None
     | Some c \<Rightarrow> if bc_max_tokens c \<le> bu_tokens u \<or> dc_value (bc_max_usd c) \<le> dc_value (bu_cost_usd u)
         then Some (scope, agent, u, c) else None)"

definition first_occurrences :: "'a list \<Rightarrow> 'a list" where
  "first_occurrences xs = rev (remdups (rev xs))"

fun agents_breach :: "policy_db \<Rightarrow> uuid \<Rightarrow> uuid \<Rightarrow> uuid list \<Rightarrow> breach option result" where
  "agents_breach db ws s [] = Inr None"
| "agents_breach db ws s (agent # agents) =
     ebind (usage db ws s (Some agent)) (\<lambda>u.
     ebind (agent_ceiling db ws agent) (\<lambda>c.
     case breach_of ''AGENT'' (Some agent) u c of
       Some b \<Rightarrow> Inr (Some b)
     | None \<Rightarrow> agents_breach db ws s agents))"

definition find_breach :: "policy_db \<Rightarrow> uuid \<Rightarrow> uuid \<Rightarrow> uuid list \<Rightarrow> breach option result" where
  "find_breach db ws s agents =
     ebind (usage db ws s None) (\<lambda>u.
     ebind (session_ceiling db ws s) (\<lambda>c.
     case breach_of ''SESSION'' None u c of
       Some b \<Rightarrow> Inr (Some b)
     | None \<Rightarrow> agents_breach db ws s (first_occurrences agents)))"

record budget_check =
  bk_workspace_id :: uuid
  bk_session_id :: uuid
  bk_agents :: "uuid list"
  bk_event_id :: uuid
  bk_correlation_id :: uuid
  bk_actor_id :: uuid
  bk_checked_at :: datetime

definition budget_step :: "budget_check \<Rightarrow> SessionLifecycle \<Rightarrow> breach \<Rightarrow> SessionTransition" where
  "budget_step k lifecycle b = (case b of (scope, agent, u, c) \<Rightarrow>
     \<lparr>st_source = sl_state lifecycle, st_target = FAILED, st_round = sl_round lifecycle,
      st_event = \<lparr>la_id = bk_event_id k, la_workspace_id = bk_workspace_id k, la_session_id = bk_session_id k,
        la_event_type = ustr ''BUDGET_EXHAUSTED'', la_payload_schema_version = 1, la_causation_id = None,
        la_correlation_id = bk_correlation_id k, la_actor_class = SERVICE, la_actor_id = bk_actor_id k,
        la_round = sl_round lifecycle,
        la_payload = JObj [(ustr ''from'', JStr (ustr (state_value (sl_state lifecycle)))),
          (ustr ''to'', JStr (ustr ''FAILED'')),
          (ustr ''termination_reason'', JStr (ustr ''BUDGET_EXHAUSTED'')),
          (ustr ''scope'', JStr (ustr scope)),
          (ustr ''agent_definition_id'', optional_juuid agent),
          (ustr ''usage_tokens'', JInt (bu_tokens u)),
          (ustr ''usage_usd'', JStr (pydecimal_text (bu_cost_usd u))),
          (ustr ''max_tokens'', JInt (bc_max_tokens c)),
          (ustr ''max_usd'', JStr (pydecimal_text (bc_max_usd c)))],
        la_recorded_at = bk_checked_at k\<rparr>,
      st_allow_same_state = False\<rparr>)"

text \<open>
  \<open>Exhausted\<close> is the exception that carries the lifecycle, with the state of the transaction it leaves to
  the caller: the transaction is the caller's, so the failed session persists only if the caller commits.
\<close>

datatype enforcement = Within | Exhausted policy_db SessionLifecycle

definition enforce :: "policy_db \<Rightarrow> budget_check \<Rightarrow> enforcement result" where
  "enforce db k =
     ebind (sql_get (pd_lifecycle db) (bk_workspace_id k) (bk_session_id k)) (\<lambda>found.
     case found of
       None \<Rightarrow> Inl (InvalidSessionTransition ''session lifecycle does not exist'')
     | Some lifecycle \<Rightarrow>
         if terminal (sl_state lifecycle) then
           if sl_last_event_id lifecycle = Some (bk_event_id k) \<and> sl_state lifecycle = FAILED
           then Inr (Exhausted db lifecycle)
           else Inl (InvalidSessionTransition ''session is already terminal'')
         else ebind (find_breach db (bk_workspace_id k) (bk_session_id k) (bk_agents k)) (\<lambda>breach.
           case breach of
             None \<Rightarrow> Inr Within
           | Some b \<Rightarrow>
               ebind (transition_checked (pd_lifecycle db) (budget_step k lifecycle b)) (\<lambda>(l, terminated).
               Inr (Exhausted (db\<lparr>pd_lifecycle := l\<rparr>) terminated))))"

text \<open>The dispatcher of the agents' turns is an argument: it changes the stored state and returns outcomes.\<close>

datatype 'o dispatched = Outcomes policy_db 'o | Stopped policy_db SessionLifecycle

definition budgeted_dispatch ::
  "(policy_db \<Rightarrow> (policy_db \<times> 'o) result) \<Rightarrow> policy_db \<Rightarrow> budget_check \<Rightarrow> 'o dispatched result" where
  "budgeted_dispatch dispatch db k =
     (if bk_agents k = [] then Inl (ValueError ''dispatch requires at least one logical turn'')
      else ebind (enforce db k) (\<lambda>before.
        case before of
          Exhausted db' v \<Rightarrow> Inr (Stopped db' v)
        | Within \<Rightarrow> ebind (dispatch db) (\<lambda>(db1, outcomes).
            ebind (enforce db1 k) (\<lambda>after.
            case after of
              Exhausted db' v \<Rightarrow> Inr (Stopped db' v)
            | Within \<Rightarrow> Inr (Outcomes db1 outcomes)))))"

subsection \<open>Invariant, abstract effect and budget specification\<close>

definition row_grows :: "lifecycle_db \<Rightarrow> lifecycle_db \<Rightarrow> bool" where
  "row_grows l l' = (\<forall>ws s v. sql_row l ws s = Some v \<longrightarrow> (\<exists>v'. sql_row l' ws s = Some v' \<and> sl_round v \<le> sl_round v'))"

definition policy_wf :: "policy_db \<Rightarrow> bool" where
  "policy_wf db = (lifecycle_wf (pd_lifecycle db) \<and> (\<forall>i d. pd_definitions db i = Some d \<longrightarrow> ad_id d = i) \<and>
     (\<forall>m \<in> set (pd_interventions db). \<exists>v. sql_row (pd_lifecycle db) (mi_workspace_id m) (mi_session_id m) = Some v \<and>
        mi_effective_round m \<le> sl_round v + 1))"

text \<open>What the lifecycle and the ledger do, what the registry and the gateway record, and interventions.\<close>

inductive policy_reachable :: "policy_db \<Rightarrow> bool" where
  empty: "policy_reachable \<lparr>pd_lifecycle = \<lparr>ld_ledger = empty_ledger, ld_rows = Map.empty\<rparr>, pd_definitions = Map.empty,
    pd_session_agents = [], pd_interventions = [], pd_calls = [], pd_sessions = Map.empty\<rparr>"
| session: "policy_reachable db \<Longrightarrow> create_session_ledger_head (pd_ledger db) ws s = Inr l \<Longrightarrow>
    policy_reachable (db\<lparr>pd_lifecycle := (pd_lifecycle db)\<lparr>ld_ledger := l\<rparr>, pd_sessions := (pd_sessions db)(s \<mapsto> b)\<rparr>)"
| event: "policy_reachable db \<Longrightarrow> LedgerAppend_valid e \<Longrightarrow> ledger_append (pd_ledger db) e = Inr (l, x) \<Longrightarrow>
    policy_reachable (db\<lparr>pd_lifecycle := (pd_lifecycle db)\<lparr>ld_ledger := l\<rparr>\<rparr>)"
| draft: "policy_reachable db \<Longrightarrow> sql_add_draft (pd_lifecycle db) ws s tm = Inr (l, v) \<Longrightarrow>
    policy_reachable (db\<lparr>pd_lifecycle := l\<rparr>)"
| attach: "policy_reachable db \<Longrightarrow> sql_attach_workflow (pd_lifecycle db) ws s w run = Inr (l, v) \<Longrightarrow>
    policy_reachable (db\<lparr>pd_lifecycle := l\<rparr>)"
| move: "policy_reachable db \<Longrightarrow> SessionTransition_valid c \<Longrightarrow> sql_transition (pd_lifecycle db) c = Inr (l, v) \<Longrightarrow>
    policy_reachable (db\<lparr>pd_lifecycle := l\<rparr>)"
| agent: "policy_reachable db \<Longrightarrow> pd_definitions db (ad_id d) = None \<Longrightarrow>
    policy_reachable (db\<lparr>pd_definitions := (pd_definitions db)(ad_id d \<mapsto> d)\<rparr>)"
| member: "policy_reachable db \<Longrightarrow> policy_reachable (db\<lparr>pd_session_agents := pd_session_agents db @ [a]\<rparr>)"
| call: "policy_reachable db \<Longrightarrow> policy_reachable (db\<lparr>pd_calls := pd_calls db @ [c]\<rparr>)"
| change: "policy_reachable db \<Longrightarrow> MembershipIntervention_valid m \<Longrightarrow> apply_intervention db m = Inr (db', snap) \<Longrightarrow>
    policy_reachable db'"

text \<open>Recording an intervention dates the first reference of its definition; nothing else of a definition changes.\<close>

definition settled :: "AgentDefinition \<Rightarrow> AgentDefinition" where
  "settled d = d\<lparr>ad_referenced_at := None\<rparr>"

definition settled_db :: "policy_db \<Rightarrow> policy_db" where
  "settled_db db = db\<lparr>pd_definitions := (\<lambda>i. map_option settled (pd_definitions db i))\<rparr>"

definition settled_snapshot :: "MembershipSnapshot \<Rightarrow> MembershipSnapshot" where
  "settled_snapshot s = s\<lparr>ss_definitions := map settled (ss_definitions s)\<rparr>"

definition rmap :: "('a \<Rightarrow> 'b) \<Rightarrow> 'a result \<Rightarrow> 'b result" where
  "rmap f r = ebind r (\<lambda>x. Inr (f x))"

text \<open>The effect an intervention is meant to have on the identifiers of the members.\<close>

definition intervention_effect :: "MembershipIntervention \<Rightarrow> uuid list \<Rightarrow> uuid list" where
  "intervention_effect m ids = (case mi_kind m of
     REPLACE \<Rightarrow> map (\<lambda>i. if Some i = mi_replaced_agent_definition_id m then mi_agent_definition_id m else i) ids
   | INJECT \<Rightarrow> ids @ [mi_agent_definition_id m])"

definition within_budget :: "BudgetUsage \<Rightarrow> BudgetCeiling option \<Rightarrow> bool" where
  "within_budget u c = (case c of None \<Rightarrow> True
     | Some c \<Rightarrow> bu_tokens u < bc_max_tokens c \<and> dc_value (bu_cost_usd u) < dc_value (bc_max_usd c))"

text \<open>What the calls of a session and of its agents have spent is strictly below every ceiling.\<close>

definition spends_within :: "policy_db \<Rightarrow> budget_check \<Rightarrow> bool" where
  "spends_within db k =
     ((case (usage db (bk_workspace_id k) (bk_session_id k) None, session_ceiling db (bk_workspace_id k) (bk_session_id k)) of
        (Inr u, Inr c) \<Rightarrow> within_budget u c | _ \<Rightarrow> False) \<and>
      list_all (\<lambda>a. case (usage db (bk_workspace_id k) (bk_session_id k) (Some a), agent_ceiling db (bk_workspace_id k) a) of
        (Inr u, Inr c) \<Rightarrow> within_budget u c | _ \<Rightarrow> False) (bk_agents k))"



subsection \<open>Reachable stores\<close>

lemma sql_get_row: "lifecycle_wf l \<Longrightarrow> sql_get l ws s = Inr (sql_row l ws s)"
  using sql_row_wf [of l ws s] by (auto simp: sql_get_def projection_def row_ok_def split: option.splits)

lemma row_grows_append: "row_grows l (l\<lparr>ld_ledger := k\<rparr>)"
  by (simp add: row_grows_def sql_row_def)

lemma row_grows_flush:
  assumes "flush l r = Inr l'"
    and "ld_rows l (sl_session_id r) = None \<or> (\<exists>v. ld_rows l (sl_session_id r) = Some v \<and>
      sl_workspace_id v = sl_workspace_id r \<and> sl_round v = sl_round r)"
  shows "row_grows l l'"
proof -
  have l': "l' = l\<lparr>ld_rows := (ld_rows l)(sl_session_id r \<mapsto> r)\<rparr>"
    using assms(1) by (simp add: flush_def split: if_splits)
  have "\<exists>v'. sql_row l' ws s = Some v' \<and> sl_round v \<le> sl_round v'" if v: "sql_row l ws s = Some v" for ws s v
    using v assms(2) unfolding l' by (cases "s = sl_session_id r") (auto simp: sql_row_def split: option.splits if_splits)
  then show ?thesis by (simp add: row_grows_def)
qed

lemma row_grows_move:
  assumes "lifecycle_wf l" "SessionTransition_valid c" "sql_transition l c = Inr (l', v)"
  shows "row_grows l l'"
  unfolding row_grows_def using sql.one_step [OF assms] by fastforce

lemma row_grows_draft: "sql_add_draft l ws s tm = Inr (l', v) \<Longrightarrow> row_grows l l'"
  by (rule row_grows_flush [of l "new_draft ws s tm"])
    (auto simp: sql_add_draft_def Let_def result_simps new_draft_def split: if_splits)

lemma row_grows_attach:
  assumes "lifecycle_wf l" "sql_attach_workflow l ws s w run = Inr (l', v)"
  shows "row_grows l l'"
proof -
  obtain row where row: "sql_row l ws s = Some row"
    using assms(2) by (auto simp: sql_attach_workflow_def required_row_def result_simps split: option.splits if_splits)
  note r = sql_row_wf [OF assms(1) row]
  have "l' = l \<or> flush l (row\<lparr>sl_workflow_id := Some w, sl_run_id := Some run\<rparr>) = Inr l'"
    using assms(2) row
    by (auto simp: sql_attach_workflow_def required_row_def result_simps Let_def split: if_splits)
  then show ?thesis
    using row_grows_flush r by (fastforce simp: row_grows_def)
qed

lemma policy_wf_lifecycle:
  assumes "policy_wf db" "lifecycle_wf l" "row_grows (pd_lifecycle db) l"
  shows "policy_wf (db\<lparr>pd_lifecycle := l\<rparr>)"
  using assms unfolding policy_wf_def row_grows_def by simp (meson add_right_mono order_trans)

text \<open>An accepted new intervention, step by step.\<close>

lemma apply_new:
  assumes "policy_wf db" "get_intervention db (mi_event_id m) = None" "apply_intervention db m = Inr (db', snap)"
  obtains v d old l x where "sql_row (pd_lifecycle db) (mi_workspace_id m) (mi_session_id m) = Some v" "\<not> terminal (sl_state v)"
    "intervention_refused db m v = Inr (d, old)" "LedgerAppend_valid (intervention_event m d (sl_round v))"
    "ledger_append (pd_ledger db) (intervention_event m d (sl_round v)) = Inr (l, x)"
    "add_intervention (db\<lparr>pd_lifecycle := (pd_lifecycle db)\<lparr>ld_ledger := l\<rparr>\<rparr>) m = Inr db'"
    "membership db' (mi_workspace_id m) (mi_session_id m) (mi_effective_round m) = Inr snap"
  using assms sql_get_row [of "pd_lifecycle db"]
  by (auto simp: apply_intervention_def policy_wf_def result_simps Let_def split: option.splits if_splits)

lemma refused_Inr:
  assumes "intervention_refused db m v = Inr (d, old)"
  shows "mi_effective_round m = sl_round v + 1 \<and> get_definition db (mi_workspace_id m) (mi_agent_definition_id m) = Some d \<and>
    membership db (mi_workspace_id m) (mi_session_id m) (mi_effective_round m) = Inr old \<and>
    (mi_kind m = REPLACE \<longrightarrow> sl_round v = 0 \<and> (\<exists>y \<in> set (ss_definitions old). Some (ad_id y) = mi_replaced_agent_definition_id m))"
  using assms by (auto simp: intervention_refused_def result_simps Let_def list_all_iff split: if_splits option.splits)

lemma apply_policy_wf:
  assumes "policy_wf db" "apply_intervention db m = Inr (db', snap)"
  shows "policy_wf db'"
proof (cases "get_intervention db (mi_event_id m)")
  case (Some p)
  then show ?thesis using assms by (auto simp: apply_intervention_def result_simps split: if_splits)
next
  case None
  from assms(1) None assms(2) show ?thesis
  proof (rule apply_new, goal_cases)
    case (1 v d old l x)
    let ?l = "(pd_lifecycle db)\<lparr>ld_ledger := l\<rparr>"
    have "lifecycle_wf ?l" using lifecycle_wf_append [OF _ 1(4,5)] assms(1) by (simp add: policy_wf_def)
    then have wf: "policy_wf (db\<lparr>pd_lifecycle := ?l\<rparr>)"
      by (rule policy_wf_lifecycle [OF assms(1) _ row_grows_append])
    have "sql_row ?l (mi_workspace_id m) (mi_session_id m) = Some v" using 1(1) by (simp add: sql_row_def)
    then show ?case
      using 1(6) wf refused_Inr [OF 1(3)] None
      by (auto simp: add_intervention_def policy_wf_def get_intervention_def split: if_splits option.splits)
  qed
qed

lemma policy_reachable_wf: "policy_reachable db \<Longrightarrow> policy_wf db"
proof (induction rule: policy_reachable.induct)
  case empty
  have "lifecycle_wf \<lparr>ld_ledger = empty_ledger, ld_rows = Map.empty\<rparr>"
    using lifecycle_reachable_wf [OF lifecycle_reachable.empty] .
  then show ?case by (simp add: policy_wf_def)
next
  case (session db ws s l b)
  have "lifecycle_wf ((pd_lifecycle db)\<lparr>ld_ledger := l\<rparr>)"
    using session.IH session.hyps(2) create_head_wf session_head_added
    by (auto simp: lifecycle_wf_def policy_wf_def)
  then have "policy_wf (db\<lparr>pd_lifecycle := (pd_lifecycle db)\<lparr>ld_ledger := l\<rparr>\<rparr>)"
    by (rule policy_wf_lifecycle [OF session.IH _ row_grows_append])
  then show ?case by (simp add: policy_wf_def)
next
  case (event db e l x)
  show ?case
    by (rule policy_wf_lifecycle [OF event.IH lifecycle_wf_append row_grows_append])
      (use event in \<open>auto simp: policy_wf_def\<close>)
next
  case (draft db ws s tm l v)
  have w: "lifecycle_wf (pd_lifecycle db)" using draft.IH by (simp add: policy_wf_def)
  show ?case by (rule policy_wf_lifecycle [OF draft.IH sql_add_draft_wf [OF w draft.hyps(2)] row_grows_draft [OF draft.hyps(2)]])
next
  case (attach db ws s w run l v)
  have w: "lifecycle_wf (pd_lifecycle db)" using attach.IH by (simp add: policy_wf_def)
  show ?case by (rule policy_wf_lifecycle [OF attach.IH sql_attach_workflow_wf [OF w attach.hyps(2)] row_grows_attach [OF w attach.hyps(2)]])
next
  case (move db c l v)
  have w: "lifecycle_wf (pd_lifecycle db)" using move.IH by (simp add: policy_wf_def)
  show ?case by (rule policy_wf_lifecycle [OF move.IH sql_transition_wf [OF w move.hyps(2,3)] row_grows_move [OF w move.hyps(2,3)]])
next
  case (change db m db' snap)
  show ?case by (rule apply_policy_wf [OF change.IH change.hyps(3)])
qed (auto simp: policy_wf_def split: if_splits)

subsection \<open>Membership up to the time of first reference\<close>

lemma rmap_simps [simp]: "rmap f (Inl e) = Inl e" "rmap f (Inr x) = Inr (f x)"
  by (simp_all add: rmap_def)

lemma rmap_ebind: "rmap f (ebind r g) = ebind r (\<lambda>x. rmap f (g x))"
  by (cases r) simp_all

lemma settled_simps [simp]: "ad_id (settled d) = ad_id d" "ad_workspace_id (settled d) = ad_workspace_id d"
    "ad_logical_id (settled d) = ad_logical_id d"
  by (simp_all add: settled_def)

lemma get_definition_settled: "get_definition (settled_db db) ws i = map_option settled (get_definition db ws i)"
  by (simp add: get_definition_def settled_db_def split: option.splits)

lemma takeWhile_settled: "takeWhile (\<lambda>x. Some (ad_id x) \<noteq> r) (map settled xs) = map settled (takeWhile (\<lambda>x. Some (ad_id x) \<noteq> r) xs)"
  by (induction xs) simp_all

lemma takeWhile_eq_map: "map settled (takeWhile P xs) = map settled xs \<longleftrightarrow> takeWhile P xs = xs"
proof
  assume "map settled (takeWhile P xs) = map settled xs"
  then have "length (takeWhile P xs) = length xs" by (rule map_eq_imp_length_eq)
  moreover have "length xs = length (takeWhile P xs) + length (dropWhile P xs)"
    by (metis length_append takeWhile_dropWhile_id)
  ultimately show "takeWhile P xs = xs" using takeWhile_dropWhile_id [of P xs] by simp
qed (rule arg_cong)

lemma intervene_settled: "intervene (settled_db db) ws (map settled xs) m = rmap (map settled) (intervene db ws xs m)"
  by (auto simp: intervene_def get_definition_settled takeWhile_settled takeWhile_eq_map map_update Let_def split: option.splits)

lemma efold_settled:
  "efold (intervene (settled_db db) ws) (map settled xs) ms = rmap (map settled) (efold (intervene db ws) xs ms)"
proof (induction ms arbitrary: xs)
  case (Cons m ms)
  then show ?case by (cases "intervene db ws xs m") (simp_all add: intervene_settled)
qed simp

lemma map_filter_settled: "List.map_filter (\<lambda>a. map_option settled (f a)) as = map settled (List.map_filter f as)"
  by (induction as) (auto simp: map_filter_simps split: option.splits)

lemma initial_settled: "initial_members (settled_db db) ws s = map settled (initial_members db ws s)"
proof -
  have "pd_session_agents (settled_db db) = pd_session_agents db" by (simp add: settled_db_def)
  then show ?thesis by (simp add: initial_members_def get_definition_settled map_filter_settled)
qed

lemma interventions_settled: "interventions_until (settled_db db) ws s n = interventions_until db ws s n"
  by (simp add: interventions_until_def intervention_seq_def settled_db_def)

lemma one_version_settled: "one_version_per_logical_agent (settled_snapshot s) = one_version_per_logical_agent s"
  by (simp add: one_version_per_logical_agent_def settled_snapshot_def list_ex_iff comp_def)

lemma membership_settled: "membership (settled_db db) ws s n = rmap settled_snapshot (membership db ws s n)"
proof -
  have "one_version_per_logical_agent \<lparr>ss_workspace_id = ws, ss_session_id = s, ss_round = n, ss_definitions = map settled ys\<rparr> =
      one_version_per_logical_agent \<lparr>ss_workspace_id = ws, ss_session_id = s, ss_round = n, ss_definitions = ys\<rparr>" for ys
    using one_version_settled [of "\<lparr>ss_workspace_id = ws, ss_session_id = s, ss_round = n, ss_definitions = ys\<rparr>"]
    by (simp add: settled_snapshot_def)
  then show ?thesis
    by (cases "efold (intervene db ws) (initial_members db ws s) (interventions_until db ws s n)")
      (auto simp: membership_def initial_settled interventions_settled efold_settled settled_snapshot_def Let_def split: option.splits)
qed

subsection \<open>The order of interventions\<close>

lemma sort_key_snoc:
  assumes "\<forall>x \<in> set xs. f x \<le> f y"
  shows "sort_key f (xs @ [y]) = sort_key f xs @ [y]"
proof (rule properties_for_sort_key)
  show "filter (\<lambda>x. f k = f x) (sort_key f xs @ [y]) = filter (\<lambda>x. f k = f x) (xs @ [y])" for k
    using sort_key_stable [of f "f k" xs] by (simp add: eq_commute [of "f k"])
qed (use assms in \<open>auto simp: sorted_append\<close>)

lemma efold_snoc: "efold f s (xs @ [x]) = ebind (efold f s xs) (\<lambda>t. f t x)"
proof (induction xs arbitrary: s)
  case Nil
  then show ?case by (cases "f s x") simp_all
next
  case (Cons y ys)
  then show ?case by (cases "f s y") simp_all
qed

lemma update_first:
  assumes "distinct (map f xs)" "a \<in> f ` set xs"
  shows "map f (xs[length (takeWhile (\<lambda>x. f x \<noteq> a) xs) := d]) = map (\<lambda>i. if i = a then f d else i) (map f xs)"
  using assms
proof (induction xs)
  case (Cons x xs)
  show ?case
  proof (cases "f x = a")
    case True
    then have "a \<notin> set (map f xs)" using Cons.prems(1) by simp
    then have "map (\<lambda>i. if i = a then f d else i) (map f xs) = map f xs"
      by (intro map_idI) auto
    with True show ?thesis by simp
  next
    case False
    then show ?thesis using Cons by simp
  qed
qed simp

lemma intervene_cong:
  assumes "pd_definitions db = pd_definitions db2" "pd_session_agents db = pd_session_agents db2"
  shows "intervene db ws = intervene db2 ws" "initial_members db ws s = initial_members db2 ws s"
  using assms by (simp_all add: intervene_def initial_members_def get_definition_def fun_eq_iff)

text \<open>Every member is the registered definition of its identifier.\<close>

lemma intervene_registered:
  assumes "intervene db ws xs m = Inr ys" "\<forall>x \<in> set xs. get_definition db ws (ad_id x) = Some x"
    and "\<forall>i d. pd_definitions db i = Some d \<longrightarrow> ad_id d = i"
  shows "\<forall>x \<in> set ys. get_definition db ws (ad_id x) = Some x"
proof -
  obtain d where d: "get_definition db ws (mi_agent_definition_id m) = Some d"
    using assms(1) by (auto simp: intervene_def split: option.splits)
  then have "ad_id d = mi_agent_definition_id m"
    using assms(3) by (auto simp: get_definition_def split: option.splits if_splits)
  moreover have "set ys \<subseteq> insert d (set xs)"
    using assms(1) d set_update_subset_insert by (fastforce simp: intervene_def Let_def split: if_splits)
  ultimately show ?thesis using assms(2) d by auto
qed

lemma initial_registered:
  assumes "\<forall>i d. pd_definitions db i = Some d \<longrightarrow> ad_id d = i" "x \<in> set (initial_members db ws s)"
  shows "get_definition db ws (ad_id x) = Some x"
  using assms by (auto simp: initial_members_def List.map_filter_def get_definition_def split: option.splits if_splits)

lemma members_registered:
  assumes "\<forall>i d. pd_definitions db i = Some d \<longrightarrow> ad_id d = i" "membership db ws s n = Inr snap"
  shows "\<forall>x \<in> set (ss_definitions snap). get_definition db ws (ad_id x) = Some x"
proof -
  obtain ys where "efold (intervene db ws) (initial_members db ws s) (interventions_until db ws s n) = Inr ys"
    "ss_definitions snap = ys"
    using assms(2) by (auto simp: membership_def result_simps Let_def split: option.splits if_splits)
  then show ?thesis
    using efold_invariant [of "intervene db ws" _ _ ys "\<lambda>xs. \<forall>x \<in> set xs. get_definition db ws (ad_id x) = Some x"]
      intervene_registered [OF _ _ assms(1)] initial_registered [OF assms(1)] by blast
qed

lemma members_distinct:
  assumes "\<forall>i d. pd_definitions db i = Some d \<longrightarrow> ad_id d = i" "membership db ws s n = Inr snap"
  shows "distinct (map ad_id (ss_definitions snap))"
proof -
  have d: "distinct (map ad_logical_id (ss_definitions snap))"
    using assms(2) by (auto simp: membership_def result_simps one_version_per_logical_agent_def Let_def split: option.splits if_splits)
  have "inj_on ad_id (set (ss_definitions snap))"
    using members_registered [OF assms] by (metis inj_on_def option.inject)
  with d show ?thesis by (auto simp: distinct_map)
qed

lemma seq_below_head:
  assumes "ledger_wf l" "lg_heads l s = Some h" "get_by_id l ws s i = Some e"
  shows "le_ledger_seq e < lh_next_seq h"
proof -
  have "e \<in> set (rows_of l s)"
    using assms(3) event_by_id_SomeD [of l i e] by (auto simp: get_by_id_def rows_of_def split: option.splits if_splits)
  moreover have "chain 1 GENESIS_HASH (rows_of l s)" "lh_next_seq h = int (length (rows_of l s)) + 1"
    using assms(1,2) by (auto simp: ledger_wf_def head_ok_def)
  ultimately show ?thesis using chain_seq_bounds by fastforce
qed

text \<open>A new intervention with a fresh event: the tables it leaves.\<close>

lemma applied:
  assumes wf: "policy_wf db" and new: "get_intervention db (mi_event_id m) = None"
    and fresh: "event_by_id (pd_ledger db) (mi_event_id m) = None" and app: "apply_intervention db m = Inr (db', snap)"
  obtains v d old h where "intervention_refused db m v = Inr (d, old)"
    "sql_row (pd_lifecycle db) (mi_workspace_id m) (mi_session_id m) = Some v"
    "membership db' (mi_workspace_id m) (mi_session_id m) (mi_effective_round m) = Inr snap"
    "pd_interventions db' = pd_interventions db @ [m]" "pd_session_agents db' = pd_session_agents db"
    "pd_definitions (settled_db db') = pd_definitions (settled_db db)"
    "lg_heads (pd_ledger db) (mi_session_id m) = Some h" "intervention_seq db' m = Some (lh_next_seq h)"
    "\<And>x. x \<in> set (pd_interventions db) \<Longrightarrow> intervention_seq db' x = intervention_seq db x"
  using wf new app
proof (rule apply_new, goal_cases)
  case (1 v d old l x)
  let ?e = "intervention_event m d (sl_round v)"
  have e: "la_id ?e = mi_event_id m" "la_workspace_id ?e = mi_workspace_id m" "la_session_id ?e = mi_session_id m"
    by (simp_all add: intervention_event_def)
  have lw: "ledger_wf (pd_ledger db)" using wf by (simp add: policy_wf_def lifecycle_wf_def)
  obtain h where h: "lg_heads (pd_ledger db) (mi_session_id m) = Some h" "x = next_event h ?e" "l = with_event (pd_ledger db) h x"
    by (rule ledger_append_cases [OF lw 1(5,6)]) (use fresh e in auto)
  have db': "pd_interventions db' = pd_interventions db @ [m]" "pd_session_agents db' = pd_session_agents db" "pd_ledger db' = l"
    "pd_definitions (settled_db db') = pd_definitions (settled_db db)"
    using 1(7) new
    by (auto simp: add_intervention_def get_intervention_def settled_db_def settled_def fun_eq_iff split: option.splits if_splits)
  have seq: "intervention_seq db' y = intervention_seq db y" if "y \<in> set (pd_interventions db)" for y
  proof -
    have "mi_event_id y \<noteq> mi_event_id m" using that new by (auto simp: get_intervention_def find_None_iff)
    then show ?thesis
      using h(2,3) e(1) by (simp add: intervention_seq_def db'(3) get_by_id_def event_by_id_with_event split: option.splits)
  qed
  have "intervention_seq db' m = Some (lh_next_seq h)"
    using get_by_id_append(1) [OF lw 1(5,6)] e h(2) by (simp add: intervention_seq_def db'(3))
  with 1 db' h(1) seq show ?case by blast
qed

lemma sort_key_same:
  assumes "\<forall>x \<in> set xs. f x = g x"
  shows "sort_key f xs = sort_key g xs"
proof (rule properties_for_sort_key)
  show "filter (\<lambda>x. f k = f x) (sort_key g xs) = filter (\<lambda>x. f k = f x) xs" if "k \<in> set (sort_key g xs)" for k
  proof -
    have "filter (\<lambda>x. f k = f x) ys = filter (\<lambda>x. g x = g k) ys" if "set ys \<subseteq> set xs" for ys
      using that \<open>k \<in> set (sort_key g xs)\<close> assms by (intro filter_cong) auto
    then show ?thesis using sort_key_stable [of g "g k" xs] by simp
  qed
  have "map f (sort_key g xs) = map g (sort_key g xs)" using assms by (intro map_cong) auto
  then show "sorted (map f (sort_key g xs))" by (simp only: sorted_sort_key)
qed simp

lemma interventions_before:
  assumes "pd_interventions db' = pd_interventions db @ [m]" "\<And>x. x \<in> set (pd_interventions db) \<Longrightarrow> intervention_seq db' x = intervention_seq db x"
    and "(ws, s) \<noteq> (mi_workspace_id m, mi_session_id m) \<or> n < mi_effective_round m"
  shows "interventions_until db' ws s n = interventions_until db ws s n"
proof -
  have "filter (\<lambda>x. mi_workspace_id x = ws \<and> mi_session_id x = s \<and> mi_effective_round x \<le> n \<and> intervention_seq db' x \<noteq> None) (pd_interventions db) =
      filter (\<lambda>x. mi_workspace_id x = ws \<and> mi_session_id x = s \<and> mi_effective_round x \<le> n \<and> intervention_seq db x \<noteq> None) (pd_interventions db)"
    using assms(2) by (intro filter_cong) auto
  moreover have "sort_key (\<lambda>x. [mi_effective_round x, the (intervention_seq db' x)]) ys = sort_key (\<lambda>x. [mi_effective_round x, the (intervention_seq db x)]) ys"
    if "set ys \<subseteq> set (pd_interventions db)" for ys
    using that assms(2) by (intro sort_key_same) auto
  ultimately show ?thesis using assms(1,3) by (auto simp: interventions_until_def)
qed

lemma interventions_appended:
  assumes wf: "policy_wf db" and row: "sql_row (pd_lifecycle db) (mi_workspace_id m) (mi_session_id m) = Some v"
    and eff: "mi_effective_round m = sl_round v + 1"
    and head: "lg_heads (pd_ledger db) (mi_session_id m) = Some h"
    and db': "pd_interventions db' = pd_interventions db @ [m]" "intervention_seq db' m = Some (lh_next_seq h)"
      "\<And>x. x \<in> set (pd_interventions db) \<Longrightarrow> intervention_seq db' x = intervention_seq db x"
  shows "interventions_until db' (mi_workspace_id m) (mi_session_id m) (mi_effective_round m) =
    interventions_until db (mi_workspace_id m) (mi_session_id m) (mi_effective_round m) @ [m]"
proof -
  let ?P = "\<lambda>db x. mi_workspace_id x = mi_workspace_id m \<and> mi_session_id x = mi_session_id m \<and>
    mi_effective_round x \<le> mi_effective_round m \<and> intervention_seq db x \<noteq> None"
  let ?f = "\<lambda>db x. [mi_effective_round x, the (intervention_seq db x)]"
  have lw: "ledger_wf (pd_ledger db)" using wf by (simp add: policy_wf_def lifecycle_wf_def)
  have below: "?f db' x \<le> ?f db' m" if x: "x \<in> set (filter (?P db') (pd_interventions db))" for x
  proof -
    have p: "mi_workspace_id x = mi_workspace_id m" "mi_session_id x = mi_session_id m"
      "mi_effective_round x \<le> mi_effective_round m" "intervention_seq db x \<noteq> None" "intervention_seq db' x = intervention_seq db x"
      using x db'(3) by auto
    then obtain e where e: "get_by_id (pd_ledger db) (mi_workspace_id m) (mi_session_id m) (mi_event_id x) = Some e"
      "intervention_seq db x = Some (le_ledger_seq e)"
      by (auto simp: intervention_seq_def)
    have "le_ledger_seq e < lh_next_seq h" using seq_below_head [OF lw head e(1)] .
    then show ?thesis using p(3,5) e(2) db'(2) by auto
  qed
  have same: "filter (?P db') (pd_interventions db) = filter (?P db) (pd_interventions db)"
    using db'(3) by (intro filter_cong) auto
  have "sort_key (?f db') (filter (?P db) (pd_interventions db)) = sort_key (?f db) (filter (?P db) (pd_interventions db))"
    using db'(3) by (intro sort_key_same) auto
  moreover have "sort_key (?f db') (filter (?P db') (pd_interventions db) @ [m]) = sort_key (?f db') (filter (?P db') (pd_interventions db)) @ [m]"
    by (rule sort_key_snoc, rule ballI, rule below)
  moreover have "filter (?P db') [m] = [m]" using db'(2) by simp
  ultimately show ?thesis unfolding interventions_until_def db'(1) filter_append same by (simp only:)
qed

text \<open>The membership after a new intervention, and what it leaves of every other round.\<close>

lemma applied_members:
  assumes wf: "policy_wf db" and new: "get_intervention db (mi_event_id m) = None"
    and fresh: "event_by_id (pd_ledger db) (mi_event_id m) = None" and shape: "replacement_shape m"
    and app: "apply_intervention db m = Inr (db', snap)"
  obtains old where "membership db (mi_workspace_id m) (mi_session_id m) (mi_effective_round m) = Inr old"
    "map ad_id (ss_definitions snap) = intervention_effect m (map ad_id (ss_definitions old))"
    "\<And>ws s n. (ws, s) \<noteq> (mi_workspace_id m, mi_session_id m) \<or> n < mi_effective_round m \<Longrightarrow>
       rmap settled_snapshot (membership db' ws s n) = rmap settled_snapshot (membership db ws s n)"
  using wf new fresh app
proof (rule applied, goal_cases)
  case (1 v d old h)
  let ?ws = "mi_workspace_id m" and ?s = "mi_session_id m" and ?n = "mi_effective_round m"
  have ids: "\<forall>i d. pd_definitions db i = Some d \<longrightarrow> ad_id d = i" using wf by (simp add: policy_wf_def)
  have r: "?n = sl_round v + 1" "get_definition db ?ws (mi_agent_definition_id m) = Some d" "membership db ?ws ?s ?n = Inr old"
    "mi_kind m = REPLACE \<longrightarrow> (\<exists>y \<in> set (ss_definitions old). Some (ad_id y) = mi_replaced_agent_definition_id m)"
    using refused_Inr [OF 1(2)] by auto
  have did: "ad_id d = mi_agent_definition_id m"
    using r(2) ids by (auto simp: get_definition_def split: option.splits if_splits)
  have agents: "pd_session_agents (settled_db db') = pd_session_agents (settled_db db)"
    using 1(6) by (simp add: settled_db_def)
  note cong = intervene_cong [OF 1(7) agents]
  have other: "rmap settled_snapshot (membership db' ws s n) = rmap settled_snapshot (membership db ws s n)"
    if "(ws, s) \<noteq> (?ws, ?s) \<or> n < ?n" for ws s n
  proof -
    have "interventions_until db' ws s n = interventions_until db ws s n"
      using that by (intro interventions_before [OF 1(5,10)]) auto
    then have "membership (settled_db db') ws s n = membership (settled_db db) ws s n"
      by (simp add: membership_def cong interventions_settled)
    then show ?thesis by (simp add: membership_settled)
  qed
  have e_old: "efold (intervene db ?ws) (initial_members db ?ws ?s) (interventions_until db ?ws ?s ?n) = Inr (ss_definitions old)"
    using r(3) by (auto simp: membership_def result_simps Let_def split: option.splits if_splits)
  have "efold (intervene db' ?ws) (initial_members db' ?ws ?s) (interventions_until db' ?ws ?s ?n) = Inr (ss_definitions snap)"
    using 1(4) by (auto simp: membership_def result_simps Let_def split: option.splits if_splits)
  then have "efold (intervene (settled_db db') ?ws) (initial_members (settled_db db') ?ws ?s) (interventions_until db' ?ws ?s ?n) =
      Inr (map settled (ss_definitions snap))"
    by (simp add: initial_settled efold_settled)
  moreover have "interventions_until db' ?ws ?s ?n = interventions_until db ?ws ?s ?n @ [m]"
    by (rule interventions_appended [OF wf 1(3) r(1) 1(8,5,9,10)])
  moreover have "efold (intervene (settled_db db) ?ws) (initial_members (settled_db db) ?ws ?s) (interventions_until db ?ws ?s ?n) =
      Inr (map settled (ss_definitions old))"
    using e_old by (simp add: initial_settled efold_settled)
  ultimately have "intervene (settled_db db) ?ws (map settled (ss_definitions old)) m = Inr (map settled (ss_definitions snap))"
    by (simp add: cong efold_snoc)
  then have step: "rmap (map settled) (intervene db ?ws (ss_definitions old) m) = Inr (map settled (ss_definitions snap))"
    by (simp add: intervene_settled)
  then obtain ys where ys: "intervene db ?ws (ss_definitions old) m = Inr ys" "map settled ys = map settled (ss_definitions snap)"
    by (cases "intervene db ?ws (ss_definitions old) m") auto
  have "map ad_id ys = map ad_id (map settled ys)" by simp
  then have "map ad_id (ss_definitions snap) = map ad_id ys" using ys(2) by simp
  moreover have "map ad_id ys = intervention_effect m (map ad_id (ss_definitions old))"
  proof (cases "mi_kind m")
    case REPLACE
    then obtain y where y: "y \<in> set (ss_definitions old)" "mi_replaced_agent_definition_id m = Some (ad_id y)" using r(4) by auto
    have "ys = (ss_definitions old)[length (takeWhile (\<lambda>x. ad_id x \<noteq> ad_id y) (ss_definitions old)) := d]"
      using ys(1) r(2) REPLACE y(2) by (auto simp: intervene_def Let_def split: if_splits)
    then show ?thesis
      using update_first [OF members_distinct [OF ids r(3)], of "ad_id y" d] y did REPLACE
      by (simp add: intervention_effect_def)
  next
    case INJECT
    then show ?thesis using ys(1) r(2) did by (auto simp: intervene_def intervention_effect_def)
  qed
  ultimately have "map ad_id (ss_definitions snap) = intervention_effect m (map ad_id (ss_definitions old))" by simp
  from 1(1) [OF r(3) this other] show ?case .
qed

subsection \<open>Budgets\<close>

lemma breach_of_None: "breach_of scope a u c = None \<longleftrightarrow> within_budget u c"
  by (auto simp: breach_of_def within_budget_def split: option.splits)

lemma breach_case_None:
  "(case breach_of scope a u c of None \<Rightarrow> r | Some b \<Rightarrow> Inr (Some b)) = Inr None \<longleftrightarrow> within_budget u c \<and> r = Inr None"
  using breach_of_None [of scope a u c] by (cases "breach_of scope a u c") auto

lemma agents_breach_None:
  "agents_breach db ws s agents = Inr None \<Longrightarrow> a \<in> set agents \<Longrightarrow>
     \<exists>u c. usage db ws s (Some a) = Inr u \<and> agent_ceiling db ws a = Inr c \<and> within_budget u c"
  by (induction agents) (auto simp: ebind_eq_Inr_iff breach_case_None)

lemma first_occurrences_set [simp]: "set (first_occurrences xs) = set xs"
  by (simp add: first_occurrences_def)

lemma find_breach_None:
  assumes "find_breach db (bk_workspace_id k) (bk_session_id k) (bk_agents k) = Inr None"
  shows "spends_within db k"
proof -
  obtain u c where u: "usage db (bk_workspace_id k) (bk_session_id k) None = Inr u"
    "session_ceiling db (bk_workspace_id k) (bk_session_id k) = Inr c" "within_budget u c"
    "agents_breach db (bk_workspace_id k) (bk_session_id k) (first_occurrences (bk_agents k)) = Inr None"
    using assms by (auto simp: find_breach_def ebind_eq_Inr_iff breach_case_None)
  have "case (usage db (bk_workspace_id k) (bk_session_id k) (Some a), agent_ceiling db (bk_workspace_id k) a) of
      (Inr u, Inr c) \<Rightarrow> within_budget u c | _ \<Rightarrow> False" if "a \<in> set (bk_agents k)" for a
    using agents_breach_None [OF u(4), of a] that by auto
  then show ?thesis using u(1-3) by (simp add: spends_within_def list_all_iff)
qed

lemma enforce_within:
  assumes "enforce db k = Inr Within"
  shows "spends_within db k"
proof -
  obtain v where g: "sql_get (pd_lifecycle db) (bk_workspace_id k) (bk_session_id k) = Inr (Some v)"
    using assms by (auto simp: enforce_def ebind_eq_Inr_iff split: option.splits)
  obtain r where r: "find_breach db (bk_workspace_id k) (bk_session_id k) (bk_agents k) = Inr r"
    using assms g by (auto simp: enforce_def ebind_eq_Inr_iff split: if_splits)
  have "r = None"
    using assms g r by (cases r) (auto simp: enforce_def ebind_eq_Inr_iff split: if_splits)
  then show ?thesis using find_breach_None r by simp
qed

lemma dec_text_scalar: "list_all scalar (dec_text n)"
  using dec_text_digits [of n] by (auto simp: list_all_iff Canonical_Json.is_digit_def intro!: scalar_ascii)

lemma pydecimal_text_scalar: "list_all scalar (pydecimal_text d)"
  using dec_text_scalar unfolding pydecimal_text_def Let_def
  by (auto simp: list_all_iff scalar_ascii dest: in_set_takeD in_set_dropD)

lemma optional_juuid_scalars: "scalars (optional_juuid u)"
  by (simp add: optional_juuid_def juuid_scalars split: option.splits)

lemma budget_step_simps [simp]:
  "st_source (budget_step k v b) = sl_state v" "st_target (budget_step k v b) = FAILED" "st_round (budget_step k v b) = sl_round v"
  "st_allow_same_state (budget_step k v b) = False" "la_id (st_event (budget_step k v b)) = bk_event_id k"
  "la_workspace_id (st_event (budget_step k v b)) = bk_workspace_id k" "la_session_id (st_event (budget_step k v b)) = bk_session_id k"
  "la_recorded_at (st_event (budget_step k v b)) = bk_checked_at k" "la_round (st_event (budget_step k v b)) = sl_round v"
  by (simp_all add: budget_step_def split: prod.splits)

lemma budget_step_valid:
  assumes "0 \<le> sl_round v" "datetime_valid (bk_checked_at k)" "sl_state v \<noteq> FAILED"
  shows "SessionTransition_valid (budget_step k v b)"
proof -
  obtain scope a u c where b: "b = (scope, a, u, c)" by (cases b)
  let ?e = "st_event (budget_step k v b)"
  have p: "scalars (la_payload ?e)" "list_all scalar (la_event_type ?e)"
    unfolding b budget_step_def by (simp_all add: scalars_object ustr_scalar optional_juuid_scalars pydecimal_text_scalar del: scalars.simps)
      (simp_all add: ustr_scalar optional_juuid_scalars pydecimal_text_scalar)
  have "is_object (la_payload ?e)" "la_event_type ?e \<noteq> []" "\<not> u_blank (la_event_type ?e)" "la_payload_schema_version ?e = 1"
    unfolding b budget_step_def by (simp_all add: ustr_def u_blank_def u_isspace_def)
  then have "LedgerAppend_valid ?e" using p assms by (simp add: LedgerAppend_valid_def)
  then show ?thesis using assms by (simp add: SessionTransition_valid_def event_matches_transition_def)
qed

lemma failed_in_transitions: "\<not> terminal s \<Longrightarrow> FAILED \<in> set (TRANSITIONS s)"
  by (cases s) simp_all

lemma enforce_stops:
  assumes wf: "policy_wf db" and row: "sql_row (pd_lifecycle db) (bk_workspace_id k) (bk_session_id k) = Some v"
    and live: "\<not> terminal (sl_state v)"
    and breach: "find_breach db (bk_workspace_id k) (bk_session_id k) (bk_agents k) = Inr (Some b)"
    and fresh: "event_by_id (pd_ledger db) (bk_event_id k) = None"
    and time: "datetime_valid (bk_checked_at k)" "\<not> dt_less (bk_checked_at k) (sl_created_at v)"
  obtains db' v' where "enforce db k = Inr (Exhausted db' v')" "sl_state v' = FAILED" "sl_ended_at v' = Some (bk_checked_at k)"
    "get_by_id (pd_ledger db') (bk_workspace_id k) (bk_session_id k) (bk_event_id k) \<noteq> None" "enforce db' k = Inr (Exhausted db' v')"
proof -
  let ?c = "budget_step k v b"
  have lwf: "lifecycle_wf (pd_lifecycle db)" using wf by (simp add: policy_wf_def)
  have lw: "ledger_wf (pd_ledger db)" using lwf by (simp add: lifecycle_wf_def)
  have "0 \<le> sl_round v" using sql_row_wf [OF lwf row] by (simp add: row_ok_def SessionLifecycle_valid_def)
  moreover have nf: "sl_state v \<noteq> FAILED" using live by auto
  ultimately have c: "SessionTransition_valid ?c" using time(1) by (simp add: budget_step_valid)
  have row': "sql_row (pd_lifecycle db) (la_workspace_id (st_event ?c)) (la_session_id (st_event ?c)) = Some v" using row by simp
  have val: "validate_session_transition (sl_state v) (st_target ?c) (sl_round v) (st_round ?c) (st_allow_same_state ?c) = Inr ()"
    using failed_in_transitions [OF live] nf by (simp add: validate_Inr_iff)
  obtain l x where a: "ledger_append (pd_ledger db) (st_event ?c) = Inr (l, x)"
    "sql_transition (pd_lifecycle db) ?c = Inr ((pd_lifecycle db)\<lparr>ld_ledger := l, ld_rows := (ld_rows (pd_lifecycle db))
       (sl_session_id v \<mapsto> transition_changes ?c v)\<rparr>, transition_changes ?c v)" (is "_ = Inr (?l, ?v)")
    by (rule transition_accepted [OF lwf c row' _ val]) (use fresh time in auto)
  have e1: "enforce db k = Inr (Exhausted (db\<lparr>pd_lifecycle := ?l\<rparr>) ?v)"
    using a(2) c row live breach by (simp add: enforce_def sql_get_row [OF lwf] transition_checked_def SessionTransition_valid_def)
  have "lifecycle_wf ?l" using sql_transition_wf [OF lwf c a(2)] .
  moreover have "sql_row ?l (bk_workspace_id k) (bk_session_id k) = Some ?v"
    using sql.transition_found [OF lwf c a(2)] by simp
  ultimately have e2: "enforce (db\<lparr>pd_lifecycle := ?l\<rparr>) k = Inr (Exhausted (db\<lparr>pd_lifecycle := ?l\<rparr>) ?v)"
    by (simp add: enforce_def sql_get_row)
  have "LedgerAppend_valid (st_event ?c)" using c by (simp add: SessionTransition_valid_def)
  from get_by_id_append(1) [OF lw this a(1)]
  have "get_by_id (pd_ledger (db\<lparr>pd_lifecycle := ?l\<rparr>)) (bk_workspace_id k) (bk_session_id k) (bk_event_id k) \<noteq> None" by simp
  with e1 e2 show ?thesis by (intro that) (simp_all add: transition_changes_times)
qed

end
