(* ===== verification/Coordinator_Properties.thy ===== *)
theory Coordinator_Properties
  imports Session_Properties Coordinator_Policy
begin

text \<open>
  The properties of the coordinator's policy: what an intervention does to the membership of the
  coming round and of every other, and that no turn is dispatched past a budget. The sample is the
  draft session of the sample lifecycle with two agents and one recorded call.
\<close>

subsection \<open>A sample store\<close>

definition sample_agent :: "uuid \<Rightarrow> AgentDefinition" where
  "sample_agent i = \<lparr>ad_id = i, ad_workspace_id = 1, ad_logical_id = i + 10, ad_version = 1, ad_name = [97],
     ad_domain = [98], ad_role_kind = DOMAIN_EXPERT, ad_objectives = [], ad_constraints = [], ad_knowledge_ns = [],
     ad_strategy_ref = [], ad_strategy_ver = [], ad_prompt_ref = [], ad_prompt_hash = [], ad_llm_config_id = None,
     ad_tool_perms = [], ad_budget = [], ad_status = ACTIVE, ad_superseded_by = None, ad_referenced_at = None,
     ad_created_at = None, ad_updated_at = None\<rparr>"

definition sample_budget :: session_budget where
  "sample_budget = \<lparr>sb_workspace_id = 1, sb_budget_tokens = 10, sb_budget_usd_coeff = 100\<rparr>"

definition sample_call :: call_record where
  "sample_call = \<lparr>cr_workspace_id = 1, cr_session_id = Some 2, cr_agent_def_id = Some 50, cr_input_tokens = 7,
     cr_output_tokens = 5, cr_cost_coeff = 3\<rparr>"

definition policy_start :: policy_db where
  "policy_start = \<lparr>pd_lifecycle = draft_db, pd_definitions = [50 \<mapsto> sample_agent 50, 51 \<mapsto> sample_agent 51],
     pd_session_agents = [\<lparr>sa_workspace_id = 1, sa_session_id = 2, sa_agent_def_id = 50, sa_bound_at = sample_time\<rparr>],
     pd_interventions = [], pd_calls = [], pd_sessions = [2 \<mapsto> sample_budget]\<rparr>"

definition overspent :: policy_db where
  "overspent = policy_start\<lparr>pd_calls := [sample_call]\<rparr>"

definition sample_check :: budget_check where
  "sample_check = \<lparr>bk_workspace_id = 1, bk_session_id = 2, bk_agents = [50], bk_event_id = 70, bk_correlation_id = 9,
     bk_actor_id = 5, bk_checked_at = sample_time\<rparr>"

definition sample_replacement :: MembershipIntervention where
  "sample_replacement = \<lparr>mi_event_id = 71, mi_workspace_id = 1, mi_session_id = 2, mi_kind = REPLACE,
     mi_replaced_agent_definition_id = Some 50, mi_agent_definition_id = 51, mi_effective_round = 1, mi_actor_id = 4,
     mi_correlation_id = 9, mi_reason = [120], mi_recorded_at = sample_time\<rparr>"

lemma policy_start_reachable: "policy_reachable policy_start"
proof -
  have "create_session_ledger_head empty_ledger 1 2 = Inr sample_start"
    by (simp add: create_session_ledger_head_def empty_ledger_def sample_start_def sample_head_def)
  with policy_reachable.session [OF policy_reachable.empty, of 1 2 sample_start sample_budget]
  have 1: "policy_reachable \<lparr>pd_lifecycle = \<lparr>ld_ledger = sample_start, ld_rows = Map.empty\<rparr>, pd_definitions = Map.empty,
      pd_session_agents = [], pd_interventions = [], pd_calls = [], pd_sessions = [2 \<mapsto> sample_budget]\<rparr>" by simp
  from policy_reachable.draft [OF this, of 1 2 sample_time draft_db] draft_added
  have "policy_reachable \<lparr>pd_lifecycle = draft_db, pd_definitions = Map.empty,
      pd_session_agents = [], pd_interventions = [], pd_calls = [], pd_sessions = [2 \<mapsto> sample_budget]\<rparr>" by simp
  from policy_reachable.agent [OF policy_reachable.agent [OF this, of "sample_agent 50"], of "sample_agent 51"]
  have "policy_reachable \<lparr>pd_lifecycle = draft_db, pd_definitions = [50 \<mapsto> sample_agent 50, 51 \<mapsto> sample_agent 51],
      pd_session_agents = [], pd_interventions = [], pd_calls = [], pd_sessions = [2 \<mapsto> sample_budget]\<rparr>"
    by (simp add: sample_agent_def)
  from policy_reachable.member [OF this] show ?thesis by (simp add: policy_start_def)
qed

lemma overspent_reachable: "policy_reachable overspent"
  using policy_reachable.call [OF policy_start_reachable, of sample_call] by (simp add: overspent_def policy_start_def)

subsection \<open>Membership\<close>

lemma sample_event_valid: "LedgerAppend_valid (intervention_event sample_replacement (sample_agent 51) 0)"
proof -
  let ?e = "intervention_event sample_replacement (sample_agent 51) 0"
  have "la_event_type ?e = ustr ''SESSION_AGENT_REPLACED''" "la_round ?e = 0" "la_payload_schema_version ?e = 1" "la_recorded_at ?e = sample_time"
    by (simp_all add: intervention_event_def sample_replacement_def)
  moreover have "scalars (la_payload ?e)" "is_object (la_payload ?e)"
    unfolding intervention_event_def
    by (simp_all add: scalars_object ustr_scalar juuid_scalars optional_juuid_scalars del: scalars.simps)
      (simp_all add: ustr_scalar juuid_scalars optional_juuid_scalars sample_replacement_def scalar_ascii, simp add: ustr_def)
  ultimately show ?thesis
    by (simp add: LedgerAppend_valid_def sample_clock ustr_scalar) (simp add: ustr_def u_blank_def u_isspace_def)
qed

lemma sample_replaced: "\<exists>db' snap. apply_intervention policy_start sample_replacement = Inr (db', snap)"
proof -
  let ?e = "intervention_event sample_replacement (sample_agent 51) 0"
  let ?m = sample_replacement
  have m: "mi_event_id ?m = 71" "mi_workspace_id ?m = 1" "mi_session_id ?m = 2" "mi_kind ?m = REPLACE"
    "mi_replaced_agent_definition_id ?m = Some 50" "mi_agent_definition_id ?m = 51" "mi_effective_round ?m = 1" "mi_reason ?m = [120]"
    by (simp_all add: sample_replacement_def)
  have e: "la_id ?e = 71" "la_workspace_id ?e = 1" "la_session_id ?e = 2"
    by (simp_all add: intervention_event_def m)
  have lw: "ledger_wf (pd_ledger policy_start)"
    using policy_reachable_wf [OF policy_start_reachable] by (simp add: policy_wf_def lifecycle_wf_def)
  have head: "lg_heads (pd_ledger policy_start) 2 = Some sample_head" "event_by_id (pd_ledger policy_start) 71 = None"
    by (simp_all add: policy_start_def draft_db_def sample_start_def event_by_id_def empty_ledger_def)
  have app: "ledger_append (pd_ledger policy_start) ?e =
      Inr (with_event (pd_ledger policy_start) sample_head (next_event sample_head ?e), next_event sample_head ?e)" (is "_ = Inr (?l, ?x)")
    by (rule append_new [OF lw sample_event_valid]) (simp_all add: e head, simp add: sample_head_def)
  have row: "sql_get (pd_lifecycle policy_start) 1 2 = Inr (Some (new_draft 1 2 sample_time))"
    using sql_get_row [of draft_db 1 2] lifecycle_reachable_wf [OF draft_reachable] draft_row by (simp add: policy_start_def)
  have defs: "get_definition policy_start 1 50 = Some (sample_agent 50)" "get_definition policy_start 1 51 = Some (sample_agent 51)"
    by (simp_all add: get_definition_def policy_start_def sample_agent_def)
  have old: "membership policy_start 1 2 1 = Inr \<lparr>ss_workspace_id = 1, ss_session_id = 2, ss_round = 1, ss_definitions = [sample_agent 50]\<rparr>"
    by (simp add: membership_def initial_members_def interventions_until_def one_version_per_logical_agent_def Let_def)
      (simp add: policy_start_def get_definition_def sample_agent_def map_filter_simps)
  have ref: "intervention_refused policy_start ?m (new_draft 1 2 sample_time) =
      Inr (sample_agent 51, \<lparr>ss_workspace_id = 1, ss_session_id = 2, ss_round = 1, ss_definitions = [sample_agent 50]\<rparr>)"
    by (simp add: intervention_refused_def m defs old new_draft_def) (auto simp: sample_agent_def)
  let ?db1 = "policy_start\<lparr>pd_lifecycle := (pd_lifecycle policy_start)\<lparr>ld_ledger := ?l\<rparr>\<rparr>"
  have found: "get_by_id ?l 1 2 71 = Some ?x"
    using get_by_id_append(1) [OF lw sample_event_valid app] by (simp add: e)
  have "session_exists ?l 1 2"
    using get_by_id_append(3) [OF lw sample_event_valid app] head by (simp add: session_exists_def sample_head_def)
  then have "intervention_checks ?db1 ?m"
    by (simp add: intervention_checks_def m found replacement_shape_def) (simp add: policy_start_def get_definition_def sample_agent_def)
  then obtain db' where add: "add_intervention ?db1 ?m = Inr db'" and db': "pd_interventions db' = [?m]" "pd_ledger db' = ?l"
    "get_definition db' 1 50 = Some (sample_agent 50)" "\<exists>d. get_definition db' 1 51 = Some d \<and> ad_logical_id d = 61 \<and> ad_workspace_id d = 1"
    "pd_session_agents db' = pd_session_agents policy_start"
    by (simp add: add_intervention_def get_intervention_def policy_start_def get_definition_def m)
      (simp add: sample_agent_def)
  have "interventions_until db' 1 2 1 = [?m]"
    by (simp add: interventions_until_def db' m intervention_seq_def found)
  moreover have "initial_members db' 1 2 = [sample_agent 50]"
    by (simp add: initial_members_def db'(3,5)) (simp add: policy_start_def map_filter_simps db'(3))
  ultimately obtain snap where snap: "membership db' 1 2 1 = Inr snap"
    using db'(4) by (auto simp: membership_def intervene_def m one_version_per_logical_agent_def sample_agent_def)
  have "get_intervention policy_start 71 = None" by (simp add: get_intervention_def policy_start_def)
  moreover have "sl_state (new_draft 1 2 sample_time) = DRAFT" "sl_round (new_draft 1 2 sample_time) = 0"
    by (simp_all add: new_draft_def)
  ultimately have "apply_intervention policy_start ?m = Inr (db', snap)"
    using row ref sample_event_valid app add snap by (simp add: apply_intervention_def m Let_def)
  then show ?thesis by blast
qed

text \<open>C23. An accepted new intervention changes the membership of its effective round exactly as it says, replacing
  the one member or adding one at the end, and leaves every earlier round and every other session as they were.\<close>

theorem intervention_applied:
  assumes "policy_reachable db" "MembershipIntervention_valid m" "get_intervention db (mi_event_id m) = None"
    and "event_by_id (pd_ledger db) (mi_event_id m) = None" "apply_intervention db m = Inr (db', snap)"
  shows "(\<exists>old. membership db (mi_workspace_id m) (mi_session_id m) (mi_effective_round m) = Inr old \<and>
      map ad_id (ss_definitions snap) = intervention_effect m (map ad_id (ss_definitions old))) \<and>
    (\<forall>ws s n. (ws, s) \<noteq> (mi_workspace_id m, mi_session_id m) \<or> n < mi_effective_round m \<longrightarrow>
      rmap settled_snapshot (membership db' ws s n) = rmap settled_snapshot (membership db ws s n))"
proof -
  have "replacement_shape m" using assms(2) by (simp add: MembershipIntervention_valid_def)
  from applied_members [OF policy_reachable_wf [OF assms(1)] assms(3,4) this assms(5)] show ?thesis by metis
qed

theorem intervention_applied_witness:
  "\<exists>db' snap. apply_intervention policy_start sample_replacement = Inr (db', snap) \<and> map ad_id (ss_definitions snap) = [51]"
proof -
  obtain db' snap where a: "apply_intervention policy_start sample_replacement = Inr (db', snap)" using sample_replaced by blast
  have v: "MembershipIntervention_valid sample_replacement"
    using sample_clock by (simp add: MembershipIntervention_valid_def replacement_shape_def sample_replacement_def scalar_ascii
        u_blank_def u_isspace_def)
  have f: "get_intervention policy_start (mi_event_id sample_replacement) = None"
    "event_by_id (pd_ledger policy_start) (mi_event_id sample_replacement) = None"
    by (simp_all add: get_intervention_def policy_start_def draft_db_def sample_start_def event_by_id_def empty_ledger_def)
  have m: "mi_workspace_id sample_replacement = 1" "mi_session_id sample_replacement = 2" "mi_effective_round sample_replacement = 1"
    by (simp_all add: sample_replacement_def)
  from intervention_applied [OF policy_start_reachable v f a] obtain old where o: "membership policy_start 1 2 1 = Inr old"
    "map ad_id (ss_definitions snap) = intervention_effect sample_replacement (map ad_id (ss_definitions old))"
    unfolding m by blast
  have "old = \<lparr>ss_workspace_id = 1, ss_session_id = 2, ss_round = 1, ss_definitions = [sample_agent 50]\<rparr>"
    using o(1) by (simp add: membership_def initial_members_def interventions_until_def one_version_per_logical_agent_def Let_def)
      (simp add: policy_start_def get_definition_def sample_agent_def map_filter_simps)
  then have "map ad_id (ss_definitions snap) = [51]"
    using o(2) by (simp add: intervention_effect_def sample_replacement_def sample_agent_def)
  with a show ?thesis by auto
qed

subsection \<open>Budgets\<close>

text \<open>Turns are dispatched, and their outcomes handed on, only while the recorded spending of the session and of
  each agent taking part is strictly below every ceiling, before the dispatch and after it.\<close>

theorem dispatch_within_budget:
  assumes "budgeted_dispatch dispatch db k = Inr (Outcomes db' outcomes)"
  shows "spends_within db k \<and> spends_within db' k \<and> dispatch db = Inr (db', outcomes)"
proof -
  obtain e where e: "enforce db k = Inr e" "bk_agents k \<noteq> []"
    using assms by (auto simp: budgeted_dispatch_def ebind_eq_Inr_iff split: if_splits)
  then have w: "e = Within" using assms by (cases e) (auto simp: budgeted_dispatch_def)
  then obtain db1 o1 where d: "dispatch db = Inr (db1, o1)"
    using assms e by (auto simp: budgeted_dispatch_def ebind_eq_Inr_iff)
  then obtain e' where e': "enforce db1 k = Inr e'"
    using assms e w by (auto simp: budgeted_dispatch_def ebind_eq_Inr_iff)
  then have "enforce db k = Inr Within \<and> enforce db' k = Inr Within \<and> dispatch db = Inr (db', outcomes)"
    using assms e w d by (cases e') (auto simp: budgeted_dispatch_def)
  then show ?thesis using enforce_within by blast
qed

theorem dispatch_within_budget_witness:
  "spends_within policy_start sample_check"
proof -
  have row: "sql_get (pd_lifecycle policy_start) 1 2 = Inr (Some (new_draft 1 2 sample_time))"
    using sql_get_row [of draft_db 1 2] lifecycle_reachable_wf [OF draft_reachable] draft_row by (simp add: policy_start_def)
  have d: "get_definition policy_start 1 50 = Some (sample_agent 50)" "ad_budget (sample_agent 50) = []"
    "pd_calls policy_start = []" "pd_sessions policy_start 2 = Some sample_budget"
    by (simp_all add: get_definition_def policy_start_def sample_agent_def)
  have one: "first_occurrences [50 :: uuid] = [50]" by (simp add: first_occurrences_def)
  have "find_breach policy_start 1 2 [50] = Inr None"
    by (simp add: find_breach_def usage_def session_ceiling_def agent_ceiling_def d one breach_of_def)
      (simp add: sample_budget_def ceiling_checked_def dc_value_def bu_tokens_def pow10_def one usage_def agent_ceiling_def d breach_of_def)
  then have "enforce policy_start sample_check = Inr Within"
    using row by (simp add: enforce_def sample_check_def new_draft_def)
  then have "budgeted_dispatch (\<lambda>db. Inr (db, ())) policy_start sample_check = Inr (Outcomes policy_start ())"
    by (simp add: budgeted_dispatch_def) (simp add: sample_check_def)
  from dispatch_within_budget [OF this] show ?thesis by simp
qed

text \<open>C15. When a ceiling is reached in a session that has not ended, no turn is dispatched: the session fails at the
  time of the check with the event recorded, and the check gives the same answer when it is repeated.\<close>

theorem exhausted_session_stops:
  assumes "policy_reachable db" "sql_row (pd_lifecycle db) (bk_workspace_id k) (bk_session_id k) = Some v" "\<not> terminal (sl_state v)"
    and "find_breach db (bk_workspace_id k) (bk_session_id k) (bk_agents k) = Inr (Some b)"
    and "event_by_id (pd_ledger db) (bk_event_id k) = None" "datetime_valid (bk_checked_at k)"
    and "\<not> dt_less (bk_checked_at k) (sl_created_at v)" "bk_agents k \<noteq> []"
  shows "\<exists>db' v'. budgeted_dispatch dispatch db k = Inr (Stopped db' v') \<and> sl_state v' = FAILED \<and>
    sl_ended_at v' = Some (bk_checked_at k) \<and>
    get_by_id (pd_ledger db') (bk_workspace_id k) (bk_session_id k) (bk_event_id k) \<noteq> None \<and>
    enforce db' k = Inr (Exhausted db' v')"
proof -
  obtain db' v' where "enforce db k = Inr (Exhausted db' v')" "sl_state v' = FAILED" "sl_ended_at v' = Some (bk_checked_at k)"
    "get_by_id (pd_ledger db') (bk_workspace_id k) (bk_session_id k) (bk_event_id k) \<noteq> None" "enforce db' k = Inr (Exhausted db' v')"
    by (rule enforce_stops [OF policy_reachable_wf [OF assms(1)] assms(2-7)])
  then show ?thesis using assms(8) by (auto simp: budgeted_dispatch_def)
qed

theorem exhausted_session_stops_witness:
  "\<exists>db' v'. budgeted_dispatch (\<lambda>db. Inr (db, ())) overspent sample_check = Inr (Stopped db' v') \<and> sl_state v' = FAILED"
proof -
  have row: "sql_row (pd_lifecycle overspent) 1 2 = Some (new_draft 1 2 sample_time)"
    using draft_row by (simp add: overspent_def policy_start_def)
  have d: "pd_calls overspent = [sample_call]" "pd_sessions overspent 2 = Some sample_budget" "event_by_id (pd_ledger overspent) 70 = None"
    by (simp_all add: overspent_def policy_start_def draft_db_def sample_start_def event_by_id_def empty_ledger_def)
  obtain b where "find_breach overspent 1 2 [50] = Inr (Some b)"
    by (simp add: find_breach_def usage_def session_ceiling_def d breach_of_def)
      (simp add: sample_budget_def sample_call_def ceiling_checked_def bu_tokens_def)
  then show ?thesis
    using exhausted_session_stops [OF overspent_reachable, of sample_check "new_draft 1 2 sample_time" b "\<lambda>db. Inr (db, ())"] row d(3) sample_clock
    by (auto simp: sample_check_def new_draft_def dt_less_def)
qed

subsection \<open>Types of recorded events\<close>

text \<open>C37. Every transition that the workflow derives from a valid control command is a well-typed lifecycle command:
  its event is a valid ledger append of the same round whose payload has a content hash.\<close>

theorem control_events_typed:
  assumes "SessionControlCommand_valid c" "control_transition c st n = Inr t"
  shows "SessionTransition_valid (control_step t) \<and> la_round (st_event (control_step t)) = n \<and>
    (\<exists>h. ledger_payload_hash (la_payload (st_event (control_step t))) = Inr h \<and> is_sha256 h)"
proof -
  note t = control_transition_Inr [OF assms(2)]
  have v: "SessionTransition_valid (control_step t)" using control_step_valid assms(1) t by simp
  then have "scalars (la_payload (control_event t))" by (simp add: SessionTransition_valid_def LedgerAppend_valid_def)
  then show ?thesis
    using v t ledger_payload_hash_valid digests_valid(1) by (simp add: SessionTransition_valid_def event_matches_transition_def)
qed

theorem control_events_typed_witness:
  "\<exists>t. control_transition cancel_command RUNNING 3 = Inr t \<and> SessionTransition_valid (control_step t)"
proof -
  have "control_transition cancel_command RUNNING 3 =
      Inr \<lparr>ct_command = cancel_command, ct_source = RUNNING, ct_target = CANCELLED, ct_round = 3\<rparr>"
    by (simp add: control_transition_def cancel_command_def validate_session_transition_def)
  moreover have "SessionControlCommand_valid cancel_command" using cancel_own by (simp add: own_command_def)
  ultimately show ?thesis using control_events_typed by blast
qed

end
