(* ===== verification/Reasoning_Artifacts.thy ===== *)
theory Reasoning_Artifacts
  imports Reasoning_Ledger
begin

text \<open>
  The artifacts of \<^verbatim>\<open>app/domain/reasoning.py\<close>: the enumerations, the payload of each kind with its
  validators, the envelope with its invariants and content hash; and the check constraints of the
  artifact table in \<^verbatim>\<open>alembic/versions/20260905_0005_reasoning_schema.py\<close>, as they read the row of an
  artifact. A text is the list of its code points. A time that is only recorded and hashed (when a
  source was retrieved) is the text it is serialised to.
\<close>

subsection \<open>Enumerations\<close>

datatype ArtifactKind = CLAIM | FACT | ASSUMPTION | INFERENCE | PROPOSITION | EVIDENCE
  | UNCERTAINTY | RISK | IMPACT | OBJECTIVE | CONSTRAINT | ALTERNATIVE | POSITION | CRITIQUE

fun kind_value :: "ArtifactKind \<Rightarrow> string" where
  "kind_value CLAIM = ''CLAIM''"
| "kind_value FACT = ''FACT''"
| "kind_value ASSUMPTION = ''ASSUMPTION''"
| "kind_value INFERENCE = ''INFERENCE''"
| "kind_value PROPOSITION = ''PROPOSITION''"
| "kind_value EVIDENCE = ''EVIDENCE''"
| "kind_value UNCERTAINTY = ''UNCERTAINTY''"
| "kind_value RISK = ''RISK''"
| "kind_value IMPACT = ''IMPACT''"
| "kind_value OBJECTIVE = ''OBJECTIVE''"
| "kind_value CONSTRAINT = ''CONSTRAINT''"
| "kind_value ALTERNATIVE = ''ALTERNATIVE''"
| "kind_value POSITION = ''POSITION''"
| "kind_value CRITIQUE = ''CRITIQUE''"

datatype LifecycleStatus = ACTIVE | SUPERSEDED | WITHDRAWN

fun status_value :: "LifecycleStatus \<Rightarrow> string" where
  "status_value ACTIVE = ''ACTIVE''"
| "status_value SUPERSEDED = ''SUPERSEDED''"
| "status_value WITHDRAWN = ''WITHDRAWN''"

datatype ProvenanceOrigin = ORIGIN_HUMAN | ORIGIN_LLM | ORIGIN_RETRIEVAL | ORIGIN_TOOL
  | ORIGIN_SIMULATION | ORIGIN_SYMBOLIC | ORIGIN_IMPORT | ORIGIN_HISTORICAL_SESSION

fun origin_value :: "ProvenanceOrigin \<Rightarrow> string" where
  "origin_value ORIGIN_HUMAN = ''HUMAN''"
| "origin_value ORIGIN_LLM = ''LLM''"
| "origin_value ORIGIN_RETRIEVAL = ''RETRIEVAL''"
| "origin_value ORIGIN_TOOL = ''TOOL''"
| "origin_value ORIGIN_SIMULATION = ''SIMULATION''"
| "origin_value ORIGIN_SYMBOLIC = ''SYMBOLIC''"
| "origin_value ORIGIN_IMPORT = ''IMPORT''"
| "origin_value ORIGIN_HISTORICAL_SESSION = ''HISTORICAL_SESSION''"

datatype Verification = UNVERIFIED | SOURCE_VERIFIED | CROSS_CHECKED | DISPUTED | REJECTED

fun verification_value :: "Verification \<Rightarrow> string" where
  "verification_value UNVERIFIED = ''UNVERIFIED''"
| "verification_value SOURCE_VERIFIED = ''SOURCE_VERIFIED''"
| "verification_value CROSS_CHECKED = ''CROSS_CHECKED''"
| "verification_value DISPUTED = ''DISPUTED''"
| "verification_value REJECTED = ''REJECTED''"

datatype GraphEdgeType = SUPPORTS | OPPOSES | CONTRADICTS | DERIVED_FROM | BASED_ON_ASSUMPTION
  | FORMALIZES | QUANTIFIES | IMPACTS | CONSTRAINS | VIOLATES | SATISFIES | INFEASIBLE_UNKNOWN
  | ATTACKS | RESPONDS_TO | SUPERSEDES | ADVOCATES

fun edge_type_value :: "GraphEdgeType \<Rightarrow> string" where
  "edge_type_value SUPPORTS = ''SUPPORTS''"
| "edge_type_value OPPOSES = ''OPPOSES''"
| "edge_type_value CONTRADICTS = ''CONTRADICTS''"
| "edge_type_value DERIVED_FROM = ''DERIVED_FROM''"
| "edge_type_value BASED_ON_ASSUMPTION = ''BASED_ON_ASSUMPTION''"
| "edge_type_value FORMALIZES = ''FORMALIZES''"
| "edge_type_value QUANTIFIES = ''QUANTIFIES''"
| "edge_type_value IMPACTS = ''IMPACTS''"
| "edge_type_value CONSTRAINS = ''CONSTRAINS''"
| "edge_type_value VIOLATES = ''VIOLATES''"
| "edge_type_value SATISFIES = ''SATISFIES''"
| "edge_type_value INFEASIBLE_UNKNOWN = ''INFEASIBLE_UNKNOWN''"
| "edge_type_value ATTACKS = ''ATTACKS''"
| "edge_type_value RESPONDS_TO = ''RESPONDS_TO''"
| "edge_type_value SUPERSEDES = ''SUPERSEDES''"
| "edge_type_value ADVOCATES = ''ADVOCATES''"

datatype ClaimType = FACTUAL | CAUSAL | PREDICTIVE | EVALUATIVE | PROCEDURAL | HYPOTHESIS

fun claim_type_value :: "ClaimType \<Rightarrow> string" where
  "claim_type_value FACTUAL = ''FACTUAL''"
| "claim_type_value CAUSAL = ''CAUSAL''"
| "claim_type_value PREDICTIVE = ''PREDICTIVE''"
| "claim_type_value EVALUATIVE = ''EVALUATIVE''"
| "claim_type_value PROCEDURAL = ''PROCEDURAL''"
| "claim_type_value HYPOTHESIS = ''HYPOTHESIS''"

datatype Bearing = BEARING_SUPPORTS | BEARING_OPPOSES

fun bearing_value :: "Bearing \<Rightarrow> string" where
  "bearing_value BEARING_SUPPORTS = ''SUPPORTS''"
| "bearing_value BEARING_OPPOSES = ''OPPOSES''"

datatype EvidenceRelation = RELATION_SUPPORTS | RELATION_OPPOSES | RELATION_QUALIFIES

fun relation_value :: "EvidenceRelation \<Rightarrow> string" where
  "relation_value RELATION_SUPPORTS = ''SUPPORTS''"
| "relation_value RELATION_OPPOSES = ''OPPOSES''"
| "relation_value RELATION_QUALIFIES = ''QUALIFIES''"

datatype Strength = WEAK | MODERATE | STRONG | DECISIVE

fun strength_value :: "Strength \<Rightarrow> string" where
  "strength_value WEAK = ''WEAK''"
| "strength_value MODERATE = ''MODERATE''"
| "strength_value STRONG = ''STRONG''"
| "strength_value DECISIVE = ''DECISIVE''"

datatype ReviewStatus = REVIEW_PROPOSED | REVIEW_ACCEPTED | REVIEW_CONTESTED | REVIEW_REJECTED

fun review_value :: "ReviewStatus \<Rightarrow> string" where
  "review_value REVIEW_PROPOSED = ''PROPOSED''"
| "review_value REVIEW_ACCEPTED = ''ACCEPTED''"
| "review_value REVIEW_CONTESTED = ''CONTESTED''"
| "review_value REVIEW_REJECTED = ''REJECTED''"

datatype PropositionNormalizationStatus = NORMALIZATION_PROPOSED | NORMALIZATION_VALIDATED
  | NORMALIZATION_AMBIGUOUS

fun normalization_value :: "PropositionNormalizationStatus \<Rightarrow> string" where
  "normalization_value NORMALIZATION_PROPOSED = ''PROPOSED''"
| "normalization_value NORMALIZATION_VALIDATED = ''VALIDATED''"
| "normalization_value NORMALIZATION_AMBIGUOUS = ''AMBIGUOUS''"

datatype TrustLevel = PRIMARY | AUTHORITATIVE | SECONDARY | COMMERCIAL | UNATTRIBUTED | SYNTHETIC

fun trust_value :: "TrustLevel \<Rightarrow> string" where
  "trust_value PRIMARY = ''PRIMARY''"
| "trust_value AUTHORITATIVE = ''AUTHORITATIVE''"
| "trust_value SECONDARY = ''SECONDARY''"
| "trust_value COMMERCIAL = ''COMMERCIAL''"
| "trust_value UNATTRIBUTED = ''UNATTRIBUTED''"
| "trust_value SYNTHETIC = ''SYNTHETIC''"

datatype EvidenceProvenance = VIA_RETRIEVAL | VIA_TOOL | VIA_SIMULATION | VIA_SYMBOLIC | VIA_HUMAN
  | VIA_IMPORT

fun via_value :: "EvidenceProvenance \<Rightarrow> string" where
  "via_value VIA_RETRIEVAL = ''RETRIEVAL''"
| "via_value VIA_TOOL = ''TOOL''"
| "via_value VIA_SIMULATION = ''SIMULATION''"
| "via_value VIA_SYMBOLIC = ''SYMBOLIC''"
| "via_value VIA_HUMAN = ''HUMAN''"
| "via_value VIA_IMPORT = ''IMPORT''"

datatype UncertaintyType = EPISTEMIC | ALEATORIC | MODEL | MEASUREMENT | SEMANTIC | STRATEGIC

fun uncertainty_value :: "UncertaintyType \<Rightarrow> string" where
  "uncertainty_value EPISTEMIC = ''EPISTEMIC''"
| "uncertainty_value ALEATORIC = ''ALEATORIC''"
| "uncertainty_value MODEL = ''MODEL''"
| "uncertainty_value MEASUREMENT = ''MEASUREMENT''"
| "uncertainty_value SEMANTIC = ''SEMANTIC''"
| "uncertainty_value STRATEGIC = ''STRATEGIC''"

datatype ConstraintType = HARD | SOFT | NON_NEGOTIABLE

fun constraint_value :: "ConstraintType \<Rightarrow> string" where
  "constraint_value HARD = ''HARD''"
| "constraint_value SOFT = ''SOFT''"
| "constraint_value NON_NEGOTIABLE = ''NON_NEGOTIABLE''"

datatype Stance = SUPPORT | OPPOSE | CONDITIONALLY_SUPPORT | ABSTAIN | INSUFFICIENT_EVIDENCE

fun stance_value :: "Stance \<Rightarrow> string" where
  "stance_value SUPPORT = ''SUPPORT''"
| "stance_value OPPOSE = ''OPPOSE''"
| "stance_value CONDITIONALLY_SUPPORT = ''CONDITIONALLY_SUPPORT''"
| "stance_value ABSTAIN = ''ABSTAIN''"
| "stance_value INSUFFICIENT_EVIDENCE = ''INSUFFICIENT_EVIDENCE''"

datatype Severity = LOW | MEDIUM | HIGH | BLOCKING

fun severity_value :: "Severity \<Rightarrow> string" where
  "severity_value LOW = ''LOW''"
| "severity_value MEDIUM = ''MEDIUM''"
| "severity_value HIGH = ''HIGH''"
| "severity_value BLOCKING = ''BLOCKING''"

datatype Resolution = RESOLUTION_OPEN | RESOLUTION_RESOLVED | RESOLUTION_UNRESOLVED
  | RESOLUTION_DISPUTED

fun resolution_value :: "Resolution \<Rightarrow> string" where
  "resolution_value RESOLUTION_OPEN = ''OPEN''"
| "resolution_value RESOLUTION_RESOLVED = ''RESOLVED''"
| "resolution_value RESOLUTION_UNRESOLVED = ''UNRESOLVED''"
| "resolution_value RESOLUTION_DISPUTED = ''DISPUTED''"

datatype CritiqueType = EVIDENCE_GAP | LOGICAL_FALLACY | HALLUCINATED_SOURCE | MEASUREMENT_ERROR
  | MODEL_MISUSE | CONSTRAINT_IGNORED | CONFLICT_OF_INTEREST | ALTERNATIVE_OMITTED
  | UNCERTAINTY_UNDERSTATED | CAUSAL_OVERCLAIM

fun critique_value :: "CritiqueType \<Rightarrow> string" where
  "critique_value EVIDENCE_GAP = ''EVIDENCE_GAP''"
| "critique_value LOGICAL_FALLACY = ''LOGICAL_FALLACY''"
| "critique_value HALLUCINATED_SOURCE = ''HALLUCINATED_SOURCE''"
| "critique_value MEASUREMENT_ERROR = ''MEASUREMENT_ERROR''"
| "critique_value MODEL_MISUSE = ''MODEL_MISUSE''"
| "critique_value CONSTRAINT_IGNORED = ''CONSTRAINT_IGNORED''"
| "critique_value CONFLICT_OF_INTEREST = ''CONFLICT_OF_INTEREST''"
| "critique_value ALTERNATIVE_OMITTED = ''ALTERNATIVE_OMITTED''"
| "critique_value UNCERTAINTY_UNDERSTATED = ''UNCERTAINTY_UNDERSTATED''"
| "critique_value CAUSAL_OVERCLAIM = ''CAUSAL_OVERCLAIM''"

subsection \<open>Texts and decimal strings\<close>

text \<open>The decimal digits of Unicode come in runs of ten; these are the zeros.\<close>

definition digit_zeros :: "nat list" where
  "digit_zeros = [0x30, 0x660, 0x6F0, 0x7C0, 0x966, 0x9E6, 0xA66, 0xAE6, 0xB66, 0xBE6, 0xC66, 0xCE6,
     0xD66, 0xDE6, 0xE50, 0xED0, 0xF20, 0x1040, 0x1090, 0x17E0, 0x1810, 0x1946, 0x19D0, 0x1A80,
     0x1A90, 0x1B50, 0x1BB0, 0x1C40, 0x1C50, 0xA620, 0xA8D0, 0xA900, 0xA9D0, 0xA9F0, 0xAA50, 0xABF0,
     0xFF10, 0x104A0, 0x10D30, 0x11066, 0x110F0, 0x11136, 0x111D0, 0x112F0, 0x11450, 0x114D0, 0x11650,
     0x116C0, 0x11730, 0x118E0, 0x11950, 0x11C50, 0x11D50, 0x11DA0, 0x11F50, 0x16A60, 0x16AC0, 0x16B50,
     0x1D7CE, 0x1D7D8, 0x1D7E2, 0x1D7EC, 0x1D7F6, 0x1E140, 0x1E2F0, 0x1E4F0, 0x1E950, 0x1FBF0]"

definition udigit :: "nat \<Rightarrow> bool" where
  "udigit c = list_ex (\<lambda>z. z \<le> c \<and> c < z + 10) digit_zeros"

definition digit_value :: "nat \<Rightarrow> nat" where
  "digit_value c = (case find (\<lambda>z. z \<le> c \<and> c < z + 10) digit_zeros of None \<Rightarrow> 0 | Some z \<Rightarrow> c - z)"

definition text_ok :: "ustr \<Rightarrow> bool" where
  "text_ok s = (s \<noteq> [] \<and> \<not> u_blank s \<and> list_all scalar s)"

text \<open>\<^verbatim>\<open>(?:0|[1-9]\d*)(?:\.\d+)?\<close>, and the same with an optional sign.\<close>

definition unsigned_decimal :: "ustr \<Rightarrow> bool" where
  "unsigned_decimal s = (let i = takeWhile udigit s; r = dropWhile udigit s in
     (i = [48] \<or> (i \<noteq> [] \<and> 49 \<le> hd i \<and> hd i \<le> 57)) \<and>
     (r = [] \<or> (hd r = 46 \<and> tl r \<noteq> [] \<and> list_all udigit (tl r))))"

definition unsigned :: "ustr \<Rightarrow> ustr" where
  "unsigned s = (if s \<noteq> [] \<and> hd s = 45 then tl s else s)"

definition decimal_pattern :: "ustr \<Rightarrow> bool" where
  "decimal_pattern s = unsigned_decimal (unsigned s)"

text \<open>\<^verbatim>\<open>^(?:-?0(?:\.0+)?|0\.\d+|1(?:\.0+)?)$\<close>\<close>

definition unit_decimal_pattern :: "ustr \<Rightarrow> bool" where
  "unit_decimal_pattern s =
     ((let u = unsigned s in u = [48] \<or> (take 2 u = [48, 46] \<and> drop 2 u \<noteq> [] \<and> list_all (\<lambda>c. c = 48) (drop 2 u))) \<or>
      (take 2 s = [48, 46] \<and> drop 2 s \<noteq> [] \<and> list_all udigit (drop 2 s)) \<or>
      s = [49] \<or> (take 2 s = [49, 46] \<and> drop 2 s \<noteq> [] \<and> list_all (\<lambda>c. c = 48) (drop 2 s)))"

definition rstrip :: "nat \<Rightarrow> ustr \<Rightarrow> ustr" where
  "rstrip c s = rev (dropWhile (\<lambda>x. x = c) (rev s))"

definition decimal_init :: "ustr \<Rightarrow> ustr result" where
  "decimal_init v =
     (if 101 \<in> set v \<or> 69 \<in> set v \<or> \<not> decimal_pattern v
      then Inl (ValueError ''must be a plain decimal string without exponent notation'')
      else let r = (if 46 \<in> set v then rstrip 46 (rstrip 48 v) else v)
           in Inr (if r = [45, 48] \<or> r = [] then [48] else r))"

text \<open>\<^verbatim>\<open>Decimal(s)\<close> of such a text, which is exact.\<close>

definition digits_number :: "ustr \<Rightarrow> int" where
  "digits_number s = foldl (\<lambda>n c. 10 * n + int (digit_value c)) 0 s"

definition decimal_value :: "ustr \<Rightarrow> rat" where
  "decimal_value s = (let u = unsigned s; i = takeWhile udigit u; f = drop 1 (dropWhile udigit u);
       n = of_int (digits_number (i @ f)) / 10 ^ length f
     in if u = s then n else - n)"

subsection \<open>Payloads\<close>

text \<open>
  The payload of each kind, the fields in the order of the class. An expression or a parameter object
  is the JSON value its validator leaves.
\<close>

record FormalExpression =
  fe_language :: ustr
  fe_ast :: json

record Scenario =
  sn_name :: ustr
  sn_probability :: ustr
  sn_value :: json

datatype ArtifactPayload =
    ClaimPayload ustr ClaimType Bearing Strength "uuid list" "uuid list" ReviewStatus
  | FactPayload ustr Verification
  | AssumptionPayload ustr ustr ustr bool
  | InferencePayload "uuid list" uuid ustr ustr ustr
  | PropositionPayload ustr ustr ustr ustr ustr PropositionNormalizationStatus
  | EvidencePayload uuid EvidenceRelation ustr Verification TrustLevel ustr EvidenceProvenance
  | IntervalUncertaintyPayload uuid UncertaintyType "ustr list" ustr ustr ustr
  | DistributionUncertaintyPayload uuid UncertaintyType "ustr list" ustr json ustr
  | ScenariosUncertaintyPayload uuid UncertaintyType "ustr list" "Scenario list"
  | QualitativeUncertaintyPayload uuid UncertaintyType "ustr list" ustr ustr
  | RiskPayload ustr ustr ustr uuid "uuid list"
  | ImpactPayload uuid uuid ustr ustr ustr uuid
  | ObjectivePayload ustr ustr ustr ustr ustr ustr "uuid list"
  | ConstraintPayload ustr ustr ConstraintType ustr FormalExpression ustr
  | AlternativePayload ustr ustr "ustr list" ustr ustr
  | PositionPayload uuid Stance ustr "uuid list" "ustr list"
  | CritiquePayload uuid CritiqueType Severity ustr Resolution

fun payload_kind :: "ArtifactPayload \<Rightarrow> ArtifactKind" where
  "payload_kind (ClaimPayload _ _ _ _ _ _ _) = CLAIM"
| "payload_kind (FactPayload _ _) = FACT"
| "payload_kind (AssumptionPayload _ _ _ _) = ASSUMPTION"
| "payload_kind (InferencePayload _ _ _ _ _) = INFERENCE"
| "payload_kind (PropositionPayload _ _ _ _ _ _) = PROPOSITION"
| "payload_kind (EvidencePayload _ _ _ _ _ _ _) = EVIDENCE"
| "payload_kind (IntervalUncertaintyPayload _ _ _ _ _ _) = UNCERTAINTY"
| "payload_kind (DistributionUncertaintyPayload _ _ _ _ _ _) = UNCERTAINTY"
| "payload_kind (ScenariosUncertaintyPayload _ _ _ _) = UNCERTAINTY"
| "payload_kind (QualitativeUncertaintyPayload _ _ _ _ _) = UNCERTAINTY"
| "payload_kind (RiskPayload _ _ _ _ _) = RISK"
| "payload_kind (ImpactPayload _ _ _ _ _ _) = IMPACT"
| "payload_kind (ObjectivePayload _ _ _ _ _ _ _) = OBJECTIVE"
| "payload_kind (ConstraintPayload _ _ _ _ _ _) = CONSTRAINT"
| "payload_kind (AlternativePayload _ _ _ _ _) = ALTERNATIVE"
| "payload_kind (PositionPayload _ _ _ _ _) = POSITION"
| "payload_kind (CritiquePayload _ _ _ _ _) = CRITIQUE"

text \<open>
  The constructors: a value that passes the fields and the model validators, with its decimals in
  canonical form, or the refusal. A class reports all its field errors in one exception.
\<close>

definition checked :: "bool \<Rightarrow> 'a \<Rightarrow> 'a result" where
  "checked ok x = (if ok then Inr x else Inl (ValueError ''ValidationError''))"

definition json_object_ok :: "json \<Rightarrow> bool" where
  "json_object_ok j = (is_object j \<and> scalars j)"

definition scenario_init :: "Scenario \<Rightarrow> Scenario result" where
  "scenario_init s = ebind (decimal_init (sn_probability s)) (\<lambda>p.
     checked (text_ok (sn_name s) \<and> unit_decimal_pattern p \<and> scalars (sn_value s)) (s\<lparr>sn_probability := p\<rparr>))"

definition expression_ok :: "FormalExpression \<Rightarrow> bool" where
  "expression_ok e = (text_ok (fe_language e) \<and> json_object_ok (fe_ast e) \<and> fe_ast e \<noteq> JObj [])"

fun payload_init :: "ArtifactPayload \<Rightarrow> ArtifactPayload result" where
  "payload_init (ClaimPayload st ct d str se oe rs) = checked (text_ok st) (ClaimPayload st ct d str se oe rs)"
| "payload_init (FactPayload st v) =
     checked (text_ok st \<and> (v = SOURCE_VERIFIED \<or> v = CROSS_CHECKED)) (FactPayload st v)"
| "payload_init (AssumptionPayload st b m c) =
     checked (text_ok st \<and> text_ok b \<and> text_ok m) (AssumptionPayload st b m c)"
| "payload_init (InferencePayload ps c k t v) =
     checked (text_ok k \<and> text_ok t \<and> text_ok v) (InferencePayload ps c k t v)"
| "payload_init (PropositionPayload so sn cv pk m ns) =
     checked (text_ok so \<and> text_ok sn \<and> text_ok cv \<and> text_ok pk \<and> text_ok m) (PropositionPayload so sn cv pk m ns)"
| "payload_init (EvidencePayload c r q v t w p) = ebind (decimal_init w) (\<lambda>w'.
     ebind (checked (text_ok q \<and> unit_decimal_pattern w') ()) (\<lambda>_.
     if t = UNATTRIBUTED \<or> t = SYNTHETIC
     then Inl (ValueError ''UNATTRIBUTED and SYNTHETIC material may not be EVIDENCE'')
     else Inr (EvidencePayload c r q v t w' p)))"
| "payload_init (IntervalUncertaintyPayload t u ds lo hi un) =
     ebind (decimal_init lo) (\<lambda>lo'. ebind (decimal_init hi) (\<lambda>hi'.
     ebind (checked (list_all text_ok ds \<and> decimal_pattern lo' \<and> decimal_pattern hi' \<and> text_ok un) ()) (\<lambda>_.
     if decimal_value hi' < decimal_value lo' then Inl (ValueError ''lower must not exceed upper'')
     else Inr (IntervalUncertaintyPayload t u ds lo' hi' un))))"
| "payload_init (DistributionUncertaintyPayload t u ds f ps un) =
     checked (list_all text_ok ds \<and> text_ok f \<and> json_object_ok ps \<and> text_ok un)
       (DistributionUncertaintyPayload t u ds f ps un)"
| "payload_init (ScenariosUncertaintyPayload t u ds ss) = ebind (emap scenario_init ss) (\<lambda>ss'.
     ebind (checked (list_all text_ok ds) ()) (\<lambda>_.
     if ss' = [] then Inl (ValueError ''scenarios must not be empty'')
     else Inr (ScenariosUncertaintyPayload t u ds ss')))"
| "payload_init (QualitativeUncertaintyPayload t u ds l e) =
     checked (list_all text_ok ds \<and> text_ok l \<and> text_ok e) (QualitativeUncertaintyPayload t u ds l e)"
| "payload_init (RiskPayload st p i u os) = ebind (decimal_init p) (\<lambda>p'.
     checked (text_ok st \<and> unit_decimal_pattern p' \<and> text_ok i) (RiskPayload st p' i u os))"
| "payload_init (ImpactPayload a ob m un tf sa) = ebind (decimal_init m) (\<lambda>m'.
     checked (decimal_pattern m' \<and> text_ok un \<and> text_ok tf) (ImpactPayload a ob m' un tf sa))"
| "payload_init (ObjectivePayload n t d w wr h cs) = ebind (decimal_init w) (\<lambda>w'.
     checked (text_ok n \<and> text_ok t \<and> text_ok d \<and> unit_decimal_pattern w' \<and> text_ok wr \<and> text_ok h)
       (ObjectivePayload n t d w' wr h cs))"
| "payload_init (ConstraintPayload n st ct c e f) =
     checked (text_ok n \<and> text_ok st \<and> text_ok c \<and> expression_ok e \<and> text_ok f) (ConstraintPayload n st ct c e f)"
| "payload_init (AlternativePayload n s cs og f) =
     checked (text_ok n \<and> text_ok s \<and> list_all text_ok cs \<and> text_ok og \<and> text_ok f) (AlternativePayload n s cs og f)"
| "payload_init (PositionPayload t s r es cs) =
     checked (text_ok r \<and> list_all text_ok cs) (PositionPayload t s r es cs)"
| "payload_init (CritiquePayload t ct sv a r) = checked (text_ok a) (CritiquePayload t ct sv a r)"

subsection \<open>Propositions\<close>

text \<open>The JSON value a model is dumped to: an object with the field names as keys.\<close>

definition jobj :: "(string \<times> json) list \<Rightarrow> json" where
  "jobj ms = JObj (map (map_prod ustr (\<lambda>v. v)) ms)"

definition jtext :: "string \<Rightarrow> json" where
  "jtext s = JStr (ustr s)"

definition juuids :: "uuid list \<Rightarrow> json" where
  "juuids us = JList (map juuid us)"

definition jtexts :: "ustr list \<Rightarrow> json" where
  "jtexts ts = JList (map JStr ts)"

definition jopt :: "('a \<Rightarrow> json) \<Rightarrow> 'a option \<Rightarrow> json" where
  "jopt f x = (case x of None \<Rightarrow> JNull | Some y \<Rightarrow> f y)"

fun proposition_normalization_identity :: "ArtifactPayload \<Rightarrow> string result" where
  "proposition_normalization_identity (PropositionPayload so sn cv pk m ns) =
     content_hash (thaw (jobj [(''canonicalizer_version'', JStr cv), (''statement_normalized'', JStr sn),
       (''proposition_kind'', JStr pk), (''modality'', JStr m)]))"
| "proposition_normalization_identity _ = Inl AttributeError"

fun require_consensus_proposition :: "ArtifactPayload \<Rightarrow> ArtifactPayload result" where
  "require_consensus_proposition (PropositionPayload so sn cv pk m ns) =
     (if ns = NORMALIZATION_AMBIGUOUS
      then Inl (ValueError ''AMBIGUOUS proposition normalization cannot enter consensus'')
      else Inr (PropositionPayload so sn cv pk m ns))"
| "require_consensus_proposition _ = Inl AttributeError"

subsection \<open>Envelopes\<close>

record Provenance =
  pv_origin :: ProvenanceOrigin
  pv_reference :: ustr
  pv_model_call_id :: "uuid option"
  pv_activity_id :: "uuid option"

record SourceReference =
  sr_reference :: ustr
  sr_locator :: json
  sr_content_hash :: string
  sr_retrieved_at :: ustr
  sr_source_timestamp :: "ustr option"

record ParentRelationship =
  pr_edge_type :: GraphEdgeType
  pr_target_artifact_id :: uuid

record Confidence =
  cf_kind :: ustr
  cf_value :: ustr
  cf_meaning :: ustr
  cf_basis_artifact_ids :: "uuid list"

record ReasoningArtifact =
  ra_id :: uuid
  ra_workspace_id :: uuid
  ra_session_id :: uuid
  ra_logical_id :: uuid
  ra_kind :: ArtifactKind
  ra_schema_version :: int
  ra_version :: int
  ra_status :: LifecycleStatus
  ra_supersedes_id :: "uuid option"
  ra_owner_actor_class :: ActorClass
  ra_owner_actor_id :: uuid
  ra_round :: int
  ra_payload :: ArtifactPayload
  ra_provenance :: Provenance
  ra_source_references :: "SourceReference list"
  ra_parent_relationships :: "ParentRelationship list"
  ra_confidence :: "Confidence option"
  ra_metadata :: json
  ra_created_at :: datetime
  ra_updated_at :: datetime
  ra_content_hash :: string

definition source_ok :: "SourceReference \<Rightarrow> bool" where
  "source_ok s = (text_ok (sr_reference s) \<and> json_object_ok (sr_locator s) \<and> sr_locator s \<noteq> JObj [] \<and>
     is_sha256 (sr_content_hash s) \<and> list_all scalar (sr_retrieved_at s) \<and>
     pred_option (list_all scalar) (sr_source_timestamp s))"

definition confidence_init :: "Confidence option \<Rightarrow> Confidence option result" where
  "confidence_init c = (case c of None \<Rightarrow> Inr None
     | Some cf \<Rightarrow>
         ebind (checked (text_ok (cf_kind cf) \<and> unit_decimal_pattern (cf_value cf) \<and> text_ok (cf_meaning cf)) ()) (\<lambda>_.
         ebind (decimal_init (cf_value cf)) (\<lambda>v. Inr (Some (cf\<lparr>cf_value := v\<rparr>)))))"

definition valid_revision :: "int \<Rightarrow> uuid option \<Rightarrow> bool" where
  "valid_revision version supersedes =
     ((version = 1 \<and> supersedes = None) \<or> (1 < version \<and> supersedes \<noteq> None))"

fun unverified_evidence :: "ArtifactPayload \<Rightarrow> bool" where
  "unverified_evidence (EvidencePayload _ _ _ v _ _ _) = (v = UNVERIFIED)"
| "unverified_evidence _ = True"

text \<open>The model validator of the envelope, up to its last check.\<close>

definition artifact_invariants :: "ReasoningArtifact \<Rightarrow> unit result" where
  "artifact_invariants a =
     ebind (eguard (payload_kind (ra_payload a) = ra_kind a)
       (ValueError (''payload does not match kind '' @ kind_value (ra_kind a)))) (\<lambda>_.
     ebind (eguard (valid_revision (ra_version a) (ra_supersedes_id a))
       (ValueError ''version 1 must not supersede; later versions must supersede'')) (\<lambda>_.
     ebind (eguard (ra_owner_actor_class a \<noteq> POLICY) (ValueError ''POLICY may not own content artifacts'')) (\<lambda>_.
     ebind (eguard (\<not> (ra_kind a = FACT \<and> ra_owner_actor_class a = AGENT)) (ValueError ''AGENT may not own FACT'')) (\<lambda>_.
     ebind (eguard (\<not> (ra_kind a = FACT \<and> pv_origin (ra_provenance a) = ORIGIN_LLM))
       (ValueError ''LLM output may not be classified directly as FACT'')) (\<lambda>_.
     ebind (eguard (\<not> ((ra_kind a = FACT \<or> ra_kind a = EVIDENCE) \<and> ra_source_references a = []))
       (ValueError (kind_value (ra_kind a) @ '' requires source references''))) (\<lambda>_.
     ebind (eguard (\<not> (ra_kind a = EVIDENCE \<and> pv_origin (ra_provenance a) = ORIGIN_HISTORICAL_SESSION))
       (ValueError ''historical sessions may not produce EVIDENCE'')) (\<lambda>_.
     ebind (eguard (\<not> (ra_kind a = EVIDENCE \<and> ra_version a = 1 \<and> \<not> unverified_evidence (ra_payload a)))
       (ValueError ''new EVIDENCE must start UNVERIFIED'')) (\<lambda>_.
     ebind (eguard (\<not> (ra_kind a = POSITION \<and> ra_confidence a = None)) (ValueError ''POSITION requires confidence'')) (\<lambda>_.
     eguard (\<not> (ra_kind a = FACT \<and> ra_confidence a \<noteq> None))
       (ValueError ''FACT may not carry model confidence''))))))))))"

definition artifact_fields_ok :: "ReasoningArtifact \<Rightarrow> bool" where
  "artifact_fields_ok a = (0 < ra_schema_version a \<and> 0 < ra_version a \<and> 0 \<le> ra_round a \<and>
     text_ok (pv_reference (ra_provenance a)) \<and> list_all source_ok (ra_source_references a) \<and>
     json_object_ok (ra_metadata a) \<and> datetime_valid (ra_created_at a) \<and> datetime_valid (ra_updated_at a) \<and>
     is_sha256 (ra_content_hash a))"

text \<open>Validation with the content hash skipped.\<close>

definition artifact_candidate :: "ReasoningArtifact \<Rightarrow> ReasoningArtifact result" where
  "artifact_candidate a =
     ebind (payload_init (ra_payload a)) (\<lambda>p.
     ebind (confidence_init (ra_confidence a)) (\<lambda>c.
     ebind (checked (artifact_fields_ok a) (a\<lparr>ra_payload := p, ra_confidence := c\<rparr>)) (\<lambda>a'.
     ebind (artifact_invariants a') (\<lambda>_. Inr a'))))"

definition scenario_json :: "Scenario \<Rightarrow> json" where
  "scenario_json s = jobj [(''name'', JStr (sn_name s)), (''probability'', JStr (sn_probability s)),
     (''value'', sn_value s)]"

fun payload_json :: "ArtifactPayload \<Rightarrow> json" where
  "payload_json (ClaimPayload st ct d str se oe rs) = jobj [(''statement'', JStr st),
     (''claim_type'', jtext (claim_type_value ct)), (''direction'', jtext (bearing_value d)),
     (''strength'', jtext (strength_value str)), (''supporting_evidence_ids'', juuids se),
     (''opposing_evidence_ids'', juuids oe), (''review_status'', jtext (review_value rs))]"
| "payload_json (FactPayload st v) =
     jobj [(''statement'', JStr st), (''verification'', jtext (verification_value v))]"
| "payload_json (AssumptionPayload st b m c) = jobj [(''statement'', JStr st), (''basis'', JStr b),
     (''materiality'', JStr m), (''challengeable'', JBool c)]"
| "payload_json (InferencePayload ps c k t v) = jobj [(''premise_ids'', juuids ps), (''conclusion_id'', juuid c),
     (''rule_kind'', JStr k), (''rule_text'', JStr t), (''validity'', JStr v)]"
| "payload_json (PropositionPayload so sn cv pk m ns) = jobj [(''statement_original'', JStr so),
     (''statement_normalized'', JStr sn), (''canonicalizer_version'', JStr cv), (''proposition_kind'', JStr pk),
     (''modality'', JStr m), (''normalization_status'', jtext (normalization_value ns))]"
| "payload_json (EvidencePayload c r q v t w p) = jobj [(''claim_id'', juuid c),
     (''relation'', jtext (relation_value r)), (''quote'', JStr q), (''verification'', jtext (verification_value v)),
     (''trust_level'', jtext (trust_value t)), (''weight'', JStr w), (''provenance_kind'', jtext (via_value p))]"
| "payload_json (IntervalUncertaintyPayload t u ds lo hi un) = jobj [(''target_id'', juuid t),
     (''uncertainty_type'', jtext (uncertainty_value u)), (''drivers'', jtexts ds),
     (''representation'', jtext ''INTERVAL''), (''lower'', JStr lo), (''upper'', JStr hi), (''unit'', JStr un)]"
| "payload_json (DistributionUncertaintyPayload t u ds f ps un) = jobj [(''target_id'', juuid t),
     (''uncertainty_type'', jtext (uncertainty_value u)), (''drivers'', jtexts ds),
     (''representation'', jtext ''DISTRIBUTION''), (''family'', JStr f), (''parameters'', ps), (''unit'', JStr un)]"
| "payload_json (ScenariosUncertaintyPayload t u ds ss) = jobj [(''target_id'', juuid t),
     (''uncertainty_type'', jtext (uncertainty_value u)), (''drivers'', jtexts ds),
     (''representation'', jtext ''SCENARIOS''), (''scenarios'', JList (map scenario_json ss))]"
| "payload_json (QualitativeUncertaintyPayload t u ds l e) = jobj [(''target_id'', juuid t),
     (''uncertainty_type'', jtext (uncertainty_value u)), (''drivers'', jtexts ds),
     (''representation'', jtext ''QUALITATIVE''), (''level'', JStr l), (''explanation'', JStr e)]"
| "payload_json (RiskPayload st p i u os) = jobj [(''statement'', JStr st), (''probability'', JStr p),
     (''impact'', JStr i), (''uncertainty_id'', juuid u), (''affected_objective_ids'', juuids os)]"
| "payload_json (ImpactPayload a ob m un tf sa) = jobj [(''alternative_id'', juuid a), (''objective_id'', juuid ob),
     (''magnitude'', JStr m), (''unit'', JStr un), (''timeframe'', JStr tf), (''source_artifact_id'', juuid sa)]"
| "payload_json (ObjectivePayload n t d w wr h cs) = jobj [(''name'', JStr n), (''objective_type'', JStr t),
     (''direction'', JStr d), (''weight'', JStr w), (''weight_rationale'', JStr wr), (''time_horizon'', JStr h),
     (''conflicts_with_ids'', juuids cs)]"
| "payload_json (ConstraintPayload n st ct c e f) = jobj [(''name'', JStr n), (''statement'', JStr st),
     (''constraint_type'', jtext (constraint_value ct)), (''category'', JStr c),
     (''evaluation_expression'', jobj [(''language'', JStr (fe_language e)), (''ast'', fe_ast e)]),
     (''formal_status'', JStr f)]"
| "payload_json (AlternativePayload n s cs og f) = jobj [(''name'', JStr n), (''summary'', JStr s),
     (''components'', jtexts cs), (''origin'', JStr og), (''feasibility_status'', JStr f)]"
| "payload_json (PositionPayload t s r es cs) = jobj [(''target_id'', juuid t), (''stance'', jtext (stance_value s)),
     (''rationale'', JStr r), (''evidence_ids'', juuids es), (''conditions'', jtexts cs)]"
| "payload_json (CritiquePayload t ct sv a r) = jobj [(''target_id'', juuid t),
     (''critique_type'', jtext (critique_value ct)), (''severity'', jtext (severity_value sv)),
     (''argument'', JStr a), (''resolution'', jtext (resolution_value r))]"

definition provenance_json :: "Provenance \<Rightarrow> json" where
  "provenance_json p = jobj [(''origin'', jtext (origin_value (pv_origin p))), (''reference'', JStr (pv_reference p)),
     (''model_call_id'', jopt juuid (pv_model_call_id p)), (''activity_id'', jopt juuid (pv_activity_id p))]"

definition source_json :: "SourceReference \<Rightarrow> json" where
  "source_json s = jobj [(''reference'', JStr (sr_reference s)), (''locator'', sr_locator s),
     (''content_hash'', jtext (sr_content_hash s)), (''retrieved_at'', JStr (sr_retrieved_at s)),
     (''source_timestamp'', jopt JStr (sr_source_timestamp s))]"

definition relationship_json :: "ParentRelationship \<Rightarrow> json" where
  "relationship_json r = jobj [(''edge_type'', jtext (edge_type_value (pr_edge_type r))),
     (''target_artifact_id'', juuid (pr_target_artifact_id r))]"

definition confidence_json :: "Confidence \<Rightarrow> json" where
  "confidence_json c = jobj [(''kind'', JStr (cf_kind c)), (''value'', JStr (cf_value c)),
     (''meaning'', JStr (cf_meaning c)), (''basis_artifact_ids'', juuids (cf_basis_artifact_ids c))]"

definition hash_preimage :: "ReasoningArtifact \<Rightarrow> json" where
  "hash_preimage a = jobj [(''workspace_id'', juuid (ra_workspace_id a)), (''session_id'', juuid (ra_session_id a)),
     (''logical_id'', juuid (ra_logical_id a)), (''kind'', jtext (kind_value (ra_kind a))),
     (''schema_version'', JInt (ra_schema_version a)), (''version'', JInt (ra_version a)),
     (''supersedes_id'', jopt juuid (ra_supersedes_id a)),
     (''owner_actor_class'', jtext (actor_class_value (ra_owner_actor_class a))),
     (''owner_actor_id'', juuid (ra_owner_actor_id a)), (''round'', JInt (ra_round a)),
     (''payload'', payload_json (ra_payload a)), (''provenance'', provenance_json (ra_provenance a)),
     (''source_references'', JList (map source_json (ra_source_references a))),
     (''parent_relationships'', JList (map relationship_json (ra_parent_relationships a))),
     (''confidence'', jopt confidence_json (ra_confidence a)), (''metadata'', ra_metadata a)]"

definition canonical_content :: "ReasoningArtifact \<Rightarrow> nat list result" where
  "canonical_content a = canonical_json (thaw (hash_preimage a))"

text \<open>Validation of an envelope, which refuses a hash that is not that of its content.\<close>

definition validate_artifact :: "ReasoningArtifact \<Rightarrow> ReasoningArtifact result" where
  "validate_artifact a = ebind (artifact_candidate a) (\<lambda>a'.
     ebind (content_hash (thaw (hash_preimage a'))) (\<lambda>h.
     ebind (eguard (ra_content_hash a' = h) (ValueError ''content_hash does not match immutable content'')) (\<lambda>_.
     Inr a')))"

definition artifact_content_hash :: "ReasoningArtifact \<Rightarrow> string result" where
  "artifact_content_hash a =
     ebind (artifact_candidate (a\<lparr>ra_content_hash := ''sha256:'' @ replicate 64 (CHR ''0'')\<rparr>)) (\<lambda>c.
     content_hash (thaw (hash_preimage c)))"

subsection \<open>The check constraints of the artifact table\<close>

text \<open>
  The checks read the dumped columns of a row. What the dump of a typed value always has (the keys of
  each object, the JSON types, the members of the enumerations) is not checked again here.
\<close>

definition sql_nonempty :: "ustr \<Rightarrow> bool" where
  "sql_nonempty s = list_ex (\<lambda>c. c \<noteq> 32) s"

text \<open>A UUID of RFC 9562: version 1 to 8 and the variant bits 10.\<close>

definition sql_uuid :: "uuid \<Rightarrow> bool" where
  "sql_uuid u = (uuid_hex u ! 12 \<in> set ''12345678'' \<and> uuid_hex u ! 16 \<in> set ''89ab'')"

definition ascii_digit :: "nat \<Rightarrow> bool" where
  "ascii_digit c = (48 \<le> c \<and> c \<le> 57)"

text \<open>\<^verbatim>\<open>^-?(0|[1-9][0-9]*)(\.[0-9]*[1-9])?$\<close>, and not the text \<^verbatim>\<open>-0\<close>.\<close>

definition sql_decimal :: "ustr \<Rightarrow> bool" where
  "sql_decimal s = (let u = unsigned s; i = takeWhile ascii_digit u; r = dropWhile ascii_digit u in
     (i = [48] \<or> (i \<noteq> [] \<and> 49 \<le> hd i)) \<and>
     (r = [] \<or> (hd r = 46 \<and> tl r \<noteq> [] \<and> list_all ascii_digit (tl r) \<and> last r \<noteq> 48)) \<and>
     s \<noteq> [45, 48])"

definition sql_unit_decimal :: "ustr \<Rightarrow> bool" where
  "sql_unit_decimal s = (sql_decimal s \<and> 0 \<le> decimal_value s \<and> decimal_value s \<le> 1)"

fun jsonb_object :: "json \<Rightarrow> bool" where
  "jsonb_object (JObj ms) = True"
| "jsonb_object _ = False"

definition sql_expression :: "FormalExpression \<Rightarrow> bool" where
  "sql_expression e = (sql_nonempty (fe_language e) \<and> jsonb_object (fe_ast e) \<and> fe_ast e \<noteq> JObj [])"

fun validate_reasoning_artifact_payload :: "ArtifactPayload \<Rightarrow> bool" where
  "validate_reasoning_artifact_payload (ClaimPayload st ct d str se oe rs) =
     (sql_nonempty st \<and> list_all sql_uuid se \<and> list_all sql_uuid oe)"
| "validate_reasoning_artifact_payload (FactPayload st v) =
     (sql_nonempty st \<and> (v = SOURCE_VERIFIED \<or> v = CROSS_CHECKED))"
| "validate_reasoning_artifact_payload (AssumptionPayload st b m c) =
     (sql_nonempty st \<and> sql_nonempty b \<and> sql_nonempty m)"
| "validate_reasoning_artifact_payload (InferencePayload ps c k t v) =
     (list_all sql_uuid ps \<and> sql_uuid c \<and> sql_nonempty k \<and> sql_nonempty t \<and> sql_nonempty v)"
| "validate_reasoning_artifact_payload (PropositionPayload so sn cv pk m ns) =
     (sql_nonempty so \<and> sql_nonempty sn \<and> sql_nonempty cv \<and> sql_nonempty pk \<and> sql_nonempty m)"
| "validate_reasoning_artifact_payload (EvidencePayload c r q v t w p) =
     (sql_uuid c \<and> sql_nonempty q \<and> (t = PRIMARY \<or> t = AUTHORITATIVE \<or> t = SECONDARY \<or> t = COMMERCIAL) \<and>
      sql_unit_decimal w)"
| "validate_reasoning_artifact_payload (IntervalUncertaintyPayload t u ds lo hi un) =
     (sql_uuid t \<and> list_all sql_nonempty ds \<and> sql_decimal lo \<and> sql_decimal hi \<and> sql_nonempty un \<and>
      decimal_value lo \<le> decimal_value hi)"
| "validate_reasoning_artifact_payload (DistributionUncertaintyPayload t u ds f ps un) =
     (sql_uuid t \<and> list_all sql_nonempty ds \<and> sql_nonempty f \<and> jsonb_object ps \<and> sql_nonempty un)"
| "validate_reasoning_artifact_payload (ScenariosUncertaintyPayload t u ds ss) =
     (sql_uuid t \<and> list_all sql_nonempty ds \<and> ss \<noteq> [] \<and>
      list_all (\<lambda>s. sql_nonempty (sn_name s) \<and> sql_unit_decimal (sn_probability s)) ss)"
| "validate_reasoning_artifact_payload (QualitativeUncertaintyPayload t u ds l e) =
     (sql_uuid t \<and> list_all sql_nonempty ds \<and> sql_nonempty l \<and> sql_nonempty e)"
| "validate_reasoning_artifact_payload (RiskPayload st p i u os) =
     (sql_nonempty st \<and> sql_unit_decimal p \<and> sql_nonempty i \<and> sql_uuid u \<and> list_all sql_uuid os)"
| "validate_reasoning_artifact_payload (ImpactPayload a ob m un tf sa) =
     (sql_uuid a \<and> sql_uuid ob \<and> sql_decimal m \<and> sql_nonempty un \<and> sql_nonempty tf \<and> sql_uuid sa)"
| "validate_reasoning_artifact_payload (ObjectivePayload n t d w wr h cs) =
     (sql_nonempty n \<and> sql_nonempty t \<and> sql_nonempty d \<and> sql_unit_decimal w \<and> sql_nonempty wr \<and>
      sql_nonempty h \<and> list_all sql_uuid cs)"
| "validate_reasoning_artifact_payload (ConstraintPayload n st ct c e f) =
     (sql_nonempty n \<and> sql_nonempty st \<and> sql_nonempty c \<and> sql_expression e \<and> sql_nonempty f)"
| "validate_reasoning_artifact_payload (AlternativePayload n s cs og f) =
     (sql_nonempty n \<and> sql_nonempty s \<and> list_all sql_nonempty cs \<and> sql_nonempty og \<and> sql_nonempty f)"
| "validate_reasoning_artifact_payload (PositionPayload t s r es cs) =
     (sql_uuid t \<and> sql_nonempty r \<and> list_all sql_uuid es \<and> list_all sql_nonempty cs)"
| "validate_reasoning_artifact_payload (CritiquePayload t ct sv a r) = (sql_uuid t \<and> sql_nonempty a)"

text \<open>\<^verbatim>\<open>^\d{4}-\d{2}-\d{2}T\d{2}:\d{2}:\d{2}(\.\d+)?(Z|[+-]\d{2}:\d{2})$\<close>; a \<open>d\<close> of the template is a digit.\<close>

definition like_template :: "string \<Rightarrow> ustr \<Rightarrow> bool" where
  "like_template t s = list_all2 (\<lambda>x c. if x = CHR ''d'' then ascii_digit c else c = of_char x) t s"

definition sql_zone :: "ustr \<Rightarrow> bool" where
  "sql_zone s = (s = [90] \<or> (s \<noteq> [] \<and> (hd s = 43 \<or> hd s = 45) \<and> like_template ''dd:dd'' (tl s)))"

definition sql_instant :: "ustr \<Rightarrow> bool" where
  "sql_instant s = (like_template ''dddd-dd-ddTdd:dd:dd'' (take 19 s) \<and>
     (let r = drop 19 s in sql_zone r \<or>
        (r \<noteq> [] \<and> hd r = 46 \<and> takeWhile ascii_digit (tl r) \<noteq> [] \<and> sql_zone (dropWhile ascii_digit (tl r)))))"

definition sql_source :: "SourceReference \<Rightarrow> bool" where
  "sql_source s = (sql_nonempty (sr_reference s) \<and> jsonb_object (sr_locator s) \<and> sr_locator s \<noteq> JObj [] \<and>
     is_sha256 (sr_content_hash s) \<and> sql_instant (sr_retrieved_at s) \<and> pred_option sql_instant (sr_source_timestamp s))"

definition sql_confidence :: "Confidence \<Rightarrow> bool" where
  "sql_confidence c = (sql_nonempty (cf_kind c) \<and> sql_unit_decimal (cf_value c) \<and> sql_nonempty (cf_meaning c) \<and>
     list_all sql_uuid (cf_basis_artifact_ids c))"

definition validate_reasoning_artifact_envelope :: "ReasoningArtifact \<Rightarrow> bool" where
  "validate_reasoning_artifact_envelope a =
     (ra_owner_actor_class a \<noteq> POLICY \<and> \<not> (ra_kind a = FACT \<and> ra_owner_actor_class a = AGENT) \<and>
      sql_nonempty (pv_reference (ra_provenance a)) \<and>
      pred_option sql_uuid (pv_model_call_id (ra_provenance a)) \<and>
      pred_option sql_uuid (pv_activity_id (ra_provenance a)) \<and>
      \<not> (ra_kind a = FACT \<and> pv_origin (ra_provenance a) = ORIGIN_LLM) \<and>
      \<not> (ra_kind a = EVIDENCE \<and> pv_origin (ra_provenance a) = ORIGIN_HISTORICAL_SESSION) \<and>
      \<not> ((ra_kind a = FACT \<or> ra_kind a = EVIDENCE) \<and> ra_source_references a = []) \<and>
      list_all sql_source (ra_source_references a) \<and>
      list_all (\<lambda>r. sql_uuid (pr_target_artifact_id r)) (ra_parent_relationships a) \<and>
      pred_option sql_confidence (ra_confidence a) \<and>
      \<not> (ra_kind a = POSITION \<and> ra_confidence a = None) \<and>
      \<not> (ra_kind a = FACT \<and> ra_confidence a \<noteq> None) \<and>
      \<not> (ra_kind a = EVIDENCE \<and> ra_version a = 1 \<and> \<not> unverified_evidence (ra_payload a)) \<and>
      jsonb_object (ra_metadata a))"

text \<open>The types of the columns: integers of four bytes, and documents whose texts and names hold no NUL.\<close>

definition int4 :: "int \<Rightarrow> bool" where
  "int4 n = (- (2 ^ 31) \<le> n \<and> n < 2 ^ 31)"

primrec no_nul :: "json \<Rightarrow> bool" where
  "no_nul JNull = True"
| "no_nul (JBool b) = True"
| "no_nul (JInt i) = True"
| "no_nul (JStr s) = (0 \<notin> set s)"
| "no_nul (JList xs) = list_all (\<lambda>b. b) (map no_nul xs)"
| "no_nul (JObj items) = list_all (\<lambda>kb. 0 \<notin> set (fst kb) \<and> snd kb) (map (map_prod (\<lambda>k. k) no_nul) items)"

definition jsonb_columns :: "ReasoningArtifact \<Rightarrow> json list" where
  "jsonb_columns a = [payload_json (ra_payload a), provenance_json (ra_provenance a),
     JList (map source_json (ra_source_references a)), JList (map relationship_json (ra_parent_relationships a)),
     jopt confidence_json (ra_confidence a), ra_metadata a]"

definition column_types :: "ReasoningArtifact \<Rightarrow> bool" where
  "column_types a = (int4 (ra_schema_version a) \<and> int4 (ra_version a) \<and> int4 (ra_round a) \<and>
     list_all no_nul (jsonb_columns a))"

text \<open>What the table refuses: values outside a column's type, then the check constraints in the order of their
  declaration.\<close>

definition artifact_row_check :: "ReasoningArtifact \<Rightarrow> py_error option" where
  "artifact_row_check a =
     (if \<not> column_types a then Some (DataError ''reasoning_artifacts'')
      else if \<not> 0 < ra_schema_version a then Some (IntegrityError ''ck_reasoning_artifacts_schema_version_positive'')
      else if \<not> 0 < ra_version a then Some (IntegrityError ''ck_reasoning_artifacts_version_positive'')
      else if \<not> 0 \<le> ra_round a then Some (IntegrityError ''ck_reasoning_artifacts_round_nonnegative'')
      else if \<not> is_sha256 (ra_content_hash a) then Some (IntegrityError ''ck_reasoning_artifacts_content_hash_format'')
      else if \<not> valid_revision (ra_version a) (ra_supersedes_id a)
        then Some (IntegrityError ''ck_reasoning_artifacts_revision_shape'')
      else if payload_kind (ra_payload a) \<noteq> ra_kind a \<or> \<not> validate_reasoning_artifact_payload (ra_payload a)
        then Some (IntegrityError ''ck_reasoning_artifacts_payload'')
      else if \<not> validate_reasoning_artifact_envelope a then Some (IntegrityError ''ck_reasoning_artifacts_envelope'')
      else None)"

text \<open>The artifacts a payload refers to, in the order the reference trigger looks them up.\<close>

fun payload_references :: "ArtifactPayload \<Rightarrow> uuid list" where
  "payload_references (ClaimPayload st ct d str se oe rs) = se @ oe"
| "payload_references (InferencePayload ps c k t v) = ps @ [c]"
| "payload_references (EvidencePayload c r q v t w p) = [c]"
| "payload_references (IntervalUncertaintyPayload t u ds lo hi un) = [t]"
| "payload_references (DistributionUncertaintyPayload t u ds f ps un) = [t]"
| "payload_references (ScenariosUncertaintyPayload t u ds ss) = [t]"
| "payload_references (QualitativeUncertaintyPayload t u ds l e) = [t]"
| "payload_references (RiskPayload st p i u os) = u # os"
| "payload_references (ImpactPayload a ob m un tf sa) = [a, ob, sa]"
| "payload_references (ObjectivePayload n t d w wr h cs) = cs"
| "payload_references (PositionPayload t s r es cs) = t # es"
| "payload_references (CritiquePayload t ct sv a r) = [t]"
| "payload_references _ = []"

definition artifact_references :: "ReasoningArtifact \<Rightarrow> uuid list" where
  "artifact_references a = map pr_target_artifact_id (ra_parent_relationships a) @
     (case ra_confidence a of None \<Rightarrow> [] | Some c \<Rightarrow> cf_basis_artifact_ids c) @ payload_references (ra_payload a)"

text \<open>What \<open>decimal_init\<close> leaves: a sign, an integer part, and a fraction that ends in no zero.\<close>

definition integer_part :: "ustr \<Rightarrow> bool" where
  "integer_part i = (i = [48] \<or> (i \<noteq> [] \<and> 49 \<le> hd i \<and> hd i \<le> 57 \<and> list_all udigit i))"

definition canonical_decimal :: "ustr \<Rightarrow> bool" where
  "canonical_decimal w = (w \<noteq> [45, 48] \<and> (\<exists>sg i f. w = sg @ i @ f \<and> (sg = [] \<or> sg = [45]) \<and> integer_part i \<and>
     (f = [] \<or> (\<exists>ds. f = 46 # ds \<and> ds \<noteq> [] \<and> list_all udigit ds \<and> last ds \<noteq> 48))))"

definition ascii_text :: "ustr \<Rightarrow> bool" where
  "ascii_text s = list_all (\<lambda>c. c < 128) s"

definition scenario_canonical :: "Scenario \<Rightarrow> bool" where
  "scenario_canonical s = (canonical_decimal (sn_probability s) \<and> text_ok (sn_name s) \<and>
     unit_decimal_pattern (sn_probability s) \<and> scalars (sn_value s))"

fun payload_decimals :: "ArtifactPayload \<Rightarrow> ustr list" where
  "payload_decimals (EvidencePayload c r q v t w p) = [w]"
| "payload_decimals (IntervalUncertaintyPayload t u ds lo hi un) = [lo, hi]"
| "payload_decimals (ScenariosUncertaintyPayload t u ds ss) = map sn_probability ss"
| "payload_decimals (RiskPayload st p i u os) = [p]"
| "payload_decimals (ImpactPayload a ob m un tf sa) = [m]"
| "payload_decimals (ObjectivePayload n t d w wr h cs) = [w]"
| "payload_decimals _ = []"

definition artifact_decimals :: "ReasoningArtifact \<Rightarrow> ustr list" where
  "artifact_decimals a = payload_decimals (ra_payload a) @
     (case ra_confidence a of None \<Rightarrow> [] | Some c \<Rightarrow> [cf_value c])"

text \<open>
  What the columns require beyond the validators: the integers have four bytes, no text holds a NUL, the UUIDs
  of references, of the model call and of the activity are of RFC 9562, the digits of the decimals are ASCII,
  and the times of the sources are written as instants with an offset. The artifact's own identifier and those
  of its workspace, session, owner, logical artifact and predecessor stand in UUID columns, which take any.
\<close>

definition storable :: "ReasoningArtifact \<Rightarrow> bool" where
  "storable a = (column_types a \<and> list_all sql_uuid (artifact_references a) \<and>
     pred_option sql_uuid (pv_model_call_id (ra_provenance a)) \<and>
     pred_option sql_uuid (pv_activity_id (ra_provenance a)) \<and>
     list_all ascii_text (artifact_decimals a) \<and>
     list_all (\<lambda>s. sql_instant (sr_retrieved_at s) \<and> pred_option sql_instant (sr_source_timestamp s)) (ra_source_references a))"

definition artifact_digest :: "ReasoningArtifact \<Rightarrow> string" where
  "artifact_digest a = sha256_text (canonical_bytes (hash_preimage a))"



subsection \<open>Canonical decimals\<close>

lemma canonical_decimalI:
  assumes "sg = [] \<or> sg = [45]" "integer_part i" "sg @ i @ f \<noteq> [45, 48]"
    and "f = [] \<or> (\<exists>ds. f = 46 # ds \<and> ds \<noteq> [] \<and> list_all udigit ds \<and> last ds \<noteq> 48)"
  shows "canonical_decimal (sg @ i @ f)"
  using assms unfolding canonical_decimal_def by blast

lemma canonical_zero: "canonical_decimal [48]"
  using canonical_decimalI [of "[]" "[48]" "[]"] by (simp add: integer_part_def)

lemma udigit_simps [simp]: "\<not> udigit 45" "\<not> udigit 46" "\<not> udigit 69" "\<not> udigit 101" "udigit 48" "udigit 49"
  by (simp_all add: udigit_def digit_zeros_def)

lemma udigit_ascii: "48 \<le> c \<Longrightarrow> c \<le> 57 \<Longrightarrow> udigit c"
  by (simp add: udigit_def digit_zeros_def)

lemma integer_part_udigit: "integer_part i \<Longrightarrow> list_all udigit i"
  by (auto simp: integer_part_def)

lemma integer_part_nonempty: "integer_part i \<Longrightarrow> i \<noteq> []"
  by (auto simp: integer_part_def)

lemma integer_part_hd: "integer_part i \<Longrightarrow> hd i \<noteq> 45"
  by (auto simp: integer_part_def)

lemma unsigned_shape:
  assumes "sg = [] \<or> sg = [45]" "integer_part i"
  shows "unsigned (sg @ i @ f) = i @ f"
  using assms integer_part_nonempty [of i] integer_part_hd [of i] by (auto simp: unsigned_def hd_append)

lemma digit_split:
  assumes "list_all udigit i" "f = [] \<or> \<not> udigit (hd f)"
  shows "takeWhile udigit (i @ f) = i" "dropWhile udigit (i @ f) = f"
  using assms by (cases f; auto simp: list_all_iff takeWhile_append dropWhile_append)+

lemma decimal_pattern_shape:
  "decimal_pattern v \<longleftrightarrow> (\<exists>sg i f. v = sg @ i @ f \<and> (sg = [] \<or> sg = [45]) \<and> integer_part i \<and>
     (f = [] \<or> (\<exists>ds. f = 46 # ds \<and> ds \<noteq> [] \<and> list_all udigit ds)))" (is "?l \<longleftrightarrow> ?r")
proof
  assume ?l
  define u where "u = unsigned v"
  define i where "i = takeWhile udigit u"
  define f where "f = dropWhile udigit u"
  define sg where "sg = (if v \<noteq> [] \<and> hd v = 45 then [45::nat] else [])"
  have "v = sg @ u" by (cases v) (auto simp: sg_def u_def unsigned_def)
  moreover have "u = i @ f" by (simp add: i_def f_def)
  moreover have "list_all udigit i" by (auto simp: i_def list_all_iff dest: set_takeWhileD)
  moreover have i: "i = [48] \<or> (i \<noteq> [] \<and> 49 \<le> hd i \<and> hd i \<le> 57)"
    and f: "f = [] \<or> (hd f = 46 \<and> tl f \<noteq> [] \<and> list_all udigit (tl f))"
    using \<open>?l\<close> by (simp_all add: decimal_pattern_def unsigned_decimal_def Let_def u_def i_def f_def)
  moreover have "f = [] \<or> (\<exists>ds. f = 46 # ds \<and> ds \<noteq> [] \<and> list_all udigit ds)"
    using f by (cases f) auto
  moreover have "sg = [] \<or> sg = [45]" by (simp add: sg_def)
  ultimately have "v = sg @ i @ f" "sg = [] \<or> sg = [45]" "integer_part i"
    "f = [] \<or> (\<exists>ds. f = 46 # ds \<and> ds \<noteq> [] \<and> list_all udigit ds)"
    unfolding integer_part_def by blast+
  then show ?r by blast
next
  assume ?r
  then obtain sg i f where v: "v = sg @ i @ f" "sg = [] \<or> sg = [45]" "integer_part i"
    and f: "f = [] \<or> (\<exists>ds. f = 46 # ds \<and> ds \<noteq> [] \<and> list_all udigit ds)" by blast
  have "f = [] \<or> \<not> udigit (hd f)" using f by auto
  note sp = digit_split [OF integer_part_udigit [OF v(3)] this]
  show ?l using v(3) f unfolding decimal_pattern_def unsigned_decimal_def v(1) unsigned_shape [OF v(2,3)] Let_def sp
    by (auto simp: integer_part_def)
qed

lemma rstrip_append_keep: "ys \<noteq> [] \<Longrightarrow> last ys \<noteq> c \<Longrightarrow> rstrip c (xs @ ys) = xs @ ys"
  by (cases ys rule: rev_cases) (auto simp: rstrip_def)

lemma rstrip_split: obtains k where "s = rstrip c s @ replicate k c"
proof -
  have "rev s = takeWhile (\<lambda>x. x = c) (rev s) @ dropWhile (\<lambda>x. x = c) (rev s)" by simp
  moreover have "takeWhile (\<lambda>x. x = c) (rev s) = replicate (length (takeWhile (\<lambda>x. x = c) (rev s))) c"
    by (metis (mono_tags, lifting) replicate_length_same set_takeWhileD)
  ultimately have "s = rstrip c s @ replicate (length (takeWhile (\<lambda>x. x = c) (rev s))) c"
    unfolding rstrip_def by (metis rev_append rev_replicate rev_rev_ident)
  then show ?thesis by (rule that)
qed

lemma rstrip_last: "rstrip c s \<noteq> [] \<Longrightarrow> last (rstrip c s) \<noteq> c"
  using hd_dropWhile [of "\<lambda>x. x = c" "rev s"] unfolding rstrip_def by (simp add: last_rev)

lemma rstrip_zeros: "rstrip c (s @ replicate k c) = rstrip c s"
  by (simp add: rstrip_def dropWhile_append)

lemma rstrip_fraction:
  assumes "list_all udigit ds"
  shows "rstrip 46 (rstrip 48 (x @ 46 # ds)) = (if rstrip 48 ds = [] then rstrip 46 x else x @ 46 # rstrip 48 ds)"
proof -
  obtain k where k: "ds = rstrip 48 ds @ replicate k 48" by (rule rstrip_split)
  have "rstrip 48 (x @ 46 # ds) = rstrip 48 ((x @ 46 # rstrip 48 ds) @ replicate k 48)" using k by simp
  also have "\<dots> = rstrip 48 (x @ 46 # rstrip 48 ds)" by (rule rstrip_zeros)
  also have "\<dots> = x @ 46 # rstrip 48 ds"
    using rstrip_append_keep [of "46 # rstrip 48 ds" 48 x] rstrip_last [of 48 ds] by auto
  finally have s: "rstrip 48 (x @ 46 # ds) = x @ 46 # rstrip 48 ds" .
  show ?thesis
  proof (cases "rstrip 48 ds = []")
    case True
    then show ?thesis using rstrip_zeros [of 46 x 1] by (simp add: s)
  next
    case False
    then have "udigit (last (rstrip 48 ds))" using k assms by (metis Un_iff last_in_set list_all_iff set_append)
    then have "last (46 # rstrip 48 ds) \<noteq> 46" using False by auto
    with False show ?thesis using rstrip_append_keep [of "46 # rstrip 48 ds" 46 x] by (simp add: s)
  qed
qed

lemma no_dot: "sg = [] \<or> sg = [45] \<Longrightarrow> list_all udigit i \<Longrightarrow> 46 \<notin> set (sg @ i)"
  by (auto simp: list_all_iff)

lemma decimal_init_cases:
  assumes "decimal_init v = Inr w"
  obtains (Whole) sg i where "v = sg @ i" "sg = [] \<or> sg = [45]" "integer_part i"
      "w = (if v = [45, 48] then [48] else v)"
  | (Fraction) sg i ds where "v = sg @ i @ 46 # ds" "sg = [] \<or> sg = [45]" "integer_part i" "ds \<noteq> []"
      "list_all udigit ds" "w = (if rstrip 48 ds = [] then (if sg @ i = [45, 48] then [48] else sg @ i)
        else sg @ i @ 46 # rstrip 48 ds)"
proof -
  have "decimal_pattern v" and w: "w = (let r = (if 46 \<in> set v then rstrip 46 (rstrip 48 v) else v)
      in if r = [45, 48] \<or> r = [] then [48] else r)"
    using assms by (auto simp: decimal_init_def Let_def split: if_splits)
  then obtain sg i f where v: "v = sg @ i @ f" "sg = [] \<or> sg = [45]" "integer_part i"
    and f: "f = [] \<or> (\<exists>ds. f = 46 # ds \<and> ds \<noteq> [] \<and> list_all udigit ds)"
    unfolding decimal_pattern_shape by blast
  have i: "i \<noteq> []" "list_all udigit i" using v(3) integer_part_nonempty integer_part_udigit by auto
  note nd = no_dot [OF v(2) i(2)]
  from f show ?thesis
  proof
    assume "f = []"
    with v nd i w show ?thesis by (intro Whole [of sg i]) (auto simp: Let_def)
  next
    assume "\<exists>ds. f = 46 # ds \<and> ds \<noteq> [] \<and> list_all udigit ds"
    then obtain ds where ds: "f = 46 # ds" "ds \<noteq> []" "list_all udigit ds" by blast
    have "46 \<in> set v" using v(1) ds(1) by simp
    moreover have "rstrip 46 (rstrip 48 v) = (if rstrip 48 ds = [] then rstrip 46 (sg @ i) else sg @ i @ 46 # rstrip 48 ds)"
      using rstrip_fraction [OF ds(3), of "sg @ i"] v(1) ds(1) by simp
    moreover have "rstrip 46 (sg @ i) = sg @ i" using i(1) i(2) rstrip_append_keep [of i 46 sg]
      by (metis last_in_set list_all_iff udigit_simps(2))
    ultimately have "w = (if rstrip 48 ds = [] then (if sg @ i = [45, 48] then [48] else sg @ i) else sg @ i @ 46 # rstrip 48 ds)"
      using i(1) unfolding w Let_def by (auto simp: append_eq_Cons_conv)
    with v ds show ?thesis by (intro Fraction [of sg i ds]) auto
  qed
qed

lemma decimal_init_canonical:
  assumes "decimal_init v = Inr w"
  shows "canonical_decimal w"
  using assms
proof (cases rule: decimal_init_cases)
  case (Whole sg i)
  then show ?thesis
    using canonical_zero canonical_decimalI [of sg i "[]"] by (cases "v = [45, 48]") simp_all
next
  case (Fraction sg i ds)
  show ?thesis
  proof (cases "rstrip 48 ds = []")
    case True
    then show ?thesis using Fraction canonical_zero canonical_decimalI [of sg i "[]"]
      by (cases "sg @ i = [45, 48]") simp_all
  next
    case False
    obtain k where "ds = rstrip 48 ds @ replicate k 48" by (rule rstrip_split)
    then have "list_all udigit (rstrip 48 ds)" using Fraction(5) by (metis list_all_append)
    moreover have "w \<noteq> [45, 48]" using False Fraction integer_part_nonempty [OF Fraction(3)]
      by (auto simp: append_eq_Cons_conv)
    ultimately show ?thesis
      using False Fraction rstrip_last [OF False] canonical_decimalI [of sg i "46 # rstrip 48 ds"] by simp
  qed
qed

lemma canonical_decimal_pattern: "canonical_decimal w \<Longrightarrow> decimal_pattern w"
  unfolding canonical_decimal_def decimal_pattern_shape by blast

lemma canonical_decimal_init:
  assumes "canonical_decimal w"
  shows "decimal_init w = Inr w"
proof -
  obtain sg i f where w: "w = sg @ i @ f" "sg = [] \<or> sg = [45]" "integer_part i" "w \<noteq> [45, 48]"
    and f: "f = [] \<or> (\<exists>ds. f = 46 # ds \<and> ds \<noteq> [] \<and> list_all udigit ds \<and> last ds \<noteq> 48)"
    using assms unfolding canonical_decimal_def by blast
  have i: "i \<noteq> []" "list_all udigit i" using w(3) integer_part_nonempty integer_part_udigit by auto
  have c: "\<forall>c \<in> set w. c = 45 \<or> c = 46 \<or> udigit c" using w(1,2) i(2) f by (auto simp: list_all_iff)
  have "101 \<notin> set w" "69 \<notin> set w" using bspec [OF c, of 101] bspec [OF c, of 69] by auto
  moreover have "(if 46 \<in> set w then rstrip 46 (rstrip 48 w) else w) = w"
  proof (cases "f = []")
    case True
    then show ?thesis using no_dot [OF w(2) i(2)] w(1) by auto
  next
    case False
    then obtain ds where ds: "f = 46 # ds" "ds \<noteq> []" "list_all udigit ds" "last ds \<noteq> 48" using f by blast
    have "rstrip 48 ds = ds" using rstrip_append_keep [OF ds(2,4), of "[]"] by simp
    then show ?thesis using rstrip_fraction [OF ds(3), of "sg @ i"] ds w(1) by simp
  qed
  moreover have "w \<noteq> []" using w(1) i(1) by auto
  ultimately show ?thesis using canonical_decimal_pattern [OF assms] w(4) by (simp add: decimal_init_def Let_def)
qed

lemma decimal_init_idem: "decimal_init v = Inr w \<Longrightarrow> decimal_init w = Inr w"
  by (blast intro: canonical_decimal_init decimal_init_canonical)

subsection \<open>The value of a decimal\<close>

lemma digits_number_shift: "foldl (\<lambda>n c. 10 * n + int (digit_value c)) m s = m * 10 ^ length s + digits_number s"
proof (induction s arbitrary: m)
  case (Cons c s)
  from Cons [of "10 * m + int (digit_value c)"] Cons [of "int (digit_value c)"]
  show ?case by (simp add: digits_number_def algebra_simps)
qed (simp add: digits_number_def)

lemma digits_number_append: "digits_number (s @ t) = digits_number s * 10 ^ length t + digits_number t"
  using digits_number_shift [of "digits_number s" t] by (simp add: digits_number_def)

lemma digits_number_Nil [simp]: "digits_number [] = 0"
  by (simp add: digits_number_def)

lemma digits_number_Cons: "digits_number (c # s) = int (digit_value c) * 10 ^ length s + digits_number s"
  using digits_number_append [of "[c]" s] by (simp add: digits_number_def)

lemma digit_value_zero [simp]: "digit_value 48 = 0" "digit_value 49 = 1"
  by (simp_all add: digit_value_def digit_zeros_def)

lemma digits_number_zeros [simp]: "digits_number (replicate k 48) = 0"
  by (induction k) (simp_all add: digits_number_Cons)

lemma digits_number_all_zero: "list_all (\<lambda>c. c = 48) s \<Longrightarrow> digits_number s = 0"
  by (induction s) (simp_all add: digits_number_Cons)

lemma digit_value_le: "digit_value c \<le> 9"
  by (auto simp: digit_value_def find_Some_iff split: option.splits)

lemma digits_number_bounds: "0 \<le> digits_number s \<and> digits_number s < 10 ^ length s"
proof (induction s)
  case (Cons c s)
  have "int (digit_value c) * 10 ^ length s \<le> 9 * 10 ^ length s"
    using digit_value_le [of c] by (intro mult_right_mono) auto
  moreover have "0 \<le> int (digit_value c) * 10 ^ length s" by simp
  moreover have "(10 :: int) ^ length (c # s) = 10 * 10 ^ length s" by simp
  ultimately show ?case using Cons unfolding digits_number_Cons by linarith
qed simp

lemma decimal_value_shape:
  assumes "sg = [] \<or> sg = [45]" "integer_part i" "f = [] \<or> \<not> udigit (hd f)"
  shows "decimal_value (sg @ i @ f) = (if sg = [] then 1 else - 1) * (of_int (digits_number (i @ drop 1 f)) / 10 ^ length (drop 1 f))"
proof -
  have "unsigned (sg @ i @ f) = sg @ i @ f \<longleftrightarrow> sg = []" by (auto simp: unsigned_shape [OF assms(1,2)])
  then show ?thesis
    using digit_split [OF integer_part_udigit [OF assms(2)] assms(3)]
    by (simp add: decimal_value_def Let_def unsigned_shape [OF assms(1,2)])
qed

lemma decimal_init_value:
  assumes "decimal_init v = Inr w"
  shows "decimal_value w = decimal_value v"
  using assms
proof (cases rule: decimal_init_cases)
  case (Whole sg i)
  then show ?thesis using decimal_value_shape [of "[45]" "[48]" "[]"] decimal_value_shape [of "[]" "[48]" "[]"]
    by (auto simp: integer_part_def digits_number_Cons)
next
  case (Fraction sg i ds)
  obtain k where k: "ds = rstrip 48 ds @ replicate k 48" by (rule rstrip_split)
  have v: "decimal_value v = (if sg = [] then 1 else - 1) * (of_int (digits_number (i @ ds)) / 10 ^ length ds)"
    using Fraction decimal_value_shape [of sg i "46 # ds"] by simp
  have "digits_number (i @ ds) = digits_number (i @ rstrip 48 ds) * 10 ^ k"
    by (subst k) (simp add: digits_number_append power_add algebra_simps)
  moreover have "length ds = length (rstrip 48 ds) + k" by (metis k length_append length_replicate)
  then have "(10 :: rat) ^ length ds = 10 ^ length (rstrip 48 ds) * 10 ^ k" by (simp only: power_add)
  ultimately have n: "(of_int (digits_number (i @ ds)) :: rat) / 10 ^ length ds =
      of_int (digits_number (i @ rstrip 48 ds)) / 10 ^ length (rstrip 48 ds)"
    by simp
  show ?thesis
  proof (cases "rstrip 48 ds = []")
    case False
    with Fraction(2,3,6) decimal_value_shape [of sg i "46 # rstrip 48 ds"] show ?thesis by (simp add: v n)
  next
    case True
    show ?thesis
    proof (cases "sg @ i = [45, 48]")
      case True': True
      then have "sg = [45]" "i = [48]" using Fraction(2,3) by (auto simp: integer_part_def)
      moreover have "digits_number ds = 0" using k True digits_number_zeros [of k] by simp
      ultimately show ?thesis using True Fraction(6) decimal_value_shape [of "[]" "[48]" "[]"]
        by (simp add: v digits_number_Cons integer_part_def)
    next
      case False
      with True Fraction(2,3,6) decimal_value_shape [of sg i "[]"] show ?thesis by (simp add: v n)
    qed
  qed
qed

lemma unit_decimal_value:
  assumes "unit_decimal_pattern w"
  shows "0 \<le> decimal_value w \<and> decimal_value w \<le> 1"
proof -
  have split2: "x = take 2 x @ drop 2 x" for x :: ustr by simp
  have dot: "takeWhile udigit (c # 46 # ds) = [c]" "dropWhile udigit (c # 46 # ds) = 46 # ds"
    if "udigit c" for c ds using that by simp_all
  consider (Zero) "unsigned w = [48]"
    | (Zeros) ds where "unsigned w = 48 # 46 # ds" "list_all (\<lambda>c. c = 48) ds"
    | (Part) ds where "w = 48 # 46 # ds"
    | (One) "w = [49]"
    | (Ones) ds where "w = 49 # 46 # ds" "list_all (\<lambda>c. c = 48) ds"
  proof -
    from assms consider "unsigned w = [48]"
      | "take 2 (unsigned w) = [48, 46]" "list_all (\<lambda>c. c = 48) (drop 2 (unsigned w))"
      | "take 2 w = [48, 46]" | "w = [49]" | "take 2 w = [49, 46]" "list_all (\<lambda>c. c = 48) (drop 2 w)"
      unfolding unit_decimal_pattern_def Let_def by blast
    then show thesis
      using split2 [of w] split2 [of "unsigned w"] that by cases auto
  qed
  then show ?thesis
  proof cases
    case Zero
    then show ?thesis by (auto simp: decimal_value_def Let_def digits_number_Cons)
  next
    case (Zeros ds)
    then show ?thesis
      by (auto simp: decimal_value_def Let_def dot digits_number_Cons digits_number_all_zero)
  next
    case (Part ds)
    have u: "unsigned w = w" by (simp add: Part unsigned_def)
    have "(of_int (digits_number ds) :: rat) \<le> of_int (10 ^ length ds)"
      using digits_number_bounds [of ds] by (subst of_int_le_iff) simp
    then show ?thesis using digits_number_bounds [of ds]
      by (simp add: decimal_value_def Let_def u) (simp add: Part dot digits_number_Cons divide_le_eq_1)
  next
    case One
    then show ?thesis by (simp add: decimal_value_def Let_def unsigned_def digits_number_Cons)
  next
    case (Ones ds)
    have u: "unsigned w = w" by (simp add: Ones unsigned_def)
    show ?thesis using Ones(2)
      by (simp add: decimal_value_def Let_def u) (simp add: Ones dot digits_number_Cons digits_number_all_zero)
  qed
qed

subsection \<open>Decimals of the database\<close>

lemma udigit_ascii_iff: "c < 128 \<Longrightarrow> udigit c \<longleftrightarrow> ascii_digit c"
  by (auto simp: udigit_def digit_zeros_def ascii_digit_def)

lemma ascii_digit_udigit: "ascii_digit c \<Longrightarrow> udigit c"
  by (simp add: ascii_digit_def udigit_ascii)

lemma sql_decimal_canonical:
  assumes "canonical_decimal w"
  shows "sql_decimal w \<longleftrightarrow> ascii_text w"
proof -
  obtain sg i f where w: "w = sg @ i @ f" "sg = [] \<or> sg = [45]" "integer_part i" "w \<noteq> [45, 48]"
    and f: "f = [] \<or> (\<exists>ds. f = 46 # ds \<and> ds \<noteq> [] \<and> list_all udigit ds \<and> last ds \<noteq> 48)"
    using assms unfolding canonical_decimal_def by blast
  have u: "unsigned w = i @ f" using unsigned_shape [OF w(2,3)] w(1) by simp
  have split: "takeWhile ascii_digit (i @ f) = i" "dropWhile ascii_digit (i @ f) = f" if "list_all ascii_digit i"
    using that f by (auto simp: list_all_iff takeWhile_append dropWhile_append ascii_digit_def)
  show ?thesis
  proof
    assume "ascii_text w"
    then have a: "list_all ascii_digit i" "f = [] \<or> (\<exists>ds. f = 46 # ds \<and> ds \<noteq> [] \<and> list_all ascii_digit ds \<and> last ds \<noteq> 48)"
      using f integer_part_udigit [OF w(3)] udigit_ascii_iff
      by (auto simp: ascii_text_def w(1) list_all_iff)
    have "i = [48] \<or> (i \<noteq> [] \<and> 49 \<le> hd i)" using w(3) by (auto simp: integer_part_def)
    then show "sql_decimal w" using a(2) w(4) unfolding sql_decimal_def Let_def u split [OF a(1)]
      by (cases f) auto
  next
    assume s: "sql_decimal w"
    have i: "list_all ascii_digit i"
    proof (rule ccontr)
      assume n: "\<not> list_all ascii_digit i"
      then have "dropWhile ascii_digit (i @ f) = dropWhile ascii_digit i @ f" "dropWhile ascii_digit i \<noteq> []"
        by (auto simp: list_all_iff dropWhile_append)
      then have "hd (dropWhile ascii_digit (i @ f)) = hd (dropWhile ascii_digit i)" by simp
      moreover have "hd (dropWhile ascii_digit i) \<in> set i"
        using \<open>dropWhile ascii_digit i \<noteq> []\<close> by (meson hd_in_set set_dropWhileD)
      ultimately have "hd (dropWhile ascii_digit (i @ f)) \<noteq> 46"
        using integer_part_udigit [OF w(3)] by (auto simp: list_all_iff)
      moreover have "dropWhile ascii_digit (i @ f) \<noteq> []" using n by (auto simp: list_all_iff)
      ultimately show False using s by (auto simp: sql_decimal_def Let_def u)
    qed
    then have "f = [] \<or> (hd f = 46 \<and> list_all ascii_digit (tl f))" 
      using s unfolding sql_decimal_def Let_def u split [OF i] by blast
    then have "\<forall>c \<in> set w. c = 45 \<or> c = 46 \<or> ascii_digit c"
      using i w(2) by (cases f) (auto simp: w(1) list_all_iff)
    then show "ascii_text w" by (auto simp: ascii_text_def list_all_iff ascii_digit_def)
  qed
qed

lemma sql_unit_decimal_canonical:
  "canonical_decimal w \<Longrightarrow> unit_decimal_pattern w \<Longrightarrow> sql_unit_decimal w \<longleftrightarrow> ascii_text w"
  by (simp add: sql_unit_decimal_def sql_decimal_canonical unit_decimal_value)

subsection \<open>Validation leaves canonical values\<close>

lemma checked_Inr_iff [result_simps]: "checked ok x = Inr y \<longleftrightarrow> ok \<and> y = x"
  by (auto simp: checked_def)

lemma checked_True [simp]: "checked True x = Inr x"
  by (simp add: checked_def)

lemma canonical_init_iff [simp]: "canonical_decimal w \<Longrightarrow> decimal_init w = Inr v \<longleftrightarrow> v = w"
  by (auto simp: canonical_decimal_init)

lemma scenarios_init_canonical: "emap scenario_init ss = Inr ts \<Longrightarrow> list_all scenario_canonical ts"
  by (induction ss arbitrary: ts)
     (auto simp: result_simps scenario_init_def scenario_canonical_def decimal_init_canonical)

lemma scenarios_canonical_init [simp]: "list_all scenario_canonical ts \<Longrightarrow> emap scenario_init ts = Inr us \<longleftrightarrow> us = ts"
proof -
  assume "list_all scenario_canonical ts"
  then have "emap scenario_init ts = Inr ts"
    by (induction ts) (auto simp: result_simps scenario_init_def scenario_canonical_def)
  then show ?thesis by auto
qed

lemma payload_init_idem: "payload_init p = Inr q \<Longrightarrow> payload_init q = Inr q"
  by (cases p)
     (auto simp: result_simps split: if_splits dest!: decimal_init_canonical scenarios_init_canonical)

lemma payload_init_kind: "payload_init p = Inr q \<Longrightarrow> payload_kind q = payload_kind p"
  by (cases p) (auto simp: result_simps split: if_splits)

text \<open>A confidence is matched with the unit pattern before its zeros are cut, which keeps the match.\<close>

lemma unit_decimal_init:
  assumes "unit_decimal_pattern v" "decimal_init v = Inr w"
  shows "unit_decimal_pattern w"
proof -
  have zeros: "unit_decimal_pattern [48]" "unit_decimal_pattern [49]"
    by (simp_all add: unit_decimal_pattern_def unsigned_def)
  have split2: "x = take 2 x @ drop 2 x" for x :: ustr by simp
  have r0: "rstrip 48 ds = []" if "list_all (\<lambda>c. c = 48) ds" for ds
    using that by (simp add: rstrip_def dropWhile_eq_Nil_conv list_all_iff)
  have dig: "list_all udigit ds" if "list_all (\<lambda>c. c = 48) ds" for ds
    using that by (auto simp: list_all_iff)
  have w: "w = (let r = (if 46 \<in> set v then rstrip 46 (rstrip 48 v) else v)
      in if r = [45, 48] \<or> r = [] then [48] else r)"
    using assms(2) by (auto simp: decimal_init_def Let_def split: if_splits)
  consider (Zero) "v = [48] \<or> v = [45, 48]"
    | (Zeros) sg ds where "v = sg @ [48] @ 46 # ds" "sg = [] \<or> sg = [45]" "list_all (\<lambda>c. c = 48) ds"
    | (Part) ds where "v = [48] @ 46 # ds" "ds \<noteq> []" "list_all udigit ds"
    | (One) "v = [49]"
    | (Ones) ds where "v = [49] @ 46 # ds" "list_all (\<lambda>c. c = 48) ds"
  proof -
    have u: "v = unsigned v \<or> v = 45 # unsigned v" by (cases v) (auto simp: unsigned_def)
    from assms(1) consider "unsigned v = [48]"
      | "take 2 (unsigned v) = [48, 46]" "list_all (\<lambda>c. c = 48) (drop 2 (unsigned v))"
      | "take 2 v = [48, 46]" "drop 2 v \<noteq> []" "list_all udigit (drop 2 v)" | "v = [49]"
      | "take 2 v = [49, 46]" "list_all (\<lambda>c. c = 48) (drop 2 v)"
      unfolding unit_decimal_pattern_def Let_def by blast
    then show thesis
    proof cases
      case 1
      then show thesis using u that(1) by auto
    next
      case 2
      then have "unsigned v = [48] @ 46 # drop 2 (unsigned v)" using split2 [of "unsigned v"] by simp
      then show thesis using u 2(2) that(2) [of "[]" "drop 2 (unsigned v)"] that(2) [of "[45]" "drop 2 (unsigned v)"]
        by auto
    next
      case 3
      then show thesis using split2 [of v] that(3) [of "drop 2 v"] by simp
    next
      case 5
      then show thesis using split2 [of v] that(5) [of "drop 2 v"] by simp
    qed (rule that(4))
  qed
  then show ?thesis
  proof cases
    case Zero
    then show ?thesis using zeros by (auto simp: w Let_def)
  next
    case (Zeros sg ds)
    then have "rstrip 46 (rstrip 48 v) = rstrip 46 (sg @ [48])"
      using rstrip_fraction [OF dig [OF Zeros(3)], of "sg @ [48]"] r0 [OF Zeros(3)] by simp
    then show ?thesis using Zeros(1,2) zeros by (auto simp: w Let_def rstrip_def)
  next
    case (Part ds)
    have "rstrip 46 (rstrip 48 v) = (if rstrip 48 ds = [] then [48] else [48] @ 46 # rstrip 48 ds)"
      using rstrip_fraction [OF Part(3), of "[48]"] Part(1) by (simp add: rstrip_def)
    moreover obtain k where "ds = rstrip 48 ds @ replicate k 48" by (rule rstrip_split)
    then have "list_all udigit (rstrip 48 ds)" using Part(3) by (metis list_all_append)
    ultimately show ?thesis using Part(1) zeros by (auto simp: w Let_def unit_decimal_pattern_def)
  next
    case One
    then show ?thesis using zeros by (auto simp: w Let_def)
  next
    case (Ones ds)
    then have "rstrip 46 (rstrip 48 v) = [49]"
      using rstrip_fraction [OF dig [OF Ones(2)], of "[49]"] r0 [OF Ones(2)] by (simp add: rstrip_def)
    then show ?thesis using Ones(1) zeros by (auto simp: w Let_def)
  qed
qed

lemma confidence_init_idem: "confidence_init c = Inr d \<Longrightarrow> confidence_init d = Inr d"
  by (cases c) (auto simp: confidence_init_def result_simps decimal_init_canonical dest: unit_decimal_init)

lemma candidate_idem:
  assumes "artifact_candidate a = Inr b"
  shows "artifact_candidate b = Inr b"
proof -
  obtain p c where pc: "payload_init (ra_payload a) = Inr p" "confidence_init (ra_confidence a) = Inr c"
    "artifact_fields_ok a" "b = a\<lparr>ra_payload := p, ra_confidence := c\<rparr>" "artifact_invariants b = Inr ()"
    using assms by (auto simp: artifact_candidate_def result_simps)
  then have "artifact_fields_ok b" by (simp add: artifact_fields_ok_def)
  with pc payload_init_idem [OF pc(1)] confidence_init_idem [OF pc(2)] show ?thesis
    by (simp add: artifact_candidate_def result_simps)
qed

lemma validate_idem: "validate_artifact a = Inr b \<Longrightarrow> validate_artifact b = Inr b"
  by (auto simp: validate_artifact_def result_simps dest: candidate_idem)

lemma validate_candidate: "validate_artifact a = Inr b \<Longrightarrow> artifact_candidate b = Inr b"
  by (auto simp: validate_artifact_def result_simps dest: candidate_idem)

subsection \<open>Which artifacts the checks admit\<close>

lemma text_ok_nonempty: "text_ok s \<Longrightarrow> sql_nonempty s"
proof -
  assume "text_ok s"
  then obtain c where "c \<in> set s" "\<not> u_isspace c" by (auto simp: text_ok_def u_blank_def list_all_iff)
  moreover from this(2) have "c \<noteq> 32" by (auto simp: u_isspace_def)
  ultimately show ?thesis by (auto simp: sql_nonempty_def list_ex_iff)
qed

lemma texts_ok_nonempty: "list_all text_ok ss \<Longrightarrow> list_all sql_nonempty ss"
  by (auto simp: list_all_iff text_ok_nonempty)

lemma json_object_ok_object: "json_object_ok j \<Longrightarrow> jsonb_object j"
  by (cases j) (simp_all add: json_object_ok_def)

lemma expression_ok_sql: "expression_ok e \<Longrightarrow> sql_expression e"
  by (auto simp: expression_ok_def sql_expression_def text_ok_nonempty json_object_ok_object)

lemma trust_of_evidence:
  "(t = PRIMARY \<or> t = AUTHORITATIVE \<or> t = SECONDARY \<or> t = COMMERCIAL) \<longleftrightarrow> t \<noteq> UNATTRIBUTED \<and> t \<noteq> SYNTHETIC"
  by (cases t) simp_all

lemma scenarios_check:
  "list_all scenario_canonical ts \<Longrightarrow>
    list_all (\<lambda>s. sql_nonempty (sn_name s) \<and> sql_unit_decimal (sn_probability s)) ts \<longleftrightarrow>
    list_all ascii_text (map sn_probability ts)"
  by (induction ts) (auto simp: scenario_canonical_def text_ok_nonempty sql_unit_decimal_canonical)

lemmas check_simps = text_ok_nonempty texts_ok_nonempty json_object_ok_object expression_ok_sql
  sql_decimal_canonical sql_unit_decimal_canonical scenarios_check not_less trust_of_evidence

lemma payload_init_check:
  assumes "payload_init p = Inr q"
  shows "validate_reasoning_artifact_payload q \<longleftrightarrow>
    list_all sql_uuid (payload_references q) \<and> list_all ascii_text (payload_decimals q)"
  using assms
  by (cases p) (auto simp: result_simps check_simps split: if_splits
    dest!: decimal_init_canonical scenarios_init_canonical)

lemma source_ok_check:
  "list_all source_ok ss \<Longrightarrow> list_all sql_source ss \<longleftrightarrow>
    list_all (\<lambda>s. sql_instant (sr_retrieved_at s) \<and> pred_option sql_instant (sr_source_timestamp s)) ss"
  by (induction ss) (auto simp: source_ok_def sql_source_def check_simps)

lemma confidence_check:
  assumes "confidence_init c = Inr d"
  shows "pred_option sql_confidence d \<longleftrightarrow>
    list_all sql_uuid (case d of None \<Rightarrow> [] | Some cf \<Rightarrow> cf_basis_artifact_ids cf) \<and>
    pred_option (\<lambda>cf. ascii_text (cf_value cf)) d"
proof (cases c)
  case (Some cf)
  then obtain v where v: "decimal_init (cf_value cf) = Inr v" "unit_decimal_pattern (cf_value cf)"
    "text_ok (cf_kind cf)" "text_ok (cf_meaning cf)" "d = Some (cf\<lparr>cf_value := v\<rparr>)"
    using assms by (auto simp: confidence_init_def result_simps)
  with unit_decimal_init [OF v(2,1)] decimal_init_canonical [OF v(1)] show ?thesis
    by (auto simp: sql_confidence_def check_simps)
qed (use assms in \<open>simp add: confidence_init_def\<close>)

lemma invariants_iff:
  "artifact_invariants a = Inr () \<longleftrightarrow> payload_kind (ra_payload a) = ra_kind a \<and>
    valid_revision (ra_version a) (ra_supersedes_id a) \<and> ra_owner_actor_class a \<noteq> POLICY \<and>
    \<not> (ra_kind a = FACT \<and> ra_owner_actor_class a = AGENT) \<and>
    \<not> (ra_kind a = FACT \<and> pv_origin (ra_provenance a) = ORIGIN_LLM) \<and>
    \<not> ((ra_kind a = FACT \<or> ra_kind a = EVIDENCE) \<and> ra_source_references a = []) \<and>
    \<not> (ra_kind a = EVIDENCE \<and> pv_origin (ra_provenance a) = ORIGIN_HISTORICAL_SESSION) \<and>
    \<not> (ra_kind a = EVIDENCE \<and> ra_version a = 1 \<and> \<not> unverified_evidence (ra_payload a)) \<and>
    \<not> (ra_kind a = POSITION \<and> ra_confidence a = None) \<and> \<not> (ra_kind a = FACT \<and> ra_confidence a \<noteq> None)"
  unfolding artifact_invariants_def ebind_eq_Inr_iff eguard_Inr_iff by simp

lemma candidateE:
  assumes "artifact_candidate a = Inr b"
  obtains "payload_init (ra_payload b) = Inr (ra_payload b)" "confidence_init (ra_confidence b) = Inr (ra_confidence b)"
    "artifact_fields_ok b" "artifact_invariants b = Inr ()"
proof -
  obtain p c where "payload_init (ra_payload b) = Inr p" "confidence_init (ra_confidence b) = Inr c"
    "artifact_fields_ok b" "b = b\<lparr>ra_payload := p, ra_confidence := c\<rparr>" "artifact_invariants b = Inr ()"
    using candidate_idem [OF assms] by (auto simp: artifact_candidate_def result_simps)
  moreover from this(4) have "p = ra_payload b" "c = ra_confidence b" by (metis ReasoningArtifact.select_convs(13,17) ReasoningArtifact.surjective ReasoningArtifact.update_convs(13,17))+
  ultimately show ?thesis using that by simp
qed

lemma row_check_iff:
  assumes "artifact_candidate a = Inr b"
  shows "artifact_row_check b = None \<longleftrightarrow> storable b"
  using assms
proof (rule candidateE)
  assume p: "payload_init (ra_payload b) = Inr (ra_payload b)" and c: "confidence_init (ra_confidence b) = Inr (ra_confidence b)"
    and f: "artifact_fields_ok b" and i: "artifact_invariants b = Inr ()"
  note inv = i [unfolded invariants_iff]
  have s: "list_all source_ok (ra_source_references b)" and t: "text_ok (pv_reference (ra_provenance b))"
    and m: "json_object_ok (ra_metadata b)" and n: "0 < ra_schema_version b" "0 < ra_version b" "0 \<le> ra_round b"
      "is_sha256 (ra_content_hash b)"
    using f by (simp_all add: artifact_fields_ok_def)
  have e: "validate_reasoning_artifact_envelope b \<longleftrightarrow>
    pred_option sql_uuid (pv_model_call_id (ra_provenance b)) \<and> pred_option sql_uuid (pv_activity_id (ra_provenance b)) \<and>
    list_all sql_source (ra_source_references b) \<and>
    list_all (\<lambda>r. sql_uuid (pr_target_artifact_id r)) (ra_parent_relationships b) \<and> pred_option sql_confidence (ra_confidence b)"
    using inv text_ok_nonempty [OF t] json_object_ok_object [OF m] unfolding validate_reasoning_artifact_envelope_def
    by blast
  have "artifact_row_check b = None \<longleftrightarrow> column_types b \<and>
    validate_reasoning_artifact_payload (ra_payload b) \<and> validate_reasoning_artifact_envelope b"
    using inv n by (simp add: artifact_row_check_def)
  also have "\<dots> \<longleftrightarrow> storable b"
    unfolding e payload_init_check [OF p] confidence_check [OF c] source_ok_check [OF s] storable_def artifact_references_def
      artifact_decimals_def
    by (auto simp: list.pred_map comp_def split: option.splits)
  finally show ?thesis .
qed

subsection \<open>Hashes of validated artifacts\<close>

lemma scalars_jobj: "scalars (jobj ms) \<longleftrightarrow> list_all (\<lambda>(k, v). scalars v) ms"
  by (induction ms) (auto simp: jobj_def scalars_object ustr_scalar)

lemma scalars_simps [simp]:
  "scalars (jtext s)" "scalars (juuid u)" "scalars (juuids us)"
  "scalars (jtexts ts) \<longleftrightarrow> list_all (list_all scalar) ts"
  "scalars (jopt f x) \<longleftrightarrow> pred_option (\<lambda>y. scalars (f y)) x"
  by (auto simp: jtext_def juuid_def juuids_def jtexts_def jopt_def ustr_scalar list.pred_map comp_def list.pred_True
    split: option.splits)

lemma text_ok_scalar: "text_ok s \<Longrightarrow> list_all scalar s"
  by (simp add: text_ok_def)

lemma texts_ok_scalar: "list_all text_ok ss \<Longrightarrow> list_all (list_all scalar) ss"
  by (auto simp: list_all_iff text_ok_def)

lemma udigit_scalar: "udigit c \<Longrightarrow> scalar c"
  by (auto simp: udigit_def digit_zeros_def scalar_def surrogate_def)

lemma canonical_decimal_scalar: "canonical_decimal w \<Longrightarrow> list_all scalar w"
proof -
  assume "canonical_decimal w"
  then obtain sg i f where w: "w = sg @ i @ f" "sg = [] \<or> sg = [45]" "integer_part i"
    and f: "f = [] \<or> (\<exists>ds. f = 46 # ds \<and> ds \<noteq> [] \<and> list_all udigit ds \<and> last ds \<noteq> 48)"
    unfolding canonical_decimal_def by blast
  then have "\<forall>c \<in> set w. c = 45 \<or> c = 46 \<or> udigit c"
    using integer_part_udigit [OF w(3)] by (auto simp: list_all_iff)
  then show ?thesis by (auto simp: list_all_iff udigit_scalar scalar_ascii)
qed

lemma scenario_scalars: "list_all scenario_canonical ss \<Longrightarrow> list_all (\<lambda>s. scalars (scenario_json s)) ss"
  by (induction ss)
     (auto simp: scenario_canonical_def scenario_json_def scalars_jobj text_ok_scalar canonical_decimal_scalar)

lemma payload_scalars: "payload_init p = Inr q \<Longrightarrow> scalars (payload_json q)"
  by (cases p)
     (auto simp: result_simps scalars_jobj text_ok_scalar texts_ok_scalar canonical_decimal_scalar json_object_ok_def
        expression_ok_def list.pred_map comp_def scenario_scalars split: if_splits
        dest!: decimal_init_canonical scenarios_init_canonical)

lemma confidence_scalars: "confidence_init c = Inr d \<Longrightarrow> pred_option (\<lambda>cf. scalars (confidence_json cf)) d"
  by (cases c)
     (auto simp: confidence_init_def result_simps confidence_json_def scalars_jobj text_ok_scalar
        dest!: decimal_init_canonical intro: canonical_decimal_scalar)

lemma source_scalars: "list_all source_ok ss \<Longrightarrow> list_all (\<lambda>s. scalars (source_json s)) ss"
  by (induction ss) (auto simp: source_ok_def source_json_def scalars_jobj text_ok_scalar json_object_ok_def)

lemma preimage_scalars:
  assumes "artifact_candidate a = Inr b"
  shows "scalars (hash_preimage b)"
  using assms
proof (rule candidateE)
  assume "payload_init (ra_payload b) = Inr (ra_payload b)" "confidence_init (ra_confidence b) = Inr (ra_confidence b)"
    and f: "artifact_fields_ok b"
  then have "scalars (payload_json (ra_payload b))" "pred_option (\<lambda>cf. scalars (confidence_json cf)) (ra_confidence b)"
    by (auto intro: payload_scalars confidence_scalars)
  moreover have "list_all (\<lambda>s. scalars (source_json s)) (ra_source_references b)" "text_ok (pv_reference (ra_provenance b))"
    "scalars (ra_metadata b)"
    using f source_scalars by (auto simp: artifact_fields_ok_def json_object_ok_def)
  moreover have "list_all (\<lambda>r. scalars (relationship_json r)) rs" for rs
    by (simp add: list_all_iff relationship_json_def scalars_jobj)
  ultimately show ?thesis
    by (simp add: hash_preimage_def scalars_jobj provenance_json_def text_ok_scalar list.pred_map comp_def option.pred_True)
qed

lemma validate_artifact_iff:
  "validate_artifact a = Inr b \<longleftrightarrow> artifact_candidate a = Inr b \<and> ra_content_hash b = artifact_digest b"
  using preimage_scalars
  by (auto simp: validate_artifact_def result_simps content_hash_thaw artifact_digest_def)

lemma candidate_hash_irrelevant:
  assumes "is_sha256 h" "artifact_candidate a = Inr b"
  shows "artifact_candidate (a\<lparr>ra_content_hash := h\<rparr>) = Inr (b\<lparr>ra_content_hash := h\<rparr>)"
proof -
  obtain p c where pc: "payload_init (ra_payload a) = Inr p" "confidence_init (ra_confidence a) = Inr c"
    "artifact_fields_ok a" "b = a\<lparr>ra_payload := p, ra_confidence := c\<rparr>" "artifact_invariants b = Inr ()"
    using assms(2) by (auto simp: artifact_candidate_def result_simps)
  then have "artifact_fields_ok (a\<lparr>ra_content_hash := h\<rparr>)" using assms(1) by (simp add: artifact_fields_ok_def)
  moreover have "artifact_invariants (b\<lparr>ra_content_hash := h\<rparr>) = Inr ()" using pc(5) by (simp add: invariants_iff)
  moreover have "a\<lparr>ra_content_hash := h\<rparr>\<lparr>ra_payload := p, ra_confidence := c\<rparr> = b\<lparr>ra_content_hash := h\<rparr>"
    by (simp add: pc(4))
  ultimately show ?thesis using pc(1,2) by (simp add: artifact_candidate_def)
qed

lemma digest_hash_irrelevant [simp]: "artifact_digest (a\<lparr>ra_content_hash := h\<rparr>) = artifact_digest a"
  by (simp add: artifact_digest_def hash_preimage_def)

lemma artifact_digest_valid: "is_sha256 (artifact_digest a)"
  by (simp add: artifact_digest_def sha256_text_valid)

text \<open>The hash computed for the content of an envelope makes the envelope valid.\<close>

lemma content_hash_accepted:
  assumes "artifact_content_hash a = Inr h"
  obtains b where "validate_artifact (a\<lparr>ra_content_hash := h\<rparr>) = Inr b" "ra_content_hash b = h"
proof -
  let ?z = "''sha256:'' @ replicate 64 (CHR ''0'')"
  obtain c where c: "artifact_candidate (a\<lparr>ra_content_hash := ?z\<rparr>) = Inr c" "content_hash (thaw (hash_preimage c)) = Inr h"
    using assms by (auto simp: artifact_content_hash_def result_simps)
  have h: "h = artifact_digest c" using c(2) content_hash_thaw [OF preimage_scalars [OF c(1)]] by (simp add: artifact_digest_def)
  have "artifact_candidate (a\<lparr>ra_content_hash := h\<rparr>) = Inr (c\<lparr>ra_content_hash := h\<rparr>)"
    using candidate_hash_irrelevant [OF _ c(1), of h] artifact_digest_valid h by simp
  then show ?thesis by (intro that [of "c\<lparr>ra_content_hash := h\<rparr>"]) (simp_all add: validate_artifact_iff h)
qed

end
