(* ===== verification/Artifact_Commit.thy ===== *)
theory Artifact_Commit
  imports Reasoning_Artifacts
begin

text \<open>
  The life of an artifact: \<^verbatim>\<open>ArtifactCommitService\<close> of \<^verbatim>\<open>app/application/artifact_commit.py\<close> with its
  commit, revision and withdrawal, over the artifact store of \<^verbatim>\<open>app/db/reasoning_artifacts.py\<close>, the
  write part of the graph store of \<^verbatim>\<open>app/db/reasoning_graph.py\<close> and the ledger. The tables have the
  keys, checks and triggers their migrations declare; deferred ones run when the transaction of the
  caller commits.
\<close>

subsection \<open>Tables\<close>

record GraphNode =
  gn_id :: uuid
  gn_workspace_id :: uuid
  gn_session_id :: uuid
  gn_kind :: ArtifactKind
  gn_ref_id :: uuid
  gn_label :: ustr
  gn_attrs :: json

text \<open>No operation sets the weight of an edge, which is left out.\<close>

record GraphEdge =
  ge_id :: uuid
  ge_workspace_id :: uuid
  ge_session_id :: uuid
  ge_from_node :: uuid
  ge_to_node :: uuid
  ge_edge_type :: GraphEdgeType
  ge_qualifier :: json
  ge_actor_class :: ActorClass
  ge_actor_id :: uuid

definition GraphNode_valid :: "GraphNode \<Rightarrow> bool" where
  "GraphNode_valid n = (text_ok (gn_label n) \<and> scalars (gn_attrs n))"

definition GraphEdge_valid :: "GraphEdge \<Rightarrow> bool" where
  "GraphEdge_valid e = (scalars (ge_qualifier e) \<and> ge_from_node e \<noteq> ge_to_node e)"

text \<open>Rows in the order of their insertion. A session's row stands and falls with its ledger head.\<close>

record artifact_db =
  ab_ledger :: ledger_db
  ab_artifacts :: "ReasoningArtifact list"
  ab_nodes :: "GraphNode list"
  ab_edges :: "GraphEdge list"

definition empty_artifacts :: artifact_db where
  "empty_artifacts = \<lparr>ab_ledger = empty_ledger, ab_artifacts = [], ab_nodes = [], ab_edges = []\<rparr>"

definition session_row :: "artifact_db \<Rightarrow> uuid \<Rightarrow> uuid \<Rightarrow> bool" where
  "session_row db ws s = (case lg_heads (ab_ledger db) s of None \<Rightarrow> False | Some h \<Rightarrow> lh_workspace_id h = ws)"

definition in_session :: "ReasoningArtifact \<Rightarrow> uuid \<Rightarrow> uuid \<Rightarrow> bool" where
  "in_session a ws s = (ra_workspace_id a = ws \<and> ra_session_id a = s)"

definition artifact_row :: "artifact_db \<Rightarrow> uuid \<Rightarrow> uuid \<Rightarrow> uuid \<Rightarrow> ReasoningArtifact option" where
  "artifact_row db ws s i = find (\<lambda>a. in_session a ws s \<and> ra_id a = i) (ab_artifacts db)"

subsection \<open>The artifact store\<close>

definition artifact_add :: "artifact_db \<Rightarrow> ReasoningArtifact \<Rightarrow> artifact_db result" where
  "artifact_add db a =
     (case artifact_row_check a of
        Some refusal \<Rightarrow> Inl refusal
      | None \<Rightarrow>
     if list_ex (\<lambda>b. ra_id b = ra_id a) (ab_artifacts db) then Inl (IntegrityError ''pk_reasoning_artifacts'')
     else if list_ex (\<lambda>b. in_session b (ra_workspace_id a) (ra_session_id a) \<and> ra_logical_id b = ra_logical_id a \<and>
                          ra_version b = ra_version a) (ab_artifacts db)
     then Inl (IntegrityError ''uq_reasoning_artifacts_logical_version'')
     else if \<not> session_row db (ra_workspace_id a) (ra_session_id a)
     then Inl (IntegrityError ''fk_reasoning_artifacts_session_workspace'')
     else if \<not> pred_option (\<lambda>p. artifact_row db (ra_workspace_id a) (ra_session_id a) p \<noteq> None) (ra_supersedes_id a)
     then Inl (IntegrityError ''fk_reasoning_artifacts_supersedes_workspace_session'')
     else Inr (db\<lparr>ab_artifacts := ab_artifacts db @ [a]\<rparr>))"

text \<open>A row is read by validating its columns again.\<close>

definition get_for_update :: "artifact_db \<Rightarrow> uuid \<Rightarrow> uuid \<Rightarrow> uuid \<Rightarrow> ReasoningArtifact option result" where
  "get_for_update db ws s i = (case artifact_row db ws s i of
     None \<Rightarrow> Inr None
   | Some row \<Rightarrow> ebind (validate_artifact row) (\<lambda>a. Inr (Some a)))"

text \<open>The update trigger lets an active artifact leave its state, and no time move backwards.\<close>

definition enforce_immutability :: "ReasoningArtifact \<Rightarrow> LifecycleStatus \<Rightarrow> datetime \<Rightarrow> unit result" where
  "enforce_immutability old status updated_at =
     (if \<not> (status = ra_status old \<or> (ra_status old = ACTIVE \<and> (status = SUPERSEDED \<or> status = WITHDRAWN)))
      then Inl (IntegrityError ''invalid reasoning artifact lifecycle transition'')
      else if dt_less updated_at (ra_updated_at old)
      then Inl (IntegrityError ''artifact updated_at cannot move backwards'')
      else Inr ())"

definition set_status :: "uuid \<Rightarrow> LifecycleStatus \<Rightarrow> datetime \<Rightarrow> ReasoningArtifact \<Rightarrow> ReasoningArtifact" where
  "set_status i status updated_at a =
     (if ra_id a = i then a\<lparr>ra_status := status, ra_updated_at := updated_at\<rparr> else a)"

definition set_lifecycle ::
  "artifact_db \<Rightarrow> uuid \<Rightarrow> uuid \<Rightarrow> uuid \<Rightarrow> LifecycleStatus \<Rightarrow> datetime \<Rightarrow> artifact_db result" where
  "set_lifecycle db ws s i status updated_at =
     (case artifact_row db ws s i of
        None \<Rightarrow> Inl (ValueError (''artifact '' @ uuid_str i @ '' does not exist in the tenant session''))
      | Some row \<Rightarrow> ebind (enforce_immutability row status updated_at) (\<lambda>_.
          Inr (db\<lparr>ab_artifacts := map (set_status i status updated_at) (ab_artifacts db)\<rparr>)))"

subsection \<open>The graph store\<close>

definition add_node :: "artifact_db \<Rightarrow> GraphNode \<Rightarrow> artifact_db result" where
  "add_node db n =
     (if list_ex (\<lambda>m. gn_id m = gn_id n) (ab_nodes db) then Inl (IntegrityError ''pk_graph_nodes'')
      else if list_ex (\<lambda>m. gn_session_id m = gn_session_id n \<and> gn_ref_id m = gn_ref_id n) (ab_nodes db)
      then Inl (IntegrityError ''uq_graph_nodes_session_ref'')
      else if \<not> session_row db (gn_workspace_id n) (gn_session_id n)
      then Inl (IntegrityError ''fk_graph_nodes_session_workspace'')
      else Inr (db\<lparr>ab_nodes := ab_nodes db @ [n]\<rparr>))"

definition add_edge :: "artifact_db \<Rightarrow> GraphEdge \<Rightarrow> artifact_db result" where
  "add_edge db e =
     (if list_ex (\<lambda>f. ge_id f = ge_id e) (ab_edges db) then Inl (IntegrityError ''pk_graph_edges'')
      else if list_ex (\<lambda>f. ge_session_id f = ge_session_id e \<and> ge_from_node f = ge_from_node e \<and>
                           ge_to_node f = ge_to_node e \<and> ge_edge_type f = ge_edge_type e) (ab_edges db)
      then Inl (IntegrityError ''uq_graph_edges_session_triple'')
      else if \<not> session_row db (ge_workspace_id e) (ge_session_id e)
      then Inl (IntegrityError ''fk_graph_edges_session_workspace'')
      else Inr (db\<lparr>ab_edges := ab_edges db @ [e]\<rparr>))"

definition node_for_artifact :: "artifact_db \<Rightarrow> uuid \<Rightarrow> uuid \<Rightarrow> uuid \<Rightarrow> GraphNode option" where
  "node_for_artifact db ws s i =
     find (\<lambda>n. gn_workspace_id n = ws \<and> gn_session_id n = s \<and> gn_ref_id n = i) (ab_nodes db)"

subsection \<open>The service\<close>

record ArtifactEventContext =
  ec_event_id :: uuid
  ec_correlation_id :: uuid
  ec_causation_id :: "uuid option"
  ec_actor_class :: ActorClass
  ec_actor_id :: uuid
  ec_recorded_at :: datetime

record ArtifactWriteResult =
  aw_artifact :: ReasoningArtifact
  aw_event :: LedgerEvent

definition ArtifactCommitError :: "string \<Rightarrow> py_error" where
  "ArtifactCommitError message = DomainError ''ArtifactCommitError'' message"

fun json_get :: "json \<Rightarrow> string \<Rightarrow> json option" where
  "json_get (JObj ms) k = (case map_of ms (ustr k) of None \<Rightarrow> None | Some v \<Rightarrow> if v = JNull then None else Some v)"
| "json_get _ k = None"

definition event_payload :: "ReasoningArtifact \<Rightarrow> (string \<times> json) list \<Rightarrow> json" where
  "event_payload a payload =
     (let optional = (\<lambda>k. case json_get (ra_metadata a) k of None \<Rightarrow> [] | Some v \<Rightarrow> [(k, v)])
      in jobj (payload @ optional ''attribution'' @ optional ''evidence_disposition''))"

definition artifact_event ::
  "ReasoningArtifact \<Rightarrow> ArtifactEventContext \<Rightarrow> string \<Rightarrow> (string \<times> json) list \<Rightarrow> LedgerAppend result" where
  "artifact_event a cx event_type payload =
     (let e = \<lparr>la_id = ec_event_id cx, la_workspace_id = ra_workspace_id a, la_session_id = ra_session_id a,
            la_event_type = ustr event_type, la_payload_schema_version = 1, la_causation_id = ec_causation_id cx,
            la_correlation_id = ec_correlation_id cx, la_actor_class = ec_actor_class cx,
            la_actor_id = ec_actor_id cx, la_round = ra_round a,
            la_payload = event_payload a payload,
            la_recorded_at = ec_recorded_at cx\<rparr>
      in checked (LedgerAppend_valid e) e)"

definition artifact_node :: "ReasoningArtifact \<Rightarrow> uuid \<Rightarrow> ustr \<Rightarrow> GraphNode result" where
  "artifact_node a node_id label =
     (let n = \<lparr>gn_id = node_id, gn_workspace_id = ra_workspace_id a, gn_session_id = ra_session_id a,
        gn_kind = ra_kind a, gn_ref_id = ra_id a, gn_label = label,
        gn_attrs = jobj [(''logical_id'', juuid (ra_logical_id a)), (''version'', JInt (ra_version a))]\<rparr>
      in checked (GraphNode_valid n) n)"

definition relationship_target ::
  "artifact_db \<Rightarrow> ReasoningArtifact \<Rightarrow> uuid \<times> ParentRelationship \<Rightarrow> (uuid \<times> GraphNode) result" where
  "relationship_target db a er =
     (if pr_edge_type (snd er) = SUPERSEDES
      then Inl (ArtifactCommitError ''SUPERSEDES is derived from the revision predecessor'')
      else case node_for_artifact db (ra_workspace_id a) (ra_session_id a) (pr_target_artifact_id (snd er)) of
        None \<Rightarrow> Inl (ArtifactCommitError (''parent artifact '' @ uuid_str (pr_target_artifact_id (snd er)) @
          '' has no graph projection''))
      | Some target \<Rightarrow> Inr (fst er, target))"

definition relationship_targets ::
  "artifact_db \<Rightarrow> ReasoningArtifact \<Rightarrow> uuid list \<Rightarrow> (uuid \<times> GraphNode) list result" where
  "relationship_targets db a edge_ids =
     (if length edge_ids \<noteq> length (ra_parent_relationships a)
      then Inl (ArtifactCommitError ''each parent relationship requires one edge id'')
      else emap (relationship_target db a) (zip edge_ids (ra_parent_relationships a)))"

fun attack_qualifier :: "GraphEdgeType \<Rightarrow> ArtifactPayload \<Rightarrow> json" where
  "attack_qualifier ATTACKS (CritiquePayload t ct sv arg r) =
     jobj [(''type'', jtext (critique_value ct)), (''severity'', jtext (severity_value sv))]"
| "attack_qualifier _ _ = JObj []"

definition new_edge ::
  "artifact_db \<Rightarrow> ReasoningArtifact \<Rightarrow> ArtifactEventContext \<Rightarrow> uuid \<Rightarrow> uuid \<Rightarrow> uuid \<Rightarrow> GraphEdgeType \<Rightarrow> json
   \<Rightarrow> artifact_db result" where
  "new_edge db a cx edge_id from_node to_node edge_type qualifier =
     (let e = \<lparr>ge_id = edge_id, ge_workspace_id = ra_workspace_id a, ge_session_id = ra_session_id a,
        ge_from_node = from_node, ge_to_node = to_node, ge_edge_type = edge_type, ge_qualifier = qualifier,
        ge_actor_class = ec_actor_class cx, ge_actor_id = ec_actor_id cx\<rparr>
      in ebind (checked (GraphEdge_valid e) e) (add_edge db))"

definition add_relationships ::
  "artifact_db \<Rightarrow> ReasoningArtifact \<Rightarrow> GraphNode \<Rightarrow> (uuid \<times> GraphNode) list \<Rightarrow> ArtifactEventContext \<Rightarrow> artifact_db result" where
  "add_relationships db a node targets cx =
     efold (\<lambda>db (r, edge_id, target). new_edge db a cx edge_id (gn_id node) (gn_id target) (pr_edge_type r)
       (attack_qualifier (pr_edge_type r) (ra_payload a))) db (zip (ra_parent_relationships a) targets)"

definition append_event ::
  "artifact_db \<Rightarrow> ReasoningArtifact \<Rightarrow> ArtifactEventContext \<Rightarrow> string \<Rightarrow> (string \<times> json) list
   \<Rightarrow> (artifact_db \<times> ArtifactWriteResult) result" where
  "append_event db a cx event_type payload =
     ebind (artifact_event a cx event_type payload) (\<lambda>e.
     ebind (ledger_append (ab_ledger db) e) (\<lambda>(ledger, x).
     Inr (db\<lparr>ab_ledger := ledger\<rparr>, \<lparr>aw_artifact = a, aw_event = x\<rparr>)))"

definition commit_payload :: "ReasoningArtifact \<Rightarrow> (string \<times> json) list" where
  "commit_payload a = [(''artifact_id'', juuid (ra_id a)), (''kind'', jtext (kind_value (ra_kind a))),
     (''logical_id'', juuid (ra_logical_id a)), (''version'', JInt (ra_version a))]"

definition commit_artifact ::
  "artifact_db \<Rightarrow> ReasoningArtifact \<Rightarrow> uuid \<Rightarrow> uuid list \<Rightarrow> ustr \<Rightarrow> ArtifactEventContext
   \<Rightarrow> (artifact_db \<times> ArtifactWriteResult) result" where
  "commit_artifact db a node_id edge_ids label cx =
     ebind (eguard (\<not> (ra_version a \<noteq> 1 \<or> ra_supersedes_id a \<noteq> None))
       (ArtifactCommitError ''initial artifact commit requires version 1'')) (\<lambda>_.
     ebind (eguard (ra_status a = ACTIVE) (ArtifactCommitError ''initial artifact commit requires ACTIVE status'')) (\<lambda>_.
     ebind (relationship_targets db a edge_ids) (\<lambda>targets.
     ebind (artifact_add db a) (\<lambda>db1.
     ebind (artifact_node a node_id label) (\<lambda>node.
     ebind (add_node db1 node) (\<lambda>db2.
     ebind (add_relationships db2 a node targets cx) (\<lambda>db3.
     append_event db3 a cx ''ARTIFACT_COMMITTED'' (commit_payload a))))))))"

definition revise_payload :: "ReasoningArtifact \<Rightarrow> uuid \<Rightarrow> ustr \<Rightarrow> (string \<times> json) list" where
  "revise_payload a previous reason = [(''artifact_id'', juuid (ra_id a)), (''kind'', jtext (kind_value (ra_kind a))),
     (''logical_id'', juuid (ra_logical_id a)), (''supersedes_id'', juuid previous),
     (''version'', JInt (ra_version a)), (''reason'', JStr reason)]"

text \<open>The checks of a revision before it writes: they give the predecessor, its node and the targets.\<close>

definition revision_checked ::
  "artifact_db \<Rightarrow> ReasoningArtifact \<Rightarrow> uuid list \<Rightarrow> ustr
   \<Rightarrow> (ReasoningArtifact \<times> GraphNode \<times> (uuid \<times> GraphNode) list) result" where
  "revision_checked db a edge_ids reason =
     (case ra_supersedes_id a of
        None \<Rightarrow> Inl (ArtifactCommitError ''revision requires a predecessor and version greater than 1'')
      | Some supersedes \<Rightarrow>
     ebind (eguard (1 < ra_version a)
       (ArtifactCommitError ''revision requires a predecessor and version greater than 1'')) (\<lambda>_.
     ebind (eguard (ra_status a = ACTIVE) (ArtifactCommitError ''revision requires ACTIVE status'')) (\<lambda>_.
     ebind (eguard (\<not> u_blank reason) (ArtifactCommitError ''revision reason must not be blank'')) (\<lambda>_.
     ebind (get_for_update db (ra_workspace_id a) (ra_session_id a) supersedes) (\<lambda>found.
     case found of
       None \<Rightarrow> Inl (ArtifactCommitError (''predecessor artifact '' @ uuid_str supersedes @ '' does not exist''))
     | Some previous \<Rightarrow>
     ebind (eguard (ra_status previous = ACTIVE) (ArtifactCommitError ''only an ACTIVE artifact may be revised'')) (\<lambda>_.
     ebind (eguard (\<not> (ra_logical_id previous \<noteq> ra_logical_id a \<or> ra_kind previous \<noteq> ra_kind a \<or>
                       ra_version previous + 1 \<noteq> ra_version a))
       (ArtifactCommitError ''revision must follow the same logical artifact and kind'')) (\<lambda>_.
     case node_for_artifact db (ra_workspace_id previous) (ra_session_id previous) (ra_id previous) of
       None \<Rightarrow> Inl (ArtifactCommitError (''predecessor artifact '' @ uuid_str (ra_id previous) @
         '' has no graph projection''))
     | Some previous_node \<Rightarrow>
     ebind (relationship_targets db a edge_ids) (\<lambda>targets. Inr (previous, previous_node, targets)))))))))"

definition revise_artifact ::
  "artifact_db \<Rightarrow> ReasoningArtifact \<Rightarrow> uuid \<Rightarrow> uuid \<Rightarrow> uuid list \<Rightarrow> ustr \<Rightarrow> ustr \<Rightarrow> ArtifactEventContext
   \<Rightarrow> (artifact_db \<times> ArtifactWriteResult) result" where
  "revise_artifact db a node_id edge_id edge_ids label reason cx =
     ebind (revision_checked db a edge_ids reason) (\<lambda>(previous, previous_node, targets).
     ebind (artifact_add db a) (\<lambda>db1.
     ebind (set_lifecycle db1 (ra_workspace_id previous) (ra_session_id previous) (ra_id previous) SUPERSEDED
       (ec_recorded_at cx)) (\<lambda>db2.
     ebind (artifact_node a node_id label) (\<lambda>node.
     ebind (add_node db2 node) (\<lambda>db3.
     ebind (add_relationships db3 a node targets cx) (\<lambda>db4.
     ebind (new_edge db4 a cx edge_id (gn_id node) (gn_id previous_node) SUPERSEDES
       (jobj [(''reason'', JStr reason)])) (\<lambda>db5.
     append_event db5 a cx ''ARTIFACT_REVISED'' (revise_payload a (ra_id previous) reason))))))))"

definition withdraw_payload :: "ReasoningArtifact \<Rightarrow> ustr \<Rightarrow> uuid list \<Rightarrow> (string \<times> json) list" where
  "withdraw_payload a reason warrants = [(''artifact_id'', juuid (ra_id a)), (''kind'', jtext (kind_value (ra_kind a))),
     (''logical_id'', juuid (ra_logical_id a)), (''version'', JInt (ra_version a)), (''reason'', JStr reason),
     (''warrant_artifact_ids'', juuids warrants)]"

text \<open>The checks of a withdrawal before it writes: they give the artifact.\<close>

definition withdrawal_checked ::
  "artifact_db \<Rightarrow> uuid \<Rightarrow> uuid \<Rightarrow> uuid \<Rightarrow> ustr \<Rightarrow> uuid list \<Rightarrow> ReasoningArtifact result" where
  "withdrawal_checked db ws s i reason warrants =
     ebind (eguard (\<not> u_blank reason) (ArtifactCommitError ''withdrawal reason must not be blank'')) (\<lambda>_.
     ebind (eguard (warrants \<noteq> []) (ArtifactCommitError ''withdrawal requires at least one warrant artifact id'')) (\<lambda>_.
     ebind (eguard (distinct warrants) (ArtifactCommitError ''withdrawal warrant artifact ids must be unique'')) (\<lambda>_.
     ebind (emap (\<lambda>w. eguard (node_for_artifact db ws s w \<noteq> None)
       (ArtifactCommitError (''withdrawal warrant artifact '' @ uuid_str w @ '' has no graph projection''))) warrants) (\<lambda>_.
     ebind (get_for_update db ws s i) (\<lambda>found.
     case found of
       None \<Rightarrow> Inl (ArtifactCommitError (''artifact '' @ uuid_str i @ '' does not exist''))
     | Some a \<Rightarrow>
     ebind (eguard (ra_status a = ACTIVE) (ArtifactCommitError ''only an ACTIVE artifact may be withdrawn'')) (\<lambda>_.
     Inr a))))))"

definition withdraw_artifact ::
  "artifact_db \<Rightarrow> uuid \<Rightarrow> uuid \<Rightarrow> uuid \<Rightarrow> ustr \<Rightarrow> uuid list \<Rightarrow> ArtifactEventContext
   \<Rightarrow> (artifact_db \<times> ArtifactWriteResult) result" where
  "withdraw_artifact db ws s i reason warrants cx =
     ebind (withdrawal_checked db ws s i reason warrants) (\<lambda>a.
     ebind (set_lifecycle db (ra_workspace_id a) (ra_session_id a) (ra_id a) WITHDRAWN (ec_recorded_at cx)) (\<lambda>db1.
     append_event db1 (a\<lparr>ra_status := WITHDRAWN, ra_updated_at := ec_recorded_at cx\<rparr>) cx ''ARTIFACT_WITHDRAWN''
       (withdraw_payload a reason warrants)))"

subsection \<open>Transactions\<close>

text \<open>\<^verbatim>\<open>graph_edge_endpoint_pair_allowed\<close> of the graph's migration.\<close>

fun edge_pair_allowed :: "GraphEdgeType \<Rightarrow> ArtifactKind \<Rightarrow> ArtifactKind \<Rightarrow> bool" where
  "edge_pair_allowed SUPPORTS k l = ((k = EVIDENCE \<or> k = CLAIM) \<and> l = CLAIM)"
| "edge_pair_allowed OPPOSES k l = ((k = EVIDENCE \<or> k = CLAIM) \<and> l = CLAIM)"
| "edge_pair_allowed CONTRADICTS k l = (k = CLAIM \<and> l = CLAIM)"
| "edge_pair_allowed DERIVED_FROM k l = (k = CLAIM \<and> (l = CLAIM \<or> l = ASSUMPTION \<or> l = FACT))"
| "edge_pair_allowed BASED_ON_ASSUMPTION k l = ((k = CLAIM \<or> k = ALTERNATIVE) \<and> l = ASSUMPTION)"
| "edge_pair_allowed FORMALIZES k l = (k = PROPOSITION \<and> l = CLAIM)"
| "edge_pair_allowed QUANTIFIES k l = (k = UNCERTAINTY)"
| "edge_pair_allowed IMPACTS k l = (k = ALTERNATIVE \<and> l = OBJECTIVE)"
| "edge_pair_allowed CONSTRAINS k l = (k = CONSTRAINT \<and> (l = ALTERNATIVE \<or> l = OBJECTIVE))"
| "edge_pair_allowed VIOLATES k l = (k = ALTERNATIVE \<and> l = CONSTRAINT)"
| "edge_pair_allowed SATISFIES k l = (k = ALTERNATIVE \<and> l = CONSTRAINT)"
| "edge_pair_allowed INFEASIBLE_UNKNOWN k l = (k = ALTERNATIVE \<and> l = CONSTRAINT)"
| "edge_pair_allowed ATTACKS k l = (k = CRITIQUE)"
| "edge_pair_allowed RESPONDS_TO k l = ((k = POSITION \<or> k = CLAIM) \<and> l = CRITIQUE)"
| "edge_pair_allowed SUPERSEDES k l = (k = l)"
| "edge_pair_allowed ADVOCATES k l = (k = POSITION \<and> l = ALTERNATIVE)"

definition revision_chain_ok :: "artifact_db \<Rightarrow> ReasoningArtifact \<Rightarrow> bool" where
  "revision_chain_ok db a = (ra_version a = 1 \<or>
     (case ra_supersedes_id a of None \<Rightarrow> False
      | Some i \<Rightarrow> (case artifact_row db (ra_workspace_id a) (ra_session_id a) i of None \<Rightarrow> False
          | Some p \<Rightarrow> ra_logical_id p = ra_logical_id a \<and> ra_kind p = ra_kind a \<and> ra_version p = ra_version a - 1)))"

definition references_exist :: "artifact_db \<Rightarrow> ReasoningArtifact \<Rightarrow> bool" where
  "references_exist db a = list_all (\<lambda>i. sql_uuid i \<and>
     artifact_row db (ra_workspace_id a) (ra_session_id a) i \<noteq> None) (artifact_references a)"

definition node_kind_ok :: "artifact_db \<Rightarrow> GraphNode \<Rightarrow> bool" where
  "node_kind_ok db n = (case artifact_row db (gn_workspace_id n) (gn_session_id n) (gn_ref_id n) of
     None \<Rightarrow> False | Some a \<Rightarrow> ra_kind a = gn_kind n)"

definition session_node :: "artifact_db \<Rightarrow> uuid \<Rightarrow> uuid \<Rightarrow> uuid \<Rightarrow> GraphNode option" where
  "session_node db ws s i =
     find (\<lambda>n. gn_workspace_id n = ws \<and> gn_session_id n = s \<and> gn_id n = i) (ab_nodes db)"

definition endpoints_ok :: "artifact_db \<Rightarrow> GraphEdge \<Rightarrow> bool" where
  "endpoints_ok db e = (case session_node db (ge_workspace_id e) (ge_session_id e) (ge_from_node e) of None \<Rightarrow> False
     | Some n \<Rightarrow> (case session_node db (ge_workspace_id e) (ge_session_id e) (ge_to_node e) of None \<Rightarrow> False
     | Some m \<Rightarrow> edge_pair_allowed (ge_edge_type e) (gn_kind n) (gn_kind m)))"

text \<open>The deferred triggers, for the rows the transaction wrote, at its end.\<close>

definition commit_checks :: "artifact_db \<Rightarrow> artifact_db \<Rightarrow> unit result" where
  "commit_checks db0 db =
     (let written = filter (\<lambda>a. \<not> List.member (ab_artifacts db0) a) (ab_artifacts db) in
     ebind (eguard (list_all (revision_chain_ok db) written)
       (IntegrityError ''artifact revision must supersede the previous same-kind logical version'')) (\<lambda>_.
     ebind (eguard (list_all (references_exist db) written)
       (IntegrityError ''references must exist in the artifact session'')) (\<lambda>_.
     ebind (eguard (list_all (node_kind_ok db) (filter (\<lambda>n. \<not> List.member (ab_nodes db0) n) (ab_nodes db)))
       (IntegrityError ''graph node kind must match referenced artifact kind'')) (\<lambda>_.
     eguard (list_all (endpoints_ok db) (filter (\<lambda>e. \<not> List.member (ab_edges db0) e) (ab_edges db)))
       (IntegrityError ''graph edge type is not allowed for endpoint kinds'')))))"

text \<open>A call of the service with its arguments; a caller's transaction is a series of calls.\<close>

datatype artifact_write =
    Commit ReasoningArtifact uuid "uuid list" ustr ArtifactEventContext
  | Revise ReasoningArtifact uuid uuid "uuid list" ustr ustr ArtifactEventContext
  | Withdraw uuid uuid uuid ustr "uuid list" ArtifactEventContext

fun perform :: "artifact_db \<Rightarrow> artifact_write \<Rightarrow> (artifact_db \<times> ArtifactWriteResult) result" where
  "perform db (Commit a n es l cx) = commit_artifact db a n es l cx"
| "perform db (Revise a n e es l r cx) = revise_artifact db a n e es l r cx"
| "perform db (Withdraw ws s i r wts cx) = withdraw_artifact db ws s i r wts cx"

definition artifact_transaction :: "artifact_db \<Rightarrow> artifact_write list \<Rightarrow> artifact_db result" where
  "artifact_transaction db ws =
     ebind (efold (\<lambda>d w. ebind (perform d w) (\<lambda>r. Inr (fst r))) db ws) (\<lambda>db'.
     ebind (commit_checks db db') (\<lambda>_. Inr db'))"

subsection \<open>The invariant\<close>

text \<open>
  The graph is the projection of the artifacts: one node per artifact, in the same order, and one edge
  per link of an artifact, which is a parent relationship or the supersession of its predecessor.
\<close>

definition links :: "ReasoningArtifact \<Rightarrow> (GraphEdgeType \<times> uuid) list" where
  "links a = map (\<lambda>r. (pr_edge_type r, pr_target_artifact_id r)) (ra_parent_relationships a) @
     (case ra_supersedes_id a of None \<Rightarrow> [] | Some p \<Rightarrow> [(SUPERSEDES, p)])"

definition all_links :: "ReasoningArtifact list \<Rightarrow> (ReasoningArtifact \<times> GraphEdgeType \<times> uuid) list" where
  "all_links as = concat (map (\<lambda>a. map (Pair a) (links a)) as)"

definition node_of :: "ReasoningArtifact \<Rightarrow> GraphNode \<Rightarrow> bool" where
  "node_of a n = (gn_workspace_id n = ra_workspace_id a \<and> gn_session_id n = ra_session_id a \<and>
     gn_kind n = ra_kind a \<and> gn_ref_id n = ra_id a \<and>
     gn_attrs n = jobj [(''logical_id'', juuid (ra_logical_id a)), (''version'', JInt (ra_version a))])"

definition refers :: "GraphNode list \<Rightarrow> uuid \<Rightarrow> uuid \<Rightarrow> uuid \<Rightarrow> uuid \<Rightarrow> bool" where
  "refers ns ws s node i = (\<exists>n \<in> set ns. gn_id n = node \<and> gn_workspace_id n = ws \<and> gn_session_id n = s \<and> gn_ref_id n = i)"

definition edge_of :: "GraphNode list \<Rightarrow> ReasoningArtifact \<times> GraphEdgeType \<times> uuid \<Rightarrow> GraphEdge \<Rightarrow> bool" where
  "edge_of ns l e = (let a = fst l in ge_workspace_id e = ra_workspace_id a \<and> ge_session_id e = ra_session_id a \<and>
     ge_edge_type e = fst (snd l) \<and> refers ns (ra_workspace_id a) (ra_session_id a) (ge_from_node e) (ra_id a) \<and>
     refers ns (ra_workspace_id a) (ra_session_id a) (ge_to_node e) (snd (snd l)))"

definition same_session :: "ReasoningArtifact \<Rightarrow> ReasoningArtifact \<Rightarrow> bool" where
  "same_session a b = (ra_workspace_id a = ra_workspace_id b \<and> ra_session_id a = ra_session_id b)"

definition links_earlier :: "ReasoningArtifact list \<Rightarrow> bool" where
  "links_earlier as = (\<forall>i < length as. \<forall>l \<in> set (links (as ! i)).
     \<exists>j < i. ra_id (as ! j) = snd l \<and> same_session (as ! j) (as ! i))"

definition graph_ok :: "artifact_db \<Rightarrow> bool" where
  "graph_ok db = (list_all2 node_of (ab_artifacts db) (ab_nodes db) \<and> distinct (map gn_id (ab_nodes db)) \<and>
     list_all2 (edge_of (ab_nodes db)) (all_links (ab_artifacts db)) (ab_edges db) \<and> links_earlier (ab_artifacts db))"

text \<open>Every row is valid content under its hash; identifiers, and versions of a logical artifact, are unique.\<close>

definition version_key :: "ReasoningArtifact \<Rightarrow> uuid \<times> uuid \<times> uuid \<times> int" where
  "version_key a = (ra_workspace_id a, ra_session_id a, ra_logical_id a, ra_version a)"

definition rows_ok :: "artifact_db \<Rightarrow> bool" where
  "rows_ok db = (distinct (map ra_id (ab_artifacts db)) \<and> distinct (map version_key (ab_artifacts db)) \<and>
     (\<forall>a \<in> set (ab_artifacts db). validate_artifact a = Inr a \<and> artifact_row_check a = None \<and>
        session_row db (ra_workspace_id a) (ra_session_id a)))"

text \<open>A revision follows its predecessor, and the superseded rows are the predecessors.\<close>

definition follows :: "ReasoningArtifact \<Rightarrow> ReasoningArtifact \<Rightarrow> bool" where
  "follows a p = (ra_supersedes_id a = Some (ra_id p) \<and> same_session a p \<and> ra_logical_id a = ra_logical_id p \<and>
     ra_kind a = ra_kind p \<and> ra_version a = ra_version p + 1)"

definition history_ok :: "ReasoningArtifact list \<Rightarrow> bool" where
  "history_ok as = ((\<forall>a \<in> set as. ra_version a = 1 \<or> (\<exists>p \<in> set as. follows a p)) \<and>
     (\<forall>p \<in> set as. ra_status p = SUPERSEDED \<longleftrightarrow> (\<exists>a \<in> set as. follows a p)))"

definition artifact_wf :: "artifact_db \<Rightarrow> bool" where
  "artifact_wf db = (ledger_wf (ab_ledger db) \<and> rows_ok db \<and> history_ok (ab_artifacts db) \<and> graph_ok db)"

text \<open>What holds at the end of every transaction besides.\<close>

definition transaction_wf :: "artifact_db \<Rightarrow> bool" where
  "transaction_wf db = (artifact_wf db \<and> list_all (references_exist db) (ab_artifacts db) \<and>
     list_all (endpoints_ok db) (ab_edges db))"

text \<open>The columns that an update of the status does not touch.\<close>

definition content_of :: "ReasoningArtifact \<Rightarrow> ReasoningArtifact" where
  "content_of a = a\<lparr>ra_status := ACTIVE, ra_updated_at := ra_created_at a\<rparr>"

text \<open>What the service does to the tables besides the status of one row.\<close>

definition inserted :: "artifact_db \<Rightarrow> ReasoningArtifact \<Rightarrow> GraphNode \<Rightarrow> GraphEdge list \<Rightarrow> bool" where
  "inserted db a n es = (artifact_row_check a = None \<and> ra_id a \<notin> ra_id ` set (ab_artifacts db) \<and>
     version_key a \<notin> version_key ` set (ab_artifacts db) \<and> session_row db (ra_workspace_id a) (ra_session_id a) \<and>
     node_of a n \<and> gn_id n \<notin> gn_id ` set (ab_nodes db) \<and>
     list_all2 (edge_of (ab_nodes db @ [n])) (map (Pair a) (links a)) es \<and>
     (\<forall>l \<in> set (links a). \<exists>m \<in> set (ab_nodes db). gn_workspace_id m = ra_workspace_id a \<and>
        gn_session_id m = ra_session_id a \<and> gn_ref_id m = snd l))"

text \<open>What a caller passes: a validated artifact, and an event context with a real time.\<close>

fun write_valid :: "artifact_write \<Rightarrow> bool" where
  "write_valid (Commit a n es l cx) = (validate_artifact a = Inr a \<and> datetime_valid (ec_recorded_at cx))"
| "write_valid (Revise a n e es l r cx) = (validate_artifact a = Inr a \<and> datetime_valid (ec_recorded_at cx))"
| "write_valid (Withdraw ws s i r wts cx) = datetime_valid (ec_recorded_at cx)"

definition row_evolves :: "ReasoningArtifact \<Rightarrow> ReasoningArtifact \<Rightarrow> bool" where
  "row_evolves a b = (content_of b = content_of a \<and>
     (ra_status b = ra_status a \<or> (ra_status a = ACTIVE \<and> (ra_status b = SUPERSEDED \<or> ra_status b = WITHDRAWN))) \<and>
     \<not> dt_less (ra_updated_at b) (ra_updated_at a))"

text \<open>Rows stay where they are, with their content; new rows come after them.\<close>

definition evolves :: "artifact_db \<Rightarrow> artifact_db \<Rightarrow> bool" where
  "evolves db db' = ((\<exists>olds news. ab_artifacts db' = olds @ news \<and> list_all2 row_evolves (ab_artifacts db) olds) \<and>
     (\<exists>ns. ab_nodes db' = ab_nodes db @ ns) \<and> (\<exists>es. ab_edges db' = ab_edges db @ es) \<and>
     (\<exists>xs. lg_events (ab_ledger db') = lg_events (ab_ledger db) @ xs))"

text \<open>The event of the ledger that records a write: the values the service passes, compared as the ledger does.\<close>

definition records :: "ReasoningArtifact \<Rightarrow> string \<Rightarrow> (string \<times> json) list \<Rightarrow> LedgerEvent \<Rightarrow> bool" where
  "records a ty p x = (la_workspace_id x = ra_workspace_id a \<and> la_session_id x = ra_session_id a \<and>
     la_event_type x = ustr ty \<and> la_round x = ra_round a \<and> py_eq (event_payload a p) (la_payload x))"

definition recorded :: "LedgerEvent list \<Rightarrow> ReasoningArtifact \<Rightarrow> bool" where
  "recorded xs a = ((ra_version a = 1 \<longrightarrow> list_ex (records a ''ARTIFACT_COMMITTED'' (commit_payload a)) xs) \<and>
     (\<forall>p. ra_version a \<noteq> 1 \<and> ra_supersedes_id a = Some p \<longrightarrow>
        (\<exists>reason. \<not> u_blank reason \<and> list_ex (records a ''ARTIFACT_REVISED'' (revise_payload a p reason)) xs)) \<and>
     (ra_status a = WITHDRAWN \<longrightarrow> (\<exists>reason warrants. \<not> u_blank reason \<and> warrants \<noteq> [] \<and>
        list_ex (records a ''ARTIFACT_WITHDRAWN'' (withdraw_payload a reason warrants)) xs)))"

definition all_recorded :: "artifact_db \<Rightarrow> bool" where
  "all_recorded db = list_all (recorded (lg_events (ab_ledger db))) (ab_artifacts db)"

inductive artifacts_reachable :: "artifact_db \<Rightarrow> bool" where
  empty: "artifacts_reachable empty_artifacts"
| session: "artifacts_reachable db \<Longrightarrow> create_session_ledger_head (ab_ledger db) ws s = Inr l \<Longrightarrow>
    artifacts_reachable (db\<lparr>ab_ledger := l\<rparr>)"
| event: "artifacts_reachable db \<Longrightarrow> LedgerAppend_valid e \<Longrightarrow> ledger_append (ab_ledger db) e = Inr (l, x) \<Longrightarrow>
    artifacts_reachable (db\<lparr>ab_ledger := l\<rparr>)"
| transaction: "artifacts_reachable db \<Longrightarrow> list_all write_valid ws \<Longrightarrow> artifact_transaction db ws = Inr db' \<Longrightarrow>
    artifacts_reachable db'"



subsection \<open>The effects of the store operations\<close>

lemma artifact_row_iff:
  "artifact_row db ws s i = Some a \<Longrightarrow> a \<in> set (ab_artifacts db) \<and> in_session a ws s \<and> ra_id a = i"
  by (auto simp: artifact_row_def find_Some_iff)

lemma not_image_iff: "x \<notin> f ` A \<longleftrightarrow> (\<forall>y \<in> A. f y \<noteq> x)"
  by auto

lemma artifact_add_Inr:
  "artifact_add db a = Inr db' \<longleftrightarrow> artifact_row_check a = None \<and> ra_id a \<notin> ra_id ` set (ab_artifacts db) \<and>
     version_key a \<notin> version_key ` set (ab_artifacts db) \<and> session_row db (ra_workspace_id a) (ra_session_id a) \<and>
     pred_option (\<lambda>p. artifact_row db (ra_workspace_id a) (ra_session_id a) p \<noteq> None) (ra_supersedes_id a) \<and>
     db' = db\<lparr>ab_artifacts := ab_artifacts db @ [a]\<rparr>"
  by (auto simp: artifact_add_def version_key_def in_session_def list_ex_iff not_image_iff split: option.splits)

lemma set_lifecycle_Inr:
  "set_lifecycle db ws s i st t = Inr db' \<longleftrightarrow> (\<exists>row. artifact_row db ws s i = Some row \<and>
     enforce_immutability row st t = Inr () \<and>
     db' = db\<lparr>ab_artifacts := map (set_status i st t) (ab_artifacts db)\<rparr>)"
  by (auto simp: set_lifecycle_def result_simps split: option.splits)

lemma add_node_Inr:
  "add_node db n = Inr db' \<longleftrightarrow> gn_id n \<notin> gn_id ` set (ab_nodes db) \<and>
     (\<forall>m \<in> set (ab_nodes db). \<not> (gn_session_id m = gn_session_id n \<and> gn_ref_id m = gn_ref_id n)) \<and>
     session_row db (gn_workspace_id n) (gn_session_id n) \<and> db' = db\<lparr>ab_nodes := ab_nodes db @ [n]\<rparr>"
  by (auto simp: add_node_def list_ex_iff not_image_iff)

lemma new_edge_Inr:
  assumes "new_edge db a cx i f t ty q = Inr db'"
  obtains e where "db' = db\<lparr>ab_edges := ab_edges db @ [e]\<rparr>" "ge_workspace_id e = ra_workspace_id a"
    "ge_session_id e = ra_session_id a" "ge_from_node e = f" "ge_to_node e = t" "ge_edge_type e = ty"
  using assms by (auto simp: new_edge_def Let_def result_simps add_edge_def split: if_splits)

lemma artifact_node_Inr: "artifact_node a i label = Inr n \<Longrightarrow> node_of a n \<and> gn_id n = i"
  by (auto simp: artifact_node_def Let_def result_simps node_of_def)

lemma node_for_artifact_Some:
  "node_for_artifact db ws s i = Some n \<Longrightarrow> n \<in> set (ab_nodes db) \<and> gn_workspace_id n = ws \<and> gn_session_id n = s \<and> gn_ref_id n = i"
  by (auto simp: node_for_artifact_def find_Some_iff)

lemma relationship_targets_Inr:
  assumes "relationship_targets db a eids = Inr targets"
  shows "list_all2 (\<lambda>r t. pr_edge_type r \<noteq> SUPERSEDES \<and>
    node_for_artifact db (ra_workspace_id a) (ra_session_id a) (pr_target_artifact_id r) = Some (snd t))
    (ra_parent_relationships a) targets"
proof -
  have len: "length eids = length (ra_parent_relationships a)"
    and "emap (relationship_target db a) (zip eids (ra_parent_relationships a)) = Inr targets"
    using assms by (auto simp: relationship_targets_def split: if_splits)
  then have "list_all2 (\<lambda>x y. relationship_target db a x = Inr y) (zip eids (ra_parent_relationships a)) targets"
    by (simp add: emap_Inr_list_all2)
  then have "list_all2 (\<lambda>x y. pr_edge_type (snd x) \<noteq> SUPERSEDES \<and>
      node_for_artifact db (ra_workspace_id a) (ra_session_id a) (pr_target_artifact_id (snd x)) = Some (snd y))
      (zip eids (ra_parent_relationships a)) targets"
    by (rule list_all2_mono) (auto simp: relationship_target_def split: if_splits option.splits)
  then show ?thesis using len by (simp add: list_all2_conv_all_nth)
qed

lemma add_relationships_Inr:
  assumes "efold (\<lambda>db (r, edge_id, target). new_edge db a cx edge_id f (gn_id target) (pr_edge_type r)
      (attack_qualifier (pr_edge_type r) (ra_payload a))) db rts = Inr db'"
  shows "\<exists>es. db' = db\<lparr>ab_edges := ab_edges db @ es\<rparr> \<and> list_all2 (\<lambda>(r, t) e.
      ge_workspace_id e = ra_workspace_id a \<and> ge_session_id e = ra_session_id a \<and> ge_from_node e = f \<and>
      ge_to_node e = gn_id (snd t) \<and> ge_edge_type e = pr_edge_type r) rts es"
  using assms
proof (induction rts arbitrary: db)
  case Nil
  then show ?case by (intro exI [of _ "[]"]) simp
next
  case (Cons x rts)
  obtain r i t where x: "x = (r, i, t)" by (cases x) auto
  obtain db1 where db1: "new_edge db a cx i f (gn_id t) (pr_edge_type r) (attack_qualifier (pr_edge_type r) (ra_payload a)) = Inr db1"
    and rest: "efold (\<lambda>db (r, edge_id, target). new_edge db a cx edge_id f (gn_id target) (pr_edge_type r)
      (attack_qualifier (pr_edge_type r) (ra_payload a))) db1 rts = Inr db'"
    using Cons.prems by (auto simp: x result_simps)
  from db1 obtain e where e: "db1 = db\<lparr>ab_edges := ab_edges db @ [e]\<rparr>" "ge_workspace_id e = ra_workspace_id a"
    "ge_session_id e = ra_session_id a" "ge_from_node e = f" "ge_to_node e = gn_id t" "ge_edge_type e = pr_edge_type r"
    by (rule new_edge_Inr)
  from Cons.IH [OF rest] obtain es where "db' = db1\<lparr>ab_edges := ab_edges db1 @ es\<rparr>"
    "list_all2 (\<lambda>(r, t) e. ge_workspace_id e = ra_workspace_id a \<and> ge_session_id e = ra_session_id a \<and>
      ge_from_node e = f \<and> ge_to_node e = gn_id (snd t) \<and> ge_edge_type e = pr_edge_type r) rts es" by blast
  with e show ?case by (intro exI [of _ "e # es"]) (simp add: x)
qed

lemma append_event_Inr:
  assumes "append_event db a cx ty p = Inr (db', r)"
  obtains e l x where "artifact_event a cx ty p = Inr e" "ledger_append (ab_ledger db) e = Inr (l, x)"
    "db' = db\<lparr>ab_ledger := l\<rparr>" "r = \<lparr>aw_artifact = a, aw_event = x\<rparr>"
  using assms by (auto simp: append_event_def result_simps)

text \<open>The edges of the parent relationships stand for the links they were made from.\<close>

lemma relationship_edges:
  assumes targets: "list_all2 (\<lambda>r t. pr_edge_type r \<noteq> SUPERSEDES \<and>
      node_for_artifact db (ra_workspace_id a) (ra_session_id a) (pr_target_artifact_id r) = Some (snd t)) rs ts"
    and edges: "list_all2 (\<lambda>(r, t) e. ge_workspace_id e = ra_workspace_id a \<and> ge_session_id e = ra_session_id a \<and>
      ge_from_node e = gn_id n \<and> ge_to_node e = gn_id (snd t) \<and> ge_edge_type e = pr_edge_type r) (zip rs ts) es"
    and n: "node_of a n"
  shows "list_all2 (edge_of (ab_nodes db @ [n])) (map (Pair a) (map (\<lambda>r. (pr_edge_type r, pr_target_artifact_id r)) rs)) es"
proof -
  have "length ts = length rs" "length es = length rs"
    using list_all2_lengthD [OF targets] list_all2_lengthD [OF edges] by simp_all
  then show ?thesis
    unfolding list_all2_conv_all_nth
  proof (intro conjI allI impI)
    fix i assume "i < length (map (Pair a) (map (\<lambda>r. (pr_edge_type r, pr_target_artifact_id r)) rs))"
    then have i: "i < length rs" by simp
    have t: "node_for_artifact db (ra_workspace_id a) (ra_session_id a) (pr_target_artifact_id (rs ! i)) = Some (snd (ts ! i))"
      using list_all2_nthD [OF targets i] by simp
    have "i < length (zip rs ts)" using i \<open>length ts = length rs\<close> by simp
    from list_all2_nthD [OF edges this] have e: "ge_workspace_id (es ! i) = ra_workspace_id a"
      "ge_session_id (es ! i) = ra_session_id a" "ge_from_node (es ! i) = gn_id n"
      "ge_to_node (es ! i) = gn_id (snd (ts ! i))" "ge_edge_type (es ! i) = pr_edge_type (rs ! i)"
      using i \<open>length ts = length rs\<close> by simp_all
    from e node_for_artifact_Some [OF t] n i
    show "edge_of (ab_nodes db @ [n]) (map (Pair a) (map (\<lambda>r. (pr_edge_type r, pr_target_artifact_id r)) rs) ! i) (es ! i)"
      by (auto simp: edge_of_def refers_def node_of_def)
  qed simp
qed

subsection \<open>The effects of the service\<close>

lemma rows_ok_get: "rows_ok db \<Longrightarrow> get_for_update db ws s i = Inr (artifact_row db ws s i)"
  by (auto simp: get_for_update_def rows_ok_def dest: artifact_row_iff split: option.splits)

lemma artifact_row_eq:
  assumes "distinct (map ra_id (ab_artifacts db))"
  shows "artifact_row db ws s i = Some a \<longleftrightarrow> a \<in> set (ab_artifacts db) \<and> in_session a ws s \<and> ra_id a = i"
proof
  assume a: "a \<in> set (ab_artifacts db) \<and> in_session a ws s \<and> ra_id a = i"
  then obtain b where "artifact_row db ws s i = Some b"
    unfolding artifact_row_def by (cases "find (\<lambda>a. in_session a ws s \<and> ra_id a = i) (ab_artifacts db)") (auto simp: find_None_iff)
  moreover from artifact_row_iff [OF this] have "b = a"
    using a assms by (auto simp: distinct_map inj_on_def)
  ultimately show "artifact_row db ws s i = Some a" by simp
qed (rule artifact_row_iff)

lemma relationship_links:
  assumes "list_all2 (\<lambda>r t. pr_edge_type r \<noteq> SUPERSEDES \<and>
      node_for_artifact db (ra_workspace_id a) (ra_session_id a) (pr_target_artifact_id r) = Some (snd t)) rs ts"
    and "r \<in> set rs"
  shows "\<exists>m \<in> set (ab_nodes db). gn_workspace_id m = ra_workspace_id a \<and> gn_session_id m = ra_session_id a \<and>
    gn_ref_id m = pr_target_artifact_id r"
  using assms node_for_artifact_Some by (induction rule: list_all2_induct) fastforce+

lemma commit_effect:
  assumes "commit_artifact db a nid eids label cx = Inr (db', r)"
  obtains n es e l x where "ra_version a = 1" "ra_supersedes_id a = None" "ra_status a = ACTIVE" "gn_id n = nid"
    "inserted db a n es" "artifact_event a cx ''ARTIFACT_COMMITTED'' (commit_payload a) = Inr e"
    "ledger_append (ab_ledger db) e = Inr (l, x)" "r = \<lparr>aw_artifact = a, aw_event = x\<rparr>"
    "db' = db\<lparr>ab_ledger := l, ab_artifacts := ab_artifacts db @ [a], ab_nodes := ab_nodes db @ [n], ab_edges := ab_edges db @ es\<rparr>"
proof -
  obtain ts n db2 db3 where v: "ra_version a = 1" "ra_supersedes_id a = None" "ra_status a = ACTIVE"
    and ts: "relationship_targets db a eids = Inr ts"
    and add: "artifact_add db a = Inr (db\<lparr>ab_artifacts := ab_artifacts db @ [a]\<rparr>)"
    and n: "artifact_node a nid label = Inr n"
    and db2: "add_node (db\<lparr>ab_artifacts := ab_artifacts db @ [a]\<rparr>) n = Inr db2"
    and db3: "add_relationships db2 a n ts cx = Inr db3"
    and ev: "append_event db3 a cx ''ARTIFACT_COMMITTED'' (commit_payload a) = Inr (db', r)"
    using assms unfolding commit_artifact_def ebind_eq_Inr_iff eguard_Inr_iff artifact_add_Inr by auto
  note targets = relationship_targets_Inr [OF ts]
  note node = artifact_node_Inr [OF n]
  have nodes: "gn_id n \<notin> gn_id ` set (ab_nodes db)"
    "db2 = db\<lparr>ab_artifacts := ab_artifacts db @ [a], ab_nodes := ab_nodes db @ [n]\<rparr>"
    using db2 by (auto simp: add_node_Inr)
  obtain es where es: "db3 = db2\<lparr>ab_edges := ab_edges db2 @ es\<rparr>"
    "list_all2 (\<lambda>(r, t) e. ge_workspace_id e = ra_workspace_id a \<and> ge_session_id e = ra_session_id a \<and>
      ge_from_node e = gn_id n \<and> ge_to_node e = gn_id (snd t) \<and> ge_edge_type e = pr_edge_type r)
      (zip (ra_parent_relationships a) ts) es"
    using add_relationships_Inr [OF db3 [unfolded add_relationships_def]] by blast
  have "list_all2 (edge_of (ab_nodes db @ [n])) (map (Pair a) (links a)) es"
    using relationship_edges [OF targets es(2)] node v(2) by (simp add: links_def)
  moreover have "\<forall>l \<in> set (links a). \<exists>m \<in> set (ab_nodes db). gn_workspace_id m = ra_workspace_id a \<and>
      gn_session_id m = ra_session_id a \<and> gn_ref_id m = snd l"
    using relationship_links [OF targets] v(2) by (auto simp: links_def)
  ultimately have ins: "inserted db a n es"
    using add node nodes(1) by (simp add: inserted_def artifact_add_Inr)
  have ledger: "ab_ledger db3 = ab_ledger db" by (simp add: es(1) nodes(2))
  from ev obtain e l x where "artifact_event a cx ''ARTIFACT_COMMITTED'' (commit_payload a) = Inr e"
    "ledger_append (ab_ledger db) e = Inr (l, x)" "db' = db3\<lparr>ab_ledger := l\<rparr>" "r = \<lparr>aw_artifact = a, aw_event = x\<rparr>"
    unfolding ledger [symmetric] by (rule append_event_Inr)
  with v node ins es(1) nodes(2) show ?thesis by (intro that) auto
qed

lemma set_status_simps [simp]:
  "ra_id (set_status i st t a) = ra_id a" "ra_workspace_id (set_status i st t a) = ra_workspace_id a"
  "ra_session_id (set_status i st t a) = ra_session_id a" "ra_logical_id (set_status i st t a) = ra_logical_id a"
  "ra_kind (set_status i st t a) = ra_kind a" "ra_version (set_status i st t a) = ra_version a"
  "ra_supersedes_id (set_status i st t a) = ra_supersedes_id a" "version_key (set_status i st t a) = version_key a"
  "links (set_status i st t a) = links a" "content_of (set_status i st t a) = content_of a"
  "artifact_references (set_status i st t a) = artifact_references a"
  by (simp_all add: set_status_def version_key_def links_def content_of_def artifact_references_def)

lemma set_status_other: "ra_id a \<noteq> i \<Longrightarrow> set_status i st t a = a"
  by (simp add: set_status_def)

lemma revise_effect:
  assumes "rows_ok db" "revise_artifact db a nid eid eids label reason cx = Inr (db', r)"
  obtains p n es e l x where "p \<in> set (ab_artifacts db)" "ra_status p = ACTIVE" "follows a p" "ra_status a = ACTIVE"
    "1 < ra_version a" "\<not> dt_less (ec_recorded_at cx) (ra_updated_at p)" "gn_id n = nid" "inserted db a n es"
    "artifact_event a cx ''ARTIFACT_REVISED'' (revise_payload a (ra_id p) reason) = Inr e"
    "ledger_append (ab_ledger db) e = Inr (l, x)" "r = \<lparr>aw_artifact = a, aw_event = x\<rparr>"
    "db' = db\<lparr>ab_ledger := l, ab_artifacts := map (set_status (ra_id p) SUPERSEDED (ec_recorded_at cx)) (ab_artifacts db) @ [a],
       ab_nodes := ab_nodes db @ [n], ab_edges := ab_edges db @ es\<rparr>"
proof -
  obtain p pn ts where checked: "revision_checked db a eids reason = Inr (p, pn, ts)"
    using assms(2) by (auto simp: revise_artifact_def result_simps)
  from checked obtain sup where sup: "ra_supersedes_id a = Some sup" "1 < ra_version a" "ra_status a = ACTIVE"
    "artifact_row db (ra_workspace_id a) (ra_session_id a) sup = Some p" "ra_status p = ACTIVE"
    "ra_logical_id p = ra_logical_id a" "ra_kind p = ra_kind a" "ra_version p + 1 = ra_version a"
    and pn: "node_for_artifact db (ra_workspace_id p) (ra_session_id p) (ra_id p) = Some pn"
    and ts: "relationship_targets db a eids = Inr ts"
    unfolding revision_checked_def rows_ok_get [OF assms(1)]
    by (auto simp: result_simps split: option.splits)
  have p: "p \<in> set (ab_artifacts db)" "ra_workspace_id p = ra_workspace_id a" "ra_session_id p = ra_session_id a" "ra_id p = sup"
    using artifact_row_iff [OF sup(4)] by (auto simp: in_session_def)
  then have f: "follows a p" using sup by (simp add: follows_def same_session_def)
  define as where "as = map (set_status (ra_id p) SUPERSEDED (ec_recorded_at cx)) (ab_artifacts db @ [a])"
  obtain n db3 db4 db5 where add: "artifact_add db a = Inr (db\<lparr>ab_artifacts := ab_artifacts db @ [a]\<rparr>)"
    and row: "\<exists>row. artifact_row (db\<lparr>ab_artifacts := ab_artifacts db @ [a]\<rparr>) (ra_workspace_id p) (ra_session_id p) (ra_id p) = Some row \<and>
      enforce_immutability row SUPERSEDED (ec_recorded_at cx) = Inr ()"
    and n: "artifact_node a nid label = Inr n"
    and db3: "add_node (db\<lparr>ab_artifacts := as\<rparr>) n = Inr db3"
    and db4: "add_relationships db3 a n ts cx = Inr db4"
    and db5: "new_edge db4 a cx eid (gn_id n) (gn_id pn) SUPERSEDES (jobj [(''reason'', JStr reason)]) = Inr db5"
    and ev: "append_event db5 a cx ''ARTIFACT_REVISED'' (revise_payload a (ra_id p) reason) = Inr (db', r)"
    using assms(2) unfolding revise_artifact_def checked ebind.simps prod.case ebind_eq_Inr_iff artifact_add_Inr set_lifecycle_Inr
    by (auto simp: as_def)
  have "ra_id a \<noteq> ra_id p" using add p(1) by (auto simp: artifact_add_Inr)
  then have as: "as = map (set_status (ra_id p) SUPERSEDED (ec_recorded_at cx)) (ab_artifacts db) @ [a]"
    by (simp add: as_def set_status_other)
  have "artifact_row (db\<lparr>ab_artifacts := ab_artifacts db @ [a]\<rparr>) (ra_workspace_id p) (ra_session_id p) (ra_id p) = Some p"
    using add assms(1) p by (subst artifact_row_eq) (auto simp: rows_ok_def artifact_add_Inr in_session_def)
  with row have time: "\<not> dt_less (ec_recorded_at cx) (ra_updated_at p)"
    by (auto simp: enforce_immutability_def split: if_splits)
  note targets = relationship_targets_Inr [OF ts]
  note node = artifact_node_Inr [OF n]
  have nodes: "gn_id n \<notin> gn_id ` set (ab_nodes db)" "db3 = db\<lparr>ab_artifacts := as, ab_nodes := ab_nodes db @ [n]\<rparr>"
    using db3 by (auto simp: add_node_Inr)
  obtain es where es: "db4 = db3\<lparr>ab_edges := ab_edges db3 @ es\<rparr>"
    "list_all2 (\<lambda>(r, t) e. ge_workspace_id e = ra_workspace_id a \<and> ge_session_id e = ra_session_id a \<and>
      ge_from_node e = gn_id n \<and> ge_to_node e = gn_id (snd t) \<and> ge_edge_type e = pr_edge_type r)
      (zip (ra_parent_relationships a) ts) es"
    using add_relationships_Inr [OF db4 [unfolded add_relationships_def]] by blast
  obtain se where se: "db5 = db4\<lparr>ab_edges := ab_edges db4 @ [se]\<rparr>" "ge_workspace_id se = ra_workspace_id a"
    "ge_session_id se = ra_session_id a" "ge_from_node se = gn_id n" "ge_to_node se = gn_id pn" "ge_edge_type se = SUPERSEDES"
    using new_edge_Inr [OF db5] by metis
  note pnode = node_for_artifact_Some [OF pn, unfolded p(2-4)]
  have "edge_of (ab_nodes db @ [n]) (a, SUPERSEDES, sup) se"
    using se pnode node by (auto simp: edge_of_def refers_def node_of_def)
  then have "list_all2 (edge_of (ab_nodes db @ [n])) (map (Pair a) (links a)) (es @ [se])"
    using relationship_edges [OF targets es(2)] node sup(1) by (simp add: links_def list_all2_appendI)
  moreover have "\<forall>l \<in> set (links a). \<exists>m \<in> set (ab_nodes db). gn_workspace_id m = ra_workspace_id a \<and>
      gn_session_id m = ra_session_id a \<and> gn_ref_id m = snd l"
    using relationship_links [OF targets] sup(1) pnode by (auto simp: links_def)
  ultimately have ins: "inserted db a n (es @ [se])"
    using add node nodes(1) by (simp add: inserted_def artifact_add_Inr)
  have ledger: "ab_ledger db5 = ab_ledger db" by (simp add: se(1) es(1) nodes(2))
  from ev obtain e l x where "artifact_event a cx ''ARTIFACT_REVISED'' (revise_payload a (ra_id p) reason) = Inr e"
    "ledger_append (ab_ledger db) e = Inr (l, x)" "db' = db5\<lparr>ab_ledger := l\<rparr>" "r = \<lparr>aw_artifact = a, aw_event = x\<rparr>"
    unfolding ledger [symmetric] by (rule append_event_Inr)
  with p(1) sup f time node ins es(1) nodes(2) se(1) as show ?thesis by (intro that [of p n "es @ [se]"]) auto
qed

lemma withdraw_effect:
  assumes "rows_ok db" "withdraw_artifact db ws s i reason warrants cx = Inr (db', r)"
  obtains a e l x where "a \<in> set (ab_artifacts db)" "in_session a ws s" "ra_id a = i" "ra_status a = ACTIVE"
    "\<not> dt_less (ec_recorded_at cx) (ra_updated_at a)" "\<not> u_blank reason" "warrants \<noteq> []" "distinct warrants"
    "\<forall>w \<in> set warrants. node_for_artifact db ws s w \<noteq> None"
    "artifact_event (set_status i WITHDRAWN (ec_recorded_at cx) a) cx ''ARTIFACT_WITHDRAWN'' (withdraw_payload a reason warrants) = Inr e"
    "ledger_append (ab_ledger db) e = Inr (l, x)"
    "r = \<lparr>aw_artifact = set_status i WITHDRAWN (ec_recorded_at cx) a, aw_event = x\<rparr>"
    "db' = db\<lparr>ab_ledger := l, ab_artifacts := map (set_status i WITHDRAWN (ec_recorded_at cx)) (ab_artifacts db)\<rparr>"
proof -
  obtain a db1 where checked: "withdrawal_checked db ws s i reason warrants = Inr a"
    and db1: "set_lifecycle db (ra_workspace_id a) (ra_session_id a) (ra_id a) WITHDRAWN (ec_recorded_at cx) = Inr db1"
    and ev: "append_event db1 (a\<lparr>ra_status := WITHDRAWN, ra_updated_at := ec_recorded_at cx\<rparr>) cx ''ARTIFACT_WITHDRAWN''
      (withdraw_payload a reason warrants) = Inr (db', r)"
    using assms(2) by (auto simp: withdraw_artifact_def result_simps)
  from checked have c: "\<not> u_blank reason" "warrants \<noteq> []" "distinct warrants"
    "artifact_row db ws s i = Some a" "ra_status a = ACTIVE"
    and w: "\<exists>us. emap (\<lambda>w. eguard (node_for_artifact db ws s w \<noteq> None)
       (ArtifactCommitError (''withdrawal warrant artifact '' @ uuid_str w @ '' has no graph projection''))) warrants = Inr us"
    unfolding withdrawal_checked_def rows_ok_get [OF assms(1)] by (auto simp: result_simps split: option.splits)
  have warrants: "\<forall>w \<in> set warrants. node_for_artifact db ws s w \<noteq> None"
    using w by (auto simp: emap_Inr_list_all2 eguard_Inr_iff list_all2_conv_all_nth in_set_conv_nth)
  note a = artifact_row_iff [OF c(4)]
  then have row: "artifact_row db (ra_workspace_id a) (ra_session_id a) (ra_id a) = Some a"
    using c(4) by (auto simp: in_session_def)
  with db1 have time: "\<not> dt_less (ec_recorded_at cx) (ra_updated_at a)"
    and d: "db1 = db\<lparr>ab_artifacts := map (set_status i WITHDRAWN (ec_recorded_at cx)) (ab_artifacts db)\<rparr>"
    using a by (auto simp: set_lifecycle_Inr enforce_immutability_def split: if_splits)
  have st: "a\<lparr>ra_status := WITHDRAWN, ra_updated_at := ec_recorded_at cx\<rparr> = set_status i WITHDRAWN (ec_recorded_at cx) a"
    using a by (simp add: set_status_def)
  have ledger: "ab_ledger db1 = ab_ledger db" by (simp add: d)
  from ev [unfolded st] obtain e l x where
    "artifact_event (set_status i WITHDRAWN (ec_recorded_at cx) a) cx ''ARTIFACT_WITHDRAWN'' (withdraw_payload a reason warrants) = Inr e"
    "ledger_append (ab_ledger db) e = Inr (l, x)" "db' = db1\<lparr>ab_ledger := l\<rparr>"
    "r = \<lparr>aw_artifact = set_status i WITHDRAWN (ec_recorded_at cx) a, aw_event = x\<rparr>"
    unfolding ledger [symmetric] by (rule append_event_Inr)
  with a c time warrants d show ?thesis by (intro that) auto
qed

subsection \<open>The operations keep the invariant\<close>

lemma candidateI:
  assumes "payload_init (ra_payload b) = Inr (ra_payload b)" "confidence_init (ra_confidence b) = Inr (ra_confidence b)"
    "artifact_fields_ok b" "artifact_invariants b = Inr ()"
  shows "artifact_candidate b = Inr b"
  using assms by (simp add: artifact_candidate_def)

lemma validate_status:
  assumes "validate_artifact a = Inr a" "datetime_valid t"
  shows "validate_artifact (a\<lparr>ra_status := st, ra_updated_at := t\<rparr>) = Inr (a\<lparr>ra_status := st, ra_updated_at := t\<rparr>)"
proof -
  have c: "artifact_candidate a = Inr a" "ra_content_hash a = artifact_digest a"
    using assms(1) by (simp_all add: validate_artifact_iff)
  from c(1) have v: "payload_init (ra_payload a) = Inr (ra_payload a)" "confidence_init (ra_confidence a) = Inr (ra_confidence a)"
    "artifact_fields_ok a" "artifact_invariants a = Inr ()" by (auto elim: candidateE)
  have "artifact_fields_ok (a\<lparr>ra_status := st, ra_updated_at := t\<rparr>)"
    using v(3) assms(2) by (simp add: artifact_fields_ok_def)
  moreover have "artifact_invariants (a\<lparr>ra_status := st, ra_updated_at := t\<rparr>) = Inr ()"
    using v(4) by (simp add: invariants_iff)
  ultimately have "artifact_candidate (a\<lparr>ra_status := st, ra_updated_at := t\<rparr>) = Inr (a\<lparr>ra_status := st, ra_updated_at := t\<rparr>)"
    using v(1,2) by (intro candidateI) simp_all
  with c(2) show ?thesis by (simp add: validate_artifact_iff artifact_digest_def hash_preimage_def)
qed

lemma row_check_status [simp]: "artifact_row_check (a\<lparr>ra_status := st, ra_updated_at := t\<rparr>) = artifact_row_check a"
  by (simp add: artifact_row_check_def column_types_def jsonb_columns_def validate_reasoning_artifact_envelope_def)

lemma session_row_ledger [simp]:
  "session_row (db\<lparr>ab_artifacts := x\<rparr>) = session_row db" "session_row (db\<lparr>ab_nodes := y\<rparr>) = session_row db"
  "session_row (db\<lparr>ab_edges := z\<rparr>) = session_row db"
  by (simp_all add: session_row_def fun_eq_iff)

lemma status_rows_ok:
  assumes "rows_ok db" "datetime_valid t"
  shows "rows_ok (db\<lparr>ab_artifacts := map (set_status i st t) (ab_artifacts db)\<rparr>)"
proof -
  have "validate_artifact (set_status i st t a) = Inr (set_status i st t a)" "artifact_row_check (set_status i st t a) = None"
    if "a \<in> set (ab_artifacts db)" for a
    using that assms validate_status by (auto simp: set_status_def rows_ok_def)
  with assms(1) show ?thesis by (auto simp: rows_ok_def comp_def)
qed

lemma node_of_status [simp]: "node_of (set_status i st t a) = node_of a"
  by (simp add: node_of_def fun_eq_iff)

lemma edge_of_status [simp]: "edge_of ns (set_status i st t a, l) = edge_of ns (a, l)"
  by (simp add: edge_of_def fun_eq_iff)

lemma all_links_status:
  "list_all2 (edge_of ns) (all_links (map (set_status i st t) as)) es = list_all2 (edge_of ns) (all_links as) es"
proof -
  have "all_links (map (set_status i st t) as) = map (map_prod (set_status i st t) (\<lambda>l. l)) (all_links as)"
    by (induction as) (simp_all add: all_links_def)
  moreover have "edge_of ns (map_prod (set_status i st t) (\<lambda>l. l) x) = edge_of ns x" for x by (cases x) simp
  ultimately show ?thesis by (simp add: list_all2_map1)
qed

lemma links_earlier_status [simp]: "links_earlier (map (set_status i st t) as) = links_earlier as"
proof -
  have "(\<exists>j<k. ra_id (map (set_status i st t) as ! j) = x \<and> same_session (map (set_status i st t) as ! j) (map (set_status i st t) as ! k))
      \<longleftrightarrow> (\<exists>j<k. ra_id (as ! j) = x \<and> same_session (as ! j) (as ! k))" if "k < length as" for k x
    using that by (intro ex_cong1) (auto simp: same_session_def)
  then show ?thesis by (simp add: links_earlier_def)
qed

lemma status_graph_ok:
  "graph_ok db \<Longrightarrow> graph_ok (db\<lparr>ab_artifacts := map (set_status i st t) (ab_artifacts db)\<rparr>)"
  by (simp add: graph_ok_def list_all2_map1 all_links_status)

lemma inserted_status [simp]:
  "inserted (db\<lparr>ab_artifacts := map (set_status i st t) (ab_artifacts db)\<rparr>) a n es = inserted db a n es"
  by (simp add: inserted_def image_image)

lemma insert_rows_ok:
  assumes "rows_ok db" "inserted db a n es" "validate_artifact a = Inr a"
  shows "rows_ok (db\<lparr>ab_artifacts := ab_artifacts db @ [a], ab_nodes := ns, ab_edges := fs\<rparr>)"
  using assms by (auto simp: rows_ok_def inserted_def)

lemma refers_mono: "refers ns ws s n i \<Longrightarrow> set ns \<subseteq> set ms \<Longrightarrow> refers ms ws s n i"
  by (auto simp: refers_def)

lemma edge_of_mono: "edge_of ns l e \<Longrightarrow> set ns \<subseteq> set ms \<Longrightarrow> edge_of ms l e"
  by (auto simp: edge_of_def Let_def intro: refers_mono)

lemma all_links_append: "all_links (as @ [a]) = all_links as @ map (Pair a) (links a)"
  by (simp add: all_links_def)

lemma node_artifact:
  assumes "list_all2 node_of as ns" "m \<in> set ns"
  obtains j where "j < length as" "node_of (as ! j) m"
  using assms by (auto simp: list_all2_conv_all_nth in_set_conv_nth)

lemma insert_graph_ok:
  assumes "graph_ok db" "inserted db a n es"
  shows "graph_ok (db\<lparr>ab_artifacts := ab_artifacts db @ [a], ab_nodes := ab_nodes db @ [n], ab_edges := ab_edges db @ es\<rparr>)"
proof -
  let ?as = "ab_artifacts db" let ?ns = "ab_nodes db"
  have nodes: "list_all2 node_of ?as ?ns" and early: "links_earlier ?as"
    and edges: "list_all2 (edge_of ?ns) (all_links ?as) (ab_edges db)"
    using assms(1) by (simp_all add: graph_ok_def)
  have "list_all2 (edge_of (?ns @ [n])) (all_links ?as) (ab_edges db)"
    using edges by (rule list_all2_mono) (auto intro: edge_of_mono)
  then have "list_all2 (edge_of (?ns @ [n])) (all_links (?as @ [a])) (ab_edges db @ es)"
    using assms(2) by (auto simp: all_links_append inserted_def intro: list_all2_appendI)
  moreover have "links_earlier (?as @ [a])"
    unfolding links_earlier_def
  proof (intro allI impI ballI)
    fix i l assume i: "i < length (?as @ [a])" and l: "l \<in> set (links ((?as @ [a]) ! i))"
    show "\<exists>j<i. ra_id ((?as @ [a]) ! j) = snd l \<and> same_session ((?as @ [a]) ! j) ((?as @ [a]) ! i)"
    proof (cases "i < length ?as")
      case True
      then obtain j where "j < i" "ra_id (?as ! j) = snd l" "same_session (?as ! j) (?as ! i)"
        using early l by (auto simp: links_earlier_def nth_append)
      with True show ?thesis by (intro exI [of _ j]) (simp add: nth_append)
    next
      case False
      then have "i = length ?as" using i by simp
      then obtain m where m: "m \<in> set ?ns" "gn_workspace_id m = ra_workspace_id a" "gn_session_id m = ra_session_id a" "gn_ref_id m = snd l"
        using assms(2) l by (auto simp: inserted_def)
      from nodes m(1) obtain j where "j < length ?as" "node_of (?as ! j) m" by (rule node_artifact)
      with m \<open>i = length ?as\<close> show ?thesis
        by (intro exI [of _ j]) (simp add: nth_append node_of_def same_session_def)
    qed
  qed
  ultimately show ?thesis using assms nodes by (auto simp: graph_ok_def inserted_def intro: list_all2_appendI)
qed

lemma earlier_id:
  assumes "links_earlier as" "b \<in> set as" "l \<in> set (links b)"
  shows "snd l \<in> ra_id ` set as"
proof -
  obtain i where i: "i < length as" "b = as ! i" using assms(2) by (auto simp: in_set_conv_nth)
  then obtain j where "j < i" "ra_id (as ! j) = snd l" using assms(1,3) by (auto simp: links_earlier_def)
  with i(1) show ?thesis by (metis image_eqI nth_mem order.strict_trans)
qed

lemma follows_link: "follows b p \<Longrightarrow> (SUPERSEDES, ra_id p) \<in> set (links b)"
  by (simp add: follows_def links_def)

lemma follows_status [simp]:
  "follows (set_status i st t a) p = follows a p" "follows a (set_status i st t p) = follows a p"
  by (simp_all add: follows_def same_session_def)

lemma no_successor:
  assumes "links_earlier as" "b \<in> set as" "ra_id a \<notin> ra_id ` set as"
  shows "\<not> follows b a"
  using earlier_id [OF assms(1,2) follows_link] assms(3) by fastforce

lemma commit_history:
  assumes "history_ok as" "links_earlier as" "ra_id a \<notin> ra_id ` set as" "ra_version a = 1" "ra_supersedes_id a = None"
    "ra_status a = ACTIVE"
  shows "history_ok (as @ [a])"
proof -
  have "\<not> follows b a" if "b \<in> set as" for b using no_successor [OF assms(2) that assms(3)] .
  moreover have "\<not> follows a p" for p using assms(5) by (simp add: follows_def)
  ultimately show ?thesis using assms(1,4,6) unfolding history_ok_def by auto
qed

lemma revise_history:
  assumes "history_ok as" "links_earlier as" "distinct (map ra_id as)" "ra_id a \<notin> ra_id ` set as" "p \<in> set as"
    "follows a p" "ra_status a = ACTIVE"
  shows "history_ok (map (set_status (ra_id p) SUPERSEDED t) as @ [a])"
proof -
  have n: "\<not> follows b a" if "b \<in> set as" for b using no_successor [OF assms(2) that assms(4)] .
  have aa: "\<not> follows a a" using assms(4,5,6) by (auto simp: follows_def)
  have only: "follows a q \<longleftrightarrow> q = p" if "q \<in> set as" for q
    using assms(3,5,6) that by (auto simp: follows_def distinct_map inj_on_def)
  have st: "ra_status (set_status (ra_id p) SUPERSEDED t q) = (if q = p then SUPERSEDED else ra_status q)" if "q \<in> set as" for q
    using assms(3,5) that by (auto simp: set_status_def distinct_map inj_on_def)
  show ?thesis unfolding history_ok_def
  proof (intro conjI ballI)
    fix b assume "b \<in> set (map (set_status (ra_id p) SUPERSEDED t) as @ [a])"
    then consider "b = a" | c where "c \<in> set as" "b = set_status (ra_id p) SUPERSEDED t c" by auto
    then show "ra_version b = 1 \<or> (\<exists>q \<in> set (map (set_status (ra_id p) SUPERSEDED t) as @ [a]). follows b q)"
      using assms(1,5,6) by cases (auto simp: history_ok_def)
  next
    fix q assume "q \<in> set (map (set_status (ra_id p) SUPERSEDED t) as @ [a])"
    then consider "q = a" | c where "c \<in> set as" "q = set_status (ra_id p) SUPERSEDED t c" by auto
    then show "ra_status q = SUPERSEDED \<longleftrightarrow> (\<exists>b \<in> set (map (set_status (ra_id p) SUPERSEDED t) as @ [a]). follows b q)"
    proof cases
      case 1
      then show ?thesis using n aa assms(7) by auto
    next
      case (2 c)
      then have "ra_status c = SUPERSEDED \<longleftrightarrow> (\<exists>b \<in> set as. follows b c)" using assms(1) by (simp add: history_ok_def)
      with 2 st [OF 2(1)] only [OF 2(1)] show ?thesis by auto
    qed
  qed
qed

lemma withdraw_history:
  assumes "history_ok as" "distinct (map ra_id as)" "a \<in> set as" "ra_status a = ACTIVE"
  shows "history_ok (map (set_status (ra_id a) WITHDRAWN t) as)"
proof -
  have st: "ra_status (set_status (ra_id a) WITHDRAWN t q) = (if q = a then WITHDRAWN else ra_status q)" if "q \<in> set as" for q
    using assms(2,3) that by (auto simp: set_status_def distinct_map inj_on_def)
  have "\<forall>b \<in> set as. \<not> follows b a" using assms(1,3,4) unfolding history_ok_def by force
  then show ?thesis using assms(1) st unfolding history_ok_def by (auto split: if_splits)
qed

lemma ledger_append_session_row:
  assumes "ledger_wf l" "LedgerAppend_valid e" "ledger_append l e = Inr (l', x)" "lg_heads l s = Some h"
  obtains h' where "lg_heads l' s = Some h'" "lh_workspace_id h' = lh_workspace_id h"
proof (cases rule: ledger_append_cases [OF assms(1-3)])
  case 1
  with assms(4) that show ?thesis by simp
next
  case (2 k)
  with assms(4) that show ?thesis by (cases "s = la_session_id e") (auto simp: with_event_def)
qed

lemma artifact_event_valid:
  "artifact_event a cx ty p = Inr e \<Longrightarrow> LedgerAppend_valid e \<and> la_session_id e = ra_session_id a \<and>
    la_workspace_id e = ra_workspace_id a \<and> la_id e = ec_event_id cx \<and> la_event_type e = ustr ty"
  by (auto simp: artifact_event_def Let_def result_simps)

lemma append_keeps:
  assumes "ledger_wf (ab_ledger db)" "rows_ok db" "LedgerAppend_valid e" "ledger_append (ab_ledger db) e = Inr (l, x)"
  shows "rows_ok (db\<lparr>ab_ledger := l\<rparr>)" "ledger_wf l"
proof -
  note v = assms(3)
  show "ledger_wf l" using ledger_append_wf [OF assms(1) v assms(4)] .
  have "session_row (db\<lparr>ab_ledger := l\<rparr>) ws s" if s: "session_row db ws s" for ws s
  proof -
    obtain h where h: "lg_heads (ab_ledger db) s = Some h" "lh_workspace_id h = ws"
      using s by (auto simp: session_row_def split: option.splits)
    from assms(1) v assms(4) h(1) obtain h' where "lg_heads l s = Some h'" "lh_workspace_id h' = lh_workspace_id h"
      by (rule ledger_append_session_row)
    with h(2) show ?thesis by (simp add: session_row_def)
  qed
  with assms(2) show "rows_ok (db\<lparr>ab_ledger := l\<rparr>)" by (auto simp: rows_ok_def)
qed

lemma graph_ok_ledger [simp]: "graph_ok (db\<lparr>ab_ledger := l\<rparr>) = graph_ok db"
  by (simp add: graph_ok_def)

lemma perform_wf:
  assumes "artifact_wf db" "write_valid w" "perform db w = Inr (db', r)"
  shows "artifact_wf db'"
proof -
  have wf: "ledger_wf (ab_ledger db)" "rows_ok db" "history_ok (ab_artifacts db)" "graph_ok db"
    "links_earlier (ab_artifacts db)" "distinct (map ra_id (ab_artifacts db))"
    using assms(1) by (simp_all add: artifact_wf_def graph_ok_def rows_ok_def)
  show ?thesis
  proof (cases w)
    case (Commit a nid eids label cx)
    with assms(3) have "commit_artifact db a nid eids label cx = Inr (db', r)" by simp
    then obtain n es e l x where c: "ra_version a = 1" "ra_supersedes_id a = None" "ra_status a = ACTIVE" "gn_id n = nid"
      "inserted db a n es" "artifact_event a cx ''ARTIFACT_COMMITTED'' (commit_payload a) = Inr e"
      "ledger_append (ab_ledger db) e = Inr (l, x)"
      "db' = db\<lparr>ab_ledger := l, ab_artifacts := ab_artifacts db @ [a], ab_nodes := ab_nodes db @ [n], ab_edges := ab_edges db @ es\<rparr>"
      by (rule commit_effect)
    have v: "validate_artifact a = Inr a" using Commit assms(2) by simp
    let ?d = "db\<lparr>ab_artifacts := ab_artifacts db @ [a], ab_nodes := ab_nodes db @ [n], ab_edges := ab_edges db @ es\<rparr>"
    have "rows_ok ?d" using insert_rows_ok [OF wf(2) c(5) v] .
    then have "rows_ok (?d\<lparr>ab_ledger := l\<rparr>)" "ledger_wf l"
      using append_keeps [of ?d e l x] artifact_event_valid [OF c(6)] wf(1) c(7) by simp_all
    moreover have "history_ok (ab_artifacts db @ [a])"
      using commit_history [OF wf(3,5) _ c(1-3)] c(5) by (simp add: inserted_def)
    moreover have "db' = ?d\<lparr>ab_ledger := l\<rparr>" by (simp add: c(8))
    ultimately show ?thesis using insert_graph_ok [OF wf(4) c(5)] by (simp add: artifact_wf_def)
  next
    case (Revise a nid eid eids label reason cx)
    with assms(3) have "revise_artifact db a nid eid eids label reason cx = Inr (db', r)" by simp
    with wf(2) obtain p n es e l x where c: "p \<in> set (ab_artifacts db)" "ra_status p = ACTIVE" "follows a p" "ra_status a = ACTIVE"
      "1 < ra_version a" "\<not> dt_less (ec_recorded_at cx) (ra_updated_at p)" "gn_id n = nid" "inserted db a n es"
      "artifact_event a cx ''ARTIFACT_REVISED'' (revise_payload a (ra_id p) reason) = Inr e"
      "ledger_append (ab_ledger db) e = Inr (l, x)"
      "db' = db\<lparr>ab_ledger := l, ab_artifacts := map (set_status (ra_id p) SUPERSEDED (ec_recorded_at cx)) (ab_artifacts db) @ [a],
         ab_nodes := ab_nodes db @ [n], ab_edges := ab_edges db @ es\<rparr>"
      by (rule revise_effect)
    have v: "validate_artifact a = Inr a" "datetime_valid (ec_recorded_at cx)" using Revise assms(2) by simp_all
    let ?c = "db\<lparr>ab_artifacts := map (set_status (ra_id p) SUPERSEDED (ec_recorded_at cx)) (ab_artifacts db)\<rparr>"
    let ?d = "?c\<lparr>ab_artifacts := ab_artifacts ?c @ [a], ab_nodes := ab_nodes ?c @ [n], ab_edges := ab_edges ?c @ es\<rparr>"
    have ins: "inserted ?c a n es" using c(8) by simp
    have "rows_ok ?d" using insert_rows_ok [OF status_rows_ok [OF wf(2) v(2)] ins v(1)] .
    then have "rows_ok (?d\<lparr>ab_ledger := l\<rparr>)" "ledger_wf l"
      using append_keeps [of ?d e l x] artifact_event_valid [OF c(9)] wf(1) c(10) by simp_all
    moreover have "history_ok (ab_artifacts ?d)"
      using revise_history [OF wf(3,5,6) _ c(1,3,4)] c(8) by (simp add: inserted_def)
    moreover have "graph_ok ?d" using insert_graph_ok [OF status_graph_ok [OF wf(4)] ins] .
    moreover have "db' = ?d\<lparr>ab_ledger := l\<rparr>" by (simp add: c(11))
    ultimately show ?thesis by (simp add: artifact_wf_def)
  next
    case (Withdraw ws s i reason warrants cx)
    with assms(3) have "withdraw_artifact db ws s i reason warrants cx = Inr (db', r)" by simp
    with wf(2) obtain a e l x where c: "a \<in> set (ab_artifacts db)" "in_session a ws s" "ra_id a = i" "ra_status a = ACTIVE"
      "artifact_event (set_status i WITHDRAWN (ec_recorded_at cx) a) cx ''ARTIFACT_WITHDRAWN'' (withdraw_payload a reason warrants) = Inr e"
      "ledger_append (ab_ledger db) e = Inr (l, x)"
      "db' = db\<lparr>ab_ledger := l, ab_artifacts := map (set_status i WITHDRAWN (ec_recorded_at cx)) (ab_artifacts db)\<rparr>"
      by (rule withdraw_effect)
    have v: "datetime_valid (ec_recorded_at cx)" using Withdraw assms(2) by simp
    let ?d = "db\<lparr>ab_artifacts := map (set_status i WITHDRAWN (ec_recorded_at cx)) (ab_artifacts db)\<rparr>"
    have "rows_ok ?d" using status_rows_ok [OF wf(2) v] .
    then have "rows_ok (?d\<lparr>ab_ledger := l\<rparr>)" "ledger_wf l"
      using append_keeps [of ?d e l x] artifact_event_valid [OF c(5)] wf(1) c(6) by simp_all
    moreover have "history_ok (ab_artifacts ?d)" using withdraw_history [OF wf(3,6) c(1,4)] c(3) by simp
    moreover have "db' = ?d\<lparr>ab_ledger := l\<rparr>" by (simp add: c(7))
    ultimately show ?thesis using status_graph_ok [OF wf(4)] by (simp add: artifact_wf_def)
  qed
qed

subsection \<open>How the tables evolve\<close>

lemma dt_less_trans: "\<not> dt_less b a \<Longrightarrow> \<not> dt_less c b \<Longrightarrow> \<not> dt_less c a"
  by (auto simp: dt_less_def not_less)

lemma row_evolves_refl [simp]: "row_evolves a a"
  by (simp add: row_evolves_def dt_less_def)

lemma row_evolves_trans: "row_evolves a b \<Longrightarrow> row_evolves b c \<Longrightarrow> row_evolves a c"
  unfolding row_evolves_def using dt_less_trans [of "ra_updated_at b" "ra_updated_at a" "ra_updated_at c"] by auto

lemma rows_evolve_refl [simp]: "list_all2 row_evolves as as"
  by (simp add: list_all2_same)

lemma evolves_refl [simp]: "evolves db db"
  unfolding evolves_def by (intro conjI exI [of _ "ab_artifacts db"] exI [of _ "[]"]) simp_all

lemma evolves_trans:
  assumes "evolves a b" "evolves b c"
  shows "evolves a c"
proof -
  obtain os ns where b: "ab_artifacts b = os @ ns" "list_all2 row_evolves (ab_artifacts a) os"
    using assms(1) by (auto simp: evolves_def)
  obtain os' ns' where c: "ab_artifacts c = os' @ ns'" "list_all2 row_evolves (os @ ns) os'"
    using assms(2) b(1) by (auto simp: evolves_def)
  then obtain us vs where uv: "os' = us @ vs" "list_all2 row_evolves os us" by (auto simp: list_all2_append1)
  have "list_all2 row_evolves (ab_artifacts a) us"
    using b(2) uv(2) by (rule list_all2_trans [rotated]) (rule row_evolves_trans)
  then have "\<exists>olds news. ab_artifacts c = olds @ news \<and> list_all2 row_evolves (ab_artifacts a) olds"
    using c(1) uv(1) by auto
  then show ?thesis using assms by (auto simp: evolves_def)
qed

lemma row_evolves_fields:
  assumes "row_evolves a b"
  shows "ra_id b = ra_id a" "ra_workspace_id b = ra_workspace_id a" "ra_session_id b = ra_session_id a"
    "ra_logical_id b = ra_logical_id a" "ra_kind b = ra_kind a" "ra_version b = ra_version a"
    "ra_supersedes_id b = ra_supersedes_id a" "artifact_references b = artifact_references a"
    "ra_round b = ra_round a" "ra_metadata b = ra_metadata a"
proof -
  have eq: "f b = f a" if "\<And>x st t. f (x\<lparr>ra_status := st, ra_updated_at := t\<rparr>) = f x" for f :: "ReasoningArtifact \<Rightarrow> 'z"
    using assms that unfolding row_evolves_def content_of_def by metis
  show "ra_id b = ra_id a" "ra_workspace_id b = ra_workspace_id a" "ra_session_id b = ra_session_id a"
    "ra_logical_id b = ra_logical_id a" "ra_kind b = ra_kind a" "ra_version b = ra_version a"
    "ra_supersedes_id b = ra_supersedes_id a" "ra_round b = ra_round a" "ra_metadata b = ra_metadata a"
    by (rule eq; simp)+
  show "artifact_references b = artifact_references a" by (rule eq) (simp add: artifact_references_def)
qed

lemma status_evolves:
  assumes "distinct (map ra_id as)" "a \<in> set as" "ra_status a = ACTIVE" "st = SUPERSEDED \<or> st = WITHDRAWN"
    "\<not> dt_less t (ra_updated_at a)"
  shows "list_all2 row_evolves as (map (set_status (ra_id a) st t) as)"
proof -
  have "row_evolves b (set_status (ra_id a) st t b)" if "b \<in> set as" for b
  proof (cases "b = a")
    case True
    with assms(3-5) show ?thesis by (auto simp: row_evolves_def set_status_def content_of_def)
  next
    case False
    then have "ra_id b \<noteq> ra_id a" using assms(1,2) that by (auto simp: distinct_map inj_on_def)
    then show ?thesis by (simp add: set_status_other)
  qed
  then show ?thesis by (simp add: list_all2_map2 list_all2_same)
qed

lemma append_prefix:
  assumes "ledger_wf l" "LedgerAppend_valid e" "ledger_append l e = Inr (l', x)"
  shows "\<exists>xs. lg_events l' = lg_events l @ xs" "x \<in> set (lg_events l')" "same_caller_values e x"
proof -
  show "\<exists>xs. lg_events l' = lg_events l @ xs"
    by (cases rule: ledger_append_cases [OF assms]) (auto simp: with_event_def)
  show "x \<in> set (lg_events l')"
    by (cases rule: ledger_append_cases [OF assms]) (auto simp: with_event_def dest: event_by_id_SomeD)
  show "same_caller_values e x"
    by (cases rule: ledger_append_cases [OF assms]) (auto simp: next_event_caller)
qed

lemma evolvesI:
  assumes "ab_artifacts db' = olds @ news" "list_all2 row_evolves (ab_artifacts db) olds"
    "ab_nodes db' = ab_nodes db @ ns" "ab_edges db' = ab_edges db @ es"
    "\<exists>xs. lg_events (ab_ledger db') = lg_events (ab_ledger db) @ xs"
  shows "evolves db db'"
  using assms unfolding evolves_def by blast

lemma perform_evolves:
  assumes "artifact_wf db" "perform db w = Inr (db', r)"
  shows "evolves db db'"
proof -
  have wf: "ledger_wf (ab_ledger db)" "rows_ok db" "distinct (map ra_id (ab_artifacts db))"
    using assms(1) by (simp_all add: artifact_wf_def rows_ok_def)
  show ?thesis
  proof (cases w)
    case (Commit a nid eids label cx)
    with assms(2) have "commit_artifact db a nid eids label cx = Inr (db', r)" by simp
    then obtain n es e l x where c: "artifact_event a cx ''ARTIFACT_COMMITTED'' (commit_payload a) = Inr e"
      "ledger_append (ab_ledger db) e = Inr (l, x)"
      "db' = db\<lparr>ab_ledger := l, ab_artifacts := ab_artifacts db @ [a], ab_nodes := ab_nodes db @ [n], ab_edges := ab_edges db @ es\<rparr>"
      by (rule commit_effect)
    have "\<exists>xs. lg_events l = lg_events (ab_ledger db) @ xs"
      using append_prefix(1) [OF wf(1) _ c(2)] artifact_event_valid [OF c(1)] by blast
    then show ?thesis by (intro evolvesI [of _ "ab_artifacts db" "[a]" _ "[n]" es]) (simp_all add: c(3))
  next
    case (Revise a nid eid eids label reason cx)
    with assms(2) have "revise_artifact db a nid eid eids label reason cx = Inr (db', r)" by simp
    with wf(2) obtain p n es e l x where c: "p \<in> set (ab_artifacts db)" "ra_status p = ACTIVE"
      "\<not> dt_less (ec_recorded_at cx) (ra_updated_at p)"
      "artifact_event a cx ''ARTIFACT_REVISED'' (revise_payload a (ra_id p) reason) = Inr e"
      "ledger_append (ab_ledger db) e = Inr (l, x)"
      "db' = db\<lparr>ab_ledger := l, ab_artifacts := map (set_status (ra_id p) SUPERSEDED (ec_recorded_at cx)) (ab_artifacts db) @ [a],
         ab_nodes := ab_nodes db @ [n], ab_edges := ab_edges db @ es\<rparr>"
      by (rule revise_effect)
    have "\<exists>xs. lg_events l = lg_events (ab_ledger db) @ xs"
      using append_prefix(1) [OF wf(1) _ c(5)] artifact_event_valid [OF c(4)] by blast
    moreover have "list_all2 row_evolves (ab_artifacts db) (map (set_status (ra_id p) SUPERSEDED (ec_recorded_at cx)) (ab_artifacts db))"
      using status_evolves [OF wf(3) c(1,2) _ c(3)] by simp
    ultimately show ?thesis
      by (intro evolvesI [of _ "map (set_status (ra_id p) SUPERSEDED (ec_recorded_at cx)) (ab_artifacts db)" "[a]" _ "[n]" es])
         (simp_all add: c(6))
  next
    case (Withdraw ws s i reason warrants cx)
    with assms(2) have "withdraw_artifact db ws s i reason warrants cx = Inr (db', r)" by simp
    with wf(2) obtain a e l x where c: "a \<in> set (ab_artifacts db)" "ra_id a = i" "ra_status a = ACTIVE"
      "\<not> dt_less (ec_recorded_at cx) (ra_updated_at a)"
      "artifact_event (set_status i WITHDRAWN (ec_recorded_at cx) a) cx ''ARTIFACT_WITHDRAWN'' (withdraw_payload a reason warrants) = Inr e"
      "ledger_append (ab_ledger db) e = Inr (l, x)"
      "db' = db\<lparr>ab_ledger := l, ab_artifacts := map (set_status i WITHDRAWN (ec_recorded_at cx)) (ab_artifacts db)\<rparr>"
      by (rule withdraw_effect)
    have "\<exists>xs. lg_events l = lg_events (ab_ledger db) @ xs"
      using append_prefix(1) [OF wf(1) _ c(6)] artifact_event_valid [OF c(5)] by blast
    moreover have "list_all2 row_evolves (ab_artifacts db) (map (set_status i WITHDRAWN (ec_recorded_at cx)) (ab_artifacts db))"
      using status_evolves [OF wf(3) c(1,3) _ c(4)] c(2) by simp
    ultimately show ?thesis
      by (intro evolvesI [of _ "map (set_status i WITHDRAWN (ec_recorded_at cx)) (ab_artifacts db)" "[]" _ "[]" "[]"])
         (simp_all add: c(7))
  qed
qed

subsection \<open>The ledger records every write\<close>

lemma artifact_event_records:
  assumes "artifact_event a cx ty p = Inr e" "same_caller_values e x"
  shows "records a ty p x"
  using assms by (auto simp: artifact_event_def Let_def result_simps records_def same_caller_values_def)

lemma records_status [simp]:
  "records (set_status i st t a) = records a" "commit_payload (set_status i st t a) = commit_payload a"
  "revise_payload (set_status i st t a) = revise_payload a" "withdraw_payload (set_status i st t a) = withdraw_payload a"
  by (simp_all add: fun_eq_iff records_def event_payload_def set_status_def commit_payload_def revise_payload_def
      withdraw_payload_def)

lemma recorded_mono: "recorded xs a \<Longrightarrow> set xs \<subseteq> set ys \<Longrightarrow> recorded ys a"
  unfolding recorded_def list_ex_iff by (meson subsetD)

lemma recorded_status:
  assumes "recorded xs a" "st \<noteq> WITHDRAWN"
  shows "recorded xs (set_status i st t a)"
  using assms by (auto simp: recorded_def) (auto simp: set_status_def split: if_splits)

lemma recorded_withdrawn:
  assumes "recorded xs a" "\<not> u_blank reason" "warrants \<noteq> []"
    "x \<in> set xs" "records a ''ARTIFACT_WITHDRAWN'' (withdraw_payload a reason warrants) x"
  shows "recorded xs (set_status i WITHDRAWN t a)"
  using assms unfolding recorded_def records_status set_status_simps list_ex_iff by blast

lemma perform_recorded:
  assumes "artifact_wf db" "all_recorded db" "perform db w = Inr (db', r)"
  shows "all_recorded db'"
proof -
  have wf: "ledger_wf (ab_ledger db)" "rows_ok db" "distinct (map ra_id (ab_artifacts db))"
    using assms(1) by (simp_all add: artifact_wf_def rows_ok_def)
  have old: "recorded (lg_events (ab_ledger db')) a" if "a \<in> set (ab_artifacts db)" for a
    using that assms(2) perform_evolves [OF assms(1,3)] recorded_mono
    by (fastforce simp: all_recorded_def list_all_iff evolves_def)
  show ?thesis
  proof (cases w)
    case (Commit a nid eids label cx)
    with assms(3) have "commit_artifact db a nid eids label cx = Inr (db', r)" by simp
    then obtain n es e l x where c: "ra_version a = 1" "ra_status a = ACTIVE"
      "artifact_event a cx ''ARTIFACT_COMMITTED'' (commit_payload a) = Inr e" "ledger_append (ab_ledger db) e = Inr (l, x)"
      "db' = db\<lparr>ab_ledger := l, ab_artifacts := ab_artifacts db @ [a], ab_nodes := ab_nodes db @ [n], ab_edges := ab_edges db @ es\<rparr>"
      by (rule commit_effect)
    note p = append_prefix(2,3) [OF wf(1) _ c(4)]
    have "recorded (lg_events l) a"
      using c(1,2) p artifact_event_valid [OF c(3)] artifact_event_records [OF c(3)]
      by (auto simp: recorded_def list_ex_iff)
    with old show ?thesis by (auto simp: all_recorded_def c(5) list_all_iff)
  next
    case (Revise a nid eid eids label reason cx)
    with assms(3) have rev: "revise_artifact db a nid eid eids label reason cx = Inr (db', r)" by simp
    with wf(2) obtain q n es e l x where c: "follows a q" "ra_status a = ACTIVE" "1 < ra_version a"
      "artifact_event a cx ''ARTIFACT_REVISED'' (revise_payload a (ra_id q) reason) = Inr e"
      "ledger_append (ab_ledger db) e = Inr (l, x)"
      "db' = db\<lparr>ab_ledger := l, ab_artifacts := map (set_status (ra_id q) SUPERSEDED (ec_recorded_at cx)) (ab_artifacts db) @ [a],
         ab_nodes := ab_nodes db @ [n], ab_edges := ab_edges db @ es\<rparr>"
      by (rule revise_effect)
    have blank: "\<not> u_blank reason"
      using rev by (auto simp: revise_artifact_def revision_checked_def result_simps split: option.splits)
    note p = append_prefix(2,3) [OF wf(1) _ c(5)]
    have "recorded (lg_events l) a"
      using c(1-3) p blank artifact_event_valid [OF c(4)] artifact_event_records [OF c(4)]
      by (auto simp: recorded_def list_ex_iff follows_def)
    moreover have "recorded (lg_events l) (set_status (ra_id q) SUPERSEDED (ec_recorded_at cx) b)" if "b \<in> set (ab_artifacts db)" for b
      using old [OF that] by (intro recorded_status) (simp_all add: c(6))
    ultimately show ?thesis by (auto simp: all_recorded_def c(6) list_all_iff)
  next
    case (Withdraw ws s i reason warrants cx)
    with assms(3) have "withdraw_artifact db ws s i reason warrants cx = Inr (db', r)" by simp
    with wf(2) obtain a e l x where c: "a \<in> set (ab_artifacts db)" "ra_id a = i" "\<not> u_blank reason" "warrants \<noteq> []"
      "artifact_event (set_status i WITHDRAWN (ec_recorded_at cx) a) cx ''ARTIFACT_WITHDRAWN'' (withdraw_payload a reason warrants) = Inr e"
      "ledger_append (ab_ledger db) e = Inr (l, x)"
      "db' = db\<lparr>ab_ledger := l, ab_artifacts := map (set_status i WITHDRAWN (ec_recorded_at cx)) (ab_artifacts db)\<rparr>"
      by (rule withdraw_effect)
    note p = append_prefix(2,3) [OF wf(1) _ c(6)]
    have x: "x \<in> set (lg_events l)" "records a ''ARTIFACT_WITHDRAWN'' (withdraw_payload a reason warrants) x"
      using p artifact_event_valid [OF c(5)] artifact_event_records [OF c(5), of x] by auto
    have "recorded (lg_events l) (set_status i WITHDRAWN (ec_recorded_at cx) b)" if b: "b \<in> set (ab_artifacts db)" for b
    proof (cases "b = a")
      case True
      with old [OF b] c x show ?thesis by (intro recorded_withdrawn [of _ _ reason warrants x]) (simp_all add: c(7))
    next
      case False
      then have "ra_id b \<noteq> i" using wf(3) b c(1,2) by (auto simp: distinct_map inj_on_def)
      with old [OF b] show ?thesis by (simp add: c(7) set_status_other)
    qed
    then show ?thesis by (simp add: all_recorded_def c(7) list_all_iff)
  qed
qed

subsection \<open>Reachable states\<close>

lemma evolves_row:
  assumes "evolves db db'" "a \<in> set (ab_artifacts db)"
  obtains b where "b \<in> set (ab_artifacts db')" "row_evolves a b"
proof -
  obtain olds news where "ab_artifacts db' = olds @ news" "list_all2 row_evolves (ab_artifacts db) olds"
    using assms(1) by (auto simp: evolves_def)
  moreover from this(2) assms(2) obtain b where "b \<in> set olds" "row_evolves a b"
    by (metis list_all2_conv_all_nth in_set_conv_nth)
  ultimately show ?thesis using that by auto
qed

lemma references_evolve:
  assumes "evolves db db'" "references_exist db a"
  shows "references_exist db' a"
proof -
  have "artifact_row db' ws s i \<noteq> None" if found: "artifact_row db ws s i \<noteq> None" for ws s i
  proof -
    obtain b where row: "artifact_row db ws s i = Some b" using found by (cases "artifact_row db ws s i") auto
    then have b: "b \<in> set (ab_artifacts db)" "in_session b ws s" "ra_id b = i"
      by (auto dest: artifact_row_iff)
    from assms(1) b(1) obtain c where "c \<in> set (ab_artifacts db')" "row_evolves b c" by (rule evolves_row)
    with b have "c \<in> set (ab_artifacts db')" "in_session c ws s" "ra_id c = i"
      by (simp_all add: row_evolves_fields in_session_def)
    then show ?thesis by (auto simp: artifact_row_def find_None_iff)
  qed
  with assms(2) show ?thesis by (auto simp: references_exist_def list_all_iff)
qed

lemma find_append_Some: "find P xs = Some x \<Longrightarrow> find P (xs @ ys) = Some x"
  by (induction xs) auto

lemma endpoints_evolve:
  assumes "evolves db db'" "endpoints_ok db e"
  shows "endpoints_ok db' e"
proof -
  obtain ns where "ab_nodes db' = ab_nodes db @ ns" using assms(1) by (auto simp: evolves_def)
  then have "session_node db' ws s i = Some n" if "session_node db ws s i = Some n" for ws s i n
    using that by (simp add: session_node_def find_append_Some)
  with assms(2) show ?thesis by (auto simp: endpoints_ok_def split: option.splits)
qed

lemma transaction_keeps:
  assumes "artifact_wf db" "all_recorded db" "list_all write_valid ws"
    "efold (\<lambda>d w. ebind (perform d w) (\<lambda>r. Inr (fst r))) db ws = Inr db'"
  shows "artifact_wf db' \<and> all_recorded db' \<and> evolves db db'"
  using assms
proof (induction ws arbitrary: db)
  case (Cons w ws)
  then obtain d r where d: "perform db w = Inr (d, r)"
    "efold (\<lambda>d w. ebind (perform d w) (\<lambda>r. Inr (fst r))) d ws = Inr db'"
    by (auto simp: result_simps)
  moreover have "artifact_wf d" "all_recorded d" "evolves db d"
    using Cons.prems d(1) by (auto intro: perform_wf perform_recorded perform_evolves)
  ultimately show ?case using Cons.IH [of d] Cons.prems(3) by (auto intro: evolves_trans)
qed simp

lemma transaction_wf_step:
  assumes "transaction_wf db" "all_recorded db" "list_all write_valid ws" "artifact_transaction db ws = Inr db'"
  shows "transaction_wf db' \<and> all_recorded db' \<and> evolves db db'"
proof -
  have run: "efold (\<lambda>d w. ebind (perform d w) (\<lambda>r. Inr (fst r))) db ws = Inr db'" and checks: "commit_checks db db' = Inr ()"
    using assms(4) by (auto simp: artifact_transaction_def result_simps)
  have k: "artifact_wf db'" "all_recorded db'" "evolves db db'"
    using transaction_keeps [OF _ assms(2,3) run] assms(1) by (simp_all add: transaction_wf_def)
  have "references_exist db' a" if a: "a \<in> set (ab_artifacts db')" for a
  proof (cases "a \<in> set (ab_artifacts db)")
    case True
    then show ?thesis using assms(1) references_evolve [OF k(3)] by (simp add: transaction_wf_def list_all_iff)
  next
    case False
    then show ?thesis using checks a by (auto simp: commit_checks_def Let_def result_simps list_all_iff)
  qed
  moreover have "endpoints_ok db' e" if e: "e \<in> set (ab_edges db')" for e
  proof (cases "e \<in> set (ab_edges db)")
    case True
    then show ?thesis using assms(1) endpoints_evolve [OF k(3)] by (simp add: transaction_wf_def list_all_iff)
  next
    case False
    then show ?thesis using checks e by (auto simp: commit_checks_def Let_def result_simps list_all_iff)
  qed
  ultimately show ?thesis using k by (simp add: transaction_wf_def list_all_iff)
qed

lemma ledger_step:
  assumes "transaction_wf db" "all_recorded db" "ledger_wf l" "\<And>ws s. session_row db ws s \<Longrightarrow> session_row (db\<lparr>ab_ledger := l\<rparr>) ws s"
    "set (lg_events (ab_ledger db)) \<subseteq> set (lg_events l)"
  shows "transaction_wf (db\<lparr>ab_ledger := l\<rparr>) \<and> all_recorded (db\<lparr>ab_ledger := l\<rparr>)"
proof -
  have sn: "session_node (db\<lparr>ab_ledger := l\<rparr>) = session_node db" and ar: "artifact_row (db\<lparr>ab_ledger := l\<rparr>) = artifact_row db"
    by (simp_all add: fun_eq_iff session_node_def artifact_row_def)
  have "references_exist (db\<lparr>ab_ledger := l\<rparr>) = references_exist db" "endpoints_ok (db\<lparr>ab_ledger := l\<rparr>) = endpoints_ok db"
    by (rule ext, simp only: references_exist_def endpoints_ok_def sn ar)+
  moreover have "rows_ok (db\<lparr>ab_ledger := l\<rparr>)" using assms(1,4) by (auto simp: transaction_wf_def artifact_wf_def rows_ok_def)
  moreover have "all_recorded (db\<lparr>ab_ledger := l\<rparr>)"
    using assms(2,5) by (auto simp: all_recorded_def list_all_iff intro: recorded_mono)
  ultimately show ?thesis using assms(1,3) by (simp add: transaction_wf_def artifact_wf_def)
qed

lemma artifacts_reachable_wf: "artifacts_reachable db \<Longrightarrow> transaction_wf db \<and> all_recorded db"
proof (induction rule: artifacts_reachable.induct)
  case empty
  have "ledger_wf empty_ledger" by (simp add: ledger_wf_def empty_ledger_def)
  then show ?case
    by (simp add: transaction_wf_def artifact_wf_def rows_ok_def history_ok_def graph_ok_def all_recorded_def
        empty_artifacts_def all_links_def links_earlier_def)
next
  case (session db ws s l)
  have wf: "ledger_wf l" using session create_head_wf by (auto simp: transaction_wf_def artifact_wf_def)
  have l: "lg_heads (ab_ledger db) s = None" "l = (ab_ledger db)\<lparr>lg_heads := (lg_heads (ab_ledger db))(s \<mapsto>
      \<lparr>lh_workspace_id = ws, lh_next_seq = 1, lh_head_hash = GENESIS_HASH\<rparr>)\<rparr>"
    using session by (auto simp: create_session_ledger_head_def split: option.splits)
  show ?case
  proof (rule ledger_step)
    show "session_row (db\<lparr>ab_ledger := l\<rparr>) w t" if "session_row db w t" for w t
      using that l by (auto simp: session_row_def split: option.splits if_splits)
  qed (use session wf l in auto)
next
  case (event db e l x)
  have wf: "ledger_wf (ab_ledger db)" using event by (simp add: transaction_wf_def artifact_wf_def)
  show ?case
  proof (rule ledger_step)
    show "session_row (db\<lparr>ab_ledger := l\<rparr>) w t" if "session_row db w t" for w t
    proof -
      from that obtain h where h: "lg_heads (ab_ledger db) t = Some h" "lh_workspace_id h = w"
        by (auto simp: session_row_def split: option.splits)
      from wf event.hyps(2,3) h(1) obtain h' where "lg_heads l t = Some h'" "lh_workspace_id h' = lh_workspace_id h"
        by (rule ledger_append_session_row)
      with h(2) show ?thesis by (simp add: session_row_def)
    qed
    show "ledger_wf l" using ledger_append_wf [OF wf event.hyps(2,3)] .
    show "set (lg_events (ab_ledger db)) \<subseteq> set (lg_events l)" using append_prefix(1) [OF wf event.hyps(2,3)] by auto
  qed (use event in auto)
next
  case (transaction db ws db')
  then show ?case using transaction_wf_step by blast
qed

end
