(* ===== verification/Graph_Traversal.thy ===== *)
theory Graph_Traversal
  imports Artifact_Commit
begin

text \<open>
  Bounded walks over the reasoning graph: \<^verbatim>\<open>trace_backward\<close>, \<^verbatim>\<open>trace_forward\<close> and \<^verbatim>\<open>subgraph\<close> of
  \<^verbatim>\<open>app/db/reasoning_graph.py\<close>, the recursive query they run, and the cursors by which their results are
  read in pages. A cursor stands for the JSON value its text decodes to; a text that does not decode is
  any value that is no object, for which the answer is the same.
\<close>

subsection \<open>The recursive query\<close>

datatype direction = Backward | Forward | BothWays

fun direction_value :: "direction \<Rightarrow> string" where
  "direction_value Backward = ''backward''"
| "direction_value Forward = ''forward''"
| "direction_value BothWays = ''both''"

fun join_cond :: "direction \<Rightarrow> GraphEdge \<Rightarrow> uuid \<Rightarrow> bool" where
  "join_cond Backward e node = (ge_to_node e = node)"
| "join_cond Forward e node = (ge_from_node e = node)"
| "join_cond BothWays e node = (ge_from_node e = node \<or> ge_to_node e = node)"

fun next_node :: "direction \<Rightarrow> GraphEdge \<Rightarrow> uuid \<Rightarrow> uuid" where
  "next_node Backward e node = ge_from_node e"
| "next_node Forward e node = ge_to_node e"
| "next_node BothWays e node = (if ge_to_node e = node then ge_from_node e else ge_to_node e)"

definition edge_selected :: "uuid \<Rightarrow> uuid \<Rightarrow> GraphEdgeType list option \<Rightarrow> GraphEdge \<Rightarrow> bool" where
  "edge_selected ws s types e = (ge_workspace_id e = ws \<and> ge_session_id e = s \<and>
     (case types of None \<Rightarrow> True | Some ts \<Rightarrow> ge_edge_type e \<in> set ts))"

record walk_row =
  wr_node :: uuid
  wr_depth :: nat
  wr_path :: "uuid list"
  wr_edge :: "uuid option"

text \<open>One row of the working table joined with the edges.\<close>

definition walk_step :: "direction \<Rightarrow> GraphEdge list \<Rightarrow> nat \<Rightarrow> walk_row \<Rightarrow> walk_row list" where
  "walk_step d es max_depth w =
     map (\<lambda>e. \<lparr>wr_node = next_node d e (wr_node w), wr_depth = wr_depth w + 1,
               wr_path = wr_path w @ [next_node d e (wr_node w)], wr_edge = Some (ge_id e)\<rparr>)
       (filter (\<lambda>e. join_cond d e (wr_node w) \<and> wr_depth w < max_depth + 1 \<and>
                    next_node d e (wr_node w) \<notin> set (wr_path w)) es)"

text \<open>The rows of all rounds of the recursion; \<open>max_depth + 1\<close> rounds leave an empty working table.\<close>

fun walk_rounds :: "nat \<Rightarrow> direction \<Rightarrow> GraphEdge list \<Rightarrow> nat \<Rightarrow> walk_row list \<Rightarrow> walk_row list" where
  "walk_rounds 0 d es max_depth working = working"
| "walk_rounds (Suc n) d es max_depth working =
     working @ walk_rounds n d es max_depth (concat (map (walk_step d es max_depth) working))"

definition walk_rows :: "direction \<Rightarrow> GraphEdge list \<Rightarrow> nat \<Rightarrow> uuid list \<Rightarrow> walk_row list" where
  "walk_rows d es max_depth roots = walk_rounds (max_depth + 1) d es max_depth
     (map (\<lambda>r. \<lparr>wr_node = r, wr_depth = 0, wr_path = [r], wr_edge = None\<rparr>) roots)"

subsection \<open>Cursors\<close>

definition MAX_ALLOWED_DEPTH :: int where "MAX_ALLOWED_DEPTH = 12"

definition MAX_SUBGRAPH_DEPTH :: int where "MAX_SUBGRAPH_DEPTH = 5"

definition MAX_PAGE_SIZE :: int where "MAX_PAGE_SIZE = 200"

record query =
  qu_direction :: direction
  qu_workspace_id :: uuid
  qu_session_id :: uuid
  qu_root_ids :: "uuid list"
  qu_max_depth :: int
  qu_edge_types :: "GraphEdgeType list option"

text \<open>
  \<^verbatim>\<open>json.dumps\<close> without blanks and with sorted keys writes these ASCII texts as canonical JSON does. A
  frozen set of edge types is a list whose repetitions do not count.
\<close>

definition query_json :: "query \<Rightarrow> json" where
  "query_json q = jobj [(''direction'', jtext (direction_value (qu_direction q))),
     (''edge_types'', case qu_edge_types q of None \<Rightarrow> JNull
        | Some ts \<Rightarrow> jtexts (sort (map (\<lambda>t. ustr (edge_type_value t)) (remdups ts)))),
     (''max_depth'', JInt (qu_max_depth q)),
     (''root_ids'', jtexts (sort (map (\<lambda>r. ustr (uuid_str r)) (qu_root_ids q)))),
     (''session_id'', juuid (qu_session_id q)),
     (''workspace_id'', juuid (qu_workspace_id q))]"

definition query_fingerprint :: "query \<Rightarrow> string" where
  "query_fingerprint q = sha256_hex (canonical_bytes (query_json q))"

definition encode_cursor :: "int \<Rightarrow> string \<Rightarrow> pyval" where
  "encode_cursor offset fingerprint =
     VDict [(VStr (ustr ''offset''), VInt offset), (VStr (ustr ''query''), VStr (ustr fingerprint))]"

definition invalid_cursor :: "'a result" where
  "invalid_cursor = Inl (ValueError ''invalid traversal cursor'')"

fun dict_items :: "pyval \<Rightarrow> (pyval \<times> pyval) list option" where
  "dict_items (VDict items) = Some items"
| "dict_items _ = None"

fun int_value :: "pyval \<Rightarrow> int option" where
  "int_value (VInt i) = Some i"
| "int_value _ = None"

definition decode_cursor :: "pyval option \<Rightarrow> string \<Rightarrow> int result" where
  "decode_cursor cursor fingerprint = (case cursor of None \<Rightarrow> Inr 0
   | Some payload \<Rightarrow> (case dict_items payload of None \<Rightarrow> invalid_cursor
   | Some items \<Rightarrow>
       if fst ` set items \<noteq> {VStr (ustr ''offset''), VStr (ustr ''query'')} then invalid_cursor
       else if map_of items (VStr (ustr ''query'')) \<noteq> Some (VStr (ustr fingerprint)) then invalid_cursor
       else (case Option.bind (map_of items (VStr (ustr ''offset''))) int_value of
           None \<Rightarrow> invalid_cursor
         | Some offset \<Rightarrow> if offset < 0 then invalid_cursor else Inr offset)))"

subsection \<open>Traversals\<close>

definition int_str :: "int \<Rightarrow> string" where
  "int_str i = map char_of (int_text i)"

record TraversalResult =
  tr_nodes :: "GraphNode list"
  tr_edges :: "GraphEdge list"
  tr_truncated :: bool
  tr_next_cursor :: "pyval option"

definition page_slice :: "int \<Rightarrow> int \<Rightarrow> 'a list \<Rightarrow> 'a list" where
  "page_slice i j xs = drop (nat i) (take (nat j) xs)"

definition query_rows :: "artifact_db \<Rightarrow> query \<Rightarrow> walk_row list" where
  "query_rows db q = walk_rows (qu_direction q)
     (filter (edge_selected (qu_workspace_id q) (qu_session_id q) (qu_edge_types q)) (ab_edges db))
     (nat (qu_max_depth q)) (qu_root_ids q)"

definition rows_within :: "artifact_db \<Rightarrow> query \<Rightarrow> walk_row list" where
  "rows_within db q = filter (\<lambda>w. int (wr_depth w) \<le> qu_max_depth q) (query_rows db q)"

definition member_nodes :: "artifact_db \<Rightarrow> query \<Rightarrow> uuid list" where
  "member_nodes db q = sort (remdups (map wr_node (rows_within db q)))"

definition member_edges :: "artifact_db \<Rightarrow> query \<Rightarrow> uuid list" where
  "member_edges db q = sort (remdups (List.map_filter wr_edge (rows_within db q)))"

definition nodes_by_id :: "artifact_db \<Rightarrow> query \<Rightarrow> uuid list \<Rightarrow> GraphNode list" where
  "nodes_by_id db q ids = sort_key gn_id (filter (\<lambda>n. gn_workspace_id n = qu_workspace_id q \<and>
     gn_session_id n = qu_session_id q \<and> gn_id n \<in> set ids) (ab_nodes db))"

definition edges_by_id :: "artifact_db \<Rightarrow> query \<Rightarrow> uuid list \<Rightarrow> GraphEdge list" where
  "edges_by_id db q ids = sort_key ge_id (filter (\<lambda>e. ge_workspace_id e = qu_workspace_id q \<and>
     ge_session_id e = qu_session_id q \<and> ge_id e \<in> set ids) (ab_edges db))"

definition graph_walk :: "artifact_db \<Rightarrow> query \<Rightarrow> int \<Rightarrow> int \<Rightarrow> pyval option \<Rightarrow> TraversalResult result" where
  "graph_walk db q depth_cap page_size cursor =
     ebind (eguard (\<not> qu_max_depth q < 0) (ValueError ''max_depth must not be negative'')) (\<lambda>_.
     ebind (eguard (\<not> qu_max_depth q > depth_cap)
       (ValueError (''max_depth must not exceed '' @ int_str depth_cap))) (\<lambda>_.
     ebind (eguard (\<not> (page_size < 1 \<or> page_size > MAX_PAGE_SIZE))
       (ValueError (''page_size must be between 1 and '' @ int_str MAX_PAGE_SIZE))) (\<lambda>_.
     ebind (decode_cursor cursor (query_fingerprint q)) (\<lambda>offset.
     let truncated = length (rows_within db q) < length (query_rows db q);
         node_ids = member_nodes db q;
         edge_ids = member_edges db q;
         nodes = int (length node_ids);
         member_count = nodes + int (length edge_ids)
     in if offset > member_count \<or> (offset = member_count \<and> cursor \<noteq> None) then invalid_cursor
     else
     let page_end = min (offset + page_size) member_count;
         page_node_ids = page_slice (min offset nodes) (min page_end nodes) node_ids;
         page_edge_ids = page_slice (max 0 (offset - nodes)) (max 0 (page_end - nodes)) edge_ids
     in Inr \<lparr>tr_nodes = (if page_node_ids = [] then [] else nodes_by_id db q page_node_ids),
             tr_edges = (if page_edge_ids = [] then [] else edges_by_id db q page_edge_ids),
             tr_truncated = truncated,
             tr_next_cursor = (if page_end < member_count then Some (encode_cursor page_end (query_fingerprint q))
                               else None)\<rparr>))))"

definition trace_backward ::
  "artifact_db \<Rightarrow> uuid \<Rightarrow> uuid \<Rightarrow> uuid \<Rightarrow> int \<Rightarrow> GraphEdgeType list option \<Rightarrow> int \<Rightarrow> pyval option
   \<Rightarrow> TraversalResult result" where
  "trace_backward db ws s node max_depth types page_size cursor = graph_walk db
     \<lparr>qu_direction = Backward, qu_workspace_id = ws, qu_session_id = s, qu_root_ids = [node],
      qu_max_depth = max_depth, qu_edge_types = types\<rparr> MAX_ALLOWED_DEPTH page_size cursor"

definition trace_forward ::
  "artifact_db \<Rightarrow> uuid \<Rightarrow> uuid \<Rightarrow> uuid \<Rightarrow> int \<Rightarrow> GraphEdgeType list option \<Rightarrow> int \<Rightarrow> pyval option
   \<Rightarrow> TraversalResult result" where
  "trace_forward db ws s node max_depth types page_size cursor = graph_walk db
     \<lparr>qu_direction = Forward, qu_workspace_id = ws, qu_session_id = s, qu_root_ids = [node],
      qu_max_depth = max_depth, qu_edge_types = types\<rparr> MAX_ALLOWED_DEPTH page_size cursor"

definition subgraph ::
  "artifact_db \<Rightarrow> uuid \<Rightarrow> uuid \<Rightarrow> uuid list \<Rightarrow> int \<Rightarrow> GraphEdgeType list option \<Rightarrow> int \<Rightarrow> pyval option
   \<Rightarrow> TraversalResult result" where
  "subgraph db ws s roots max_depth types page_size cursor =
     (if roots = [] then Inl (ValueError ''subgraph requires at least one root id'')
      else graph_walk db
        \<lparr>qu_direction = BothWays, qu_workspace_id = ws, qu_session_id = s, qu_root_ids = roots,
         qu_max_depth = max_depth, qu_edge_types = types\<rparr> MAX_SUBGRAPH_DEPTH page_size cursor)"

text \<open>One hop of a direction over the selected edges, and the rows that walks without repetition leave.\<close>

definition hop :: "direction \<Rightarrow> GraphEdge list \<Rightarrow> (uuid \<times> uuid) set" where
  "hop d es = {(x, y). \<exists>e \<in> set es. join_cond d e x \<and> y = next_node d e x}"

inductive walked :: "direction \<Rightarrow> GraphEdge list \<Rightarrow> uuid list \<Rightarrow> walk_row \<Rightarrow> bool" for d es roots where
  root: "r \<in> set roots \<Longrightarrow> walked d es roots \<lparr>wr_node = r, wr_depth = 0, wr_path = [r], wr_edge = None\<rparr>"
| step: "walked d es roots w \<Longrightarrow> e \<in> set es \<Longrightarrow> join_cond d e (wr_node w) \<Longrightarrow>
    next_node d e (wr_node w) \<notin> set (wr_path w) \<Longrightarrow>
    walked d es roots \<lparr>wr_node = next_node d e (wr_node w), wr_depth = wr_depth w + 1,
      wr_path = wr_path w @ [next_node d e (wr_node w)], wr_edge = Some (ge_id e)\<rparr>"

definition within_hops :: "direction \<Rightarrow> GraphEdge list \<Rightarrow> uuid list \<Rightarrow> nat \<Rightarrow> uuid \<Rightarrow> bool" where
  "within_hops d es roots m x = (\<exists>r \<in> set roots. \<exists>k \<le> m. (r, x) \<in> hop d es ^^ k)"

definition touched :: "direction \<Rightarrow> GraphEdge list \<Rightarrow> uuid list \<Rightarrow> nat \<Rightarrow> GraphEdge \<Rightarrow> bool" where
  "touched d es roots m e = (\<exists>x. join_cond d e x \<and> (\<exists>r \<in> set roots. \<exists>k < m. (r, x) \<in> hop d es ^^ k))"

definition query_edges :: "artifact_db \<Rightarrow> query \<Rightarrow> GraphEdge list" where
  "query_edges db q = filter (edge_selected (qu_workspace_id q) (qu_session_id q) (qu_edge_types q)) (ab_edges db)"

text \<open>A client follows the cursors until there is none; the fuel bounds the number of pages.\<close>

fun read_all :: "nat \<Rightarrow> ('c option \<Rightarrow> ('a list \<times> 'c option) result) \<Rightarrow> 'c option \<Rightarrow> 'a list result" where
  "read_all 0 fetch c = Inl (ValueError ''unread pages'')"
| "read_all (Suc n) fetch c = ebind (fetch c) (\<lambda>(page, next).
     case next of None \<Rightarrow> Inr page | Some c' \<Rightarrow> ebind (read_all n fetch (Some c')) (\<lambda>rest. Inr (page @ rest)))"

definition fetch_page :: "artifact_db \<Rightarrow> query \<Rightarrow> int \<Rightarrow> int \<Rightarrow> pyval option \<Rightarrow> ((GraphNode + GraphEdge) list \<times> pyval option) result" where
  "fetch_page db q depth_cap page_size cursor = ebind (graph_walk db q depth_cap page_size cursor) (\<lambda>r.
     Inr (map Inl (tr_nodes r) @ map Inr (tr_edges r), tr_next_cursor r))"

definition member_part :: "artifact_db \<Rightarrow> query \<Rightarrow> int \<Rightarrow> int \<Rightarrow> (GraphNode + GraphEdge) list" where
  "member_part db q i j = (let n = int (length (member_nodes db q)) in
     map Inl (nodes_by_id db q (page_slice (min i n) (min j n) (member_nodes db q))) @
     map Inr (edges_by_id db q (page_slice (max 0 (i - n)) (max 0 (j - n)) (member_edges db q))))"



subsection \<open>The walk as a relation\<close>

lemma walk_rounds_levels:
  "set (walk_rounds n d es m W) = (\<Union>k \<le> n. set (((\<lambda>W. concat (map (walk_step d es m) W)) ^^ k) W))"
proof (induction n arbitrary: W)
  case (Suc n)
  let ?F = "\<lambda>W. concat (map (walk_step d es m) W)"
  have "set (walk_rounds (Suc n) d es m W) = set W \<union> (\<Union>k \<le> n. set ((?F ^^ k) (?F W)))"
    using Suc [of "?F W"] by simp
  also have "\<dots> = set ((?F ^^ 0) W) \<union> (\<Union>k \<le> n. set ((?F ^^ Suc k) W))"
    by (simp only: funpow_Suc_right o_apply funpow_0)
  also have "\<dots> = (\<Union>k \<le> Suc n. set ((?F ^^ k) W))"
    unfolding atMost_Suc_eq_insert_0 by (simp del: funpow.simps add: image_image)
  finally show ?case .
qed simp

lemma walk_level:
  "w \<in> set (((\<lambda>W. concat (map (walk_step d es m) W)) ^^ k)
      (map (\<lambda>r. \<lparr>wr_node = r, wr_depth = 0, wr_path = [r], wr_edge = None\<rparr>) roots)) \<longleftrightarrow>
    walked d es roots w \<and> wr_depth w = k \<and> k \<le> m + 1"
proof (induction k arbitrary: w)
  case 0
  show ?case by (auto intro: walked.root elim: walked.cases)
next
  case (Suc k)
  have "w \<in> set (walk_step d es m v) \<longleftrightarrow> (\<exists>e \<in> set es. join_cond d e (wr_node v) \<and> wr_depth v < m + 1 \<and>
      next_node d e (wr_node v) \<notin> set (wr_path v) \<and>
      w = \<lparr>wr_node = next_node d e (wr_node v), wr_depth = wr_depth v + 1,
        wr_path = wr_path v @ [next_node d e (wr_node v)], wr_edge = Some (ge_id e)\<rparr>)" for v
    by (auto simp: walk_step_def)
  note eq = this
  let ?W = "map (\<lambda>r. \<lparr>wr_node = r, wr_depth = 0, wr_path = [r], wr_edge = None\<rparr>) roots"
  have "w \<in> set (((\<lambda>W. concat (map (walk_step d es m) W)) ^^ Suc k) ?W) \<longleftrightarrow>
      (\<exists>v. walked d es roots v \<and> wr_depth v = k \<and> k \<le> m + 1 \<and> w \<in> set (walk_step d es m v))"
    using Suc by auto
  also have "\<dots> \<longleftrightarrow> walked d es roots w \<and> wr_depth w = Suc k \<and> Suc k \<le> m + 1"
  proof
    assume "walked d es roots w \<and> wr_depth w = Suc k \<and> Suc k \<le> m + 1"
    then have w: "walked d es roots w" "wr_depth w = Suc k" "Suc k \<le> m + 1" by simp_all
    from w(1) show "\<exists>v. walked d es roots v \<and> wr_depth v = k \<and> k \<le> m + 1 \<and> w \<in> set (walk_step d es m v)"
    proof cases
      case (step v e)
      then show ?thesis using w(2,3) unfolding eq by (intro exI [of _ v]) auto
    qed (use w(2) in simp)
  qed (auto simp: eq intro: walked.step [simplified])
  finally show ?case .
qed

lemma walk_rows_walked: "set (walk_rows d es m roots) = {w. walked d es roots w \<and> wr_depth w \<le> m + 1}"
  unfolding walk_rows_def walk_rounds_levels by (auto simp: walk_level)

lemma no_members: "(\<And>w. w \<notin> set xs) \<Longrightarrow> xs = []"
  by (cases xs) auto

text \<open>The recursion of the query ends: further rounds add no row.\<close>

lemma walk_rounds_enough:
  "walk_rounds (m + 1 + n) d es m (map (\<lambda>r. \<lparr>wr_node = r, wr_depth = 0, wr_path = [r], wr_edge = None\<rparr>) roots) =
    walk_rows d es m roots"
proof -
  let ?F = "\<lambda>W. concat (map (walk_step d es m) W)"
  let ?W = "map (\<lambda>r. \<lparr>wr_node = r, wr_depth = 0, wr_path = [r], wr_edge = None\<rparr>) roots"
  have split: "walk_rounds (j + Suc n) d es m W = walk_rounds j d es m W @ walk_rounds n d es m ((?F ^^ Suc j) W)" for j n W
    by (induction j arbitrary: W) (simp_all del: funpow.simps add: funpow_Suc_right)
  have empty: "walk_rounds n d es m [] = []" for n by (induction n) simp_all
  have "w \<notin> set ((?F ^^ Suc (m + 1)) ?W)" for w using walk_level [where k = "Suc (m + 1)" and d = d and es = es and m = m and roots = roots]
    by (simp del: funpow.simps)
  then have "(?F ^^ Suc (m + 1)) ?W = []" by (rule no_members)
  then show ?thesis
    using split [of "m + 1" "n - 1" ?W] empty by (cases n) (simp_all add: walk_rows_def del: funpow.simps)
qed

lemma walked_facts:
  assumes "walked d es roots w"
  shows "distinct (wr_path w) \<and> wr_node w \<in> set (wr_path w) \<and> (\<forall>y \<in> set (wr_path w). (y, wr_node w) \<in> (hop d es)\<^sup>*) \<and>
    (\<exists>r \<in> set roots. (r, wr_node w) \<in> hop d es ^^ wr_depth w)"
  using assms
proof induction
  case (step w e)
  have h: "(wr_node w, next_node d e (wr_node w)) \<in> hop d es" using step.hyps by (auto simp: hop_def)
  with step show ?case by (auto intro: rtrancl_into_rtrancl relcompI)
qed simp

text \<open>A shortest walk repeats no node, so the query finds every node within its bound.\<close>

lemma shortest_walked:
  assumes "r \<in> set roots" "(r, x) \<in> hop d es ^^ k" "\<And>j. j < k \<Longrightarrow> (r, x) \<notin> hop d es ^^ j"
  shows "\<exists>w. walked d es roots w \<and> wr_node w = x \<and> wr_depth w = k \<and>
    (\<forall>y \<in> set (wr_path w). y = x \<or> (\<exists>j < k. (r, y) \<in> hop d es ^^ j))"
  using assms(2,3)
proof (induction k arbitrary: x)
  case 0
  then show ?case using walked.root [OF assms(1), of d es] by fastforce
next
  case (Suc k)
  from Suc.prems(1) obtain y where y: "(r, y) \<in> hop d es ^^ k" "(y, x) \<in> hop d es" by (rule relpow_Suc_E)
  have "(r, y) \<notin> hop d es ^^ j" if "j < k" for j
  proof
    assume "(r, y) \<in> hop d es ^^ j"
    with y(2) have "(r, x) \<in> hop d es ^^ Suc j" by auto
    with Suc.prems(2) [of "Suc j"] that show False by simp
  qed
  with Suc.IH [OF y(1)] obtain w where w: "walked d es roots w" "wr_node w = y" "wr_depth w = k"
    "\<forall>z \<in> set (wr_path w). z = y \<or> (\<exists>j < k. (r, z) \<in> hop d es ^^ j)" by blast
  have near: "\<exists>j < Suc k. (r, z) \<in> hop d es ^^ j" if "z \<in> set (wr_path w)" for z
  proof (cases "z = y")
    case True
    then show ?thesis using y(1) by (intro exI [of _ k]) simp
  next
    case False
    then show ?thesis using w(4) that less_SucI by blast
  qed
  then have new: "x \<notin> set (wr_path w)" using Suc.prems(2) by blast
  from y(2) obtain e where e: "e \<in> set es" "join_cond d e y" "x = next_node d e y" by (auto simp: hop_def)
  let ?v = "\<lparr>wr_node = x, wr_depth = Suc k, wr_path = wr_path w @ [x], wr_edge = Some (ge_id e)\<rparr>"
  have "walked d es roots ?v" using walked.step [OF w(1) e(1)] w(2,3) e new by simp
  moreover have "\<forall>z \<in> set (wr_path ?v). z = x \<or> (\<exists>j < Suc k. (r, z) \<in> hop d es ^^ j)" using near by auto
  ultimately show ?case by (intro exI [of _ ?v]) simp
qed

lemma least_hops:
  assumes "(r, x) \<in> hop d es ^^ k"
  obtains j where "j \<le> k" "(r, x) \<in> hop d es ^^ j" "\<And>i. i < j \<Longrightarrow> (r, x) \<notin> hop d es ^^ i"
proof (rule that)
  show "(LEAST j. (r, x) \<in> hop d es ^^ j) \<le> k" using assms by (rule Least_le)
  show "(r, x) \<in> hop d es ^^ (LEAST j. (r, x) \<in> hop d es ^^ j)" using assms by (rule LeastI)
  show "(r, x) \<notin> hop d es ^^ i" if "i < (LEAST j. (r, x) \<in> hop d es ^^ j)" for i using that by (rule not_less_Least)
qed

lemma walked_nodes:
  "(\<exists>w. walked d es roots w \<and> wr_depth w \<le> m \<and> wr_node w = x) \<longleftrightarrow> within_hops d es roots m x"
proof
  assume "within_hops d es roots m x"
  then obtain r k where rk: "r \<in> set roots" "k \<le> m" "(r, x) \<in> hop d es ^^ k" by (auto simp: within_hops_def)
  from rk(3) obtain j where j: "j \<le> k" "(r, x) \<in> hop d es ^^ j" "\<And>i. i < j \<Longrightarrow> (r, x) \<notin> hop d es ^^ i"
    by (rule least_hops) blast
  from shortest_walked [OF rk(1) j(2,3)] obtain w where "walked d es roots w" "wr_node w = x" "wr_depth w = j" by blast
  then show "\<exists>w. walked d es roots w \<and> wr_depth w \<le> m \<and> wr_node w = x" using j(1) rk(2) by auto
next
  assume "\<exists>w. walked d es roots w \<and> wr_depth w \<le> m \<and> wr_node w = x"
  then show "within_hops d es roots m x" using walked_facts by (fastforce simp: within_hops_def)
qed

text \<open>Without truncation nothing lies beyond the bound.\<close>

lemma untruncated_closed:
  assumes "\<And>w. walked d es roots w \<Longrightarrow> wr_depth w \<noteq> m + 1" "r \<in> set roots" "(r, x) \<in> (hop d es)\<^sup>*"
  shows "within_hops d es roots m x"
proof -
  obtain k where "(r, x) \<in> hop d es ^^ k" using assms(3) rtrancl_power by blast
  then obtain j where j: "(r, x) \<in> hop d es ^^ j" "\<And>i. i < j \<Longrightarrow> (r, x) \<notin> hop d es ^^ i" by (rule least_hops) blast
  show ?thesis
  proof (cases "j \<le> m")
    case True
    with assms(2) j(1) show ?thesis by (auto simp: within_hops_def)
  next
    case False
    then obtain n where n: "j = m + 1 + n" using le_Suc_ex by (metis not_less_eq_eq Suc_eq_plus1)
    with j(1) have "(r, x) \<in> hop d es ^^ (m + 1) O hop d es ^^ n" by (simp only: relpow_add)
    then obtain y where y: "(r, y) \<in> hop d es ^^ (m + 1)" "(y, x) \<in> hop d es ^^ n" by (rule relcompE) blast
    have "(r, y) \<notin> hop d es ^^ i" if "i < m + 1" for i
    proof
      assume "(r, y) \<in> hop d es ^^ i"
      with y(2) have "(r, x) \<in> hop d es ^^ (i + n)" by (auto simp: relpow_add)
      with j(2) [of "i + n"] that n show False by simp
    qed
    from shortest_walked [OF assms(2) y(1) this] assms(1) show ?thesis by blast
  qed
qed

lemma walked_edge:
  assumes "walked d es roots w" "wr_edge w = Some i" "wr_depth w \<le> m"
  shows "\<exists>e \<in> set es. ge_id e = i \<and> touched d es roots m e"
  using assms(1)
proof cases
  case (step v e)
  obtain r where "r \<in> set roots" "(r, wr_node v) \<in> hop d es ^^ wr_depth v" using walked_facts [OF step(2)] by blast
  moreover have "wr_depth v < m" "ge_id e = i" using step(1) assms(2,3) by simp_all
  ultimately have "touched d es roots m e" using step(4) unfolding touched_def by blast
  with step(3) \<open>ge_id e = i\<close> show ?thesis by blast
qed (use assms(2) in simp)

lemma step_row:
  assumes "walked d es roots w" "e \<in> set es" "join_cond d e (wr_node w)" "next_node d e (wr_node w) \<notin> set (wr_path w)" "wr_depth w < m"
  shows "\<exists>w. walked d es roots w \<and> wr_depth w \<le> m \<and> wr_edge w = Some (ge_id e)"
  using walked.step [OF assms(1-4)] assms(5) by (intro exI) (rule conjI, assumption, simp)

lemma touched_walked:
  assumes "e \<in> set es" "touched d es roots m e" "acyclic (hop d es) \<or> d = BothWays \<and> ge_from_node e \<noteq> ge_to_node e"
  shows "\<exists>w. walked d es roots w \<and> wr_depth w \<le> m \<and> wr_edge w = Some (ge_id e)"
proof -
  obtain x r k where x: "join_cond d e x" "r \<in> set roots" "k < m" "(r, x) \<in> hop d es ^^ k"
    using assms(2) by (auto simp: touched_def)
  from x(4) obtain j where j: "j \<le> k" "(r, x) \<in> hop d es ^^ j" "\<And>i. i < j \<Longrightarrow> (r, x) \<notin> hop d es ^^ i"
    by (rule least_hops) blast
  from shortest_walked [OF x(2) j(2,3)] obtain w where w: "walked d es roots w" "wr_node w = x" "wr_depth w = j"
    "\<forall>y \<in> set (wr_path w). y = x \<or> (\<exists>i < j. (r, y) \<in> hop d es ^^ i)" by blast
  let ?y = "next_node d e x"
  show ?thesis
  proof (cases "?y \<in> set (wr_path w)")
    case False
    then show ?thesis using step_row [OF w(1) assms(1)] x(1,3) w(2,3) j(1) by simp
  next
    case True
    have h: "(x, ?y) \<in> hop d es" using x(1) assms(1) by (auto simp: hop_def)
    have "(?y, x) \<in> (hop d es)\<^sup>*" using walked_facts [OF w(1)] True w(2) by blast
    then have both: "d = BothWays" "ge_from_node e \<noteq> ge_to_node e"
      using assms(3) h by (auto simp: acyclic_def dest: rtrancl_into_trancl2)
    then have y: "?y \<noteq> x" "join_cond d e ?y" "next_node d e ?y = x" using x(1) by auto
    then obtain i where i: "i < j" "(r, ?y) \<in> hop d es ^^ i" using w(4) True by blast
    from i(2) obtain l where l: "l \<le> i" "(r, ?y) \<in> hop d es ^^ l" "\<And>n. n < l \<Longrightarrow> (r, ?y) \<notin> hop d es ^^ n"
      by (rule least_hops) blast
    from shortest_walked [OF x(2) l(2,3)] obtain v where v: "walked d es roots v" "wr_node v = ?y" "wr_depth v = l"
      "\<forall>z \<in> set (wr_path v). z = ?y \<or> (\<exists>n < l. (r, z) \<in> hop d es ^^ n)" by blast
    have "x \<notin> set (wr_path v)"
    proof
      assume "x \<in> set (wr_path v)"
      then obtain n where "n < l" "(r, x) \<in> hop d es ^^ n" using v(4) y(1) by auto
      then show False using j(3) [of n] l(1) i(1) by simp
    qed
    then show ?thesis using step_row [OF v(1) assms(1)] y v(2,3) l(1) i(1) j(1) x(3) by simp
  qed
qed

subsection \<open>Members of a traversal\<close>

lemma rows_within_walked:
  assumes "0 \<le> qu_max_depth q"
  shows "set (rows_within db q) = {w. walked (qu_direction q) (query_edges db q) (qu_root_ids q) w \<and>
    wr_depth w \<le> nat (qu_max_depth q)}"
  using assms by (auto simp: rows_within_def query_rows_def query_edges_def walk_rows_walked)

lemma member_nodes_iff:
  assumes "0 \<le> qu_max_depth q"
  shows "x \<in> set (member_nodes db q) \<longleftrightarrow>
    within_hops (qu_direction q) (query_edges db q) (qu_root_ids q) (nat (qu_max_depth q)) x"
  unfolding walked_nodes [symmetric] using rows_within_walked [OF assms, of db] by (auto simp: member_nodes_def)

lemma member_edges_iff:
  assumes "0 \<le> qu_max_depth q"
    "\<And>e. e \<in> set (ab_edges db) \<Longrightarrow> acyclic (hop (qu_direction q) (query_edges db q)) \<or>
      qu_direction q = BothWays \<and> ge_from_node e \<noteq> ge_to_node e"
  shows "i \<in> set (member_edges db q) \<longleftrightarrow> (\<exists>e \<in> set (query_edges db q). ge_id e = i \<and>
    touched (qu_direction q) (query_edges db q) (qu_root_ids q) (nat (qu_max_depth q)) e)"
proof -
  have m: "i \<in> set (member_edges db q) \<longleftrightarrow> (\<exists>w. walked (qu_direction q) (query_edges db q) (qu_root_ids q) w \<and>
      wr_depth w \<le> nat (qu_max_depth q) \<and> wr_edge w = Some i)"
    using rows_within_walked [OF assms(1), of db] by (auto simp: member_edges_def List.map_filter_def image_iff)
  show ?thesis unfolding m
  proof
    assume "\<exists>w. walked (qu_direction q) (query_edges db q) (qu_root_ids q) w \<and> wr_depth w \<le> nat (qu_max_depth q) \<and> wr_edge w = Some i"
    then show "\<exists>e \<in> set (query_edges db q). ge_id e = i \<and>
        touched (qu_direction q) (query_edges db q) (qu_root_ids q) (nat (qu_max_depth q)) e"
      using walked_edge by blast
  next
    assume "\<exists>e \<in> set (query_edges db q). ge_id e = i \<and>
        touched (qu_direction q) (query_edges db q) (qu_root_ids q) (nat (qu_max_depth q)) e"
    then show "\<exists>w. walked (qu_direction q) (query_edges db q) (qu_root_ids q) w \<and> wr_depth w \<le> nat (qu_max_depth q) \<and> wr_edge w = Some i"
      using touched_walked assms(2) by (fastforce simp: query_edges_def)
  qed
qed

lemma length_filter_less_iff: "length (filter P xs) < length xs \<longleftrightarrow> (\<exists>x \<in> set xs. \<not> P x)"
  by (induction xs) (auto simp: le_imp_less_Suc)

lemma truncated_iff:
  "length (rows_within db q) < length (query_rows db q) \<longleftrightarrow> (\<exists>w \<in> set (query_rows db q). \<not> int (wr_depth w) \<le> qu_max_depth q)"
  unfolding rows_within_def by (rule length_filter_less_iff)

lemma member_lists [simp]: "sorted (member_nodes db q)" "distinct (member_nodes db q)" "sorted (member_edges db q)" "distinct (member_edges db q)"
  by (simp_all add: member_nodes_def member_edges_def)

subsection \<open>Reading a result in pages\<close>

text \<open>What paging needs of the cursors: they give back the position they were made of, to their own query only.\<close>

locale cursor_codec =
  fixes encode :: "int \<Rightarrow> string \<Rightarrow> 'c" and decode :: "'c option \<Rightarrow> string \<Rightarrow> int result"
  assumes decode_start: "decode None f = Inr 0"
    and decode_encode: "0 \<le> i \<Longrightarrow> decode (Some (encode i f)) f = Inr i"
    and decode_foreign: "decode (Some (encode i f)) g = Inr j \<Longrightarrow> f = g"
begin

lemma read_from:
  assumes fetch: "\<And>c i. decode c f = Inr i \<Longrightarrow> \<not> (i > extent \<or> (i = extent \<and> c \<noteq> None)) \<Longrightarrow>
      fetch c = Inr (part i (min (i + psize) extent), if min (i + psize) extent < extent then Some (encode (min (i + psize) extent) f) else None)"
    and part: "\<And>i j k. 0 \<le> i \<Longrightarrow> i \<le> j \<Longrightarrow> j \<le> k \<Longrightarrow> part i j @ part j k = part i k"
    and "1 \<le> psize" "decode c f = Inr i" "0 \<le> i" "i < extent \<or> (i = extent \<and> c = None)" "extent - i < int n"
  shows "read_all n fetch c = Inr (part i extent)"
  using assms(4-7)
proof (induction n arbitrary: c i)
  case (Suc n)
  have f: "fetch c = Inr (part i (min (i + psize) extent), if min (i + psize) extent < extent then Some (encode (min (i + psize) extent) f) else None)"
    using Suc.prems by (intro fetch) auto
  show ?case
  proof (cases "i + psize < extent")
    case True
    then have "read_all n fetch (Some (encode (i + psize) f)) = Inr (part (i + psize) extent)"
      using Suc.prems assms(3) by (intro Suc.IH decode_encode) auto
    with f True show ?thesis using part [of i "i + psize" extent] Suc.prems(2) assms(3) by (simp add: min_def)
  next
    case False
    with f show ?thesis by (simp add: min_def)
  qed
qed simp

end

lemma decode_encoded: "decode_cursor (Some (encode_cursor i f)) g = (if f = g \<and> 0 \<le> i then Inr i else invalid_cursor)"
proof -
  have "ustr ''query'' \<noteq> ustr ''offset''" "ustr ''offset'' \<noteq> ustr ''query''" by (simp_all add: ustr_def)
  moreover have "ustr f = ustr g \<longleftrightarrow> f = g" using ustr_inj by auto
  ultimately show ?thesis by (auto simp: decode_cursor_def encode_cursor_def)
qed

interpretation cursors: cursor_codec encode_cursor decode_cursor
proof
  show "decode_cursor None f = Inr 0" for f by (simp add: decode_cursor_def)
  show "decode_cursor (Some (encode_cursor i f)) f = Inr i" if "0 \<le> i" for i f using that by (simp add: decode_encoded)
  show "f = g" if "decode_cursor (Some (encode_cursor i f)) g = Inr j" for i f g j
    using that by (simp add: decode_encoded invalid_cursor_def split: if_splits)
qed

lemma take_drop_append:
  assumes "i \<le> j" "j \<le> k"
  shows "drop i (take j xs) @ drop j (take k xs) = drop i (take k xs)"
proof -
  have "drop i (take j ys) @ drop j ys = drop i ys" if "i \<le> j" for ys :: "'a list"
    using drop_append [of i "take j ys" "drop j ys"] that by (cases "j \<le> length ys") simp_all
  from this [OF assms(1), of "take k xs"] assms(2) show ?thesis by (simp add: min_def)
qed

lemma page_slice_append: "0 \<le> i \<Longrightarrow> i \<le> j \<Longrightarrow> j \<le> k \<Longrightarrow> page_slice i j xs @ page_slice j k xs = page_slice i k xs"
  unfolding page_slice_def by (intro take_drop_append nat_mono)

text \<open>The rows of consecutive runs of sorted identifiers are those of all of them.\<close>

lemma rows_by_id_append:
  assumes "sorted (xs @ ys)" "distinct (xs @ ys)"
  shows "sort_key f (filter (\<lambda>n. P n \<and> f n \<in> set xs) ns) @ sort_key f (filter (\<lambda>n. P n \<and> f n \<in> set ys) ns) =
    sort_key f (filter (\<lambda>n. P n \<and> f n \<in> set (xs @ ys)) ns)" (is "?l = sort_key f ?r")
proof (rule properties_for_sort_key [symmetric])
  have disj: "set xs \<inter> set ys = {}" using assms(2) by simp
  have "mset (filter (\<lambda>n. P n \<and> (f n \<in> set xs \<or> f n \<in> set ys)) ms) =
      mset (filter (\<lambda>n. P n \<and> f n \<in> set xs) ms) + mset (filter (\<lambda>n. P n \<and> f n \<in> set ys) ms)" for ms
    using disj by (induction ms) auto
  then show "mset ?l = mset ?r" by simp
  show "filter (\<lambda>x. f k = f x) ?l = filter (\<lambda>x. f k = f x) ?r" if "k \<in> set ?l" for k
  proof -
    have s: "filter (\<lambda>x. f k = f x) (sort_key f ms) = filter (\<lambda>x. f k = f x) ms" for ms
      using sort_key_stable [of f "f k" ms] by (simp add: eq_commute)
    have e: "filter (\<lambda>n. P n \<and> f n \<in> A \<and> f k = f n) ms = (if f k \<in> A then filter (\<lambda>n. P n \<and> f k = f n) ms else [])" for A ms
      by (induction ms) auto
    show ?thesis using disj that e [of "set xs \<union> set ys" ns] by (auto simp: s e)
  qed
  show "sorted (map f ?l)"
    using assms(1) by (auto simp: sorted_append)
qed

lemma nodes_by_id_append:
  "sorted (xs @ ys) \<Longrightarrow> distinct (xs @ ys) \<Longrightarrow> nodes_by_id db q xs @ nodes_by_id db q ys = nodes_by_id db q (xs @ ys)"
  unfolding nodes_by_id_def conj_assoc [symmetric] by (rule rows_by_id_append)

lemma edges_by_id_append:
  "sorted (xs @ ys) \<Longrightarrow> distinct (xs @ ys) \<Longrightarrow> edges_by_id db q xs @ edges_by_id db q ys = edges_by_id db q (xs @ ys)"
  unfolding edges_by_id_def conj_assoc [symmetric] by (rule rows_by_id_append)

lemma by_id_Nil [simp]: "nodes_by_id db q [] = []" "edges_by_id db q [] = []"
  by (simp_all add: nodes_by_id_def edges_by_id_def)

lemma page_slice_props:
  "sorted xs \<Longrightarrow> sorted (page_slice i j xs)" "distinct xs \<Longrightarrow> distinct (page_slice i j xs)"
  "page_slice i i xs = []" "page_slice 0 (int (length xs)) xs = xs"
  by (simp_all add: page_slice_def sorted_wrt_take sorted_wrt_drop)

lemma nodes_part:
  assumes "0 \<le> i" "i \<le> j" "j \<le> k"
  shows "nodes_by_id db q (page_slice i j (member_nodes db q)) @ nodes_by_id db q (page_slice j k (member_nodes db q)) =
    nodes_by_id db q (page_slice i k (member_nodes db q))"
proof -
  have "sorted (page_slice i k (member_nodes db q))" "distinct (page_slice i k (member_nodes db q))"
    by (simp_all add: page_slice_props)
  then show ?thesis
    unfolding page_slice_append [OF assms, of "member_nodes db q", symmetric] by (rule nodes_by_id_append)
qed

lemma edges_part:
  assumes "0 \<le> i" "i \<le> j" "j \<le> k"
  shows "edges_by_id db q (page_slice i j (member_edges db q)) @ edges_by_id db q (page_slice j k (member_edges db q)) =
    edges_by_id db q (page_slice i k (member_edges db q))"
proof -
  have "sorted (page_slice i k (member_edges db q))" "distinct (page_slice i k (member_edges db q))"
    by (simp_all add: page_slice_props)
  then show ?thesis
    unfolding page_slice_append [OF assms, of "member_edges db q", symmetric] by (rule edges_by_id_append)
qed

lemma member_part_append:
  assumes "0 \<le> i" "i \<le> j" "j \<le> k"
  shows "member_part db q i j @ member_part db q j k = member_part db q i k"
proof -
  let ?n = "int (length (member_nodes db q))"
  define N where "N u v = nodes_by_id db q (page_slice (min u ?n) (min v ?n) (member_nodes db q))" for u v
  define E where "E u v = edges_by_id db q (page_slice (max 0 (u - ?n)) (max 0 (v - ?n)) (member_edges db q))" for u v
  have n: "N i j @ N j k = N i k" unfolding N_def using assms by (intro nodes_part) auto
  have e: "E i j @ E j k = E i k" unfolding E_def using assms by (intro edges_part) auto
  have "E i j = [] \<or> N j k = []"
  proof (cases "j \<le> ?n")
    case True
    then have "max 0 (i - ?n) = 0" "max 0 (j - ?n) = 0" using assms by auto
    then show ?thesis by (simp only: E_def page_slice_props(3) by_id_Nil simp_thms)
  next
    case False
    then have "min j ?n = ?n" "min k ?n = ?n" using assms by auto
    then show ?thesis by (simp only: N_def page_slice_props(3) by_id_Nil simp_thms)
  qed
  then have "map Inl (N i j) @ map Inr (E i j) @ map Inl (N j k) @ map Inr (E j k) =
      map Inl (N i j @ N j k) @ (map Inr (E i j @ E j k) :: (GraphNode + GraphEdge) list)" by auto
  then show ?thesis unfolding n e by (simp add: member_part_def Let_def N_def E_def)
qed

lemma fetch_page_spec:
  assumes "0 \<le> qu_max_depth q" "qu_max_depth q \<le> cap" "1 \<le> psize" "psize \<le> MAX_PAGE_SIZE"
    and "decode_cursor c (query_fingerprint q) = Inr i"
    and "extent = int (length (member_nodes db q)) + int (length (member_edges db q))" "\<not> (i > extent \<or> (i = extent \<and> c \<noteq> None))"
  shows "fetch_page db q cap psize c = Inr (member_part db q i (min (i + psize) extent),
    if min (i + psize) extent < extent then Some (encode_cursor (min (i + psize) extent) (query_fingerprint q)) else None)"
  using assms by (cases c) (auto simp: fetch_page_def graph_walk_def Let_def eguard_def member_part_def)

text \<open>Following the cursors gives every member once: the nodes, then the edges, in the order of their identifiers.\<close>

lemma read_all_members:
  assumes "0 \<le> qu_max_depth q" "qu_max_depth q \<le> cap" "1 \<le> psize" "psize \<le> MAX_PAGE_SIZE"
    and "length (member_nodes db q) + length (member_edges db q) < n"
  shows "read_all n (fetch_page db q cap psize) None =
    Inr (map Inl (nodes_by_id db q (member_nodes db q)) @ map Inr (edges_by_id db q (member_edges db q)))"
proof -
  define extent where "extent = int (length (member_nodes db q)) + int (length (member_edges db q))"
  have "read_all n (fetch_page db q cap psize) None = Inr (member_part db q 0 extent)"
  proof (rule cursors.read_from [where f = "query_fingerprint q" and psize = psize and i = 0])
    show "decode_cursor None (query_fingerprint q) = Inr 0" by (rule cursors.decode_start)
    show "(0::int) < extent \<or> (0 = extent \<and> (None :: pyval option) = None)" by (auto simp: extent_def)
  qed (use assms fetch_page_spec extent_def member_part_append in auto)
  then show ?thesis by (simp add: member_part_def Let_def extent_def page_slice_props)
qed

subsection \<open>Edge keys\<close>

lemma keeps_edges [dest]:
  "artifact_add db a = Inr db' \<Longrightarrow> ab_edges db' = ab_edges db" "set_lifecycle db ws s i st t = Inr db' \<Longrightarrow> ab_edges db' = ab_edges db"
  "add_node db n = Inr db' \<Longrightarrow> ab_edges db' = ab_edges db" "append_event db a cx ty p = Inr (db', r) \<Longrightarrow> ab_edges db' = ab_edges db"
  by (auto simp: artifact_add_Inr set_lifecycle_Inr add_node_Inr append_event_def result_simps)

lemma new_edge_keys:
  assumes "new_edge db a cx i f t ty q = Inr db'" "distinct (map ge_id (ab_edges db))"
  shows "distinct (map ge_id (ab_edges db'))"
  using assms by (auto simp: new_edge_def Let_def result_simps add_edge_def list_ex_iff split: if_splits)

lemma add_relationships_keys:
  assumes "add_relationships db a n ts cx = Inr db'" "distinct (map ge_id (ab_edges db))"
  shows "distinct (map ge_id (ab_edges db'))"
proof -
  have "distinct (map ge_id (ab_edges db'))"
    if "efold (\<lambda>db (r, edge_id, target). new_edge db a cx edge_id (gn_id n) (gn_id target) (pr_edge_type r)
       (attack_qualifier (pr_edge_type r) (ra_payload a))) db rs = Inr db'" "distinct (map ge_id (ab_edges db))" for rs db
    using that by (induction rs arbitrary: db) (auto simp: result_simps split: prod.splits dest: new_edge_keys)
  from this [OF assms(1) [unfolded add_relationships_def] assms(2)] show ?thesis .
qed

lemma perform_edge_keys:
  assumes "perform db w = Inr (db', r)" "distinct (map ge_id (ab_edges db))"
  shows "distinct (map ge_id (ab_edges db'))"
proof (cases w)
  case (Commit a n es l cx)
  with assms show ?thesis
    by (auto simp: commit_artifact_def result_simps dest!: keeps_edges dest: add_relationships_keys)
next
  case (Revise a n e es l reason cx)
  then show ?thesis using assms
    by (auto simp: revise_artifact_def result_simps dest!: keeps_edges)
       (erule new_edge_keys, erule add_relationships_keys, simp)
next
  case (Withdraw ws s i reason wts cx)
  with assms show ?thesis by (auto simp: withdraw_artifact_def result_simps dest!: keeps_edges)
qed

lemma reachable_edge_keys: "artifacts_reachable db \<Longrightarrow> distinct (map ge_id (ab_edges db))"
proof (induction rule: artifacts_reachable.induct)
  case (transaction db ws db')
  have "distinct (map ge_id (ab_edges d'))"
    if "efold (\<lambda>d w. ebind (perform d w) (\<lambda>r. Inr (fst r))) d ws = Inr d'" "distinct (map ge_id (ab_edges d))" for d d' ws
    using that by (induction ws arbitrary: d) (auto simp: result_simps dest: perform_edge_keys)
  then show ?case using transaction by (auto simp: artifact_transaction_def result_simps)
qed (simp_all add: empty_artifacts_def)

end
