(* ===== verification/Artifact_Properties.thy ===== *)
theory Artifact_Properties
  imports Artifact_Commit Ledger_Properties "HOL-Library.Sublist"
begin

text \<open>
  The properties of the reasoning artifacts: their histories, the immutability of their content, the graph
  and the ledger as projections of them, the effect of every operation of the service, what a content hash
  identifies, and how validation and the checks of the database agree.
\<close>

text \<open>An alternative, its revision, and the withdrawal of the revision, in the session of the sample ledger.\<close>

definition sample_instant :: datetime where
  "sample_instant = \<lparr>dt_year = 2026, dt_month = 1, dt_day = 2, dt_hour = 3, dt_minute = 4, dt_second = 5, dt_micro = 6\<rparr>"

definition sample_content :: "uuid \<Rightarrow> int \<Rightarrow> uuid option \<Rightarrow> ReasoningArtifact" where
  "sample_content i v prev = \<lparr>ra_id = i, ra_workspace_id = 1, ra_session_id = 2, ra_logical_id = 3, ra_kind = ALTERNATIVE,
     ra_schema_version = 1, ra_version = v, ra_status = ACTIVE, ra_supersedes_id = prev, ra_owner_actor_class = HUMAN,
     ra_owner_actor_id = 4, ra_round = 0, ra_payload = AlternativePayload (ustr ''x'') (ustr ''x'') [] (ustr ''x'') (ustr ''x''),
     ra_provenance = \<lparr>pv_origin = ORIGIN_HUMAN, pv_reference = ustr ''x'', pv_model_call_id = None, pv_activity_id = None\<rparr>,
     ra_source_references = [], ra_parent_relationships = [], ra_confidence = None, ra_metadata = JObj [],
     ra_created_at = sample_instant, ra_updated_at = sample_instant, ra_content_hash = GENESIS_HASH\<rparr>"

definition sample_artifact :: "uuid \<Rightarrow> int \<Rightarrow> uuid option \<Rightarrow> ReasoningArtifact" where
  "sample_artifact i v prev = (sample_content i v prev)\<lparr>ra_content_hash := artifact_digest (sample_content i v prev)\<rparr>"

definition sample_context :: "uuid \<Rightarrow> ArtifactEventContext" where
  "sample_context i = \<lparr>ec_event_id = i, ec_correlation_id = 9, ec_causation_id = None, ec_actor_class = HUMAN,
     ec_actor_id = 4, ec_recorded_at = sample_instant\<rparr>"

definition sample_empty :: artifact_db where
  "sample_empty = empty_artifacts\<lparr>ab_ledger := sample_start\<rparr>"

abbreviation "sample_one \<equiv> sample_artifact 5 1 None"
abbreviation "sample_two \<equiv> sample_artifact 6 2 (Some 5)"
abbreviation "sample_commit \<equiv> Commit sample_one 11 [] (ustr ''x'') (sample_context 21)"
abbreviation "sample_revise \<equiv> Revise sample_two 12 13 [] (ustr ''x'') (ustr ''x'') (sample_context 22)"
abbreviation "sample_withdraw \<equiv> Withdraw 1 2 6 (ustr ''x'') [5] (sample_context 23)"

definition sample_session :: "ledger_db \<Rightarrow> uuid set \<Rightarrow> bool" where
  "sample_session l used = (ledger_wf l \<and> (\<exists>h. lg_heads l 2 = Some h \<and> lh_workspace_id h = 1) \<and>
     la_id ` set (lg_events l) \<subseteq> used)"

definition sample_node :: "uuid \<Rightarrow> int \<Rightarrow> uuid option \<Rightarrow> uuid \<Rightarrow> GraphNode" where
  "sample_node i v prev n = \<lparr>gn_id = n, gn_workspace_id = 1, gn_session_id = 2, gn_kind = ALTERNATIVE, gn_ref_id = i,
     gn_label = ustr ''x'', gn_attrs = jobj [(''logical_id'', juuid 3), (''version'', JInt v)]\<rparr>"

definition sample_edge :: GraphEdge where
  "sample_edge = \<lparr>ge_id = 13, ge_workspace_id = 1, ge_session_id = 2, ge_from_node = 12, ge_to_node = 11,
     ge_edge_type = SUPERSEDES, ge_qualifier = jobj [(''reason'', JStr (ustr ''x''))], ge_actor_class = HUMAN, ge_actor_id = 4\<rparr>"

definition sample_committed :: "ledger_db \<Rightarrow> artifact_db" where
  "sample_committed l = \<lparr>ab_ledger = l, ab_artifacts = [sample_one], ab_nodes = [sample_node 5 1 None 11], ab_edges = []\<rparr>"

definition sample_revised :: "ledger_db \<Rightarrow> artifact_db" where
  "sample_revised l = \<lparr>ab_ledger = l, ab_artifacts = [sample_one\<lparr>ra_status := SUPERSEDED\<rparr>, sample_two],
     ab_nodes = [sample_node 5 1 None 11, sample_node 6 2 (Some 5) 12], ab_edges = [sample_edge]\<rparr>"

definition sample_withdrawn :: "ledger_db \<Rightarrow> artifact_db" where
  "sample_withdrawn l = (sample_revised l)\<lparr>ab_artifacts := [sample_one\<lparr>ra_status := SUPERSEDED\<rparr>, sample_two\<lparr>ra_status := WITHDRAWN\<rparr>]\<rparr>"

text \<open>What the hash covers: the identifier, the status and the times are left out, embedded JSON is in normal form.\<close>

fun normal_payload :: "ArtifactPayload \<Rightarrow> ArtifactPayload" where
  "normal_payload (DistributionUncertaintyPayload t u ds f ps un) = DistributionUncertaintyPayload t u ds f (normal ps) un"
| "normal_payload (ScenariosUncertaintyPayload t u ds ss) =
     ScenariosUncertaintyPayload t u ds (map (\<lambda>s. s\<lparr>sn_value := normal (sn_value s)\<rparr>) ss)"
| "normal_payload (ConstraintPayload n st ct c e f) = ConstraintPayload n st ct c (e\<lparr>fe_ast := normal (fe_ast e)\<rparr>) f"
| "normal_payload p = p"

definition no_time :: datetime where
  "no_time = \<lparr>dt_year = 1, dt_month = 1, dt_day = 1, dt_hour = 0, dt_minute = 0, dt_second = 0, dt_micro = 0\<rparr>"

definition hashed_content :: "ReasoningArtifact \<Rightarrow> ReasoningArtifact" where
  "hashed_content a = a\<lparr>ra_id := 0, ra_status := ACTIVE, ra_created_at := no_time, ra_updated_at := no_time,
     ra_content_hash := [], ra_payload := normal_payload (ra_payload a), ra_metadata := normal (ra_metadata a),
     ra_source_references := map (\<lambda>s. s\<lparr>sr_locator := normal (sr_locator s)\<rparr>) (ra_source_references a)\<rparr>"

text \<open>An objective of the given weight.\<close>

definition sample_objective :: "string \<Rightarrow> ReasoningArtifact" where
  "sample_objective w = (sample_content 5 1 None)\<lparr>ra_kind := OBJECTIVE, ra_payload :=
     ObjectivePayload (ustr ''x'') (ustr ''x'') (ustr ''x'') (ustr w) (ustr ''x'') (ustr ''x'') []\<rparr>"

definition sample_position :: "string \<Rightarrow> ReasoningArtifact" where
  "sample_position w = (sample_content 5 1 None)\<lparr>ra_kind := POSITION,
     ra_payload := PositionPayload 8 SUPPORT (ustr ''x'') [] [],
     ra_confidence := Some \<lparr>cf_kind = ustr ''x'', cf_value = ustr w, cf_meaning = ustr ''x'', cf_basis_artifact_ids = []\<rparr>\<rparr>"

text \<open>A weight in Arabic-Indic digits, which Python reads as a half.\<close>

definition arabic_half :: ustr where
  "arabic_half = [48, 46, 0x665]"

definition arabic_objective :: ReasoningArtifact where
  "arabic_objective = (sample_content 5 1 None)\<lparr>ra_kind := OBJECTIVE, ra_payload :=
     ObjectivePayload (ustr ''x'') (ustr ''x'') (ustr ''x'') arabic_half (ustr ''x'') (ustr ''x'') []\<rparr>"



subsection \<open>A sample history\<close>

lemma text_ok_x [simp]: "text_ok (ustr ''x'')"
  by (simp add: text_ok_def u_blank_def u_isspace_def ustr_def scalar_ascii)

lemma is_sha256_genesis [simp]: "is_sha256 GENESIS_HASH"
  by (rule genesis_valid)

lemma sample_instant_valid [simp]: "datetime_valid sample_instant"
  by (simp add: sample_instant_def datetime_valid_def)

lemma sample_artifact_simps [simp]:
  "ra_id (sample_artifact i v prev) = i" "ra_workspace_id (sample_artifact i v prev) = 1"
  "ra_session_id (sample_artifact i v prev) = 2" "ra_logical_id (sample_artifact i v prev) = 3"
  "ra_kind (sample_artifact i v prev) = ALTERNATIVE" "ra_version (sample_artifact i v prev) = v"
  "ra_status (sample_artifact i v prev) = ACTIVE" "ra_supersedes_id (sample_artifact i v prev) = prev"
  "ra_round (sample_artifact i v prev) = 0" "ra_parent_relationships (sample_artifact i v prev) = []"
  "ra_metadata (sample_artifact i v prev) = JObj []" "ra_updated_at (sample_artifact i v prev) = sample_instant"
  "artifact_references (sample_artifact i v prev) = []"
  by (simp_all add: sample_artifact_def sample_content_def artifact_references_def)

lemma sample_valid [simp]:
  assumes "valid_revision v prev"
  shows "validate_artifact (sample_artifact i v prev) = Inr (sample_artifact i v prev)"
proof -
  have v: "0 < v" using assms by (auto simp: valid_revision_def)
  have "payload_init (ra_payload (sample_content i v prev)) = Inr (ra_payload (sample_content i v prev))"
    "confidence_init (ra_confidence (sample_content i v prev)) = Inr (ra_confidence (sample_content i v prev))"
    by (simp_all add: sample_content_def confidence_init_def)
  moreover have "artifact_fields_ok (sample_content i v prev)"
    using v by (simp add: sample_content_def artifact_fields_ok_def json_object_ok_def is_object.simps)
  moreover have "artifact_invariants (sample_content i v prev) = Inr ()"
    using assms by (simp add: invariants_iff sample_content_def)
  ultimately have "artifact_candidate (sample_content i v prev) = Inr (sample_content i v prev)"
    by (rule candidateI)
  from candidate_hash_irrelevant [OF artifact_digest_valid this]
  show ?thesis by (simp add: validate_artifact_iff sample_artifact_def)
qed

lemma no_nul_jobj: "no_nul (jobj ms) \<longleftrightarrow> list_all (\<lambda>(k, v). 0 \<notin> set (ustr k) \<and> no_nul v) ms"
  by (induction ms) (auto simp: jobj_def)

lemmas column_simps = jsonb_columns_def provenance_json_def jopt_def no_nul_jobj jtexts_def jtext_def juuids_def ustr_def
  sample_content_def

lemma storable_sample:
  "int4 v \<Longrightarrow> storable ((sample_content i v prev)\<lparr>ra_content_hash := h\<rparr>)"
  by (simp add: storable_def column_types_def int4_def column_simps artifact_references_def artifact_decimals_def)

lemma sample_row_check [simp]:
  assumes "valid_revision v prev" "int4 v"
  shows "artifact_row_check (sample_artifact i v prev) = None"
proof -
  have "artifact_candidate (sample_artifact i v prev) = Inr (sample_artifact i v prev)"
    using sample_valid [OF assms(1)] by (simp add: validate_artifact_iff)
  moreover have "storable (sample_artifact i v prev)"
    using assms(2) by (simp add: sample_artifact_def storable_sample)
  ultimately show ?thesis by (simp add: row_check_iff)
qed

lemma revision_one [simp]: "valid_revision 1 None" "valid_revision 2 (Some p)" "int4 1" "int4 2"
  by (simp_all add: valid_revision_def int4_def)

lemma sample_context_simps [simp]:
  "ec_event_id (sample_context i) = i" "ec_recorded_at (sample_context i) = sample_instant"
  by (simp_all add: sample_context_def)

lemma sample_empty_reachable: "artifacts_reachable sample_empty"
proof -
  have "create_session_ledger_head (ab_ledger empty_artifacts) 1 2 = Inr sample_start"
    by (simp add: create_session_ledger_head_def empty_artifacts_def empty_ledger_def sample_start_def sample_head_def)
  then show ?thesis unfolding sample_empty_def by (rule artifacts_reachable.session [OF artifacts_reachable.empty])
qed

lemma text_ok_types [simp]:
  "text_ok (ustr ''ARTIFACT_COMMITTED'')" "text_ok (ustr ''ARTIFACT_REVISED'')" "text_ok (ustr ''ARTIFACT_WITHDRAWN'')"
  by (simp_all add: text_ok_def u_blank_def u_isspace_def ustr_def scalar_ascii)

lemma sample_event_made:
  assumes "ra_workspace_id a = 1" "ra_session_id a = 2" "ra_round a = 0" "ra_metadata a = JObj []"
    "list_all (\<lambda>(k, v). scalars v) p" "distinct (map (ustr \<circ> fst) p)" "text_ok (ustr ty)"
  obtains e where "artifact_event a (sample_context c) ty p = Inr e" "LedgerAppend_valid e" "la_id e = c"
    "la_workspace_id e = 1" "la_session_id e = 2"
proof -
  have "is_object (event_payload a p)" "scalars (event_payload a p)"
    using assms(4-6) by (simp_all add: event_payload_def scalars_jobj) (simp add: jobj_def is_object.simps)
  then show ?thesis using assms that
    by (simp add: artifact_event_def Let_def LedgerAppend_valid_def text_ok_def sample_context_def)
qed

lemma sample_appended_event:
  assumes "artifact_event a (sample_context c) ty p = Inr e" "LedgerAppend_valid e" "la_id e = c"
    "la_workspace_id e = 1" "la_session_id e = 2" "sample_session (ab_ledger db) used" "c \<notin> used"
  shows "\<exists>l r. append_event db a (sample_context c) ty p = Inr (db\<lparr>ab_ledger := l\<rparr>, r) \<and> sample_session l (insert c used)"
proof -
  obtain h where l: "ledger_wf (ab_ledger db)" "lg_heads (ab_ledger db) 2 = Some h" "lh_workspace_id h = 1"
    "la_id ` set (lg_events (ab_ledger db)) \<subseteq> used" using assms(6) by (auto simp: sample_session_def)
  have "event_by_id (ab_ledger db) c = None" using l(4) assms(7) by (auto simp: event_by_id_def find_None_iff)
  then have app: "ledger_append (ab_ledger db) e = Inr (with_event (ab_ledger db) h (next_event h e), next_event h e)"
    using assms l by (intro append_new) simp_all
  have x: "la_id (next_event h e) = c" "la_session_id (next_event h e) = 2"
    using assms(3,5) next_event_caller(1) [of e h] by (simp_all add: same_caller_values_def)
  have "ledger_wf (with_event (ab_ledger db) h (next_event h e))"
    using ledger_append_wf [OF l(1) assms(2) app] .
  then have "sample_session (with_event (ab_ledger db) h (next_event h e)) (insert c used)"
    using l x by (auto simp: sample_session_def with_event_def)
  then show ?thesis by (auto simp: append_event_def assms(1) app)
qed

lemma sample_node_made [simp]: "artifact_node (sample_artifact i v prev) n (ustr ''x'') = Inr (sample_node i v prev n)"
  by (simp add: artifact_node_def Let_def checked_def GraphNode_valid_def sample_node_def scalars_jobj)

lemma sample_session_row: "sample_session (ab_ledger db) used \<Longrightarrow> session_row db 1 2"
  by (auto simp: sample_session_def session_row_def)

lemma sample_commit_run:
  assumes "sample_session l used" "21 \<notin> used"
  shows "\<exists>l' r. perform \<lparr>ab_ledger = l, ab_artifacts = [], ab_nodes = [], ab_edges = []\<rparr> sample_commit = Inr (sample_committed l', r) \<and>
    sample_session l' (insert 21 used)"
proof -
  let ?db = "(sample_committed l)"
  obtain e where e: "artifact_event sample_one (sample_context 21) ''ARTIFACT_COMMITTED'' (commit_payload sample_one) = Inr e"
    "LedgerAppend_valid e" "la_id e = 21" "la_workspace_id e = 1" "la_session_id e = 2"
    by (rule sample_event_made [of sample_one "commit_payload sample_one" "''ARTIFACT_COMMITTED''" 21])
       (simp_all add: commit_payload_def, simp add: ustr_def)
  have s: "sample_session (ab_ledger ?db) used" using assms(1) by (simp add: sample_committed_def)
  from sample_appended_event [OF e s assms(2)] obtain l' r where
    app: "append_event ?db sample_one (sample_context 21) ''ARTIFACT_COMMITTED'' (commit_payload sample_one) =
      Inr (?db\<lparr>ab_ledger := l'\<rparr>, r)" "sample_session l' (insert 21 used)" by blast
  have row: "session_row \<lparr>ab_ledger = l, ab_artifacts = as, ab_nodes = ns, ab_edges = es\<rparr> 1 2" for as ns es
    using sample_session_row [of "\<lparr>ab_ledger = l, ab_artifacts = as, ab_nodes = ns, ab_edges = es\<rparr>"] assms(1) by simp
  have "commit_artifact \<lparr>ab_ledger = l, ab_artifacts = [], ab_nodes = [], ab_edges = []\<rparr> sample_one 11 [] (ustr ''x'')
      (sample_context 21) = append_event ?db sample_one (sample_context 21) ''ARTIFACT_COMMITTED'' (commit_payload sample_one)"
    by (simp add: commit_artifact_def relationship_targets_def artifact_add_def add_node_def add_relationships_def
        sample_committed_def row sample_node_def)
  with app show ?thesis by (auto simp: sample_committed_def)
qed

lemma sample_status [simp]:
  "set_status i st sample_instant (sample_artifact j v prev) =
     (if i = j then (sample_artifact j v prev)\<lparr>ra_status := st\<rparr> else sample_artifact j v prev)"
  by (simp add: set_status_def sample_artifact_def sample_content_def)

lemma sample_status' [simp]:
  "set_status i st sample_instant ((sample_artifact j v prev)\<lparr>ra_status := st'\<rparr>) =
     (if i = j then (sample_artifact j v prev)\<lparr>ra_status := st\<rparr> else (sample_artifact j v prev)\<lparr>ra_status := st'\<rparr>)"
  by (simp add: set_status_def sample_artifact_def sample_content_def)

lemma sample_instant_irrefl [simp]: "\<not> dt_less sample_instant sample_instant"
  by (simp add: sample_instant_def dt_less_def)

lemma sample_revise_run:
  assumes "sample_session l used" "22 \<notin> used"
  shows "\<exists>l' r. perform (sample_committed l) sample_revise = Inr (sample_revised l', r) \<and> sample_session l' (insert 22 used)"
proof -
  let ?db = "(sample_revised l)"
  obtain e where e: "artifact_event sample_two (sample_context 22) ''ARTIFACT_REVISED'' (revise_payload sample_two 5 (ustr ''x'')) = Inr e"
    "LedgerAppend_valid e" "la_id e = 22" "la_workspace_id e = 1" "la_session_id e = 2"
    by (rule sample_event_made [of sample_two "revise_payload sample_two 5 (ustr ''x'')" "''ARTIFACT_REVISED''" 22])
       (simp_all add: revise_payload_def ustr_scalar, simp add: ustr_def)
  have s: "sample_session (ab_ledger ?db) used" using assms(1) by (simp add: sample_revised_def)
  from sample_appended_event [OF e s assms(2)] obtain l' r where
    app: "append_event ?db sample_two (sample_context 22) ''ARTIFACT_REVISED'' (revise_payload sample_two 5 (ustr ''x'')) =
      Inr (?db\<lparr>ab_ledger := l'\<rparr>, r)" "sample_session l' (insert 22 used)" by blast
  have row: "session_row \<lparr>ab_ledger = l, ab_artifacts = as, ab_nodes = ns, ab_edges = es\<rparr> 1 2" for as ns es
    using sample_session_row [of "\<lparr>ab_ledger = l, ab_artifacts = as, ab_nodes = ns, ab_edges = es\<rparr>"] assms(1) by simp
  have "\<not> u_blank (ustr ''x'')" using text_ok_x unfolding text_ok_def by blast
  then have "revision_checked (sample_committed l) sample_two [] (ustr ''x'') = Inr (sample_one, sample_node 5 1 None 11, [])"
    by (simp add: revision_checked_def sample_committed_def get_for_update_def artifact_row_def in_session_def
        node_for_artifact_def sample_node_def relationship_targets_def)
  moreover have "artifact_add (sample_committed l) sample_two = Inr (sample_committed l\<lparr>ab_artifacts := [sample_one, sample_two]\<rparr>)"
    by (simp add: artifact_add_def sample_committed_def in_session_def row artifact_row_def)
  moreover have "set_lifecycle (sample_committed l\<lparr>ab_artifacts := [sample_one, sample_two]\<rparr>) 1 2 5 SUPERSEDED sample_instant =
    Inr (sample_committed l\<lparr>ab_artifacts := [sample_one\<lparr>ra_status := SUPERSEDED\<rparr>, sample_two]\<rparr>)"
    by (simp add: set_lifecycle_def sample_committed_def artifact_row_def in_session_def enforce_immutability_def)
  moreover have "add_node (sample_committed l\<lparr>ab_artifacts := [sample_one\<lparr>ra_status := SUPERSEDED\<rparr>, sample_two]\<rparr>)
      (sample_node 6 2 (Some 5) 12) = Inr (sample_revised l\<lparr>ab_edges := []\<rparr>)"
    by (simp add: add_node_def sample_committed_def sample_revised_def sample_node_def row)
  moreover have "new_edge (sample_revised l\<lparr>ab_edges := []\<rparr>) sample_two (sample_context 22) 13 12 11 SUPERSEDES
      (jobj [(''reason'', JStr (ustr ''x''))]) = Inr ?db"
    by (simp add: new_edge_def Let_def checked_def GraphEdge_valid_def scalars_jobj ustr_scalar add_edge_def sample_revised_def row
        sample_edge_def sample_context_def)
  ultimately have "revise_artifact (sample_committed l) sample_two 12 13 [] (ustr ''x'') (ustr ''x'') (sample_context 22) =
      append_event ?db sample_two (sample_context 22) ''ARTIFACT_REVISED'' (revise_payload sample_two 5 (ustr ''x''))"
    by (simp add: revise_artifact_def add_relationships_def) (simp add: sample_node_def)
  with app show ?thesis by (auto simp: sample_revised_def)
qed

lemma sample_withdraw_run:
  assumes "sample_session l used" "23 \<notin> used"
  shows "\<exists>l' r. perform (sample_revised l) sample_withdraw = Inr (sample_withdrawn l', r) \<and> sample_session l' (insert 23 used)"
proof -
  let ?db = "(sample_withdrawn l)" and ?a = "sample_two\<lparr>ra_status := WITHDRAWN\<rparr>"
  let ?p = "withdraw_payload sample_two (ustr ''x'') [5]"
  obtain e where e: "artifact_event ?a (sample_context 23) ''ARTIFACT_WITHDRAWN'' ?p = Inr e"
    "LedgerAppend_valid e" "la_id e = 23" "la_workspace_id e = 1" "la_session_id e = 2"
    by (rule sample_event_made [of ?a ?p "''ARTIFACT_WITHDRAWN''" 23])
       (simp_all add: withdraw_payload_def ustr_scalar, simp add: ustr_def)
  have s: "sample_session (ab_ledger ?db) used" using assms(1) by (simp add: sample_revised_def sample_withdrawn_def)
  from sample_appended_event [OF e s assms(2)] obtain l' r where
    app: "append_event ?db ?a (sample_context 23) ''ARTIFACT_WITHDRAWN'' ?p =
      Inr (?db\<lparr>ab_ledger := l'\<rparr>, r)" "sample_session l' (insert 23 used)" by blast
  have "\<not> u_blank (ustr ''x'')" using text_ok_x unfolding text_ok_def by blast
  then have "withdrawal_checked (sample_revised l) 1 2 6 (ustr ''x'') [5] = Inr sample_two"
    by (simp add: withdrawal_checked_def sample_revised_def get_for_update_def artifact_row_def in_session_def
        node_for_artifact_def sample_node_def)
  moreover have "set_lifecycle (sample_revised l) 1 2 6 WITHDRAWN sample_instant = Inr ?db"
    by (simp add: set_lifecycle_def sample_revised_def sample_withdrawn_def artifact_row_def in_session_def enforce_immutability_def)
  moreover have st: "sample_two\<lparr>ra_status := WITHDRAWN, ra_updated_at := sample_instant\<rparr> = ?a"
    by (simp add: sample_artifact_def sample_content_def)
  ultimately have "withdraw_artifact (sample_revised l) 1 2 6 (ustr ''x'') [5] (sample_context 23) =
      append_event ?db ?a (sample_context 23) ''ARTIFACT_WITHDRAWN'' ?p"
    by (simp add: withdraw_artifact_def) (simp only: st)
  with app show ?thesis by (auto simp: sample_withdrawn_def sample_revised_def)
qed

lemma artifact_references_status: "artifact_references (a\<lparr>ra_status := st\<rparr>) = artifact_references a"
  by (simp add: artifact_references_def)

lemma sample_history:
  obtains l1 l2 l3 where "artifact_transaction sample_empty [sample_commit] = Inr (sample_committed l1)"
    "artifact_transaction (sample_committed l1) [sample_revise] = Inr (sample_revised l2)"
    "artifact_transaction (sample_revised l2) [sample_withdraw] = Inr (sample_withdrawn l3)"
    "artifacts_reachable (sample_committed l1)" "artifacts_reachable (sample_revised l2)" "artifacts_reachable (sample_withdrawn l3)"
proof -
  have s: "sample_session sample_start {}"
    using reachable_wf [OF sample_start_reachable]
    by (simp add: sample_session_def sample_start_def sample_head_def empty_ledger_def)
  from sample_commit_run [OF s] obtain l1 r1 where 1: "perform sample_empty sample_commit = Inr (sample_committed l1, r1)"
    "sample_session l1 {21}" by (auto simp: sample_empty_def empty_artifacts_def)
  from sample_revise_run [OF 1(2)] obtain l2 r2 where 2: "perform (sample_committed l1) sample_revise = Inr (sample_revised l2, r2)"
    "sample_session l2 {22, 21}" by auto
  from sample_withdraw_run [OF 2(2)] obtain l3 r3 where 3: "perform (sample_revised l2) sample_withdraw = Inr (sample_withdrawn l3, r3)"
    by auto
  note checks = commit_checks_def Let_def revision_chain_ok_def references_exist_def node_kind_ok_def artifact_row_def
    in_session_def
  have "commit_checks sample_empty (sample_committed l1) = Inr ()"
    by (simp add: checks sample_empty_def empty_artifacts_def sample_committed_def sample_node_def)
  with 1(1) have t1: "artifact_transaction sample_empty [sample_commit] = Inr (sample_committed l1)"
    by (simp add: artifact_transaction_def)
  have "commit_checks (sample_committed l1) (sample_revised l2) = Inr ()"
    by (simp add: checks sample_committed_def sample_revised_def sample_node_def endpoints_ok_def session_node_def sample_edge_def
        artifact_references_status)
  with 2(1) have t2: "artifact_transaction (sample_committed l1) [sample_revise] = Inr (sample_revised l2)"
    by (simp add: artifact_transaction_def)
  have "commit_checks (sample_revised l2) (sample_withdrawn l3) = Inr ()"
    by (simp add: checks sample_withdrawn_def sample_revised_def sample_node_def artifact_references_status)
  with 3 have t3: "artifact_transaction (sample_revised l2) [sample_withdraw] = Inr (sample_withdrawn l3)"
    by (simp add: artifact_transaction_def)
  note step = artifacts_reachable.transaction
  have r1: "artifacts_reachable (sample_committed l1)" by (rule step [OF sample_empty_reachable _ t1]) simp
  have r2: "artifacts_reachable (sample_revised l2)" by (rule step [OF r1 _ t2]) simp
  have "artifacts_reachable (sample_withdrawn l3)" by (rule step [OF r2 _ t3]) simp
  with t1 t2 t3 r1 r2 show ?thesis by (rule that)
qed

subsection \<open>Histories of artifacts\<close>

lemma earlier_version:
  assumes "history_ok as" "a \<in> set as" "1 \<le> v" "v \<le> ra_version a"
  shows "\<exists>b \<in> set as. same_session b a \<and> ra_logical_id b = ra_logical_id a \<and> ra_version b = v"
  using assms(3,4)
proof (induction "nat (ra_version a - v)" arbitrary: v)
  case 0
  then have "v = ra_version a" by simp
  then show ?case using assms(2) by (intro bexI [of _ a]) (simp_all add: same_session_def)
next
  case (Suc n)
  then have "n = nat (ra_version a - (v + 1))" "v + 1 \<le> ra_version a" by linarith+
  then obtain b where b: "b \<in> set as" "same_session b a" "ra_logical_id b = ra_logical_id a" "ra_version b = v + 1"
    using Suc.hyps(1) [of "v + 1"] Suc.prems by auto
  then obtain p where "p \<in> set as" "follows b p" using assms(1) Suc.prems by (auto simp: history_ok_def)
  with b show ?case by (intro bexI [of _ p]) (auto simp: follows_def same_session_def)
qed

lemma same_version:
  assumes "rows_ok db" "a \<in> set (ab_artifacts db)" "b \<in> set (ab_artifacts db)" "same_session a b"
    "ra_logical_id a = ra_logical_id b" "ra_version a = ra_version b"
  shows "a = b"
  using assms by (auto simp: rows_ok_def distinct_map inj_on_def version_key_def same_session_def)

lemma newest_unsuperseded:
  assumes "rows_ok db" "history_ok (ab_artifacts db)" "a \<in> set (ab_artifacts db)" "b \<in> set (ab_artifacts db)" "same_session a b"
    "ra_logical_id a = ra_logical_id b" "ra_status a \<noteq> SUPERSEDED"
  shows "ra_version b \<le> ra_version a"
proof (rule ccontr)
  assume "\<not> ra_version b \<le> ra_version a"
  moreover have "1 \<le> ra_version a"
    using assms(1,3) by (force simp: rows_ok_def artifact_row_check_def split: if_splits)
  ultimately obtain c where c: "c \<in> set (ab_artifacts db)" "same_session c b" "ra_logical_id c = ra_logical_id b"
    "ra_version c = ra_version a + 1" "ra_version c \<noteq> 1"
    using earlier_version [OF assms(2,4), of "ra_version a + 1"] by auto
  then obtain p where p: "p \<in> set (ab_artifacts db)" "follows c p" using assms(2) by (auto simp: history_ok_def)
  have "p = a"
    using p c assms by (intro same_version [OF assms(1)]) (auto simp: follows_def same_session_def)
  then show False using assms(2,3,7) c(1) p(2) by (auto simp: history_ok_def)
qed

text \<open>C5. Every artifact that the commits reach is valid content under the hash of that content; it is the
  first version, or the successor of a superseded one of the same logical artifact, kind and session; an
  artifact is superseded exactly when a successor exists; and a logical artifact has at most one version
  in force, so histories never fork.\<close>

theorem artifact_histories:
  assumes "artifacts_reachable db" "a \<in> set (ab_artifacts db)"
  shows "validate_artifact a = Inr a \<and> ra_content_hash a = artifact_digest a \<and>
    (ra_version a = 1 \<and> ra_supersedes_id a = None \<or>
     (\<exists>p \<in> set (ab_artifacts db). follows a p \<and> ra_status p = SUPERSEDED)) \<and>
    (ra_status a = SUPERSEDED \<longleftrightarrow> (\<exists>b \<in> set (ab_artifacts db). follows b a)) \<and>
    (\<forall>b \<in> set (ab_artifacts db). same_session a b \<and> ra_logical_id a = ra_logical_id b \<and>
       ra_status a \<noteq> SUPERSEDED \<and> ra_status b \<noteq> SUPERSEDED \<longrightarrow> a = b)"
proof -
  have wf: "rows_ok db" "history_ok (ab_artifacts db)"
    using artifacts_reachable_wf [OF assms(1)] by (simp_all add: transaction_wf_def artifact_wf_def)
  have valid: "validate_artifact a = Inr a" using wf(1) assms(2) by (simp add: rows_ok_def)
  have "valid_revision (ra_version a) (ra_supersedes_id a)"
    using wf(1) assms(2) by (auto simp: rows_ok_def artifact_row_check_def split: if_splits)
  then have "ra_version a = 1 \<and> ra_supersedes_id a = None \<or>
      (\<exists>p \<in> set (ab_artifacts db). follows a p \<and> ra_status p = SUPERSEDED)"
  proof (cases "ra_version a = 1")
    case False
    then obtain p where "p \<in> set (ab_artifacts db)" "follows a p" using wf(2) assms(2) by (auto simp: history_ok_def)
    with wf(2) assms(2) show ?thesis by (auto simp: history_ok_def)
  qed (simp add: valid_revision_def)
  moreover have "a = b" if b: "b \<in> set (ab_artifacts db)" "same_session a b" "ra_logical_id a = ra_logical_id b"
      "ra_status a \<noteq> SUPERSEDED" "ra_status b \<noteq> SUPERSEDED" for b
    using same_version [OF wf(1) assms(2) b(1-3)] newest_unsuperseded [OF wf assms(2) b(1-4)]
      newest_unsuperseded [OF wf b(1) assms(2) _ b(3) [symmetric] b(5)] b(2) by (auto simp: same_session_def)
  ultimately show ?thesis
    using valid wf(2) assms(2) by (auto simp: validate_artifact_iff history_ok_def)
qed

theorem artifact_histories_witness:
  "\<exists>l. ra_content_hash sample_two = artifact_digest sample_two \<and> (\<exists>p \<in> set (ab_artifacts (sample_revised l)). follows sample_two p)"
proof -
  obtain l1 l2 l3 where "artifacts_reachable (sample_revised l2)" using sample_history .
  then show ?thesis using artifact_histories [of "sample_revised l2" sample_two] by (auto simp: sample_revised_def)
qed

text \<open>C11. Whatever transactions run, the rows of artifacts stay with their content and their hash: only the
  status of an active artifact changes, once, and the time of its update never moves back. Nodes, edges
  and ledger events are only ever added.\<close>

theorem content_immutable:
  assumes "artifacts_reachable db" "list_all (list_all write_valid) wss" "efold artifact_transaction db wss = Inr db'"
  shows "\<exists>olds news. ab_artifacts db' = olds @ news \<and>
    list_all2 (\<lambda>a b. content_of b = content_of a \<and> ra_content_hash b = artifact_digest a \<and>
      (ra_status a \<noteq> ACTIVE \<longrightarrow> ra_status b = ra_status a) \<and> \<not> dt_less (ra_updated_at b) (ra_updated_at a))
      (ab_artifacts db) olds \<and>
    prefix (ab_nodes db) (ab_nodes db') \<and> prefix (ab_edges db) (ab_edges db') \<and>
    prefix (lg_events (ab_ledger db)) (lg_events (ab_ledger db'))"
proof -
  have "artifacts_reachable db' \<and> evolves db db'"
    using assms
  proof (induction wss arbitrary: db)
    case (Cons ws wss)
    then obtain d where d: "artifact_transaction db ws = Inr d" "efold artifact_transaction d wss = Inr db'"
      by (auto simp: result_simps)
    have "artifacts_reachable d" using Cons.prems d(1) by (auto intro: artifacts_reachable.transaction)
    moreover have "evolves db d"
      using transaction_wf_step [of db ws d] artifacts_reachable_wf [OF Cons.prems(1)] Cons.prems(2) d(1) by simp
    ultimately show ?case using Cons.IH [of d] Cons.prems(2) d(2) by (auto intro: evolves_trans)
  qed simp
  then obtain olds news where r: "artifacts_reachable db'" "ab_artifacts db' = olds @ news"
    "list_all2 row_evolves (ab_artifacts db) olds"
    and more: "prefix (ab_nodes db) (ab_nodes db')" "prefix (ab_edges db) (ab_edges db')"
      "prefix (lg_events (ab_ledger db)) (lg_events (ab_ledger db'))"
    by (auto simp: evolves_def prefix_def)
  have "ra_content_hash a = artifact_digest a" if "a \<in> set (ab_artifacts db)" for a
    using artifacts_reachable_wf [OF assms(1)] that
    by (auto simp: transaction_wf_def artifact_wf_def rows_ok_def validate_artifact_iff)
  moreover have "ra_content_hash b = ra_content_hash a" if "content_of b = content_of a" for a b
    using arg_cong [OF that, of ra_content_hash] by (simp add: content_of_def)
  ultimately have "list_all2 (\<lambda>a b. content_of b = content_of a \<and> ra_content_hash b = artifact_digest a \<and>
      (ra_status a \<noteq> ACTIVE \<longrightarrow> ra_status b = ra_status a) \<and> \<not> dt_less (ra_updated_at b) (ra_updated_at a))
      (ab_artifacts db) olds"
    using r(3) unfolding list_all2_conv_all_nth row_evolves_def by (metis nth_mem)
  with r(2) more show ?thesis by blast
qed

theorem content_immutable_witness:
  "\<exists>l l'. artifact_transaction (sample_committed l) [sample_revise] = Inr (sample_revised l') \<and>
     prefix (lg_events l) (lg_events l')"
proof -
  obtain l1 l2 l3 where h: "artifacts_reachable (sample_committed l1)"
    "artifact_transaction (sample_committed l1) [sample_revise] = Inr (sample_revised l2)"
    using sample_history .
  then have "prefix (lg_events (ab_ledger (sample_committed l1))) (lg_events (ab_ledger (sample_revised l2)))"
    using content_immutable [OF h(1), of "[[sample_revise]]" "sample_revised l2"] by auto
  with h(2) show ?thesis by (auto simp: sample_committed_def sample_revised_def)
qed

subsection \<open>The graph of the artifacts\<close>

lemma graph_nth:
  assumes "graph_ok db" "i < length (ab_artifacts db)"
  shows "node_of (ab_artifacts db ! i) (ab_nodes db ! i)" "i < length (ab_nodes db)"
  using assms by (auto simp: graph_ok_def list_all2_conv_all_nth)

lemma refers_nth:
  assumes "graph_ok db" "distinct (map ra_id (ab_artifacts db))" "refers (ab_nodes db) ws s node (ra_id (ab_artifacts db ! i))"
    "i < length (ab_artifacts db)"
  shows "node = gn_id (ab_nodes db ! i)"
proof -
  obtain k where k: "k < length (ab_nodes db)" "gn_id (ab_nodes db ! k) = node" "gn_ref_id (ab_nodes db ! k) = ra_id (ab_artifacts db ! i)"
    using assms(3) by (auto simp: refers_def in_set_conv_nth)
  have "length (ab_nodes db) = length (ab_artifacts db)" using assms(1) by (auto simp: graph_ok_def dest: list_all2_lengthD)
  then have "ra_id (ab_artifacts db ! k) = ra_id (ab_artifacts db ! i)" "k < length (ab_artifacts db)"
    using graph_nth(1) [OF assms(1), of k] k by (auto simp: node_of_def)
  with assms(2,4) have "k = i" by (auto simp: distinct_conv_nth)
  with k(2) show ?thesis by simp
qed


lemma list_all2_right: "list_all2 P xs ys \<Longrightarrow> y \<in> set ys \<Longrightarrow> \<exists>x \<in> set xs. P x y"
  by (induction rule: list_all2_induct) auto

lemma edge_indices:
  assumes "graph_ok db" "distinct (map ra_id (ab_artifacts db))" "e \<in> set (ab_edges db)"
  obtains i j where "i < length (ab_artifacts db)" "j < i" "ge_from_node e = gn_id (ab_nodes db ! i)"
    "ge_to_node e = gn_id (ab_nodes db ! j)" "(ge_edge_type e, ra_id (ab_artifacts db ! j)) \<in> set (links (ab_artifacts db ! i))"
proof -
  let ?as = "ab_artifacts db"
  have "list_all2 (edge_of (ab_nodes db)) (all_links ?as) (ab_edges db)" using assms(1) by (simp add: graph_ok_def)
  from list_all2_right [OF this assms(3)] obtain l where l: "l \<in> set (all_links ?as)" "edge_of (ab_nodes db) l e" by blast
  from l(1) obtain a where a: "a \<in> set ?as" "fst l = a" "snd l \<in> set (links a)" by (auto simp: all_links_def)
  then obtain i where "i < length ?as" "?as ! i = a" by (auto simp: in_set_conv_nth)
  note i = a(2,3) this
  then have "snd l \<in> set (links (?as ! i))" by simp
  moreover have "links_earlier ?as" using assms(1) by (simp add: graph_ok_def)
  ultimately obtain j where j: "j < i" "ra_id (?as ! j) = snd (snd l)"
    using i(3) unfolding links_earlier_def by blast
  have r: "refers (ab_nodes db) (ra_workspace_id a) (ra_session_id a) (ge_from_node e) (ra_id (?as ! i))"
    "refers (ab_nodes db) (ra_workspace_id a) (ra_session_id a) (ge_to_node e) (ra_id (?as ! j))"
    using l(2) i j by (simp_all add: edge_of_def Let_def)
  have "ge_from_node e = gn_id (ab_nodes db ! i)" "ge_to_node e = gn_id (ab_nodes db ! j)"
    using refers_nth [OF assms(1,2) r(1) i(3)] refers_nth [OF assms(1,2) r(2)] i(3) j(1) by simp_all
  moreover have "(ge_edge_type e, ra_id (?as ! j)) \<in> set (links (?as ! i))"
    using l(2) i j by (simp add: edge_of_def Let_def)
  ultimately show ?thesis using that i j by blast
qed




lemma node_for_artifact_nth:
  assumes "graph_ok db" "distinct (map ra_id (ab_artifacts db))" "i < length (ab_artifacts db)" "a = ab_artifacts db ! i"
  shows "node_for_artifact db (ra_workspace_id a) (ra_session_id a) (ra_id a) = Some (ab_nodes db ! i)"
proof -
  have n: "node_of a (ab_nodes db ! i)" "i < length (ab_nodes db)" using graph_nth [OF assms(1,3)] assms(4) by simp_all
  have len: "length (ab_nodes db) = length (ab_artifacts db)" using assms(1) by (auto simp: graph_ok_def dest: list_all2_lengthD)
  have "gn_ref_id (ab_nodes db ! j) \<noteq> ra_id a" if "j < i" for j
    using graph_nth(1) [OF assms(1), of j] that assms(2-4) by (auto simp: node_of_def distinct_conv_nth)
  with n show ?thesis
    unfolding node_for_artifact_def find_Some_iff by (intro exI [of _ i]) (auto simp: node_of_def)
qed

lemma graph_position:
  assumes "distinct (map gn_id ns)" "i < length ns"
  shows "length (takeWhile (\<lambda>n. gn_id n \<noteq> gn_id (ns ! i)) ns) = i"
  using assms
proof (induction ns arbitrary: i)
  case (Cons n ns)
  then show ?case by (cases i) auto
qed simp



lemma edges_acyclic:
  assumes "artifacts_reachable db"
  shows "acyclic ((\<lambda>e. (ge_from_node e, ge_to_node e)) ` set (ab_edges db))"
proof -
  have g: "graph_ok db" "distinct (map ra_id (ab_artifacts db))" "distinct (map gn_id (ab_nodes db))"
    using artifacts_reachable_wf [OF assms] by (simp_all add: transaction_wf_def artifact_wf_def rows_ok_def graph_ok_def)
  define pos where "pos x = length (takeWhile (\<lambda>n. gn_id n \<noteq> x) (ab_nodes db))" for x
  have "(\<lambda>e. (ge_from_node e, ge_to_node e)) ` set (ab_edges db) \<subseteq> (measure pos)\<inverse>"
  proof
    fix x assume "x \<in> (\<lambda>e. (ge_from_node e, ge_to_node e)) ` set (ab_edges db)"
    then obtain e where e: "e \<in> set (ab_edges db)" "x = (ge_from_node e, ge_to_node e)" by auto
    from g(1,2) e(1) obtain i j where "i < length (ab_artifacts db)" "j < i" "ge_from_node e = gn_id (ab_nodes db ! i)"
      "ge_to_node e = gn_id (ab_nodes db ! j)" by (rule edge_indices)
    then show "x \<in> (measure pos)\<inverse>"
      using graph_position [OF g(3)] graph_nth(2) [OF g(1)] e(2) by (simp add: pos_def)
  qed
  moreover have "acyclic ((measure pos)\<inverse>)" by (simp add: wf_acyclic)
  ultimately show ?thesis by (rule acyclic_subset [rotated])
qed

text \<open>C26. Every edge leads from the node of an artifact to the node of one committed before it (the rows of
  \<open>ab_artifacts\<close> stand in the order of their commits), so the graph has no cycle and a trace of the reasons of
  an artifact ends.\<close>

theorem reasoning_graph_acyclic:
  assumes "artifacts_reachable db"
  shows "(\<forall>e \<in> set (ab_edges db). \<exists>i j n m. j < i \<and> i < length (ab_artifacts db) \<and>
      (let a = ab_artifacts db ! i; b = ab_artifacts db ! j in
       node_for_artifact db (ra_workspace_id a) (ra_session_id a) (ra_id a) = Some n \<and> ge_from_node e = gn_id n \<and>
       node_for_artifact db (ra_workspace_id b) (ra_session_id b) (ra_id b) = Some m \<and> ge_to_node e = gn_id m)) \<and>
    acyclic ((\<lambda>e. (ge_from_node e, ge_to_node e)) ` set (ab_edges db))"
proof (intro conjI ballI edges_acyclic [OF assms])
  have g: "graph_ok db" "distinct (map ra_id (ab_artifacts db))"
    using artifacts_reachable_wf [OF assms] by (simp_all add: transaction_wf_def artifact_wf_def rows_ok_def)
  fix e assume "e \<in> set (ab_edges db)"
  with g obtain i j where ij: "i < length (ab_artifacts db)" "j < i" "ge_from_node e = gn_id (ab_nodes db ! i)"
    "ge_to_node e = gn_id (ab_nodes db ! j)" by (rule edge_indices)
  then show "\<exists>i j n m. j < i \<and> i < length (ab_artifacts db) \<and>
      (let a = ab_artifacts db ! i; b = ab_artifacts db ! j in
       node_for_artifact db (ra_workspace_id a) (ra_session_id a) (ra_id a) = Some n \<and> ge_from_node e = gn_id n \<and>
       node_for_artifact db (ra_workspace_id b) (ra_session_id b) (ra_id b) = Some m \<and> ge_to_node e = gn_id m)"
    using node_for_artifact_nth [OF g ij(1) refl] node_for_artifact_nth [OF g order.strict_trans [OF ij(2,1)] refl]
    unfolding Let_def by blast
qed

theorem reasoning_graph_acyclic_witness:
  "\<exists>l. artifacts_reachable (sample_revised l) \<and> map (\<lambda>e. (ge_from_node e, ge_to_node e)) (ab_edges (sample_revised l)) \<noteq> [] \<and>
     (\<forall>e \<in> set (ab_edges (sample_revised l)). \<exists>n m. node_for_artifact (sample_revised l) 1 2 6 = Some n \<and>
        node_for_artifact (sample_revised l) 1 2 5 = Some m \<and> ge_from_node e = gn_id n \<and> ge_to_node e = gn_id m) \<and>
     acyclic ((\<lambda>e. (ge_from_node e, ge_to_node e)) ` set (ab_edges (sample_revised l)))"
proof -
  obtain l1 l2 l3 where r: "artifacts_reachable (sample_revised l2)" using sample_history .
  have two: "length (ab_artifacts (sample_revised l2)) = 2" "ab_artifacts (sample_revised l2) ! 1 = sample_two"
    "ab_artifacts (sample_revised l2) ! 0 = sample_one\<lparr>ra_status := SUPERSEDED\<rparr>" "ab_edges (sample_revised l2) \<noteq> []"
    by (simp_all add: sample_revised_def)
  have ids: "ra_workspace_id sample_two = 1" "ra_session_id sample_two = 2" "ra_id sample_two = 6"
    "ra_workspace_id sample_one = 1" "ra_session_id sample_one = 2" "ra_id sample_one = 5"
    by simp_all
  note a = reasoning_graph_acyclic [OF r]
  have "\<exists>n m. node_for_artifact (sample_revised l2) 1 2 6 = Some n \<and>
      node_for_artifact (sample_revised l2) 1 2 5 = Some m \<and> ge_from_node e = gn_id n \<and> ge_to_node e = gn_id m"
    if "e \<in> set (ab_edges (sample_revised l2))" for e
  proof -
    from conjunct1 [OF a] that obtain i j n m where x: "j < i" "i < length (ab_artifacts (sample_revised l2))"
      "let a = ab_artifacts (sample_revised l2) ! i; b = ab_artifacts (sample_revised l2) ! j in
       node_for_artifact (sample_revised l2) (ra_workspace_id a) (ra_session_id a) (ra_id a) = Some n \<and> ge_from_node e = gn_id n \<and>
       node_for_artifact (sample_revised l2) (ra_workspace_id b) (ra_session_id b) (ra_id b) = Some m \<and> ge_to_node e = gn_id m"
      by blast
    then have "i = 1" "j = 0" using two(1) by simp_all
    with x(3) show ?thesis using two(2,3) ids by (simp add: Let_def)
  qed
  with a r two(4) show ?thesis by auto
qed

subsection \<open>The ledger of the artifacts\<close>

lemma reachable_ledger: "artifacts_reachable db \<Longrightarrow> ledger_wf (ab_ledger db)"
  using artifacts_reachable_wf [of db] by (simp add: transaction_wf_def artifact_wf_def)

text \<open>C27. No artifact without its record: every artifact that the commits reach has the event of its commit or
  of its revision in the ledger of its session, and a withdrawn one the event of its withdrawal with a
  reason and warrants; the events carry the artifact's identifiers, kind and version.\<close>

theorem artifacts_are_recorded:
  assumes "artifacts_reachable db" "a \<in> set (ab_artifacts db)"
  shows "(\<exists>x \<in> set (lg_events (ab_ledger db)). la_workspace_id x = ra_workspace_id a \<and> la_session_id x = ra_session_id a \<and>
      la_round x = ra_round a \<and>
      (la_event_type x = ustr ''ARTIFACT_COMMITTED'' \<and> ra_version a = 1 \<and> py_eq (event_payload a (commit_payload a)) (la_payload x) \<or>
       la_event_type x = ustr ''ARTIFACT_REVISED'' \<and> (\<exists>p reason. ra_supersedes_id a = Some p \<and> \<not> u_blank reason \<and>
         py_eq (event_payload a (revise_payload a p reason)) (la_payload x)))) \<and>
    (ra_status a = WITHDRAWN \<longrightarrow> (\<exists>x \<in> set (lg_events (ab_ledger db)). la_session_id x = ra_session_id a \<and>
      la_event_type x = ustr ''ARTIFACT_WITHDRAWN'' \<and> (\<exists>reason warrants. \<not> u_blank reason \<and> warrants \<noteq> [] \<and>
        py_eq (event_payload a (withdraw_payload a reason warrants)) (la_payload x))))"
proof -
  have r: "recorded (lg_events (ab_ledger db)) a"
    using artifacts_reachable_wf [OF assms(1)] assms(2) by (simp add: all_recorded_def list_all_iff)
  have "ra_version a = 1 \<or> (\<exists>p. ra_supersedes_id a = Some p)"
    using artifacts_reachable_wf [OF assms(1)] assms(2)
    by (auto simp: transaction_wf_def artifact_wf_def history_ok_def follows_def)
  with r show ?thesis unfolding recorded_def records_def list_ex_iff by (cases "ra_version a = 1") blast+
qed

theorem artifacts_are_recorded_witness:
  "\<exists>l. \<exists>x \<in> set (lg_events l). la_event_type x = ustr ''ARTIFACT_WITHDRAWN'' \<and>
     sample_two\<lparr>ra_status := WITHDRAWN\<rparr> \<in> set (ab_artifacts (sample_withdrawn l))"
proof -
  obtain l1 l2 l3 where "artifacts_reachable (sample_withdrawn l3)" using sample_history .
  then have "\<exists>x \<in> set (lg_events l3). la_event_type x = ustr ''ARTIFACT_WITHDRAWN''"
    using artifacts_are_recorded [of "sample_withdrawn l3" "sample_two\<lparr>ra_status := WITHDRAWN\<rparr>"]
    by (auto simp: sample_withdrawn_def sample_revised_def)
  then show ?thesis by (auto simp: sample_withdrawn_def)
qed

subsection \<open>The operations of the service\<close>

lemma find_map_status: "find (\<lambda>a. in_session a ws s \<and> ra_id a = j) (map (set_status i st t) as) =
    map_option (set_status i st t) (find (\<lambda>a. in_session a ws s \<and> ra_id a = j) as)"
  by (induction as) (simp_all add: in_session_def)

lemma artifact_event_time: "artifact_event a cx ty p = Inr e \<Longrightarrow> datetime_valid (ec_recorded_at cx)"
  by (auto simp: artifact_event_def Let_def result_simps LedgerAppend_valid_def)

lemma find_append_other: "\<not> P y \<Longrightarrow> find P (xs @ [y]) = find P xs"
  by (induction xs) auto

text \<open>A committed artifact is read back as it was committed, its node carries the label, and the event
  returned is the one in the ledger; the rest of the tables is as before.\<close>

theorem committed_roundtrip:
  assumes "artifacts_reachable db" "validate_artifact a = Inr a" "commit_artifact db a node_id edge_ids label cx = Inr (db', r)"
  shows "get_for_update db' (ra_workspace_id a) (ra_session_id a) (ra_id a) = Inr (Some a) \<and>
    (\<exists>n. node_for_artifact db' (ra_workspace_id a) (ra_session_id a) (ra_id a) = Some n \<and> gn_id n = node_id) \<and>
    aw_artifact r = a \<and> aw_event r \<in> set (lg_events (ab_ledger db')) \<and>
    (\<forall>ws s i. i \<noteq> ra_id a \<longrightarrow> artifact_row db' ws s i = artifact_row db ws s i)"
proof -
  have wf: "artifact_wf db" "ledger_wf (ab_ledger db)" "graph_ok db" "rows_ok db"
    using artifacts_reachable_wf [OF assms(1)] by (simp_all add: transaction_wf_def artifact_wf_def)
  from assms(3) obtain n es e l x where c: "gn_id n = node_id" "inserted db a n es"
    "artifact_event a cx ''ARTIFACT_COMMITTED'' (commit_payload a) = Inr e"
    "ledger_append (ab_ledger db) e = Inr (l, x)" "r = \<lparr>aw_artifact = a, aw_event = x\<rparr>"
    "db' = db\<lparr>ab_ledger := l, ab_artifacts := ab_artifacts db @ [a], ab_nodes := ab_nodes db @ [n], ab_edges := ab_edges db @ es\<rparr>"
    by (rule commit_effect)
  have x: "x \<in> set (lg_events l)" by (rule append_prefix(2) [OF wf(2) artifact_event_valid [OF c(3), THEN conjunct1] c(4)])
  have ids: "distinct (map ra_id (ab_artifacts db'))" "graph_ok db'"
    using wf(4) c(2) insert_graph_ok [OF wf(3) c(2)] by (simp_all add: rows_ok_def inserted_def c(6) graph_ok_def)
  have "artifact_row db' (ra_workspace_id a) (ra_session_id a) (ra_id a) = Some a"
    using ids(1) by (simp add: artifact_row_eq c(6) in_session_def)
  moreover have len: "length (ab_nodes db) = length (ab_artifacts db)" using wf(3) by (auto simp: graph_ok_def dest: list_all2_lengthD)
  have new: "a = ab_artifacts db' ! length (ab_artifacts db)" "ab_nodes db' ! length (ab_artifacts db) = n"
    using len by (simp_all add: c(6) nth_append)
  have "length (ab_artifacts db) < length (ab_artifacts db')" by (simp add: c(6))
  from node_for_artifact_nth [OF ids(2,1) this new(1)]
  have "node_for_artifact db' (ra_workspace_id a) (ra_session_id a) (ra_id a) = Some n" by (simp only: new(2))
  moreover have "artifact_row db' ws s i = artifact_row db ws s i" if "i \<noteq> ra_id a" for ws s i
    using that by (simp add: artifact_row_def c(6) find_append_other)
  ultimately show ?thesis using x c(1,5,6) assms(2) by (simp add: get_for_update_def)
qed

theorem committed_roundtrip_witness:
  "\<exists>db r. commit_artifact sample_empty sample_one 11 [] (ustr ''x'') (sample_context 21) = Inr (db, r) \<and>
     get_for_update db 1 2 5 = Inr (Some sample_one) \<and> aw_event r \<in> set (lg_events (ab_ledger db))"
proof -
  have s: "sample_session sample_start {}"
    using reachable_wf [OF sample_start_reachable]
    by (simp add: sample_session_def sample_start_def sample_head_def empty_ledger_def)
  from sample_commit_run [OF s] obtain l r where c: "commit_artifact sample_empty sample_one 11 [] (ustr ''x'') (sample_context 21) =
      Inr (sample_committed l, r)" by (auto simp: sample_empty_def empty_artifacts_def)
  have "get_for_update (sample_committed l) 1 2 5 = Inr (Some sample_one)" "aw_event r \<in> set (lg_events (ab_ledger (sample_committed l)))"
    using committed_roundtrip [OF sample_empty_reachable _ c] by simp_all
  with c show ?thesis by blast
qed

text \<open>C28. A revision succeeds only on the active artifact it names as predecessor, of the same logical artifact
  and kind and one version below; it supersedes that artifact and adds the new version in force, linked to
  it by a supersession edge. Revising the same predecessor again is refused.\<close>

theorem revision_takes_over:
  assumes "artifacts_reachable db" "validate_artifact a = Inr a"
    "revise_artifact db a node_id edge_id edge_ids label reason cx = Inr (db', r)"
  shows "\<exists>p. ra_supersedes_id a = Some (ra_id p) \<and> artifact_row db (ra_workspace_id a) (ra_session_id a) (ra_id p) = Some p \<and>
    ra_status p = ACTIVE \<and> follows a p \<and> \<not> u_blank reason \<and>
    artifact_row db' (ra_workspace_id a) (ra_session_id a) (ra_id p) =
      Some (p\<lparr>ra_status := SUPERSEDED, ra_updated_at := ec_recorded_at cx\<rparr>) \<and>
    artifact_row db' (ra_workspace_id a) (ra_session_id a) (ra_id a) = Some a \<and> ra_status a = ACTIVE \<and>
    (\<forall>b node_id edge_id edge_ids label reason cx. ra_workspace_id b = ra_workspace_id a \<and> ra_session_id b = ra_session_id a \<and>
       ra_supersedes_id b = Some (ra_id p) \<longrightarrow>
       (\<exists>e. revise_artifact db' b node_id edge_id edge_ids label reason cx = Inl e))"
proof -
  have wf: "rows_ok db" "ledger_wf (ab_ledger db)" "artifact_wf db"
    using artifacts_reachable_wf [OF assms(1)] by (simp_all add: transaction_wf_def artifact_wf_def)
  from wf(1) assms(3) obtain p n es e l x where c: "p \<in> set (ab_artifacts db)" "ra_status p = ACTIVE" "follows a p" "ra_status a = ACTIVE"
    "inserted db a n es" "artifact_event a cx ''ARTIFACT_REVISED'' (revise_payload a (ra_id p) reason) = Inr e"
    "ledger_append (ab_ledger db) e = Inr (l, x)"
    "db' = db\<lparr>ab_ledger := l, ab_artifacts := map (set_status (ra_id p) SUPERSEDED (ec_recorded_at cx)) (ab_artifacts db) @ [a],
       ab_nodes := ab_nodes db @ [n], ab_edges := ab_edges db @ es\<rparr>"
    by (rule revise_effect)
  have valid: "write_valid (Revise a node_id edge_id edge_ids label reason cx)"
    using assms(2) artifact_event_time [OF c(6)] by simp
  have wf': "rows_ok db'"
    using perform_wf [of db "Revise a node_id edge_id edge_ids label reason cx" db' r] wf(3) assms(3) valid
    by (simp add: artifact_wf_def)
  have ids: "distinct (map ra_id (ab_artifacts db'))" using wf' by (simp add: rows_ok_def)
  have s: "in_session p (ra_workspace_id a) (ra_session_id a)" using c(3) by (simp add: follows_def in_session_def same_session_def)
  let ?q = "p\<lparr>ra_status := SUPERSEDED, ra_updated_at := ec_recorded_at cx\<rparr>"
  have "?q \<in> set (ab_artifacts db')" using c(1) by (auto simp: c(8) set_status_def image_iff)
  then have q: "artifact_row db' (ra_workspace_id a) (ra_session_id a) (ra_id p) = Some ?q"
    using ids s by (simp add: artifact_row_eq in_session_def)
  have "artifact_row db' (ra_workspace_id a) (ra_session_id a) (ra_id a) = Some a"
    using ids by (simp add: artifact_row_eq c(8) in_session_def)
  moreover have "artifact_row db (ra_workspace_id a) (ra_session_id a) (ra_id p) = Some p"
    using wf(1) c(1) s by (simp add: artifact_row_eq rows_ok_def)
  moreover have "\<not> u_blank reason"
    using assms(3) by (auto simp: revise_artifact_def revision_checked_def result_simps split: option.splits)
  moreover have "\<exists>e. revise_artifact db' b node_id edge_id edge_ids label reason cx = Inl e"
    if b: "ra_workspace_id b = ra_workspace_id a" "ra_session_id b = ra_session_id a" "ra_supersedes_id b = Some (ra_id p)"
    for b node_id edge_id edge_ids label reason cx
  proof (cases "revision_checked db' b edge_ids reason")
    case (Inr y)
    then show ?thesis using q b by (auto simp: revision_checked_def rows_ok_get [OF wf'] result_simps)
  qed (simp add: revise_artifact_def)
  ultimately show ?thesis using q c(2-4) by (intro exI [of _ p]) (auto simp: follows_def)
qed

theorem revision_takes_over_witness:
  "\<exists>l. artifact_row (sample_revised l) 1 2 6 = Some sample_two \<and>
     (\<exists>e. revise_artifact (sample_revised l) (sample_artifact 8 2 (Some 5)) 14 15 [] (ustr ''x'') (ustr ''x'') (sample_context 24) = Inl e)"
proof -
  obtain l1 l2 l3 where h: "artifacts_reachable (sample_committed l1)"
    "artifact_transaction (sample_committed l1) [sample_revise] = Inr (sample_revised l2)" using sample_history .
  from h(2) obtain r where "revise_artifact (sample_committed l1) sample_two 12 13 [] (ustr ''x'') (ustr ''x'') (sample_context 22) =
      Inr (sample_revised l2, r)" by (auto simp: artifact_transaction_def result_simps)
  from revision_takes_over [OF h(1) _ this] show ?thesis by auto
qed

text \<open>A withdrawal succeeds only on an active artifact, with a reason that is not blank and at least one
  warrant, all different and known to the session's graph; it withdraws that artifact and leaves every
  other one, the nodes and the edges as they are. A withdrawn artifact is never revised or withdrawn again.\<close>

theorem withdrawal_is_final:
  assumes "artifacts_reachable db" "datetime_valid (ec_recorded_at cx)" "withdraw_artifact db ws s i reason warrants cx = Inr (db', r)"
  shows "\<exists>a. artifact_row db ws s i = Some a \<and> ra_status a = ACTIVE \<and> \<not> u_blank reason \<and> warrants \<noteq> [] \<and> distinct warrants \<and>
    (\<forall>w \<in> set warrants. node_for_artifact db ws s w \<noteq> None) \<and>
    artifact_row db' ws s i = Some (a\<lparr>ra_status := WITHDRAWN, ra_updated_at := ec_recorded_at cx\<rparr>) \<and>
    (\<forall>ws s j. j \<noteq> i \<longrightarrow> artifact_row db' ws s j = artifact_row db ws s j) \<and>
    ab_nodes db' = ab_nodes db \<and> ab_edges db' = ab_edges db \<and>
    (\<forall>reason warrants cx. \<exists>e. withdraw_artifact db' ws s i reason warrants cx = Inl e) \<and>
    (\<forall>b node_id edge_id edge_ids label reason cx. in_session b ws s \<and> ra_supersedes_id b = Some i \<longrightarrow>
       (\<exists>e. revise_artifact db' b node_id edge_id edge_ids label reason cx = Inl e))"
proof -
  have wf: "rows_ok db" "artifact_wf db"
    using artifacts_reachable_wf [OF assms(1)] by (simp_all add: transaction_wf_def artifact_wf_def)
  from wf(1) assms(3) obtain a e l x where c: "a \<in> set (ab_artifacts db)" "in_session a ws s" "ra_id a = i" "ra_status a = ACTIVE"
    "\<not> u_blank reason" "warrants \<noteq> []" "distinct warrants" "\<forall>w \<in> set warrants. node_for_artifact db ws s w \<noteq> None"
    "db' = db\<lparr>ab_ledger := l, ab_artifacts := map (set_status i WITHDRAWN (ec_recorded_at cx)) (ab_artifacts db)\<rparr>"
    by (rule withdraw_effect)
  have wf': "rows_ok db'"
    using perform_wf [of db "Withdraw ws s i reason warrants cx" db' r] wf(2) assms(2,3) by (simp add: artifact_wf_def)
  have row: "artifact_row db ws s i = Some a" using wf(1) c(1-3) by (simp add: artifact_row_eq rows_ok_def)
  have row': "artifact_row db' ws s j = map_option (set_status i WITHDRAWN (ec_recorded_at cx)) (artifact_row db ws s j)" for ws s j
    by (simp add: artifact_row_def c(9) find_map_status)
  have q: "artifact_row db' ws s i = Some (a\<lparr>ra_status := WITHDRAWN, ra_updated_at := ec_recorded_at cx\<rparr>)"
    using row c(3) by (simp add: row' set_status_def)
  have "artifact_row db' ws s j = artifact_row db ws s j" if "j \<noteq> i" for ws s j
    using that by (cases "artifact_row db ws s j") (auto simp: row' set_status_def dest: artifact_row_iff)
  moreover have "\<exists>e. withdraw_artifact db' ws s i reason warrants cx = Inl e" for reason warrants cx
  proof (cases "withdrawal_checked db' ws s i reason warrants")
    case (Inr y)
    then show ?thesis using q by (auto simp: withdrawal_checked_def rows_ok_get [OF wf'] result_simps)
  qed (simp add: withdraw_artifact_def)
  moreover have "\<exists>e. revise_artifact db' b node_id edge_id edge_ids label reason cx = Inl e"
    if "in_session b ws s" "ra_supersedes_id b = Some i" for b node_id edge_id edge_ids label reason cx
  proof (cases "revision_checked db' b edge_ids reason")
    case (Inr y)
    then show ?thesis using q that by (auto simp: revision_checked_def rows_ok_get [OF wf'] result_simps in_session_def)
  qed (simp add: revise_artifact_def)
  ultimately show ?thesis using row c(4-8) q by (intro exI [of _ a]) (simp add: c(9))
qed

theorem withdrawal_is_final_witness:
  "\<exists>l. artifact_row (sample_withdrawn l) 1 2 6 = Some (sample_two\<lparr>ra_status := WITHDRAWN\<rparr>) \<and>
     (\<exists>e. withdraw_artifact (sample_withdrawn l) 1 2 6 (ustr ''x'') [5] (sample_context 24) = Inl e)"
proof -
  obtain l1 l2 l3 where h: "artifacts_reachable (sample_revised l2)"
    "artifact_transaction (sample_revised l2) [sample_withdraw] = Inr (sample_withdrawn l3)" using sample_history .
  from h(2) obtain r where w: "withdraw_artifact (sample_revised l2) 1 2 6 (ustr ''x'') [5] (sample_context 23) =
      Inr (sample_withdrawn l3, r)" by (auto simp: artifact_transaction_def result_simps)
  have "artifact_row (sample_withdrawn l3) 1 2 6 = Some (sample_two\<lparr>ra_status := WITHDRAWN\<rparr>)"
    by (simp add: artifact_row_def sample_withdrawn_def in_session_def)
  with withdrawal_is_final [OF h(1) _ w] show ?thesis by auto
qed

subsection \<open>What a content hash identifies\<close>

lemma jobj_values:
  assumes "normal (jobj xs) = normal (jobj ys)" "map fst xs = map fst ys" "distinct (map (ustr \<circ> fst) xs)"
  shows "map (normal \<circ> snd) xs = map (normal \<circ> snd) ys"
proof -
  have k: "map fst (map (map_prod ustr (\<lambda>v. v)) xs) = map (ustr \<circ> fst) xs" for xs :: "(string \<times> json) list"
    by simp
  have "map (ustr \<circ> fst) xs = map (ustr \<circ> fst) ys" using arg_cong [OF assms(2), of "map ustr"] by simp
  then have "map (\<lambda>kv. normal (snd kv)) (map (map_prod ustr (\<lambda>v. v)) xs) = map (\<lambda>kv. normal (snd kv)) (map (map_prod ustr (\<lambda>v. v)) ys)"
    using assms(1,3) unfolding jobj_def by (intro normal_obj_values) (simp_all only: k)
  then show ?thesis by (simp add: comp_def)
qed

lemma jobj_keys:
  assumes "normal (jobj xs) = normal (jobj ys)"
  shows "fst ` set xs = fst ` set ys"
proof -
  have "ustr ` fst ` set xs = ustr ` fst ` set ys"
    using arg_cong [OF assms, of "\<lambda>j. case j of JObj ms \<Rightarrow> fst ` set ms | _ \<Rightarrow> {}"]
    by (simp add: jobj_def normal_obj image_image)
  moreover have "inj ustr" using ustr_inj by (auto intro: injI)
  ultimately show ?thesis by (simp add: inj_image_eq_iff)
qed

lemma normal_values [simp]:
  "normal (juuid u) = juuid u" "normal (jtext s) = jtext s" "normal (juuids us) = juuids us" "normal (jtexts ts) = jtexts ts"
  by (simp_all add: juuid_def jtext_def juuids_def jtexts_def)

lemma value_inj [simp]:
  "juuid u = juuid v \<longleftrightarrow> u = v" "jtext s = jtext t \<longleftrightarrow> s = t" "jtexts ts = jtexts ts' \<longleftrightarrow> ts = ts'"
proof -
  show "juuid u = juuid v \<longleftrightarrow> u = v" using juuid_inj [of u v] by auto
  show "jtext s = jtext t \<longleftrightarrow> s = t" using ustr_inj [of s t] by (auto simp: jtext_def)
  show "jtexts ts = jtexts ts' \<longleftrightarrow> ts = ts'" by (auto simp: jtexts_def dest: map_injective intro: injI)
qed

lemma juuids_inj [simp]: "juuids us = juuids vs \<longleftrightarrow> us = vs"
proof
  assume "juuids us = juuids vs"
  then have "map juuid us = map juuid vs" by (simp add: juuids_def)
  then show "us = vs" by (rule map_injective) (simp add: inj_def)
qed simp

lemma kind_inj [simp]: "kind_value a = kind_value b \<longleftrightarrow> a = b"
  by (cases a; cases b) simp_all

lemma enumeration_inj [simp]:
  "claim_type_value x1 = claim_type_value y1 \<longleftrightarrow> x1 = y1" "bearing_value x2 = bearing_value y2 \<longleftrightarrow> x2 = y2"
  "strength_value x3 = strength_value y3 \<longleftrightarrow> x3 = y3" "review_value x4 = review_value y4 \<longleftrightarrow> x4 = y4"
  "verification_value x5 = verification_value y5 \<longleftrightarrow> x5 = y5" "normalization_value x6 = normalization_value y6 \<longleftrightarrow> x6 = y6"
  "relation_value x7 = relation_value y7 \<longleftrightarrow> x7 = y7" "trust_value x8 = trust_value y8 \<longleftrightarrow> x8 = y8"
  "via_value x9 = via_value y9 \<longleftrightarrow> x9 = y9" "uncertainty_value x10 = uncertainty_value y10 \<longleftrightarrow> x10 = y10"
  "constraint_value x11 = constraint_value y11 \<longleftrightarrow> x11 = y11" "stance_value x12 = stance_value y12 \<longleftrightarrow> x12 = y12"
  "severity_value x13 = severity_value y13 \<longleftrightarrow> x13 = y13" "resolution_value x14 = resolution_value y14 \<longleftrightarrow> x14 = y14"
  "origin_value x15 = origin_value y15 \<longleftrightarrow> x15 = y15"
proof -
  show "claim_type_value x1 = claim_type_value y1 \<longleftrightarrow> x1 = y1" by (cases x1; cases y1) simp_all
  show "bearing_value x2 = bearing_value y2 \<longleftrightarrow> x2 = y2" by (cases x2; cases y2) simp_all
  show "strength_value x3 = strength_value y3 \<longleftrightarrow> x3 = y3" by (cases x3; cases y3) simp_all
  show "review_value x4 = review_value y4 \<longleftrightarrow> x4 = y4" by (cases x4; cases y4) simp_all
  show "verification_value x5 = verification_value y5 \<longleftrightarrow> x5 = y5" by (cases x5; cases y5) simp_all
  show "normalization_value x6 = normalization_value y6 \<longleftrightarrow> x6 = y6" by (cases x6; cases y6) simp_all
  show "relation_value x7 = relation_value y7 \<longleftrightarrow> x7 = y7" by (cases x7; cases y7) simp_all
  show "trust_value x8 = trust_value y8 \<longleftrightarrow> x8 = y8" by (cases x8; cases y8) simp_all
  show "via_value x9 = via_value y9 \<longleftrightarrow> x9 = y9" by (cases x9; cases y9) simp_all
  show "uncertainty_value x10 = uncertainty_value y10 \<longleftrightarrow> x10 = y10" by (cases x10; cases y10) simp_all
  show "constraint_value x11 = constraint_value y11 \<longleftrightarrow> x11 = y11" by (cases x11; cases y11) simp_all
  show "stance_value x12 = stance_value y12 \<longleftrightarrow> x12 = y12" by (cases x12; cases y12) simp_all
  show "severity_value x13 = severity_value y13 \<longleftrightarrow> x13 = y13" by (cases x13; cases y13) simp_all
  show "resolution_value x14 = resolution_value y14 \<longleftrightarrow> x14 = y14" by (cases x14; cases y14) simp_all
  show "origin_value x15 = origin_value y15 \<longleftrightarrow> x15 = y15" by (cases x15; cases y15) simp_all
qed

lemma critique_inj [simp]: "critique_value a = critique_value b \<longleftrightarrow> a = b"
  by (cases a; cases b) simp_all

lemma edge_type_inj [simp]: "edge_type_value a = edge_type_value b \<longleftrightarrow> a = b"
  by (cases a; cases b) simp_all

lemma jobj_eq_iff:
  assumes "map fst xs = map fst ys" "distinct (map fst xs)"
  shows "normal (jobj xs) = normal (jobj ys) \<longleftrightarrow> map (normal \<circ> snd) xs = map (normal \<circ> snd) ys"
proof
  have "distinct (map (ustr \<circ> fst) xs)"
    using assms(2) ustr_inj by (auto simp: distinct_map inj_on_def)
  then show "map (normal \<circ> snd) xs = map (normal \<circ> snd) ys" if "normal (jobj xs) = normal (jobj ys)"
    using jobj_values [OF that assms(1)] by blast
next
  assume v: "map (normal \<circ> snd) xs = map (normal \<circ> snd) ys"
  let ?n = "\<lambda>kv. (ustr (fst kv), normal (snd kv)) :: ustr \<times> json"
  have "map ?n xs = zip (map ustr (map fst xs)) (map (normal \<circ> snd) xs)" for xs :: "(string \<times> json) list"
    by (simp add: zip_map_map zip_map1 zip_map2 comp_def) (simp add: zip_same_conv_map)
  then have "map ?n xs = map ?n ys" by (simp only: assms(1) v)
  moreover have "normal (jobj zs) = JObj (sort_key (\<lambda>kv. utf16_key (fst kv)) (map ?n zs))" for zs
    by (simp add: jobj_def normal_obj sort_key_map comp_def map_prod_def case_prod_unfold)
  ultimately show "normal (jobj xs) = normal (jobj ys)" by simp
qed

lemma JList_normal_map: "normal (JList (map f xs)) = normal (JList (map g ys)) \<longleftrightarrow> map (normal \<circ> f) xs = map (normal \<circ> g) ys"
  by (simp add: comp_def)

lemma scenario_json_iff:
  "normal (scenario_json s) = normal (scenario_json t) \<longleftrightarrow>
    s\<lparr>sn_value := normal (sn_value s)\<rparr> = t\<lparr>sn_value := normal (sn_value t)\<rparr>"
  by (cases s; cases t) (simp add: scenario_json_def jobj_eq_iff)

lemma map_eq_map:
  assumes "\<And>x y. f x = f y \<longleftrightarrow> g x = g y"
  shows "map f xs = map f ys \<longleftrightarrow> map g xs = map g ys"
proof (induction xs arbitrary: ys)
  case (Cons x xs)
  then show ?case using assms by (cases ys) auto
qed auto

lemma scenarios_json_iff:
  "map (normal \<circ> scenario_json) ss = map (normal \<circ> scenario_json) ts \<longleftrightarrow>
    map (\<lambda>s. s\<lparr>sn_value := normal (sn_value s)\<rparr>) ss = map (\<lambda>s. s\<lparr>sn_value := normal (sn_value s)\<rparr>) ts"
  by (rule map_eq_map) (simp add: scenario_json_iff)

lemma expression_iff:
  "(e :: FormalExpression)\<lparr>fe_ast := normal (fe_ast e)\<rparr> = e'\<lparr>fe_ast := normal (fe_ast e')\<rparr> \<longleftrightarrow>
    fe_language e = fe_language e' \<and> normal (fe_ast e) = normal (fe_ast e')"
  by (cases e; cases e') simp

lemma key_clash: "k \<in> fst ` set xs \<Longrightarrow> k \<notin> fst ` set ys \<Longrightarrow> normal (jobj xs) \<noteq> normal (jobj ys)"
  using jobj_keys by blast

lemma payload_json_iff:
  assumes "payload_kind p = payload_kind q"
  shows "normal (payload_json p) = normal (payload_json q) \<longleftrightarrow> normal_payload p = normal_payload q"
proof (cases p)
  case (IntervalUncertaintyPayload t u ds lo hi un)
  with assms show ?thesis by (cases q) (simp_all add: jobj_eq_iff key_clash [of "''lower''"])
next
  case (DistributionUncertaintyPayload t u ds f ps un)
  with assms show ?thesis by (cases q) (simp_all add: jobj_eq_iff key_clash [of "''family''"])
next
  case (ScenariosUncertaintyPayload t u ds ss)
  with assms show ?thesis by (cases q) (simp_all add: jobj_eq_iff key_clash [of "''scenarios''"] scenarios_json_iff)
next
  case (QualitativeUncertaintyPayload t u ds l e)
  with assms show ?thesis by (cases q) (simp_all add: jobj_eq_iff key_clash [of "''level''"])
next
  case (ConstraintPayload n st ct c e f)
  with assms show ?thesis by (cases q) (auto simp: jobj_eq_iff expression_iff)
qed (use assms in \<open>cases q; simp add: jobj_eq_iff\<close>)+

lemma jopt_iff:
  assumes "\<And>x y. normal (f x) = normal (f y) \<longleftrightarrow> x = y" "\<And>x. normal (f x) \<noteq> JNull"
  shows "normal (jopt f x) = normal (jopt f y) \<longleftrightarrow> x = y"
  using assms(2) assms(2) [symmetric] by (auto simp: jopt_def assms(1) split: option.splits)

lemma jopt_uuid_iff [simp]: "normal (jopt juuid x) = normal (jopt juuid y) \<longleftrightarrow> x = y"
  by (rule jopt_iff) (simp_all, simp add: juuid_def)

lemma jopt_text_iff [simp]: "normal (jopt JStr x) = normal (jopt JStr y) \<longleftrightarrow> x = y"
  by (rule jopt_iff) simp_all

lemma provenance_json_iff: "normal (provenance_json p) = normal (provenance_json q) \<longleftrightarrow> p = q"
  by (cases p; cases q) (simp add: provenance_json_def jobj_eq_iff)

lemma confidence_json_iff: "normal (jopt confidence_json x) = normal (jopt confidence_json y) \<longleftrightarrow> x = y"
proof (rule jopt_iff)
  show "normal (confidence_json c) = normal (confidence_json d) \<longleftrightarrow> c = d" for c d
    by (cases c; cases d) (simp add: confidence_json_def jobj_eq_iff)
qed (simp add: confidence_json_def jobj_def)

lemma relationship_json_iff: "normal (relationship_json r) = normal (relationship_json s) \<longleftrightarrow> r = s"
  by (cases r; cases s) (simp add: relationship_json_def jobj_eq_iff)

lemma relationships_json_iff:
  "map (normal \<circ> relationship_json) rs = map (normal \<circ> relationship_json) ss \<longleftrightarrow> rs = ss"
  using map_eq_map [of "normal \<circ> relationship_json" "\<lambda>x. x" rs ss] by (simp add: relationship_json_iff)

lemma sources_json_iff:
  "map (normal \<circ> source_json) rs = map (normal \<circ> source_json) ss \<longleftrightarrow>
    map (\<lambda>s. s\<lparr>sr_locator := normal (sr_locator s)\<rparr>) rs = map (\<lambda>s. s\<lparr>sr_locator := normal (sr_locator s)\<rparr>) ss"
proof (rule map_eq_map)
  show "(normal \<circ> source_json) r = (normal \<circ> source_json) s \<longleftrightarrow>
      r\<lparr>sr_locator := normal (sr_locator r)\<rparr> = s\<lparr>sr_locator := normal (sr_locator s)\<rparr>" for r s
    by (cases r; cases s) (auto simp: source_json_def jobj_eq_iff)
qed

lemma hashed_content_iff:
  "hashed_content a = hashed_content b \<longleftrightarrow>
    ra_workspace_id a = ra_workspace_id b \<and> ra_session_id a = ra_session_id b \<and> ra_logical_id a = ra_logical_id b \<and>
    ra_kind a = ra_kind b \<and> ra_schema_version a = ra_schema_version b \<and> ra_version a = ra_version b \<and>
    ra_supersedes_id a = ra_supersedes_id b \<and> ra_owner_actor_class a = ra_owner_actor_class b \<and>
    ra_owner_actor_id a = ra_owner_actor_id b \<and> ra_round a = ra_round b \<and>
    normal_payload (ra_payload a) = normal_payload (ra_payload b) \<and> ra_provenance a = ra_provenance b \<and>
    map (\<lambda>s. s\<lparr>sr_locator := normal (sr_locator s)\<rparr>) (ra_source_references a) =
      map (\<lambda>s. s\<lparr>sr_locator := normal (sr_locator s)\<rparr>) (ra_source_references b) \<and>
    ra_parent_relationships a = ra_parent_relationships b \<and> ra_confidence a = ra_confidence b \<and>
    normal (ra_metadata a) = normal (ra_metadata b)"
  by (cases a; cases b) (auto simp: hashed_content_def)

lemma preimage_iff:
  assumes "payload_kind (ra_payload a) = ra_kind a" "payload_kind (ra_payload b) = ra_kind b"
  shows "normal (hash_preimage a) = normal (hash_preimage b) \<longleftrightarrow> hashed_content a = hashed_content b"
proof -
  have oc: "actor_class_value x = actor_class_value y \<longleftrightarrow> x = y" for x y using actor_class_inj by blast
  show ?thesis
    unfolding hash_preimage_def hashed_content_iff
    using assms payload_json_iff [of "ra_payload a" "ra_payload b"]
    by (subst jobj_eq_iff)
       (auto simp: oc provenance_json_iff confidence_json_iff relationships_json_iff sources_json_iff simp del: normal.simps(5) o_apply
         simp: o_apply [of normal snd] JList_normal_map)
qed

text \<open>C16. Two validated artifacts have the same content hash exactly when they agree on everything but their
  identifier, status and times, with embedded JSON compared up to the order of members; or their canonical
  bytes are a collision of the digest.\<close>

theorem hash_identifies_content:
  assumes "validate_artifact a = Inr a" "validate_artifact b = Inr b"
    and "\<not> (canonical_bytes (hash_preimage a) \<noteq> canonical_bytes (hash_preimage b) \<and>
      sha256_text (canonical_bytes (hash_preimage a)) = sha256_text (canonical_bytes (hash_preimage b)))"
  shows "ra_content_hash a = ra_content_hash b \<longleftrightarrow> hashed_content a = hashed_content b"
proof -
  have c: "artifact_candidate a = Inr a" "ra_content_hash a = artifact_digest a"
    "artifact_candidate b = Inr b" "ra_content_hash b = artifact_digest b"
    using assms(1,2) by (simp_all add: validate_artifact_iff)
  have k: "payload_kind (ra_payload a) = ra_kind a" "payload_kind (ra_payload b) = ra_kind b"
    using candidateE [OF c(1)] candidateE [OF c(3)] by (auto simp: invariants_iff)
  have "ra_content_hash a = ra_content_hash b \<longleftrightarrow> canonical_bytes (hash_preimage a) = canonical_bytes (hash_preimage b)"
    using assms(3) c by (auto simp: artifact_digest_def)
  also have "\<dots> \<longleftrightarrow> normal (hash_preimage a) = normal (hash_preimage b)"
    using canonical_bytes_inj [OF preimage_scalars [OF c(1)] preimage_scalars [OF c(3)]]
      canonical_eq_iff [of "hash_preimage a" "hash_preimage b"] by (auto simp: canonical_bytes_def)
  finally show ?thesis by (simp only: preimage_iff [OF k])
qed

theorem hash_identifies_content_witness:
  "ra_content_hash (sample_artifact 5 1 None) = ra_content_hash (sample_artifact 8 1 None)"
proof -
  have "hash_preimage (sample_artifact 5 1 None) = hash_preimage (sample_artifact 8 1 None)"
    by (simp add: hash_preimage_def sample_artifact_def sample_content_def)
  moreover have "hashed_content (sample_artifact 5 1 None) = hashed_content (sample_artifact 8 1 None)"
    by (simp add: hashed_content_def sample_artifact_def sample_content_def)
  ultimately show ?thesis
    using hash_identifies_content [of "sample_artifact 5 1 None" "sample_artifact 8 1 None"] by simp
qed

subsection \<open>Validation and storage of artifacts\<close>

lemma scenarios_init_values:
  "emap scenario_init ss = Inr ts \<Longrightarrow> map (decimal_value \<circ> sn_probability) ts = map (decimal_value \<circ> sn_probability) ss"
proof (induction ss arbitrary: ts)
  case (Cons s ss)
  then show ?case by (auto simp: result_simps scenario_init_def dest: decimal_init_value)
qed simp

lemma scenarios_init_decimals: "emap scenario_init ss = Inr ts \<Longrightarrow> list_all (\<lambda>s. canonical_decimal (sn_probability s)) ts"
  by (rule list.pred_mono_strong [OF scenarios_init_canonical]) (simp_all add: scenario_canonical_def)

lemma payload_init_values:
  "payload_init p = Inr q \<Longrightarrow>
    map decimal_value (payload_decimals q) = map decimal_value (payload_decimals p) \<and> list_all canonical_decimal (payload_decimals q)"
proof (cases p)
  case (ScenariosUncertaintyPayload t u ds ss)
  assume "payload_init p = Inr q"
  then obtain ts where "emap scenario_init ss = Inr ts" "q = ScenariosUncertaintyPayload t u ds ts"
    by (auto simp: ScenariosUncertaintyPayload result_simps split: if_splits)
  then show ?thesis
    using scenarios_init_values [of ss ts] scenarios_init_decimals [of ss ts]
    by (simp add: ScenariosUncertaintyPayload list.pred_map comp_def)
qed (auto simp: result_simps decimal_init_value decimal_init_canonical split: if_splits)

lemma confidence_init_values:
  assumes "confidence_init c = Inr d"
  shows "map_option (\<lambda>x. x\<lparr>cf_value := []\<rparr>) d = map_option (\<lambda>x. x\<lparr>cf_value := []\<rparr>) c \<and>
    map_option (\<lambda>x. decimal_value (cf_value x)) d = map_option (\<lambda>x. decimal_value (cf_value x)) c \<and>
    pred_option (\<lambda>x. canonical_decimal (cf_value x)) d"
  using assms
  by (cases c) (auto simp: confidence_init_def result_simps decimal_init_value decimal_init_canonical)

text \<open>C38. A validated artifact validates to itself, and the hash it carries is the one computed for it. Its
  decimals, the value of its confidence included, are written canonically and have the values they were given;
  validation changes nothing of an artifact besides its payload and its confidence, and nothing of the
  confidence besides the writing of its value.\<close>

theorem validation_canonical:
  assumes "validate_artifact a = Inr b"
  shows "validate_artifact b = Inr b \<and> artifact_content_hash b = Inr (ra_content_hash b) \<and>
    list_all canonical_decimal (artifact_decimals b) \<and>
    map decimal_value (payload_decimals (ra_payload b)) = map decimal_value (payload_decimals (ra_payload a)) \<and>
    map_option (\<lambda>c. decimal_value (cf_value c)) (ra_confidence b) =
      map_option (\<lambda>c. decimal_value (cf_value c)) (ra_confidence a) \<and>
    map_option (\<lambda>c. c\<lparr>cf_value := []\<rparr>) (ra_confidence b) = map_option (\<lambda>c. c\<lparr>cf_value := []\<rparr>) (ra_confidence a) \<and>
    b\<lparr>ra_payload := ra_payload a, ra_confidence := ra_confidence a\<rparr> = a"
proof -
  have b: "validate_artifact b = Inr b" using assms by (rule validate_idem)
  then have c: "artifact_candidate b = Inr b" "ra_content_hash b = artifact_digest b" by (simp_all add: validate_artifact_iff)
  have "artifact_candidate (b\<lparr>ra_content_hash := GENESIS_HASH\<rparr>) = Inr (b\<lparr>ra_content_hash := GENESIS_HASH\<rparr>)"
    by (rule candidate_hash_irrelevant [OF genesis_valid c(1)])
  then have "artifact_content_hash b = Inr (artifact_digest (b\<lparr>ra_content_hash := GENESIS_HASH\<rparr>))"
    unfolding artifact_content_hash_def GENESIS_HASH_def [symmetric]
    using preimage_scalars by (simp add: content_hash_thaw artifact_digest_def)
  moreover obtain p d where pd: "payload_init (ra_payload a) = Inr p" "confidence_init (ra_confidence a) = Inr d"
    and e: "b = a\<lparr>ra_payload := p, ra_confidence := d\<rparr>"
    using assms by (auto simp: validate_artifact_iff artifact_candidate_def result_simps)
  moreover have "list_all canonical_decimal (artifact_decimals b)"
    using payload_init_values [OF pd(1)] confidence_init_values [OF pd(2)]
    by (cases d) (simp_all add: artifact_decimals_def e)
  ultimately show ?thesis
    using b c(2) payload_init_values [OF pd(1)] confidence_init_values [OF pd(2)] by simp
qed

lemma half_weight: "decimal_init (ustr ''0.50'') = Inr (ustr ''0.5'')" "unit_decimal_pattern (ustr ''0.5'')"
  by (simp_all add: decimal_init_def ustr_def decimal_pattern_def unsigned_decimal_def unsigned_def rstrip_def
      unit_decimal_pattern_def udigit_ascii)

lemma sample_objective_valid:
  "validate_artifact ((sample_objective ''0.50'')\<lparr>ra_content_hash := artifact_digest (sample_objective ''0.5'')\<rparr>) =
    Inr ((sample_objective ''0.5'')\<lparr>ra_content_hash := artifact_digest (sample_objective ''0.5'')\<rparr>)"
proof -
  have "artifact_invariants (sample_objective ''0.5'') = Inr ()"
    by (simp add: invariants_iff sample_objective_def sample_content_def)
  moreover have "payload_init (ra_payload (sample_objective ''0.50'')) = Inr (ra_payload (sample_objective ''0.5''))"
    "confidence_init (ra_confidence (sample_objective ''0.50'')) = Inr None" "artifact_fields_ok (sample_objective ''0.50'')"
    by (simp_all add: sample_objective_def sample_content_def half_weight confidence_init_def artifact_fields_ok_def
        json_object_ok_def is_object.simps)
  moreover have "(sample_objective ''0.50'')\<lparr>ra_payload := ra_payload (sample_objective ''0.5''), ra_confidence := None\<rparr> =
      sample_objective ''0.5''" by (simp add: sample_objective_def sample_content_def)
  ultimately have "artifact_candidate (sample_objective ''0.50'') = Inr (sample_objective ''0.5'')"
    by (simp add: artifact_candidate_def)
  from candidate_hash_irrelevant [OF artifact_digest_valid this] show ?thesis by (simp add: validate_artifact_iff)
qed

lemma sample_position_valid:
  "validate_artifact ((sample_position ''0.50'')\<lparr>ra_content_hash := artifact_digest (sample_position ''0.5'')\<rparr>) =
    Inr ((sample_position ''0.5'')\<lparr>ra_content_hash := artifact_digest (sample_position ''0.5'')\<rparr>)"
proof -
  have "artifact_invariants (sample_position ''0.5'') = Inr ()"
    by (simp add: invariants_iff sample_position_def sample_content_def)
  moreover have "unit_decimal_pattern (ustr ''0.50'')"
    by (simp add: unit_decimal_pattern_def ustr_def udigit_ascii)
  then have "payload_init (ra_payload (sample_position ''0.50'')) = Inr (ra_payload (sample_position ''0.5''))"
    "confidence_init (ra_confidence (sample_position ''0.50'')) = Inr (ra_confidence (sample_position ''0.5''))"
    "artifact_fields_ok (sample_position ''0.50'')"
    by (simp_all add: sample_position_def sample_content_def half_weight confidence_init_def artifact_fields_ok_def
        json_object_ok_def is_object.simps)
  moreover have "(sample_position ''0.50'')\<lparr>ra_payload := ra_payload (sample_position ''0.5''),
      ra_confidence := ra_confidence (sample_position ''0.5'')\<rparr> = sample_position ''0.5''"
    by (simp add: sample_position_def sample_content_def)
  ultimately have "artifact_candidate (sample_position ''0.50'') = Inr (sample_position ''0.5'')"
    by (simp add: artifact_candidate_def)
  from candidate_hash_irrelevant [OF artifact_digest_valid this] show ?thesis by (simp add: validate_artifact_iff)
qed

text \<open>A position whose confidence is given as \<open>0.50\<close> is kept with \<open>0.5\<close>.\<close>

theorem validation_canonical_witness:
  "artifact_decimals (sample_position ''0.50'') = [ustr ''0.50''] \<and>
   artifact_decimals (sample_position ''0.5'') = [ustr ''0.5''] \<and>
   decimal_value (ustr ''0.5'') = decimal_value (ustr ''0.50'') \<and> canonical_decimal (ustr ''0.5'')"
  using validation_canonical [OF sample_position_valid]
  by (simp add: sample_position_def artifact_decimals_def)

text \<open>C31. The table accepts a validated artifact exactly when its integers have four bytes and none of its texts
  holds a NUL; the artifacts it refers to and the model call and the activity of its provenance are named by
  UUIDs of RFC 9562 (the columns of its own identifiers take any UUID); the digits of its decimals are ASCII; and
  the times of its sources are instants with an offset. Everything else that the check constraints ask for
  the validators already guarantee. (What PostgreSQL refuses for the size of a document is not modelled.)\<close>

theorem row_checks_redundant:
  assumes "validate_artifact a = Inr b"
  shows "artifact_row_check b = None \<longleftrightarrow> storable b"
  using assms by (intro row_check_iff) (auto simp: validate_artifact_iff)

lemma arabic_half_init: "decimal_init arabic_half = Inr arabic_half" "unit_decimal_pattern arabic_half" "decimal_value arabic_half = 1 / 2"
proof -
  have d: "udigit 0x665" "digit_value 0x665 = 5" by (simp_all add: udigit_def digit_value_def digit_zeros_def)
  show "decimal_init arabic_half = Inr arabic_half" "unit_decimal_pattern arabic_half" "decimal_value arabic_half = 1 / 2"
    by (simp_all add: decimal_init_def arabic_half_def decimal_pattern_def unsigned_decimal_def unsigned_def rstrip_def
        unit_decimal_pattern_def decimal_value_def digits_number_def d)
qed

lemma arabic_objective_valid:
  "validate_artifact (arabic_objective\<lparr>ra_content_hash := artifact_digest arabic_objective\<rparr>) =
    Inr (arabic_objective\<lparr>ra_content_hash := artifact_digest arabic_objective\<rparr>)"
proof -
  have "artifact_candidate arabic_objective = Inr arabic_objective"
  proof (rule candidateI)
    show "artifact_invariants arabic_objective = Inr ()"
      by (simp add: invariants_iff arabic_objective_def sample_content_def)
  qed (simp_all add: arabic_objective_def sample_content_def arabic_half_init confidence_init_def
      artifact_fields_ok_def json_object_ok_def is_object.simps)
  from candidate_hash_irrelevant [OF artifact_digest_valid this] show ?thesis by (simp add: validate_artifact_iff)
qed

theorem row_checks_redundant_witness:
  "artifact_row_check ((sample_objective ''0.5'')\<lparr>ra_content_hash := artifact_digest (sample_objective ''0.5'')\<rparr>) = None \<and>
   artifact_row_check (arabic_objective\<lparr>ra_content_hash := artifact_digest arabic_objective\<rparr>) \<noteq> None"
proof -
  have "storable ((sample_objective ''0.5'')\<lparr>ra_content_hash := artifact_digest (sample_objective ''0.5'')\<rparr>)"
    by (simp add: storable_def column_types_def int4_def sample_objective_def column_simps artifact_references_def
        artifact_decimals_def ascii_text_def)
  moreover have "\<not> storable (arabic_objective\<lparr>ra_content_hash := artifact_digest arabic_objective\<rparr>)"
    by (simp add: storable_def arabic_objective_def sample_content_def artifact_decimals_def ascii_text_def arabic_half_def)
  ultimately show ?thesis
    using row_checks_redundant [OF sample_objective_valid] row_checks_redundant [OF arabic_objective_valid] by simp
qed

end
