(* ===== verification/Graph_Properties.thy ===== *)
theory Graph_Properties
  imports Graph_Traversal Artifact_Properties
begin

text \<open>
  The properties of traversals of the reasoning graph: what a traversal read to its end contains, when a
  page says it was truncated, and which query a cursor continues.
\<close>

definition sample_query :: query where
  "sample_query = \<lparr>qu_direction = Forward, qu_workspace_id = 1, qu_session_id = 2, qu_root_ids = [12], qu_max_depth = 1, qu_edge_types = None\<rparr>"

definition same_query :: "query \<Rightarrow> query \<Rightarrow> bool" where
  "same_query p q = (qu_direction p = qu_direction q \<and> qu_workspace_id p = qu_workspace_id q \<and> qu_session_id p = qu_session_id q \<and>
     mset (qu_root_ids p) = mset (qu_root_ids q) \<and> qu_max_depth p = qu_max_depth q \<and>
     map_option set (qu_edge_types p) = map_option set (qu_edge_types q))"



subsection \<open>Exactness\<close>

lemma reachable_no_loop:
  assumes "artifacts_reachable db" "e \<in> set (ab_edges db)"
  shows "ge_from_node e \<noteq> ge_to_node e"
proof -
  have g: "graph_ok db" "distinct (map ra_id (ab_artifacts db))" "distinct (map gn_id (ab_nodes db))"
    using artifacts_reachable_wf [OF assms(1)] by (simp_all add: transaction_wf_def artifact_wf_def rows_ok_def graph_ok_def)
  from g(1,2) assms(2) show ?thesis
  proof (rule edge_indices)
    fix i j assume ij: "i < length (ab_artifacts db)" "j < i" "ge_from_node e = gn_id (ab_nodes db ! i)" "ge_to_node e = gn_id (ab_nodes db ! j)"
    then have "i < length (ab_nodes db)" "j < length (ab_nodes db)" using graph_nth(2) [OF g(1)] by auto
    then show ?thesis using g(3) ij by (auto simp: distinct_conv_nth)
  qed
qed

lemma acyclic_hops:
  assumes "acyclic ((\<lambda>e. (ge_from_node e, ge_to_node e)) ` set (ab_edges db))" "qu_direction q \<noteq> BothWays"
  shows "acyclic (hop (qu_direction q) (query_edges db q))"
proof (cases "qu_direction q")
  case Backward
  have "(hop Backward (query_edges db q))\<inverse> \<subseteq> (\<lambda>e. (ge_from_node e, ge_to_node e)) ` set (ab_edges db)"
    by (auto simp: hop_def query_edges_def)
  from acyclic_subset [OF assms(1) this] show ?thesis by (simp add: Backward)
next
  case Forward
  have "hop Forward (query_edges db q) \<subseteq> (\<lambda>e. (ge_from_node e, ge_to_node e)) ` set (ab_edges db)"
    by (auto simp: hop_def query_edges_def)
  from acyclic_subset [OF assms(1) this] show ?thesis by (simp add: Forward)
qed (use assms(2) in simp)

lemma reachable_members:
  assumes "artifacts_reachable db" "0 \<le> qu_max_depth q"
  shows "i \<in> set (member_edges db q) \<longleftrightarrow> (\<exists>e \<in> set (query_edges db q). ge_id e = i \<and>
    touched (qu_direction q) (query_edges db q) (qu_root_ids q) (nat (qu_max_depth q)) e)"
  using assms(2) acyclic_hops [OF edges_acyclic [OF assms(1)]] reachable_no_loop [OF assms(1)] by (intro member_edges_iff) auto

text \<open>C25. A traversal read page by page to its end, in either direction or both, gives every node of the session
  within the depth of a root along the selected edges, and every selected edge that leaves a node within
  one hop less; each exactly once, and nothing else. The answer does not depend on the size of the pages.\<close>

theorem traversal_exact:
  assumes "artifacts_reachable db" "0 \<le> qu_max_depth q" "qu_max_depth q \<le> cap" "1 \<le> page_size" "page_size \<le> MAX_PAGE_SIZE"
  shows "\<exists>ms n. (\<forall>k \<ge> n. read_all k (fetch_page db q cap page_size) None = Inr ms) \<and> distinct ms \<and>
    (\<forall>x. Inl x \<in> set ms \<longleftrightarrow> x \<in> set (ab_nodes db) \<and> gn_workspace_id x = qu_workspace_id q \<and> gn_session_id x = qu_session_id q \<and>
       within_hops (qu_direction q) (query_edges db q) (qu_root_ids q) (nat (qu_max_depth q)) (gn_id x)) \<and>
    (\<forall>e. Inr e \<in> set ms \<longleftrightarrow> e \<in> set (query_edges db q) \<and>
       touched (qu_direction q) (query_edges db q) (qu_root_ids q) (nat (qu_max_depth q)) e)"
proof -
  define n where "n = Suc (length (member_nodes db q) + length (member_edges db q))"
  let ?ms = "map Inl (nodes_by_id db q (member_nodes db q)) @ map Inr (edges_by_id db q (member_edges db q)) :: (GraphNode + GraphEdge) list"
  have keys: "distinct (map ge_id (ab_edges db))" using reachable_edge_keys [OF assms(1)] .
  have ids: "distinct (map gn_id (ab_nodes db))"
    using artifacts_reachable_wf [OF assms(1)] by (simp add: transaction_wf_def artifact_wf_def graph_ok_def)
  have "read_all k (fetch_page db q cap page_size) None = Inr ?ms" if "n \<le> k" for k
    using read_all_members [OF assms(2-5), of db k] that by (simp add: n_def)
  moreover have "distinct ?ms"
    using keys ids by (auto simp: distinct_map nodes_by_id_def edges_by_id_def)
  moreover have "Inr e \<in> set ?ms \<longleftrightarrow> e \<in> set (query_edges db q) \<and>
      touched (qu_direction q) (query_edges db q) (qu_root_ids q) (nat (qu_max_depth q)) e" for e
  proof -
    have same: "f = e" if "ge_id f = ge_id e" "f \<in> set (ab_edges db)" "e \<in> set (ab_edges db)" for f
      using keys that by (auto simp: distinct_map inj_on_def)
    have "Inr e \<in> set ?ms \<longleftrightarrow> e \<in> set (ab_edges db) \<and> ge_workspace_id e = qu_workspace_id q \<and> ge_session_id e = qu_session_id q \<and>
        ge_id e \<in> set (member_edges db q)" by (auto simp: edges_by_id_def)
    also have "\<dots> \<longleftrightarrow> e \<in> set (query_edges db q) \<and>
        touched (qu_direction q) (query_edges db q) (qu_root_ids q) (nat (qu_max_depth q)) e"
      unfolding reachable_members [OF assms(1,2)] using same
      by (auto simp: query_edges_def edge_selected_def)
    finally show ?thesis .
  qed
  moreover have "Inl x \<in> set ?ms \<longleftrightarrow> x \<in> set (ab_nodes db) \<and> gn_workspace_id x = qu_workspace_id q \<and> gn_session_id x = qu_session_id q \<and>
       within_hops (qu_direction q) (query_edges db q) (qu_root_ids q) (nat (qu_max_depth q)) (gn_id x)" for x
    by (auto simp: nodes_by_id_def member_nodes_iff [OF assms(2)])
  ultimately show ?thesis by blast
qed

theorem traversal_exact_witness:
  "\<exists>l ms n. read_all n (fetch_page (sample_revised l) sample_query 12 1) None = Inr ms \<and> Inr sample_edge \<in> set ms"
proof -
  obtain l1 l2 l3 where r: "artifacts_reachable (sample_revised l2)" using sample_history .
  have "touched Forward (query_edges (sample_revised l2) sample_query) [12] 1 sample_edge"
    unfolding touched_def by (intro exI [of _ 12]) (simp add: sample_edge_def)
  moreover have "sample_edge \<in> set (query_edges (sample_revised l2) sample_query)"
    by (simp add: query_edges_def sample_query_def edge_selected_def sample_revised_def sample_edge_def)
  ultimately show ?thesis
    using traversal_exact [OF r, of sample_query 12 1] by (fastforce simp: sample_query_def MAX_PAGE_SIZE_def)
qed

text \<open>A page says that its traversal was truncated exactly when a walk without repetition leads past the
  depth; when it was not, everything reachable from a root by any number of hops is within the depth.\<close>

theorem truncation_exact:
  assumes "graph_walk db q cap page_size cursor = Inr r"
  shows "(tr_truncated r \<longleftrightarrow> (\<exists>w. walked (qu_direction q) (query_edges db q) (qu_root_ids q) w \<and>
      int (wr_depth w) = qu_max_depth q + 1)) \<and>
    (\<not> tr_truncated r \<longrightarrow> (\<forall>root \<in> set (qu_root_ids q). \<forall>x. (root, x) \<in> (hop (qu_direction q) (query_edges db q))\<^sup>* \<longrightarrow>
      within_hops (qu_direction q) (query_edges db q) (qu_root_ids q) (nat (qu_max_depth q)) x))"
proof -
  have m: "0 \<le> qu_max_depth q" and t: "tr_truncated r = (length (rows_within db q) < length (query_rows db q))"
    using assms by (auto simp: graph_walk_def result_simps eguard_def Let_def invalid_cursor_def split: if_splits)
  have iff: "tr_truncated r \<longleftrightarrow> (\<exists>w. walked (qu_direction q) (query_edges db q) (qu_root_ids q) w \<and>
      int (wr_depth w) = qu_max_depth q + 1)"
    unfolding t truncated_iff using m by (auto simp: query_rows_def query_edges_def walk_rows_walked)
  have "within_hops (qu_direction q) (query_edges db q) (qu_root_ids q) (nat (qu_max_depth q)) x"
    if "\<not> tr_truncated r" "root \<in> set (qu_root_ids q)" "(root, x) \<in> (hop (qu_direction q) (query_edges db q))\<^sup>*" for root x
  proof (rule untruncated_closed [OF _ that(2,3)])
    fix w assume "walked (qu_direction q) (query_edges db q) (qu_root_ids q) w"
    then show "wr_depth w \<noteq> nat (qu_max_depth q) + 1" using that(1) m unfolding iff by fastforce
  qed
  with iff show ?thesis by blast
qed

theorem truncation_exact_witness:
  "\<exists>l r. graph_walk (sample_revised l) sample_query 12 100 None = Inr r \<and> \<not> tr_truncated r \<and>
     within_hops Forward (query_edges (sample_revised l) sample_query) [12] 1 11"
proof -
  fix l
  have edges: "filter (edge_selected 1 2 None) (ab_edges (sample_revised l)) = [sample_edge]"
    by (simp add: edge_selected_def sample_revised_def sample_edge_def)
  have rows: "rows_within (sample_revised l) sample_query = query_rows (sample_revised l) sample_query"
    by (simp add: rows_within_def query_rows_def sample_query_def edges walk_rows_def walk_step_def)
  obtain r where r: "graph_walk (sample_revised l) sample_query 12 100 None = Inr r" "\<not> tr_truncated r"
    by (simp add: graph_walk_def Let_def rows eguard_def decode_cursor_def MAX_PAGE_SIZE_def)
       (simp add: sample_query_def)
  have "(12, 11) \<in> hop Forward (query_edges (sample_revised l) sample_query)"
    by (auto simp: hop_def query_edges_def sample_query_def edges) (simp_all add: sample_edge_def)
  then have h: "(12, 11) \<in> (hop Forward (query_edges (sample_revised l) sample_query))\<^sup>*" by (rule r_into_rtrancl)
  have q: "qu_direction sample_query = Forward" "qu_root_ids sample_query = [12]" "qu_max_depth sample_query = 1"
    by (simp_all add: sample_query_def)
  have "within_hops Forward (query_edges (sample_revised l) sample_query) [12] 1 11"
    using truncation_exact [OF r(1), unfolded q] r(2) h by simp
  with r show ?thesis by blast
qed

text \<open>A traversal is reported truncated although every neighbour of the nodes it found is among them: the path
  cycle check of the query follows a longer path to a node that a shorter one has found.\<close>

lemma truncated_nothing_unvisited:
  "let edge = (\<lambda>i a b. \<lparr>ge_id = i, ge_workspace_id = 1, ge_session_id = 2, ge_from_node = a, ge_to_node = b,
         ge_edge_type = SUPPORTS, ge_qualifier = JObj [], ge_actor_class = SERVICE, ge_actor_id = 3\<rparr>);
       rows = walk_rows Forward [edge 11 21 22, edge 12 21 23, edge 13 22 23] 1 [21];
       near = filter (\<lambda>w. wr_depth w \<le> 1) rows
   in length near < length rows \<and> wr_node ` set near = {21, 22, 23} \<and> wr_node ` set rows = {21, 22, 23}"
  unfolding Let_def walk_rows_def by (simp add: walk_step_def insert_commute)

subsection \<open>Cursors\<close>

lemma direction_inj [simp]: "direction_value a = direction_value b \<longleftrightarrow> a = b"
  by (cases a; cases b) simp_all

lemma sort_map_eq:
  assumes "inj f" "sort (map f xs) = sort (map f ys)"
  shows "mset xs = mset ys"
proof -
  have "mset (map f xs) = mset (map f ys)" using arg_cong [OF assms(2), of mset] by simp
  then have "image_mset (inv f) (image_mset f (mset xs)) = image_mset (inv f) (image_mset f (mset ys))" by simp
  then show ?thesis using assms(1) by (simp add: image_mset.compositionality inv_o_cancel)
qed

lemma query_json_same:
  assumes "normal (query_json p) = normal (query_json q)"
  shows "same_query p q"
proof -
  let ?t = "\<lambda>q. case qu_edge_types q of None \<Rightarrow> JNull | Some ts \<Rightarrow> jtexts (sort (map (\<lambda>t. ustr (edge_type_value t)) (remdups ts)))"
  have t: "normal (?t q) = ?t q" for q by (simp split: option.splits)
  have eq: "qu_direction p = qu_direction q" "?t p = ?t q" "qu_max_depth p = qu_max_depth q"
    "sort (map (\<lambda>r. ustr (uuid_str r)) (qu_root_ids p)) = sort (map (\<lambda>r. ustr (uuid_str r)) (qu_root_ids q))"
    "qu_session_id p = qu_session_id q" "qu_workspace_id p = qu_workspace_id q"
    using assms unfolding query_json_def by (simp_all add: jobj_eq_iff t)
  have "inj (\<lambda>r. ustr (uuid_str r))" using ustr_inj uuid_str_inj by (auto intro!: injI)
  then have roots: "mset (qu_root_ids p) = mset (qu_root_ids q)" using eq(4) by (rule sort_map_eq)
  have e: "inj (\<lambda>t. ustr (edge_type_value t))" by (intro injI) (auto dest: ustr_inj)
  have "map_option set (qu_edge_types p) = map_option set (qu_edge_types q)"
  proof (cases "qu_edge_types p")
    case None
    with eq(2) show ?thesis by (simp add: jtexts_def split: option.splits)
  next
    case (Some ts)
    with eq(2) obtain us where us: "qu_edge_types q = Some us" by (auto simp: jtexts_def split: option.splits)
    then have "sort (map (\<lambda>t. ustr (edge_type_value t)) (remdups ts)) = sort (map (\<lambda>t. ustr (edge_type_value t)) (remdups us))"
      using eq(2) Some by simp
    from arg_cong [OF sort_map_eq [OF e this], of set_mset] show ?thesis by (simp add: Some us)
  qed
  with eq roots show ?thesis by (simp add: same_query_def)
qed

lemma query_scalars: "scalars (query_json q)"
  by (auto simp: query_json_def scalars_jobj list_all_iff ustr_scalar [unfolded list_all_iff] split: option.splits)

text \<open>C30. A cursor continues the query it was made for: a traversal given the cursor of a page of another query,
  one with another direction, tenant, session, roots, depth or choice of edge types, is refused, unless the
  texts of the two queries collide under SHA-256. A position outside the result is refused too.\<close>

theorem cursor_bound_to_query:
  assumes "graph_walk db q cap page_size (Some (encode_cursor i (query_fingerprint p))) = Inr r"
    and "\<not> (canonical_bytes (query_json p) \<noteq> canonical_bytes (query_json q) \<and> query_fingerprint p = query_fingerprint q)"
  shows "same_query p q \<and> 0 \<le> i \<and> i < int (length (member_nodes db q)) + int (length (member_edges db q))"
proof -
  have "query_fingerprint p = query_fingerprint q" and i: "0 \<le> i"
    "i < int (length (member_nodes db q)) + int (length (member_edges db q))"
    using assms(1) by (auto simp: graph_walk_def result_simps eguard_def Let_def decode_encoded invalid_cursor_def split: if_splits)
  then have "canonical_bytes (query_json p) = canonical_bytes (query_json q)" using assms(2) by blast
  then have "normal (query_json p) = normal (query_json q)" using canonical_bytes_inj [OF query_scalars query_scalars] by blast
  with i show ?thesis using query_json_same by blast
qed

theorem cursor_bound_to_query_witness:
  "\<exists>l r. graph_walk (sample_revised l) sample_query 12 1 (Some (encode_cursor 1 (query_fingerprint sample_query))) = Inr r \<and>
     same_query sample_query sample_query"
proof -
  fix l
  have edges: "filter (edge_selected 1 2 None) (ab_edges (sample_revised l)) = [sample_edge]"
    by (simp add: edge_selected_def sample_revised_def sample_edge_def)
  have "query_rows (sample_revised l) sample_query =
      [\<lparr>wr_node = 12, wr_depth = 0, wr_path = [12], wr_edge = None\<rparr>, \<lparr>wr_node = 11, wr_depth = 1, wr_path = [12, 11], wr_edge = Some 13\<rparr>]"
    by (simp add: query_rows_def sample_query_def edges walk_rows_def walk_step_def) (simp add: sample_edge_def)
  then have "length (member_nodes (sample_revised l) sample_query) = 2" "length (member_edges (sample_revised l) sample_query) = 1"
    by (simp_all add: member_nodes_def member_edges_def rows_within_def sample_query_def List.map_filter_def)
  then obtain r where "graph_walk (sample_revised l) sample_query 12 1 (Some (encode_cursor 1 (query_fingerprint sample_query))) = Inr r"
    by (simp add: graph_walk_def Let_def eguard_def decode_encoded MAX_PAGE_SIZE_def) (simp add: sample_query_def)
  with cursor_bound_to_query [OF this] show ?thesis by blast
qed

end
