(* ===== verification/Json_Text.thy ===== *)
theory Json_Text
  imports Reasoning_Ledger "HOL-Library.Sublist"
begin

text \<open>
  Reading what \<^verbatim>\<open>application/marl.py\<close> reads with the Python library: \<^verbatim>\<open>bytes.decode\<close>, \<^verbatim>\<open>json.loads\<close>,
  \<^verbatim>\<open>bytes.splitlines\<close>, and the texts of UUIDs that the validation of a model class accepts. The theorems
  say that the reader inverts the canonical writer: the text of a value is read as its normal form. The two
  limits of the interpreter are an argument: the digits of an integer, past which \<^verbatim>\<open>int\<close> raises
  \<^verbatim>\<open>ValueError\<close>, and the depth of recursion, past which \<^verbatim>\<open>json.loads\<close> raises
  \<^verbatim>\<open>RecursionError\<close>.
\<close>

subsection \<open>UTF-8\<close>

definition continuation :: "nat \<Rightarrow> bool" where
  "continuation b = (0x80 \<le> b \<and> b < 0xC0)"

text \<open>\<^verbatim>\<open>bytes.decode("utf-8")\<close>: over-long forms, surrogates and code points past the last one are errors.\<close>

fun utf8_decode :: "nat list \<Rightarrow> ustr option" where
  "utf8_decode [] = Some []"
| "utf8_decode (b # bs) =
     (if b < 0x80 then map_option ((#) b) (utf8_decode bs)
      else if 0xC2 \<le> b \<and> b < 0xE0 then
        (case bs of c1 # r \<Rightarrow>
           if continuation c1 then map_option ((#) ((b - 0xC0) * 64 + (c1 - 0x80))) (utf8_decode r) else None
         | _ \<Rightarrow> None)
      else if 0xE0 \<le> b \<and> b < 0xF0 then
        (case bs of c1 # c2 # r \<Rightarrow>
           (let c = (b - 0xE0) * 4096 + (c1 - 0x80) * 64 + (c2 - 0x80) in
            if continuation c1 \<and> continuation c2 \<and> 0x800 \<le> c \<and> \<not> surrogate c
            then map_option ((#) c) (utf8_decode r) else None)
         | _ \<Rightarrow> None)
      else if 0xF0 \<le> b \<and> b < 0xF5 then
        (case bs of c1 # c2 # c3 # r \<Rightarrow>
           (let c = (b - 0xF0) * 262144 + (c1 - 0x80) * 4096 + (c2 - 0x80) * 64 + (c3 - 0x80) in
            if continuation c1 \<and> continuation c2 \<and> continuation c3 \<and> 0x10000 \<le> c \<and> c < 0x110000
            then map_option ((#) c) (utf8_decode r) else None)
         | _ \<Rightarrow> None)
      else None)"

subsection \<open>Reading JSON text\<close>

text \<open>
  What \<^verbatim>\<open>json.loads\<close> gives; \<open>py_of\<close> is the value the validation of JSON values looks at, in which a float is
  infinite from halfway past the largest one, and \<open>loaded\<close> the value of a text without floats.
\<close>

datatype lval =
    LNone | LBool bool | LInt int | LFloat rat | LStr ustr | LList "lval list" | LDict "(ustr \<times> lval) list"

primrec py_of :: "lval \<Rightarrow> pyval" where
  "py_of LNone = VNone"
| "py_of (LBool b) = VBool b"
| "py_of (LInt i) = VInt i"
| "py_of (LFloat q) = VFloat (\<bar>q\<bar> < 2 ^ 1024 - 2 ^ 970)"
| "py_of (LStr s) = VStr s"
| "py_of (LList xs) = VList (map py_of xs)"
| "py_of (LDict items) = VDict (map (map_prod VStr py_of) items)"

primrec loaded :: "json \<Rightarrow> lval" where
  "loaded JNull = LNone"
| "loaded (JBool b) = LBool b"
| "loaded (JInt i) = LInt i"
| "loaded (JStr s) = LStr s"
| "loaded (JList xs) = LList (map loaded xs)"
| "loaded (JObj items) = LDict (map (map_prod (\<lambda>k. k) loaded) items)"

definition json_space :: "nat \<Rightarrow> bool" where
  "json_space c = (c = 32 \<or> c = 9 \<or> c = 10 \<or> c = 13)"

definition skip_space :: "ustr \<Rightarrow> ustr" where
  "skip_space s = dropWhile json_space s"

definition starts :: "nat \<Rightarrow> ustr \<Rightarrow> bool" where
  "starts c s = (s \<noteq> [] \<and> hd s = c)"

definition hex_value :: "nat \<Rightarrow> nat option" where
  "hex_value c = (if 48 \<le> c \<and> c \<le> 57 then Some (c - 48) else if 97 \<le> c \<and> c \<le> 102 then Some (c - 87)
     else if 65 \<le> c \<and> c \<le> 70 then Some (c - 55) else None)"

text \<open>The number that hexadecimal digits write.\<close>

fun hex_number :: "ustr \<Rightarrow> nat \<Rightarrow> nat option" where
  "hex_number [] n = Some n"
| "hex_number (c # cs) n = Option.bind (hex_value c) (\<lambda>d. hex_number cs (16 * n + d))"

definition hex4 :: "ustr \<Rightarrow> (nat \<times> ustr) option" where
  "hex4 s = (if length s < 4 then None else map_option (\<lambda>n. (n, drop 4 s)) (hex_number (take 4 s) 0))"

definition simple_escape :: "nat \<Rightarrow> nat option" where
  "simple_escape c = (if c \<in> {34, 92, 47} then Some c else if c = 98 then Some 8 else if c = 102 then Some 12
     else if c = 110 then Some 10 else if c = 114 then Some 13 else if c = 116 then Some 9 else None)"

text \<open>What follows a backslash: a pair of escaped surrogates is one character.\<close>

definition scan_escape :: "ustr \<Rightarrow> (nat \<times> ustr) option" where
  "scan_escape s = (if starts 117 s then
       Option.bind (hex4 (tl s)) (\<lambda>(u, r).
         if 0xD800 \<le> u \<and> u \<le> 0xDBFF \<and> take 2 r = [92, 117] then
           Option.bind (hex4 (drop 2 r)) (\<lambda>(l, r').
             if 0xDC00 \<le> l \<and> l \<le> 0xDFFF then Some (0x10000 + (u - 0xD800) * 1024 + (l - 0xDC00), r')
             else Some (u, r))
         else Some (u, r))
     else if s = [] then None else map_option (\<lambda>c. (c, tl s)) (simple_escape (hd s)))"

text \<open>
  The interpreter: the levels of recursion left where \<^verbatim>\<open>json.loads\<close> is called, and
  \<^verbatim>\<open>sys.get_int_max_str_digits()\<close>, 4300 unless it is set, where 0 is no limit.
\<close>

record interpreter =
  in_levels :: nat
  in_digits :: nat

definition below :: "interpreter \<Rightarrow> interpreter" where
  "below i = i\<lparr>in_levels := in_levels i - 1\<rparr>"

definition digits_ok :: "interpreter \<Rightarrow> ustr \<Rightarrow> bool" where
  "digits_ok i ds = (in_digits i = 0 \<or> length ds \<le> in_digits i)"

text \<open>The values whose text it reads.\<close>

primrec readable :: "json \<Rightarrow> interpreter \<Rightarrow> bool" where
  "readable JNull i = True"
| "readable (JBool b) i = True"
| "readable (JInt n) i = digits_ok i (dec_text (nat \<bar>n\<bar>))"
| "readable (JStr s) i = True"
| "readable (JList xs) i = (in_levels i \<noteq> 0 \<and> list_all (\<lambda>f. f (below i)) (map readable xs))"
| "readable (JObj items) i =
     (in_levels i \<noteq> 0 \<and> list_all (\<lambda>kv. snd kv (below i)) (map (map_prod (\<lambda>k. k) readable) items))"

text \<open>What follows a value: the end of the text or of the line, a comma, or a closing bracket.\<close>

definition value_end :: "ustr \<Rightarrow> bool" where
  "value_end r = (r = [] \<or> hd r \<in> {10, 44, 93, 125})"

text \<open>No object has two members of one name.\<close>

primrec proper :: "json \<Rightarrow> bool" where
  "proper JNull = True"
| "proper (JBool b) = True"
| "proper (JInt i) = True"
| "proper (JStr s) = True"
| "proper (JList xs) = list_all (\<lambda>b. b) (map proper xs)"
| "proper (JObj items) = (distinct (map fst items) \<and> list_all snd (map (map_prod (\<lambda>k. k) proper) items))"

text \<open>
  The texts pydantic reads as a UUID: thirty-two hexadecimal digits of either case, plain, hyphenated, in
  braces or as a URN.
\<close>

definition uuid_plain :: "ustr \<Rightarrow> uuid option" where
  "uuid_plain s = map_option word_of_nat (hex_number s 0)"

definition uuid_hyphenated :: "ustr \<Rightarrow> uuid option" where
  "uuid_hyphenated s = (if length s = 36 \<and> s ! 8 = 45 \<and> s ! 13 = 45 \<and> s ! 18 = 45 \<and> s ! 23 = 45
     then uuid_plain (take 8 s @ take 4 (drop 9 s) @ take 4 (drop 14 s) @ take 4 (drop 19 s) @ drop 24 s) else None)"

definition uuid_read :: "ustr \<Rightarrow> uuid option" where
  "uuid_read s =
     (if length s = 32 then uuid_plain s
      else if length s = 36 then uuid_hyphenated s
      else if length s = 38 \<and> hd s = 123 \<and> last s = 125 then uuid_hyphenated (butlast (tl s))
      else if length s = 45 \<and> take 9 s = ustr ''urn:uuid:'' then uuid_hyphenated (drop 9 s)
      else None)"

text \<open>\<^verbatim>\<open>bytes.splitlines(keepends=True)\<close>: a line ends with LF, CR or both.\<close>

fun split_lines :: "nat list \<Rightarrow> nat list list" where
  "split_lines [] = []"
| "split_lines (b # bs) =
     (if b = 10 then [10] # split_lines bs
      else if b = 13 then (if starts 10 bs then [13, 10] # split_lines (tl bs) else [13] # split_lines bs)
      else (case split_lines bs of [] \<Rightarrow> [[b]] | l # ls \<Rightarrow> (b # l) # ls))"

lemma hex4_less: "hex4 s = Some (n, r) \<Longrightarrow> length r < length s"
  by (auto simp: hex4_def split: if_splits)

lemma scan_escape_less: "scan_escape s = Some (c, r) \<Longrightarrow> length r < length s"
proof (cases "starts 117 s")
  case True
  then have tl: "length (tl s) < length s" by (cases s) (auto simp: starts_def)
  assume "scan_escape s = Some (c, r)"
  with True obtain u r1 where 1: "hex4 (tl s) = Some (u, r1)" and
    2: "r = r1 \<or> (\<exists>l. hex4 (drop 2 r1) = Some (l, r))"
    by (auto simp: scan_escape_def bind_eq_Some_conv split: if_splits)
  from hex4_less [OF 1] tl have "length r1 < length s" by simp
  moreover have "length r \<le> length r1" using 2 hex4_less by fastforce
  ultimately show ?thesis by simp
next
  case False
  assume "scan_escape s = Some (c, r)"
  with False show ?thesis by (cases s) (auto simp: scan_escape_def split: if_splits)
qed

text \<open>The characters of a string up to its closing quote.\<close>

function (sequential) scan_string :: "ustr \<Rightarrow> (ustr \<times> ustr) option" where
  "scan_string [] = None"
| "scan_string (c # cs) =
     (if c = 34 then Some ([], cs)
      else if c = 92 then
        (case scan_escape cs of None \<Rightarrow> None | Some (x, r) \<Rightarrow> map_option (apfst ((#) x)) (scan_string r))
      else if c < 32 then None
      else map_option (apfst ((#) c)) (scan_string cs))"
  by pat_completeness auto
termination by (relation "measure length") (auto dest: scan_escape_less)

text \<open>
  A number: an integer unless it has a fraction or an exponent, in which case it is a float, given by the
  number its text writes. An integer of too many digits is an error.
\<close>

definition scan_digits :: "ustr \<Rightarrow> ustr \<times> ustr" where
  "scan_digits s = (takeWhile is_digit s, dropWhile is_digit s)"

definition scan_fraction :: "ustr \<Rightarrow> ustr \<times> ustr" where
  "scan_fraction s = (if starts 46 s \<and> fst (scan_digits (tl s)) \<noteq> [] then scan_digits (tl s) else ([], s))"

definition scan_exponent :: "ustr \<Rightarrow> int option \<times> ustr" where
  "scan_exponent s = (if starts 101 s \<or> starts 69 s then
       (let t = tl s; sign = starts 43 t \<or> starts 45 t; (ds, r) = scan_digits (if sign then tl t else t) in
        if ds = [] then (None, s)
        else (Some (if starts 45 t then - int (dec_value ds) else int (dec_value ds)), r))
     else (None, s))"

definition scan_unsigned :: "interpreter \<Rightarrow> bool \<Rightarrow> ustr \<Rightarrow> (lval \<times> ustr) option" where
  "scan_unsigned i negative s =
     (let ds = (if starts 48 s then [48] else fst (scan_digits s)); r = drop (length ds) s;
          (fraction, r1) = scan_fraction r; (exponent, r2) = scan_exponent r1
      in if ds = [] then None
         else if fraction = [] \<and> exponent = None
         then (if \<not> digits_ok i ds then None
               else Some (LInt (if negative then - int (dec_value ds) else int (dec_value ds)), r))
         else Some (LFloat ((if negative then - 1 else 1) * rat_of_nat (dec_value (ds @ fraction)) *
                power_int 10 ((case exponent of None \<Rightarrow> 0 | Some e \<Rightarrow> e) - int (length fraction))), r2))"

definition scan_number :: "interpreter \<Rightarrow> ustr \<Rightarrow> (lval \<times> ustr) option" where
  "scan_number i s = (if starts 45 s then scan_unsigned i True (tl s) else scan_unsigned i False s)"

text \<open>The members of a parsed object: a key keeps its first position and its last value.\<close>

fun dict_put :: "('k \<times> 'v) list \<Rightarrow> 'k \<Rightarrow> 'v \<Rightarrow> ('k \<times> 'v) list" where
  "dict_put [] k v = [(k, v)]"
| "dict_put ((k', v') # m) k v = (if k' = k then (k, v) # m else (k', v') # dict_put m k v)"

definition dict_of_pairs :: "('k \<times> 'v) list \<Rightarrow> ('k \<times> 'v) list" where
  "dict_of_pairs kvs = foldl (\<lambda>m (k, v). dict_put m k v) [] kvs"

lemma skip_space_le: "length (skip_space s) \<le> length s"
  by (simp add: skip_space_def length_dropWhile_le)

lemma skip_tl_le: "length (skip_space (tl (skip_space s))) \<le> length s"
  using skip_space_le [of s] skip_space_le [of "tl (skip_space s)"] by simp

text \<open>
  What \<^verbatim>\<open>json.loads\<close> raises: a \<^verbatim>\<open>ValueError\<close> (\<^verbatim>\<open>JSONDecodeError\<close> is one), or \<^verbatim>\<open>RecursionError\<close>
  where an array or an object starts with no level left.
\<close>

datatype json_fault = BadJson | TooDeep

fun amend :: "('a \<Rightarrow> 'b) \<Rightarrow> 'e + 'a \<times> 'c \<Rightarrow> 'e + 'b \<times> 'c" where
  "amend f (Inl e) = Inl e"
| "amend f (Inr (v, r)) = Inr (f v, r)"

fun scanned :: "'a option \<Rightarrow> json_fault + 'a" where
  "scanned None = Inl BadJson"
| "scanned (Some x) = Inr x"

text \<open>
  The reader proper. A value is shorter than the text it starts, so the tests of lengths always
  succeed (\<open>parse_suffix\<close>); they make the termination evident.
\<close>

function (sequential) parse_value :: "interpreter \<Rightarrow> ustr \<Rightarrow> json_fault + lval \<times> ustr"
  and parse_items :: "interpreter \<Rightarrow> ustr \<Rightarrow> json_fault + lval list \<times> ustr"
  and parse_members :: "interpreter \<Rightarrow> ustr \<Rightarrow> json_fault + (ustr \<times> lval) list \<times> ustr" where
  "parse_value d [] = Inl BadJson"
| "parse_value d (c # cs) =
     (if c = 34 then amend LStr (scanned (scan_string cs))
      else if c = 123 then
        (if in_levels d = 0 then Inl TooDeep
         else if starts 125 (skip_space cs) then Inr (LDict [], tl (skip_space cs))
         else amend (\<lambda>ms. LDict (dict_of_pairs ms)) (parse_members (below d) (skip_space cs)))
      else if c = 91 then
        (if in_levels d = 0 then Inl TooDeep
         else if starts 93 (skip_space cs) then Inr (LList [], tl (skip_space cs))
         else amend LList (parse_items (below d) (skip_space cs)))
      else if take 4 (c # cs) = ustr ''null'' then Inr (LNone, drop 3 cs)
      else if take 4 (c # cs) = ustr ''true'' then Inr (LBool True, drop 3 cs)
      else if take 5 (c # cs) = ustr ''false'' then Inr (LBool False, drop 4 cs)
      else scanned (scan_number d (c # cs)))"
| "parse_items d s =
     (case parse_value d s of Inl e \<Rightarrow> Inl e
      | Inr (v, r) \<Rightarrow> if length r < length s then
          (if starts 93 (skip_space r) then Inr ([v], tl (skip_space r))
           else if starts 44 (skip_space r)
           then amend ((#) v) (parse_items d (skip_space (tl (skip_space r))))
           else Inl BadJson)
        else Inl BadJson)"
| "parse_members d s =
     (if starts 34 s then
        (case scan_string (tl s) of None \<Rightarrow> Inl BadJson
         | Some (k, r) \<Rightarrow> if length r < length s \<and> starts 58 (skip_space r) then
             (let s1 = skip_space (tl (skip_space r)) in
              case parse_value d s1 of Inl e \<Rightarrow> Inl e
              | Inr (v, r1) \<Rightarrow> if length r1 < length s1 then
                  (if starts 125 (skip_space r1) then Inr ([(k, v)], tl (skip_space r1))
                   else if starts 44 (skip_space r1)
                   then amend ((#) (k, v)) (parse_members d (skip_space (tl (skip_space r1))))
                   else Inl BadJson)
                else Inl BadJson)
           else Inl BadJson)
      else Inl BadJson)"
  by pat_completeness auto

termination
proof (relation "measure (\<lambda>x. case x of Inl (d, s) \<Rightarrow> 2 * length s | Inr (Inl (d, s)) \<Rightarrow> 2 * length s + 1 | Inr (Inr (d, s)) \<Rightarrow> 2 * length s + 1)",
    goal_cases)
  case (2 d c cs) then show ?case using skip_space_le [of cs] by simp
next
  case (3 d c cs) then show ?case using skip_space_le [of cs] by simp
next
  case (5 d s v p r) then show ?case using skip_tl_le [of r] by simp
next
  case (6 d s x k r y) then show ?case using skip_tl_le [of r] by simp
next
  case (7 d s x k r y z v r1) then show ?case using skip_tl_le [of r] skip_tl_le [of r1] by simp
qed simp_all

definition json_loads :: "interpreter \<Rightarrow> ustr \<Rightarrow> json_fault + lval" where
  "json_loads d s = (case parse_value d (skip_space s) of Inl e \<Rightarrow> Inl e
     | Inr (v, r) \<Rightarrow> if skip_space r = [] then Inr v else Inl BadJson)"

lemma utf8_decode_char:
  assumes "scalar c"
  shows "utf8_decode (utf8_char c @ r) = map_option ((#) c) (utf8_decode r)"
proof -
  consider "c < 0x80" | "0x80 \<le> c" "c < 0x800" | "0x800 \<le> c" "c < 0x10000" | "0x10000 \<le> c" by linarith
  then show ?thesis
  proof cases
    case 1
    then show ?thesis by (simp add: utf8_char_def)
  next
    case 2
    then have "2 \<le> c div 64" "c div 64 < 32" by (simp_all add: less_mult_imp_div_less less_eq_div_iff_mult_less_eq)
    with 2 base_64(1) [of c] show ?thesis by (simp add: utf8_char_def continuation_def)
  next
    case 3
    then have "c div 4096 < 16" by (simp add: less_mult_imp_div_less)
    with 3 base_64(2) [of c] assms show ?thesis by (simp add: utf8_char_def continuation_def scalar_def Let_def)
  next
    case 4
    moreover have "c < 0x110000" using assms by (simp add: scalar_def)
    moreover from this have "c div 262144 < 5" by (simp add: less_mult_imp_div_less)
    ultimately show ?thesis using base_64(3) [of c] by (simp add: utf8_char_def continuation_def Let_def)
  qed
qed

lemma utf8_decode_encode: "list_all scalar s \<Longrightarrow> utf8_decode (concat (map utf8_char s)) = Some s"
  by (induction s) (simp_all add: utf8_decode_char)

lemma hex_value_code: "d < 16 \<Longrightarrow> hex_value (hex_code d) = Some d"
  by (auto simp: hex_value_def hex_code_def)

lemma scan_string_esc:
  "scan_string (esc c @ r) = map_option (apfst ((#) c)) (scan_string r)"
proof -
  consider "c \<in> {34, 92, 10, 13, 9, 12, 8}" | "c < 32" "c \<notin> {34, 92, 10, 13, 9, 12, 8}"
    | "32 \<le> c" "c \<noteq> 34" "c \<noteq> 92" by fastforce
  then show ?thesis
  proof cases
    case 1
    then show ?thesis by (elim insertE) (simp_all add: esc_def scan_escape_def starts_def simple_escape_def)
  next
    case 2
    have "hex_value 48 = Some 0" by (simp add: hex_value_def)
    moreover have "hex_value (hex_code (c div 16)) = Some (c div 16)" "hex_value (hex_code (c mod 16)) = Some (c mod 16)"
      using 2(1) by (simp_all add: hex_value_code)
    moreover have "16 * (c div 16) + c mod 16 = c" by simp
    ultimately have "scan_escape (117 # 48 # 48 # hex_code (c div 16) # hex_code (c mod 16) # r) = Some (c, r)"
      using 2(1) by (simp add: scan_escape_def starts_def hex4_def)
    with 2 show ?thesis by (simp add: esc_def)
  next
    case 3
    then show ?thesis by (simp add: esc_def)
  qed
qed

lemma scan_json_string: "scan_string (concat (map esc s) @ 34 # r) = Some (s, r)"
  by (induction s) (simp_all add: scan_string_esc)

lemma value_end_stops: "value_end r \<Longrightarrow> stops r"
  by (auto simp: value_end_def stops_def is_digit_def)

lemma dec_text_zero: "hd (dec_text n) = 48 \<Longrightarrow> dec_text n = [48]"
proof (induction n rule: dec_text.induct)
  case (1 n)
  show ?case
  proof (cases "n < 10")
    case True
    then have "dec_text n = [48 + n]" by (subst dec_text.simps) simp
    with 1 show ?thesis by simp
  next
    case False
    then have t: "dec_text n = dec_text (n div 10) @ [48 + n mod 10]" by (simp add: dec_text.simps [of n])
    with 1 False have z: "dec_text (n div 10) = [48]" by simp
    then have "n div 10 = 0" using dec_value_text [of "n div 10"] by simp
    with False show ?thesis by simp
  qed
qed

lemma scan_number_int:
  assumes "value_end r" "digits_ok d (dec_text (nat \<bar>i\<bar>))"
  shows "scan_number d (int_text i @ r) = Some (LInt i, r)"
proof -
  have stop: "fst (scan_fraction r) = []" "snd (scan_fraction r) = r" "scan_exponent r = (None, r)"
    using assms by (auto simp: value_end_def scan_fraction_def scan_exponent_def starts_def)
  have d: "takeWhile is_digit (dec_text n @ r) = dec_text n" for n
    using value_end_stops [OF assms(1)] by (rule takeWhile_dec_text)
  have digits: "(if starts 48 (dec_text n @ r) then [48] else fst (scan_digits (dec_text n @ r))) = dec_text n" for n
  proof (cases "hd (dec_text n) = 48")
    case True
    from dec_text_zero [OF this] show ?thesis by (simp add: starts_def)
  next
    case False
    then have "\<not> starts 48 (dec_text n @ r)" by (simp add: starts_def)
    then show ?thesis by (simp add: scan_digits_def d)
  qed
  have neg: "\<not> starts 45 (dec_text n @ r)" for n
    using dec_text_hd [of n] by (cases "dec_text n") (auto simp: starts_def is_digit_def)
  have s45: "starts 45 (45 # x)" for x by (simp add: starts_def)
  obtain f1 f2 where f: "scan_fraction r = (f1, f2)" by fastforce
  have "scan_unsigned d b (dec_text n @ r) = Some (LInt (if b then - int n else int n), r)"
    if "digits_ok d (dec_text n)" for b n
    using stop f that unfolding scan_unsigned_def digits by (simp add: dec_value_text del: dec_value.simps)
  then show ?thesis using assms(2) by (auto simp: int_text_def scan_number_def neg s45)
qed

lemma scan_string_less: "scan_string s = Some (x, r) \<Longrightarrow> length r < length s"
proof (induction s arbitrary: x rule: scan_string.induct)
  case (2 c cs)
  then show ?case
    by (auto simp: apfst_def map_prod_def split: if_splits option.splits prod.splits dest: scan_escape_less)
       (metis (no_types, lifting) less_Suc_eq order_less_trans scan_escape_less)+
qed simp

lemma scan_number_less: "scan_number i s = Some (v, r) \<Longrightarrow> length r < length s"
proof -
  have "length (snd (scan_fraction s)) \<le> length s" for s
    using length_dropWhile_le [of is_digit "tl s"] by (auto simp: scan_fraction_def scan_digits_def)
  moreover have "length (snd (scan_exponent s)) \<le> length s" for s
  proof -
    have "length (dropWhile is_digit (tl s)) \<le> length s" "length (dropWhile is_digit (tl (tl s))) \<le> length s"
      using length_dropWhile_le [of is_digit "tl s"] length_dropWhile_le [of is_digit "tl (tl s)"] by auto
    then show ?thesis by (auto simp: scan_exponent_def scan_digits_def Let_def)
  qed
  ultimately have "length (snd (scan_exponent (snd (scan_fraction s)))) \<le> length s" for s
    using order_trans by blast
  then have "scan_unsigned i b s = Some (v, r) \<Longrightarrow> length r < length s" for b s v
  proof (cases "s = []")
    case False
    define ds where "ds = (if starts 48 s then [48] else fst (scan_digits s))"
    assume le: "\<And>s. length (snd (scan_exponent (snd (scan_fraction s)))) \<le> length s"
      and "scan_unsigned i b s = Some (v, r)"
    then have "ds \<noteq> []" "r = drop (length ds) s \<or> r = snd (scan_exponent (snd (scan_fraction (drop (length ds) s))))"
      by (auto simp: scan_unsigned_def Let_def ds_def [symmetric] split: if_splits prod.splits)
    with le [of "drop (length ds) s"] have "length r \<le> length s - length ds" by auto
    moreover have "0 < length ds" "0 < length s" using \<open>ds \<noteq> []\<close> False by simp_all
    ultimately show ?thesis by linarith
  qed (simp add: scan_unsigned_def Let_def starts_def scan_digits_def)
  moreover assume "scan_number i s = Some (v, r)"
  ultimately show ?thesis by (cases s) (force simp: scan_number_def split: if_splits)+
qed

lemma suffix_skip: "suffix (skip_space s) s" "suffix (tl s) s"
  by (simp_all add: skip_space_def suffix_dropWhile suffix_tl)

lemma hex4_suffix: "hex4 s = Some (n, r) \<Longrightarrow> suffix r s"
  by (auto simp: hex4_def suffix_drop split: if_splits)

lemma scan_escape_suffix: "scan_escape s = Some (c, r) \<Longrightarrow> suffix r s"
  by (auto simp: scan_escape_def bind_eq_Some_conv suffix_tl split: if_splits
      intro: suffix_order.trans [OF _ suffix_tl] dest!: hex4_suffix)
    (meson suffix_drop suffix_order.trans suffix_tl)

lemma scan_string_suffix: "scan_string s = Some (x, r) \<Longrightarrow> suffix r s"
proof (induction s arbitrary: x rule: scan_string.induct)
  case (2 c cs)
  have e: "suffix y (c # cs)" if "scan_escape cs = Some (z, w)" "suffix y w" for y z w
    using scan_escape_suffix [OF that(1)] that(2) by (meson suffix_ConsI suffix_order.trans)
  from 2 e show ?case
    by (auto simp: apfst_def map_prod_def split: if_splits option.splits prod.splits intro: suffix_ConsI)
qed simp

lemma scan_number_suffix: "scan_number i s = Some (v, r) \<Longrightarrow> suffix r s"
proof -
  have f: "suffix (snd (scan_fraction s)) s" for s
    by (auto simp: scan_fraction_def scan_digits_def intro: suffix_order.trans [OF suffix_dropWhile suffix_tl])
  have e: "suffix (snd (scan_exponent s)) s" for s
    by (auto simp: scan_exponent_def scan_digits_def Let_def
        intro: suffix_order.trans [OF suffix_dropWhile suffix_tl]
          suffix_order.trans [OF suffix_dropWhile suffix_order.trans [OF suffix_tl suffix_tl]])
  have u: "suffix r s" if "scan_unsigned i b s = Some (v, r)" for b s
    using that f e by (auto simp: scan_unsigned_def Let_def suffix_drop split: if_splits prod.splits
        intro: suffix_order.trans) (metis snd_conv suffix_drop suffix_order.trans)+
  assume "scan_number i s = Some (v, r)"
  then show ?thesis using u [of False s] u [of True "tl s"] suffix_tl [of s]
    by (auto simp: scan_number_def split: if_splits intro: suffix_order.trans)
qed

lemma amend_Inr [simp]: "amend f x = Inr (w, r) \<longleftrightarrow> (\<exists>v. x = Inr (v, r) \<and> w = f v)"
  by (cases x) auto

lemma amend_Inl [simp]: "amend f x = Inl e \<longleftrightarrow> x = Inl e"
  by (cases x) auto

lemma scanned_simps [simp]: "scanned x = Inr y \<longleftrightarrow> x = Some y" "scanned x \<noteq> Inl TooDeep"
  by (cases x; simp)+

declare parse_items.simps [simp del] parse_members.simps [simp del]

lemma parse_suffix:
  "parse_value d s = Inr (v, r) \<Longrightarrow> suffix r s"
  "parse_items d s = Inr (vs, r) \<Longrightarrow> suffix r s"
  "parse_members d s = Inr (ms, r) \<Longrightarrow> suffix r s"
proof (induction d s and d s and d s arbitrary: v r and vs r and ms r rule: parse_value_parse_items_parse_members.induct)
  case (2 d c cs)
  have sk: "suffix (skip_space cs) (c # cs)" "suffix (tl (skip_space cs)) (c # cs)"
    using suffix_skip [of cs] suffix_skip [of "skip_space cs"] by (meson suffix_ConsI suffix_order.trans)+
  have dr: "suffix (drop n cs) (c # cs)" for n by (simp add: suffix_ConsI suffix_drop)
  show ?case using "2.prems" "2.IH" sk dr
    by (auto split: if_splits dest!: scan_number_suffix scan_string_suffix intro: suffix_order.trans suffix_ConsI)
next
  case (3 d s)
  obtain v r1 where v: "parse_value d s = Inr (v, r1)" "length r1 < length s"
    using "3.prems" by (auto simp: parse_items.simps [of d s] simp del: parse_value.simps split: sum.splits if_splits)
  have s1: "suffix r1 s" by (rule "3.IH"(1) [OF v(1)])
  have sk: "suffix (tl (skip_space r1)) s" "suffix (skip_space (tl (skip_space r1))) s"
    using s1 suffix_skip [of r1] suffix_skip [of "skip_space r1"] suffix_skip(1) [of "tl (skip_space r1)"]
    by (meson suffix_order.trans)+
  show ?case
  proof (cases "starts 93 (skip_space r1)")
    case True
    with v sk "3.prems" show ?thesis by (auto simp: parse_items.simps [of d s] simp del: parse_value.simps)
  next
    case False
    with v "3.prems" obtain vs' where s: "starts 44 (skip_space r1)" "parse_items d (skip_space (tl (skip_space r1))) = Inr (vs', r)"
      by (auto simp: parse_items.simps [of d s] simp del: parse_value.simps split: if_splits)
    from "3.IH"(2) [OF v(1) refl v(2) False s] sk show ?thesis by (meson suffix_order.trans)
  qed
next
  case (4 d s)
  obtain k r0 where k: "starts 34 s" "scan_string (tl s) = Some (k, r0)" "length r0 < length s \<and> starts 58 (skip_space r0)"
    using "4.prems" by (auto simp: parse_members.simps [of d s] split: if_splits option.splits)
  let ?s1 = "skip_space (tl (skip_space r0))"
  obtain v r1 where v: "parse_value d ?s1 = Inr (v, r1)" "length r1 < length ?s1"
    using "4.prems" k by (auto simp: parse_members.simps [of d s] Let_def simp del: parse_value.simps split: sum.splits if_splits)
  have "suffix r0 s" using scan_string_suffix [OF k(2)] suffix_skip(2) by (rule suffix_order.trans)
  then have "suffix ?s1 s" using suffix_skip [of r0] suffix_skip [of "skip_space r0"] suffix_skip(1) [of "tl (skip_space r0)"]
    by (meson suffix_order.trans)
  moreover have "suffix r1 ?s1" by (rule "4.IH"(1) [OF k(1,2) refl k(3) refl v(1)])
  ultimately have s1: "suffix r1 s" by (meson suffix_order.trans)
  have sk: "suffix (tl (skip_space r1)) s" "suffix (skip_space (tl (skip_space r1))) s"
    using s1 suffix_skip [of r1] suffix_skip [of "skip_space r1"] suffix_skip(1) [of "tl (skip_space r1)"]
    by (meson suffix_order.trans)+
  show ?case
  proof (cases "starts 125 (skip_space r1)")
    case True
    with v k sk "4.prems" show ?thesis by (auto simp: parse_members.simps [of d s] Let_def simp del: parse_value.simps)
  next
    case False
    with v k "4.prems" obtain ms' where s: "starts 44 (skip_space r1)" "parse_members d (skip_space (tl (skip_space r1))) = Inr (ms', r)"
      by (auto simp: parse_members.simps [of d s] Let_def simp del: parse_value.simps split: if_splits)
    from "4.IH"(2) [OF k(1,2) refl k(3) refl v(1) refl v(2) False s] sk show ?thesis by (meson suffix_order.trans)
  qed
qed simp

text \<open>The reader runs out of levels only in a text with more brackets than it was given levels.\<close>

definition brackets :: "ustr \<Rightarrow> nat" where
  "brackets s = length (filter (\<lambda>c. c = 91 \<or> c = 123) s)"

lemma brackets_suffix: "suffix r s \<Longrightarrow> brackets r \<le> brackets s"
  by (auto simp: suffix_def brackets_def)

lemma parse_too_deep:
  "parse_value d s = Inl TooDeep \<Longrightarrow> in_levels d < brackets s"
  "parse_items d s = Inl TooDeep \<Longrightarrow> in_levels d < brackets s"
  "parse_members d s = Inl TooDeep \<Longrightarrow> in_levels d < brackets s"
proof (induction d s and d s and d s rule: parse_value_parse_items_parse_members.induct)
  case (2 d c cs)
  have "brackets (skip_space cs) \<le> brackets cs" by (rule brackets_suffix [OF suffix_skip(1)])
  then show ?case using "2.prems" "2.IH" by (auto simp: brackets_def below_def split: if_splits)
next
  case (3 d s)
  show ?case
  proof (cases "parse_value d s")
    case (Inl e)
    with "3.prems" "3.IH"(1) show ?thesis by (simp add: parse_items.simps [of d s] del: parse_value.simps)
  next
    case (Inr x)
    obtain v r where x: "x = (v, r)" by (cases x)
    have "suffix (skip_space (tl (skip_space r))) s"
      using parse_suffix(1) [OF Inr [unfolded x]] suffix_skip [of r] suffix_skip [of "skip_space r"] suffix_skip(1) [of "tl (skip_space r)"]
      by (meson suffix_order.trans)
    from brackets_suffix [OF this] show ?thesis using "3.prems" "3.IH"(2) [OF Inr [unfolded x] refl] Inr
      by (auto simp: parse_items.simps [of d s] x simp del: parse_value.simps split: if_splits)
  qed
next
  case (4 d s)
  then obtain k r0 where k: "starts 34 s" "scan_string (tl s) = Some (k, r0)" "length r0 < length s \<and> starts 58 (skip_space r0)"
    by (auto simp: parse_members.simps [of d s] split: if_splits option.splits)
  let ?s1 = "skip_space (tl (skip_space r0))"
  have "suffix r0 s" using scan_string_suffix [OF k(2)] suffix_skip(2) by (rule suffix_order.trans)
  then have s1: "suffix ?s1 s" using suffix_skip [of r0] suffix_skip [of "skip_space r0"] suffix_skip(1) [of "tl (skip_space r0)"]
    by (meson suffix_order.trans)
  show ?case
  proof (cases "parse_value d ?s1")
    case (Inl e)
    with "4.prems" k have "e = TooDeep" by (simp add: parse_members.simps [of d s] Let_def del: parse_value.simps)
    with "4.IH"(1) [OF k(1,2) refl k(3) refl] Inl brackets_suffix [OF s1] show ?thesis by simp
  next
    case (Inr x)
    obtain v r where x: "x = (v, r)" by (cases x)
    have "suffix (skip_space (tl (skip_space r))) s"
      using s1 parse_suffix(1) [OF Inr [unfolded x]] suffix_skip [of r] suffix_skip [of "skip_space r"] suffix_skip(1) [of "tl (skip_space r)"]
      by (meson suffix_order.trans)
    from brackets_suffix [OF this] show ?thesis using "4.prems" "4.IH"(2) [OF k(1,2) refl k(3) refl Inr [unfolded x] refl] Inr k
      by (auto simp: parse_members.simps [of d s] Let_def x simp del: parse_value.simps split: if_splits)
  qed
qed simp

lemma json_loads_too_deep: "json_loads d s = Inl TooDeep \<Longrightarrow> in_levels d < brackets s"
proof -
  assume "json_loads d s = Inl TooDeep"
  then have "parse_value d (skip_space s) = Inl TooDeep" by (auto simp: json_loads_def split: sum.splits if_splits)
  then show ?thesis using parse_too_deep(1) brackets_suffix [OF suffix_skip(1), of s] by fastforce
qed

lemma json_loads_deep: "json_loads d (replicate (Suc (in_levels d)) 91 @ s) = Inl TooDeep"
proof -
  have k: "skip_space (replicate (Suc n) 91 @ s) = replicate (Suc n) 91 @ s" for n
    by (simp add: skip_space_def json_space_def)
  have i: "parse_items d x = Inl TooDeep" if "parse_value d x = Inl TooDeep" for d x
    using that by (simp add: parse_items.simps [of d x] del: parse_value.simps)
  have "parse_value d (replicate (Suc n) 91 @ s) = Inl TooDeep" if "in_levels d = n" for n
    using that
  proof (induction n arbitrary: d)
    case (Suc n)
    have "parse_value (below d) (replicate (Suc n) 91 @ s) = Inl TooDeep" by (rule Suc.IH) (simp add: below_def Suc.prems)
    with k [of n] i Suc.prems show ?case by (simp add: starts_def)
  qed simp
  then show ?thesis by (simp only: json_loads_def k) simp
qed

lemma canonical_hd_space: "skip_space (canonical j @ r) = canonical j @ r"
proof -
  have "hd (canonical j) \<notin> {32, 9, 10, 13}"
  proof (cases j)
    case (JInt i)
    then show ?thesis using int_text_hd [of i] by (auto simp: is_digit_def)
  qed (auto simp: ustr_def json_string_def)
  then show ?thesis using canonical_hd [of j] by (cases "canonical j") (auto simp: skip_space_def json_space_def)
qed

lemma skip_space_other: "c \<notin> {32, 9, 10, 13} \<Longrightarrow> skip_space (c # s) = c # s"
  by (simp add: skip_space_def json_space_def)

lemma parse_items_join:
  assumes "xs \<noteq> []" "\<And>x r. x \<in> set xs \<Longrightarrow> value_end r \<Longrightarrow> parse_value d (canonical x @ r) = Inr (f x, r)"
  shows "parse_items d (ujoin (map canonical xs) @ 93 # r) = Inr (map f xs, r)"
  using assms
proof (induction xs)
  case (Cons x xs)
  have x: "canonical x \<noteq> []" using canonical_hd by blast
  show ?case
  proof (cases "xs = []")
    case True
    with Cons.prems(2) [of x "93 # r"] x show ?thesis
      by (simp add: parse_items.simps [of d "canonical x @ 93 # r"] value_end_def skip_space_other starts_def del: parse_value.simps)
  next
    case False
    then obtain y ys where xs: "xs = y # ys" by (cases xs) auto
    let ?t = "ujoin (map canonical xs) @ 93 # r"
    have t: "skip_space ?t = ?t" unfolding xs by (simp add: ujoin_Cons canonical_hd_space del: append_assoc flip: append_assoc)
       (simp add: canonical_hd_space)
    have "parse_value d (canonical x @ 44 # ?t) = Inr (f x, 44 # ?t)" by (rule Cons.prems(2)) (simp_all add: value_end_def)
    moreover have "parse_items d ?t = Inr (map f xs, r)" using Cons False by simp
    ultimately show ?thesis using False x
      by (simp add: ujoin_Cons parse_items.simps [of d "canonical x @ 44 # ?t"] skip_space_other starts_def t del: parse_value.simps)
  qed
qed simp

lemma parse_members_join:
  assumes "ms \<noteq> []" "\<And>k x r. (k, x) \<in> set ms \<Longrightarrow> value_end r \<Longrightarrow> parse_value d (canonical x @ r) = Inr (f x, r)"
  shows "parse_members d (ujoin (map (\<lambda>kv. member_text (fst kv, canonical (snd kv))) ms) @ 125 # r) =
    Inr (map (\<lambda>kv. (fst kv, f (snd kv))) ms, r)"
  using assms
proof (induction ms)
  case (Cons m ms)
  obtain k x where m: "m = (k, x)" by (cases m)
  have x: "canonical x \<noteq> []" using canonical_hd by blast
  have step: "parse_members d (member_text (k, canonical x) @ t) =
     (if starts 125 (skip_space t) then Inr ([(k, f x)], tl (skip_space t))
      else if starts 44 (skip_space t)
      then amend ((#) (k, f x)) (parse_members d (skip_space (tl (skip_space t)))) else Inl BadJson)"
    if "value_end t" for t
  proof -
    have "scan_string (concat (map esc k) @ 34 # 58 # canonical x @ t) = Some (k, 58 # canonical x @ t)"
      by (rule scan_json_string)
    moreover have "parse_value d (canonical x @ t) = Inr (f x, t)" using Cons.prems(2) [of k x t] that by (simp add: m)
    ultimately show ?thesis using x
      by (simp add: parse_members.simps [of d "34 # _"] member_text_def json_string_def starts_def
          skip_space_other canonical_hd_space del: parse_value.simps)
  qed
  show ?case
  proof (cases "ms = []")
    case True
    with step [of "125 # r"] show ?thesis by (simp add: m value_end_def skip_space_other starts_def)
  next
    case False
    let ?t = "ujoin (map (\<lambda>kv. member_text (fst kv, canonical (snd kv))) ms) @ 125 # r"
    from False obtain n ns where ms: "ms = n # ns" by (cases ms) auto
    have t: "skip_space ?t = ?t"
      unfolding ms by (simp add: ujoin_Cons member_text_def json_string_def skip_space_other)
    have "parse_members d ?t = Inr (map (\<lambda>kv. (fst kv, f (snd kv))) ms, r)" using Cons False by fastforce
    with False step [of "44 # ?t"] show ?thesis
      by (simp add: ujoin_Cons m value_end_def skip_space_other starts_def t)
  qed
qed simp

lemma dict_put_new: "k \<notin> fst ` set m \<Longrightarrow> dict_put m k v = m @ [(k, v)]"
  by (induction m k v rule: dict_put.induct) auto

lemma dict_of_pairs_distinct:
  assumes "distinct (map fst kvs)"
  shows "dict_of_pairs kvs = kvs"
proof -
  have "foldl (\<lambda>m (k, v). dict_put m k v) m kvs = m @ kvs" if "distinct (map fst (m @ kvs))" for m
    using that by (induction kvs arbitrary: m) (auto simp: dict_put_new image_Un)
  from this [of "[]"] assms show ?thesis by (simp add: dict_of_pairs_def)
qed

theorem parse_canonical:
  assumes "proper j" "readable j d" "value_end r"
  shows "parse_value d (canonical j @ r) = Inr (loaded (normal j), r)"
  using assms
proof (induction j arbitrary: d r)
  case (JInt i)
  have "scan_number d (int_text i @ r) = Some (LInt i, r)" using JInt by (intro scan_number_int) simp_all
  moreover obtain c cs where c: "int_text i @ r = c # cs" using int_text_hd(2) [of i] by (cases "int_text i") auto
  moreover have "c \<notin> {34, 123, 91, 110, 116, 102}" using int_text_hd [of i] c by (cases "int_text i") (auto simp: is_digit_def)
  ultimately show ?case by (simp add: ustr_def)
next
  case (JList xs)
  have d: "in_levels d \<noteq> 0" using JList.prems(2) by simp
  show ?case
  proof (cases "xs = []")
    case True
    with d show ?thesis by (simp add: skip_space_other starts_def)
  next
    case False
    then obtain y ys where xs: "xs = y # ys" by (cases xs) auto
    let ?t = "ujoin (map canonical xs) @ 93 # r"
    have t: "skip_space ?t = ?t" unfolding xs ujoin_Cons list.map append_assoc by (rule canonical_hd_space)
    have s: "\<not> starts 93 ?t" using canonical_hd [of y] by (cases "canonical y") (auto simp: xs ujoin_Cons starts_def)
    have "parse_items (below d) ?t = Inr (map (loaded \<circ> normal) xs, r)"
      using False JList by (intro parse_items_join) (auto simp: list_all_iff)
    with t s d show ?thesis by (simp add: comp_def)
  qed
next
  case (JObj items)
  have d: "in_levels d \<noteq> 0" using JObj.prems(2) by simp
  let ?S = "sort_key (\<lambda>kv. utf16_key (fst kv)) items"
  have m: "mset ?S = mset items" by simp
  show ?case
  proof (cases "items = []")
    case True
    with d show ?thesis by (simp add: skip_space_other starts_def)
  next
    case False
    then have ne: "?S \<noteq> []" by (metis m mset_zero_iff)
    let ?t = "ujoin (map (\<lambda>kv. member_text (fst kv, canonical (snd kv))) ?S) @ 125 # r"
    obtain n ns where ms: "?S = n # ns" using ne by (cases ?S) auto
    have t: "skip_space ?t = ?t" "\<not> starts 125 ?t"
      unfolding ms by (simp_all add: ujoin_Cons member_text_def json_string_def skip_space_other starts_def)
    have "parse_members (below d) ?t = Inr (map (\<lambda>kv. (fst kv, loaded (normal (snd kv)))) ?S, r)"
    proof (rule parse_members_join [OF ne])
      fix k x r assume "(k, x) \<in> set ?S" "value_end r"
      then show "parse_value (below d) (canonical x @ r) = Inr (loaded (normal x), r)"
        using JObj.IH [of "(k, x)" x "below d" r] JObj.prems(1,2) by (force simp: list_all_iff)
    qed
    moreover have "distinct (map fst ?S)"
      using JObj.prems(1) by (metis m mset_map proper.simps(6) mset_eq_imp_distinct_iff)
    then have "dict_of_pairs (map (\<lambda>kv. (fst kv, loaded (normal (snd kv)))) ?S) =
        map (\<lambda>kv. (fst kv, loaded (normal (snd kv)))) ?S"
      by (intro dict_of_pairs_distinct) (simp add: comp_def)
    ultimately show ?thesis using t d unfolding canonical_obj_text normal_obj
      by (simp add: comp_def)
  qed
qed (simp_all add: ustr_def json_string_def scan_json_string)

subsection \<open>Reading UUIDs\<close>

subsection \<open>Lines of bytes\<close>

lemma hex_number_digits:
  assumes "\<And>i. i < m \<Longrightarrow> f i < 16"
  shows "hex_number (map (\<lambda>i. of_char (hex_digit (int (f i)))) [0..<m]) 0 = Some (\<Sum>i<m. f i * 16 ^ (m - 1 - i))"
proof -
  have d: "hex_value (of_char (hex_digit (int k))) = Some k" if "k < 16" for k
  proof -
    have "k \<in> {0..<16}" using that by simp
    then have "k \<in> set [0,1,2,3,4,5,6,7,8,9,10,11,12,13,14,15]" by (simp add: numeral_eq_Suc less_Suc_eq)
    then show ?thesis by (auto simp: hex_digit_def hex_value_def)
  qed
  have snoc: "hex_number (xs @ [x]) n = Option.bind (hex_number xs n) (\<lambda>v. Option.bind (hex_value x) (\<lambda>d. Some (16 * v + d)))" for xs x n
    by (induction xs arbitrary: n) (auto simp: Option.bind_assoc split: bind_split)
  show ?thesis using assms
  proof (induction m)
    case (Suc m)
    have "(\<Sum>i<m. f i * 16 ^ (m - i)) = 16 * (\<Sum>i<m. f i * 16 ^ (m - 1 - i))"
      unfolding sum_distrib_left
    proof (rule sum.cong)
      fix i assume "i \<in> {..<m}"
      then have "m - i = Suc (m - 1 - i)" by simp
      then show "f i * 16 ^ (m - i) = 16 * (f i * 16 ^ (m - 1 - i))" by (simp only: power_Suc mult.left_commute)
    qed simp
    with Suc show ?case by (simp add: snoc d)
  qed simp
qed

lemma base16_digits:
  fixes n :: nat
  assumes "n < 16 ^ m"
  shows "(\<Sum>i<m. n div 16 ^ (m - 1 - i) mod 16 * 16 ^ (m - 1 - i)) = n"
  using assms
proof (induction m arbitrary: n)
  case (Suc m)
  have "(\<Sum>i<m. n div 16 ^ (m - i) mod 16 * 16 ^ (m - i)) = 16 * (\<Sum>i<m. (n div 16) div 16 ^ (m - 1 - i) mod 16 * 16 ^ (m - 1 - i))"
    unfolding sum_distrib_left
  proof (rule sum.cong)
    fix i assume "i \<in> {..<m}"
    then have "m - i = Suc (m - 1 - i)" by simp
    then show "n div 16 ^ (m - i) mod 16 * 16 ^ (m - i) = 16 * (n div 16 div 16 ^ (m - 1 - i) mod 16 * 16 ^ (m - 1 - i))"
      by (simp only: power_Suc div_mult2_eq mult.left_commute)
  qed simp
  also have "\<dots> = 16 * (n div 16)" using Suc by (simp add: less_mult_imp_div_less mult.commute)
  finally show ?case by simp
qed simp

lemma uuid_plain_hex: "uuid_plain (ustr (uuid_hex u)) = Some u"
proof -
  have d: "uint u div 16 ^ k mod 16 = int (unat u div 16 ^ k mod 16)" for k
    unfolding uint_nat by (simp only: zdiv_int zmod_int of_nat_power of_nat_numeral)
  have e: "ustr (uuid_hex u) = map (\<lambda>i. of_char (hex_digit (int (unat u div 16 ^ (32 - 1 - i) mod 16)))) [0..<32]"
    by (simp add: ustr_def uuid_hex_def d del: upt_rec_numeral)
  have "unat u < 2 ^ LENGTH(128)" by (rule unsigned_less)
  then have "unat u < 16 ^ 32" by simp
  from base16_digits [OF this] have "hex_number (ustr (uuid_hex u)) 0 = Some (unat u)"
    unfolding e by (subst hex_number_digits) simp_all
  then show ?thesis by (simp add: uuid_plain_def)
qed

lemma uuid_read_str [simp]: "uuid_read (ustr (uuid_str u)) = Some u"
proof -
  define h where "h = ustr (uuid_hex u)"
  have l: "length h = 32" by (simp add: h_def ustr_def uuid_hex_def)
  have s: "ustr (uuid_str u) = take 8 h @ 45 # take 4 (drop 8 h) @ 45 # take 4 (drop 12 h) @ 45 # take 4 (drop 16 h) @ 45 # drop 20 h"
    by (simp add: uuid_str_def ustr_def h_def Let_def take_map drop_map)
  have cut: "take m (drop n h) @ drop (n + m) h = drop n h" for m n
    by (metis add.commute append_take_drop_id drop_drop)
  have "take 8 h @ take 4 (drop 8 h) @ take 4 (drop 12 h) @ take 4 (drop 16 h) @ drop 20 h = h"
    using cut [of 4 8] cut [of 4 12] cut [of 4 16] by (simp add: append_take_drop_id [of 8 h])
  with l have "uuid_hyphenated (ustr (uuid_str u)) = uuid_plain h"
    unfolding s uuid_hyphenated_def by (simp add: nth_append)
  moreover have "length (ustr (uuid_str u)) = 36" unfolding s using l by simp
  ultimately show ?thesis by (simp add: uuid_read_def uuid_plain_hex h_def)
qed

lemma split_lines_line:
  assumes "10 \<notin> set xs" "13 \<notin> set xs"
  shows "split_lines (xs @ 10 # r) = (xs @ [10]) # split_lines r"
  using assms by (induction xs) auto

lemma split_lines_join:
  assumes "\<And>x. x \<in> set xs \<Longrightarrow> 10 \<notin> set x \<and> 13 \<notin> set x"
  shows "split_lines (concat (map (\<lambda>x. x @ [10]) xs)) = map (\<lambda>x. x @ [10]) xs"
  using assms by (induction xs) (simp_all add: split_lines_line)

lemma concat_split_lines: "concat (split_lines bs) = bs"
proof (induction bs rule: split_lines.induct)
  case (2 b bs)
  show ?case
  proof (cases "b = 10 \<or> b = 13")
    case True
    with 2 show ?thesis by (cases bs) (auto simp: starts_def)
  next
    case False
    with 2 show ?thesis by (cases "split_lines bs") auto
  qed
qed simp

text \<open>Canonical text has no control characters, so it is one line.\<close>

lemma canonical_printable: "c \<in> set (canonical j) \<Longrightarrow> 32 \<le> c"
proof (induction j arbitrary: c)
  case (JNull) then show ?case by (auto simp: ustr_def)
next
  case (JBool b) then show ?case by (auto simp: ustr_def split: if_splits)
next
  case (JInt i)
  have "list_all is_digit (dec_text n)" for n by (rule dec_text_digits)
  with JInt show ?case by (force simp: int_text_def list_all_iff is_digit_def split: if_splits)
next
  case (JStr s)
  have "\<forall>d \<in> set (esc c). 32 \<le> d" for c by (auto simp: esc_def hex_code_def)
  with JStr show ?case by (auto simp: json_string_def)
next
  case (JList xs)
  have u: "set (ujoin ts) \<subseteq> insert 44 (\<Union> (set ` set ts))" for ts by (induction ts rule: ujoin.induct) auto
  from JList u [of "map canonical xs"] show ?case by auto
next
  case (JObj items)
  have u: "set (ujoin ts) \<subseteq> insert 44 (\<Union> (set ` set ts))" for ts by (induction ts rule: ujoin.induct) auto
  have e: "\<forall>d \<in> set (esc c). 32 \<le> d" for c by (auto simp: esc_def hex_code_def)
  have "\<forall>d \<in> set (member_text (fst kv, canonical (snd kv))). 32 \<le> d" if "kv \<in> set items" for kv
    using e JObj.IH [of kv "snd kv"] that by (cases kv) (auto simp: member_text_def json_string_def)
  with JObj.prems u show ?case unfolding canonical_obj_text by fastforce
qed

lemma canonical_bytes_one_line: "10 \<notin> set (canonical_bytes j) \<and> 13 \<notin> set (canonical_bytes j)"
proof -
  have "32 \<le> b" if "32 \<le> c" "b \<in> set (utf8_char c)" for b c
    using that by (auto simp: utf8_char_def split: if_splits)
  then have "32 \<le> b" if "b \<in> set (canonical_bytes j)" for b
    using that canonical_printable [of _ j] by (auto simp: canonical_bytes_def)
  from this [of 10] this [of 13] show ?thesis by auto
qed

lemma json_loads_canonical:
  assumes "proper j" "readable j d"
  shows "json_loads d (canonical j @ [10]) = Inr (loaded (normal j))"
proof -
  have "parse_value d (canonical j @ [10]) = Inr (loaded (normal j), [10])"
    by (rule parse_canonical [OF assms]) (simp add: value_end_def)
  moreover have "skip_space [10] = []" by (simp add: skip_space_def json_space_def)
  ultimately show ?thesis by (simp add: json_loads_def canonical_hd_space)
qed

lemma utf8_decode_line:
  assumes "scalars j"
  shows "utf8_decode (canonical_bytes j @ [10]) = Some (canonical j @ [10])"
proof -
  have "list_all scalar (canonical j @ [10])" using canonical_scalar [OF assms] by (simp add: scalar_def surrogate_def)
  from utf8_decode_encode [OF this] show ?thesis by (simp add: canonical_bytes_def utf8_char_def)
qed


lemma py_of_loaded: "py_of (loaded j) = thaw j"
proof (induction j)
  case (JObj items)
  have "map_prod VStr py_of (map_prod (\<lambda>k. k) loaded kv) = map_prod VStr thaw kv" if "kv \<in> set items" for kv
    using JObj [of kv "snd kv"] that by (cases kv) simp
  then show ?case by simp
qed simp_all

end
