(* ===== verification/Marl_Trajectory.thy ===== *)
theory Marl_Trajectory
  imports Json_Text Reasoning_Artifacts "HOL-Library.Monad_Syntax"
begin

text \<open>
  The trajectory contracts of \<^verbatim>\<open>domain/marl.py\<close>: exact rationals, the observations, actions, decisions,
  rewards and credits of a decision, the boundary and the transition that hold them, the episode and the
  manifest, each class with its validators (\<open>X_valid\<close>), its JSON form (\<open>X_json\<close>, which \<^verbatim>\<open>model_dump\<close>
  gives), the reading of that form (\<open>X_of\<close>, which \<^verbatim>\<open>model_validate_json\<close> does, with closed schemas and
  defaults) and its constructor that computes the hash (\<open>X_create\<close>). A Python string is the list of its
  code points; a dictionary is represented by its members in the order of their canonical keys, since
  Python's equality and every use of it ignore the order.
\<close>

subsection \<open>Texts and hashes\<close>

definition lower_hex :: "nat \<Rightarrow> bool" where
  "lower_hex c = (48 \<le> c \<and> c \<le> 57 \<or> 97 \<le> c \<and> c \<le> 102)"

text \<open>The pattern of a hash, of identifiers, of versions and of reason codes.\<close>

definition hash_text :: "ustr \<Rightarrow> bool" where
  "hash_text s = (take 7 s = ustr ''sha256:'' \<and> length s = 71 \<and> list_all lower_hex (drop 7 s))"

definition lower_letter :: "nat \<Rightarrow> bool" where
  "lower_letter c = (97 \<le> c \<and> c \<le> 122)"

definition upper_letter :: "nat \<Rightarrow> bool" where
  "upper_letter c = (65 \<le> c \<and> c \<le> 90)"

definition ident_text :: "ustr \<Rightarrow> bool" where
  "ident_text s = (s \<noteq> [] \<and> lower_letter (hd s) \<and> length s \<le> 128 \<and>
     list_all (\<lambda>c. lower_letter c \<or> is_digit c \<or> c \<in> {95, 46, 45}) s)"

definition version_text :: "ustr \<Rightarrow> bool" where
  "version_text s = (s \<noteq> [] \<and> (lower_letter (hd s) \<or> upper_letter (hd s) \<or> is_digit (hd s)) \<and> length s \<le> 128 \<and>
     list_all (\<lambda>c. lower_letter c \<or> upper_letter c \<or> is_digit c \<or> c \<in> {95, 46, 43, 45}) s)"

definition reason_text :: "ustr \<Rightarrow> bool" where
  "reason_text s = (s \<noteq> [] \<and> upper_letter (hd s) \<and> length s \<le> 64 \<and>
     list_all (\<lambda>c. upper_letter c \<or> is_digit c \<or> c = 95) s)"

text \<open>A reason whose pattern is not validated.\<close>

definition reason_code :: "ustr \<Rightarrow> bool" where
  "reason_code s = (s \<noteq> [] \<and> length s \<le> 64 \<and> list_all scalar s)"

definition feasibility_text :: "ustr \<Rightarrow> bool" where
  "feasibility_text s = (s \<in> {ustr ''SAT'', ustr ''UNSAT'', ustr ''UNKNOWN''})"

definition canonical_hash :: "json \<Rightarrow> ustr" where
  "canonical_hash j = ustr (sha256_text (canonical_bytes j))"

text \<open>The form of a model without one of its fields, and its hash.\<close>

fun without :: "string \<Rightarrow> json \<Rightarrow> json" where
  "without name (JObj items) = JObj (filter (\<lambda>kv. fst kv \<noteq> ustr name) items)"
| "without name j = j"

definition own_hash :: "string \<Rightarrow> json \<Rightarrow> ustr" where
  "own_hash name j = canonical_hash (without name j)"

definition zero_hash :: ustr where
  "zero_hash = ustr ''sha256:'' @ replicate 64 48"

text \<open>A JSON value as the model holds it.\<close>

definition plain_json :: "json \<Rightarrow> bool" where
  "plain_json j = (normal j = j \<and> proper j \<and> scalars j)"

fun object_json :: "json \<Rightarrow> bool" where
  "object_json (JObj items) = True"
| "object_json _ = False"

definition plain_object :: "json \<Rightarrow> bool" where
  "plain_object j = (plain_json j \<and> object_json j)"

subsection \<open>Reading the fields of an object\<close>

definition members :: "string list \<Rightarrow> json \<Rightarrow> (ustr \<rightharpoonup> json) option" where
  "members names j = (case j of
     JObj items \<Rightarrow> if fst ` set items \<subseteq> ustr ` set names then Some (map_of items) else None
   | _ \<Rightarrow> None)"

definition required_field :: "(ustr \<rightharpoonup> json) \<Rightarrow> string \<Rightarrow> (json \<Rightarrow> 'a option) \<Rightarrow> 'a option" where
  "required_field m name f = Option.bind (m (ustr name)) f"

definition defaulted :: "(ustr \<rightharpoonup> json) \<Rightarrow> string \<Rightarrow> 'a \<Rightarrow> (json \<Rightarrow> 'a option) \<Rightarrow> 'a option" where
  "defaulted m name d f = (case m (ustr name) of None \<Rightarrow> Some d | Some j \<Rightarrow> f j)"

fun int_of :: "json \<Rightarrow> int option" where
  "int_of (JInt i) = Some i"
| "int_of _ = None"

fun bool_of :: "json \<Rightarrow> bool option" where
  "bool_of (JBool b) = Some b"
| "bool_of _ = None"

fun text_of :: "json \<Rightarrow> ustr option" where
  "text_of (JStr s) = Some s"
| "text_of _ = None"

fun uuid_of :: "json \<Rightarrow> uuid option" where
  "uuid_of (JStr s) = uuid_read s"
| "uuid_of _ = None"

fun nullable :: "(json \<Rightarrow> 'a option) \<Rightarrow> json \<Rightarrow> 'a option option" where
  "nullable f JNull = Some None"
| "nullable f j = map_option Some (f j)"

fun list_of :: "(json \<Rightarrow> 'a option) \<Rightarrow> json \<Rightarrow> 'a list option" where
  "list_of f (JList xs) = those (map f xs)"
| "list_of f _ = None"

definition jlist :: "('a \<Rightarrow> json) \<Rightarrow> 'a list \<Rightarrow> json" where
  "jlist f xs = JList (map f xs)"

definition value_of :: "json \<Rightarrow> json option" where
  "value_of j = Some (normal j)"

definition object_of :: "json \<Rightarrow> json option" where
  "object_of j = (if object_json j then Some (normal j) else None)"

definition enum_of :: "('a \<Rightarrow> string) \<Rightarrow> 'a list \<Rightarrow> json \<Rightarrow> 'a option" where
  "enum_of value all j = Option.bind (text_of j) (\<lambda>s. find (\<lambda>x. ustr (value x) = s) all)"

text \<open>A field with one admitted value.\<close>

definition literal_of :: "json \<Rightarrow> json \<Rightarrow> unit option" where
  "literal_of c j = (if j = c then Some () else None)"

definition validated :: "('a \<Rightarrow> bool) \<Rightarrow> 'a \<Rightarrow> 'a option" where
  "validated ok x = (if ok x then Some x else None)"

subsection \<open>Enumerations\<close>

datatype EpisodeStatus = OPEN | COMPLETE | INCOMPLETE

fun episode_status_value :: "EpisodeStatus \<Rightarrow> string" where
  "episode_status_value OPEN = ''OPEN''"
| "episode_status_value COMPLETE = ''COMPLETE''"
| "episode_status_value INCOMPLETE = ''INCOMPLETE''"

definition episode_status_of :: "json \<Rightarrow> EpisodeStatus option" where
  "episode_status_of = enum_of episode_status_value [OPEN, COMPLETE, INCOMPLETE]"

datatype RewardStatus = OBSERVED | NOT_APPLICABLE | MISSING_INPUT

fun reward_status_value :: "RewardStatus \<Rightarrow> string" where
  "reward_status_value OBSERVED = ''OBSERVED''"
| "reward_status_value NOT_APPLICABLE = ''NOT_APPLICABLE''"
| "reward_status_value MISSING_INPUT = ''MISSING_INPUT''"

definition reward_status_of :: "json \<Rightarrow> RewardStatus option" where
  "reward_status_of = enum_of reward_status_value [OBSERVED, NOT_APPLICABLE, MISSING_INPUT]"

datatype RewardDirection = HIGHER_BETTER | LOWER_BETTER | NO_DIRECTION

fun reward_direction_value :: "RewardDirection \<Rightarrow> string" where
  "reward_direction_value HIGHER_BETTER = ''HIGHER_BETTER''"
| "reward_direction_value LOWER_BETTER = ''LOWER_BETTER''"
| "reward_direction_value NO_DIRECTION = ''NO_DIRECTION''"

definition reward_direction_of :: "json \<Rightarrow> RewardDirection option" where
  "reward_direction_of = enum_of reward_direction_value [HIGHER_BETTER, LOWER_BETTER, NO_DIRECTION]"

datatype CreditStatus = DIRECT | SHARED | ENVIRONMENT | NEUTRAL

fun credit_status_value :: "CreditStatus \<Rightarrow> string" where
  "credit_status_value DIRECT = ''DIRECT''"
| "credit_status_value SHARED = ''SHARED''"
| "credit_status_value ENVIRONMENT = ''ENVIRONMENT''"
| "credit_status_value NEUTRAL = ''NEUTRAL''"

definition credit_status_of :: "json \<Rightarrow> CreditStatus option" where
  "credit_status_of = enum_of credit_status_value [DIRECT, SHARED, ENVIRONMENT, NEUTRAL]"

datatype ActionKind = SPEAK | REQUEST_RETRIEVAL | REQUEST_SIMULATION | END_ROUND | TERMINATE | ESCALATE_TO_HUMAN

fun action_kind_value :: "ActionKind \<Rightarrow> string" where
  "action_kind_value SPEAK = ''SPEAK''"
| "action_kind_value REQUEST_RETRIEVAL = ''REQUEST_RETRIEVAL''"
| "action_kind_value REQUEST_SIMULATION = ''REQUEST_SIMULATION''"
| "action_kind_value END_ROUND = ''END_ROUND''"
| "action_kind_value TERMINATE = ''TERMINATE''"
| "action_kind_value ESCALATE_TO_HUMAN = ''ESCALATE_TO_HUMAN''"

definition action_kind_of :: "json \<Rightarrow> ActionKind option" where
  "action_kind_of = enum_of action_kind_value [SPEAK, REQUEST_RETRIEVAL, REQUEST_SIMULATION, END_ROUND, TERMINATE, ESCALATE_TO_HUMAN]"

datatype DecisionOutcome = DECISION_ACCEPTED | DECISION_REJECTED | NO_PROPOSAL

fun decision_outcome_value :: "DecisionOutcome \<Rightarrow> string" where
  "decision_outcome_value DECISION_ACCEPTED = ''ACCEPTED''"
| "decision_outcome_value DECISION_REJECTED = ''REJECTED''"
| "decision_outcome_value NO_PROPOSAL = ''NO_PROPOSAL''"

definition decision_outcome_of :: "json \<Rightarrow> DecisionOutcome option" where
  "decision_outcome_of = enum_of decision_outcome_value [DECISION_ACCEPTED, DECISION_REJECTED, NO_PROPOSAL]"

subsection \<open>Contracts\<close>

record RationalV1 =
  rt_numerator :: int
  rt_denominator :: int

text \<open>\<^verbatim>\<open>from_fraction\<close> reduces; \<^verbatim>\<open>__add__\<close> and \<^verbatim>\<open>__mul__\<close> compute with fractions.\<close>

definition rational_from :: "rat \<Rightarrow> RationalV1" where
  "rational_from q = \<lparr>rt_numerator = fst (quotient_of q), rt_denominator = snd (quotient_of q)\<rparr>"

definition rational_zero :: RationalV1 where
  "rational_zero = \<lparr>rt_numerator = 0, rt_denominator = 1\<rparr>"

definition fraction :: "RationalV1 \<Rightarrow> rat" where
  "fraction r = Fract (rt_numerator r) (rt_denominator r)"

definition rational_add :: "RationalV1 \<Rightarrow> RationalV1 \<Rightarrow> RationalV1" where
  "rational_add r s = rational_from (fraction r + fraction s)"

definition rational_mult :: "RationalV1 \<Rightarrow> RationalV1 \<Rightarrow> RationalV1" where
  "rational_mult r s = rational_from (fraction r * fraction s)"

definition RationalV1_valid :: "RationalV1 \<Rightarrow> bool" where
  "RationalV1_valid x = (0 < rt_denominator x \<and> gcd (rt_numerator x) (rt_denominator x) = 1)"

definition RationalV1_json :: "RationalV1 \<Rightarrow> json" where
  "RationalV1_json x = jobj [(''numerator'', JInt (rt_numerator x)),
     (''denominator'', JInt (rt_denominator x))]"

definition RationalV1_of :: "json \<Rightarrow> RationalV1 option" where
  "RationalV1_of j = do {
     m \<leftarrow> members [''numerator'', ''denominator''] j;
     numerator \<leftarrow> required_field m ''numerator'' int_of;
     denominator \<leftarrow> required_field m ''denominator'' int_of;
     validated RationalV1_valid \<lparr>rt_numerator = numerator, rt_denominator = denominator\<rparr> }"

record ImplementationRefV1 =
  ir_implementation_id :: ustr
  ir_implementation_version :: ustr

definition ImplementationRefV1_valid :: "ImplementationRefV1 \<Rightarrow> bool" where
  "ImplementationRefV1_valid x = (ident_text (ir_implementation_id x) \<and> version_text (ir_implementation_version x))"

definition ImplementationRefV1_json :: "ImplementationRefV1 \<Rightarrow> json" where
  "ImplementationRefV1_json x = jobj [(''implementation_id'', JStr (ir_implementation_id x)),
     (''implementation_version'', JStr (ir_implementation_version x))]"

definition ImplementationRefV1_of :: "json \<Rightarrow> ImplementationRefV1 option" where
  "ImplementationRefV1_of j = do {
     m \<leftarrow> members [''implementation_id'', ''implementation_version''] j;
     implementation_id \<leftarrow> required_field m ''implementation_id'' text_of;
     implementation_version \<leftarrow> required_field m ''implementation_version'' text_of;
     validated ImplementationRefV1_valid \<lparr>ir_implementation_id = implementation_id, ir_implementation_version = implementation_version\<rparr> }"

record SourceSnapshotV1 =
  ss_source_id :: uuid
  ss_source_kind :: ustr
  ss_source_version :: int
  ss_payload :: json
  ss_snapshot_hash :: ustr

definition SourceSnapshotV1_valid :: "SourceSnapshotV1 \<Rightarrow> bool" where
  "SourceSnapshotV1_valid x = (ident_text (ss_source_kind x) \<and> 1 \<le> ss_source_version x \<and> plain_object (ss_payload x) \<and> hash_text (ss_snapshot_hash x))"

definition SourceSnapshotV1_json :: "SourceSnapshotV1 \<Rightarrow> json" where
  "SourceSnapshotV1_json x = jobj [(''schema_version'', JInt 1),
     (''source_id'', juuid (ss_source_id x)),
     (''source_kind'', JStr (ss_source_kind x)),
     (''source_version'', JInt (ss_source_version x)),
     (''payload'', ss_payload x),
     (''snapshot_hash'', JStr (ss_snapshot_hash x))]"

definition SourceSnapshotV1_of :: "json \<Rightarrow> SourceSnapshotV1 option" where
  "SourceSnapshotV1_of j = do {
     m \<leftarrow> members [''schema_version'', ''source_id'', ''source_kind'', ''source_version'', ''payload'', ''snapshot_hash''] j;
     _ \<leftarrow> defaulted m ''schema_version'' () (literal_of (JInt 1));
     source_id \<leftarrow> required_field m ''source_id'' uuid_of;
     source_kind \<leftarrow> required_field m ''source_kind'' text_of;
     source_version \<leftarrow> required_field m ''source_version'' int_of;
     payload \<leftarrow> required_field m ''payload'' object_of;
     snapshot_hash \<leftarrow> required_field m ''snapshot_hash'' text_of;
     validated SourceSnapshotV1_valid \<lparr>ss_source_id = source_id, ss_source_kind = source_kind, ss_source_version = source_version, ss_payload = payload, ss_snapshot_hash = snapshot_hash\<rparr> }"

definition SourceSnapshotV1_create :: "SourceSnapshotV1 \<Rightarrow> SourceSnapshotV1 option" where
  "SourceSnapshotV1_create x = map_option (\<lambda>y. y\<lparr>ss_snapshot_hash := own_hash ''snapshot_hash'' (SourceSnapshotV1_json y)\<rparr>) (validated SourceSnapshotV1_valid (x\<lparr>ss_snapshot_hash := zero_hash\<rparr>))"

record ObservationSourceV1 =
  os_ordinal :: int
  os_snapshot :: SourceSnapshotV1
  os_source_hash :: ustr

definition ObservationSourceV1_valid :: "ObservationSourceV1 \<Rightarrow> bool" where
  "ObservationSourceV1_valid x = (0 \<le> os_ordinal x \<and> SourceSnapshotV1_valid (os_snapshot x) \<and> hash_text (os_source_hash x))"

definition ObservationSourceV1_json :: "ObservationSourceV1 \<Rightarrow> json" where
  "ObservationSourceV1_json x = jobj [(''schema_version'', JInt 1),
     (''ordinal'', JInt (os_ordinal x)),
     (''snapshot'', SourceSnapshotV1_json (os_snapshot x)),
     (''source_hash'', JStr (os_source_hash x))]"

definition ObservationSourceV1_of :: "json \<Rightarrow> ObservationSourceV1 option" where
  "ObservationSourceV1_of j = do {
     m \<leftarrow> members [''schema_version'', ''ordinal'', ''snapshot'', ''source_hash''] j;
     _ \<leftarrow> defaulted m ''schema_version'' () (literal_of (JInt 1));
     ordinal \<leftarrow> required_field m ''ordinal'' int_of;
     snapshot \<leftarrow> required_field m ''snapshot'' SourceSnapshotV1_of;
     source_hash \<leftarrow> required_field m ''source_hash'' text_of;
     validated ObservationSourceV1_valid \<lparr>os_ordinal = ordinal, os_snapshot = snapshot, os_source_hash = source_hash\<rparr> }"

definition ObservationSourceV1_create :: "ObservationSourceV1 \<Rightarrow> ObservationSourceV1 option" where
  "ObservationSourceV1_create x = map_option (\<lambda>y. y\<lparr>os_source_hash := own_hash ''source_hash'' (ObservationSourceV1_json y)\<rparr>) (validated ObservationSourceV1_valid (x\<lparr>os_source_hash := zero_hash\<rparr>))"

record ObservationFeatureV1 =
  of_feature_id :: ustr
  of_feature_version :: ustr
  of_value :: json
  of_source_hashes :: "ustr list"
  of_feature_hash :: ustr

definition ObservationFeatureV1_valid :: "ObservationFeatureV1 \<Rightarrow> bool" where
  "ObservationFeatureV1_valid x = (ident_text (of_feature_id x) \<and> version_text (of_feature_version x) \<and> plain_json (of_value x) \<and> list_all hash_text (of_source_hashes x) \<and>
     sorted (of_source_hashes x) \<and> distinct (of_source_hashes x) \<and> hash_text (of_feature_hash x))"

definition ObservationFeatureV1_json :: "ObservationFeatureV1 \<Rightarrow> json" where
  "ObservationFeatureV1_json x = jobj [(''schema_version'', JInt 1),
     (''feature_id'', JStr (of_feature_id x)),
     (''feature_version'', JStr (of_feature_version x)),
     (''value'', of_value x),
     (''source_hashes'', jtexts (of_source_hashes x)),
     (''feature_hash'', JStr (of_feature_hash x))]"

definition ObservationFeatureV1_of :: "json \<Rightarrow> ObservationFeatureV1 option" where
  "ObservationFeatureV1_of j = do {
     m \<leftarrow> members [''schema_version'', ''feature_id'', ''feature_version'', ''value'', ''source_hashes'', ''feature_hash''] j;
     _ \<leftarrow> defaulted m ''schema_version'' () (literal_of (JInt 1));
     feature_id \<leftarrow> required_field m ''feature_id'' text_of;
     feature_version \<leftarrow> required_field m ''feature_version'' text_of;
     val \<leftarrow> required_field m ''value'' value_of;
     source_hashes \<leftarrow> required_field m ''source_hashes'' (list_of text_of);
     feature_hash \<leftarrow> required_field m ''feature_hash'' text_of;
     validated ObservationFeatureV1_valid \<lparr>of_feature_id = feature_id, of_feature_version = feature_version, of_value = val, of_source_hashes = source_hashes, of_feature_hash = feature_hash\<rparr> }"

definition ObservationFeatureV1_create :: "ObservationFeatureV1 \<Rightarrow> ObservationFeatureV1 option" where
  "ObservationFeatureV1_create x = map_option (\<lambda>y. y\<lparr>of_feature_hash := own_hash ''feature_hash'' (ObservationFeatureV1_json y)\<rparr>) (validated ObservationFeatureV1_valid (x\<lparr>of_feature_hash := zero_hash\<rparr>))"

text \<open>The strict order of the features of an observation: by identifier, then by version.\<close>

fun feature_before :: "ustr \<times> ustr \<Rightarrow> ustr \<times> ustr \<Rightarrow> bool" where
  "feature_before (i, v) (j, w) = (i < j \<or> i = j \<and> v < w)"

record MarlObservationV1 =
  mo_observation_id :: uuid
  mo_episode_id :: uuid
  mo_workspace_id :: uuid
  mo_session_id :: uuid
  mo_decision_index :: int
  mo_environment_version :: ustr
  mo_observation_implementation :: ImplementationRefV1
  mo_ledger_seq :: int
  mo_ledger_event_id :: "uuid option"
  mo_ledger_hash :: ustr
  mo_terminal :: bool
  mo_terminal_reason :: "ustr option"
  mo_sources :: "ObservationSourceV1 list"
  mo_features :: "ObservationFeatureV1 list"
  mo_sources_hash :: ustr
  mo_features_hash :: ustr
  mo_observation_hash :: ustr

definition MarlObservationV1_valid :: "MarlObservationV1 \<Rightarrow> bool" where
  "MarlObservationV1_valid x = (0 \<le> mo_decision_index x \<and> ident_text (mo_environment_version x) \<and> ImplementationRefV1_valid (mo_observation_implementation x) \<and>
     0 \<le> mo_ledger_seq x \<and> hash_text (mo_ledger_hash x) \<and> pred_option reason_code (mo_terminal_reason x) \<and>
     list_all ObservationSourceV1_valid (mo_sources x) \<and> list_all ObservationFeatureV1_valid (mo_features x) \<and>
     hash_text (mo_sources_hash x) \<and> hash_text (mo_features_hash x) \<and> hash_text (mo_observation_hash x) \<and>
     mo_terminal x = (mo_terminal_reason x \<noteq> None) \<and>
     map os_ordinal (mo_sources x) = map int [0..<length (mo_sources x)] \<and>
     sorted_wrt feature_before (map (\<lambda>f. (of_feature_id f, of_feature_version f)) (mo_features x)))"

definition MarlObservationV1_json :: "MarlObservationV1 \<Rightarrow> json" where
  "MarlObservationV1_json x = jobj [(''schema_version'', JInt 1),
     (''observation_id'', juuid (mo_observation_id x)),
     (''episode_id'', juuid (mo_episode_id x)),
     (''workspace_id'', juuid (mo_workspace_id x)),
     (''session_id'', juuid (mo_session_id x)),
     (''decision_index'', JInt (mo_decision_index x)),
     (''environment_version'', JStr (mo_environment_version x)),
     (''observation_implementation'', ImplementationRefV1_json (mo_observation_implementation x)),
     (''ledger_seq'', JInt (mo_ledger_seq x)),
     (''ledger_event_id'', jopt juuid (mo_ledger_event_id x)),
     (''ledger_hash'', JStr (mo_ledger_hash x)),
     (''terminal'', JBool (mo_terminal x)),
     (''terminal_reason'', jopt JStr (mo_terminal_reason x)),
     (''sources'', jlist ObservationSourceV1_json (mo_sources x)),
     (''features'', jlist ObservationFeatureV1_json (mo_features x)),
     (''sources_hash'', JStr (mo_sources_hash x)),
     (''features_hash'', JStr (mo_features_hash x)),
     (''observation_hash'', JStr (mo_observation_hash x))]"

definition MarlObservationV1_of :: "json \<Rightarrow> MarlObservationV1 option" where
  "MarlObservationV1_of j = do {
     m \<leftarrow> members [''schema_version'', ''observation_id'', ''episode_id'', ''workspace_id'', ''session_id'', ''decision_index'', ''environment_version'', ''observation_implementation'', ''ledger_seq'', ''ledger_event_id'', ''ledger_hash'', ''terminal'', ''terminal_reason'', ''sources'', ''features'', ''sources_hash'', ''features_hash'', ''observation_hash''] j;
     _ \<leftarrow> defaulted m ''schema_version'' () (literal_of (JInt 1));
     observation_id \<leftarrow> required_field m ''observation_id'' uuid_of;
     episode_id \<leftarrow> required_field m ''episode_id'' uuid_of;
     workspace_id \<leftarrow> required_field m ''workspace_id'' uuid_of;
     session_id \<leftarrow> required_field m ''session_id'' uuid_of;
     decision_index \<leftarrow> required_field m ''decision_index'' int_of;
     environment_version \<leftarrow> required_field m ''environment_version'' text_of;
     observation_implementation \<leftarrow> required_field m ''observation_implementation'' ImplementationRefV1_of;
     ledger_seq \<leftarrow> required_field m ''ledger_seq'' int_of;
     ledger_event_id \<leftarrow> required_field m ''ledger_event_id'' (nullable uuid_of);
     ledger_hash \<leftarrow> required_field m ''ledger_hash'' text_of;
     trm \<leftarrow> required_field m ''terminal'' bool_of;
     terminal_reason \<leftarrow> required_field m ''terminal_reason'' (nullable text_of);
     srcs \<leftarrow> required_field m ''sources'' (list_of ObservationSourceV1_of);
     fts \<leftarrow> required_field m ''features'' (list_of ObservationFeatureV1_of);
     sources_hash \<leftarrow> required_field m ''sources_hash'' text_of;
     features_hash \<leftarrow> required_field m ''features_hash'' text_of;
     observation_hash \<leftarrow> required_field m ''observation_hash'' text_of;
     validated MarlObservationV1_valid \<lparr>mo_observation_id = observation_id, mo_episode_id = episode_id, mo_workspace_id = workspace_id, mo_session_id = session_id, mo_decision_index = decision_index, mo_environment_version = environment_version, mo_observation_implementation = observation_implementation, mo_ledger_seq = ledger_seq, mo_ledger_event_id = ledger_event_id, mo_ledger_hash = ledger_hash, mo_terminal = trm, mo_terminal_reason = terminal_reason, mo_sources = srcs, mo_features = fts, mo_sources_hash = sources_hash, mo_features_hash = features_hash, mo_observation_hash = observation_hash\<rparr> }"

text \<open>The constructor of an observation also computes the hashes of its sources and of its features.\<close>

definition MarlObservationV1_create :: "MarlObservationV1 \<Rightarrow> MarlObservationV1 option" where
  "MarlObservationV1_create x = map_option (\<lambda>y. y\<lparr>mo_observation_hash := own_hash ''observation_hash'' (MarlObservationV1_json y)\<rparr>)
     (validated MarlObservationV1_valid (x\<lparr>mo_sources_hash := canonical_hash (jlist ObservationSourceV1_json (mo_sources x)),
        mo_features_hash := canonical_hash (jlist ObservationFeatureV1_json (mo_features x)), mo_observation_hash := zero_hash\<rparr>))"

record ProposedActionV1 =
  pa_proposal_id :: uuid
  pa_episode_id :: uuid
  pa_decision_index :: int
  pa_observation_id :: uuid
  pa_observation_hash :: ustr
  pa_policy_implementation :: ImplementationRefV1
  pa_seed :: int
  pa_kind :: ActionKind
  pa_agent_definition_ids :: "uuid list"
  pa_payload :: json
  pa_action_hash :: ustr

definition ProposedActionV1_valid :: "ProposedActionV1 \<Rightarrow> bool" where
  "ProposedActionV1_valid x = (0 \<le> pa_decision_index x \<and> hash_text (pa_observation_hash x) \<and> ImplementationRefV1_valid (pa_policy_implementation x) \<and>
     plain_object (pa_payload x) \<and> hash_text (pa_action_hash x) \<and>
     sorted (pa_agent_definition_ids x) \<and> distinct (pa_agent_definition_ids x))"

definition ProposedActionV1_json :: "ProposedActionV1 \<Rightarrow> json" where
  "ProposedActionV1_json x = jobj [(''schema_version'', JInt 1),
     (''proposal_id'', juuid (pa_proposal_id x)),
     (''episode_id'', juuid (pa_episode_id x)),
     (''decision_index'', JInt (pa_decision_index x)),
     (''observation_id'', juuid (pa_observation_id x)),
     (''observation_hash'', JStr (pa_observation_hash x)),
     (''policy_implementation'', ImplementationRefV1_json (pa_policy_implementation x)),
     (''seed'', JInt (pa_seed x)),
     (''kind'', (\<lambda>x. jtext (action_kind_value x)) (pa_kind x)),
     (''agent_definition_ids'', juuids (pa_agent_definition_ids x)),
     (''payload'', pa_payload x),
     (''action_hash'', JStr (pa_action_hash x))]"

definition ProposedActionV1_of :: "json \<Rightarrow> ProposedActionV1 option" where
  "ProposedActionV1_of j = do {
     m \<leftarrow> members [''schema_version'', ''proposal_id'', ''episode_id'', ''decision_index'', ''observation_id'', ''observation_hash'', ''policy_implementation'', ''seed'', ''kind'', ''agent_definition_ids'', ''payload'', ''action_hash''] j;
     _ \<leftarrow> defaulted m ''schema_version'' () (literal_of (JInt 1));
     proposal_id \<leftarrow> required_field m ''proposal_id'' uuid_of;
     episode_id \<leftarrow> required_field m ''episode_id'' uuid_of;
     decision_index \<leftarrow> required_field m ''decision_index'' int_of;
     observation_id \<leftarrow> required_field m ''observation_id'' uuid_of;
     observation_hash \<leftarrow> required_field m ''observation_hash'' text_of;
     policy_implementation \<leftarrow> required_field m ''policy_implementation'' ImplementationRefV1_of;
     seed \<leftarrow> required_field m ''seed'' int_of;
     knd \<leftarrow> required_field m ''kind'' action_kind_of;
     agent_definition_ids \<leftarrow> defaulted m ''agent_definition_ids'' [] (list_of uuid_of);
     payload \<leftarrow> required_field m ''payload'' object_of;
     action_hash \<leftarrow> required_field m ''action_hash'' text_of;
     validated ProposedActionV1_valid \<lparr>pa_proposal_id = proposal_id, pa_episode_id = episode_id, pa_decision_index = decision_index, pa_observation_id = observation_id, pa_observation_hash = observation_hash, pa_policy_implementation = policy_implementation, pa_seed = seed, pa_kind = knd, pa_agent_definition_ids = agent_definition_ids, pa_payload = payload, pa_action_hash = action_hash\<rparr> }"

definition ProposedActionV1_create :: "ProposedActionV1 \<Rightarrow> ProposedActionV1 option" where
  "ProposedActionV1_create x = map_option (\<lambda>y. y\<lparr>pa_action_hash := own_hash ''action_hash'' (ProposedActionV1_json y)\<rparr>) (validated ProposedActionV1_valid (x\<lparr>pa_action_hash := zero_hash\<rparr>))"

record ExecutedActionV1 =
  xa_execution_id :: uuid
  xa_episode_id :: uuid
  xa_decision_index :: int
  xa_kind :: ActionKind
  xa_agent_definition_ids :: "uuid list"
  xa_payload :: json
  xa_executed_action_hash :: ustr

definition ExecutedActionV1_valid :: "ExecutedActionV1 \<Rightarrow> bool" where
  "ExecutedActionV1_valid x = (0 \<le> xa_decision_index x \<and> plain_object (xa_payload x) \<and> hash_text (xa_executed_action_hash x) \<and> sorted (xa_agent_definition_ids x))"

definition ExecutedActionV1_json :: "ExecutedActionV1 \<Rightarrow> json" where
  "ExecutedActionV1_json x = jobj [(''schema_version'', JInt 1),
     (''execution_id'', juuid (xa_execution_id x)),
     (''episode_id'', juuid (xa_episode_id x)),
     (''decision_index'', JInt (xa_decision_index x)),
     (''kind'', (\<lambda>x. jtext (action_kind_value x)) (xa_kind x)),
     (''agent_definition_ids'', juuids (xa_agent_definition_ids x)),
     (''payload'', xa_payload x),
     (''executed_action_hash'', JStr (xa_executed_action_hash x))]"

definition ExecutedActionV1_of :: "json \<Rightarrow> ExecutedActionV1 option" where
  "ExecutedActionV1_of j = do {
     m \<leftarrow> members [''schema_version'', ''execution_id'', ''episode_id'', ''decision_index'', ''kind'', ''agent_definition_ids'', ''payload'', ''executed_action_hash''] j;
     _ \<leftarrow> defaulted m ''schema_version'' () (literal_of (JInt 1));
     execution_id \<leftarrow> required_field m ''execution_id'' uuid_of;
     episode_id \<leftarrow> required_field m ''episode_id'' uuid_of;
     decision_index \<leftarrow> required_field m ''decision_index'' int_of;
     knd \<leftarrow> required_field m ''kind'' action_kind_of;
     agent_definition_ids \<leftarrow> defaulted m ''agent_definition_ids'' [] (list_of uuid_of);
     payload \<leftarrow> required_field m ''payload'' object_of;
     executed_action_hash \<leftarrow> required_field m ''executed_action_hash'' text_of;
     validated ExecutedActionV1_valid \<lparr>xa_execution_id = execution_id, xa_episode_id = episode_id, xa_decision_index = decision_index, xa_kind = knd, xa_agent_definition_ids = agent_definition_ids, xa_payload = payload, xa_executed_action_hash = executed_action_hash\<rparr> }"

definition ExecutedActionV1_create :: "ExecutedActionV1 \<Rightarrow> ExecutedActionV1 option" where
  "ExecutedActionV1_create x = map_option (\<lambda>y. y\<lparr>xa_executed_action_hash := own_hash ''executed_action_hash'' (ExecutedActionV1_json y)\<rparr>) (validated ExecutedActionV1_valid (x\<lparr>xa_executed_action_hash := zero_hash\<rparr>))"

record CoordinatorDecisionV1 =
  cd_decision_id :: uuid
  cd_episode_id :: uuid
  cd_decision_index :: int
  cd_observation_hash :: ustr
  cd_proposal_hash :: "ustr option"
  cd_outcome :: DecisionOutcome
  cd_reason :: ustr
  cd_coordinator_implementation :: ImplementationRefV1
  cd_executed_action_hash :: "ustr option"
  cd_feasibility_status :: ustr
  cd_decision_hash :: ustr

definition CoordinatorDecisionV1_valid :: "CoordinatorDecisionV1 \<Rightarrow> bool" where
  "CoordinatorDecisionV1_valid x = (0 \<le> cd_decision_index x \<and> hash_text (cd_observation_hash x) \<and> pred_option hash_text (cd_proposal_hash x) \<and>
     reason_text (cd_reason x) \<and> ImplementationRefV1_valid (cd_coordinator_implementation x) \<and>
     pred_option hash_text (cd_executed_action_hash x) \<and> feasibility_text (cd_feasibility_status x) \<and>
     hash_text (cd_decision_hash x) \<and>
     \<not> (cd_outcome x = NO_PROPOSAL \<and> cd_proposal_hash x \<noteq> None) \<and>
     \<not> (cd_outcome x = DECISION_ACCEPTED \<and> cd_executed_action_hash x = None) \<and>
     \<not> (cd_outcome x \<noteq> DECISION_ACCEPTED \<and> cd_executed_action_hash x \<noteq> None) \<and>
     \<not> (cd_feasibility_status x = ustr ''UNSAT'' \<and> cd_outcome x = DECISION_ACCEPTED) \<and>
     \<not> (cd_feasibility_status x = ustr ''UNKNOWN'' \<and> cd_outcome x = DECISION_ACCEPTED))"

definition CoordinatorDecisionV1_json :: "CoordinatorDecisionV1 \<Rightarrow> json" where
  "CoordinatorDecisionV1_json x = jobj [(''schema_version'', JInt 1),
     (''decision_id'', juuid (cd_decision_id x)),
     (''episode_id'', juuid (cd_episode_id x)),
     (''decision_index'', JInt (cd_decision_index x)),
     (''observation_hash'', JStr (cd_observation_hash x)),
     (''proposal_hash'', jopt JStr (cd_proposal_hash x)),
     (''outcome'', (\<lambda>x. jtext (decision_outcome_value x)) (cd_outcome x)),
     (''reason'', JStr (cd_reason x)),
     (''coordinator_implementation'', ImplementationRefV1_json (cd_coordinator_implementation x)),
     (''executed_action_hash'', jopt JStr (cd_executed_action_hash x)),
     (''feasibility_status'', JStr (cd_feasibility_status x)),
     (''decision_hash'', JStr (cd_decision_hash x))]"

definition CoordinatorDecisionV1_of :: "json \<Rightarrow> CoordinatorDecisionV1 option" where
  "CoordinatorDecisionV1_of j = do {
     m \<leftarrow> members [''schema_version'', ''decision_id'', ''episode_id'', ''decision_index'', ''observation_hash'', ''proposal_hash'', ''outcome'', ''reason'', ''coordinator_implementation'', ''executed_action_hash'', ''feasibility_status'', ''decision_hash''] j;
     _ \<leftarrow> defaulted m ''schema_version'' () (literal_of (JInt 1));
     decision_id \<leftarrow> required_field m ''decision_id'' uuid_of;
     episode_id \<leftarrow> required_field m ''episode_id'' uuid_of;
     decision_index \<leftarrow> required_field m ''decision_index'' int_of;
     observation_hash \<leftarrow> required_field m ''observation_hash'' text_of;
     proposal_hash \<leftarrow> required_field m ''proposal_hash'' (nullable text_of);
     outcome \<leftarrow> required_field m ''outcome'' decision_outcome_of;
     rsn \<leftarrow> required_field m ''reason'' text_of;
     coordinator_implementation \<leftarrow> required_field m ''coordinator_implementation'' ImplementationRefV1_of;
     executed_action_hash \<leftarrow> required_field m ''executed_action_hash'' (nullable text_of);
     feasibility_status \<leftarrow> required_field m ''feasibility_status'' text_of;
     decision_hash \<leftarrow> required_field m ''decision_hash'' text_of;
     validated CoordinatorDecisionV1_valid \<lparr>cd_decision_id = decision_id, cd_episode_id = episode_id, cd_decision_index = decision_index, cd_observation_hash = observation_hash, cd_proposal_hash = proposal_hash, cd_outcome = outcome, cd_reason = rsn, cd_coordinator_implementation = coordinator_implementation, cd_executed_action_hash = executed_action_hash, cd_feasibility_status = feasibility_status, cd_decision_hash = decision_hash\<rparr> }"

definition CoordinatorDecisionV1_create :: "CoordinatorDecisionV1 \<Rightarrow> CoordinatorDecisionV1 option" where
  "CoordinatorDecisionV1_create x = map_option (\<lambda>y. y\<lparr>cd_decision_hash := own_hash ''decision_hash'' (CoordinatorDecisionV1_json y)\<rparr>) (validated CoordinatorDecisionV1_valid (x\<lparr>cd_decision_hash := zero_hash\<rparr>))"

record RewardComponentV1 =
  rc_component_id :: uuid
  rc_episode_id :: uuid
  rc_decision_index :: int
  rc_ordinal :: int
  rc_metric_id :: ustr
  rc_metric_version :: ustr
  rc_reward_implementation :: ImplementationRefV1
  rc_direction :: RewardDirection
  rc_pre_metric_value :: "RationalV1 option"
  rc_post_metric_value :: "RationalV1 option"
  rc_reward_value :: RationalV1
  rc_status :: RewardStatus
  rc_neutral_reason :: "ustr option"
  rc_source_hashes :: "ustr list"
  rc_component_hash :: ustr

definition RewardComponentV1_valid :: "RewardComponentV1 \<Rightarrow> bool" where
  "RewardComponentV1_valid x = (0 \<le> rc_decision_index x \<and> 0 \<le> rc_ordinal x \<and> rc_ordinal x \<le> 4 \<and> ident_text (rc_metric_id x) \<and> version_text (rc_metric_version x) \<and>
     ImplementationRefV1_valid (rc_reward_implementation x) \<and> pred_option RationalV1_valid (rc_pre_metric_value x) \<and>
     pred_option RationalV1_valid (rc_post_metric_value x) \<and> RationalV1_valid (rc_reward_value x) \<and>
     pred_option reason_code (rc_neutral_reason x) \<and> list_all hash_text (rc_source_hashes x) \<and> hash_text (rc_component_hash x) \<and>
     sorted (rc_source_hashes x) \<and>
     (if rc_status x = OBSERVED
      then rc_pre_metric_value x \<noteq> None \<and> rc_post_metric_value x \<noteq> None \<and> rc_neutral_reason x = None
      else rc_reward_value x = rational_zero \<and> rc_neutral_reason x \<noteq> None))"

definition RewardComponentV1_json :: "RewardComponentV1 \<Rightarrow> json" where
  "RewardComponentV1_json x = jobj [(''schema_version'', JInt 1),
     (''component_id'', juuid (rc_component_id x)),
     (''episode_id'', juuid (rc_episode_id x)),
     (''decision_index'', JInt (rc_decision_index x)),
     (''ordinal'', JInt (rc_ordinal x)),
     (''metric_id'', JStr (rc_metric_id x)),
     (''metric_version'', JStr (rc_metric_version x)),
     (''reward_implementation'', ImplementationRefV1_json (rc_reward_implementation x)),
     (''direction'', (\<lambda>x. jtext (reward_direction_value x)) (rc_direction x)),
     (''pre_metric_value'', jopt RationalV1_json (rc_pre_metric_value x)),
     (''post_metric_value'', jopt RationalV1_json (rc_post_metric_value x)),
     (''reward_value'', RationalV1_json (rc_reward_value x)),
     (''status'', (\<lambda>x. jtext (reward_status_value x)) (rc_status x)),
     (''neutral_reason'', jopt JStr (rc_neutral_reason x)),
     (''source_hashes'', jtexts (rc_source_hashes x)),
     (''component_hash'', JStr (rc_component_hash x))]"

definition RewardComponentV1_of :: "json \<Rightarrow> RewardComponentV1 option" where
  "RewardComponentV1_of j = do {
     m \<leftarrow> members [''schema_version'', ''component_id'', ''episode_id'', ''decision_index'', ''ordinal'', ''metric_id'', ''metric_version'', ''reward_implementation'', ''direction'', ''pre_metric_value'', ''post_metric_value'', ''reward_value'', ''status'', ''neutral_reason'', ''source_hashes'', ''component_hash''] j;
     _ \<leftarrow> defaulted m ''schema_version'' () (literal_of (JInt 1));
     component_id \<leftarrow> required_field m ''component_id'' uuid_of;
     episode_id \<leftarrow> required_field m ''episode_id'' uuid_of;
     decision_index \<leftarrow> required_field m ''decision_index'' int_of;
     ordinal \<leftarrow> required_field m ''ordinal'' int_of;
     metric_id \<leftarrow> required_field m ''metric_id'' text_of;
     metric_version \<leftarrow> required_field m ''metric_version'' text_of;
     reward_implementation \<leftarrow> required_field m ''reward_implementation'' ImplementationRefV1_of;
     direction \<leftarrow> required_field m ''direction'' reward_direction_of;
     pre_metric_value \<leftarrow> required_field m ''pre_metric_value'' (nullable RationalV1_of);
     post_metric_value \<leftarrow> required_field m ''post_metric_value'' (nullable RationalV1_of);
     reward_value \<leftarrow> required_field m ''reward_value'' RationalV1_of;
     status \<leftarrow> required_field m ''status'' reward_status_of;
     neutral_reason \<leftarrow> required_field m ''neutral_reason'' (nullable text_of);
     source_hashes \<leftarrow> required_field m ''source_hashes'' (list_of text_of);
     component_hash \<leftarrow> required_field m ''component_hash'' text_of;
     validated RewardComponentV1_valid \<lparr>rc_component_id = component_id, rc_episode_id = episode_id, rc_decision_index = decision_index, rc_ordinal = ordinal, rc_metric_id = metric_id, rc_metric_version = metric_version, rc_reward_implementation = reward_implementation, rc_direction = direction, rc_pre_metric_value = pre_metric_value, rc_post_metric_value = post_metric_value, rc_reward_value = reward_value, rc_status = status, rc_neutral_reason = neutral_reason, rc_source_hashes = source_hashes, rc_component_hash = component_hash\<rparr> }"

definition RewardComponentV1_create :: "RewardComponentV1 \<Rightarrow> RewardComponentV1 option" where
  "RewardComponentV1_create x = map_option (\<lambda>y. y\<lparr>rc_component_hash := own_hash ''component_hash'' (RewardComponentV1_json y)\<rparr>) (validated RewardComponentV1_valid (x\<lparr>rc_component_hash := zero_hash\<rparr>))"

record CreditAssignmentV1 =
  ca_credit_id :: uuid
  ca_episode_id :: uuid
  ca_decision_index :: int
  ca_reward_component_id :: uuid
  ca_reward_component_hash :: ustr
  ca_status :: CreditStatus
  ca_agent_definition_ids :: "uuid list"
  ca_source_hashes :: "ustr list"
  ca_share :: RationalV1
  ca_credited_value :: RationalV1
  ca_credit_implementation :: ImplementationRefV1
  ca_credit_hash :: ustr

definition CreditAssignmentV1_valid :: "CreditAssignmentV1 \<Rightarrow> bool" where
  "CreditAssignmentV1_valid x = (0 \<le> ca_decision_index x \<and> hash_text (ca_reward_component_hash x) \<and> list_all hash_text (ca_source_hashes x) \<and>
     RationalV1_valid (ca_share x) \<and> RationalV1_valid (ca_credited_value x) \<and> ImplementationRefV1_valid (ca_credit_implementation x) \<and>
     hash_text (ca_credit_hash x) \<and> sorted (ca_agent_definition_ids x) \<and> sorted (ca_source_hashes x) \<and>
     \<not> (ca_status x = NEUTRAL \<and> (ca_agent_definition_ids x \<noteq> [] \<or> ca_credited_value x \<noteq> rational_zero)) \<and>
     \<not> (ca_status x = SHARED \<and> length (ca_agent_definition_ids x) < 2))"

definition CreditAssignmentV1_json :: "CreditAssignmentV1 \<Rightarrow> json" where
  "CreditAssignmentV1_json x = jobj [(''schema_version'', JInt 1),
     (''credit_id'', juuid (ca_credit_id x)),
     (''episode_id'', juuid (ca_episode_id x)),
     (''decision_index'', JInt (ca_decision_index x)),
     (''reward_component_id'', juuid (ca_reward_component_id x)),
     (''reward_component_hash'', JStr (ca_reward_component_hash x)),
     (''status'', (\<lambda>x. jtext (credit_status_value x)) (ca_status x)),
     (''agent_definition_ids'', juuids (ca_agent_definition_ids x)),
     (''source_hashes'', jtexts (ca_source_hashes x)),
     (''share'', RationalV1_json (ca_share x)),
     (''credited_value'', RationalV1_json (ca_credited_value x)),
     (''credit_implementation'', ImplementationRefV1_json (ca_credit_implementation x)),
     (''credit_hash'', JStr (ca_credit_hash x))]"

definition CreditAssignmentV1_of :: "json \<Rightarrow> CreditAssignmentV1 option" where
  "CreditAssignmentV1_of j = do {
     m \<leftarrow> members [''schema_version'', ''credit_id'', ''episode_id'', ''decision_index'', ''reward_component_id'', ''reward_component_hash'', ''status'', ''agent_definition_ids'', ''source_hashes'', ''share'', ''credited_value'', ''credit_implementation'', ''credit_hash''] j;
     _ \<leftarrow> defaulted m ''schema_version'' () (literal_of (JInt 1));
     credit_id \<leftarrow> required_field m ''credit_id'' uuid_of;
     episode_id \<leftarrow> required_field m ''episode_id'' uuid_of;
     decision_index \<leftarrow> required_field m ''decision_index'' int_of;
     reward_component_id \<leftarrow> required_field m ''reward_component_id'' uuid_of;
     reward_component_hash \<leftarrow> required_field m ''reward_component_hash'' text_of;
     status \<leftarrow> required_field m ''status'' credit_status_of;
     agent_definition_ids \<leftarrow> required_field m ''agent_definition_ids'' (list_of uuid_of);
     source_hashes \<leftarrow> required_field m ''source_hashes'' (list_of text_of);
     shr \<leftarrow> required_field m ''share'' RationalV1_of;
     credited_value \<leftarrow> required_field m ''credited_value'' RationalV1_of;
     credit_implementation \<leftarrow> required_field m ''credit_implementation'' ImplementationRefV1_of;
     credit_hash \<leftarrow> required_field m ''credit_hash'' text_of;
     validated CreditAssignmentV1_valid \<lparr>ca_credit_id = credit_id, ca_episode_id = episode_id, ca_decision_index = decision_index, ca_reward_component_id = reward_component_id, ca_reward_component_hash = reward_component_hash, ca_status = status, ca_agent_definition_ids = agent_definition_ids, ca_source_hashes = source_hashes, ca_share = shr, ca_credited_value = credited_value, ca_credit_implementation = credit_implementation, ca_credit_hash = credit_hash\<rparr> }"

definition CreditAssignmentV1_create :: "CreditAssignmentV1 \<Rightarrow> CreditAssignmentV1 option" where
  "CreditAssignmentV1_create x = map_option (\<lambda>y. y\<lparr>ca_credit_hash := own_hash ''credit_hash'' (CreditAssignmentV1_json y)\<rparr>) (validated CreditAssignmentV1_valid (x\<lparr>ca_credit_hash := zero_hash\<rparr>))"

text \<open>
  \<^verbatim>\<open>_validate_credit_conservation\<close>: every credit names a component of the transition with its hash; a
  component that was not observed has one neutral credit, an observed one has a credit; the credits of a
  component add up to its reward.
\<close>

definition credits_of :: "CreditAssignmentV1 list \<Rightarrow> RewardComponentV1 \<Rightarrow> CreditAssignmentV1 list" where
  "credits_of credits c = filter (\<lambda>k. ca_reward_component_id k = rc_component_id c) credits"

definition credits_conserved :: "RewardComponentV1 list \<Rightarrow> CreditAssignmentV1 list \<Rightarrow> bool" where
  "credits_conserved rewards credits =
     (list_all (\<lambda>k. list_ex (\<lambda>c. rc_component_id c = ca_reward_component_id k \<and> rc_component_hash c = ca_reward_component_hash k) rewards) credits \<and>
      list_all (\<lambda>c. (let ks = credits_of credits c in
        (if rc_status c \<noteq> OBSERVED then length ks = 1 \<and> ca_status (hd ks) = NEUTRAL else ks \<noteq> []) \<and>
        sum_list (map (\<lambda>k. fraction (ca_credited_value k)) ks) = fraction (rc_reward_value c))) rewards)"

record DecisionBoundaryV1 =
  db_episode_id :: uuid
  db_decision_index :: int
  db_observation :: MarlObservationV1
  db_proposed_action :: "ProposedActionV1 option"
  db_coordinator_decision :: CoordinatorDecisionV1
  db_executed_action :: "ExecutedActionV1 option"
  db_boundary_hash :: ustr

definition DecisionBoundaryV1_valid :: "DecisionBoundaryV1 \<Rightarrow> bool" where
  "DecisionBoundaryV1_valid x = (0 \<le> db_decision_index x \<and> MarlObservationV1_valid (db_observation x) \<and> pred_option ProposedActionV1_valid (db_proposed_action x) \<and>
     CoordinatorDecisionV1_valid (db_coordinator_decision x) \<and> pred_option ExecutedActionV1_valid (db_executed_action x) \<and>
     hash_text (db_boundary_hash x) \<and>
     mo_episode_id (db_observation x) = db_episode_id x \<and> cd_episode_id (db_coordinator_decision x) = db_episode_id x \<and>
     pred_option (\<lambda>p. pa_episode_id p = db_episode_id x) (db_proposed_action x) \<and>
     pred_option (\<lambda>a. xa_episode_id a = db_episode_id x) (db_executed_action x) \<and>
     mo_decision_index (db_observation x) = db_decision_index x \<and> cd_decision_index (db_coordinator_decision x) = db_decision_index x \<and>
     pred_option (\<lambda>p. pa_decision_index p = db_decision_index x) (db_proposed_action x) \<and>
     pred_option (\<lambda>a. xa_decision_index a = db_decision_index x) (db_executed_action x) \<and>
     \<not> mo_terminal (db_observation x) \<and>
     (db_proposed_action x = None) = (cd_outcome (db_coordinator_decision x) = NO_PROPOSAL) \<and>
     (db_executed_action x = None) = (cd_outcome (db_coordinator_decision x) \<noteq> DECISION_ACCEPTED))"

definition DecisionBoundaryV1_json :: "DecisionBoundaryV1 \<Rightarrow> json" where
  "DecisionBoundaryV1_json x = jobj [(''schema_version'', JInt 1),
     (''record_type'', jtext ''decision_boundary''),
     (''episode_id'', juuid (db_episode_id x)),
     (''decision_index'', JInt (db_decision_index x)),
     (''observation'', MarlObservationV1_json (db_observation x)),
     (''proposed_action'', jopt ProposedActionV1_json (db_proposed_action x)),
     (''coordinator_decision'', CoordinatorDecisionV1_json (db_coordinator_decision x)),
     (''executed_action'', jopt ExecutedActionV1_json (db_executed_action x)),
     (''boundary_hash'', JStr (db_boundary_hash x))]"

definition DecisionBoundaryV1_of :: "json \<Rightarrow> DecisionBoundaryV1 option" where
  "DecisionBoundaryV1_of j = do {
     m \<leftarrow> members [''schema_version'', ''record_type'', ''episode_id'', ''decision_index'', ''observation'', ''proposed_action'', ''coordinator_decision'', ''executed_action'', ''boundary_hash''] j;
     _ \<leftarrow> defaulted m ''schema_version'' () (literal_of (JInt 1));
     _ \<leftarrow> defaulted m ''record_type'' () (literal_of (jtext ''decision_boundary''));
     episode_id \<leftarrow> required_field m ''episode_id'' uuid_of;
     decision_index \<leftarrow> required_field m ''decision_index'' int_of;
     obs \<leftarrow> required_field m ''observation'' MarlObservationV1_of;
     proposed_action \<leftarrow> required_field m ''proposed_action'' (nullable ProposedActionV1_of);
     coordinator_decision \<leftarrow> required_field m ''coordinator_decision'' CoordinatorDecisionV1_of;
     executed_action \<leftarrow> required_field m ''executed_action'' (nullable ExecutedActionV1_of);
     boundary_hash \<leftarrow> required_field m ''boundary_hash'' text_of;
     validated DecisionBoundaryV1_valid \<lparr>db_episode_id = episode_id, db_decision_index = decision_index, db_observation = obs, db_proposed_action = proposed_action, db_coordinator_decision = coordinator_decision, db_executed_action = executed_action, db_boundary_hash = boundary_hash\<rparr> }"

definition DecisionBoundaryV1_create :: "DecisionBoundaryV1 \<Rightarrow> DecisionBoundaryV1 option" where
  "DecisionBoundaryV1_create x = map_option (\<lambda>y. y\<lparr>db_boundary_hash := own_hash ''boundary_hash'' (DecisionBoundaryV1_json y)\<rparr>) (validated DecisionBoundaryV1_valid (x\<lparr>db_boundary_hash := zero_hash\<rparr>))"

record TransitionV1 =
  tr_episode_id :: uuid
  tr_decision_index :: int
  tr_boundary :: DecisionBoundaryV1
  tr_post_observation :: MarlObservationV1
  tr_rewards :: "RewardComponentV1 list"
  tr_credits :: "CreditAssignmentV1 list"
  tr_terminal :: bool
  tr_transition_hash :: ustr

definition TransitionV1_valid :: "TransitionV1 \<Rightarrow> bool" where
  "TransitionV1_valid x = (0 \<le> tr_decision_index x \<and> DecisionBoundaryV1_valid (tr_boundary x) \<and> MarlObservationV1_valid (tr_post_observation x) \<and>
     list_all RewardComponentV1_valid (tr_rewards x) \<and> list_all CreditAssignmentV1_valid (tr_credits x) \<and> hash_text (tr_transition_hash x) \<and>
     db_episode_id (tr_boundary x) = tr_episode_id x \<and> db_decision_index (tr_boundary x) = tr_decision_index x \<and>
     mo_episode_id (tr_post_observation x) = tr_episode_id x \<and> mo_decision_index (tr_post_observation x) = tr_decision_index x + 1 \<and>
     mo_ledger_seq (db_observation (tr_boundary x)) \<le> mo_ledger_seq (tr_post_observation x) \<and>
     tr_terminal x = mo_terminal (tr_post_observation x) \<and>
     map rc_ordinal (tr_rewards x) = [0, 1, 2, 3, 4] \<and> distinct (map rc_component_id (tr_rewards x)) \<and>
     credits_conserved (tr_rewards x) (tr_credits x))"

definition TransitionV1_json :: "TransitionV1 \<Rightarrow> json" where
  "TransitionV1_json x = jobj [(''schema_version'', JInt 1),
     (''record_type'', jtext ''transition''),
     (''episode_id'', juuid (tr_episode_id x)),
     (''decision_index'', JInt (tr_decision_index x)),
     (''boundary'', DecisionBoundaryV1_json (tr_boundary x)),
     (''post_observation'', MarlObservationV1_json (tr_post_observation x)),
     (''rewards'', jlist RewardComponentV1_json (tr_rewards x)),
     (''credits'', jlist CreditAssignmentV1_json (tr_credits x)),
     (''terminal'', JBool (tr_terminal x)),
     (''transition_hash'', JStr (tr_transition_hash x))]"

definition TransitionV1_of :: "json \<Rightarrow> TransitionV1 option" where
  "TransitionV1_of j = do {
     m \<leftarrow> members [''schema_version'', ''record_type'', ''episode_id'', ''decision_index'', ''boundary'', ''post_observation'', ''rewards'', ''credits'', ''terminal'', ''transition_hash''] j;
     _ \<leftarrow> defaulted m ''schema_version'' () (literal_of (JInt 1));
     _ \<leftarrow> defaulted m ''record_type'' () (literal_of (jtext ''transition''));
     episode_id \<leftarrow> required_field m ''episode_id'' uuid_of;
     decision_index \<leftarrow> required_field m ''decision_index'' int_of;
     bnd \<leftarrow> required_field m ''boundary'' DecisionBoundaryV1_of;
     post_observation \<leftarrow> required_field m ''post_observation'' MarlObservationV1_of;
     rws \<leftarrow> required_field m ''rewards'' (list_of RewardComponentV1_of);
     crs \<leftarrow> required_field m ''credits'' (list_of CreditAssignmentV1_of);
     trm \<leftarrow> required_field m ''terminal'' bool_of;
     transition_hash \<leftarrow> required_field m ''transition_hash'' text_of;
     validated TransitionV1_valid \<lparr>tr_episode_id = episode_id, tr_decision_index = decision_index, tr_boundary = bnd, tr_post_observation = post_observation, tr_rewards = rws, tr_credits = crs, tr_terminal = trm, tr_transition_hash = transition_hash\<rparr> }"

definition TransitionV1_create :: "TransitionV1 \<Rightarrow> TransitionV1 option" where
  "TransitionV1_create x = map_option (\<lambda>y. y\<lparr>tr_transition_hash := own_hash ''transition_hash'' (TransitionV1_json y)\<rparr>) (validated TransitionV1_valid (x\<lparr>tr_transition_hash := zero_hash\<rparr>))"

text \<open>An observation of the workspace and session of an episode.\<close>

definition in_scope :: "uuid \<Rightarrow> uuid \<Rightarrow> MarlObservationV1 \<Rightarrow> bool" where
  "in_scope ws s x = (mo_workspace_id x = ws \<and> mo_session_id x = s)"

record IncompleteMarkerV1 =
  im_marker_id :: uuid
  im_episode_id :: uuid
  im_open_decision_index :: int
  im_reason :: ustr
  im_boundary_hash :: "ustr option"
  im_incomplete_hash :: ustr

definition IncompleteMarkerV1_valid :: "IncompleteMarkerV1 \<Rightarrow> bool" where
  "IncompleteMarkerV1_valid x = (0 \<le> im_open_decision_index x \<and> reason_text (im_reason x) \<and> pred_option hash_text (im_boundary_hash x) \<and> hash_text (im_incomplete_hash x))"

definition IncompleteMarkerV1_json :: "IncompleteMarkerV1 \<Rightarrow> json" where
  "IncompleteMarkerV1_json x = jobj [(''schema_version'', JInt 1),
     (''record_type'', jtext ''incomplete''),
     (''marker_id'', juuid (im_marker_id x)),
     (''episode_id'', juuid (im_episode_id x)),
     (''open_decision_index'', JInt (im_open_decision_index x)),
     (''reason'', JStr (im_reason x)),
     (''boundary_hash'', jopt JStr (im_boundary_hash x)),
     (''incomplete_hash'', JStr (im_incomplete_hash x))]"

definition IncompleteMarkerV1_of :: "json \<Rightarrow> IncompleteMarkerV1 option" where
  "IncompleteMarkerV1_of j = do {
     m \<leftarrow> members [''schema_version'', ''record_type'', ''marker_id'', ''episode_id'', ''open_decision_index'', ''reason'', ''boundary_hash'', ''incomplete_hash''] j;
     _ \<leftarrow> defaulted m ''schema_version'' () (literal_of (JInt 1));
     _ \<leftarrow> defaulted m ''record_type'' () (literal_of (jtext ''incomplete''));
     marker_id \<leftarrow> required_field m ''marker_id'' uuid_of;
     episode_id \<leftarrow> required_field m ''episode_id'' uuid_of;
     open_decision_index \<leftarrow> required_field m ''open_decision_index'' int_of;
     rsn \<leftarrow> required_field m ''reason'' text_of;
     boundary_hash \<leftarrow> required_field m ''boundary_hash'' (nullable text_of);
     incomplete_hash \<leftarrow> required_field m ''incomplete_hash'' text_of;
     validated IncompleteMarkerV1_valid \<lparr>im_marker_id = marker_id, im_episode_id = episode_id, im_open_decision_index = open_decision_index, im_reason = rsn, im_boundary_hash = boundary_hash, im_incomplete_hash = incomplete_hash\<rparr> }"

definition IncompleteMarkerV1_create :: "IncompleteMarkerV1 \<Rightarrow> IncompleteMarkerV1 option" where
  "IncompleteMarkerV1_create x = map_option (\<lambda>y. y\<lparr>im_incomplete_hash := own_hash ''incomplete_hash'' (IncompleteMarkerV1_json y)\<rparr>) (validated IncompleteMarkerV1_valid (x\<lparr>im_incomplete_hash := zero_hash\<rparr>))"

record TrajectoryManifestV1 =
  tm_episode_id :: uuid
  tm_episode_status :: EpisodeStatus
  tm_environment_version :: ustr
  tm_code_identity :: ustr
  tm_observation_implementations :: "ImplementationRefV1 list"
  tm_reward_implementations :: "ImplementationRefV1 list"
  tm_credit_implementations :: "ImplementationRefV1 list"
  tm_coordinator_implementations :: "ImplementationRefV1 list"
  tm_trajectory_sha256 :: ustr
  tm_trajectory_byte_length :: int
  tm_record_count :: int
  tm_episode_hash :: ustr

definition TrajectoryManifestV1_valid :: "TrajectoryManifestV1 \<Rightarrow> bool" where
  "TrajectoryManifestV1_valid x = (ident_text (tm_environment_version x) \<and> hash_text (tm_code_identity x) \<and> list_all ImplementationRefV1_valid (tm_observation_implementations x) \<and>
     list_all ImplementationRefV1_valid (tm_reward_implementations x) \<and> list_all ImplementationRefV1_valid (tm_credit_implementations x) \<and>
     list_all ImplementationRefV1_valid (tm_coordinator_implementations x) \<and> hash_text (tm_trajectory_sha256 x) \<and>
     0 \<le> tm_trajectory_byte_length x \<and> 0 \<le> tm_record_count x \<and> hash_text (tm_episode_hash x))"

definition TrajectoryManifestV1_json :: "TrajectoryManifestV1 \<Rightarrow> json" where
  "TrajectoryManifestV1_json x = jobj [(''schema_version'', JInt 1),
     (''episode_id'', juuid (tm_episode_id x)),
     (''episode_status'', (\<lambda>x. jtext (episode_status_value x)) (tm_episode_status x)),
     (''environment_version'', JStr (tm_environment_version x)),
     (''code_identity'', JStr (tm_code_identity x)),
     (''observation_implementations'', jlist ImplementationRefV1_json (tm_observation_implementations x)),
     (''reward_implementations'', jlist ImplementationRefV1_json (tm_reward_implementations x)),
     (''credit_implementations'', jlist ImplementationRefV1_json (tm_credit_implementations x)),
     (''coordinator_implementations'', jlist ImplementationRefV1_json (tm_coordinator_implementations x)),
     (''trajectory_sha256'', JStr (tm_trajectory_sha256 x)),
     (''trajectory_byte_length'', JInt (tm_trajectory_byte_length x)),
     (''record_count'', JInt (tm_record_count x)),
     (''episode_hash'', JStr (tm_episode_hash x))]"

definition TrajectoryManifestV1_of :: "json \<Rightarrow> TrajectoryManifestV1 option" where
  "TrajectoryManifestV1_of j = do {
     m \<leftarrow> members [''schema_version'', ''episode_id'', ''episode_status'', ''environment_version'', ''code_identity'', ''observation_implementations'', ''reward_implementations'', ''credit_implementations'', ''coordinator_implementations'', ''trajectory_sha256'', ''trajectory_byte_length'', ''record_count'', ''episode_hash''] j;
     _ \<leftarrow> defaulted m ''schema_version'' () (literal_of (JInt 1));
     episode_id \<leftarrow> required_field m ''episode_id'' uuid_of;
     episode_status \<leftarrow> required_field m ''episode_status'' episode_status_of;
     environment_version \<leftarrow> required_field m ''environment_version'' text_of;
     code_identity \<leftarrow> required_field m ''code_identity'' text_of;
     observation_implementations \<leftarrow> required_field m ''observation_implementations'' (list_of ImplementationRefV1_of);
     reward_implementations \<leftarrow> required_field m ''reward_implementations'' (list_of ImplementationRefV1_of);
     credit_implementations \<leftarrow> required_field m ''credit_implementations'' (list_of ImplementationRefV1_of);
     coordinator_implementations \<leftarrow> required_field m ''coordinator_implementations'' (list_of ImplementationRefV1_of);
     trajectory_sha256 \<leftarrow> required_field m ''trajectory_sha256'' text_of;
     trajectory_byte_length \<leftarrow> required_field m ''trajectory_byte_length'' int_of;
     record_count \<leftarrow> required_field m ''record_count'' int_of;
     episode_hash \<leftarrow> required_field m ''episode_hash'' text_of;
     validated TrajectoryManifestV1_valid \<lparr>tm_episode_id = episode_id, tm_episode_status = episode_status, tm_environment_version = environment_version, tm_code_identity = code_identity, tm_observation_implementations = observation_implementations, tm_reward_implementations = reward_implementations, tm_credit_implementations = credit_implementations, tm_coordinator_implementations = coordinator_implementations, tm_trajectory_sha256 = trajectory_sha256, tm_trajectory_byte_length = trajectory_byte_length, tm_record_count = record_count, tm_episode_hash = episode_hash\<rparr> }"

record MarlEpisodeV1 =
  me_episode_id :: uuid
  me_workspace_id :: uuid
  me_session_id :: uuid
  me_environment_version :: ustr
  me_code_identity :: ustr
  me_status :: EpisodeStatus
  me_transitions :: "TransitionV1 list"
  me_pending_boundary :: "DecisionBoundaryV1 option"
  me_incomplete_marker :: "IncompleteMarkerV1 option"

definition MarlEpisodeV1_valid :: "MarlEpisodeV1 \<Rightarrow> bool" where
  "MarlEpisodeV1_valid x = (ident_text (me_environment_version x) \<and> hash_text (me_code_identity x) \<and> list_all TransitionV1_valid (me_transitions x) \<and>
     pred_option DecisionBoundaryV1_valid (me_pending_boundary x) \<and> pred_option IncompleteMarkerV1_valid (me_incomplete_marker x) \<and>
     distinct (map tr_transition_hash (me_transitions x)) \<and>
     map tr_decision_index (me_transitions x) = map int [0..<length (me_transitions x)] \<and>
     list_all (\<lambda>t. tr_episode_id t = me_episode_id x) (me_transitions x) \<and>
     list_all (\<lambda>t. list_all (in_scope (me_workspace_id x) (me_session_id x)) [db_observation (tr_boundary t), tr_post_observation t]) (me_transitions x) \<and>
     pred_option (\<lambda>b. in_scope (me_workspace_id x) (me_session_id x) (db_observation b)) (me_pending_boundary x) \<and>
     (case me_status x of
        OPEN \<Rightarrow> me_incomplete_marker x = None \<and>
          pred_option (\<lambda>b. db_decision_index b = int (length (me_transitions x))) (me_pending_boundary x)
      | COMPLETE \<Rightarrow> me_transitions x \<noteq> [] \<and> tr_terminal (last (me_transitions x)) \<and>
          me_pending_boundary x = None \<and> me_incomplete_marker x = None
      | INCOMPLETE \<Rightarrow> (case me_incomplete_marker x of None \<Rightarrow> False | Some m \<Rightarrow>
          im_open_decision_index m = int (length (me_transitions x)) \<and>
          (me_pending_boundary x = None) = (im_boundary_hash m = None) \<and>
          pred_option (\<lambda>b. Some (db_boundary_hash b) = im_boundary_hash m) (me_pending_boundary x))))"

definition MarlEpisodeV1_json :: "MarlEpisodeV1 \<Rightarrow> json" where
  "MarlEpisodeV1_json x = jobj [(''schema_version'', JInt 1),
     (''episode_id'', juuid (me_episode_id x)),
     (''workspace_id'', juuid (me_workspace_id x)),
     (''session_id'', juuid (me_session_id x)),
     (''environment_version'', JStr (me_environment_version x)),
     (''code_identity'', JStr (me_code_identity x)),
     (''status'', (\<lambda>x. jtext (episode_status_value x)) (me_status x)),
     (''transitions'', jlist TransitionV1_json (me_transitions x)),
     (''pending_boundary'', jopt DecisionBoundaryV1_json (me_pending_boundary x)),
     (''incomplete_marker'', jopt IncompleteMarkerV1_json (me_incomplete_marker x))]"

definition MarlEpisodeV1_of :: "json \<Rightarrow> MarlEpisodeV1 option" where
  "MarlEpisodeV1_of j = do {
     m \<leftarrow> members [''schema_version'', ''episode_id'', ''workspace_id'', ''session_id'', ''environment_version'', ''code_identity'', ''status'', ''transitions'', ''pending_boundary'', ''incomplete_marker''] j;
     _ \<leftarrow> defaulted m ''schema_version'' () (literal_of (JInt 1));
     episode_id \<leftarrow> required_field m ''episode_id'' uuid_of;
     workspace_id \<leftarrow> required_field m ''workspace_id'' uuid_of;
     session_id \<leftarrow> required_field m ''session_id'' uuid_of;
     environment_version \<leftarrow> required_field m ''environment_version'' text_of;
     code_identity \<leftarrow> required_field m ''code_identity'' text_of;
     status \<leftarrow> required_field m ''status'' episode_status_of;
     transitions \<leftarrow> defaulted m ''transitions'' [] (list_of TransitionV1_of);
     pending_boundary \<leftarrow> defaulted m ''pending_boundary'' None (nullable DecisionBoundaryV1_of);
     incomplete_marker \<leftarrow> defaulted m ''incomplete_marker'' None (nullable IncompleteMarkerV1_of);
     validated MarlEpisodeV1_valid \<lparr>me_episode_id = episode_id, me_workspace_id = workspace_id, me_session_id = session_id, me_environment_version = environment_version, me_code_identity = code_identity, me_status = status, me_transitions = transitions, me_pending_boundary = pending_boundary, me_incomplete_marker = incomplete_marker\<rparr> }"

definition episode_hash :: "MarlEpisodeV1 \<Rightarrow> ustr" where
  "episode_hash e = canonical_hash (jobj [
     (''code_identity'', JStr (me_code_identity e)),
     (''environment_version'', JStr (me_environment_version e)),
     (''episode_id'', juuid (me_episode_id e)),
     (''incomplete_hash'', jopt JStr (map_option im_incomplete_hash (me_incomplete_marker e))),
     (''pending_boundary_hash'', jopt JStr (map_option db_boundary_hash (me_pending_boundary e))),
     (''schema_version'', JInt 1),
     (''session_id'', juuid (me_session_id e)),
     (''status'', jtext (episode_status_value (me_status e))),
     (''transition_hashes'', jtexts (map tr_transition_hash (me_transitions e))),
     (''workspace_id'', juuid (me_workspace_id e))])"

subsection \<open>Reading back what was written\<close>

definition sound_json :: "json \<Rightarrow> bool" where
  "sound_json j = (scalars j \<and> proper j)"

named_theorems reads and sounds

definition written :: "(string \<times> json) list \<Rightarrow> ustr \<rightharpoonup> json" where
  "written ms k = map_option normal (map_of (map (map_prod ustr (\<lambda>v. v)) ms) k)"

lemma ustr_eq_iff [simp]: "ustr s = ustr t \<longleftrightarrow> s = t"
  using ustr_inj by blast

lemma map_of_ustr: "map_of (map (map_prod ustr f) ms) (ustr name) = map_option f (map_of ms name)"
  by (induction ms) (auto simp: ustr_inj)

lemma map_of_normal: "map_of (map (\<lambda>kv. (fst kv, normal (snd kv))) xs) = (\<lambda>k. map_option normal (map_of xs k))"
  by (induction xs) auto

lemma members_jobj [reads]:
  assumes "distinct (map fst ms)" "set (map fst ms) \<subseteq> set names"
  shows "members names (normal (jobj ms)) = Some (written ms)"
proof -
  let ?ms = "map (map_prod ustr (\<lambda>v. v)) ms" and ?f = "\<lambda>kv. utf16_key (fst kv)"
  have d: "distinct (map fst ?ms)" using assms(1) ustr_inj by (auto simp: comp_def distinct_map inj_on_def)
  have "map_of (sort_key ?f ?ms) = map_of ?ms"
  proof (rule map_of_inject_set [THEN iffD2])
    have "mset (map fst (sort_key ?f ?ms)) = mset (map fst ?ms)" by (simp only: mset_map mset_sort)
    then show "distinct (map fst (sort_key ?f ?ms))" using d by (metis mset_eq_imp_distinct_iff)
  qed (use d in simp_all)
  then have "map_of (map (\<lambda>kv. (fst kv, normal (snd kv))) (sort_key ?f ?ms)) = written ms"
    unfolding map_of_normal by (simp add: fun_eq_iff written_def)
  moreover have "fst ` set (map (\<lambda>kv. (fst kv, normal (snd kv))) (sort_key ?f ?ms)) = ustr ` set (map fst ms)"
    by (auto simp: image_image)
  ultimately show ?thesis using assms(2) unfolding jobj_def normal_obj members_def json.case by (simp add: image_mono)
qed

lemma required_jobj [reads]:
  "required_field (written ms) name f = Option.bind (map_of ms name) (\<lambda>j. f (normal j))"
  by (cases "map_of ms name") (simp_all add: required_field_def written_def map_of_ustr)

lemma defaulted_jobj [reads]:
  "defaulted (written ms) name d f = (case map_of ms name of None \<Rightarrow> Some d | Some j \<Rightarrow> f (normal j))"
  by (cases "map_of ms name") (simp_all add: defaulted_def written_def map_of_ustr)

lemma those_map_Some [simp]: "those (map Some xs) = Some xs"
  by (induction xs) auto

lemma those_Some: "(\<And>x. x \<in> set xs \<Longrightarrow> f (g x) = Some x) \<Longrightarrow> those (map (\<lambda>x. f (g x)) xs) = Some xs"
  by (induction xs) auto

lemma list_of_map: "(\<And>x. x \<in> set xs \<Longrightarrow> f (normal (g x)) = Some x) \<Longrightarrow> list_of f (normal (jlist g xs)) = Some xs"
  using those_Some [of xs f "\<lambda>x. normal (g x)"] by (simp add: jlist_def comp_def)

lemma nullable_other: "j \<noteq> JNull \<Longrightarrow> nullable f j = map_option Some (f j)"
  by (cases j) auto

lemma normal_JNull [simp]: "normal j = JNull \<longleftrightarrow> j = JNull"
  by (cases j) auto

lemma nullable_jopt:
  assumes "\<And>y. x = Some y \<Longrightarrow> f (normal (g y)) = Some y" "\<And>y. g y \<noteq> JNull"
  shows "nullable f (normal (jopt g x)) = Some x"
  using assms by (cases x) (simp_all add: jopt_def nullable_other)

lemma leaf_reads [reads]:
  "uuid_of (normal (juuid u)) = Some u"
  "nullable uuid_of (normal (jopt juuid v)) = Some v"
  "nullable text_of (normal (jopt JStr t)) = Some t"
  "list_of uuid_of (normal (juuids us)) = Some us"
  "list_of text_of (normal (jtexts ts)) = Some ts"
  by (simp add: juuid_def, (rule nullable_jopt, simp_all add: juuid_def)+,
      simp_all add: juuids_def jtexts_def comp_def juuid_def)

lemma plain_reads [reads]:
  "plain_json j \<Longrightarrow> value_of (normal j) = Some j"
  "plain_object j \<Longrightarrow> object_of (normal j) = Some j"
  by (simp_all add: value_of_def object_of_def plain_object_def plain_json_def)

lemma normal_jtext [simp]: "normal (jtext s) = jtext s"
  by (simp add: jtext_def)

lemma jobj_not_null [simp]: "jobj ms \<noteq> JNull"
  by (simp add: jobj_def)

lemma sound_jobj [sounds]:
  "sound_json (jobj ms) \<longleftrightarrow> distinct (map fst ms) \<and> list_all (\<lambda>kv. sound_json (snd kv)) ms"
proof -
  have "proper (jobj ms) \<longleftrightarrow> distinct (map fst ms) \<and> list_all (\<lambda>kv. proper (snd kv)) ms"
    using ustr_inj by (auto simp: jobj_def comp_def distinct_map inj_on_def list_all_iff)
  then show ?thesis by (auto simp: sound_json_def scalars_jobj list_all_iff)
qed

lemma sound_list [sounds]: "sound_json (jlist f xs) \<longleftrightarrow> list_all (\<lambda>x. sound_json (f x)) xs"
  by (auto simp: jlist_def sound_json_def list_all_iff)

lemma sound_leaves [sounds]:
  "sound_json (JInt i)" "sound_json (JBool b)" "sound_json JNull" "sound_json (juuid u)" "sound_json (juuids us)" "sound_json (jtext s)"
  "sound_json (JStr t) = list_all scalar t" "sound_json (jtexts ts) = list_all (list_all scalar) ts"
  by (simp_all add: sound_json_def juuid_def juuids_def jtexts_def jtext_def ustr_scalar list_all_iff)
     (simp_all add: ustr_scalar [unfolded list_all_iff])

lemma sound_opt [sounds]: "sound_json (jopt f x) \<longleftrightarrow> pred_option (\<lambda>y. sound_json (f y)) x"
  by (cases x) (simp_all add: jopt_def sound_json_def)

lemma pred_option_top [simp]: "pred_option (\<lambda>y. True) x"
  by (cases x) simp_all

lemma sound_plain [sounds]: "plain_json j \<Longrightarrow> sound_json j" "plain_object j \<Longrightarrow> sound_json j"
  by (simp_all add: sound_json_def plain_json_def plain_object_def)

lemma ascii_scalar: "list_all (\<lambda>c. c < 128) s \<Longrightarrow> list_all scalar s"
  by (auto simp: list_all_iff intro: scalar_ascii)

lemma rational_from_valid [simp]: "RationalV1_valid (rational_from q)"
  by (cases "quotient_of q")
     (auto simp: RationalV1_valid_def rational_from_def coprime_iff_gcd_eq_1 [symmetric] dest: quotient_of_coprime quotient_of_denom_pos)

lemma fraction_rational_from [simp]: "fraction (rational_from q) = q"
  by (cases "quotient_of q") (auto simp: fraction_def rational_from_def Fract_of_int_quotient dest: quotient_of_div)

lemma fraction_inject: "RationalV1_valid r \<Longrightarrow> RationalV1_valid s \<Longrightarrow> fraction r = fraction s \<Longrightarrow> r = s"
  by (cases r; cases s)
     (metis RationalV1.select_convs RationalV1_valid_def coprime_iff_gcd_eq_1 fraction_def prod.inject quotient_of_Fract normalize_stable)

lemma text_scalar [sounds]:
  "hash_text s \<Longrightarrow> list_all scalar s" "ident_text s \<Longrightarrow> list_all scalar s" "version_text s \<Longrightarrow> list_all scalar s"
  "feasibility_text s \<Longrightarrow> list_all scalar s" "reason_text s \<Longrightarrow> list_all scalar s" "reason_code s \<Longrightarrow> list_all scalar s"
  "list_all hash_text ts \<Longrightarrow> list_all (list_all scalar) ts"
  "pred_option hash_text t \<Longrightarrow> pred_option (list_all scalar) t" "pred_option reason_code t \<Longrightarrow> pred_option (list_all scalar) t"
proof -
  show h: "list_all scalar s" if "hash_text s" for s
  proof (rule ascii_scalar)
    have "s = ustr ''sha256:'' @ drop 7 s" using that append_take_drop_id [of 7 s] by (simp add: hash_text_def)
    moreover have "list_all (\<lambda>c. c < 128) (ustr ''sha256:'' @ drop 7 s)"
      using that by (auto simp: hash_text_def list_all_iff lower_hex_def ustr_def)
    ultimately show "list_all (\<lambda>c. c < 128) s" by metis
  qed
  show "list_all scalar s" if "ident_text s" for s
    using that by (intro ascii_scalar) (auto simp: ident_text_def list_all_iff lower_letter_def is_digit_def)
  show "list_all scalar s" if "version_text s" for s
    using that by (intro ascii_scalar) (auto simp: version_text_def list_all_iff lower_letter_def upper_letter_def is_digit_def)
  show "list_all scalar s" if "feasibility_text s" for s
    using that ustr_scalar by (auto simp: feasibility_text_def)
  show "list_all scalar s" if "reason_text s" for s
    using that by (intro ascii_scalar) (auto simp: reason_text_def list_all_iff upper_letter_def is_digit_def)
  show r: "list_all scalar s" if "reason_code s" for s using that by (simp add: reason_code_def)
  show "list_all (list_all scalar) ts" if "list_all hash_text ts" using that h by (auto simp: list_all_iff)
  show "pred_option (list_all scalar) t" if "pred_option hash_text t" using that h by (cases t) auto
  show "pred_option (list_all scalar) t" if "pred_option reason_code t" using that r by (cases t) auto
qed

lemma episode_status_of_value [simp, reads]: "episode_status_of (jtext (episode_status_value x)) = Some x"
  by (cases x; simp add: episode_status_of_def enum_of_def jtext_def)

lemma reward_status_of_value [simp, reads]: "reward_status_of (jtext (reward_status_value x)) = Some x"
  by (cases x; simp add: reward_status_of_def enum_of_def jtext_def)

lemma reward_direction_of_value [simp, reads]: "reward_direction_of (jtext (reward_direction_value x)) = Some x"
  by (cases x; simp add: reward_direction_of_def enum_of_def jtext_def)

lemma credit_status_of_value [simp, reads]: "credit_status_of (jtext (credit_status_value x)) = Some x"
  by (cases x; simp add: credit_status_of_def enum_of_def jtext_def)

lemma action_kind_of_value [simp, reads]: "action_kind_of (jtext (action_kind_value x)) = Some x"
  by (cases x; simp add: action_kind_of_def enum_of_def jtext_def)

lemma decision_outcome_of_value [simp, reads]: "decision_outcome_of (jtext (decision_outcome_value x)) = Some x"
  by (cases x; simp add: decision_outcome_of_def enum_of_def jtext_def)

lemma RationalV1_read [reads]:
  assumes "RationalV1_valid x"
  shows "RationalV1_of (normal (RationalV1_json x)) = Some x"
proof -
  have eta: "\<lparr>rt_numerator = rt_numerator x, rt_denominator = rt_denominator x\<rparr> = x" by simp
  show ?thesis unfolding RationalV1_of_def RationalV1_json_def
    using assms by (simp add: reads validated_def literal_of_def eta)
qed

lemma RationalV1_sound [sounds]:
  assumes "RationalV1_valid x"
  shows "sound_json (RationalV1_json x)"
proof -
  show ?thesis by (simp add: RationalV1_json_def sounds)
qed

lemma RationalV1_reads [reads]:
  "pred_option RationalV1_valid y \<Longrightarrow> nullable RationalV1_of (normal (jopt RationalV1_json y)) = Some y"
  "list_all RationalV1_valid ys \<Longrightarrow> list_of RationalV1_of (normal (jlist RationalV1_json ys)) = Some ys"
proof -
  show "nullable RationalV1_of (normal (jopt RationalV1_json y)) = Some y" if "pred_option RationalV1_valid y"
    by (rule nullable_jopt) (use that RationalV1_read in \<open>cases y; simp\<close>, simp add: RationalV1_json_def)
  show "list_of RationalV1_of (normal (jlist RationalV1_json ys)) = Some ys" if "list_all RationalV1_valid ys"
    by (rule list_of_map) (use that RationalV1_read in \<open>auto simp: list_all_iff\<close>)
qed

lemma RationalV1_sounds [sounds]:
  "pred_option RationalV1_valid y \<Longrightarrow> pred_option (\<lambda>y. sound_json (RationalV1_json y)) y"
  "list_all RationalV1_valid ys \<Longrightarrow> list_all (\<lambda>y. sound_json (RationalV1_json y)) ys"
  by (cases y; simp add: RationalV1_sound) (auto simp: list_all_iff RationalV1_sound)

lemma ImplementationRefV1_read [reads]:
  assumes "ImplementationRefV1_valid x"
  shows "ImplementationRefV1_of (normal (ImplementationRefV1_json x)) = Some x"
proof -
  have eta: "\<lparr>ir_implementation_id = ir_implementation_id x, ir_implementation_version = ir_implementation_version x\<rparr> = x" by simp
  show ?thesis unfolding ImplementationRefV1_of_def ImplementationRefV1_json_def
    using assms by (simp add: reads validated_def literal_of_def eta)
qed

lemma ImplementationRefV1_sound [sounds]:
  assumes "ImplementationRefV1_valid x"
  shows "sound_json (ImplementationRefV1_json x)"
proof -
  have texts: "list_all scalar (ir_implementation_id x)" "list_all scalar (ir_implementation_version x)"
    using assms by (simp_all add: ImplementationRefV1_valid_def sounds)
  show ?thesis using texts by (simp add: ImplementationRefV1_json_def sounds)
qed

lemma ImplementationRefV1_reads [reads]:
  "pred_option ImplementationRefV1_valid y \<Longrightarrow> nullable ImplementationRefV1_of (normal (jopt ImplementationRefV1_json y)) = Some y"
  "list_all ImplementationRefV1_valid ys \<Longrightarrow> list_of ImplementationRefV1_of (normal (jlist ImplementationRefV1_json ys)) = Some ys"
proof -
  show "nullable ImplementationRefV1_of (normal (jopt ImplementationRefV1_json y)) = Some y" if "pred_option ImplementationRefV1_valid y"
    by (rule nullable_jopt) (use that ImplementationRefV1_read in \<open>cases y; simp\<close>, simp add: ImplementationRefV1_json_def)
  show "list_of ImplementationRefV1_of (normal (jlist ImplementationRefV1_json ys)) = Some ys" if "list_all ImplementationRefV1_valid ys"
    by (rule list_of_map) (use that ImplementationRefV1_read in \<open>auto simp: list_all_iff\<close>)
qed

lemma ImplementationRefV1_sounds [sounds]:
  "pred_option ImplementationRefV1_valid y \<Longrightarrow> pred_option (\<lambda>y. sound_json (ImplementationRefV1_json y)) y"
  "list_all ImplementationRefV1_valid ys \<Longrightarrow> list_all (\<lambda>y. sound_json (ImplementationRefV1_json y)) ys"
  by (cases y; simp add: ImplementationRefV1_sound) (auto simp: list_all_iff ImplementationRefV1_sound)

lemma SourceSnapshotV1_read [reads]:
  assumes "SourceSnapshotV1_valid x"
  shows "SourceSnapshotV1_of (normal (SourceSnapshotV1_json x)) = Some x"
proof -
  have nested: "plain_object (ss_payload x)"
    using assms unfolding SourceSnapshotV1_valid_def by blast+
  have eta: "\<lparr>ss_source_id = ss_source_id x, ss_source_kind = ss_source_kind x, ss_source_version = ss_source_version x, ss_payload = ss_payload x, ss_snapshot_hash = ss_snapshot_hash x\<rparr> = x" by simp
  show ?thesis unfolding SourceSnapshotV1_of_def SourceSnapshotV1_json_def
    using assms nested by (simp add: reads validated_def literal_of_def eta)
qed

lemma SourceSnapshotV1_sound [sounds]:
  assumes "SourceSnapshotV1_valid x"
  shows "sound_json (SourceSnapshotV1_json x)"
proof -
  have nested: "plain_object (ss_payload x)"
    using assms unfolding SourceSnapshotV1_valid_def by blast+
  have texts: "list_all scalar (ss_source_kind x)" "list_all scalar (ss_snapshot_hash x)"
    using assms by (simp_all add: SourceSnapshotV1_valid_def sounds)
  show ?thesis using nested texts by (simp add: SourceSnapshotV1_json_def sounds)
qed

lemma SourceSnapshotV1_reads [reads]:
  "pred_option SourceSnapshotV1_valid y \<Longrightarrow> nullable SourceSnapshotV1_of (normal (jopt SourceSnapshotV1_json y)) = Some y"
  "list_all SourceSnapshotV1_valid ys \<Longrightarrow> list_of SourceSnapshotV1_of (normal (jlist SourceSnapshotV1_json ys)) = Some ys"
proof -
  show "nullable SourceSnapshotV1_of (normal (jopt SourceSnapshotV1_json y)) = Some y" if "pred_option SourceSnapshotV1_valid y"
    by (rule nullable_jopt) (use that SourceSnapshotV1_read in \<open>cases y; simp\<close>, simp add: SourceSnapshotV1_json_def)
  show "list_of SourceSnapshotV1_of (normal (jlist SourceSnapshotV1_json ys)) = Some ys" if "list_all SourceSnapshotV1_valid ys"
    by (rule list_of_map) (use that SourceSnapshotV1_read in \<open>auto simp: list_all_iff\<close>)
qed

lemma SourceSnapshotV1_sounds [sounds]:
  "pred_option SourceSnapshotV1_valid y \<Longrightarrow> pred_option (\<lambda>y. sound_json (SourceSnapshotV1_json y)) y"
  "list_all SourceSnapshotV1_valid ys \<Longrightarrow> list_all (\<lambda>y. sound_json (SourceSnapshotV1_json y)) ys"
  by (cases y; simp add: SourceSnapshotV1_sound) (auto simp: list_all_iff SourceSnapshotV1_sound)

lemma ObservationSourceV1_read [reads]:
  assumes "ObservationSourceV1_valid x"
  shows "ObservationSourceV1_of (normal (ObservationSourceV1_json x)) = Some x"
proof -
  have nested: "SourceSnapshotV1_valid (os_snapshot x)"
    using assms unfolding ObservationSourceV1_valid_def by blast+
  have eta: "\<lparr>os_ordinal = os_ordinal x, os_snapshot = os_snapshot x, os_source_hash = os_source_hash x\<rparr> = x" by simp
  show ?thesis unfolding ObservationSourceV1_of_def ObservationSourceV1_json_def
    using assms nested by (simp add: reads validated_def literal_of_def eta)
qed

lemma ObservationSourceV1_sound [sounds]:
  assumes "ObservationSourceV1_valid x"
  shows "sound_json (ObservationSourceV1_json x)"
proof -
  have nested: "SourceSnapshotV1_valid (os_snapshot x)"
    using assms unfolding ObservationSourceV1_valid_def by blast+
  have texts: "list_all scalar (os_source_hash x)"
    using assms by (simp_all add: ObservationSourceV1_valid_def sounds)
  show ?thesis using nested texts by (simp add: ObservationSourceV1_json_def sounds)
qed

lemma ObservationSourceV1_reads [reads]:
  "pred_option ObservationSourceV1_valid y \<Longrightarrow> nullable ObservationSourceV1_of (normal (jopt ObservationSourceV1_json y)) = Some y"
  "list_all ObservationSourceV1_valid ys \<Longrightarrow> list_of ObservationSourceV1_of (normal (jlist ObservationSourceV1_json ys)) = Some ys"
proof -
  show "nullable ObservationSourceV1_of (normal (jopt ObservationSourceV1_json y)) = Some y" if "pred_option ObservationSourceV1_valid y"
    by (rule nullable_jopt) (use that ObservationSourceV1_read in \<open>cases y; simp\<close>, simp add: ObservationSourceV1_json_def)
  show "list_of ObservationSourceV1_of (normal (jlist ObservationSourceV1_json ys)) = Some ys" if "list_all ObservationSourceV1_valid ys"
    by (rule list_of_map) (use that ObservationSourceV1_read in \<open>auto simp: list_all_iff\<close>)
qed

lemma ObservationSourceV1_sounds [sounds]:
  "pred_option ObservationSourceV1_valid y \<Longrightarrow> pred_option (\<lambda>y. sound_json (ObservationSourceV1_json y)) y"
  "list_all ObservationSourceV1_valid ys \<Longrightarrow> list_all (\<lambda>y. sound_json (ObservationSourceV1_json y)) ys"
  by (cases y; simp add: ObservationSourceV1_sound) (auto simp: list_all_iff ObservationSourceV1_sound)

lemma ObservationFeatureV1_read [reads]:
  assumes "ObservationFeatureV1_valid x"
  shows "ObservationFeatureV1_of (normal (ObservationFeatureV1_json x)) = Some x"
proof -
  have nested: "plain_json (of_value x)"
    using assms unfolding ObservationFeatureV1_valid_def by blast+
  have eta: "\<lparr>of_feature_id = of_feature_id x, of_feature_version = of_feature_version x, of_value = of_value x, of_source_hashes = of_source_hashes x, of_feature_hash = of_feature_hash x\<rparr> = x" by simp
  show ?thesis unfolding ObservationFeatureV1_of_def ObservationFeatureV1_json_def
    using assms nested by (simp add: reads validated_def literal_of_def eta)
qed

lemma ObservationFeatureV1_sound [sounds]:
  assumes "ObservationFeatureV1_valid x"
  shows "sound_json (ObservationFeatureV1_json x)"
proof -
  have nested: "plain_json (of_value x)"
    using assms unfolding ObservationFeatureV1_valid_def by blast+
  have texts: "list_all scalar (of_feature_id x)" "list_all scalar (of_feature_version x)" "list_all (list_all scalar) (of_source_hashes x)" "list_all scalar (of_feature_hash x)"
    using assms by (simp_all add: ObservationFeatureV1_valid_def sounds)
  show ?thesis using nested texts by (simp add: ObservationFeatureV1_json_def sounds)
qed

lemma ObservationFeatureV1_reads [reads]:
  "pred_option ObservationFeatureV1_valid y \<Longrightarrow> nullable ObservationFeatureV1_of (normal (jopt ObservationFeatureV1_json y)) = Some y"
  "list_all ObservationFeatureV1_valid ys \<Longrightarrow> list_of ObservationFeatureV1_of (normal (jlist ObservationFeatureV1_json ys)) = Some ys"
proof -
  show "nullable ObservationFeatureV1_of (normal (jopt ObservationFeatureV1_json y)) = Some y" if "pred_option ObservationFeatureV1_valid y"
    by (rule nullable_jopt) (use that ObservationFeatureV1_read in \<open>cases y; simp\<close>, simp add: ObservationFeatureV1_json_def)
  show "list_of ObservationFeatureV1_of (normal (jlist ObservationFeatureV1_json ys)) = Some ys" if "list_all ObservationFeatureV1_valid ys"
    by (rule list_of_map) (use that ObservationFeatureV1_read in \<open>auto simp: list_all_iff\<close>)
qed

lemma ObservationFeatureV1_sounds [sounds]:
  "pred_option ObservationFeatureV1_valid y \<Longrightarrow> pred_option (\<lambda>y. sound_json (ObservationFeatureV1_json y)) y"
  "list_all ObservationFeatureV1_valid ys \<Longrightarrow> list_all (\<lambda>y. sound_json (ObservationFeatureV1_json y)) ys"
  by (cases y; simp add: ObservationFeatureV1_sound) (auto simp: list_all_iff ObservationFeatureV1_sound)

lemma MarlObservationV1_read [reads]:
  assumes "MarlObservationV1_valid x"
  shows "MarlObservationV1_of (normal (MarlObservationV1_json x)) = Some x"
proof -
  have nested: "ImplementationRefV1_valid (mo_observation_implementation x)" "list_all ObservationSourceV1_valid (mo_sources x)" "list_all ObservationFeatureV1_valid (mo_features x)"
    using assms unfolding MarlObservationV1_valid_def by blast+
  have eta: "\<lparr>mo_observation_id = mo_observation_id x, mo_episode_id = mo_episode_id x, mo_workspace_id = mo_workspace_id x, mo_session_id = mo_session_id x, mo_decision_index = mo_decision_index x, mo_environment_version = mo_environment_version x, mo_observation_implementation = mo_observation_implementation x, mo_ledger_seq = mo_ledger_seq x, mo_ledger_event_id = mo_ledger_event_id x, mo_ledger_hash = mo_ledger_hash x, mo_terminal = mo_terminal x, mo_terminal_reason = mo_terminal_reason x, mo_sources = mo_sources x, mo_features = mo_features x, mo_sources_hash = mo_sources_hash x, mo_features_hash = mo_features_hash x, mo_observation_hash = mo_observation_hash x\<rparr> = x" by simp
  show ?thesis unfolding MarlObservationV1_of_def MarlObservationV1_json_def
    using assms nested by (simp add: reads validated_def literal_of_def eta)
qed

lemma MarlObservationV1_sound [sounds]:
  assumes "MarlObservationV1_valid x"
  shows "sound_json (MarlObservationV1_json x)"
proof -
  have nested: "ImplementationRefV1_valid (mo_observation_implementation x)" "list_all ObservationSourceV1_valid (mo_sources x)" "list_all ObservationFeatureV1_valid (mo_features x)"
    using assms unfolding MarlObservationV1_valid_def by blast+
  have texts: "list_all scalar (mo_environment_version x)" "list_all scalar (mo_ledger_hash x)" "pred_option (list_all scalar) (mo_terminal_reason x)" "list_all scalar (mo_sources_hash x)" "list_all scalar (mo_features_hash x)" "list_all scalar (mo_observation_hash x)"
    using assms by (simp_all add: MarlObservationV1_valid_def sounds)
  show ?thesis using nested texts by (simp add: MarlObservationV1_json_def sounds)
qed

lemma MarlObservationV1_reads [reads]:
  "pred_option MarlObservationV1_valid y \<Longrightarrow> nullable MarlObservationV1_of (normal (jopt MarlObservationV1_json y)) = Some y"
  "list_all MarlObservationV1_valid ys \<Longrightarrow> list_of MarlObservationV1_of (normal (jlist MarlObservationV1_json ys)) = Some ys"
proof -
  show "nullable MarlObservationV1_of (normal (jopt MarlObservationV1_json y)) = Some y" if "pred_option MarlObservationV1_valid y"
    by (rule nullable_jopt) (use that MarlObservationV1_read in \<open>cases y; simp\<close>, simp add: MarlObservationV1_json_def)
  show "list_of MarlObservationV1_of (normal (jlist MarlObservationV1_json ys)) = Some ys" if "list_all MarlObservationV1_valid ys"
    by (rule list_of_map) (use that MarlObservationV1_read in \<open>auto simp: list_all_iff\<close>)
qed

lemma MarlObservationV1_sounds [sounds]:
  "pred_option MarlObservationV1_valid y \<Longrightarrow> pred_option (\<lambda>y. sound_json (MarlObservationV1_json y)) y"
  "list_all MarlObservationV1_valid ys \<Longrightarrow> list_all (\<lambda>y. sound_json (MarlObservationV1_json y)) ys"
  by (cases y; simp add: MarlObservationV1_sound) (auto simp: list_all_iff MarlObservationV1_sound)

lemma ProposedActionV1_read [reads]:
  assumes "ProposedActionV1_valid x"
  shows "ProposedActionV1_of (normal (ProposedActionV1_json x)) = Some x"
proof -
  have nested: "ImplementationRefV1_valid (pa_policy_implementation x)" "plain_object (pa_payload x)"
    using assms unfolding ProposedActionV1_valid_def by blast+
  have eta: "\<lparr>pa_proposal_id = pa_proposal_id x, pa_episode_id = pa_episode_id x, pa_decision_index = pa_decision_index x, pa_observation_id = pa_observation_id x, pa_observation_hash = pa_observation_hash x, pa_policy_implementation = pa_policy_implementation x, pa_seed = pa_seed x, pa_kind = pa_kind x, pa_agent_definition_ids = pa_agent_definition_ids x, pa_payload = pa_payload x, pa_action_hash = pa_action_hash x\<rparr> = x" by simp
  show ?thesis unfolding ProposedActionV1_of_def ProposedActionV1_json_def
    using assms nested by (simp add: reads validated_def literal_of_def eta)
qed

lemma ProposedActionV1_sound [sounds]:
  assumes "ProposedActionV1_valid x"
  shows "sound_json (ProposedActionV1_json x)"
proof -
  have nested: "ImplementationRefV1_valid (pa_policy_implementation x)" "plain_object (pa_payload x)"
    using assms unfolding ProposedActionV1_valid_def by blast+
  have texts: "list_all scalar (pa_observation_hash x)" "list_all scalar (pa_action_hash x)"
    using assms by (simp_all add: ProposedActionV1_valid_def sounds)
  show ?thesis using nested texts by (simp add: ProposedActionV1_json_def sounds)
qed

lemma ProposedActionV1_reads [reads]:
  "pred_option ProposedActionV1_valid y \<Longrightarrow> nullable ProposedActionV1_of (normal (jopt ProposedActionV1_json y)) = Some y"
  "list_all ProposedActionV1_valid ys \<Longrightarrow> list_of ProposedActionV1_of (normal (jlist ProposedActionV1_json ys)) = Some ys"
proof -
  show "nullable ProposedActionV1_of (normal (jopt ProposedActionV1_json y)) = Some y" if "pred_option ProposedActionV1_valid y"
    by (rule nullable_jopt) (use that ProposedActionV1_read in \<open>cases y; simp\<close>, simp add: ProposedActionV1_json_def)
  show "list_of ProposedActionV1_of (normal (jlist ProposedActionV1_json ys)) = Some ys" if "list_all ProposedActionV1_valid ys"
    by (rule list_of_map) (use that ProposedActionV1_read in \<open>auto simp: list_all_iff\<close>)
qed

lemma ProposedActionV1_sounds [sounds]:
  "pred_option ProposedActionV1_valid y \<Longrightarrow> pred_option (\<lambda>y. sound_json (ProposedActionV1_json y)) y"
  "list_all ProposedActionV1_valid ys \<Longrightarrow> list_all (\<lambda>y. sound_json (ProposedActionV1_json y)) ys"
  by (cases y; simp add: ProposedActionV1_sound) (auto simp: list_all_iff ProposedActionV1_sound)

lemma ExecutedActionV1_read [reads]:
  assumes "ExecutedActionV1_valid x"
  shows "ExecutedActionV1_of (normal (ExecutedActionV1_json x)) = Some x"
proof -
  have nested: "plain_object (xa_payload x)"
    using assms unfolding ExecutedActionV1_valid_def by blast+
  have eta: "\<lparr>xa_execution_id = xa_execution_id x, xa_episode_id = xa_episode_id x, xa_decision_index = xa_decision_index x, xa_kind = xa_kind x, xa_agent_definition_ids = xa_agent_definition_ids x, xa_payload = xa_payload x, xa_executed_action_hash = xa_executed_action_hash x\<rparr> = x" by simp
  show ?thesis unfolding ExecutedActionV1_of_def ExecutedActionV1_json_def
    using assms nested by (simp add: reads validated_def literal_of_def eta)
qed

lemma ExecutedActionV1_sound [sounds]:
  assumes "ExecutedActionV1_valid x"
  shows "sound_json (ExecutedActionV1_json x)"
proof -
  have nested: "plain_object (xa_payload x)"
    using assms unfolding ExecutedActionV1_valid_def by blast+
  have texts: "list_all scalar (xa_executed_action_hash x)"
    using assms by (simp_all add: ExecutedActionV1_valid_def sounds)
  show ?thesis using nested texts by (simp add: ExecutedActionV1_json_def sounds)
qed

lemma ExecutedActionV1_reads [reads]:
  "pred_option ExecutedActionV1_valid y \<Longrightarrow> nullable ExecutedActionV1_of (normal (jopt ExecutedActionV1_json y)) = Some y"
  "list_all ExecutedActionV1_valid ys \<Longrightarrow> list_of ExecutedActionV1_of (normal (jlist ExecutedActionV1_json ys)) = Some ys"
proof -
  show "nullable ExecutedActionV1_of (normal (jopt ExecutedActionV1_json y)) = Some y" if "pred_option ExecutedActionV1_valid y"
    by (rule nullable_jopt) (use that ExecutedActionV1_read in \<open>cases y; simp\<close>, simp add: ExecutedActionV1_json_def)
  show "list_of ExecutedActionV1_of (normal (jlist ExecutedActionV1_json ys)) = Some ys" if "list_all ExecutedActionV1_valid ys"
    by (rule list_of_map) (use that ExecutedActionV1_read in \<open>auto simp: list_all_iff\<close>)
qed

lemma ExecutedActionV1_sounds [sounds]:
  "pred_option ExecutedActionV1_valid y \<Longrightarrow> pred_option (\<lambda>y. sound_json (ExecutedActionV1_json y)) y"
  "list_all ExecutedActionV1_valid ys \<Longrightarrow> list_all (\<lambda>y. sound_json (ExecutedActionV1_json y)) ys"
  by (cases y; simp add: ExecutedActionV1_sound) (auto simp: list_all_iff ExecutedActionV1_sound)

lemma CoordinatorDecisionV1_read [reads]:
  assumes "CoordinatorDecisionV1_valid x"
  shows "CoordinatorDecisionV1_of (normal (CoordinatorDecisionV1_json x)) = Some x"
proof -
  have nested: "ImplementationRefV1_valid (cd_coordinator_implementation x)"
    using assms unfolding CoordinatorDecisionV1_valid_def by blast+
  have eta: "\<lparr>cd_decision_id = cd_decision_id x, cd_episode_id = cd_episode_id x, cd_decision_index = cd_decision_index x, cd_observation_hash = cd_observation_hash x, cd_proposal_hash = cd_proposal_hash x, cd_outcome = cd_outcome x, cd_reason = cd_reason x, cd_coordinator_implementation = cd_coordinator_implementation x, cd_executed_action_hash = cd_executed_action_hash x, cd_feasibility_status = cd_feasibility_status x, cd_decision_hash = cd_decision_hash x\<rparr> = x" by simp
  show ?thesis unfolding CoordinatorDecisionV1_of_def CoordinatorDecisionV1_json_def
    using assms nested by (simp add: reads validated_def literal_of_def eta)
qed

lemma CoordinatorDecisionV1_sound [sounds]:
  assumes "CoordinatorDecisionV1_valid x"
  shows "sound_json (CoordinatorDecisionV1_json x)"
proof -
  have nested: "ImplementationRefV1_valid (cd_coordinator_implementation x)"
    using assms unfolding CoordinatorDecisionV1_valid_def by blast+
  have texts: "list_all scalar (cd_observation_hash x)" "pred_option (list_all scalar) (cd_proposal_hash x)" "list_all scalar (cd_reason x)" "pred_option (list_all scalar) (cd_executed_action_hash x)" "list_all scalar (cd_feasibility_status x)" "list_all scalar (cd_decision_hash x)"
    using assms by (simp_all add: CoordinatorDecisionV1_valid_def sounds)
  show ?thesis using nested texts by (simp add: CoordinatorDecisionV1_json_def sounds)
qed

lemma CoordinatorDecisionV1_reads [reads]:
  "pred_option CoordinatorDecisionV1_valid y \<Longrightarrow> nullable CoordinatorDecisionV1_of (normal (jopt CoordinatorDecisionV1_json y)) = Some y"
  "list_all CoordinatorDecisionV1_valid ys \<Longrightarrow> list_of CoordinatorDecisionV1_of (normal (jlist CoordinatorDecisionV1_json ys)) = Some ys"
proof -
  show "nullable CoordinatorDecisionV1_of (normal (jopt CoordinatorDecisionV1_json y)) = Some y" if "pred_option CoordinatorDecisionV1_valid y"
    by (rule nullable_jopt) (use that CoordinatorDecisionV1_read in \<open>cases y; simp\<close>, simp add: CoordinatorDecisionV1_json_def)
  show "list_of CoordinatorDecisionV1_of (normal (jlist CoordinatorDecisionV1_json ys)) = Some ys" if "list_all CoordinatorDecisionV1_valid ys"
    by (rule list_of_map) (use that CoordinatorDecisionV1_read in \<open>auto simp: list_all_iff\<close>)
qed

lemma CoordinatorDecisionV1_sounds [sounds]:
  "pred_option CoordinatorDecisionV1_valid y \<Longrightarrow> pred_option (\<lambda>y. sound_json (CoordinatorDecisionV1_json y)) y"
  "list_all CoordinatorDecisionV1_valid ys \<Longrightarrow> list_all (\<lambda>y. sound_json (CoordinatorDecisionV1_json y)) ys"
  by (cases y; simp add: CoordinatorDecisionV1_sound) (auto simp: list_all_iff CoordinatorDecisionV1_sound)

lemma RewardComponentV1_read [reads]:
  assumes "RewardComponentV1_valid x"
  shows "RewardComponentV1_of (normal (RewardComponentV1_json x)) = Some x"
proof -
  have nested: "ImplementationRefV1_valid (rc_reward_implementation x)" "pred_option RationalV1_valid (rc_pre_metric_value x)" "pred_option RationalV1_valid (rc_post_metric_value x)" "RationalV1_valid (rc_reward_value x)"
    using assms unfolding RewardComponentV1_valid_def by blast+
  have eta: "\<lparr>rc_component_id = rc_component_id x, rc_episode_id = rc_episode_id x, rc_decision_index = rc_decision_index x, rc_ordinal = rc_ordinal x, rc_metric_id = rc_metric_id x, rc_metric_version = rc_metric_version x, rc_reward_implementation = rc_reward_implementation x, rc_direction = rc_direction x, rc_pre_metric_value = rc_pre_metric_value x, rc_post_metric_value = rc_post_metric_value x, rc_reward_value = rc_reward_value x, rc_status = rc_status x, rc_neutral_reason = rc_neutral_reason x, rc_source_hashes = rc_source_hashes x, rc_component_hash = rc_component_hash x\<rparr> = x" by simp
  show ?thesis unfolding RewardComponentV1_of_def RewardComponentV1_json_def
    using assms nested by (simp add: reads validated_def literal_of_def eta)
qed

lemma RewardComponentV1_sound [sounds]:
  assumes "RewardComponentV1_valid x"
  shows "sound_json (RewardComponentV1_json x)"
proof -
  have nested: "ImplementationRefV1_valid (rc_reward_implementation x)" "pred_option RationalV1_valid (rc_pre_metric_value x)" "pred_option RationalV1_valid (rc_post_metric_value x)" "RationalV1_valid (rc_reward_value x)"
    using assms unfolding RewardComponentV1_valid_def by blast+
  have texts: "list_all scalar (rc_metric_id x)" "list_all scalar (rc_metric_version x)" "pred_option (list_all scalar) (rc_neutral_reason x)" "list_all (list_all scalar) (rc_source_hashes x)" "list_all scalar (rc_component_hash x)"
    using assms by (simp_all add: RewardComponentV1_valid_def sounds)
  show ?thesis using nested texts by (simp add: RewardComponentV1_json_def sounds)
qed

lemma RewardComponentV1_reads [reads]:
  "pred_option RewardComponentV1_valid y \<Longrightarrow> nullable RewardComponentV1_of (normal (jopt RewardComponentV1_json y)) = Some y"
  "list_all RewardComponentV1_valid ys \<Longrightarrow> list_of RewardComponentV1_of (normal (jlist RewardComponentV1_json ys)) = Some ys"
proof -
  show "nullable RewardComponentV1_of (normal (jopt RewardComponentV1_json y)) = Some y" if "pred_option RewardComponentV1_valid y"
    by (rule nullable_jopt) (use that RewardComponentV1_read in \<open>cases y; simp\<close>, simp add: RewardComponentV1_json_def)
  show "list_of RewardComponentV1_of (normal (jlist RewardComponentV1_json ys)) = Some ys" if "list_all RewardComponentV1_valid ys"
    by (rule list_of_map) (use that RewardComponentV1_read in \<open>auto simp: list_all_iff\<close>)
qed

lemma RewardComponentV1_sounds [sounds]:
  "pred_option RewardComponentV1_valid y \<Longrightarrow> pred_option (\<lambda>y. sound_json (RewardComponentV1_json y)) y"
  "list_all RewardComponentV1_valid ys \<Longrightarrow> list_all (\<lambda>y. sound_json (RewardComponentV1_json y)) ys"
  by (cases y; simp add: RewardComponentV1_sound) (auto simp: list_all_iff RewardComponentV1_sound)

lemma CreditAssignmentV1_read [reads]:
  assumes "CreditAssignmentV1_valid x"
  shows "CreditAssignmentV1_of (normal (CreditAssignmentV1_json x)) = Some x"
proof -
  have nested: "RationalV1_valid (ca_share x)" "RationalV1_valid (ca_credited_value x)" "ImplementationRefV1_valid (ca_credit_implementation x)"
    using assms unfolding CreditAssignmentV1_valid_def by blast+
  have eta: "\<lparr>ca_credit_id = ca_credit_id x, ca_episode_id = ca_episode_id x, ca_decision_index = ca_decision_index x, ca_reward_component_id = ca_reward_component_id x, ca_reward_component_hash = ca_reward_component_hash x, ca_status = ca_status x, ca_agent_definition_ids = ca_agent_definition_ids x, ca_source_hashes = ca_source_hashes x, ca_share = ca_share x, ca_credited_value = ca_credited_value x, ca_credit_implementation = ca_credit_implementation x, ca_credit_hash = ca_credit_hash x\<rparr> = x" by simp
  show ?thesis unfolding CreditAssignmentV1_of_def CreditAssignmentV1_json_def
    using assms nested by (simp add: reads validated_def literal_of_def eta)
qed

lemma CreditAssignmentV1_sound [sounds]:
  assumes "CreditAssignmentV1_valid x"
  shows "sound_json (CreditAssignmentV1_json x)"
proof -
  have nested: "RationalV1_valid (ca_share x)" "RationalV1_valid (ca_credited_value x)" "ImplementationRefV1_valid (ca_credit_implementation x)"
    using assms unfolding CreditAssignmentV1_valid_def by blast+
  have texts: "list_all scalar (ca_reward_component_hash x)" "list_all (list_all scalar) (ca_source_hashes x)" "list_all scalar (ca_credit_hash x)"
    using assms by (simp_all add: CreditAssignmentV1_valid_def sounds)
  show ?thesis using nested texts by (simp add: CreditAssignmentV1_json_def sounds)
qed

lemma CreditAssignmentV1_reads [reads]:
  "pred_option CreditAssignmentV1_valid y \<Longrightarrow> nullable CreditAssignmentV1_of (normal (jopt CreditAssignmentV1_json y)) = Some y"
  "list_all CreditAssignmentV1_valid ys \<Longrightarrow> list_of CreditAssignmentV1_of (normal (jlist CreditAssignmentV1_json ys)) = Some ys"
proof -
  show "nullable CreditAssignmentV1_of (normal (jopt CreditAssignmentV1_json y)) = Some y" if "pred_option CreditAssignmentV1_valid y"
    by (rule nullable_jopt) (use that CreditAssignmentV1_read in \<open>cases y; simp\<close>, simp add: CreditAssignmentV1_json_def)
  show "list_of CreditAssignmentV1_of (normal (jlist CreditAssignmentV1_json ys)) = Some ys" if "list_all CreditAssignmentV1_valid ys"
    by (rule list_of_map) (use that CreditAssignmentV1_read in \<open>auto simp: list_all_iff\<close>)
qed

lemma CreditAssignmentV1_sounds [sounds]:
  "pred_option CreditAssignmentV1_valid y \<Longrightarrow> pred_option (\<lambda>y. sound_json (CreditAssignmentV1_json y)) y"
  "list_all CreditAssignmentV1_valid ys \<Longrightarrow> list_all (\<lambda>y. sound_json (CreditAssignmentV1_json y)) ys"
  by (cases y; simp add: CreditAssignmentV1_sound) (auto simp: list_all_iff CreditAssignmentV1_sound)

lemma DecisionBoundaryV1_read [reads]:
  assumes "DecisionBoundaryV1_valid x"
  shows "DecisionBoundaryV1_of (normal (DecisionBoundaryV1_json x)) = Some x"
proof -
  have nested: "MarlObservationV1_valid (db_observation x)" "pred_option ProposedActionV1_valid (db_proposed_action x)" "CoordinatorDecisionV1_valid (db_coordinator_decision x)" "pred_option ExecutedActionV1_valid (db_executed_action x)"
    using assms unfolding DecisionBoundaryV1_valid_def by blast+
  have eta: "\<lparr>db_episode_id = db_episode_id x, db_decision_index = db_decision_index x, db_observation = db_observation x, db_proposed_action = db_proposed_action x, db_coordinator_decision = db_coordinator_decision x, db_executed_action = db_executed_action x, db_boundary_hash = db_boundary_hash x\<rparr> = x" by simp
  show ?thesis unfolding DecisionBoundaryV1_of_def DecisionBoundaryV1_json_def
    using assms nested by (simp add: reads validated_def literal_of_def eta)
qed

lemma DecisionBoundaryV1_sound [sounds]:
  assumes "DecisionBoundaryV1_valid x"
  shows "sound_json (DecisionBoundaryV1_json x)"
proof -
  have nested: "MarlObservationV1_valid (db_observation x)" "pred_option ProposedActionV1_valid (db_proposed_action x)" "CoordinatorDecisionV1_valid (db_coordinator_decision x)" "pred_option ExecutedActionV1_valid (db_executed_action x)"
    using assms unfolding DecisionBoundaryV1_valid_def by blast+
  have texts: "list_all scalar (db_boundary_hash x)"
    using assms by (simp_all add: DecisionBoundaryV1_valid_def sounds)
  show ?thesis using nested texts by (simp add: DecisionBoundaryV1_json_def sounds)
qed

lemma DecisionBoundaryV1_reads [reads]:
  "pred_option DecisionBoundaryV1_valid y \<Longrightarrow> nullable DecisionBoundaryV1_of (normal (jopt DecisionBoundaryV1_json y)) = Some y"
  "list_all DecisionBoundaryV1_valid ys \<Longrightarrow> list_of DecisionBoundaryV1_of (normal (jlist DecisionBoundaryV1_json ys)) = Some ys"
proof -
  show "nullable DecisionBoundaryV1_of (normal (jopt DecisionBoundaryV1_json y)) = Some y" if "pred_option DecisionBoundaryV1_valid y"
    by (rule nullable_jopt) (use that DecisionBoundaryV1_read in \<open>cases y; simp\<close>, simp add: DecisionBoundaryV1_json_def)
  show "list_of DecisionBoundaryV1_of (normal (jlist DecisionBoundaryV1_json ys)) = Some ys" if "list_all DecisionBoundaryV1_valid ys"
    by (rule list_of_map) (use that DecisionBoundaryV1_read in \<open>auto simp: list_all_iff\<close>)
qed

lemma DecisionBoundaryV1_sounds [sounds]:
  "pred_option DecisionBoundaryV1_valid y \<Longrightarrow> pred_option (\<lambda>y. sound_json (DecisionBoundaryV1_json y)) y"
  "list_all DecisionBoundaryV1_valid ys \<Longrightarrow> list_all (\<lambda>y. sound_json (DecisionBoundaryV1_json y)) ys"
  by (cases y; simp add: DecisionBoundaryV1_sound) (auto simp: list_all_iff DecisionBoundaryV1_sound)

lemma TransitionV1_read [reads]:
  assumes "TransitionV1_valid x"
  shows "TransitionV1_of (normal (TransitionV1_json x)) = Some x"
proof -
  have nested: "DecisionBoundaryV1_valid (tr_boundary x)" "MarlObservationV1_valid (tr_post_observation x)" "list_all RewardComponentV1_valid (tr_rewards x)" "list_all CreditAssignmentV1_valid (tr_credits x)"
    using assms unfolding TransitionV1_valid_def by blast+
  have eta: "\<lparr>tr_episode_id = tr_episode_id x, tr_decision_index = tr_decision_index x, tr_boundary = tr_boundary x, tr_post_observation = tr_post_observation x, tr_rewards = tr_rewards x, tr_credits = tr_credits x, tr_terminal = tr_terminal x, tr_transition_hash = tr_transition_hash x\<rparr> = x" by simp
  show ?thesis unfolding TransitionV1_of_def TransitionV1_json_def
    using assms nested by (simp add: reads validated_def literal_of_def eta)
qed

lemma TransitionV1_sound [sounds]:
  assumes "TransitionV1_valid x"
  shows "sound_json (TransitionV1_json x)"
proof -
  have nested: "DecisionBoundaryV1_valid (tr_boundary x)" "MarlObservationV1_valid (tr_post_observation x)" "list_all RewardComponentV1_valid (tr_rewards x)" "list_all CreditAssignmentV1_valid (tr_credits x)"
    using assms unfolding TransitionV1_valid_def by blast+
  have texts: "list_all scalar (tr_transition_hash x)"
    using assms by (simp_all add: TransitionV1_valid_def sounds)
  show ?thesis using nested texts by (simp add: TransitionV1_json_def sounds)
qed

lemma TransitionV1_reads [reads]:
  "pred_option TransitionV1_valid y \<Longrightarrow> nullable TransitionV1_of (normal (jopt TransitionV1_json y)) = Some y"
  "list_all TransitionV1_valid ys \<Longrightarrow> list_of TransitionV1_of (normal (jlist TransitionV1_json ys)) = Some ys"
proof -
  show "nullable TransitionV1_of (normal (jopt TransitionV1_json y)) = Some y" if "pred_option TransitionV1_valid y"
    by (rule nullable_jopt) (use that TransitionV1_read in \<open>cases y; simp\<close>, simp add: TransitionV1_json_def)
  show "list_of TransitionV1_of (normal (jlist TransitionV1_json ys)) = Some ys" if "list_all TransitionV1_valid ys"
    by (rule list_of_map) (use that TransitionV1_read in \<open>auto simp: list_all_iff\<close>)
qed

lemma TransitionV1_sounds [sounds]:
  "pred_option TransitionV1_valid y \<Longrightarrow> pred_option (\<lambda>y. sound_json (TransitionV1_json y)) y"
  "list_all TransitionV1_valid ys \<Longrightarrow> list_all (\<lambda>y. sound_json (TransitionV1_json y)) ys"
  by (cases y; simp add: TransitionV1_sound) (auto simp: list_all_iff TransitionV1_sound)

lemma IncompleteMarkerV1_read [reads]:
  assumes "IncompleteMarkerV1_valid x"
  shows "IncompleteMarkerV1_of (normal (IncompleteMarkerV1_json x)) = Some x"
proof -
  have eta: "\<lparr>im_marker_id = im_marker_id x, im_episode_id = im_episode_id x, im_open_decision_index = im_open_decision_index x, im_reason = im_reason x, im_boundary_hash = im_boundary_hash x, im_incomplete_hash = im_incomplete_hash x\<rparr> = x" by simp
  show ?thesis unfolding IncompleteMarkerV1_of_def IncompleteMarkerV1_json_def
    using assms by (simp add: reads validated_def literal_of_def eta)
qed

lemma IncompleteMarkerV1_sound [sounds]:
  assumes "IncompleteMarkerV1_valid x"
  shows "sound_json (IncompleteMarkerV1_json x)"
proof -
  have texts: "list_all scalar (im_reason x)" "pred_option (list_all scalar) (im_boundary_hash x)" "list_all scalar (im_incomplete_hash x)"
    using assms by (simp_all add: IncompleteMarkerV1_valid_def sounds)
  show ?thesis using texts by (simp add: IncompleteMarkerV1_json_def sounds)
qed

lemma IncompleteMarkerV1_reads [reads]:
  "pred_option IncompleteMarkerV1_valid y \<Longrightarrow> nullable IncompleteMarkerV1_of (normal (jopt IncompleteMarkerV1_json y)) = Some y"
  "list_all IncompleteMarkerV1_valid ys \<Longrightarrow> list_of IncompleteMarkerV1_of (normal (jlist IncompleteMarkerV1_json ys)) = Some ys"
proof -
  show "nullable IncompleteMarkerV1_of (normal (jopt IncompleteMarkerV1_json y)) = Some y" if "pred_option IncompleteMarkerV1_valid y"
    by (rule nullable_jopt) (use that IncompleteMarkerV1_read in \<open>cases y; simp\<close>, simp add: IncompleteMarkerV1_json_def)
  show "list_of IncompleteMarkerV1_of (normal (jlist IncompleteMarkerV1_json ys)) = Some ys" if "list_all IncompleteMarkerV1_valid ys"
    by (rule list_of_map) (use that IncompleteMarkerV1_read in \<open>auto simp: list_all_iff\<close>)
qed

lemma IncompleteMarkerV1_sounds [sounds]:
  "pred_option IncompleteMarkerV1_valid y \<Longrightarrow> pred_option (\<lambda>y. sound_json (IncompleteMarkerV1_json y)) y"
  "list_all IncompleteMarkerV1_valid ys \<Longrightarrow> list_all (\<lambda>y. sound_json (IncompleteMarkerV1_json y)) ys"
  by (cases y; simp add: IncompleteMarkerV1_sound) (auto simp: list_all_iff IncompleteMarkerV1_sound)

lemma TrajectoryManifestV1_read [reads]:
  assumes "TrajectoryManifestV1_valid x"
  shows "TrajectoryManifestV1_of (normal (TrajectoryManifestV1_json x)) = Some x"
proof -
  have nested: "list_all ImplementationRefV1_valid (tm_observation_implementations x)" "list_all ImplementationRefV1_valid (tm_reward_implementations x)" "list_all ImplementationRefV1_valid (tm_credit_implementations x)" "list_all ImplementationRefV1_valid (tm_coordinator_implementations x)"
    using assms unfolding TrajectoryManifestV1_valid_def by blast+
  have eta: "\<lparr>tm_episode_id = tm_episode_id x, tm_episode_status = tm_episode_status x, tm_environment_version = tm_environment_version x, tm_code_identity = tm_code_identity x, tm_observation_implementations = tm_observation_implementations x, tm_reward_implementations = tm_reward_implementations x, tm_credit_implementations = tm_credit_implementations x, tm_coordinator_implementations = tm_coordinator_implementations x, tm_trajectory_sha256 = tm_trajectory_sha256 x, tm_trajectory_byte_length = tm_trajectory_byte_length x, tm_record_count = tm_record_count x, tm_episode_hash = tm_episode_hash x\<rparr> = x" by simp
  show ?thesis unfolding TrajectoryManifestV1_of_def TrajectoryManifestV1_json_def
    using assms nested by (simp add: reads validated_def literal_of_def eta)
qed

lemma TrajectoryManifestV1_sound [sounds]:
  assumes "TrajectoryManifestV1_valid x"
  shows "sound_json (TrajectoryManifestV1_json x)"
proof -
  have nested: "list_all ImplementationRefV1_valid (tm_observation_implementations x)" "list_all ImplementationRefV1_valid (tm_reward_implementations x)" "list_all ImplementationRefV1_valid (tm_credit_implementations x)" "list_all ImplementationRefV1_valid (tm_coordinator_implementations x)"
    using assms unfolding TrajectoryManifestV1_valid_def by blast+
  have texts: "list_all scalar (tm_environment_version x)" "list_all scalar (tm_code_identity x)" "list_all scalar (tm_trajectory_sha256 x)" "list_all scalar (tm_episode_hash x)"
    using assms by (simp_all add: TrajectoryManifestV1_valid_def sounds)
  show ?thesis using nested texts by (simp add: TrajectoryManifestV1_json_def sounds)
qed

lemma TrajectoryManifestV1_reads [reads]:
  "pred_option TrajectoryManifestV1_valid y \<Longrightarrow> nullable TrajectoryManifestV1_of (normal (jopt TrajectoryManifestV1_json y)) = Some y"
  "list_all TrajectoryManifestV1_valid ys \<Longrightarrow> list_of TrajectoryManifestV1_of (normal (jlist TrajectoryManifestV1_json ys)) = Some ys"
proof -
  show "nullable TrajectoryManifestV1_of (normal (jopt TrajectoryManifestV1_json y)) = Some y" if "pred_option TrajectoryManifestV1_valid y"
    by (rule nullable_jopt) (use that TrajectoryManifestV1_read in \<open>cases y; simp\<close>, simp add: TrajectoryManifestV1_json_def)
  show "list_of TrajectoryManifestV1_of (normal (jlist TrajectoryManifestV1_json ys)) = Some ys" if "list_all TrajectoryManifestV1_valid ys"
    by (rule list_of_map) (use that TrajectoryManifestV1_read in \<open>auto simp: list_all_iff\<close>)
qed

lemma TrajectoryManifestV1_sounds [sounds]:
  "pred_option TrajectoryManifestV1_valid y \<Longrightarrow> pred_option (\<lambda>y. sound_json (TrajectoryManifestV1_json y)) y"
  "list_all TrajectoryManifestV1_valid ys \<Longrightarrow> list_all (\<lambda>y. sound_json (TrajectoryManifestV1_json y)) ys"
  by (cases y; simp add: TrajectoryManifestV1_sound) (auto simp: list_all_iff TrajectoryManifestV1_sound)

lemma MarlEpisodeV1_read [reads]:
  assumes "MarlEpisodeV1_valid x"
  shows "MarlEpisodeV1_of (normal (MarlEpisodeV1_json x)) = Some x"
proof -
  have nested: "list_all TransitionV1_valid (me_transitions x)" "pred_option DecisionBoundaryV1_valid (me_pending_boundary x)" "pred_option IncompleteMarkerV1_valid (me_incomplete_marker x)"
    using assms unfolding MarlEpisodeV1_valid_def by blast+
  have eta: "\<lparr>me_episode_id = me_episode_id x, me_workspace_id = me_workspace_id x, me_session_id = me_session_id x, me_environment_version = me_environment_version x, me_code_identity = me_code_identity x, me_status = me_status x, me_transitions = me_transitions x, me_pending_boundary = me_pending_boundary x, me_incomplete_marker = me_incomplete_marker x\<rparr> = x" by simp
  show ?thesis unfolding MarlEpisodeV1_of_def MarlEpisodeV1_json_def
    using assms nested by (simp add: reads validated_def literal_of_def eta)
qed

lemma MarlEpisodeV1_sound [sounds]:
  assumes "MarlEpisodeV1_valid x"
  shows "sound_json (MarlEpisodeV1_json x)"
proof -
  have nested: "list_all TransitionV1_valid (me_transitions x)" "pred_option DecisionBoundaryV1_valid (me_pending_boundary x)" "pred_option IncompleteMarkerV1_valid (me_incomplete_marker x)"
    using assms unfolding MarlEpisodeV1_valid_def by blast+
  have texts: "list_all scalar (me_environment_version x)" "list_all scalar (me_code_identity x)"
    using assms by (simp_all add: MarlEpisodeV1_valid_def sounds)
  show ?thesis using nested texts by (simp add: MarlEpisodeV1_json_def sounds)
qed

lemma MarlEpisodeV1_reads [reads]:
  "pred_option MarlEpisodeV1_valid y \<Longrightarrow> nullable MarlEpisodeV1_of (normal (jopt MarlEpisodeV1_json y)) = Some y"
  "list_all MarlEpisodeV1_valid ys \<Longrightarrow> list_of MarlEpisodeV1_of (normal (jlist MarlEpisodeV1_json ys)) = Some ys"
proof -
  show "nullable MarlEpisodeV1_of (normal (jopt MarlEpisodeV1_json y)) = Some y" if "pred_option MarlEpisodeV1_valid y"
    by (rule nullable_jopt) (use that MarlEpisodeV1_read in \<open>cases y; simp\<close>, simp add: MarlEpisodeV1_json_def)
  show "list_of MarlEpisodeV1_of (normal (jlist MarlEpisodeV1_json ys)) = Some ys" if "list_all MarlEpisodeV1_valid ys"
    by (rule list_of_map) (use that MarlEpisodeV1_read in \<open>auto simp: list_all_iff\<close>)
qed

lemma MarlEpisodeV1_sounds [sounds]:
  "pred_option MarlEpisodeV1_valid y \<Longrightarrow> pred_option (\<lambda>y. sound_json (MarlEpisodeV1_json y)) y"
  "list_all MarlEpisodeV1_valid ys \<Longrightarrow> list_all (\<lambda>y. sound_json (MarlEpisodeV1_json y)) ys"
  by (cases y; simp add: MarlEpisodeV1_sound) (auto simp: list_all_iff MarlEpisodeV1_sound)


end
