(* ===== verification/Marl_Bundle.thy ===== *)
theory Marl_Bundle
  imports Marl_Trajectory "HOL-Library.Product_Lexorder"
begin

text \<open>
  The bundles of \<^verbatim>\<open>application/marl.py\<close>: the registry of implementations, the reward vector of a
  decision, the export of an episode as a manifest and canonical JSON lines, and the hermetic verification of
  such bytes (limits, decoding, schemas, canonical encoding, digests, order, hashes, references, replay), with
  the verdict of \<^verbatim>\<open>domain/marl.py\<close> it ends in. A check that raises is an early end of the verification;
  an early end is a verdict that rejects (\<open>ends\<close>), and a bundle is verified exactly when it is \<open>accepted\<close>.
\<close>

subsection \<open>Verdicts\<close>

datatype MarlReplayOutcome = MARL_VERIFIED | MARL_INCOMPLETE | MARL_FAILED

datatype FailureCode =
    BUNDLE_ENTRY_SET | RESOURCE_LIMIT_EXCEEDED | INVALID_UTF8 | INVALID_JSON | UNSUPPORTED_SCHEMA_VERSION
  | SCHEMA_VIOLATION | NONCANONICAL_ENCODING | MANIFEST_MISMATCH | ORDER_VIOLATION | HASH_MISMATCH
  | REFERENCE_MISMATCH | UNKNOWN_IMPLEMENTATION | REPLAY_MISMATCH | EPISODE_INCOMPLETE

datatype VerificationStage =
    STAGE_BUNDLE | STAGE_RESOURCE | STAGE_DECODE | STAGE_PARSE | STAGE_SCHEMA | STAGE_CANONICAL | STAGE_MANIFEST
  | STAGE_ORDER | STAGE_HASH | STAGE_REFERENCE | STAGE_IMPLEMENTATION | STAGE_REPLAY | STAGE_COMPLETENESS

record ReplayFailureV1 =
  rf_code :: FailureCode
  rf_stage :: VerificationStage
  rf_file :: string
  rf_line :: "int option"
  rf_decision_index :: "int option"
  rf_json_pointer :: "string option"
  rf_detail :: string
  rf_expected_hash :: "ustr option"
  rf_actual_hash :: "ustr option"

record ReplayVerificationV1 =
  rv_outcome :: MarlReplayOutcome
  rv_integrity_valid :: bool
  rv_replay_verified :: bool
  rv_episode_id :: "uuid option"
  rv_checked_record_count :: int
  rv_expected_trajectory_hash :: "ustr option"
  rv_actual_trajectory_hash :: "ustr option"
  rv_expected_episode_hash :: "ustr option"
  rv_actual_episode_hash :: "ustr option"
  rv_first_failure :: "ReplayFailureV1 option"

definition ReplayFailureV1_valid :: "ReplayFailureV1 \<Rightarrow> bool" where
  "ReplayFailureV1_valid f = (rf_file f \<in> {''bundle'', ''manifest.json'', ''trajectory.jsonl''} \<and>
     pred_option (\<lambda>n. 1 \<le> n) (rf_line f) \<and> pred_option (\<lambda>n. 0 \<le> n) (rf_decision_index f) \<and>
     pred_option hash_text (rf_expected_hash f) \<and> pred_option hash_text (rf_actual_hash f))"

definition ReplayVerificationV1_valid :: "ReplayVerificationV1 \<Rightarrow> bool" where
  "ReplayVerificationV1_valid v = (0 \<le> rv_checked_record_count v \<and>
     pred_option hash_text (rv_expected_trajectory_hash v) \<and> pred_option hash_text (rv_actual_trajectory_hash v) \<and>
     pred_option hash_text (rv_expected_episode_hash v) \<and> pred_option hash_text (rv_actual_episode_hash v) \<and>
     pred_option ReplayFailureV1_valid (rv_first_failure v) \<and>
     \<not> (rv_outcome v = MARL_VERIFIED \<and>
        (\<not> rv_integrity_valid v \<or> \<not> rv_replay_verified v \<or> rv_first_failure v \<noteq> None)) \<and>
     \<not> (rv_outcome v \<noteq> MARL_VERIFIED \<and> rv_first_failure v = None))"

text \<open>
  \<^verbatim>\<open>_failure\<close>: the keyword arguments a call omits have the defaults of \<open>no_context\<close>.
\<close>

record failure_context =
  fc_episode_id :: "uuid option"
  fc_checked :: int
  fc_line :: "int option"
  fc_decision_index :: "int option"
  fc_expected_trajectory :: "ustr option"
  fc_actual_trajectory :: "ustr option"
  fc_expected_episode :: "ustr option"
  fc_actual_episode :: "ustr option"
  fc_integrity_valid :: bool
  fc_outcome :: MarlReplayOutcome

definition no_context :: failure_context where
  "no_context = \<lparr>fc_episode_id = None, fc_checked = 0, fc_line = None, fc_decision_index = None,
     fc_expected_trajectory = None, fc_actual_trajectory = None, fc_expected_episode = None,
     fc_actual_episode = None, fc_integrity_valid = False, fc_outcome = MARL_FAILED\<rparr>"

definition bundle_failure ::
  "FailureCode \<Rightarrow> VerificationStage \<Rightarrow> string \<Rightarrow> string \<Rightarrow> failure_context \<Rightarrow> ReplayVerificationV1" where
  "bundle_failure code stage file detail c =
     \<lparr>rv_outcome = fc_outcome c, rv_integrity_valid = fc_integrity_valid c, rv_replay_verified = False,
      rv_episode_id = fc_episode_id c, rv_checked_record_count = fc_checked c,
      rv_expected_trajectory_hash = fc_expected_trajectory c, rv_actual_trajectory_hash = fc_actual_trajectory c,
      rv_expected_episode_hash = fc_expected_episode c, rv_actual_episode_hash = fc_actual_episode c,
      rv_first_failure = Some \<lparr>rf_code = code, rf_stage = stage, rf_file = file, rf_line = fc_line c,
        rf_decision_index = fc_decision_index c, rf_json_pointer = None, rf_detail = detail,
        rf_expected_hash = (if code = HASH_MISMATCH then fc_expected_episode c else None),
        rf_actual_hash = (if code = HASH_MISMATCH then fc_actual_episode c else None)\<rparr>\<rparr>"

subsection \<open>Implementations\<close>

text \<open>
  What a function raises, by the classes that \<^verbatim>\<open>verify_bundle\<close> looks for, with the text of the exception: a
  \<^verbatim>\<open>KeyError\<close> is a \<^verbatim>\<open>LookupError\<close>, a \<^verbatim>\<open>RecursionError\<close> a \<^verbatim>\<open>RuntimeError\<close>.
\<close>

datatype raised = LookupError string | ReferenceError string | RuntimeError string | OtherError string

text \<open>A stage ends the verification with a verdict, or an exception escapes from it.\<close>

datatype early_end = Verdict ReplayVerificationV1 | Escapes raised

type_synonym impl_key = "ustr \<times> ustr"

text \<open>
  The functions a caller registers are arguments of the model, and may raise; a feature is given in the types
  its class holds, so that Python's comparison of the two is that of JSON values.
\<close>

type_synonym feature_function = "SourceSnapshotV1 \<Rightarrow> raised + json"
type_synonym reward_function = "RationalV1 option \<Rightarrow> RationalV1 option \<Rightarrow> RewardDirection \<Rightarrow> raised + RationalV1"
type_synonym coordinator_function = "DecisionBoundaryV1 \<Rightarrow> raised + CoordinatorDecisionV1"


record ImplementationRegistry =
  reg_features :: "impl_key \<rightharpoonup> feature_function"
  reg_rewards :: "impl_key \<rightharpoonup> reward_function"
  reg_coordinators :: "impl_key \<rightharpoonup> coordinator_function"
  reg_credits :: "impl_key set"

definition empty_registry :: ImplementationRegistry where
  "empty_registry = \<lparr>reg_features = Map.empty, reg_rewards = Map.empty, reg_coordinators = Map.empty, reg_credits = {}\<rparr>"

definition ref_key :: "ImplementationRefV1 \<Rightarrow> impl_key" where
  "ref_key r = (ir_implementation_id r, ir_implementation_version r)"

definition registry_insert :: "(impl_key \<rightharpoonup> 'f) \<Rightarrow> ImplementationRefV1 \<Rightarrow> 'f \<Rightarrow> (impl_key \<rightharpoonup> 'f) result" where
  "registry_insert target ref f = (if ref_key ref \<in> dom target then Inl (ValueError ''duplicate implementation'')
     else Inr (target(ref_key ref \<mapsto> f)))"

definition register_feature ::
  "ImplementationRegistry \<Rightarrow> ImplementationRefV1 \<Rightarrow> feature_function \<Rightarrow> ImplementationRegistry result" where
  "register_feature reg ref f = ebind (registry_insert (reg_features reg) ref f) (\<lambda>m. Inr (reg\<lparr>reg_features := m\<rparr>))"

definition register_reward ::
  "ImplementationRegistry \<Rightarrow> ImplementationRefV1 \<Rightarrow> reward_function \<Rightarrow>
    ImplementationRegistry result" where
  "register_reward reg ref f = ebind (registry_insert (reg_rewards reg) ref f) (\<lambda>m. Inr (reg\<lparr>reg_rewards := m\<rparr>))"

definition register_coordinator ::
  "ImplementationRegistry \<Rightarrow> ImplementationRefV1 \<Rightarrow> coordinator_function \<Rightarrow>
    ImplementationRegistry result" where
  "register_coordinator reg ref f = ebind (registry_insert (reg_coordinators reg) ref f) (\<lambda>m. Inr (reg\<lparr>reg_coordinators := m\<rparr>))"

definition register_credit :: "ImplementationRegistry \<Rightarrow> ImplementationRefV1 \<Rightarrow> ImplementationRegistry result" where
  "register_credit reg ref = (if ref_key ref \<in> reg_credits reg then Inl (ValueError ''duplicate credit implementation'')
     else Inr (reg\<lparr>reg_credits := insert (ref_key ref) (reg_credits reg)\<rparr>))"

subsection \<open>Rewards\<close>

definition exact_delta :: "RationalV1 option \<Rightarrow> RationalV1 option \<Rightarrow> RewardDirection \<Rightarrow> RationalV1 result" where
  "exact_delta pre post direction = (case (pre, post) of
     (Some p, Some q) \<Rightarrow>
       (let difference = fraction q - fraction p
        in Inr (rational_from (if direction = LOWER_BETTER then - difference else difference)))
   | _ \<Rightarrow> Inl (TypeError ''reward implementation requires exact rationals''))"

record RewardInputV1 =
  ri_pre_value :: "RationalV1 option"
  ri_post_value :: "RationalV1 option"
  ri_status :: RewardStatus
  ri_neutral_reason :: "ustr option"
  ri_source_hashes :: "ustr list"

definition REWARD_SPECS :: "(ustr \<times> ustr \<times> ustr \<times> RewardDirection) list" where
  "REWARD_SPECS = [
     (ustr ''ep-02'', ustr ''1'', ustr ''agora.reward.provenance-delta'', HIGHER_BETTER),
     (ustr ''dh-03'', ustr ''1'', ustr ''agora.reward.attack-coverage-delta'', HIGHER_BETTER),
     (ustr ''dh-02'', ustr ''1'', ustr ''agora.reward.disagreement-retention-delta'', NO_DIRECTION),
     (ustr ''cq-03'', ustr ''1'', ustr ''agora.reward.flip-distance-delta'', HIGHER_BETTER),
     (ustr ''ce-03'', ustr ''1'', ustr ''agora.reward.cost-delta'', LOWER_BETTER)]"

definition reward_component ::
  "uuid \<Rightarrow> int \<Rightarrow> nat \<Rightarrow> uuid \<Rightarrow> RewardInputV1 \<Rightarrow> ustr \<times> ustr \<times> ustr \<times> RewardDirection \<Rightarrow> RewardComponentV1 result" where
  "reward_component ep index ordinal ident inp spec = (case spec of (metric, version, implementation, direction) \<Rightarrow>
     ebind (if ri_status inp = OBSERVED then exact_delta (ri_pre_value inp) (ri_post_value inp) direction else Inr rational_zero)
       (\<lambda>v. case RewardComponentV1_create \<lparr>rc_component_id = ident, rc_episode_id = ep, rc_decision_index = index,
              rc_ordinal = int ordinal, rc_metric_id = metric, rc_metric_version = version,
              rc_reward_implementation = \<lparr>ir_implementation_id = implementation, ir_implementation_version = ustr ''1''\<rparr>,
              rc_direction = direction, rc_pre_metric_value = ri_pre_value inp, rc_post_metric_value = ri_post_value inp,
              rc_reward_value = v, rc_status = ri_status inp, rc_neutral_reason = ri_neutral_reason inp,
              rc_source_hashes = ri_source_hashes inp, rc_component_hash = zero_hash\<rparr> of
           None \<Rightarrow> Inl (ValueError ''RewardComponentV1'') | Some c \<Rightarrow> Inr c))"

definition build_reward_vector ::
  "uuid \<Rightarrow> int \<Rightarrow> uuid list \<Rightarrow> RewardInputV1 list \<Rightarrow> RewardComponentV1 list result" where
  "build_reward_vector ep index ids inputs =
     (if length ids \<noteq> 5 \<or> length inputs \<noteq> 5 then Inl (ValueError ''zip'')
      else emap (\<lambda>(k, ident, inp, spec). reward_component ep index k ident inp spec)
             (zip [0..<5] (zip ids (zip inputs REWARD_SPECS))))"

subsection \<open>Export\<close>

text \<open>\<^verbatim>\<open>_unique_refs\<close>: the references by key, in the order of the keys.\<close>

definition unique_refs :: "ImplementationRefV1 list \<Rightarrow> ImplementationRefV1 list" where
  "unique_refs refs = map (\<lambda>(i, v). \<lparr>ir_implementation_id = i, ir_implementation_version = v\<rparr>)
     (sort (remdups (map ref_key refs)))"

definition observation_refs :: "MarlEpisodeV1 \<Rightarrow> ImplementationRefV1 list" where
  "observation_refs e = concat (map (\<lambda>t. [mo_observation_implementation (db_observation (tr_boundary t)),
     mo_observation_implementation (tr_post_observation t)]) (me_transitions e))"

definition reward_refs :: "MarlEpisodeV1 \<Rightarrow> ImplementationRefV1 list" where
  "reward_refs e = concat (map (\<lambda>t. map rc_reward_implementation (tr_rewards t)) (me_transitions e))"

definition credit_refs :: "MarlEpisodeV1 \<Rightarrow> ImplementationRefV1 list" where
  "credit_refs e = concat (map (\<lambda>t. map ca_credit_implementation (tr_credits t)) (me_transitions e))"

definition coordinator_refs :: "MarlEpisodeV1 \<Rightarrow> ImplementationRefV1 list" where
  "coordinator_refs e = map (\<lambda>t. cd_coordinator_implementation (db_coordinator_decision (tr_boundary t))) (me_transitions e)"

datatype trajectory_record = RTransition TransitionV1 | RBoundary DecisionBoundaryV1 | RMarker IncompleteMarkerV1

fun record_json :: "trajectory_record \<Rightarrow> json" where
  "record_json (RTransition t) = TransitionV1_json t"
| "record_json (RBoundary b) = DecisionBoundaryV1_json b"
| "record_json (RMarker m) = IncompleteMarkerV1_json m"

definition option_list :: "'a option \<Rightarrow> 'a list" where
  "option_list x = (case x of None \<Rightarrow> [] | Some y \<Rightarrow> [y])"

definition episode_records :: "MarlEpisodeV1 \<Rightarrow> trajectory_record list" where
  "episode_records e = map RTransition (me_transitions e) @ map RBoundary (option_list (me_pending_boundary e)) @
     map RMarker (option_list (me_incomplete_marker e))"

definition json_line :: "json \<Rightarrow> nat list" where
  "json_line j = canonical_bytes j @ [10]"

definition sha_of_bytes :: "nat list \<Rightarrow> ustr" where
  "sha_of_bytes bs = ustr (sha256_text bs)"

record CanonicalTrajectoryBundle =
  tb_manifest :: "nat list"
  tb_trajectory :: "nat list"

definition trajectory_of :: "MarlEpisodeV1 \<Rightarrow> nat list" where
  "trajectory_of e = concat (map (\<lambda>r. json_line (record_json r)) (episode_records e))"

definition manifest_of :: "MarlEpisodeV1 \<Rightarrow> TrajectoryManifestV1" where
  "manifest_of e =
     \<lparr>tm_episode_id = me_episode_id e, tm_episode_status = me_status e,
      tm_environment_version = me_environment_version e, tm_code_identity = me_code_identity e,
      tm_observation_implementations = unique_refs (observation_refs e),
      tm_reward_implementations = unique_refs (reward_refs e),
      tm_credit_implementations = unique_refs (credit_refs e),
      tm_coordinator_implementations = unique_refs (coordinator_refs e),
      tm_trajectory_sha256 = sha_of_bytes (trajectory_of e),
      tm_trajectory_byte_length = int (length (trajectory_of e)),
      tm_record_count = int (length (episode_records e)),
      tm_episode_hash = episode_hash e\<rparr>"

definition export_episode :: "MarlEpisodeV1 \<Rightarrow> CanonicalTrajectoryBundle result" where
  "export_episode e =
     (if me_status e = OPEN then Inl (ValueError ''OPEN episode cannot be exported'')
      else (case validated TrajectoryManifestV1_valid (manifest_of e) of
          None \<Rightarrow> Inl (ValueError ''TrajectoryManifestV1'')
        | Some m \<Rightarrow> Inr \<lparr>tb_manifest = json_line (TrajectoryManifestV1_json m), tb_trajectory = trajectory_of e\<rparr>))"

subsection \<open>Parsing\<close>

record BundleLimits =
  bl_max_manifest_bytes :: nat
  bl_max_trajectory_bytes :: nat
  bl_max_records :: nat
  bl_max_json_depth :: nat
  bl_max_string_length :: nat
  bl_max_array_items :: nat

definition default_limits :: BundleLimits where
  "default_limits = \<lparr>bl_max_manifest_bytes = 256 * 1024, bl_max_trajectory_bytes = 64 * 1024 * 1024,
     bl_max_records = 100000, bl_max_json_depth = 64, bl_max_string_length = 1048576, bl_max_array_items = 100000\<rparr>"

text \<open>\<^verbatim>\<open>_depth_and_size\<close>: the first limit exceeded, in the order of the walk. The key of a member is a string.\<close>

fun depth_and_size :: "BundleLimits \<Rightarrow> nat \<Rightarrow> lval \<Rightarrow> string option"
  and depth_items :: "BundleLimits \<Rightarrow> nat \<Rightarrow> lval list \<Rightarrow> string option"
  and depth_members :: "BundleLimits \<Rightarrow> nat \<Rightarrow> (ustr \<times> lval) list \<Rightarrow> string option" where
  "depth_and_size l depth v =
     (if bl_max_json_depth l < depth then Some ''JSON nesting exceeds limit''
      else (case v of
          LStr s \<Rightarrow> if bl_max_string_length l < length s then Some ''JSON string exceeds limit'' else None
        | LList xs \<Rightarrow> if bl_max_array_items l < length xs then Some ''JSON array exceeds limit''
            else depth_items l (depth + 1) xs
        | LDict ms \<Rightarrow> if bl_max_array_items l < length ms then Some ''JSON object exceeds limit''
            else depth_members l (depth + 1) ms
        | _ \<Rightarrow> None))"
| "depth_items l depth [] = None"
| "depth_items l depth (v # vs) = (case depth_and_size l depth v of Some e \<Rightarrow> Some e | None \<Rightarrow> depth_items l depth vs)"
| "depth_members l depth [] = None"
| "depth_members l depth ((k, v) # ms) =
     (if bl_max_json_depth l < depth then Some ''JSON nesting exceeds limit''
      else if bl_max_string_length l < length k then Some ''JSON string exceeds limit''
      else (case depth_and_size l depth v of Some e \<Rightarrow> Some e | None \<Rightarrow> depth_members l depth ms))"

text \<open>
  \<^verbatim>\<open>_parse_file\<close>: its handlers do not catch the \<^verbatim>\<open>RecursionError\<close> of \<^verbatim>\<open>json.loads\<close>. Nesting has been
  compared with \<open>bl_max_json_depth\<close> when the other functions walk a value, which the interpreter is taken to allow.
\<close>

definition recursion_error :: raised where
  "recursion_error = RuntimeError ''maximum recursion depth exceeded''"

definition parse_file :: "interpreter \<Rightarrow> nat list \<Rightarrow> string \<Rightarrow> BundleLimits \<Rightarrow> early_end + lval" where
  "parse_file d data file l = (case utf8_decode data of
     None \<Rightarrow> Inl (Verdict (bundle_failure INVALID_UTF8 STAGE_DECODE file ''invalid UTF-8'' no_context))
   | Some t \<Rightarrow>
       (let has_bom = starts 0xFEFF t in
        case json_loads d (if has_bom then tl t else t) of
          Inl TooDeep \<Rightarrow> Inl (Escapes recursion_error)
        | Inl BadJson \<Rightarrow> Inl (Verdict (bundle_failure INVALID_JSON STAGE_PARSE file ''invalid JSON'' no_context))
        | Inr v \<Rightarrow> (case depth_and_size l 0 v of
            Some e \<Rightarrow> Inl (Verdict (bundle_failure RESOURCE_LIMIT_EXCEEDED STAGE_RESOURCE file e no_context))
          | None \<Rightarrow> if has_bom then Inl (Verdict (bundle_failure NONCANONICAL_ENCODING STAGE_CANONICAL file ''UTF-8 BOM is forbidden'' no_context))
              else Inr v)))"

fun with_line :: "nat \<Rightarrow> early_end \<Rightarrow> early_end" where
  "with_line n (Verdict v) =
     Verdict (v\<lparr>rv_first_failure := map_option (\<lambda>f. f\<lparr>rf_line := Some (int n)\<rparr>) (rv_first_failure v)\<rparr>)"
| "with_line n (Escapes e) = Escapes e"

fun parse_lines :: "interpreter \<Rightarrow> nat \<Rightarrow> nat list list \<Rightarrow> BundleLimits \<Rightarrow> early_end + lval list" where
  "parse_lines d n [] l = Inr []"
| "parse_lines d n (x # xs) l = (case parse_file d x ''trajectory.jsonl'' l of
     Inl v \<Rightarrow> Inl (with_line n v)
   | Inr v \<Rightarrow> ebind (parse_lines d (Suc n) xs l) (\<lambda>vs. Inr (v # vs)))"

text \<open>\<^verbatim>\<open>_schema_version(value)\<close>: no object or no member gives none. A version equals 1 as Python compares numbers.\<close>

fun dict_get :: "lval \<Rightarrow> string \<Rightarrow> lval option" where
  "dict_get (LDict ms) name = (case map_of ms (ustr name) of None \<Rightarrow> None | Some LNone \<Rightarrow> None | Some v \<Rightarrow> Some v)"
| "dict_get _ name = None"

fun is_dict :: "lval \<Rightarrow> bool" where
  "is_dict (LDict ms) = True"
| "is_dict _ = False"

fun equals_one :: "lval \<Rightarrow> bool" where
  "equals_one (LInt i) = (i = 1)"
| "equals_one (LBool b) = b"
| "equals_one (LFloat q) = (1 - 1 / 2 ^ 54 \<le> q \<and> q \<le> 1 + 1 / 2 ^ 53)"
| "equals_one _ = False"

definition version_error :: "string \<Rightarrow> int option \<Rightarrow> ReplayVerificationV1" where
  "version_error file lno = bundle_failure UNSUPPORTED_SCHEMA_VERSION STAGE_SCHEMA file ''unsupported schema version''
     (no_context\<lparr>fc_line := lno\<rparr>)"

fun check_versions :: "(string \<times> int option \<times> lval option) list \<Rightarrow> early_end + unit" where
  "check_versions [] = Inr ()"
| "check_versions ((file, lno, v) # vs) = (case v of
     Some x \<Rightarrow> if equals_one x then check_versions vs else Inl (Verdict (version_error file lno))
   | None \<Rightarrow> check_versions vs)"

definition schema_error :: "ReplayVerificationV1" where
  "schema_error = bundle_failure SCHEMA_VIOLATION STAGE_SCHEMA ''manifest.json'' ''closed schema validation failed'' no_context"

text \<open>\<^verbatim>\<open>X.model_validate_json(canonical_json(raw))\<close>: the canonical text is read as the normal form.\<close>

definition read_model :: "(json \<Rightarrow> 'a option) \<Rightarrow> lval \<Rightarrow> early_end + 'a" where
  "read_model f v = (case json_value (py_of v) of
     Inl e \<Rightarrow> Inl (Verdict schema_error)
   | Inr j \<Rightarrow> (case f (normal j) of None \<Rightarrow> Inl (Verdict schema_error) | Some x \<Rightarrow> Inr x))"

definition read_record :: "lval \<Rightarrow> early_end + trajectory_record" where
  "read_record v =
     (if \<not> is_dict v then Inl (Verdict (bundle_failure SCHEMA_VIOLATION STAGE_SCHEMA ''trajectory.jsonl'' ''record must be an object'' no_context))
      else if dict_get v ''record_type'' = Some (LStr (ustr ''incomplete''))
      then ebind (read_model IncompleteMarkerV1_of v) (\<lambda>m. Inr (RMarker m))
      else if dict_get v ''record_type'' = Some (LStr (ustr ''decision_boundary''))
      then ebind (read_model DecisionBoundaryV1_of v) (\<lambda>b. Inr (RBoundary b))
      else ebind (read_model TransitionV1_of v) (\<lambda>t. Inr (RTransition t)))"

definition raw_line :: "lval \<Rightarrow> nat list" where
  "raw_line v = (case json_value (py_of v) of Inl e \<Rightarrow> [] | Inr j \<Rightarrow> json_line j)"

subsection \<open>Hashes and replay\<close>

text \<open>A series of checks that raise: the message of the first that fails.\<close>

definition first_error :: "(bool \<times> string) list \<Rightarrow> string option" where
  "first_error checks = map_option snd (find (\<lambda>c. \<not> fst c) checks)"

definition hash_check :: "string \<Rightarrow> json \<Rightarrow> ustr \<Rightarrow> bool \<times> string" where
  "hash_check name j h = (h = own_hash name j, name @ '' does not match canonical preimage'')"

definition source_checks :: "MarlObservationV1 \<Rightarrow> (bool \<times> string) list" where
  "source_checks ob = concat (map (\<lambda>s.
     [hash_check ''snapshot_hash'' (SourceSnapshotV1_json (os_snapshot s)) (ss_snapshot_hash (os_snapshot s)),
      hash_check ''source_hash'' (ObservationSourceV1_json s) (os_source_hash s)]) (mo_sources ob))"

definition feature_checks :: "MarlObservationV1 \<Rightarrow> (bool \<times> string) list" where
  "feature_checks ob = map (\<lambda>f. hash_check ''feature_hash'' (ObservationFeatureV1_json f) (of_feature_hash f)) (mo_features ob)"

definition observation_check :: "MarlObservationV1 \<Rightarrow> bool \<times> string" where
  "observation_check ob = hash_check ''observation_hash'' (MarlObservationV1_json ob) (mo_observation_hash ob)"

definition observation_checks :: "MarlObservationV1 \<Rightarrow> (bool \<times> string) list" where
  "observation_checks ob = feature_checks ob @
     [(mo_sources_hash ob = canonical_hash (jlist ObservationSourceV1_json (mo_sources ob)), ''sources hash mismatch''),
      (mo_features_hash ob = canonical_hash (jlist ObservationFeatureV1_json (mo_features ob)), ''features hash mismatch''),
      observation_check ob]"

definition decision_checks :: "DecisionBoundaryV1 \<Rightarrow> (bool \<times> string) list" where
  "decision_checks b =
     (case db_proposed_action b of None \<Rightarrow> []
      | Some p \<Rightarrow> [hash_check ''action_hash'' (ProposedActionV1_json p) (pa_action_hash p)]) @
     (case db_executed_action b of None \<Rightarrow> []
      | Some a \<Rightarrow> [hash_check ''executed_action_hash'' (ExecutedActionV1_json a) (xa_executed_action_hash a)]) @
     [hash_check ''decision_hash'' (CoordinatorDecisionV1_json (db_coordinator_decision b)) (cd_decision_hash (db_coordinator_decision b)),
      hash_check ''boundary_hash'' (DecisionBoundaryV1_json b) (db_boundary_hash b)]"

definition child_checks :: "TransitionV1 \<Rightarrow> (bool \<times> string) list" where
  "child_checks t = source_checks (db_observation (tr_boundary t)) @ source_checks (tr_post_observation t) @
     observation_checks (db_observation (tr_boundary t)) @ observation_checks (tr_post_observation t) @
     decision_checks (tr_boundary t) @
     map (\<lambda>r. hash_check ''component_hash'' (RewardComponentV1_json r) (rc_component_hash r)) (tr_rewards t) @
     map (\<lambda>k. hash_check ''credit_hash'' (CreditAssignmentV1_json k) (ca_credit_hash k)) (tr_credits t) @
     [hash_check ''transition_hash'' (TransitionV1_json t) (tr_transition_hash t)]"

definition boundary_checks :: "DecisionBoundaryV1 \<Rightarrow> (bool \<times> string) list" where
  "boundary_checks b = source_checks (db_observation b) @ feature_checks (db_observation b) @
     [observation_check (db_observation b)] @ decision_checks b"

definition incomplete_checks :: "DecisionBoundaryV1 \<Rightarrow> IncompleteMarkerV1 option \<Rightarrow> (bool \<times> string) list" where
  "incomplete_checks b marker = boundary_checks b @
     (case marker of None \<Rightarrow> [(False, ''incomplete marker boundary reference mismatch'')]
      | Some m \<Rightarrow> [(im_boundary_hash m = Some (db_boundary_hash b), ''incomplete marker boundary reference mismatch''),
          hash_check ''incomplete_hash'' (IncompleteMarkerV1_json m) (im_incomplete_hash m)])"

text \<open>
  \<^verbatim>\<open>_replay_transition\<close>: what it raises, if anything. It raises \<^verbatim>\<open>LookupError\<close> for an unknown
  implementation, \<^verbatim>\<open>ReferenceError\<close> or \<^verbatim>\<open>RuntimeError\<close> for a mismatch; what a registered function
  raises passes through it.
\<close>

definition snapshots_of :: "MarlObservationV1 \<Rightarrow> ustr \<rightharpoonup> SourceSnapshotV1" where
  "snapshots_of ob = dict_of os_source_hash os_snapshot (mo_sources ob)"

definition replay_feature :: "ImplementationRegistry \<Rightarrow> MarlObservationV1 \<Rightarrow> ObservationFeatureV1 \<Rightarrow> raised option" where
  "replay_feature reg ob f = (case reg_features reg (of_feature_id f, of_feature_version f) of
     None \<Rightarrow> Some (LookupError ''unknown observation implementation'')
   | Some g \<Rightarrow>
       (if length (of_source_hashes f) \<noteq> 1 \<or> snapshots_of ob (hd (of_source_hashes f)) = None
        then Some (ReferenceError ''feature source reference mismatch'')
        else (case g (the (snapshots_of ob (hd (of_source_hashes f)))) of
            Inl e \<Rightarrow> Some e
          | Inr v \<Rightarrow> if \<not> py_eq v (of_value f) then Some (RuntimeError ''observation feature replay mismatch'') else None)))"

definition replay_decision :: "ImplementationRegistry \<Rightarrow> DecisionBoundaryV1 \<Rightarrow> raised option" where
  "replay_decision reg b = (case reg_coordinators reg (ref_key (cd_coordinator_implementation (db_coordinator_decision b))) of
     None \<Rightarrow> Some (LookupError ''unknown coordinator implementation'')
   | Some g \<Rightarrow> (case g b of
         Inl e \<Rightarrow> Some e
       | Inr v \<Rightarrow> if v \<noteq> db_coordinator_decision b then Some (RuntimeError ''coordinator replay mismatch'') else None))"

definition replay_reward :: "ImplementationRegistry \<Rightarrow> RewardComponentV1 \<Rightarrow> raised option" where
  "replay_reward reg r = (case reg_rewards reg (ref_key (rc_reward_implementation r)) of
     None \<Rightarrow> Some (LookupError ''unknown reward implementation'')
   | Some g \<Rightarrow>
       (if rc_status r = OBSERVED
        then (case g (rc_pre_metric_value r) (rc_post_metric_value r) (rc_direction r) of
            Inl e \<Rightarrow> Some e
          | Inr v \<Rightarrow> if v \<noteq> rc_reward_value r then Some (RuntimeError ''reward replay mismatch'') else None)
        else None))"

definition replay_credit :: "ImplementationRegistry \<Rightarrow> CreditAssignmentV1 \<Rightarrow> raised option" where
  "replay_credit reg k = (if ref_key (ca_credit_implementation k) \<in> reg_credits reg then None
     else Some (LookupError ''unknown credit implementation''))"

fun first_some :: "'a option list \<Rightarrow> 'a option" where
  "first_some [] = None"
| "first_some (Some x # xs) = Some x"
| "first_some (None # xs) = first_some xs"

definition replay_transition :: "ImplementationRegistry \<Rightarrow> TransitionV1 \<Rightarrow> raised option" where
  "replay_transition reg t = first_some
     (concat (map (\<lambda>ob. map (replay_feature reg ob) (mo_features ob)) [db_observation (tr_boundary t), tr_post_observation t]) @
      [replay_decision reg (tr_boundary t)] @ map (replay_reward reg) (tr_rewards t) @ map (replay_credit reg) (tr_credits t))"

subsection \<open>Verification\<close>

fun transitions_in :: "trajectory_record list \<Rightarrow> TransitionV1 list" where
  "transitions_in [] = []"
| "transitions_in (RTransition t # rs) = t # transitions_in rs"
| "transitions_in (_ # rs) = transitions_in rs"

fun boundaries_in :: "trajectory_record list \<Rightarrow> DecisionBoundaryV1 list" where
  "boundaries_in [] = []"
| "boundaries_in (RBoundary b # rs) = b # boundaries_in rs"
| "boundaries_in (_ # rs) = boundaries_in rs"

fun markers_in :: "trajectory_record list \<Rightarrow> IncompleteMarkerV1 list" where
  "markers_in [] = []"
| "markers_in (RMarker m # rs) = m # markers_in rs"
| "markers_in (_ # rs) = markers_in rs"

definition order_violated :: "trajectory_record list \<Rightarrow> bool" where
  "order_violated rs = (let ts = transitions_in rs; bs = boundaries_in rs; ms = markers_in rs in
     map tr_decision_index ts \<noteq> map int [0..<length ts] \<or> 1 < length bs \<or> 1 < length ms \<or>
     (bs \<noteq> [] \<and> db_decision_index (hd bs) \<noteq> int (length ts)) \<or>
     (bs \<noteq> [] \<and> (ms = [] \<or> drop (length rs - 2) rs \<noteq> [RBoundary (hd bs), RMarker (hd ms)])) \<or>
     (ms \<noteq> [] \<and> last rs \<noteq> RMarker (hd ms)))"

fun record_episode :: "trajectory_record \<Rightarrow> uuid" where
  "record_episode (RTransition t) = tr_episode_id t"
| "record_episode (RBoundary b) = db_episode_id b"
| "record_episode (RMarker m) = im_episode_id m"

definition option_hd :: "'a list \<Rightarrow> 'a option" where
  "option_hd xs = (if xs = [] then None else Some (hd xs))"

definition bundle_episode :: "TrajectoryManifestV1 \<Rightarrow> trajectory_record list \<Rightarrow> MarlEpisodeV1 option" where
  "bundle_episode m rs = (if transitions_in rs = [] then None
     else validated MarlEpisodeV1_valid
       \<lparr>me_episode_id = tm_episode_id m,
        me_workspace_id = mo_workspace_id (db_observation (tr_boundary (hd (transitions_in rs)))),
        me_session_id = mo_session_id (db_observation (tr_boundary (hd (transitions_in rs)))),
        me_environment_version = tm_environment_version m, me_code_identity = tm_code_identity m,
        me_status = tm_episode_status m, me_transitions = transitions_in rs,
        me_pending_boundary = option_hd (boundaries_in rs), me_incomplete_marker = option_hd (markers_in rs)\<rparr>)"

fun check_hashes :: "failure_context \<Rightarrow> int \<Rightarrow> TransitionV1 list \<Rightarrow> early_end + unit" where
  "check_hashes c i [] = Inr ()"
| "check_hashes c i (t # ts) = (case first_error (child_checks t) of
     Some e \<Rightarrow> Inl (Verdict (bundle_failure HASH_MISMATCH STAGE_HASH ''trajectory.jsonl'' e
       (c\<lparr>fc_checked := i, fc_line := Some (i + 1), fc_decision_index := Some (tr_decision_index t)\<rparr>)))
   | None \<Rightarrow> check_hashes c (i + 1) ts)"

text \<open>The handlers of the replay: an exception of any other class escapes.\<close>

fun caught :: "raised \<Rightarrow> (FailureCode \<times> VerificationStage \<times> string) option" where
  "caught (LookupError e) = Some (UNKNOWN_IMPLEMENTATION, STAGE_IMPLEMENTATION, e)"
| "caught (ReferenceError e) = Some (REPLAY_MISMATCH, STAGE_REPLAY, e)"
| "caught (RuntimeError e) = Some (REPLAY_MISMATCH, STAGE_REPLAY, e)"
| "caught (OtherError e) = None"

definition replay_end :: "failure_context \<Rightarrow> int \<Rightarrow> TransitionV1 \<Rightarrow> raised \<Rightarrow> early_end" where
  "replay_end c i t x = (case caught x of
     None \<Rightarrow> Escapes x
   | Some (code, stage, e) \<Rightarrow> Verdict (bundle_failure code stage ''trajectory.jsonl'' e
       (c\<lparr>fc_checked := i, fc_line := Some (i + 1), fc_decision_index := Some (tr_decision_index t), fc_integrity_valid := True\<rparr>)))"

fun check_replay :: "ImplementationRegistry \<Rightarrow> failure_context \<Rightarrow> int \<Rightarrow> TransitionV1 list \<Rightarrow> early_end + unit" where
  "check_replay reg c i [] = Inr ()"
| "check_replay reg c i (t # ts) = (case replay_transition reg t of
     Some x \<Rightarrow> Inl (replay_end c i t x)
   | None \<Rightarrow> check_replay reg c (i + 1) ts)"

text \<open>The stages up to the records, then the stages over them.\<close>

definition read_bundle ::
  "interpreter \<Rightarrow> nat list \<Rightarrow> nat list \<Rightarrow> string list \<Rightarrow> BundleLimits \<Rightarrow> early_end + (TrajectoryManifestV1 \<times> trajectory_record list)" where
  "read_bundle d manifest_bytes trajectory_bytes names l =
     (if mset names \<noteq> mset [''manifest.json'', ''trajectory.jsonl'']
      then Inl (Verdict (bundle_failure BUNDLE_ENTRY_SET STAGE_BUNDLE ''bundle'' ''bundle must contain exactly manifest.json and trajectory.jsonl'' no_context))
      else if bl_max_manifest_bytes l < length manifest_bytes \<or> bl_max_trajectory_bytes l < length trajectory_bytes
      then Inl (Verdict (bundle_failure RESOURCE_LIMIT_EXCEEDED STAGE_RESOURCE
        (if bl_max_manifest_bytes l < length manifest_bytes then ''manifest.json'' else ''trajectory.jsonl'')
        ''file exceeds configured byte limit'' no_context))
      else ebind (parse_file d manifest_bytes ''manifest.json'' l) (\<lambda>manifest_value.
      if bl_max_records l < length (split_lines trajectory_bytes)
      then Inl (Verdict (bundle_failure RESOURCE_LIMIT_EXCEEDED STAGE_RESOURCE ''trajectory.jsonl'' ''record count exceeds configured limit'' no_context))
      else ebind (parse_lines d 1 (split_lines trajectory_bytes) l) (\<lambda>raws.
      ebind (check_versions ((''manifest.json'', None, dict_get manifest_value ''schema_version'') #
          map (\<lambda>(i, v). (''trajectory.jsonl'', Some (int i), dict_get v ''schema_version'')) (zip [1..<length raws + 1] raws))) (\<lambda>_.
      if dict_get manifest_value ''schema_version'' = None then Inl (Verdict (version_error ''manifest.json'' None))
      else ebind (read_model TrajectoryManifestV1_of manifest_value) (\<lambda>manifest.
      ebind (emap read_record raws) (\<lambda>records.
      if manifest_bytes \<noteq> json_line (TrajectoryManifestV1_json manifest)
      then Inl (Verdict (bundle_failure NONCANONICAL_ENCODING STAGE_CANONICAL ''manifest.json'' ''manifest is not one JCS object with final LF''
        (no_context\<lparr>fc_episode_id := Some (tm_episode_id manifest)\<rparr>)))
      else if list_ex (\<lambda>x. last x \<noteq> 10) (split_lines trajectory_bytes) \<or> trajectory_bytes \<noteq> concat (map raw_line raws)
      then Inl (Verdict (bundle_failure NONCANONICAL_ENCODING STAGE_CANONICAL ''trajectory.jsonl'' ''trajectory records must be JCS with LF''
        (no_context\<lparr>fc_episode_id := Some (tm_episode_id manifest)\<rparr>)))
      else Inr (manifest, records)))))))"

text \<open>What a verdict says of the manifest and of the bytes it was compared with.\<close>

definition bundle_context :: "TrajectoryManifestV1 \<Rightarrow> failure_context" where
  "bundle_context m = no_context\<lparr>fc_episode_id := Some (tm_episode_id m)\<rparr>"

definition digest_context :: "TrajectoryManifestV1 \<Rightarrow> nat list \<Rightarrow> failure_context" where
  "digest_context m bytes = (bundle_context m)\<lparr>fc_expected_trajectory := Some (tm_trajectory_sha256 m),
     fc_actual_trajectory := Some (sha_of_bytes bytes)\<rparr>"

definition episode_context :: "TrajectoryManifestV1 \<Rightarrow> nat list \<Rightarrow> MarlEpisodeV1 \<Rightarrow> failure_context" where
  "episode_context m bytes e = (digest_context m bytes)\<lparr>fc_expected_episode := Some (tm_episode_hash m),
     fc_actual_episode := Some (episode_hash e)\<rparr>"

definition verified :: "TrajectoryManifestV1 \<Rightarrow> nat list \<Rightarrow> trajectory_record list \<Rightarrow> MarlEpisodeV1 \<Rightarrow> ReplayVerificationV1" where
  "verified m bytes rs e = \<lparr>rv_outcome = MARL_VERIFIED, rv_integrity_valid = True, rv_replay_verified = True,
     rv_episode_id = Some (tm_episode_id m), rv_checked_record_count = int (length rs),
     rv_expected_trajectory_hash = Some (tm_trajectory_sha256 m), rv_actual_trajectory_hash = Some (sha_of_bytes bytes),
     rv_expected_episode_hash = Some (tm_episode_hash m), rv_actual_episode_hash = Some (episode_hash e),
     rv_first_failure = None\<rparr>"

text \<open>The hashes of a pending boundary and of its marker.\<close>

definition check_pending :: "TrajectoryManifestV1 \<Rightarrow> nat list \<Rightarrow> trajectory_record list \<Rightarrow> early_end + unit" where
  "check_pending m bytes rs = (case option_hd (boundaries_in rs) of None \<Rightarrow> Inr ()
   | Some b \<Rightarrow> (case first_error (incomplete_checks b (option_hd (markers_in rs))) of None \<Rightarrow> Inr ()
     | Some e \<Rightarrow> Inl (Verdict (bundle_failure HASH_MISMATCH STAGE_HASH ''trajectory.jsonl'' e
         ((digest_context m bytes)\<lparr>fc_checked := int (length (transitions_in rs)),
            fc_line := Some (int (length (transitions_in rs)) + 1), fc_decision_index := Some (db_decision_index b)\<rparr>)))))"

definition wrong_environment :: "TrajectoryManifestV1 \<Rightarrow> TransitionV1 \<Rightarrow> bool" where
  "wrong_environment m t = (mo_environment_version (db_observation (tr_boundary t)) \<noteq> tm_environment_version m \<or>
     mo_environment_version (tr_post_observation t) \<noteq> tm_environment_version m)"

definition check_bundle ::
  "ImplementationRegistry \<Rightarrow> nat list \<Rightarrow> TrajectoryManifestV1 \<Rightarrow> trajectory_record list \<Rightarrow> early_end + ReplayVerificationV1" where
  "check_bundle reg bytes m rs =
     (if tm_trajectory_sha256 m \<noteq> sha_of_bytes bytes \<or> tm_trajectory_byte_length m \<noteq> int (length bytes) \<or>
         tm_record_count m \<noteq> int (length rs)
      then Inl (Verdict (bundle_failure MANIFEST_MISMATCH STAGE_MANIFEST ''manifest.json'' ''trajectory digest, length, or count differs''
        (digest_context m bytes)))
      else if order_violated rs
      then Inl (Verdict (bundle_failure ORDER_VIOLATION STAGE_ORDER ''trajectory.jsonl''
        ''decision indices must be gapless and incomplete marker last'' (bundle_context m)))
      else ebind (check_hashes (digest_context m bytes) 0 (transitions_in rs)) (\<lambda>_.
      ebind (check_pending m bytes rs) (\<lambda>_.
      if list_ex (\<lambda>r. record_episode r \<noteq> tm_episode_id m) rs
      then Inl (Verdict (bundle_failure REFERENCE_MISMATCH STAGE_REFERENCE ''trajectory.jsonl'' ''record episode id differs from manifest''
        (bundle_context m)))
      else if list_ex (wrong_environment m) (transitions_in rs)
      then Inl (Verdict (bundle_failure REFERENCE_MISMATCH STAGE_REFERENCE ''trajectory.jsonl''
        ''record environment version differs from manifest'' (bundle_context m)))
      else (case bundle_episode m rs of
          None \<Rightarrow> Inl (Verdict (bundle_failure REFERENCE_MISMATCH STAGE_REFERENCE ''trajectory.jsonl''
            ''episode references or lifecycle are inconsistent'' (bundle_context m)))
        | Some e \<Rightarrow>
            if episode_hash e \<noteq> tm_episode_hash m
            then Inl (Verdict (bundle_failure HASH_MISMATCH STAGE_HASH ''manifest.json'' ''episode hash differs''
              ((episode_context m bytes e)\<lparr>fc_checked := int (length (transitions_in rs))\<rparr>)))
            else ebind (check_replay reg (episode_context m bytes e) 0 (transitions_in rs)) (\<lambda>_.
            if me_status e = INCOMPLETE
            then Inl (Verdict (bundle_failure EPISODE_INCOMPLETE STAGE_COMPLETENESS ''trajectory.jsonl''
              ''trajectory is authentic but episode is incomplete''
              ((episode_context m bytes e)\<lparr>fc_checked := int (length rs), fc_line := Some (int (length rs)),
                 fc_integrity_valid := True, fc_outcome := MARL_INCOMPLETE\<rparr>)))
            else Inr (verified m bytes rs e))))))"

text \<open>The verdict, or the exception that escapes from the verification.\<close>

definition verify_bundle ::
  "interpreter \<Rightarrow> nat list \<Rightarrow> nat list \<Rightarrow> ImplementationRegistry \<Rightarrow> string list \<Rightarrow> BundleLimits \<Rightarrow> raised + ReplayVerificationV1" where
  "verify_bundle d manifest_bytes trajectory_bytes reg names l =
     (case ebind (read_bundle d manifest_bytes trajectory_bytes names l) (\<lambda>mrs. check_bundle reg trajectory_bytes (fst mrs) (snd mrs)) of
        Inl (Verdict v) \<Rightarrow> Inr v | Inl (Escapes e) \<Rightarrow> Inl e | Inr v \<Rightarrow> Inr v)"

text \<open>Two different byte strings, one of each list, with one digest.\<close>

definition digest_clash :: "nat list list \<Rightarrow> nat list list \<Rightarrow> bool" where
  "digest_clash xs ys = (\<exists>a \<in> set xs. \<exists>b \<in> set ys. a \<noteq> b \<and> sha256_text a = sha256_text b)"

text \<open>What the hashes of a transition and of an episode are computed from.\<close>

definition transition_preimage :: "TransitionV1 \<Rightarrow> nat list" where
  "transition_preimage t = canonical_bytes (without ''transition_hash'' (TransitionV1_json t))"

text \<open>
  The hashes of a transition, each that of what it covers: the form of its model without the hash itself, or
  the list of the forms. This lists the fields of the classes, not the checks of the verifier; \<open>child_checks\<close>
  succeeds exactly then (\<open>child_checks_authentic\<close>). A hash that refers to another model (the observation and
  the proposal of a decision, the observation of an action, the head of the ledger) is not among them.
\<close>

definition source_authentic :: "ObservationSourceV1 \<Rightarrow> bool" where
  "source_authentic s = (ss_snapshot_hash (os_snapshot s) = own_hash ''snapshot_hash'' (SourceSnapshotV1_json (os_snapshot s)) \<and>
     os_source_hash s = own_hash ''source_hash'' (ObservationSourceV1_json s))"

definition observation_authentic :: "MarlObservationV1 \<Rightarrow> bool" where
  "observation_authentic ob = ((\<forall>s \<in> set (mo_sources ob). source_authentic s) \<and>
     (\<forall>f \<in> set (mo_features ob). of_feature_hash f = own_hash ''feature_hash'' (ObservationFeatureV1_json f)) \<and>
     mo_sources_hash ob = canonical_hash (JList (map ObservationSourceV1_json (mo_sources ob))) \<and>
     mo_features_hash ob = canonical_hash (JList (map ObservationFeatureV1_json (mo_features ob))) \<and>
     mo_observation_hash ob = own_hash ''observation_hash'' (MarlObservationV1_json ob))"

definition boundary_authentic :: "DecisionBoundaryV1 \<Rightarrow> bool" where
  "boundary_authentic b = (observation_authentic (db_observation b) \<and>
     (\<forall>p. db_proposed_action b = Some p \<longrightarrow> pa_action_hash p = own_hash ''action_hash'' (ProposedActionV1_json p)) \<and>
     (\<forall>a. db_executed_action b = Some a \<longrightarrow> xa_executed_action_hash a = own_hash ''executed_action_hash'' (ExecutedActionV1_json a)) \<and>
     cd_decision_hash (db_coordinator_decision b) = own_hash ''decision_hash'' (CoordinatorDecisionV1_json (db_coordinator_decision b)) \<and>
     db_boundary_hash b = own_hash ''boundary_hash'' (DecisionBoundaryV1_json b))"

definition authentic :: "TransitionV1 \<Rightarrow> bool" where
  "authentic t = (boundary_authentic (tr_boundary t) \<and> observation_authentic (tr_post_observation t) \<and>
     (\<forall>r \<in> set (tr_rewards t). rc_component_hash r = own_hash ''component_hash'' (RewardComponentV1_json r)) \<and>
     (\<forall>k \<in> set (tr_credits t). ca_credit_hash k = own_hash ''credit_hash'' (CreditAssignmentV1_json k)) \<and>
     tr_transition_hash t = own_hash ''transition_hash'' (TransitionV1_json t))"

text \<open>The registered implementations reproduce the features, the decision and the observed rewards of a transition.\<close>

definition reproduced :: "ImplementationRegistry \<Rightarrow> TransitionV1 \<Rightarrow> bool" where
  "reproduced reg t = (
     (\<forall>ob \<in> {db_observation (tr_boundary t), tr_post_observation t}. \<forall>f \<in> set (mo_features ob).
        \<exists>g s. reg_features reg (of_feature_id f, of_feature_version f) = Some g \<and> s \<in> set (mo_sources ob) \<and>
          snapshots_of ob (os_source_hash s) = Some (os_snapshot s) \<and>
          of_source_hashes f = [os_source_hash s] \<and> (\<exists>v. g (os_snapshot s) = Inr v \<and> py_eq v (of_value f))) \<and>
     (\<exists>g. reg_coordinators reg (ref_key (cd_coordinator_implementation (db_coordinator_decision (tr_boundary t)))) = Some g \<and>
        g (tr_boundary t) = Inr (db_coordinator_decision (tr_boundary t))) \<and>
     (\<forall>r \<in> set (tr_rewards t). \<exists>g. reg_rewards reg (ref_key (rc_reward_implementation r)) = Some g \<and>
        (rc_status r = OBSERVED \<longrightarrow> g (rc_pre_metric_value r) (rc_post_metric_value r) (rc_direction r) = Inr (rc_reward_value r))) \<and>
     (\<forall>k \<in> set (tr_credits t). ref_key (ca_credit_implementation k) \<in> reg_credits reg))"

text \<open>A verdict that rejects, and an operation whose early ends do.\<close>

definition rejects :: "ReplayVerificationV1 \<Rightarrow> bool" where
  "rejects v = (ReplayVerificationV1_valid v \<and> rv_outcome v \<noteq> MARL_VERIFIED)"

definition ends :: "(raised \<Rightarrow> bool) \<Rightarrow> early_end + 'a \<Rightarrow> bool" where
  "ends P m = (\<forall>r. m = Inl r \<longrightarrow> (case r of Verdict v \<Rightarrow> rejects v | Escapes e \<Rightarrow> P e))"

text \<open>The exceptions that the replay of a list of transitions lets through.\<close>

definition function_raises :: "ImplementationRegistry \<Rightarrow> TransitionV1 list \<Rightarrow> raised \<Rightarrow> bool" where
  "function_raises reg ts e = (\<exists>t \<in> set ts.
     (\<exists>k g. \<exists>ob \<in> {db_observation (tr_boundary t), tr_post_observation t}. \<exists>s \<in> set (mo_sources ob).
        reg_features reg k = Some g \<and> g (os_snapshot s) = Inl e) \<or>
     (\<exists>k g. reg_coordinators reg k = Some g \<and> g (tr_boundary t) = Inl e) \<or>
     (\<exists>k g. \<exists>r \<in> set (tr_rewards t). reg_rewards reg k = Some g \<and>
        g (rc_pre_metric_value r) (rc_post_metric_value r) (rc_direction r) = Inl e))"

definition context_ok :: "failure_context \<Rightarrow> bool" where
  "context_ok c = (0 \<le> fc_checked c \<and> pred_option (\<lambda>n. 1 \<le> n) (fc_line c) \<and> pred_option (\<lambda>n. 0 \<le> n) (fc_decision_index c) \<and>
     pred_option hash_text (fc_expected_trajectory c) \<and> pred_option hash_text (fc_actual_trajectory c) \<and>
     pred_option hash_text (fc_expected_episode c) \<and> pred_option hash_text (fc_actual_episode c) \<and> fc_outcome c \<noteq> MARL_VERIFIED)"

fun record_valid :: "trajectory_record \<Rightarrow> bool" where
  "record_valid (RTransition t) = TransitionV1_valid t"
| "record_valid (RBoundary b) = DecisionBoundaryV1_valid b"
| "record_valid (RMarker m) = IncompleteMarkerV1_valid m"

text \<open>What was read: canonical bytes of a manifest and of records, whose values are valid.\<close>

definition read_from :: "nat list \<Rightarrow> nat list \<Rightarrow> TrajectoryManifestV1 \<Rightarrow> trajectory_record list \<Rightarrow> bool" where
  "read_from manifest_bytes trajectory_bytes m rs = (TrajectoryManifestV1_valid m \<and> list_all record_valid rs \<and>
     manifest_bytes = json_line (TrajectoryManifestV1_json m) \<and>
     (\<exists>raws. trajectory_bytes = concat (map raw_line raws) \<and> emap read_record raws = Inr rs))"

text \<open>When the stages over the records let a bundle pass.\<close>

definition accepted :: "ImplementationRegistry \<Rightarrow> nat list \<Rightarrow> TrajectoryManifestV1 \<Rightarrow> trajectory_record list \<Rightarrow> MarlEpisodeV1 \<Rightarrow> bool" where
  "accepted reg bytes m rs e = (tm_trajectory_sha256 m = sha_of_bytes bytes \<and> tm_trajectory_byte_length m = int (length bytes) \<and>
     tm_record_count m = int (length rs) \<and> \<not> order_violated rs \<and> list_all authentic (transitions_in rs) \<and>
     check_pending m bytes rs = Inr () \<and> list_all (\<lambda>r. record_episode r = tm_episode_id m) rs \<and>
     list_all (\<lambda>t. \<not> wrong_environment m t) (transitions_in rs) \<and> bundle_episode m rs = Some e \<and>
     episode_hash e = tm_episode_hash m \<and> list_all (reproduced reg) (transitions_in rs) \<and> me_status e \<noteq> INCOMPLETE)"

text \<open>The text of a value is within the limits, and within those of the interpreter.\<close>

definition fits :: "interpreter \<Rightarrow> BundleLimits \<Rightarrow> json \<Rightarrow> bool" where
  "fits d l j = (depth_and_size l 0 (loaded (normal j)) = None \<and> readable j d)"

text \<open>A bundle of these records within the limits.\<close>

definition within_limits :: "interpreter \<Rightarrow> BundleLimits \<Rightarrow> TrajectoryManifestV1 \<Rightarrow> trajectory_record list \<Rightarrow> bool" where
  "within_limits d l m rs = (length (json_line (TrajectoryManifestV1_json m)) \<le> bl_max_manifest_bytes l \<and>
     length (concat (map (\<lambda>r. json_line (record_json r)) rs)) \<le> bl_max_trajectory_bytes l \<and>
     length rs \<le> bl_max_records l \<and> fits d l (TrajectoryManifestV1_json m) \<and> list_all (\<lambda>r. fits d l (record_json r)) rs)"



subsection \<open>Hashes identify contents\<close>

lemma first_error_None [simp]: "first_error cs = None \<longleftrightarrow> list_all fst cs"
  by (auto simp: first_error_def find_None_iff list_all_iff)

lemma first_some_None [simp]: "first_some xs = None \<longleftrightarrow> (\<forall>x \<in> set xs. x = None)"
  by (induction xs rule: first_some.induct) auto

lemma hash_text_canonical [simp]: "hash_text (canonical_hash j)" "hash_text (own_hash n j)" "hash_text (sha_of_bytes bs)"
proof -
  have h: "hash_text (ustr s)" if "is_sha256 s" for s
  proof -
    have "lower_hex (of_char c)" if "c \<in> set ''0123456789abcdef''" for c
      using that by (auto simp: lower_hex_def)
    then show ?thesis using that by (auto simp: is_sha256_def hash_text_def ustr_def take_map drop_map list_all_iff)
  qed
  show "hash_text (canonical_hash j)" "hash_text (own_hash n j)" "hash_text (sha_of_bytes bs)"
    by (simp_all add: canonical_hash_def own_hash_def sha_of_bytes_def h sha256_text_valid)
qed

lemma canonical_hash_eq:
  assumes "canonical_hash i = canonical_hash j" "scalars i" "scalars j" "\<not> digest_clash [canonical_bytes i] [canonical_bytes j]"
  shows "normal i = normal j"
  using assms ustr_inj canonical_bytes_inj [of i j] unfolding canonical_hash_def digest_clash_def by auto

lemma map_of_sorted:
  fixes items :: "(ustr \<times> json) list"
  assumes "distinct (map fst items)"
  shows "map_of (sort_key f items) = map_of items"
proof (rule map_of_inject_set [THEN iffD2])
  have "mset (map fst (sort_key f items)) = mset (map fst items)" by (simp only: mset_map mset_sort)
  then show "distinct (map fst (sort_key f items))" using assms by (metis mset_eq_imp_distinct_iff)
qed (use assms in simp_all)

lemma normal_object_eq:
  assumes "distinct (map fst a)" "distinct (map fst b)" "\<forall>k \<in> fst ` set a. list_all scalar k"
    and "\<And>k. map_option normal (map_of a k) = map_option normal (map_of b k)"
  shows "normal (JObj a) = normal (JObj b)"
proof -
  let ?n = "map (\<lambda>kv. (fst kv, normal (snd kv)))"
  have n: "normal (JObj xs) = normal (JObj (?n xs))" for xs :: "(ustr \<times> json) list"
  proof -
    have "normal (normal j) = normal j" for j by (metis canonical_eq_iff canonical_normal)
    then show ?thesis unfolding normal_obj by (simp add: sort_key_map comp_def)
  qed
  have d: "distinct (map fst (?n a))" "distinct (map fst (?n b))" using assms(1,2) by (simp_all add: comp_def)
  have "map_of (?n a) = map_of (?n b)" using assms(4) by (simp add: map_of_normal fun_eq_iff)
  then have "set (?n a) = set (?n b)" using map_of_inject_set d by blast
  then have "mset (?n a) = mset (?n b)"
    using set_eq_iff_mset_eq_distinct [OF distinct_map [THEN iffD1, THEN conjunct1, OF d(1)]
        distinct_map [THEN iffD1, THEN conjunct1, OF d(2)]] by blast
  then have "normal (JObj (?n a)) = normal (JObj (?n b))"
    using d(1) assms(3) by (intro normal_reorder) (auto simp: comp_def)
  then show ?thesis by (rule trans [OF n trans [OF _ n [symmetric]]])
qed

lemma normal_object_map:
  assumes "distinct (map fst a)" "distinct (map fst b)" "normal (JObj a) = normal (JObj b)"
  shows "map_option normal (map_of a k) = map_option normal (map_of b k)"
proof -
  have "map_of (map (\<lambda>kv. (fst kv, normal (snd kv))) (sort_key (\<lambda>kv. utf16_key (fst kv)) a)) k =
      map_of (map (\<lambda>kv. (fst kv, normal (snd kv))) (sort_key (\<lambda>kv. utf16_key (fst kv)) b)) k"
    using assms(3) unfolding normal_obj by simp
  then show ?thesis using assms(1,2) by (simp add: map_of_normal map_of_sorted)
qed

lemma map_of_filter_key: "map_of (filter (\<lambda>kv. fst kv \<noteq> n) a) k = (if k = n then None else map_of a k)"
  by (induction a) auto

text \<open>A model is determined by its hash and what the hash covers.\<close>

lemma own_hash_normal:
  assumes "own_hash name (jobj a) = own_hash name (jobj b)" "sound_json (jobj a)" "sound_json (jobj b)"
    and "\<not> digest_clash [canonical_bytes (without name (jobj a))] [canonical_bytes (without name (jobj b))]"
    and "map_of a name = map_of b name"
  shows "normal (jobj a) = normal (jobj b)"
proof -
  let ?a = "map (map_prod ustr (\<lambda>v. v)) a" and ?b = "map (map_prod ustr (\<lambda>v. v)) b"
  let ?f = "filter (\<lambda>kv. fst kv \<noteq> ustr name)"
  have d: "distinct (map fst ?a)" "distinct (map fst ?b)" "\<forall>k \<in> fst ` set ?a. list_all scalar k"
    using assms(2,3) unfolding sound_json_def jobj_def by (auto simp: ustr_scalar)
  have s: "scalars (JObj (?f ?a))" "scalars (JObj (?f ?b))"
    using assms(2,3) unfolding sound_json_def jobj_def by (auto simp: list_all_iff)
  have "normal (JObj (?f ?a)) = normal (JObj (?f ?b))"
    using canonical_hash_eq [OF _ s] assms(1,4) by (simp add: own_hash_def jobj_def)
  then have eq: "map_option normal (map_of (?f ?a) k) = map_option normal (map_of (?f ?b) k)" for k
    using d by (intro normal_object_map) (simp_all add: distinct_map_filter)
  have "map_option normal (map_of ?a k) = map_option normal (map_of ?b k)" for k
  proof (cases "k = ustr name")
    case True
    with assms(5) show ?thesis by (simp add: map_of_ustr)
  next
    case False
    with eq [of k] show ?thesis by (simp add: map_of_filter_key)
  qed
  then show ?thesis unfolding jobj_def using d by (intro normal_object_eq) auto
qed

lemma own_hash_determines:
  assumes "f (normal (g s)) = Some s" "f (normal (g t)) = Some t" "sound_json (g s)" "sound_json (g t)"
    and "\<not> digest_clash [canonical_bytes (without name (g s))] [canonical_bytes (without name (g t))]"
    and "g s = jobj a" "g t = jobj b" "own_hash name (g s) = own_hash name (g t)" "map_of a name = map_of b name"
  shows "s = t"
proof -
  have "normal (g s) = normal (g t)"
    unfolding assms(6,7)
    by (rule own_hash_normal [OF assms(8) [unfolded assms(6,7)] assms(3) [unfolded assms(6)] assms(4) [unfolded assms(7)] assms(5) [unfolded assms(6,7)] assms(9)])
  from trans [OF assms(1) [symmetric] trans [OF arg_cong [OF this, of f] assms(2)]]
  show ?thesis by (rule option.inject [THEN iffD1])
qed

lemma transition_determined:
  assumes "TransitionV1_valid s" "TransitionV1_valid t" "\<not> digest_clash [transition_preimage s] [transition_preimage t]" "tr_transition_hash s = tr_transition_hash t"
    and "tr_transition_hash s = own_hash ''transition_hash'' (TransitionV1_json s)"
    and "tr_transition_hash t = own_hash ''transition_hash'' (TransitionV1_json t)"
  shows "s = t"
proof (rule own_hash_determines [where f = TransitionV1_of and g = TransitionV1_json and s = s and t = t, OF TransitionV1_read TransitionV1_read TransitionV1_sound TransitionV1_sound assms(3) [unfolded transition_preimage_def]
      TransitionV1_json_def TransitionV1_json_def])
  show "own_hash ''transition_hash'' (TransitionV1_json s) = own_hash ''transition_hash'' (TransitionV1_json t)"
    using assms(4-6) by simp
qed (use assms(1,2,4) in simp_all)

lemma authentic_hash: "authentic t \<Longrightarrow> tr_transition_hash t = own_hash ''transition_hash'' (TransitionV1_json t)"
  by (simp add: authentic_def)

lemma transitions_determined:
  assumes "list_all TransitionV1_valid xs" "list_all TransitionV1_valid ys" "list_all authentic xs" "list_all authentic ys"
    and "\<not> digest_clash (map transition_preimage xs) (map transition_preimage ys)" "map tr_transition_hash xs = map tr_transition_hash ys"
  shows "xs = ys"
  using assms
proof (induction xs arbitrary: ys)
  case (Cons x xs)
  then obtain y zs where ys: "ys = y # zs" by (cases ys) auto
  have "x = y" by (intro transition_determined authentic_hash) (use Cons.prems ys in \<open>simp_all add: digest_clash_def\<close>)
  moreover have "xs = zs" using Cons ys by (simp add: digest_clash_def)
  ultimately show ?case using ys by simp
qed simp

subsection \<open>What a verified bundle has\<close>

lemma replay_feature_None:
  "replay_feature reg ob f = None \<longleftrightarrow>
    (\<exists>g s. reg_features reg (of_feature_id f, of_feature_version f) = Some g \<and> s \<in> set (mo_sources ob) \<and>
       snapshots_of ob (os_source_hash s) = Some (os_snapshot s) \<and>
       of_source_hashes f = [os_source_hash s] \<and> (\<exists>v. g (os_snapshot s) = Inr v \<and> py_eq v (of_value f)))"
proof (cases "reg_features reg (of_feature_id f, of_feature_version f)")
  case (Some g)
  show ?thesis
  proof
    assume a: "replay_feature reg ob f = None"
    then obtain h where h: "of_source_hashes f = [h]"
      by (cases "of_source_hashes f"; cases "tl (of_source_hashes f)") (auto simp: replay_feature_def Some split: if_splits)
    with a obtain x v where x: "snapshots_of ob h = Some x" "g x = Inr v" "py_eq v (of_value f)"
      by (auto simp: replay_feature_def Some split: if_splits sum.splits)
    obtain s where "s \<in> set (mo_sources ob)" "os_source_hash s = h" "os_snapshot s = x"
      using x(1) unfolding snapshots_of_def by (rule dict_of_SomeD)
    with h x Some show "\<exists>g s. reg_features reg (of_feature_id f, of_feature_version f) = Some g \<and> s \<in> set (mo_sources ob) \<and>
       snapshots_of ob (os_source_hash s) = Some (os_snapshot s) \<and>
       of_source_hashes f = [os_source_hash s] \<and> (\<exists>v. g (os_snapshot s) = Inr v \<and> py_eq v (of_value f))" by auto
  qed (auto simp: replay_feature_def)
qed (simp add: replay_feature_def)

lemma replay_transition_None: "replay_transition reg t = None \<longleftrightarrow> reproduced reg t"
proof -
  have d: "replay_decision reg b = None \<longleftrightarrow>
      (\<exists>g. reg_coordinators reg (ref_key (cd_coordinator_implementation (db_coordinator_decision b))) = Some g \<and>
        g b = Inr (db_coordinator_decision b))" for b
    by (auto simp: replay_decision_def split: option.splits sum.splits)
  have r: "replay_reward reg r = None \<longleftrightarrow> (\<exists>g. reg_rewards reg (ref_key (rc_reward_implementation r)) = Some g \<and>
        (rc_status r = OBSERVED \<longrightarrow> g (rc_pre_metric_value r) (rc_post_metric_value r) (rc_direction r) = Inr (rc_reward_value r)))" for r
    by (auto simp: replay_reward_def split: option.splits sum.splits)
  have k: "replay_credit reg k = None \<longleftrightarrow> ref_key (ca_credit_implementation k) \<in> reg_credits reg" for k
    by (simp add: replay_credit_def)
  show ?thesis unfolding reproduced_def replay_transition_def first_some_None
    by (simp only: set_append set_concat set_map list.set Un_iff ball_Un UN_iff Ball_image_comp)
       (simp add: d r k ball_Un replay_feature_None)
qed

lemma child_checks_authentic: "list_all fst (child_checks t) \<longleftrightarrow> authentic t"
proof -
  have s: "list_all fst (source_checks ob @ observation_checks ob) \<longleftrightarrow> observation_authentic ob" for ob
    by (auto simp: source_checks_def observation_checks_def feature_checks_def observation_check_def hash_check_def
        observation_authentic_def source_authentic_def jlist_def list_all_iff ball_Un)
  have d: "list_all fst (source_checks (db_observation b) @ observation_checks (db_observation b) @ decision_checks b) \<longleftrightarrow>
      boundary_authentic b" for b
    using s [of "db_observation b"]
    by (auto simp: decision_checks_def boundary_authentic_def hash_check_def split: option.splits)
  show ?thesis using s [of "tr_post_observation t"] d [of "tr_boundary t"]
    by (auto simp: child_checks_def authentic_def hash_check_def list_all_iff ball_Un)
qed

lemma first_error_authentic: "first_error (child_checks t) = None \<longleftrightarrow> authentic t"
  by (simp add: child_checks_authentic)

lemma check_hashes_Inr: "check_hashes c i ts = Inr u \<longleftrightarrow> list_all authentic ts"
  by (induction c i ts rule: check_hashes.induct) (auto simp: first_error_authentic simp del: first_error_None dest: first_error_authentic [THEN iffD2] split: option.splits)

lemma check_replay_Inr: "check_replay reg c i ts = Inr u \<longleftrightarrow> list_all (reproduced reg) ts"
  by (induction reg c i ts rule: check_replay.induct) (auto split: option.splits simp flip: replay_transition_None)

text \<open>What escapes from a replay was raised by a registered function.\<close>

lemma first_some_Some: "first_some xs = Some x \<Longrightarrow> Some x \<in> set xs"
  by (induction xs rule: first_some.induct) auto

lemma replay_transition_raises:
  assumes "replay_transition reg t = Some e" "caught e = None" "t \<in> set ts"
  shows "function_raises reg ts e"
proof -
  have f: "\<exists>g. \<exists>s \<in> set (mo_sources ob). reg_features reg (of_feature_id f, of_feature_version f) = Some g \<and> g (os_snapshot s) = Inl e"
    if a: "replay_feature reg ob f = Some e" for ob f
  proof -
    obtain g x where g: "reg_features reg (of_feature_id f, of_feature_version f) = Some g"
        "snapshots_of ob (hd (of_source_hashes f)) = Some x" "g x = Inl e"
      using a assms(2) by (auto simp: replay_feature_def split: option.splits if_splits sum.splits)
    obtain s where "s \<in> set (mo_sources ob)" "os_snapshot s = x"
      using g(2) unfolding snapshots_of_def by (rule dict_of_SomeD)
    with g show ?thesis by blast
  qed
  have d: "\<exists>k g. reg_coordinators reg k = Some g \<and> g b = Inl e" if "replay_decision reg b = Some e" for b
    using that assms(2) by (auto simp: replay_decision_def simp del: split_paired_Ex split: option.splits if_splits sum.splits)
  have r: "\<exists>k g. reg_rewards reg k = Some g \<and> g (rc_pre_metric_value r) (rc_post_metric_value r) (rc_direction r) = Inl e"
    if "replay_reward reg r = Some e" for r
    using that assms(2) by (auto simp: replay_reward_def simp del: split_paired_Ex split: option.splits if_splits sum.splits)
  have k: "replay_credit reg k \<noteq> Some e" for k
    using assms(2) by (auto simp: replay_credit_def)
  have "Some e \<in> set (concat (map (\<lambda>ob. map (replay_feature reg ob) (mo_features ob)) [db_observation (tr_boundary t), tr_post_observation t]) @
      [replay_decision reg (tr_boundary t)] @ map (replay_reward reg) (tr_rewards t) @ map (replay_credit reg) (tr_credits t))"
    using assms(1) unfolding replay_transition_def by (rule first_some_Some)
  then consider ob f' where "ob \<in> {db_observation (tr_boundary t), tr_post_observation t}" "replay_feature reg ob f' = Some e"
    | "replay_decision reg (tr_boundary t) = Some e" | r where "r \<in> set (tr_rewards t)" "replay_reward reg r = Some e"
    using k by (force simp: eq_commute [of "Some e"])
  then show ?thesis
  proof cases
    case (1 ob f')
    from f [OF 1(2)] 1(1) assms(3) show ?thesis unfolding function_raises_def by blast
  next
    case 2
    from d [OF 2] assms(3) show ?thesis unfolding function_raises_def by blast
  next
    case (3 r)
    from r [OF 3(2)] 3(1) assms(3) show ?thesis unfolding function_raises_def by blast
  qed
qed

text \<open>A bracket is one byte, which no other character holds.\<close>

lemma utf8_decode_brackets: "utf8_decode bs = Some t \<Longrightarrow> brackets t \<le> brackets bs"
proof (induction bs arbitrary: t rule: utf8_decode.induct)
  case (2 b bs)
  then show ?case
    by (auto simp: brackets_def Let_def le_SucI split: if_splits list.splits)
qed simp

lemma brackets_append: "brackets (x @ y) = brackets x + brackets y"
  by (simp add: brackets_def)

lemma split_lines_brackets: "x \<in> set (split_lines bs) \<Longrightarrow> brackets x \<le> brackets bs"
proof -
  have "brackets x \<le> brackets (concat xs)" if "x \<in> set xs" for xs :: "nat list list"
    using that by (induction xs) (auto simp: brackets_append)
  then show "x \<in> set (split_lines bs) \<Longrightarrow> ?thesis" using concat_split_lines [of bs] by metis
qed

lemma utf8_decode_hd: "utf8_decode bs = Some t \<Longrightarrow> brackets (tl t) \<le> brackets bs"
  using utf8_decode_brackets [of bs t] brackets_suffix [OF suffix_tl, of t] by simp

named_theorems ending

lemma ends_failure [ending]:
  assumes "n \<in> {''bundle'', ''manifest.json'', ''trajectory.jsonl''}" "context_ok c"
  shows "ends P (Inl (Verdict (bundle_failure code stage n detail c)))"
  using assms by (auto simp: ends_def rejects_def bundle_failure_def context_ok_def ReplayVerificationV1_valid_def ReplayFailureV1_valid_def)

lemma ends_escape: "P e \<Longrightarrow> ends P (Inl (Escapes e))"
  by (simp add: ends_def)

lemma ends_Inr [ending]: "ends P (Inr x)"
  by (simp add: ends_def)

lemma ends_if [ending]: "(b \<Longrightarrow> ends P m) \<Longrightarrow> (\<not> b \<Longrightarrow> ends P n) \<Longrightarrow> ends P (if b then m else n)"
  by simp

lemma ends_ebind [ending]: "ends P m \<Longrightarrow> (\<And>x. m = Inr x \<Longrightarrow> ends P (f x)) \<Longrightarrow> ends P (ebind m f)"
  by (cases m) (auto simp: ends_def)

lemma ends_option [ending]: "(x = None \<Longrightarrow> ends P m) \<Longrightarrow> (\<And>y. x = Some y \<Longrightarrow> ends P (f y)) \<Longrightarrow> ends P (case x of None \<Rightarrow> m | Some y \<Rightarrow> f y)"
  by (cases x) auto

lemma ends_sum [ending]: "(\<And>e. x = Inl e \<Longrightarrow> ends P (f e)) \<Longrightarrow> (\<And>y. x = Inr y \<Longrightarrow> ends P (g y)) \<Longrightarrow> ends P (case x of Inl e \<Rightarrow> f e | Inr y \<Rightarrow> g y)"
  by (cases x) auto

lemma ends_fault [ending]: "(e = BadJson \<Longrightarrow> ends P m) \<Longrightarrow> (e = TooDeep \<Longrightarrow> ends P n) \<Longrightarrow> ends P (case e of BadJson \<Rightarrow> m | TooDeep \<Rightarrow> n)"
  by (cases e) auto

lemma ends_let [ending]: "ends P (f x) \<Longrightarrow> ends P (Let x f)"
  by simp

lemma no_context_ok: "context_ok no_context" "context_ok (no_context\<lparr>fc_episode_id := e\<rparr>)"
  "pred_option (\<lambda>n. 1 \<le> n) k \<Longrightarrow> context_ok (no_context\<lparr>fc_line := k\<rparr>)"
  by (simp_all add: context_ok_def no_context_def)

lemma ends_parse_file:
  assumes "f \<in> {''manifest.json'', ''trajectory.jsonl''}" "in_levels d < brackets data \<Longrightarrow> P recursion_error"
  shows "ends P (parse_file d data f l)"
proof -
  have "in_levels d < brackets data" if "utf8_decode data = Some t" "json_loads d (if b then tl t else t) = Inl TooDeep" for t b
    using json_loads_too_deep [OF that(2)] utf8_decode_brackets [OF that(1)] utf8_decode_hd [OF that(1)] by (cases b) simp_all
  then show ?thesis unfolding parse_file_def using assms
    by (intro ending no_context_ok ends_escape) (auto simp: Let_def)
qed

lemma ends_emap: "(\<And>x. ends P (f x)) \<Longrightarrow> ends P (emap f xs)"
  by (induction xs) (auto intro!: ending)

lemma ends_with_line: "1 \<le> n \<Longrightarrow> ends P (Inl e :: early_end + 'a) \<Longrightarrow> ends P (Inl (with_line n e) :: early_end + 'b)"
proof (cases e)
  case (Verdict v)
  then show "1 \<le> n \<Longrightarrow> ends P (Inl e :: early_end + 'a) \<Longrightarrow> ?thesis"
    by (cases "rv_first_failure v")
      (auto simp: ends_def rejects_def ReplayVerificationV1_valid_def ReplayFailureV1_valid_def)
qed (simp add: ends_def)

lemma ends_parse_lines:
  assumes "1 \<le> n" "\<And>x. x \<in> set xs \<Longrightarrow> in_levels d < brackets x \<Longrightarrow> P recursion_error"
  shows "ends P (parse_lines d n xs l)"
  using assms
proof (induction d n xs l rule: parse_lines.induct)
  case (2 d n x xs l)
  have p: "ends P (parse_file d x ''trajectory.jsonl'' l)" by (rule ends_parse_file) (use "2.prems" in auto)
  show ?case
  proof (cases "parse_file d x ''trajectory.jsonl'' l")
    case (Inl e)
    with p "2.prems"(1) have "ends P (Inl (with_line n e) :: early_end + lval list)" by (intro ends_with_line) simp_all
    with Inl show ?thesis by simp
  next
    case (Inr v)
    then have "ends P (parse_lines d (Suc n) xs l)" by (rule "2.IH") (use "2.prems" in auto)
    with Inr show ?thesis by (simp only: parse_lines.simps sum.case) (intro ending)
  qed
qed (simp add: ends_def)

lemma ends_version_error: "f \<in> {''manifest.json'', ''trajectory.jsonl''} \<Longrightarrow> pred_option (\<lambda>n. 1 \<le> n) k \<Longrightarrow> ends P (Inl (Verdict (version_error f k)))"
  unfolding version_error_def by (intro ending no_context_ok) auto

lemma ends_check_versions:
  "list_all (\<lambda>x. fst x \<in> {''manifest.json'', ''trajectory.jsonl''} \<and> pred_option (\<lambda>n. 1 \<le> n) (fst (snd x))) vs \<Longrightarrow> ends P (check_versions vs)"
proof (induction vs)
  case (Cons x vs)
  obtain f k y where x: "x = (f, k, y)" by (cases x)
  with Cons have "ends P (check_versions vs)" "ends P (Inl (Verdict (version_error f k)) :: early_end + unit)"
    by (auto intro: ends_version_error)
  then show ?case unfolding x check_versions.simps by (intro ending)
qed (simp add: ends_def)

lemma ends_read_model: "ends P (read_model f x)"
  unfolding read_model_def schema_error_def by (intro ending no_context_ok) auto

lemma ends_read_record: "ends P (read_record x)"
  unfolding read_record_def by (intro ending no_context_ok ends_read_model) auto

lemma ends_read_bundle:
  assumes "in_levels d < brackets m \<or> in_levels d < brackets t \<Longrightarrow> P recursion_error"
  shows "ends P (read_bundle d m t names l)"
proof -
  have "list_all (\<lambda>x. fst x \<in> {''manifest.json'', ''trajectory.jsonl''} \<and> pred_option (\<lambda>n. 1 \<le> n) (fst (snd x)))
     ((''manifest.json'', None, dict_get a ''schema_version'') #
        map (\<lambda>(i, v). (''trajectory.jsonl'', Some (int i), dict_get v ''schema_version'')) (zip [1..<length raws + 1] raws))" for a raws
    by (auto simp: list_all_iff dest!: set_zip_leftD)
  note v = ends_check_versions [OF this]
  have p: "ends P (parse_file d m ''manifest.json'' l)" using assms by (intro ends_parse_file) auto
  have q: "ends P (parse_lines d 1 (split_lines t) l)"
    using assms split_lines_brackets [of _ t] by (intro ends_parse_lines) (auto intro: less_le_trans)
  show ?thesis unfolding read_bundle_def
    by (intro ending no_context_ok ends_read_model ends_emap ends_read_record v p q ends_version_error) auto
qed

lemma ends_check_hashes:
  assumes "context_ok c" "0 \<le> i" "list_all (\<lambda>t. 0 \<le> tr_decision_index t) ts"
  shows "ends P (check_hashes c i ts)"
  using assms
proof (induction ts arbitrary: i)
  case (Cons t ts)
  then show ?case unfolding check_hashes.simps by (intro ending) (auto simp: context_ok_def)
qed (simp add: ends_def)

lemma ends_replay_end:
  assumes "context_ok c" "0 \<le> i" "0 \<le> tr_decision_index t" "caught e = None \<Longrightarrow> P e"
  shows "ends P (Inl (replay_end c i t e))"
proof (cases "caught e")
  case None
  with assms(4) show ?thesis by (simp add: replay_end_def ends_def)
next
  case (Some x)
  obtain code stage msg where x: "x = (code, stage, msg)" by (cases x)
  have "context_ok (c\<lparr>fc_checked := i, fc_line := Some (i + 1), fc_decision_index := Some (tr_decision_index t), fc_integrity_valid := True\<rparr>)"
    using assms by (simp add: context_ok_def)
  then show ?thesis unfolding replay_end_def Some x option.case prod.case by (intro ending) simp_all
qed

lemma ends_check_replay:
  assumes "context_ok c" "0 \<le> i" "list_all (\<lambda>t. 0 \<le> tr_decision_index t) ts"
    and "\<And>t e. t \<in> set ts \<Longrightarrow> replay_transition reg t = Some e \<Longrightarrow> caught e = None \<Longrightarrow> P e"
  shows "ends P (check_replay reg c i ts)"
  using assms
proof (induction ts arbitrary: i)
  case (Cons t ts)
  show ?case
  proof (cases "replay_transition reg t")
    case None
    with Cons.prems show ?thesis by (auto intro!: Cons.IH)
  next
    case (Some e)
    with Cons.prems have "ends P (Inl (replay_end c i t e))" by (intro ends_replay_end) auto
    with Some show ?thesis by (simp add: ends_def)
  qed
qed (simp add: ends_def)

lemma contexts_ok [simp]: "context_ok (bundle_context m)"
  "hash_text (tm_trajectory_sha256 m) \<Longrightarrow> context_ok (digest_context m bs)"
  "hash_text (tm_trajectory_sha256 m) \<Longrightarrow> hash_text (tm_episode_hash m) \<Longrightarrow> context_ok (episode_context m bs e)"
  by (simp_all add: context_ok_def bundle_context_def digest_context_def episode_context_def no_context_def episode_hash_def)

lemma transitions_in_set: "t \<in> set (transitions_in rs) \<longleftrightarrow> RTransition t \<in> set rs"
  by (induction rs rule: transitions_in.induct) auto

lemma boundaries_in_set: "b \<in> set (boundaries_in rs) \<longleftrightarrow> RBoundary b \<in> set rs"
  by (induction rs rule: boundaries_in.induct) auto

lemma markers_in_set: "b \<in> set (markers_in rs) \<longleftrightarrow> RMarker b \<in> set rs"
  by (induction rs rule: markers_in.induct) auto

lemma validated_Some: "validated ok x = Some y \<longleftrightarrow> ok x \<and> y = x"
  by (auto simp: validated_def)

lemma bind_ends_validated: "(\<And>x. f x = Some y \<Longrightarrow> ok y) \<Longrightarrow> Option.bind a f = Some y \<Longrightarrow> ok y"
  by (cases a) auto

lemma of_valid:
  "TransitionV1_of j = Some t \<Longrightarrow> TransitionV1_valid t"
  "DecisionBoundaryV1_of j = Some b \<Longrightarrow> DecisionBoundaryV1_valid b"
  "IncompleteMarkerV1_of j = Some m \<Longrightarrow> IncompleteMarkerV1_valid m"
  "TrajectoryManifestV1_of j = Some tm \<Longrightarrow> TrajectoryManifestV1_valid tm"
  unfolding TransitionV1_of_def DecisionBoundaryV1_of_def IncompleteMarkerV1_of_def TrajectoryManifestV1_of_def
  by ((erule bind_ends_validated [rotated])+, simp add: validated_Some)+

lemma read_model_Inr: "read_model f v = Inr x \<Longrightarrow> \<exists>j. json_value (py_of v) = Inr j \<and> f (normal j) = Some x"
  by (auto simp: read_model_def split: sum.splits option.splits)

lemma read_record_valid: "read_record v = Inr r \<Longrightarrow> record_valid r"
  unfolding read_record_def
  by (auto split: if_splits simp: ebind_eq_Inr_iff dest!: read_model_Inr dest: of_valid)

lemma emap_valid: "emap f xs = Inr ys \<Longrightarrow> (\<And>x y. f x = Inr y \<Longrightarrow> P y) \<Longrightarrow> list_all P ys"
  by (induction xs arbitrary: ys) (auto simp: ebind_eq_Inr_iff)

lemma read_bundle_read: "read_bundle d mb tb names l = Inr (m, rs) \<Longrightarrow> read_from mb tb m rs"
  unfolding read_bundle_def read_from_def
  by (auto simp: ebind_eq_Inr_iff split: if_splits dest!: read_model_Inr intro: of_valid emap_valid read_record_valid)

lemma transitions_valid: "list_all record_valid rs \<Longrightarrow> list_all TransitionV1_valid (transitions_in rs)"
  and boundaries_valid: "list_all record_valid rs \<Longrightarrow> list_all DecisionBoundaryV1_valid (boundaries_in rs)"
  by (fastforce simp: list_all_iff transitions_in_set boundaries_in_set)+

lemma transition_index: "TransitionV1_valid t \<Longrightarrow> 0 \<le> tr_decision_index t"
  "DecisionBoundaryV1_valid b \<Longrightarrow> 0 \<le> db_decision_index b"
  by (simp_all add: TransitionV1_valid_def DecisionBoundaryV1_valid_def)

lemma manifest_hashes: "TrajectoryManifestV1_valid m \<Longrightarrow> hash_text (tm_trajectory_sha256 m) \<and> hash_text (tm_episode_hash m)"
  by (simp add: TrajectoryManifestV1_valid_def)

lemma option_hd_set: "option_hd xs = Some x \<Longrightarrow> x \<in> set xs"
  by (auto simp: option_hd_def split: if_splits)

lemma ends_check_pending:
  assumes "TrajectoryManifestV1_valid m" "list_all record_valid rs"
  shows "ends P (check_pending m bs rs)"
proof (cases "option_hd (boundaries_in rs)")
  case (Some b)
  then have b: "DecisionBoundaryV1_valid b" using boundaries_valid [OF assms(2)] by (auto simp: list_all_iff dest: option_hd_set)
  have "context_ok ((digest_context m bs)\<lparr>fc_checked := int n, fc_line := Some (int n + 1), fc_decision_index := Some (db_decision_index b)\<rparr>)" for n
    using manifest_hashes [OF assms(1)] transition_index(2) [OF b] by (simp add: context_ok_def digest_context_def bundle_context_def no_context_def)
  then show ?thesis unfolding check_pending_def Some option.case by (intro ending) auto
qed (simp add: check_pending_def ends_def)

lemma ends_check_bundle:
  assumes "TrajectoryManifestV1_valid m" "list_all record_valid rs"
    and p: "\<And>t e. t \<in> set (transitions_in rs) \<Longrightarrow> replay_transition reg t = Some e \<Longrightarrow> caught e = None \<Longrightarrow> P e"
  shows "ends P (check_bundle reg bs m rs)"
proof -
  note h = manifest_hashes [OF assms(1)]
  have i: "list_all (\<lambda>t. 0 \<le> tr_decision_index t) (transitions_in rs)"
    using transitions_valid [OF assms(2)] transition_index(1) by (auto simp: list_all_iff)
  have c: "context_ok (c\<lparr>fc_checked := int n\<rparr>)" if "context_ok c" for c n
    using that by (simp add: context_ok_def)
  have d: "context_ok (c\<lparr>fc_checked := int n, fc_line := Some (int n), fc_integrity_valid := True, fc_outcome := MARL_INCOMPLETE\<rparr>)"
    if "context_ok c" "0 < n" for c n
    using that by (simp add: context_ok_def)
  have n: "0 < length rs" if "bundle_episode m rs = Some e" for e
    using that by (cases rs) (simp_all add: bundle_episode_def)
  show ?thesis unfolding check_bundle_def
    by (intro ending ends_check_pending ends_check_hashes ends_check_replay assms(1,2) i c d) (use h n p in \<open>auto\<close>)
qed

text \<open>The exceptions that may escape from a verification.\<close>

definition escaping ::
  "interpreter \<Rightarrow> nat list \<Rightarrow> nat list \<Rightarrow> ImplementationRegistry \<Rightarrow> string list \<Rightarrow> BundleLimits \<Rightarrow> raised \<Rightarrow> bool" where
  "escaping d mb tb reg names l e = (
     (e = recursion_error \<and> (in_levels d < brackets mb \<or> in_levels d < brackets tb)) \<or>
     (caught e = None \<and> (\<exists>m rs. read_bundle d mb tb names l = Inr (m, rs) \<and> function_raises reg (transitions_in rs) e)))"

lemma ends_verify:
  "ends (escaping d mb tb reg names l) (ebind (read_bundle d mb tb names l) (\<lambda>mrs. check_bundle reg tb (fst mrs) (snd mrs)))"
proof (rule ends_ebind [OF ends_read_bundle])
  fix x assume a: "read_bundle d mb tb names l = Inr x"
  then have r: "read_from mb tb (fst x) (snd x)" by (intro read_bundle_read) simp
  have "escaping d mb tb reg names l e"
    if "t \<in> set (transitions_in (snd x))" "replay_transition reg t = Some e" "caught e = None" for t e
    using replay_transition_raises [OF that(2,3,1)] that(3) a unfolding escaping_def by (metis surjective_pairing)
  with r show "ends (escaping d mb tb reg names l) (check_bundle reg tb (fst x) (snd x))"
    by (auto simp: read_from_def intro!: ends_check_bundle)
qed (simp add: escaping_def)

lemma check_bundle_Inr: "check_bundle reg bs m rs = Inr v \<longleftrightarrow> (\<exists>e. accepted reg bs m rs e \<and> v = verified m bs rs e)"
  unfolding check_bundle_def accepted_def
  by (auto simp: ebind_eq_Inr_iff check_hashes_Inr check_replay_Inr list_ex_iff list_all_iff split: if_splits option.splits)

lemma verify_bundle_Inr:
  "read_bundle d mb tb names l = Inr (m, rs) \<Longrightarrow> accepted reg tb m rs e \<Longrightarrow> verify_bundle d mb tb reg names l = Inr (verified m tb rs e)"
  using check_bundle_Inr [of reg tb m rs "verified m tb rs e"] by (auto simp: verify_bundle_def)

text \<open>What a verification ends in.\<close>

lemma verify_bundle_cases:
  obtains (escapes) e where "verify_bundle d mb tb reg names l = Inl e" "escaping d mb tb reg names l e"
  | (rejected) v where "verify_bundle d mb tb reg names l = Inr v" "rejects v"
  | (passed) m rs e where "verify_bundle d mb tb reg names l = Inr (verified m tb rs e)" "read_bundle d mb tb names l = Inr (m, rs)"
      "accepted reg tb m rs e"
proof -
  let ?x = "ebind (read_bundle d mb tb names l) (\<lambda>mrs. check_bundle reg tb (fst mrs) (snd mrs))"
  show ?thesis
  proof (cases ?x)
    case (Inl r)
    with ends_verify [of d mb tb reg names l] show ?thesis
      by (cases r) (auto simp: ends_def verify_bundle_def intro: rejected escapes)
  next
    case (Inr v)
    then obtain m rs where r: "read_bundle d mb tb names l = Inr (m, rs)" and c: "check_bundle reg tb m rs = Inr v"
      by (auto simp: ebind_eq_Inr_iff)
    from c obtain e where "accepted reg tb m rs e" by (auto simp: check_bundle_Inr)
    from passed [OF verify_bundle_Inr [OF r this] r this] show ?thesis .
  qed
qed

lemma verify_bundle_verified:
  assumes "verify_bundle d mb tb reg names l = Inr v" "rv_outcome v = MARL_VERIFIED"
  obtains m rs e where "read_bundle d mb tb names l = Inr (m, rs)" "accepted reg tb m rs e" "v = verified m tb rs e"
  using assms by (cases rule: verify_bundle_cases [of d mb tb reg names l]) (auto simp: rejects_def intro: that)

subsection \<open>Reading what was exported\<close>

lemma scalars_normal [simp]: "scalars (normal j) = scalars j"
proof (induction j)
  case (JList xs)
  then show ?case by (auto simp: list_all_iff)
next
  case (JObj items)
  have "scalars (snd kv) = scalars (normal (snd kv))" if "kv \<in> set items" for kv
    using JObj [of kv "snd kv"] that by (cases kv) auto
  then show ?case unfolding normal_obj by (fastforce simp: list_all_iff)
qed simp_all

lemma normal_normal [simp]: "normal (normal j) = normal j"
  by (simp flip: canonical_eq_iff)

lemma canonical_bytes_normal [simp]: "canonical_bytes (normal j) = canonical_bytes j"
  by (simp add: canonical_bytes_def)

lemma canonical_no_mark: "\<not> starts 0xFEFF (canonical j @ r)"
proof -
  have "hd (canonical j) \<noteq> 0xFEFF"
  proof (cases j)
    case (JInt i)
    then show ?thesis using int_text_hd [of i] by (auto simp: is_digit_def)
  qed (auto simp: ustr_def json_string_def)
  then show ?thesis using canonical_hd [of j] by (cases "canonical j") (auto simp: starts_def)
qed

lemma parse_file_line:
  assumes "sound_json j" "fits d l j"
  shows "parse_file d (json_line j) f l = Inr (loaded (normal j))"
  using assms canonical_no_mark [of j "[10]"]
  by (simp add: parse_file_def json_line_def utf8_decode_line sound_json_def json_loads_canonical fits_def)

lemma parse_lines_json:
  "list_all (\<lambda>j. sound_json j \<and> fits d l j) js \<Longrightarrow> parse_lines d n (map json_line js) l = Inr (map (\<lambda>j. loaded (normal j)) js)"
  by (induction js arbitrary: n) (simp_all add: parse_file_line)

lemma split_json_lines: "split_lines (concat (map json_line js)) = map json_line js"
proof -
  have l: "map json_line js = map (\<lambda>x. x @ [10]) (map canonical_bytes js)" by (simp add: json_line_def)
  have "split_lines (concat (map (\<lambda>x. x @ [10]) (map canonical_bytes js))) = map (\<lambda>x. x @ [10]) (map canonical_bytes js)"
    by (rule split_lines_join) (auto simp: canonical_bytes_one_line)
  then show ?thesis by (simp only: l)
qed

lemma json_value_loaded: "scalars j \<Longrightarrow> json_value (py_of (loaded (normal j))) = Inr (normal j)"
  by (simp add: py_of_loaded json_value_thaw)

lemma read_model_loaded: "scalars j \<Longrightarrow> f (normal j) = Some x \<Longrightarrow> read_model f (loaded (normal j)) = Inr x"
  by (simp add: read_model_def json_value_loaded)

lemma raw_line_loaded: "scalars j \<Longrightarrow> raw_line (loaded (normal j)) = json_line j"
  by (simp add: raw_line_def json_value_loaded json_line_def)

lemma map_of_loaded: "map_of (map (map_prod (\<lambda>k. k) loaded) items) = (\<lambda>k. map_option loaded (map_of items k))"
  by (induction items) auto

lemma dict_get_loaded:
  assumes "distinct (map fst ms)" "map_of ms name = Some v" "v \<noteq> JNull"
  shows "dict_get (loaded (normal (jobj ms))) name = Some (loaded (normal v))"
proof -
  have d: "distinct (map fst (map (map_prod ustr (\<lambda>v. v)) ms))"
    using assms(1) by (simp add: comp_def distinct_map inj_on_def)
  have n: "loaded (normal v) \<noteq> LNone" using assms(3) by (cases v) auto
  have m: "map_of (map (map_prod (\<lambda>k. k) loaded) (map (\<lambda>kv. (fst kv, normal (snd kv)))
      (sort_key (\<lambda>kv. utf16_key (fst kv)) (map (map_prod ustr (\<lambda>v. v)) ms)))) (ustr name) = Some (loaded (normal v))"
    unfolding map_of_loaded map_of_normal map_of_sorted [OF d] map_of_ustr assms(2) by simp
  show ?thesis unfolding jobj_def normal_obj loaded.simps dict_get.simps m using n by (cases "loaded (normal v)") auto
qed

text \<open>What a model class has: its form is JSON, and reading the form gives the model back.\<close>

locale json_model =
  fixes ok :: "'m \<Rightarrow> bool" and to_json :: "'m \<Rightarrow> json" and of_json :: "json \<Rightarrow> 'm option"
  assumes read: "ok x \<Longrightarrow> of_json (normal (to_json x)) = Some x"
    and sound: "ok x \<Longrightarrow> sound_json (to_json x)"
begin

lemma scalar_form: "ok x \<Longrightarrow> scalars (to_json x)"
  using sound by (simp add: sound_json_def)

lemma read_back: "ok x \<Longrightarrow> read_model of_json (loaded (normal (to_json x))) = Inr x"
  by (rule read_model_loaded [where f = of_json and j = "to_json x", OF scalar_form read])

lemma bytes_identify:
  assumes "ok x" "ok y" "canonical_bytes (to_json x) = canonical_bytes (to_json y)"
  shows "x = y"
  using canonical_bytes_inj [OF scalar_form [OF assms(1)] scalar_form [OF assms(2)] assms(3)] read [OF assms(1)] read [OF assms(2)]
  by (metis option.inject)

end

interpretation transition_model: json_model TransitionV1_valid TransitionV1_json TransitionV1_of
  by unfold_locales (rule TransitionV1_read TransitionV1_sound, assumption)+

interpretation boundary_model: json_model DecisionBoundaryV1_valid DecisionBoundaryV1_json DecisionBoundaryV1_of
  by unfold_locales (rule DecisionBoundaryV1_read DecisionBoundaryV1_sound, assumption)+

interpretation marker_model: json_model IncompleteMarkerV1_valid IncompleteMarkerV1_json IncompleteMarkerV1_of
  by unfold_locales (rule IncompleteMarkerV1_read IncompleteMarkerV1_sound, assumption)+

interpretation manifest_model: json_model TrajectoryManifestV1_valid TrajectoryManifestV1_json TrajectoryManifestV1_of
  by unfold_locales (rule TrajectoryManifestV1_read TrajectoryManifestV1_sound, assumption)+

interpretation episode_model: json_model MarlEpisodeV1_valid MarlEpisodeV1_json MarlEpisodeV1_of
  by unfold_locales (rule MarlEpisodeV1_read MarlEpisodeV1_sound, assumption)+

lemma record_read:
  assumes "record_valid r"
  shows "sound_json (record_json r)" "read_record (loaded (normal (record_json r))) = Inr r"
    "dict_get (loaded (normal (record_json r))) ''schema_version'' = Some (LInt 1)"
proof -
  have s: "scalars (record_json r)" if "sound_json (record_json r)" using that by (simp add: sound_json_def)
  have o: "is_dict (loaded (normal (jobj ms)))" for ms by (simp add: jobj_def)
  have "sound_json (record_json r) \<and> read_record (loaded (normal (record_json r))) = Inr r \<and>
    dict_get (loaded (normal (record_json r))) ''schema_version'' = Some (LInt 1)"
  proof (cases r)
    case (RTransition t)
    with assms have v: "TransitionV1_valid t" by simp
    note m = transition_model.read_back [OF v]
    have g: "dict_get (loaded (normal (TransitionV1_json t))) ''record_type'' = Some (LStr (ustr ''transition''))"
        "dict_get (loaded (normal (TransitionV1_json t))) ''schema_version'' = Some (LInt 1)"
      unfolding TransitionV1_json_def by (simp_all add: dict_get_loaded jtext_def)
    show ?thesis using transition_model.sound [OF v] m g o [folded TransitionV1_json_def] unfolding RTransition record_json.simps
      by (simp add: read_record_def sound_json_def) (simp add: TransitionV1_json_def o)
  next
    case (RBoundary b)
    with assms have v: "DecisionBoundaryV1_valid b" by simp
    note m = boundary_model.read_back [OF v]
    have g: "dict_get (loaded (normal (DecisionBoundaryV1_json b))) ''record_type'' = Some (LStr (ustr ''decision_boundary''))"
        "dict_get (loaded (normal (DecisionBoundaryV1_json b))) ''schema_version'' = Some (LInt 1)"
      unfolding DecisionBoundaryV1_json_def by (simp_all add: dict_get_loaded jtext_def)
    show ?thesis using boundary_model.sound [OF v] m g unfolding RBoundary record_json.simps
      by (simp add: read_record_def sound_json_def) (simp add: DecisionBoundaryV1_json_def o)
  next
    case (RMarker b)
    with assms have v: "IncompleteMarkerV1_valid b" by simp
    note m = marker_model.read_back [OF v]
    have g: "dict_get (loaded (normal (IncompleteMarkerV1_json b))) ''record_type'' = Some (LStr (ustr ''incomplete''))"
        "dict_get (loaded (normal (IncompleteMarkerV1_json b))) ''schema_version'' = Some (LInt 1)"
      unfolding IncompleteMarkerV1_json_def by (simp_all add: dict_get_loaded jtext_def)
    show ?thesis using marker_model.sound [OF v] m g unfolding RMarker record_json.simps
      by (simp add: read_record_def sound_json_def) (simp add: IncompleteMarkerV1_json_def o)
  qed
  then show "sound_json (record_json r)" "read_record (loaded (normal (record_json r))) = Inr r"
    "dict_get (loaded (normal (record_json r))) ''schema_version'' = Some (LInt 1)" by blast+
qed

lemma check_versions_one: "list_all (\<lambda>x. snd (snd x) = Some (LInt 1)) vs \<Longrightarrow> check_versions vs = Inr ()"
proof (induction vs)
  case (Cons x vs)
  then show ?case by (cases x) simp
qed simp

lemma emap_read_records: "list_all record_valid rs \<Longrightarrow> emap read_record (map (\<lambda>r. loaded (normal (record_json r))) rs) = Inr rs"
  by (induction rs) (simp_all add: record_read)

lemma read_bundle_export:
  assumes "TrajectoryManifestV1_valid m" "list_all record_valid rs" "within_limits d l m rs"
    "mset names = mset [''manifest.json'', ''trajectory.jsonl'']"
  shows "read_bundle d (json_line (TrajectoryManifestV1_json m)) (concat (map (\<lambda>r. json_line (record_json r)) rs)) names l = Inr (m, rs)"
proof -
  let ?mj = "TrajectoryManifestV1_json m" and ?js = "map record_json rs"
  let ?vs = "map (\<lambda>j. loaded (normal j)) ?js"
  have tb: "concat (map (\<lambda>r. json_line (record_json r)) rs) = concat (map json_line ?js)" by (simp add: comp_def)
  have ms: "sound_json ?mj" by (rule manifest_model.sound [OF assms(1)])
  have js: "list_all (\<lambda>j. sound_json j \<and> fits d l j) ?js"
    using assms(2,3) by (auto simp: list_all_iff within_limits_def record_read)
  have vm: "dict_get (loaded (normal ?mj)) ''schema_version'' = Some (LInt 1)"
    unfolding TrajectoryManifestV1_json_def by (simp add: dict_get_loaded)
  have v: "check_versions ((''manifest.json'', None, dict_get (loaded (normal ?mj)) ''schema_version'') #
      map (\<lambda>(i, v). (''trajectory.jsonl'', Some (int i), dict_get v ''schema_version'')) (zip [1..<length ?vs + 1] ?vs)) = Inr ()"
    using assms(2) by (intro check_versions_one) (auto simp: vm list_all_iff record_read(3) dest!: set_zip_rightD)
  have model: "read_model TrajectoryManifestV1_of (loaded (normal ?mj)) = Inr m"
    by (rule manifest_model.read_back [OF assms(1)])
  have recs: "emap read_record ?vs = Inr rs" using emap_read_records [OF assms(2)] by (simp add: comp_def)
  have raw: "map raw_line ?vs = map json_line ?js"
    using js by (auto simp: list_all_iff sound_json_def raw_line_loaded)
  have lines: "list_ex (\<lambda>x. last x \<noteq> 10) (map json_line ?js) = False" by (simp add: list_ex_iff json_line_def)
  have lim: "\<not> bl_max_manifest_bytes l < length (json_line ?mj)" "\<not> bl_max_trajectory_bytes l < length (concat (map json_line ?js))"
      "\<not> bl_max_records l < length (map json_line ?js)" "fits d l ?mj"
    using assms(3) unfolding within_limits_def by (simp_all add: comp_def)
  show ?thesis
    unfolding tb read_bundle_def split_json_lines parse_file_line [OF ms lim(4)] parse_lines_json [OF js] ebind.simps v model recs raw lines
    using assms(4) lim vm by simp
qed

end
