(* ===== verification/Marl_Properties.thy ===== *)
theory Marl_Properties
  imports Marl_Bundle
begin

text \<open>
  What the trajectory bundles guarantee: the export of an episode verifies with the verdict of its status, a
  verified bundle holds a valid, authentic and reproducible episode, which its hash identifies, every verdict is
  well formed, rewards are exact and credits add up to them. The theorems are applied to \<open>example_episode\<close>,
  an episode of one decision.
\<close>

lemma unique_refs_keys: "ref_key ` set (unique_refs refs) = ref_key ` set refs"
  by (force simp: unique_refs_def ref_key_def)

lemma unique_refs_set: "set (unique_refs refs) = set refs"
proof -
  have "inj ref_key" by (auto simp: inj_on_def ref_key_def)
  then show ?thesis using unique_refs_keys [of refs] by (simp add: inj_image_eq_iff)
qed

lemma manifest_valid:
  assumes "MarlEpisodeV1_valid e"
  shows "TrajectoryManifestV1_valid (manifest_of e)"
proof -
  have t: "TransitionV1_valid t" if "t \<in> set (me_transitions e)" for t
    using assms that by (simp add: MarlEpisodeV1_valid_def list_all_iff)
  have "list_all ImplementationRefV1_valid (unique_refs refs)" if "\<And>r. r \<in> set refs \<Longrightarrow> ImplementationRefV1_valid r" for refs
    using that by (simp add: list_all_iff unique_refs_set)
  moreover have "ImplementationRefV1_valid r" if "r \<in> set (observation_refs e)" for r
    using that t by (auto simp: observation_refs_def TransitionV1_valid_def DecisionBoundaryV1_valid_def MarlObservationV1_valid_def)
  moreover have "ImplementationRefV1_valid r" if "r \<in> set (reward_refs e)" for r
    using that t by (fastforce simp: reward_refs_def TransitionV1_valid_def RewardComponentV1_valid_def list_all_iff)
  moreover have "ImplementationRefV1_valid r" if "r \<in> set (credit_refs e)" for r
    using that t by (fastforce simp: credit_refs_def TransitionV1_valid_def CreditAssignmentV1_valid_def list_all_iff)
  moreover have "ImplementationRefV1_valid r" if "r \<in> set (coordinator_refs e)" for r
    using that t by (auto simp: coordinator_refs_def TransitionV1_valid_def DecisionBoundaryV1_valid_def CoordinatorDecisionV1_valid_def)
  ultimately show ?thesis using assms
    by (simp add: TrajectoryManifestV1_valid_def manifest_of_def MarlEpisodeV1_valid_def episode_hash_def)
qed

lemma records_valid:
  assumes "MarlEpisodeV1_valid e"
  shows "list_all record_valid (episode_records e)"
proof -
  have "list_all TransitionV1_valid (me_transitions e)" "pred_option DecisionBoundaryV1_valid (me_pending_boundary e)"
    "pred_option IncompleteMarkerV1_valid (me_incomplete_marker e)"
    using assms by (simp_all add: MarlEpisodeV1_valid_def)
  then show ?thesis
    by (cases "me_pending_boundary e"; cases "me_incomplete_marker e") (simp_all add: episode_records_def option_list_def list_all_iff)
qed

lemma records_in:
  "transitions_in (episode_records e) = me_transitions e"
  "boundaries_in (episode_records e) = option_list (me_pending_boundary e)"
  "markers_in (episode_records e) = option_list (me_incomplete_marker e)"
proof -
  have "transitions_in (map RTransition ts @ rs) = ts @ transitions_in rs"
    "boundaries_in (map RTransition ts @ rs) = boundaries_in rs"
    "markers_in (map RTransition ts @ rs) = markers_in rs" for ts rs
    by (induction ts) simp_all
  then show "transitions_in (episode_records e) = me_transitions e"
    "boundaries_in (episode_records e) = option_list (me_pending_boundary e)"
    "markers_in (episode_records e) = option_list (me_incomplete_marker e)"
    by (simp_all add: episode_records_def option_list_def split: option.splits)
qed

lemma export_total:
  "MarlEpisodeV1_valid e \<Longrightarrow> me_status e \<noteq> OPEN \<Longrightarrow>
    export_episode e = Inr \<lparr>tb_manifest = json_line (TrajectoryManifestV1_json (manifest_of e)), tb_trajectory = trajectory_of e\<rparr>"
  by (simp add: export_episode_def validated_def manifest_valid)

definition one_environment :: "MarlEpisodeV1 \<Rightarrow> bool" where
  "one_environment e = list_all (\<lambda>t. mo_environment_version (db_observation (tr_boundary t)) = me_environment_version e \<and>
     mo_environment_version (tr_post_observation t) = me_environment_version e) (me_transitions e)"

text \<open>What an incomplete episode must satisfy besides: its boundary is authentic, next and its own, and so is its marker.\<close>

definition pending_ok :: "MarlEpisodeV1 \<Rightarrow> bool" where
  "pending_ok e = (pred_option (\<lambda>m. im_episode_id m = me_episode_id e) (me_incomplete_marker e) \<and>
     pred_option (\<lambda>b. db_episode_id b = me_episode_id e \<and> db_decision_index b = int (length (me_transitions e)) \<and>
       list_all fst (incomplete_checks b (me_incomplete_marker e))) (me_pending_boundary e) \<and>
     (me_pending_boundary e \<noteq> None \<longrightarrow> me_incomplete_marker e \<noteq> None))"

lemma option_hd_list [simp]: "option_hd (option_list x) = x"
  by (cases x) (simp_all add: option_hd_def option_list_def)

text \<open>What the verification requires before the replay, and with the replay.\<close>

definition coherent :: "nat list \<Rightarrow> TrajectoryManifestV1 \<Rightarrow> trajectory_record list \<Rightarrow> MarlEpisodeV1 \<Rightarrow> bool" where
  "coherent bytes m rs e = (tm_trajectory_sha256 m = sha_of_bytes bytes \<and> tm_trajectory_byte_length m = int (length bytes) \<and>
     tm_record_count m = int (length rs) \<and> \<not> order_violated rs \<and> list_all authentic (transitions_in rs) \<and>
     check_pending m bytes rs = Inr () \<and> list_all (\<lambda>r. record_episode r = tm_episode_id m) rs \<and>
     list_all (\<lambda>t. \<not> wrong_environment m t) (transitions_in rs) \<and> bundle_episode m rs = Some e \<and>
     episode_hash e = tm_episode_hash m)"

definition intact :: "ImplementationRegistry \<Rightarrow> nat list \<Rightarrow> TrajectoryManifestV1 \<Rightarrow> trajectory_record list \<Rightarrow> MarlEpisodeV1 \<Rightarrow> bool" where
  "intact reg bytes m rs e = (coherent bytes m rs e \<and> list_all (reproduced reg) (transitions_in rs))"

lemma accepted_intact: "accepted reg bytes m rs e \<longleftrightarrow> intact reg bytes m rs e \<and> me_status e \<noteq> INCOMPLETE"
  by (auto simp: accepted_def intact_def coherent_def)

lemma check_bundle_coherent:
  assumes "coherent bytes m rs e"
  shows "check_bundle reg bytes m rs = ebind (check_replay reg (episode_context m bytes e) 0 (transitions_in rs)) (\<lambda>_.
    if me_status e = INCOMPLETE
    then Inl (Verdict (bundle_failure EPISODE_INCOMPLETE STAGE_COMPLETENESS ''trajectory.jsonl''
       ''trajectory is authentic but episode is incomplete''
       ((episode_context m bytes e)\<lparr>fc_checked := int (length rs), fc_line := Some (int (length rs)),
          fc_integrity_valid := True, fc_outcome := MARL_INCOMPLETE\<rparr>)))
    else Inr (verified m bytes rs e))"
proof -
  have "check_hashes c i (transitions_in rs) = Inr ()" for c i
    using assms by (simp add: coherent_def check_hashes_Inr)
  moreover have "\<not> list_ex (\<lambda>r. record_episode r \<noteq> tm_episode_id m) rs" "\<not> list_ex (wrong_environment m) (transitions_in rs)"
    using assms by (auto simp: coherent_def list_all_iff list_ex_iff)
  ultimately show ?thesis using assms by (simp add: check_bundle_def coherent_def)
qed

lemma check_bundle_incomplete:
  assumes "intact reg bytes m rs e" "me_status e = INCOMPLETE"
  shows "check_bundle reg bytes m rs = Inl (Verdict (bundle_failure EPISODE_INCOMPLETE STAGE_COMPLETENESS ''trajectory.jsonl''
     ''trajectory is authentic but episode is incomplete''
     ((episode_context m bytes e)\<lparr>fc_checked := int (length rs), fc_line := Some (int (length rs)),
        fc_integrity_valid := True, fc_outcome := MARL_INCOMPLETE\<rparr>)))"
proof -
  have "check_replay reg c i (transitions_in rs) = Inr ()" for c i
    using assms(1) by (simp add: intact_def check_replay_Inr)
  with assms check_bundle_coherent [of bytes m rs e reg] show ?thesis by (simp add: intact_def)
qed

lemma export_coherent:
  assumes "MarlEpisodeV1_valid e" "me_transitions e \<noteq> []" "one_environment e" "pending_ok e"
    "list_all authentic (me_transitions e)"
  shows "coherent (trajectory_of e) (manifest_of e) (episode_records e) e"
proof -
  let ?o = "db_observation (tr_boundary (hd (me_transitions e)))"
  have "me_workspace_id e = mo_workspace_id ?o" "me_session_id e = mo_session_id ?o"
    using assms(1,2) by (cases "me_transitions e"; simp add: MarlEpisodeV1_valid_def in_scope_def)+
  then have "\<lparr>me_episode_id = me_episode_id e, me_workspace_id = mo_workspace_id ?o, me_session_id = mo_session_id ?o,
      me_environment_version = me_environment_version e, me_code_identity = me_code_identity e, me_status = me_status e,
      me_transitions = me_transitions e, me_pending_boundary = me_pending_boundary e, me_incomplete_marker = me_incomplete_marker e\<rparr> = e"
    by (intro MarlEpisodeV1.equality) simp_all
  then have ep: "bundle_episode (manifest_of e) (episode_records e) = Some e"
    using assms(1,2) by (simp add: bundle_episode_def records_in validated_def manifest_of_def)
  have idx: "map tr_decision_index (me_transitions e) = map int [0..<length (me_transitions e)]"
    and own: "list_all (\<lambda>t. tr_episode_id t = me_episode_id e) (me_transitions e)"
    using assms(1) by (simp_all add: MarlEpisodeV1_valid_def)
  have ord: "\<not> order_violated (episode_records e)"
    using idx assms(4) unfolding order_violated_def records_in pending_ok_def
    by (cases "me_pending_boundary e"; cases "me_incomplete_marker e") (simp_all add: episode_records_def option_list_def)
  have pend: "check_pending (manifest_of e) (trajectory_of e) (episode_records e) = Inr ()"
    using assms(4) by (auto simp: check_pending_def records_in pending_ok_def simp flip: first_error_None split: option.splits)
  have ids: "list_all (\<lambda>r. record_episode r = me_episode_id e) (episode_records e)"
    using own assms(4) unfolding pending_ok_def
    by (cases "me_pending_boundary e"; cases "me_incomplete_marker e") (simp_all add: episode_records_def option_list_def list_all_iff)
  have env: "list_all (\<lambda>t. \<not> wrong_environment (manifest_of e) t) (me_transitions e)"
    using assms(3) by (simp add: one_environment_def wrong_environment_def manifest_of_def)
  show ?thesis unfolding coherent_def records_in
    using assms(5) ep ord pend ids env by (simp add: manifest_of_def)
qed

lemma export_read:
  assumes "MarlEpisodeV1_valid e" "within_limits d l (manifest_of e) (episode_records e)"
    "mset names = mset [''manifest.json'', ''trajectory.jsonl'']"
  shows "read_bundle d (json_line (TrajectoryManifestV1_json (manifest_of e))) (trajectory_of e) names l = Inr (manifest_of e, episode_records e)"
  using read_bundle_export [OF manifest_valid [OF assms(1)] records_valid [OF assms(1)] assms(2,3)] by (simp add: trajectory_of_def)

lemma export_then_verify:
  assumes "MarlEpisodeV1_valid e" "me_transitions e \<noteq> []" "one_environment e" "pending_ok e"
    "list_all authentic (me_transitions e)" "list_all (reproduced reg) (me_transitions e)"
    "within_limits d l (manifest_of e) (episode_records e)" "mset names = mset [''manifest.json'', ''trajectory.jsonl'']"
  shows "verify_bundle d (json_line (TrajectoryManifestV1_json (manifest_of e))) (trajectory_of e) reg names l = Inr
    (if me_status e \<noteq> INCOMPLETE then verified (manifest_of e) (trajectory_of e) (episode_records e) e
     else bundle_failure EPISODE_INCOMPLETE STAGE_COMPLETENESS ''trajectory.jsonl''
       ''trajectory is authentic but episode is incomplete''
       ((episode_context (manifest_of e) (trajectory_of e) e)\<lparr>fc_checked := int (length (episode_records e)),
          fc_line := Some (int (length (episode_records e))), fc_integrity_valid := True, fc_outcome := MARL_INCOMPLETE\<rparr>))"
proof -
  note r = export_read [OF assms(1,7,8)]
  have i: "intact reg (trajectory_of e) (manifest_of e) (episode_records e) e"
    using export_coherent [OF assms(1-5)] assms(6) by (simp add: intact_def records_in)
  show ?thesis
  proof (cases "me_status e = INCOMPLETE")
    case True
    then show ?thesis using r check_bundle_incomplete [OF i] by (simp add: verify_bundle_def)
  next
    case False
    with i have "accepted reg (trajectory_of e) (manifest_of e) (episode_records e) e" by (simp add: accepted_intact)
    from verify_bundle_Inr [OF r this] False show ?thesis by simp
  qed
qed

text \<open>What a registered function raises first, of a class that the replay does not catch, escapes from the verification.\<close>

lemma function_exception_escapes:
  assumes "MarlEpisodeV1_valid e" "me_transitions e = t # ts" "one_environment e" "pending_ok e"
    "list_all authentic (me_transitions e)" "replay_transition reg t = Some (OtherError x)"
    "within_limits d l (manifest_of e) (episode_records e)"
  shows "verify_bundle d (json_line (TrajectoryManifestV1_json (manifest_of e))) (trajectory_of e) reg
    [''manifest.json'', ''trajectory.jsonl''] l = Inl (OtherError x)"
  using check_bundle_coherent [OF export_coherent [OF assms(1) _ assms(3-5)]] assms(2,6)
  by (simp add: verify_bundle_def export_read [OF assms(1,7) refl] records_in replay_end_def)

text \<open>A manifest of opening brackets, one more than there are levels of recursion, ends in an exception.\<close>

lemma deep_manifest_escapes:
  assumes "Suc (in_levels d) \<le> bl_max_manifest_bytes l" "length tb \<le> bl_max_trajectory_bytes l"
  shows "verify_bundle d (replicate (Suc (in_levels d)) 91) tb reg [''manifest.json'', ''trajectory.jsonl''] l = Inl recursion_error"
proof -
  have "utf8_decode (replicate n 91) = Some (replicate n 91)" for n by (induction n) simp_all
  then have "parse_file d (replicate (Suc (in_levels d)) 91) ''manifest.json'' l = Inl (Escapes recursion_error)"
    using json_loads_deep [of d "[]"] by (simp add: parse_file_def starts_def del: replicate_Suc)
  then show ?thesis using assms by (simp add: verify_bundle_def read_bundle_def del: replicate_Suc)
qed

text \<open>A bundle without a transition fails, whatever its status.\<close>

lemma no_transitions_fail:
  assumes "read_bundle d mb tb names l = Inr (m, rs)" "transitions_in rs = []"
  shows "\<exists>v. verify_bundle d mb tb reg names l = Inr v \<and> rv_outcome v = MARL_FAILED"
proof -
  have n: "bundle_episode m rs = None" using assms(2) by (simp add: bundle_episode_def)
  show ?thesis unfolding verify_bundle_def assms(1) ebind.simps fst_conv snd_conv check_bundle_def n
    by (auto simp: assms(2) bundle_failure_def digest_context_def bundle_context_def no_context_def check_pending_def
        split: option.splits)
qed

text \<open>The episode a bundle holds.\<close>

definition episode_read :: "interpreter \<Rightarrow> nat list \<Rightarrow> nat list \<Rightarrow> string list \<Rightarrow> BundleLimits \<Rightarrow> MarlEpisodeV1 option" where
  "episode_read d manifest_bytes trajectory_bytes names l =
     (case read_bundle d manifest_bytes trajectory_bytes names l of Inl v \<Rightarrow> None | Inr mrs \<Rightarrow> bundle_episode (fst mrs) (snd mrs))"

text \<open>What the hash of an episode is computed from, with what the hashes in it are.\<close>

definition episode_preimages :: "MarlEpisodeV1 \<Rightarrow> nat list list" where
  "episode_preimages e = canonical_bytes (jobj [
     (''code_identity'', JStr (me_code_identity e)),
     (''environment_version'', JStr (me_environment_version e)),
     (''episode_id'', juuid (me_episode_id e)),
     (''incomplete_hash'', jopt JStr (map_option im_incomplete_hash (me_incomplete_marker e))),
     (''pending_boundary_hash'', jopt JStr (map_option db_boundary_hash (me_pending_boundary e))),
     (''schema_version'', JInt 1),
     (''session_id'', juuid (me_session_id e)),
     (''status'', jtext (episode_status_value (me_status e))),
     (''transition_hashes'', jtexts (map tr_transition_hash (me_transitions e))),
     (''workspace_id'', juuid (me_workspace_id e))]) # map transition_preimage (me_transitions e)"

lemma only_transitions: "boundaries_in rs = [] \<Longrightarrow> markers_in rs = [] \<Longrightarrow> rs = map RTransition (transitions_in rs)"
proof (induction rs)
  case (Cons r rs)
  then show ?case by (cases r) auto
qed simp

lemma option_hd_None [simp]: "option_hd xs = None \<longleftrightarrow> xs = []"
  by (simp add: option_hd_def)

lemma accepted_episode:
  assumes "accepted reg tb m rs e"
  shows "MarlEpisodeV1_valid e" "me_transitions e = transitions_in rs" "rs = map RTransition (me_transitions e)"
    "me_pending_boundary e = None" "me_incomplete_marker e = None" "me_episode_id e = tm_episode_id m"
    "me_status e = tm_episode_status m" "me_environment_version e = tm_environment_version m" "one_environment e"
    "me_code_identity e = tm_code_identity m"
proof -
  from assms have b: "bundle_episode m rs = Some e" and o: "\<not> order_violated rs" and s: "me_status e \<noteq> INCOMPLETE"
    and w: "list_all (\<lambda>t. \<not> wrong_environment m t) (transitions_in rs)"
    by (simp_all add: accepted_def)
  from b have v: "MarlEpisodeV1_valid e" and t: "me_transitions e = transitions_in rs"
    and p: "me_pending_boundary e = option_hd (boundaries_in rs)" "me_incomplete_marker e = option_hd (markers_in rs)"
    and f: "me_episode_id e = tm_episode_id m" "me_status e = tm_episode_status m" "me_environment_version e = tm_environment_version m"
      "me_code_identity e = tm_code_identity m"
    by (auto simp: bundle_episode_def validated_Some split: if_splits)
  have mk: "me_incomplete_marker e = None" using v s by (cases "me_status e") (simp_all add: MarlEpisodeV1_valid_def)
  then have "markers_in rs = []" using p by simp
  moreover from this o have "boundaries_in rs = []" by (auto simp: order_violated_def Let_def)
  ultimately show "MarlEpisodeV1_valid e" "me_transitions e = transitions_in rs" "rs = map RTransition (me_transitions e)"
    "me_pending_boundary e = None" "me_incomplete_marker e = None" "me_episode_id e = tm_episode_id m"
    "me_status e = tm_episode_status m" "me_environment_version e = tm_environment_version m" "one_environment e"
    "me_code_identity e = tm_code_identity m"
    using v t p f mk w only_transitions [of rs]
    by (simp_all add: one_environment_def wrong_environment_def)
qed

lemma verified_read:
  assumes "verify_bundle d mb tb reg names l = Inr v" "rv_outcome v = MARL_VERIFIED"
  obtains m rs e where "episode_read d mb tb names l = Some e" "accepted reg tb m rs e" "read_from mb tb m rs"
    "rv_actual_episode_hash v = Some (episode_hash e)"
  using assms
proof (rule verify_bundle_verified)
  fix m rs e assume "read_bundle d mb tb names l = Inr (m, rs)" "accepted reg tb m rs e" "v = verified m tb rs e"
  then show ?thesis by (intro that [of e m rs]) (simp_all add: episode_read_def accepted_def verified_def read_bundle_read)
qed

text \<open>C4. A bundle that verifies holds a valid episode that is not incomplete: its lines are canonical and are the
  transitions of the episode, the digests of the manifest are theirs, in every transition the hash of each model
  (\<open>authentic\<close> lists them: snapshots, sources, features, the lists of the two, observations, actions, decision,
  boundary, rewards, credits, the transition) is that of the form of the model, and the registered implementations
  return, for the features, the decision and the observed rewards, the values that the transitions hold. The hashes
  by which a decision or an action refers to another model are not compared.\<close>

theorem verified_bundle_sound:
  assumes "verify_bundle d mb tb reg names l = Inr v" "rv_outcome v = MARL_VERIFIED"
  shows "\<exists>m e. episode_read d mb tb names l = Some e \<and> MarlEpisodeV1_valid e \<and> me_status e \<noteq> INCOMPLETE \<and>
    read_from mb tb m (map RTransition (me_transitions e)) \<and> tm_trajectory_sha256 m = sha_of_bytes tb \<and>
    tm_episode_hash m = episode_hash e \<and> me_episode_id e = tm_episode_id m \<and> one_environment e \<and>
    list_all (\<lambda>t. authentic t \<and> reproduced reg t) (me_transitions e)"
  using assms
proof (rule verified_read)
  fix m rs e
  assume r: "episode_read d mb tb names l = Some e" "read_from mb tb m rs" and a: "accepted reg tb m rs e"
  note s = accepted_episode [OF a]
  have "list_all (\<lambda>t. authentic t \<and> reproduced reg t) (me_transitions e)"
    using a s(2) by (simp add: accepted_def list_all_iff)
  with r a s show ?thesis by (metis (no_types, lifting) accepted_def)
qed

lemma juuid_inject [simp]: "juuid u = juuid v \<longleftrightarrow> u = v"
proof
  assume "juuid u = juuid v"
  then have "uuid_of (juuid u) = uuid_of (juuid v)" by simp
  then show "u = v" by (simp add: juuid_def)
qed simp

lemma episode_status_value_inject [simp]: "episode_status_value s = episode_status_value t \<longleftrightarrow> s = t"
  by (cases s; cases t) simp_all

lemma jobj_member:
  assumes "normal (jobj a) = normal (jobj b)" "distinct (map fst a)" "distinct (map fst b)"
  shows "map_option normal (map_of a n) = map_option normal (map_of b n)"
proof -
  have d: "distinct (map fst (map (map_prod ustr (\<lambda>v. v)) ms))" if "distinct (map fst ms)" for ms :: "(string \<times> json) list"
    using that by (simp add: comp_def distinct_map inj_on_def)
  have "map_option normal (map_of (map (map_prod ustr (\<lambda>v. v)) a) (ustr n)) =
      map_option normal (map_of (map (map_prod ustr (\<lambda>v. v)) b) (ustr n))"
    using assms by (intro normal_object_map d) (simp_all add: jobj_def)
  then show ?thesis by (simp add: map_of_ustr option.map_comp comp_def)
qed

lemma juuid_normal: "normal (juuid u) = juuid u"
  by (simp add: juuid_def)

lemma jtexts_normal: "normal (jtexts ts) = jtexts ts"
  by (simp add: jtexts_def)

lemma jtexts_inject: "jtexts ts = jtexts us \<longleftrightarrow> ts = us"
  by (simp add: jtexts_def inj_map_eq_map inj_def)

lemma episodes_determined:
  assumes "MarlEpisodeV1_valid d" "MarlEpisodeV1_valid e" "list_all authentic (me_transitions d)" "list_all authentic (me_transitions e)"
    and none: "me_pending_boundary d = None" "me_incomplete_marker d = None" "me_pending_boundary e = None" "me_incomplete_marker e = None"
    and "episode_hash d = episode_hash e" "\<not> digest_clash (episode_preimages d) (episode_preimages e)"
  shows "d = e"
proof -
  let ?m = "\<lambda>e. [
     (''code_identity'', JStr (me_code_identity e)),
     (''environment_version'', JStr (me_environment_version e)),
     (''episode_id'', juuid (me_episode_id e)),
     (''incomplete_hash'', jopt JStr (map_option im_incomplete_hash (me_incomplete_marker e))),
     (''pending_boundary_hash'', jopt JStr (map_option db_boundary_hash (me_pending_boundary e))),
     (''schema_version'', JInt 1),
     (''session_id'', juuid (me_session_id e)),
     (''status'', jtext (episode_status_value (me_status e))),
     (''transition_hashes'', jtexts (map tr_transition_hash (me_transitions e))),
     (''workspace_id'', juuid (me_workspace_id e))]"
  have sc: "scalars (jobj (?m x))" if "MarlEpisodeV1_valid x" "me_pending_boundary x = None" "me_incomplete_marker x = None" for x
  proof -
    have "list_all hash_text (map tr_transition_hash (me_transitions x))" "ident_text (me_environment_version x)" "hash_text (me_code_identity x)"
      using that by (auto simp: MarlEpisodeV1_valid_def TransitionV1_valid_def list_all_iff)
    then have "sound_json (jobj (?m x))" using that by (simp add: sounds)
    then show ?thesis by (simp add: sound_json_def)
  qed
  have "normal (jobj (?m d)) = normal (jobj (?m e))"
    using assms(9,10) by (intro canonical_hash_eq sc assms(1,2) none) (auto simp: episode_hash_def digest_clash_def episode_preimages_def)
  then have k: "map_option normal (map_of (?m d) n) = map_option normal (map_of (?m e) n)" for n
    by (rule jobj_member) simp_all
  have th: "map tr_transition_hash (me_transitions d) = map tr_transition_hash (me_transitions e)"
    using k [of "''transition_hashes''"] by (simp add: jtexts_normal jtexts_inject)
  have "me_transitions d = me_transitions e"
    using assms(1-4,10) th by (intro transitions_determined) (auto simp: MarlEpisodeV1_valid_def digest_clash_def episode_preimages_def)
  then show ?thesis
    using k [of "''code_identity''"] k [of "''environment_version''"] k [of "''episode_id''"] k [of "''session_id''"] k [of "''status''"]
      k [of "''workspace_id''"] none
    by (intro MarlEpisodeV1.equality) (simp_all add: juuid_normal jtext_def)
qed

subsection \<open>Rewards and credits\<close>

lemma sum_by_key:
  fixes f :: "'a \<Rightarrow> rat"
  assumes "distinct ks" "key ` set xs \<subseteq> set ks"
  shows "sum_list (map f xs) = sum_list (map (\<lambda>k. sum_list (map f (filter (\<lambda>x. key x = k) xs))) ks)"
  using assms
proof (induction xs)
  case (Cons x xs)
  have "sum_list (map (\<lambda>k. sum_list (map f (filter (\<lambda>y. key y = k) (x # xs)))) ks) =
      sum_list (map (\<lambda>k. (if k = key x then f x else 0) + sum_list (map f (filter (\<lambda>y. key y = k) xs))) ks)"
    by (intro arg_cong [where f = sum_list] map_cong) auto
  also have "\<dots> = sum_list (map (\<lambda>k. if k = key x then f x else 0) ks) + sum_list (map f xs)"
    using Cons by (simp add: sum_list_addf)
  also have "sum_list (map (\<lambda>k. if k = key x then f x else 0) ks) = f x"
    using Cons.prems by (simp add: sum_list_distinct_conv_sum_set)
  finally show ?case by simp
qed simp

text \<open>The rewards of a transition as they are credited.\<close>

definition total_reward :: "TransitionV1 \<Rightarrow> rat" where
  "total_reward t = sum_list (map (\<lambda>c. fraction (rc_reward_value c)) (tr_rewards t))"

definition total_credit :: "TransitionV1 \<Rightarrow> rat" where
  "total_credit t = sum_list (map (\<lambda>k. fraction (ca_credited_value k)) (tr_credits t))"

lemma credits_total:
  assumes "TransitionV1_valid t"
  shows "total_credit t = total_reward t"
proof -
  have d: "distinct (map rc_component_id (tr_rewards t))" and c: "credits_conserved (tr_rewards t) (tr_credits t)"
    using assms by (simp_all add: TransitionV1_valid_def)
  have "ca_reward_component_id ` set (tr_credits t) \<subseteq> set (map rc_component_id (tr_rewards t))"
  proof (rule image_subsetI)
    fix k assume "k \<in> set (tr_credits t)"
    then obtain r where "r \<in> set (tr_rewards t)" "rc_component_id r = ca_reward_component_id k"
      using c by (auto simp: credits_conserved_def list_all_iff list_ex_iff)
    then show "ca_reward_component_id k \<in> set (map rc_component_id (tr_rewards t))" by force
  qed
  from sum_by_key [OF d this]
  have "total_credit t = sum_list (map (\<lambda>c. sum_list (map (\<lambda>k. fraction (ca_credited_value k)) (credits_of (tr_credits t) c))) (tr_rewards t))"
    by (simp add: total_credit_def credits_of_def comp_def)
  also have "\<dots> = total_reward t"
    unfolding total_reward_def using c
    by (intro arg_cong [where f = sum_list] map_cong) (auto simp: credits_conserved_def list_all_iff Let_def)
  finally show ?thesis .
qed

text \<open>The value a reward has, from the sign of its component and from what was measured.\<close>

definition measured_reward :: "rat \<Rightarrow> RewardInputV1 \<Rightarrow> rat" where
  "measured_reward sign inp = (case (ri_status inp, ri_pre_value inp, ri_post_value inp) of
     (OBSERVED, Some p, Some q) \<Rightarrow> sign * (fraction q - fraction p) | _ \<Rightarrow> 0)"

lemma reward_component_made:
  assumes "reward_component ep i k ident inp (metric, version, impl, dir) = Inr c"
  shows "RewardComponentV1_valid c"
    "rc_component_hash c = own_hash ''component_hash'' (RewardComponentV1_json c)"
    "fraction (rc_reward_value c) = measured_reward (if dir = LOWER_BETTER then - 1 else 1) inp"
    "c = \<lparr>rc_component_id = ident, rc_episode_id = ep, rc_decision_index = i,
       rc_ordinal = int k, rc_metric_id = metric, rc_metric_version = version,
       rc_reward_implementation = \<lparr>ir_implementation_id = impl, ir_implementation_version = ustr ''1''\<rparr>,
       rc_direction = dir, rc_pre_metric_value = ri_pre_value inp, rc_post_metric_value = ri_post_value inp,
       rc_reward_value = rc_reward_value c, rc_status = ri_status inp, rc_neutral_reason = ri_neutral_reason inp,
       rc_source_hashes = ri_source_hashes inp, rc_component_hash = rc_component_hash c\<rparr>"
proof -
  let ?mk = "\<lambda>v. \<lparr>rc_component_id = ident, rc_episode_id = ep, rc_decision_index = i,
              rc_ordinal = int k, rc_metric_id = metric, rc_metric_version = version,
              rc_reward_implementation = \<lparr>ir_implementation_id = impl, ir_implementation_version = ustr ''1''\<rparr>,
              rc_direction = dir, rc_pre_metric_value = ri_pre_value inp, rc_post_metric_value = ri_post_value inp,
              rc_reward_value = v, rc_status = ri_status inp, rc_neutral_reason = ri_neutral_reason inp,
              rc_source_hashes = ri_source_hashes inp, rc_component_hash = zero_hash\<rparr>"
  from assms obtain v where v: "(if ri_status inp = OBSERVED then exact_delta (ri_pre_value inp) (ri_post_value inp) dir else Inr rational_zero) = Inr v"
    and c: "RewardComponentV1_create (?mk v) = Some c"
    by (auto simp: reward_component_def ebind_eq_Inr_iff split: option.splits)
  from c [unfolded RewardComponentV1_create_def] have ok: "RewardComponentV1_valid (?mk v)"
    and c: "c = (?mk v)\<lparr>rc_component_hash := own_hash ''component_hash'' (RewardComponentV1_json (?mk v))\<rparr>"
    by (auto simp: validated_Some)
  have "fraction rational_zero = 0" by (simp add: fraction_def rational_zero_def Zero_rat_def)
  then have "fraction v = measured_reward (if dir = LOWER_BETTER then - 1 else 1) inp" using v
    by (auto simp: measured_reward_def exact_delta_def Let_def split: if_splits option.splits RewardStatus.splits)
  then show "fraction (rc_reward_value c) = measured_reward (if dir = LOWER_BETTER then - 1 else 1) inp"
    unfolding c by simp
  show "RewardComponentV1_valid c" using ok unfolding c
    by (cases "ri_status inp = OBSERVED") (simp_all add: RewardComponentV1_valid_def RationalV1_valid_def rational_zero_def)
  show "rc_component_hash c = own_hash ''component_hash'' (RewardComponentV1_json c)"
    unfolding c own_hash_def RewardComponentV1_json_def jobj_def by simp
qed (use assms in \<open>auto simp: reward_component_def RewardComponentV1_create_def validated_Some ebind_eq_Inr_iff split: option.splits\<close>)

lemma upt_5: "[0..<5] = [0, 1, 2, 3, 4::nat]"
  by (simp add: upt_rec)

text \<open>C20. A reward vector has the five components of the specification in their order, with the metrics, the
  implementations, the directions, and the identifiers, values and sources of the inputs; each is valid and sealed.
  Its value is, exactly, what was measured after the decision less what was measured before, the other way round for
  the cost, and zero when the input was not observed.\<close>

theorem reward_vector_exact:
  assumes "build_reward_vector ep i ids inputs = Inr cs"
  shows "map rc_ordinal cs = [0, 1, 2, 3, 4] \<and> map rc_component_id cs = ids \<and>
    map rc_metric_id cs = map ustr [''ep-02'', ''dh-03'', ''dh-02'', ''cq-03'', ''ce-03''] \<and>
    map (\<lambda>c. ir_implementation_id (rc_reward_implementation c)) cs =
      map ustr [''agora.reward.provenance-delta'', ''agora.reward.attack-coverage-delta'',
        ''agora.reward.disagreement-retention-delta'', ''agora.reward.flip-distance-delta'', ''agora.reward.cost-delta''] \<and>
    map rc_direction cs = [HIGHER_BETTER, HIGHER_BETTER, NO_DIRECTION, HIGHER_BETTER, LOWER_BETTER] \<and>
    map rc_pre_metric_value cs = map ri_pre_value inputs \<and> map rc_post_metric_value cs = map ri_post_value inputs \<and>
    map rc_status cs = map ri_status inputs \<and> map rc_neutral_reason cs = map ri_neutral_reason inputs \<and>
    map rc_source_hashes cs = map ri_source_hashes inputs \<and>
    map (\<lambda>c. fraction (rc_reward_value c)) cs = map2 measured_reward [1, 1, 1, 1, - 1] inputs \<and>
    list_all (\<lambda>c. RewardComponentV1_valid c \<and> rc_episode_id c = ep \<and> rc_decision_index c = i \<and>
      rc_metric_version c = ustr ''1'' \<and> ir_implementation_version (rc_reward_implementation c) = ustr ''1'' \<and>
      rc_component_hash c = own_hash ''component_hash'' (RewardComponentV1_json c)) cs"
proof -
  have "length ids = 5" "length inputs = 5" using assms by (auto simp: build_reward_vector_def split: if_splits)
  then obtain a1 a2 a3 a4 a5 b1 b2 b3 b4 b5 where l: "ids = [a1, a2, a3, a4, a5]" "inputs = [b1, b2, b3, b4, b5]"
    by (auto simp: numeral_eq_Suc length_Suc_conv)
  from assms obtain c1 c2 c3 c4 c5 where cs: "cs = [c1, c2, c3, c4, c5]"
    and "reward_component ep i 0 a1 b1 (ustr ''ep-02'', ustr ''1'', ustr ''agora.reward.provenance-delta'', HIGHER_BETTER) = Inr c1"
      "reward_component ep i (Suc 0) a2 b2 (ustr ''dh-03'', ustr ''1'', ustr ''agora.reward.attack-coverage-delta'', HIGHER_BETTER) = Inr c2"
      "reward_component ep i 2 a3 b3 (ustr ''dh-02'', ustr ''1'', ustr ''agora.reward.disagreement-retention-delta'', NO_DIRECTION) = Inr c3"
      "reward_component ep i 3 a4 b4 (ustr ''cq-03'', ustr ''1'', ustr ''agora.reward.flip-distance-delta'', HIGHER_BETTER) = Inr c4"
      "reward_component ep i 4 a5 b5 (ustr ''ce-03'', ustr ''1'', ustr ''agora.reward.cost-delta'', LOWER_BETTER) = Inr c5"
    by (auto simp: build_reward_vector_def l REWARD_SPECS_def ebind_eq_Inr_iff upt_5)
  note m = this(2-6) [THEN reward_component_made(1)] this(2-6) [THEN reward_component_made(2)]
    and v = this(2-6) [THEN reward_component_made(3)] and e = this(2-6) [THEN reward_component_made(4)]
  have f: "rc_component_id c = ident" "rc_episode_id c = ep'" "rc_decision_index c = i'" "rc_ordinal c = k" "rc_metric_id c = metric"
      "rc_metric_version c = version" "rc_reward_implementation c = ref" "rc_direction c = dir" "rc_pre_metric_value c = p"
      "rc_post_metric_value c = q" "rc_status c = st" "rc_neutral_reason c = n" "rc_source_hashes c = sh"
    if "c = \<lparr>rc_component_id = ident, rc_episode_id = ep', rc_decision_index = i', rc_ordinal = k, rc_metric_id = metric,
       rc_metric_version = version, rc_reward_implementation = ref, rc_direction = dir, rc_pre_metric_value = p,
       rc_post_metric_value = q, rc_reward_value = rc_reward_value c, rc_status = st, rc_neutral_reason = n,
       rc_source_hashes = sh, rc_component_hash = rc_component_hash c\<rparr>" for c ident ep' i' k metric version ref dir p q st n sh
    by (subst that, simp)+
  show ?thesis unfolding cs l using m v
    by (simp add: f [OF e(1)] f [OF e(2)] f [OF e(3)] f [OF e(4)] f [OF e(5)])
qed

lemma verified_valid:
  assumes "read_bundle d mb tb names l = Inr (m, rs)"
  shows "ReplayVerificationV1_valid (verified m tb rs e)"
proof -
  have "hash_text (tm_trajectory_sha256 m) \<and> hash_text (tm_episode_hash m)"
    using read_bundle_read [OF assms] manifest_hashes by (simp add: read_from_def)
  then show ?thesis by (simp add: verified_def ReplayVerificationV1_valid_def episode_hash_def)
qed

subsection \<open>An episode of one decision\<close>

text \<open>The decision names the hash \<open>h\<close> as that of its observation; \<open>example_hash\<close> is the one it has.\<close>

definition example_ref :: ImplementationRefV1 where
  "example_ref = \<lparr>ir_implementation_id = ustr ''agora.core'', ir_implementation_version = ustr ''1''\<rparr>"

definition example_observation :: "int \<Rightarrow> bool \<Rightarrow> MarlObservationV1" where
  "example_observation i end =
     (let ob = \<lparr>mo_observation_id = 1, mo_episode_id = 2, mo_workspace_id = 3, mo_session_id = 4, mo_decision_index = i,
        mo_environment_version = ustr ''env-1'', mo_observation_implementation = example_ref, mo_ledger_seq = i,
        mo_ledger_event_id = None, mo_ledger_hash = zero_hash, mo_terminal = end,
        mo_terminal_reason = (if end then Some (ustr ''DONE'') else None), mo_sources = [], mo_features = [],
        mo_sources_hash = canonical_hash (jlist ObservationSourceV1_json []),
        mo_features_hash = canonical_hash (jlist ObservationFeatureV1_json []), mo_observation_hash = zero_hash\<rparr>
      in ob\<lparr>mo_observation_hash := own_hash ''observation_hash'' (MarlObservationV1_json ob)\<rparr>)"

definition example_hash :: ustr where
  "example_hash = mo_observation_hash (example_observation 0 False)"

definition example_decision :: "ustr \<Rightarrow> CoordinatorDecisionV1" where
  "example_decision h =
     (let d = \<lparr>cd_decision_id = 5, cd_episode_id = 2, cd_decision_index = 0,
        cd_observation_hash = h, cd_proposal_hash = None,
        cd_outcome = NO_PROPOSAL, cd_reason = ustr ''NO_PROPOSAL'', cd_coordinator_implementation = example_ref,
        cd_executed_action_hash = None, cd_feasibility_status = ustr ''UNKNOWN'', cd_decision_hash = zero_hash\<rparr>
      in d\<lparr>cd_decision_hash := own_hash ''decision_hash'' (CoordinatorDecisionV1_json d)\<rparr>)"

definition example_boundary :: "ustr \<Rightarrow> DecisionBoundaryV1" where
  "example_boundary h =
     (let b = \<lparr>db_episode_id = 2, db_decision_index = 0, db_observation = example_observation 0 False, db_proposed_action = None,
        db_coordinator_decision = (example_decision h), db_executed_action = None, db_boundary_hash = zero_hash\<rparr>
      in b\<lparr>db_boundary_hash := own_hash ''boundary_hash'' (DecisionBoundaryV1_json b)\<rparr>)"

definition example_reward :: "nat \<Rightarrow> RewardComponentV1" where
  "example_reward k =
     (let c = \<lparr>rc_component_id = of_nat (10 + k), rc_episode_id = 2, rc_decision_index = 0, rc_ordinal = int k,
        rc_metric_id = ustr ''ep-02'', rc_metric_version = ustr ''1'', rc_reward_implementation = example_ref,
        rc_direction = HIGHER_BETTER, rc_pre_metric_value = Some rational_zero,
        rc_post_metric_value = Some \<lparr>rt_numerator = 1, rt_denominator = 2\<rparr>,
        rc_reward_value = \<lparr>rt_numerator = 1, rt_denominator = 2\<rparr>, rc_status = OBSERVED, rc_neutral_reason = None,
        rc_source_hashes = [], rc_component_hash = zero_hash\<rparr>
      in c\<lparr>rc_component_hash := own_hash ''component_hash'' (RewardComponentV1_json c)\<rparr>)"

definition example_credit :: "nat \<Rightarrow> CreditAssignmentV1" where
  "example_credit k =
     (let c = \<lparr>ca_credit_id = of_nat (20 + k), ca_episode_id = 2, ca_decision_index = 0,
        ca_reward_component_id = of_nat (10 + k), ca_reward_component_hash = rc_component_hash (example_reward k),
        ca_status = ENVIRONMENT, ca_agent_definition_ids = [], ca_source_hashes = [],
        ca_share = \<lparr>rt_numerator = 1, rt_denominator = 1\<rparr>, ca_credited_value = \<lparr>rt_numerator = 1, rt_denominator = 2\<rparr>,
        ca_credit_implementation = example_ref, ca_credit_hash = zero_hash\<rparr>
      in c\<lparr>ca_credit_hash := own_hash ''credit_hash'' (CreditAssignmentV1_json c)\<rparr>)"

definition example_transition :: "ustr \<Rightarrow> TransitionV1" where
  "example_transition h =
     (let t = \<lparr>tr_episode_id = 2, tr_decision_index = 0, tr_boundary = (example_boundary h),
        tr_post_observation = example_observation 1 True, tr_rewards = map example_reward [0..<5],
        tr_credits = map example_credit [0..<5], tr_terminal = True, tr_transition_hash = zero_hash\<rparr>
      in t\<lparr>tr_transition_hash := own_hash ''transition_hash'' (TransitionV1_json t)\<rparr>)"

definition example_episode :: "ustr \<Rightarrow> EpisodeStatus \<Rightarrow> MarlEpisodeV1" where
  "example_episode h s = \<lparr>me_episode_id = 2, me_workspace_id = 3, me_session_id = 4, me_environment_version = ustr ''env-1'',
     me_code_identity = zero_hash, me_status = s, me_transitions = [(example_transition h)], me_pending_boundary = None,
     me_incomplete_marker = None\<rparr>"

definition example_registry :: "ustr \<Rightarrow> ImplementationRegistry" where
  "example_registry h = \<lparr>reg_features = Map.empty,
     reg_rewards = [ref_key example_ref \<mapsto> (\<lambda>p q d. case exact_delta p q d of Inl e \<Rightarrow> Inl (OtherError ''TypeError'') | Inr r \<Rightarrow> Inr r)],
     reg_coordinators = [ref_key example_ref \<mapsto> (\<lambda>b. Inr (example_decision h))], reg_credits = {ref_key example_ref}\<rparr>"

text \<open>A model that was created has the hash of its form, which does not cover the hash.\<close>

lemma MarlObservationV1_sealed:
  assumes "y = (let x = z in x\<lparr>mo_observation_hash := own_hash ''observation_hash'' (MarlObservationV1_json x)\<rparr>)"
  shows "mo_observation_hash y = own_hash ''observation_hash'' (MarlObservationV1_json y)"
  unfolding assms Let_def own_hash_def MarlObservationV1_json_def jobj_def by simp

lemma CoordinatorDecisionV1_sealed:
  assumes "y = (let x = z in x\<lparr>cd_decision_hash := own_hash ''decision_hash'' (CoordinatorDecisionV1_json x)\<rparr>)"
  shows "cd_decision_hash y = own_hash ''decision_hash'' (CoordinatorDecisionV1_json y)"
  unfolding assms Let_def own_hash_def CoordinatorDecisionV1_json_def jobj_def by simp

lemma DecisionBoundaryV1_sealed:
  assumes "y = (let x = z in x\<lparr>db_boundary_hash := own_hash ''boundary_hash'' (DecisionBoundaryV1_json x)\<rparr>)"
  shows "db_boundary_hash y = own_hash ''boundary_hash'' (DecisionBoundaryV1_json y)"
  unfolding assms Let_def own_hash_def DecisionBoundaryV1_json_def jobj_def by simp

lemma RewardComponentV1_sealed:
  assumes "y = (let x = z in x\<lparr>rc_component_hash := own_hash ''component_hash'' (RewardComponentV1_json x)\<rparr>)"
  shows "rc_component_hash y = own_hash ''component_hash'' (RewardComponentV1_json y)"
  unfolding assms Let_def own_hash_def RewardComponentV1_json_def jobj_def by simp

lemma CreditAssignmentV1_sealed:
  assumes "y = (let x = z in x\<lparr>ca_credit_hash := own_hash ''credit_hash'' (CreditAssignmentV1_json x)\<rparr>)"
  shows "ca_credit_hash y = own_hash ''credit_hash'' (CreditAssignmentV1_json y)"
  unfolding assms Let_def own_hash_def CreditAssignmentV1_json_def jobj_def by simp

lemma TransitionV1_sealed:
  assumes "y = (let x = z in x\<lparr>tr_transition_hash := own_hash ''transition_hash'' (TransitionV1_json x)\<rparr>)"
  shows "tr_transition_hash y = own_hash ''transition_hash'' (TransitionV1_json y)"
  unfolding assms Let_def own_hash_def TransitionV1_json_def jobj_def by simp

lemma zero_hash_text [simp]: "hash_text zero_hash"
  by code_simp

lemma example_texts [simp]: "ident_text (ustr ''env-1'')" "ident_text (ustr ''agora.core'')" "ident_text (ustr ''ep-02'')" "version_text (ustr ''1'')"
  "reason_text (ustr ''NO_PROPOSAL'')" "reason_code (ustr ''DONE'')" "feasibility_text (ustr ''UNKNOWN'')"
  by (simp_all add: ident_text_def version_text_def reason_text_def reason_code_def feasibility_text_def ustr_def lower_letter_def
      upper_letter_def is_digit_def scalar_def surrogate_def)

lemma example_ref_valid [simp]: "ImplementationRefV1_valid example_ref"
  by (simp add: example_ref_def ImplementationRefV1_valid_def)

lemma example_observation_valid [simp]: "MarlObservationV1_valid (example_observation i e) \<longleftrightarrow> 0 \<le> i"
  by (simp add: example_observation_def Let_def MarlObservationV1_valid_def)

lemma example_observation_fields [simp]: "mo_episode_id (example_observation i e) = 2" "mo_workspace_id (example_observation i e) = 3"
  "mo_session_id (example_observation i e) = 4" "mo_decision_index (example_observation i e) = i" "mo_terminal (example_observation i e) = e"
  "mo_ledger_seq (example_observation i e) = i" "mo_environment_version (example_observation i e) = ustr ''env-1''"
  "mo_features (example_observation i e) = []" "mo_sources (example_observation i e) = []" "hash_text (mo_observation_hash (example_observation i e))"
  by (simp_all add: example_observation_def Let_def)

lemma example_hash_text [simp]: "hash_text example_hash"
  by (simp add: example_hash_def)

lemma example_boundary_valid: "hash_text h \<Longrightarrow> DecisionBoundaryV1_valid (example_boundary h)"
  by (simp add: example_boundary_def example_decision_def Let_def DecisionBoundaryV1_valid_def CoordinatorDecisionV1_valid_def)

lemma halves: "RationalV1_valid \<lparr>rt_numerator = 1, rt_denominator = 2\<rparr>" "RationalV1_valid \<lparr>rt_numerator = 1, rt_denominator = 1\<rparr>"
  "RationalV1_valid rational_zero" "exact_delta (Some rational_zero) (Some \<lparr>rt_numerator = 1, rt_denominator = 2\<rparr>) HIGHER_BETTER =
    Inr \<lparr>rt_numerator = 1, rt_denominator = 2\<rparr>"
  by (simp add: RationalV1_valid_def rational_zero_def) (simp add: RationalV1_valid_def rational_zero_def, code_simp, code_simp)

lemma example_reward_valid: "k \<le> 4 \<Longrightarrow> RewardComponentV1_valid (example_reward k)"
  by (simp add: example_reward_def Let_def RewardComponentV1_valid_def halves)

lemma example_credit_valid: "CreditAssignmentV1_valid (example_credit k)"
  by (simp add: example_credit_def example_reward_def Let_def CreditAssignmentV1_valid_def halves)

lemma example_transition_valid:
  assumes "hash_text h"
  shows "TransitionV1_valid (example_transition h)"
proof -
  have "list_all RewardComponentV1_valid (map example_reward [0..<5])" "list_all CreditAssignmentV1_valid (map example_credit [0..<5])"
    by (simp_all add: list_all_iff example_reward_valid example_credit_valid)
  moreover have "credits_conserved (map example_reward [0..<5]) (map example_credit [0..<5])"
    unfolding upt_5 by (simp add: credits_conserved_def credits_of_def Let_def example_reward_def example_credit_def)
  moreover have "map rc_ordinal (map example_reward [0..<5]) = [0, 1, 2, 3, 4]" "distinct (map rc_component_id (map example_reward [0..<5]))"
    unfolding upt_5 by (simp_all add: example_reward_def Let_def)
  ultimately show ?thesis using example_boundary_valid [OF assms]
    by (simp add: example_transition_def Let_def TransitionV1_valid_def del: upt_conv_Cons)
       (simp add: example_boundary_def Let_def)
qed

lemma example_episode_valid: "hash_text h \<Longrightarrow> s \<noteq> INCOMPLETE \<Longrightarrow> MarlEpisodeV1_valid (example_episode h s)"
  using example_transition_valid [of h]
  by (cases s) (simp_all add: example_episode_def MarlEpisodeV1_valid_def example_transition_def example_boundary_def Let_def in_scope_def)

lemma example_authentic: "authentic (example_transition h)"
proof -
  have o: "observation_authentic (example_observation i e)" for i e
    using MarlObservationV1_sealed [OF example_observation_def, of i e]
    by (simp add: observation_authentic_def) (simp add: example_observation_def Let_def jlist_def)
  have b: "boundary_authentic (example_boundary h)"
    using DecisionBoundaryV1_sealed [OF example_boundary_def, of h] CoordinatorDecisionV1_sealed [OF example_decision_def, of h] o
    by (simp add: boundary_authentic_def) (simp add: example_boundary_def Let_def)
  have t: "tr_boundary (example_transition h) = example_boundary h" "tr_post_observation (example_transition h) = example_observation 1 True"
    "tr_rewards (example_transition h) = map example_reward [0..<5]" "tr_credits (example_transition h) = map example_credit [0..<5]"
    by (simp_all add: example_transition_def Let_def)
  show ?thesis unfolding authentic_def t
    using b o TransitionV1_sealed [OF example_transition_def, of h]
      RewardComponentV1_sealed [OF example_reward_def] CreditAssignmentV1_sealed [OF example_credit_def] by auto
qed

lemma example_reproduced: "reproduced (example_registry h) (example_transition h)"
  unfolding reproduced_def upt_5
  by (simp add: example_transition_def Let_def example_boundary_def example_registry_def halves)
     (simp add: example_decision_def example_reward_def example_credit_def Let_def halves)

text \<open>An interpreter that reads it.\<close>

definition example_python :: interpreter where
  "example_python = \<lparr>in_levels = 6, in_digits = 0\<rparr>"

lemma below_simps [simp]: "in_levels (below d) = in_levels d - 1" "in_digits (below d) = in_digits d"
  by (simp_all add: below_def)

lemma readable_jobj [simp]: "readable (jobj ms) d \<longleftrightarrow> in_levels d \<noteq> 0 \<and> list_all (\<lambda>kv. readable (snd kv) (below d)) ms"
  by (simp add: jobj_def list_all_iff)

lemma readable_lists [simp]:
  "readable (jlist f xs) d \<longleftrightarrow> in_levels d \<noteq> 0 \<and> list_all (\<lambda>x. readable (f x) (below d)) xs"
  "readable (jtexts ts) d \<longleftrightarrow> in_levels d \<noteq> 0" "readable (juuids us) d \<longleftrightarrow> in_levels d \<noteq> 0"
  by (auto simp: jlist_def jtexts_def juuids_def juuid_def list_all_iff)

lemma readable_leaves [simp]: "readable (juuid u) d" "readable (jtext s) d" "readable (jopt f None) d"
  "readable (jopt f (Some x)) d = readable (f x) d" "in_digits d = 0 \<Longrightarrow> digits_ok d ds"
  by (simp_all add: juuid_def jtext_def jopt_def digits_ok_def)

lemma readable_opt: "(\<And>x. readable (f x) d) \<Longrightarrow> readable (jopt f y) d"
  by (cases y) simp_all

lemma readable_ref [simp]: "readable (ImplementationRefV1_json r) d \<longleftrightarrow> in_levels d \<noteq> 0"
  by (simp add: ImplementationRefV1_json_def)

lemma readable_rational [simp]: "in_digits d = 0 \<Longrightarrow> readable (RationalV1_json r) d \<longleftrightarrow> in_levels d \<noteq> 0"
  by (simp add: RationalV1_json_def)

lemma readable_observation: "in_digits d = 0 \<Longrightarrow> 2 \<le> in_levels d \<Longrightarrow> readable (MarlObservationV1_json (example_observation i e)) d"
  by (simp add: MarlObservationV1_json_def readable_opt)

lemma readable_decision: "in_digits d = 0 \<Longrightarrow> 2 \<le> in_levels d \<Longrightarrow> readable (CoordinatorDecisionV1_json x) d"
  by (simp add: CoordinatorDecisionV1_json_def readable_opt)

lemma readable_boundary: "in_digits d = 0 \<Longrightarrow> 3 \<le> in_levels d \<Longrightarrow> readable (DecisionBoundaryV1_json (example_boundary h)) d"
  by (simp add: DecisionBoundaryV1_json_def example_boundary_def Let_def readable_observation readable_decision)

lemma readable_reward: "in_digits d = 0 \<Longrightarrow> 2 \<le> in_levels d \<Longrightarrow> readable (RewardComponentV1_json x) d"
  by (simp add: RewardComponentV1_json_def readable_opt)

lemma readable_credit: "in_digits d = 0 \<Longrightarrow> 2 \<le> in_levels d \<Longrightarrow> readable (CreditAssignmentV1_json x) d"
  by (simp add: CreditAssignmentV1_json_def readable_opt)

lemma readable_transition: "in_digits d = 0 \<Longrightarrow> 4 \<le> in_levels d \<Longrightarrow> readable (TransitionV1_json (example_transition h)) d"
  unfolding TransitionV1_json_def
  by (simp add: readable_reward readable_credit list_all_iff)
     (simp add: example_transition_def Let_def readable_boundary readable_observation)

lemma readable_manifest: "in_digits d = 0 \<Longrightarrow> 3 \<le> in_levels d \<Longrightarrow> readable (TrajectoryManifestV1_json m) d"
  by (simp add: TrajectoryManifestV1_json_def list_all_iff)

text \<open>Limits large enough for any bundle that the interpreter reads.\<close>

definition limits_of :: "nat \<Rightarrow> BundleLimits" where
  "limits_of n = \<lparr>bl_max_manifest_bytes = n, bl_max_trajectory_bytes = n, bl_max_records = n, bl_max_json_depth = n,
     bl_max_string_length = n, bl_max_array_items = n\<rparr>"

lemma depth_bounded: "\<exists>n. \<forall>m d. n + d \<le> m \<longrightarrow> depth_and_size (limits_of m) d v = None"
proof (induction v)
  case (LStr s)
  show ?case by (intro exI [of _ "length s"]) (simp add: limits_of_def)
next
  case (LList xs)
  have "\<exists>n. \<forall>m d. n + d \<le> m \<longrightarrow> depth_items (limits_of m) d ys = None" if "set ys \<subseteq> set xs" for ys
    using that
  proof (induction ys)
    case (Cons y ys)
    then obtain n k where "\<forall>m d. n + d \<le> m \<longrightarrow> depth_items (limits_of m) d ys = None"
      "\<forall>m d. k + d \<le> m \<longrightarrow> depth_and_size (limits_of m) d y = None" using LList [of y] by (auto simp del: depth_and_size.simps)
    then show ?case by (intro exI [of _ "n + k"]) (simp del: depth_and_size.simps)
  qed simp
  then obtain n where "\<forall>m d. n + d \<le> m \<longrightarrow> depth_items (limits_of m) d xs = None" by blast
  then show ?case by (intro exI [of _ "Suc n + length xs"]) (simp add: limits_of_def)
next
  case (LDict items)
  have "\<exists>n. \<forall>m d. n + d \<le> m \<longrightarrow> depth_members (limits_of m) d ys = None" if "set ys \<subseteq> set items" for ys
    using that
  proof (induction ys)
    case (Cons y ys)
    obtain a b where y: "y = (a, b)" by (cases y)
    with Cons obtain n k where "\<forall>m d. n + d \<le> m \<longrightarrow> depth_members (limits_of m) d ys = None"
      "\<forall>m d. k + d \<le> m \<longrightarrow> depth_and_size (limits_of m) d b = None" using LDict [of y b] by (auto simp del: depth_and_size.simps)
    then show ?case unfolding y by (intro exI [of _ "n + k + length a"]) (simp del: depth_and_size.simps, simp add: limits_of_def)
  qed simp
  then obtain n where "\<forall>m d. n + d \<le> m \<longrightarrow> depth_members (limits_of m) d items = None" by blast
  then show ?case by (intro exI [of _ "Suc n + length items"]) (simp add: limits_of_def)
qed (auto simp: limits_of_def)

lemma limits_exist:
  assumes "readable (TrajectoryManifestV1_json m) d" "list_all (\<lambda>r. readable (record_json r) d) rs"
  shows "\<exists>n. within_limits d (limits_of n) m rs"
proof -
  let ?ok = "\<lambda>n j. depth_and_size (limits_of n) 0 (loaded (normal j)) = None"
  have f: "\<exists>n. \<forall>k \<ge> n. ?ok k j" for j
    using depth_bounded [of "loaded (normal j)"] by (metis add.right_neutral)
  have "\<exists>n. \<forall>k \<ge> n. list_all (\<lambda>r. ?ok k (record_json r)) qs" for qs
  proof (induction qs)
    case (Cons q qs)
    then obtain a b where "\<forall>k \<ge> a. list_all (\<lambda>r. ?ok k (record_json r)) qs" "\<forall>k \<ge> b. ?ok k (record_json q)"
      using f [of "record_json q"] by auto
    then show ?case by (intro exI [of _ "a + b"]) simp
  qed simp
  then obtain a b where a: "\<forall>k \<ge> a. list_all (\<lambda>r. ?ok k (record_json r)) rs"
    and b: "\<forall>k \<ge> b. ?ok k (TrajectoryManifestV1_json m)"
    using f [of "TrajectoryManifestV1_json m"] by metis
  let ?n = "a + b + length (json_line (TrajectoryManifestV1_json m)) + length (concat (map (\<lambda>r. json_line (record_json r)) rs)) + length rs"
  have "list_all (\<lambda>r. ?ok ?n (record_json r)) rs" "?ok ?n (TrajectoryManifestV1_json m)"
    using a b by simp_all
  then have "list_all (\<lambda>r. fits d (limits_of ?n) (record_json r)) rs" "fits d (limits_of ?n) (TrajectoryManifestV1_json m)"
    using assms by (simp_all add: fits_def list_all_iff)
  then show ?thesis by (intro exI [of _ ?n]) (simp add: within_limits_def, simp add: limits_of_def)
qed

lemma example_facts:
  assumes "hash_text h"
  shows "me_transitions (example_episode h s) = [example_transition h]" "me_status (example_episode h s) = s"
    "one_environment (example_episode h s)" "pending_ok (example_episode h s)"
    "list_all (\<lambda>t. authentic t \<and> reproduced (example_registry h) t) (me_transitions (example_episode h s))"
  using example_authentic [of h] example_reproduced [of h]
  by (simp_all add: example_episode_def one_environment_def pending_ok_def)
     (simp add: example_transition_def example_boundary_def Let_def)

lemma example_limits: "\<exists>n. within_limits example_python (limits_of n) (manifest_of (example_episode h s)) (episode_records (example_episode h s))"
  by (rule limits_exist)
    (simp_all add: readable_manifest readable_transition example_python_def episode_records_def example_episode_def option_list_def)

subsection \<open>Properties\<close>

text \<open>C6. The export of a valid episode is verified when the episode is complete and has a transition; when it is
  incomplete and has a transition, the verdict says so and that the bundle is intact; without a transition it fails.
  In the first two cases the verdict names the episode, its hash and the number of records. The hypotheses: in every
  transition the hashes are authentic, the registered implementations reproduce it, and both observations have the
  environment version of the episode (\<open>one_environment\<close>); a pending boundary is the next one of the episode, comes
  with a marker of the episode and is authentic with it (\<open>pending_ok\<close>); the texts are within the limits of the
  bundle and of the interpreter.\<close>

theorem export_verifies:
  assumes "MarlEpisodeV1_valid e" "one_environment e" "pending_ok e"
    and "list_all (\<lambda>t. authentic t \<and> reproduced reg t) (me_transitions e)"
    and "export_episode e = Inr b" "within_limits d l (manifest_of e) (episode_records e)"
  shows "\<exists>v. verify_bundle d (tb_manifest b) (tb_trajectory b) reg [''manifest.json'', ''trajectory.jsonl''] l = Inr v \<and>
    rv_outcome v = (if me_transitions e = [] then MARL_FAILED else if me_status e = COMPLETE then MARL_VERIFIED else MARL_INCOMPLETE) \<and>
    (me_transitions e \<noteq> [] \<longrightarrow> rv_integrity_valid v \<and>
      rv_replay_verified v = (me_status e = COMPLETE) \<and> rv_episode_id v = Some (me_episode_id e) \<and>
      rv_actual_episode_hash v = Some (episode_hash e) \<and> rv_checked_record_count v = int (length (episode_records e)) \<and>
      map_option rf_code (rv_first_failure v) = (if me_status e = COMPLETE then None else Some EPISODE_INCOMPLETE))"
proof -
  have s: "me_status e \<noteq> OPEN" and b: "tb_manifest b = json_line (TrajectoryManifestV1_json (manifest_of e))" "tb_trajectory b = trajectory_of e"
    using assms(5) by (auto simp: export_episode_def validated_def split: if_splits)
  show ?thesis
  proof (cases "me_transitions e = []")
    case True
    have "\<exists>v. verify_bundle d (tb_manifest b) (tb_trajectory b) reg [''manifest.json'', ''trajectory.jsonl''] l = Inr v \<and> rv_outcome v = MARL_FAILED"
      unfolding b by (rule no_transitions_fail [OF export_read [OF assms(1,6) refl]]) (simp add: records_in True)
    with True show ?thesis by simp
  next
    case False
    have "list_all authentic (me_transitions e)" "list_all (reproduced reg) (me_transitions e)" using assms(4) by (simp_all add: list_all_iff)
    note v = export_then_verify [OF assms(1) False assms(2,3) this assms(6) refl]
    show ?thesis using s False unfolding b v
      by (cases "me_status e") (simp_all add: verified_def bundle_failure_def episode_context_def digest_context_def bundle_context_def
          no_context_def manifest_of_def)
  qed
qed

theorem export_verifies_witness:
  "\<exists>b n v. export_episode (example_episode example_hash COMPLETE) = Inr b \<and>
     verify_bundle example_python (tb_manifest b) (tb_trajectory b) (example_registry example_hash)
       [''manifest.json'', ''trajectory.jsonl''] (limits_of n) = Inr v \<and> rv_outcome v = MARL_VERIFIED"
proof -
  obtain n where n: "within_limits example_python (limits_of n) (manifest_of (example_episode example_hash COMPLETE))
      (episode_records (example_episode example_hash COMPLETE))"
    using example_limits by blast
  have v: "MarlEpisodeV1_valid (example_episode example_hash COMPLETE)" by (rule example_episode_valid) simp_all
  note f = example_facts [OF example_hash_text, of COMPLETE]
  have x: "\<exists>b. export_episode (example_episode example_hash COMPLETE) = Inr b" using export_total [OF v] f(2) by simp
  then obtain b where b: "export_episode (example_episode example_hash COMPLETE) = Inr b" by blast
  from export_verifies [OF v f(3-5) b n] b f(1,2) show ?thesis by auto
qed

text \<open>A verified bundle to apply the theorems to, whatever the hash that the decision names.\<close>

lemma example_verified:
  assumes "hash_text h"
  shows "\<exists>mb tb l v. verify_bundle example_python mb tb (example_registry h) [''manifest.json'', ''trajectory.jsonl''] l = Inr v \<and>
    rv_outcome v = MARL_VERIFIED \<and> episode_read example_python mb tb [''manifest.json'', ''trajectory.jsonl''] l = Some (example_episode h COMPLETE)"
proof -
  let ?e = "example_episode h COMPLETE"
  let ?mb = "json_line (TrajectoryManifestV1_json (manifest_of ?e))" and ?tb = "trajectory_of ?e"
  obtain n where n: "within_limits example_python (limits_of n) (manifest_of ?e) (episode_records ?e)"
    using example_limits by blast
  have v: "MarlEpisodeV1_valid ?e" by (rule example_episode_valid [OF assms]) simp
  note f = example_facts [OF assms, of COMPLETE]
  have a: "list_all authentic (me_transitions ?e)" "list_all (reproduced (example_registry h)) (me_transitions ?e)"
    using f(5) by (simp_all add: list_all_iff)
  have ne: "me_transitions ?e \<noteq> []" using f(1) by simp
  have "verify_bundle example_python ?mb ?tb (example_registry h) [''manifest.json'', ''trajectory.jsonl''] (limits_of n) =
      Inr (verified (manifest_of ?e) ?tb (episode_records ?e) ?e)"
    using export_then_verify [OF v ne f(3,4) a n refl] f(2) by simp
  moreover have "episode_read example_python ?mb ?tb [''manifest.json'', ''trajectory.jsonl''] (limits_of n) = Some ?e"
    using export_coherent [OF v ne f(3,4) a(1)] by (simp add: episode_read_def export_read [OF v n refl] coherent_def)
  moreover have "rv_outcome (verified (manifest_of ?e) ?tb (episode_records ?e) ?e) = MARL_VERIFIED" by (simp add: verified_def)
  ultimately show ?thesis by blast
qed

text \<open>A bundle verifies although the decision names another hash than that of its observation.\<close>

lemma observation_reference_unchecked:
  "\<exists>mb tb l v e. verify_bundle example_python mb tb (example_registry h) [''manifest.json'', ''trajectory.jsonl''] l = Inr v \<and>
    rv_outcome v = MARL_VERIFIED \<and> episode_read example_python mb tb [''manifest.json'', ''trajectory.jsonl''] l = Some e \<and>
    (\<exists>t \<in> set (me_transitions e). cd_observation_hash (db_coordinator_decision (tr_boundary t)) \<noteq> mo_observation_hash (db_observation (tr_boundary t)))"
  if "hash_text h" "h \<noteq> example_hash"
proof -
  have "cd_observation_hash (db_coordinator_decision (tr_boundary (example_transition h))) = h"
    "mo_observation_hash (db_observation (tr_boundary (example_transition h))) = example_hash"
    by (simp_all add: example_transition_def example_boundary_def example_decision_def example_hash_def Let_def)
  moreover have "example_transition h \<in> set (me_transitions (example_episode h COMPLETE))"
    by (simp add: example_facts [OF that(1)])
  ultimately show ?thesis using example_verified [OF that(1)] that(2) by metis
qed

text \<open>C17. Two verified bundles with one episode hash hold the same episode, unless two of the texts their hashes
  are computed from collide.\<close>

theorem verified_hash_identifies:
  assumes "verify_bundle d mb tb reg names l = Inr v" "rv_outcome v = MARL_VERIFIED"
    and "verify_bundle d' mb' tb' reg' names' l' = Inr v'" "rv_outcome v' = MARL_VERIFIED"
    and "rv_actual_episode_hash v = rv_actual_episode_hash v'"
  shows "\<exists>e e'. episode_read d mb tb names l = Some e \<and> episode_read d' mb' tb' names' l' = Some e' \<and>
    (e = e' \<or> digest_clash (episode_preimages e) (episode_preimages e'))"
  using assms(1,2)
proof (rule verified_read)
  fix m rs e
  assume e: "episode_read d mb tb names l = Some e" and a: "accepted reg tb m rs e"
    and h: "rv_actual_episode_hash v = Some (episode_hash e)"
  show ?thesis using assms(3,4)
  proof (rule verified_read)
    fix m' rs' e'
    assume e': "episode_read d' mb' tb' names' l' = Some e'" and a': "accepted reg' tb' m' rs' e'"
      and h': "rv_actual_episode_hash v' = Some (episode_hash e')"
    have "list_all authentic (me_transitions e)" "list_all authentic (me_transitions e')"
      using a a' accepted_episode(2) [OF a] accepted_episode(2) [OF a'] by (simp_all add: accepted_def)
    moreover have "episode_hash e = episode_hash e'" using h h' assms(5) by simp
    ultimately have "e = e' \<or> digest_clash (episode_preimages e) (episode_preimages e')"
      using episodes_determined [OF accepted_episode(1) [OF a] accepted_episode(1) [OF a']] accepted_episode(4,5) [OF a] accepted_episode(4,5) [OF a']
      by blast
    with e e' show ?thesis by blast
  qed
qed

theorem verified_hash_identifies_witness:
  "\<exists>mb tb l v e. verify_bundle example_python mb tb (example_registry example_hash) [''manifest.json'', ''trajectory.jsonl''] l = Inr v \<and>
     rv_outcome v = MARL_VERIFIED \<and> episode_read example_python mb tb [''manifest.json'', ''trajectory.jsonl''] l = Some e"
proof -
  obtain mb tb l v where v: "verify_bundle example_python mb tb (example_registry example_hash) [''manifest.json'', ''trajectory.jsonl''] l = Inr v"
    "rv_outcome v = MARL_VERIFIED"
    using example_verified [OF example_hash_text] by blast
  from verified_hash_identifies [OF v v refl] v show ?thesis by blast
qed

theorem verified_bundle_sound_witness:
  "\<exists>mb tb l e. episode_read example_python mb tb [''manifest.json'', ''trajectory.jsonl''] l = Some e \<and> MarlEpisodeV1_valid e \<and>
     list_all (\<lambda>t. authentic t \<and> reproduced (example_registry example_hash) t) (me_transitions e)"
proof -
  obtain mb tb l v where v: "verify_bundle example_python mb tb (example_registry example_hash) [''manifest.json'', ''trajectory.jsonl''] l = Inr v"
    "rv_outcome v = MARL_VERIFIED"
    using example_verified [OF example_hash_text] by blast
  from verified_bundle_sound [OF v] show ?thesis by blast
qed

text \<open>C19. A verification that returns gives a verdict that satisfies the validators of its class, verified exactly when
  every stage accepts the bundle. It does not return when an exception escapes: \<^verbatim>\<open>RecursionError\<close>, only for a file
  with more brackets than there are levels of recursion, or an exception of a class the replay does not catch, which
  a registered function raised on a transition that was read.\<close>

theorem verdict_well_formed:
  "case verify_bundle d mb tb reg names l of
     Inr v \<Rightarrow> ReplayVerificationV1_valid v \<and>
       (rv_outcome v = MARL_VERIFIED \<longleftrightarrow> (\<exists>m rs e. read_bundle d mb tb names l = Inr (m, rs) \<and> accepted reg tb m rs e))
   | Inl x \<Rightarrow> (x = recursion_error \<and> (in_levels d < brackets mb \<or> in_levels d < brackets tb)) \<or>
       (caught x = None \<and> (\<exists>m rs. read_bundle d mb tb names l = Inr (m, rs) \<and> function_raises reg (transitions_in rs) x))"
proof (cases rule: verify_bundle_cases [of d mb tb reg names l])
  case (escapes e)
  then show ?thesis by (simp add: escaping_def)
next
  case (rejected v)
  have "\<not> accepted reg tb m rs e" if "read_bundle d mb tb names l = Inr (m, rs)" for m rs e
    using verify_bundle_Inr [OF that, of reg e] rejected by (auto simp: rejects_def verified_def)
  with rejected show ?thesis by (auto simp: rejects_def)
next
  case (passed m rs e)
  then show ?thesis using verified_valid [OF passed(2), of e] by (auto simp: verified_def)
qed

text \<open>C18. In a valid transition the credits add up, exactly, to the rewards.\<close>

theorem credits_add_up:
  assumes "TransitionV1_valid t"
  shows "total_credit t = total_reward t"
  by (rule credits_total [OF assms])

theorem credits_add_up_witness: "total_credit (example_transition example_hash) = total_reward (example_transition example_hash)"
  by (rule credits_add_up [OF example_transition_valid [OF example_hash_text]])

text \<open>A reward that was observed is always computed.\<close>

lemma reward_specs_texts:
  "list_all (\<lambda>(m, v, i, d). ident_text m \<and> version_text v \<and> ident_text i) REWARD_SPECS"
  by (simp add: REWARD_SPECS_def ident_text_def version_text_def ustr_def lower_letter_def is_digit_def)

lemma reward_component_total:
  assumes "0 \<le> i" "k \<le> 4" "spec \<in> set REWARD_SPECS" "ri_status inp = OBSERVED" "ri_pre_value inp = Some p" "ri_post_value inp = Some q"
    "RationalV1_valid p" "RationalV1_valid q" "ri_neutral_reason inp = None" "list_all hash_text (ri_source_hashes inp)" "sorted (ri_source_hashes inp)"
  shows "\<exists>c. reward_component ep i k ident inp spec = Inr c"
proof -
  obtain m v im d where s: "spec = (m, v, im, d)" by (cases spec)
  have t: "ident_text m" "version_text v" "ident_text im" using reward_specs_texts assms(3) by (auto simp: list_all_iff s)
  show ?thesis using assms t
    by (simp add: reward_component_def s exact_delta_def Let_def RewardComponentV1_create_def validated_def RewardComponentV1_valid_def
        ImplementationRefV1_valid_def del: fraction_rational_from)
qed

theorem reward_vector_exact_witness:
  "\<exists>cs. build_reward_vector 2 0 [1, 2, 3, 4, 5] (replicate 5 \<lparr>ri_pre_value = Some rational_zero,
      ri_post_value = Some \<lparr>rt_numerator = 1, rt_denominator = 2\<rparr>, ri_status = OBSERVED, ri_neutral_reason = None, ri_source_hashes = []\<rparr>) = Inr cs \<and>
    map (\<lambda>c. fraction (rc_reward_value c)) cs = [1 / 2, 1 / 2, 1 / 2, 1 / 2, - 1 / 2]"
proof -
  define i where "i = \<lparr>ri_pre_value = Some rational_zero, ri_post_value = Some \<lparr>rt_numerator = 1, rt_denominator = 2\<rparr>,
    ri_status = OBSERVED, ri_neutral_reason = None, ri_source_hashes = []\<rparr>"
  have a: "\<exists>c. reward_component 2 0 k u i spec = Inr c" if "k \<le> 4" "spec \<in> set REWARD_SPECS" for k u spec
    using that by (intro reward_component_total [where p = rational_zero and q = "\<lparr>rt_numerator = 1, rt_denominator = 2\<rparr>"]) (simp_all add: i_def RationalV1_valid_def rational_zero_def)
  have "\<exists>cs. emap (\<lambda>(k, ident, inp, spec). reward_component 2 0 k ident inp spec)
      (zip [0..<5] (zip [1, 2, 3, 4, 5] (zip (replicate 5 i) REWARD_SPECS))) = Inr cs"
  proof (intro emap_total)
    fix x assume x: "x \<in> set (zip [0..<5] (zip [1, 2, 3, 4, 5 :: uuid] (zip (replicate 5 i) REWARD_SPECS)))"
    obtain k u inp spec where e: "x = (k, u, inp, spec)" by (cases x)
    have z: "(u, inp, spec) \<in> set (zip [1, 2, 3, 4, 5 :: uuid] (zip (replicate 5 i) REWARD_SPECS))" and k: "k \<in> set [0..<5]"
      using x unfolding e by (rule set_zip_rightD, rule set_zip_leftD)
    have y: "(inp, spec) \<in> set (zip (replicate 5 i) REWARD_SPECS)" using z by (rule set_zip_rightD)
    have "inp = i" "spec \<in> set REWARD_SPECS" using set_zip_leftD [OF y] set_zip_rightD [OF y] by auto
    with k a show "\<exists>y. (case x of (k, ident, inp, spec) \<Rightarrow> reward_component 2 0 k ident inp spec) = Inr y" unfolding e by simp
  qed
  then have "\<exists>cs. build_reward_vector 2 0 [1, 2, 3, 4, 5] (replicate 5 i) = Inr cs"
    by (simp add: build_reward_vector_def)
  then obtain cs where cs: "build_reward_vector 2 0 [1, 2, 3, 4, 5] (replicate 5 i) = Inr cs" by blast
  have m: "measured_reward sign i = sign / 2" for sign
    by (simp add: measured_reward_def i_def fraction_def rational_zero_def rat_number_collapse(1) flip: Fract_of_int_quotient) (simp add: Fract_of_int_quotient)
  have "replicate 5 i = [i, i, i, i, i]" by (simp add: numeral_eq_Suc)
  with cs reward_vector_exact [OF cs] m show ?thesis unfolding i_def by auto
qed

text \<open>A bundle of an open episode verifies although such an episode cannot be exported.\<close>

theorem open_bundle_verifies:
  assumes "MarlEpisodeV1_valid e" "me_status e = OPEN" "me_transitions e \<noteq> []" "me_pending_boundary e = None" "one_environment e"
    "list_all (\<lambda>t. authentic t \<and> reproduced reg t) (me_transitions e)" "within_limits d l (manifest_of e) (episode_records e)"
  shows "(\<exists>x. export_episode e = Inl x) \<and>
    (\<exists>v. verify_bundle d (json_line (TrajectoryManifestV1_json (manifest_of e))) (trajectory_of e) reg
      [''manifest.json'', ''trajectory.jsonl''] l = Inr v \<and> rv_outcome v = MARL_VERIFIED)"
proof -
  have p: "pending_ok e" using assms(1,2,4) by (simp add: pending_ok_def MarlEpisodeV1_valid_def)
  have "list_all authentic (me_transitions e)" "list_all (reproduced reg) (me_transitions e)" using assms(6) by (simp_all add: list_all_iff)
  note v = export_then_verify [OF assms(1,3,5) p this assms(7) refl]
  show ?thesis using assms(2) by (simp add: v export_episode_def verified_def)
qed

theorem open_bundle_verifies_witness:
  "\<exists>n v. verify_bundle example_python (json_line (TrajectoryManifestV1_json (manifest_of (example_episode example_hash OPEN))))
      (trajectory_of (example_episode example_hash OPEN)) (example_registry example_hash)
      [''manifest.json'', ''trajectory.jsonl''] (limits_of n) = Inr v \<and> rv_outcome v = MARL_VERIFIED"
proof -
  obtain n where n: "within_limits example_python (limits_of n) (manifest_of (example_episode example_hash OPEN))
      (episode_records (example_episode example_hash OPEN))"
    using example_limits by blast
  have v: "MarlEpisodeV1_valid (example_episode example_hash OPEN)" by (rule example_episode_valid) simp_all
  have p: "me_pending_boundary (example_episode example_hash OPEN) = None" by (simp add: example_episode_def)
  note f = example_facts [OF example_hash_text, of OPEN]
  show ?thesis using open_bundle_verifies [OF v f(2) _ p f(3,5) n] f(1) by auto
qed

end
