(* ===== verification/Spec2Isabelle.thy ===== *)
theory Spec2Isabelle
  imports Consensus_Properties Coordinator_Properties Graph_Properties Marl_Properties
begin

text \<open>
  A verification library for the backend of Agora, a platform on which a panel of agents argues
  about alternatives and a deterministic core decides what the argument supports. All paths are
  relative to \<^verbatim>\<open>src/backend/app\<close>, those of migrations to \<^verbatim>\<open>src/backend\<close>.

  The program and its parts. A session is started and moved through its states by a Temporal workflow
  that applies bootstrap transitions and the control commands of its users; every change of state is
  one database transaction that appends an event to the session's hash-chained ledger and updates
  its projection. A coordinator edits the membership of the coming round and stops a session whose
  token or cost budget is spent. What the agents argue is kept as artifacts: immutable, hashed, revised or
  withdrawn but never changed, each write with its event in the ledger and its node and edges in the
  reasoning graph, in the same transaction. At the end of a round the consensus engine gates the alternatives by
  the verdicts of a solver, scores what is left by one of three strategies, and stores the result of
  the run with its explanation.

  Theories and sources.

  \<^item> \<open>Prelude\<close>: exceptions as values of a sum type with their sequencing operators, UUIDs as 128-bit
    words with their text, stable sorting, numbered lists; the rewrite rules in \<open>result_simps\<close> run
    proofs through chains of operations that may raise.
  \<^item> \<open>Py_Decimal\<close>: the part of Python's \<^verbatim>\<open>decimal\<close> the code uses, with 28 digits and half-even rounding.
  \<^item> \<open>Symbolic_Policy\<close>: \<^verbatim>\<open>domain/symbolic_unknown_policy.py\<close>, the verdicts of \<^verbatim>\<open>ports/symbolic.py\<close>.
  \<^item> \<open>Consensus_Ports\<close>, \<open>Consensus_Helpers\<close>, \<open>Consensus_Strategies\<close>: the value objects of
    \<^verbatim>\<open>ports/consensus.py\<close> with their validators, the shared helpers and the three strategies of
    \<^verbatim>\<open>application/consensus.py\<close>, the gate of \<^verbatim>\<open>domain/consensus.py\<close>; \<open>Consensus_Laws\<close> decomposes an
    evaluation into the ways it can end and proves what each of them has.
  \<^item> \<open>Consensus_Engine\<close>: the strategy registry and the orchestrator, the durable run record, and the
    store of \<^verbatim>\<open>db/consensus.py\<close> with the keys and checks of its two tables and the rounding of its
    \<^verbatim>\<open>Numeric(6, 5)\<close> columns. The locale
    \<open>consensus_strategy\<close> is the port a strategy implements, interpreted for each of the three; the
    locale \<open>result_store\<close> is what the orchestrator asks of the store, interpreted on the SQL store.
  \<^item> \<open>Canonical_Json\<close>: validation of JSON values, canonical text, UTF-8 and SHA-256, as
    \<^verbatim>\<open>domain/reasoning.py\<close> uses them. The locale \<open>prefix_code\<close> gives unique readability to the string
    escapes, to UTF-8 and to the UTF-16 sort keys, which are its three interpretations.
  \<^item> \<open>Reasoning_Ledger\<close>: the event contract of \<^verbatim>\<open>domain/reasoning_ledger.py\<close>, and append, read and
    verify of \<^verbatim>\<open>db/reasoning_ledger.py\<close> over the two tables. The locale \<open>reasoning_ledger\<close> is what
    the lifecycle stores ask of a ledger, interpreted on the SQL ledger.
  \<^item> \<open>Reasoning_Artifacts\<close>: the enumerations, payloads and envelope of \<^verbatim>\<open>domain/reasoning.py\<close> with their
    validators and the content hash, and the column types and check constraints of the artifact table in
    \<^verbatim>\<open>alembic/versions/20260905_0005_reasoning_schema.py\<close>.
  \<^item> \<open>Artifact_Commit\<close>: commit, revision and withdrawal of \<^verbatim>\<open>application/artifact_commit.py\<close> over
    \<^verbatim>\<open>db/reasoning_artifacts.py\<close>, the writes of \<^verbatim>\<open>db/reasoning_graph.py\<close> and the ledger, with the keys and
    triggers of the three tables. A transaction is a list of calls, at the end of which the deferred
    triggers run.
  \<^item> \<open>Graph_Traversal\<close>: the recursive query of \<^verbatim>\<open>db/reasoning_graph.py\<close>, its cursors and the three
    traversals over it. The locale \<open>cursor_codec\<close> is what reading page by page needs of the
    cursors, interpreted on the two cursor functions.
  \<^item> \<open>Session_Lifecycle\<close>: the state graph and contracts of \<^verbatim>\<open>domain/session_lifecycle.py\<close>, the store of
    \<^verbatim>\<open>adapters/inmemory/session_lifecycle.py\<close> over any ledger and that of \<^verbatim>\<open>db/session_lifecycle.py\<close>.
    Both interpret the locale \<open>lifecycle_store\<close>.
  \<^item> \<open>Session_Control\<close>: \<^verbatim>\<open>domain/session_control.py\<close>, \<^verbatim>\<open>domain/session_bootstrap.py\<close>, the request check
    of \<^verbatim>\<open>application/session_control.py\<close>, the two transactions under \<^verbatim>\<open>db\<close> and the workflow of
    \<^verbatim>\<open>adapters/temporal/session_bootstrap.py\<close>. The locale \<open>transition_committer\<close> is what the workflow
    needs of an activity, interpreted on both transactions.
  \<^item> \<open>Coordinator_Policy\<close>: \<^verbatim>\<open>domain/coordinator_policy.py\<close>, \<^verbatim>\<open>db/coordinator_policy.py\<close> and
    \<^verbatim>\<open>application/coordinator_policy.py\<close>: membership interventions, budgets and the budgeted dispatcher.

  \<^item> \<open>Json_Text\<close>: the library functions a reader of JSON text rests on: UTF-8 decoding, \<^verbatim>\<open>json.loads\<close>,
    \<^verbatim>\<open>splitlines\<close> and the texts read as a UUID, and that they read canonical text back. The record
    \<open>interpreter\<close> holds the two limits of the interpreter that the reader meets, levels of recursion
    (\<^verbatim>\<open>RecursionError\<close>) and digits of an integer (\<^verbatim>\<open>ValueError\<close>); every theorem is for all of them.
  \<^item> \<open>Marl_Trajectory\<close>: the contracts of \<^verbatim>\<open>domain/marl.py\<close>, each with its validators, its JSON form, the
    reading of that form and its constructor.
  \<^item> \<open>Marl_Bundle\<close>: \<^verbatim>\<open>application/marl.py\<close>: reward vectors, the export of an episode and the hermetic
    verification of a bundle, with the verdict it ends in or the exception it lets escape. Registered
    functions return a value or raise. \<open>authentic\<close> and \<open>reproduced\<close> say, apart from the checks of the code,
    which hash covers what and what a replay gives. The locale \<open>json_model\<close> is what a model class
    promises of its JSON form, interpreted for the five classes that are written to files.

  State and operations. A table is a finite map or a list of rows in a record; an operation of a store
  takes the state and gives a new one with its result, or the exception, in which case the transaction
  is rolled back and the state is the old one. A validator of a model class is the predicate
  \<open>X_valid\<close>; where the code constructs a value, the construction fails when the predicate does not hold.
  Timestamps, fresh identifiers and solver verdicts are arguments.

  Properties. \<open>Consensus_Properties\<close> (C1, C2, C10, C12, C24, C33, C35 and C40)
  shows that every strategy returns on validated input, what the outcome, the ranking, the dissent and
  the report of a result are, that the gate is its declarative specification, and what the store keeps.
  \<open>Ledger_Properties\<close> (C3, C13, C22, C29 and C34) shows what canonical bytes identify, every
  branch of an append, its idempotence and its behaviour under interleaving, that reachable ledgers
  verify, and that a verified history is determined by its head up to a collision of the digest, which
  the conclusion exhibits. \<open>Artifact_Properties\<close> (C5, C8, C11, C16, C26, C27, C28, C31 and C38) shows the
  shape of artifact histories, that content never changes, that the graph and the ledger are projections
  of the artifacts and the graph has no cycle, what each operation of the service does, what a content
  hash identifies, and which validated artifacts the table accepts. \<open>Graph_Properties\<close> (C25 and C30)
  shows that reading a traversal page by page gives exactly the part of the graph within the depth, when
  a traversal is reported truncated, and which cursors it refuses. \<open>Session_Properties\<close> (C7, C9, C14, C21, C32, C36 and C39) shows
  the invariant of reachable rows, finality of terminal states, agreement of the two stores, and that
  the workflow and the stored projection stay in step. \<open>Coordinator_Properties\<close> (C15, C23 and C37)
  shows what an intervention changes and that no turn is handed on past a budget.

  \<open>Marl_Properties\<close> (C4, C6, C17, C18, C19 and C20) shows that exports verify, what a verified bundle holds and what its hash
  identifies, that verdicts are well formed and which exceptions escape, and that rewards are exact and
  credits add up to them.

  Bounds. The loops of the code are structural recursions over lists. The recursive query of a
  traversal runs \<open>max_depth + 1\<close> rounds, after which its working table is empty (\<open>walk_rounds_enough\<close>);
  \<open>read_all\<close>, a client that reads every page, counts its pages, and \<open>traversal_exact\<close> says that enough of
  them give the whole result. A cursor stands for the JSON value its text decodes to. The attempts
  of an activity are a list of times given by the environment, of which the retry policy lets at most
  ten count, as \<^verbatim>\<open>adapters/temporal/activity_policy.py\<close> configures. The digest works on 32-bit words and
  its length field wraps at 64 bits.

  Assumed of code outside the repository. The serializer behind the input hash of a consensus context
  and the dispatcher that the budgeted dispatcher wraps are arguments without hypotheses on their
  results. PostgreSQL's row lock is modelled by running the locked part of a transaction in the state at
  which the lock is granted, the part before it in an earlier reachable state.

  Not modelled. Within the components above: the parameter catalogues of the strategies (descriptions
  for clients), publication of events after a commit, delivery of signals, derivation of command
  identifiers with \<^verbatim>\<open>uuid5\<close>, registration of agents with their LLM profiles and credentials, and the weight of a graph
  edge, which no operation sets or reads. Of the interpreter: the exponent limits of \<^verbatim>\<open>decimal\<close> (numbers of
  about a million digits), the digit limit where a text is written, and the stack under the functions that
  walk a value already read (\<open>depth_and_size\<close> stops at the nesting the bundle limits allow). Of PostgreSQL:
  the refusal of NUL characters and the widths of integers in tables other than the artifacts', and its
  limits on the size of a document; the rounds of a session are at most 50. An operation that raises inside
  a transaction of its caller leaves it to the caller to commit what was written before: \<open>enforce\<close> returns the
  tables with the failed session beside it, which persist only if the caller of \<^verbatim>\<open>dispatch\<close> commits.

  Other parts not modelled: critique rounds, proposal commits and replay, the registers over artifacts, the
  store of exported episodes and the in-memory adapters. Simulation computes with floating-point numbers; retrieval,
  ingestion, formalization and the gateway are queries and calls to PostgreSQL extensions, parsers,
  solvers and servers; the HTTP layer, the metric catalogue, the migrations and the clients of
  infrastructure are declarations for third-party frameworks.
\<close>

end
